(* ===== verification/Js_Prelude.thy ===== *)
theory Js_Prelude
  imports Main "HOL-Library.Word"
begin

unbundle bit_operations_syntax

text \<open>
  The parts of JavaScript that the components share: numbers with an exact integer value,
  \<open>NaN\<close> and \<open>undefined\<close>, the 32-bit coercions behind the bitwise operators, strings as lists
  of 16-bit code units, and the errors the code throws.  The lemmas at the end are the
  generic list and bit facts that the component proofs rest on.

  A JavaScript number is an IEEE double.  Every number the modelled code computes with is an
  integer below \<open>2 ^ 53\<close> in absolute value under the bounds its properties state, and on those
  the double operations are exact; the model computes on \<open>int\<close>.
\<close>

named_theorems js_simps \<open>unfolding of the JavaScript operators\<close>
named_theorems buf_simps \<open>reads and writes of typed-array views\<close>

section \<open>Values and errors\<close>

type_synonym byte = "8 word"
type_synonym code_unit = "16 word"
type_synonym jstr = "code_unit list"

text \<open>What an element read or an arithmetic expression over element reads can evaluate to.\<close>

datatype jsnum = Num int | NaN | Undef

datatype js_error =
    RangeError string
  | TypeError string
  | PlainError string

type_synonym 'a result = "js_error + 'a"

text \<open>A string literal of the source, as code units.\<close>

definition js :: "string \<Rightarrow> jstr" where
  "js s = map (\<lambda>c. word_of_nat (of_char c)) s"

section \<open>Numbers\<close>

text \<open>\<open>ToInt32\<close> and \<open>ToUint32\<close> of the language specification.\<close>

definition to_int32 :: "int \<Rightarrow> int" where
  "to_int32 x = signed_take_bit 31 x"

definition to_uint32 :: "int \<Rightarrow> int" where
  "to_uint32 x = take_bit 32 x"

text \<open>The shift count is taken modulo 32.\<close>

definition shift_count :: "int \<Rightarrow> nat" where
  "shift_count n = nat (to_uint32 n mod 32)"

definition js_and :: "int \<Rightarrow> int \<Rightarrow> int" where
  "js_and x y = to_int32 x AND to_int32 y"

definition js_or :: "int \<Rightarrow> int \<Rightarrow> int" where
  "js_or x y = to_int32 x OR to_int32 y"

definition js_shl :: "int \<Rightarrow> int \<Rightarrow> int" where
  "js_shl x n = to_int32 (push_bit (shift_count n) (to_int32 x))"

definition js_sar :: "int \<Rightarrow> int \<Rightarrow> int" where
  "js_sar x n = drop_bit (shift_count n) (to_int32 x)"

definition js_shr :: "int \<Rightarrow> int \<Rightarrow> int" where
  "js_shr x n = drop_bit (shift_count n) (to_uint32 x)"

text \<open>Division followed by a 32-bit coercion truncates towards zero.\<close>

definition trunc_div :: "int \<Rightarrow> int \<Rightarrow> int" where
  "trunc_div a b = sgn a * sgn b * (\<bar>a\<bar> div \<bar>b\<bar>)"

text \<open>Coercion of an element read inside a bitwise expression: \<open>undefined\<close> and \<open>NaN\<close> become 0.\<close>

fun num_int :: "jsnum \<Rightarrow> int" where
  "num_int (Num x) = x"
| "num_int NaN = 0"
| "num_int Undef = 0"

text \<open>Arithmetic: \<open>undefined\<close> becomes \<open>NaN\<close>, which is absorbing.\<close>

fun num_add :: "jsnum \<Rightarrow> jsnum \<Rightarrow> jsnum" where
  "num_add (Num x) (Num y) = Num (x + y)"
| "num_add _ _ = NaN"

fun num_mul :: "jsnum \<Rightarrow> jsnum \<Rightarrow> jsnum" where
  "num_mul (Num x) (Num y) = Num (x * y)"
| "num_mul _ _ = NaN"

text \<open>Comparison with \<open>NaN\<close> or \<open>undefined\<close> is false.\<close>

fun num_ge :: "jsnum \<Rightarrow> int \<Rightarrow> bool" where
  "num_ge (Num x) y = (x \<ge> y)"
| "num_ge _ _ = False"

section \<open>Generic lemmas\<close>

lemmas js_op_defs = js_and_def js_or_def js_shl_def js_sar_def js_shr_def

lemma to_int32_id: "- 2147483648 \<le> x \<Longrightarrow> x < 2147483648 \<Longrightarrow> to_int32 x = x"
  unfolding to_int32_def by (rule signed_take_bit_int_eq_self) simp_all

lemma to_int32_id_nonneg: "0 \<le> x \<Longrightarrow> x < 2147483648 \<Longrightarrow> to_int32 x = x"
  by (rule to_int32_id) simp_all

lemma to_uint32_id: "0 \<le> x \<Longrightarrow> x < 4294967296 \<Longrightarrow> to_uint32 x = x"
  unfolding to_uint32_def by (rule take_bit_int_eq_self) simp_all

lemma to_uint32_mod: "to_uint32 x = x mod 4294967296"
  by (simp add: to_uint32_def take_bit_eq_mod)

lemma word_of_int_to_int32 [js_simps]:
  "LENGTH('a) \<le> 32 \<Longrightarrow> (word_of_int (to_int32 x) :: 'a::len word) = word_of_int x"
  by (simp add: to_int32_def word_of_int_eq_iff take_bit_signed_take_bit)

lemma word_of_int_to_uint32 [js_simps]:
  "LENGTH('a) \<le> 32 \<Longrightarrow> (word_of_int (to_uint32 x) :: 'a::len word) = word_of_int x"
  by (simp add: to_uint32_def word_of_int_eq_iff)

lemma and_mask: "n \<le> 31 \<Longrightarrow> js_and x (mask n) = take_bit n x"
proof -
  assume n: "n \<le> 31"
  have "to_int32 (mask n) = mask n"
    using n by (simp add: to_int32_def bit_eq_iff bit_simps) auto
  with n show ?thesis
    by (simp add: js_and_def to_int32_def take_bit_eq_mask [symmetric] take_bit_signed_take_bit)
qed

lemma and_255 [js_simps]: "js_and x 255 = x mod 256"
  using and_mask [of 8 x] by (simp add: mask_eq_exp_minus_1 take_bit_eq_mod)

lemma word_of_int_mod_256 [js_simps]: "(word_of_int (x mod 256) :: byte) = word_of_int x"
  by (simp add: word_of_int_eq_iff take_bit_eq_mod)

lemma uint_byte_bounds [simp]: "uint (b :: byte) < 256" "uint (b :: byte) \<le> 255"
  using uint_lt2p [of b] by simp_all

lemma uint_unit_bounds [simp]: "uint (u :: code_unit) < 65536" "uint (u :: code_unit) \<le> 65535"
  using uint_lt2p [of u] by simp_all

lemma trunc_div_nonneg: "0 \<le> a \<Longrightarrow> 0 < b \<Longrightarrow> trunc_div a b = a div b"
  by (cases "a = 0") (simp_all add: trunc_div_def sgn_if)

lemma num_ge_Num [simp]: "num_ge (Num x) y \<longleftrightarrow> y \<le> x"
  by simp

section \<open>Bitwise operators as arithmetic\<close>

lemma js_or_eq: "js_or x y = to_int32 (x OR y)"
  by (rule bit_eqI) (auto simp: js_or_def to_int32_def bit_simps)

lemma to_int32_or [simp]:
  "to_int32 (to_int32 x OR y) = to_int32 (x OR y)"
  "to_int32 (x OR to_int32 y) = to_int32 (x OR y)"
  by (rule bit_eqI; auto simp: to_int32_def bit_simps min_def)+

lemma or_push_bit: "0 \<le> x \<Longrightarrow> x < 2 ^ n \<Longrightarrow> x OR push_bit n y = x + 2 ^ n * (y :: int)"
  using concat_bit_eq [of n x y] concat_bit_def [of n x y]
  by (simp add: take_bit_int_eq_self push_bit_eq_mult mult.commute)

lemma js_or_commute: "js_or x y = js_or y x"
  by (simp add: js_or_def or.commute)

lemma js_or_assoc: "js_or (js_or x y) z = js_or x (js_or y z)"
  by (simp add: js_or_eq or.assoc)

lemma js_or_left_commute: "js_or x (js_or y z) = js_or y (js_or x z)"
  by (metis js_or_assoc js_or_commute)

lemmas js_or_ac = js_or_assoc js_or_commute js_or_left_commute

lemma or_0: "- 2147483648 \<le> x \<Longrightarrow> x < 2147483648 \<Longrightarrow> js_or x 0 = x"
  by (simp add: js_or_def to_int32_id)

lemma js_and_masks [js_simps]:
  "js_and x 15 = x mod 16" "js_and x 31 = x mod 32" "js_and x 63 = x mod 64" "js_and x 127 = x mod 128"
  "js_and x 1023 = x mod 1024"
  using and_mask [of 4 x] and_mask [of 5 x] and_mask [of 6 x] and_mask [of 7 x] and_mask [of 10 x]
  by (simp_all add: mask_eq_exp_minus_1 take_bit_eq_mod)

lemma js_and_shifted_mask:
  assumes "k + n \<le> 31"
  shows "js_and x (push_bit k (mask n)) = 2 ^ k * ((x div 2 ^ k) mod 2 ^ n)"
proof -
  have "to_int32 (push_bit k (mask n)) = push_bit k (mask n)"
    using assms by (intro bit_eqI) (auto simp: to_int32_def bit_simps)
  moreover have "to_int32 x AND push_bit k (mask n) = push_bit k (take_bit n (drop_bit k x))"
    using assms by (intro bit_eqI) (auto simp: to_int32_def bit_simps)
  ultimately show ?thesis
    by (simp add: js_and_def push_bit_eq_mult take_bit_eq_mod drop_bit_eq_div mult.commute)
qed

lemma js_sar_small:
  assumes "- 2147483648 \<le> x" "x < 2147483648" "k < 32"
  shows "js_sar x (int k) = x div 2 ^ k"
  using assms by (simp add: js_sar_def shift_count_def to_uint32_id to_int32_id drop_bit_eq_div)

lemma js_shr_small:
  assumes "0 \<le> x" "x < 4294967296" "k < 32"
  shows "js_shr x (int k) = x div 2 ^ k"
  using assms by (simp add: js_shr_def shift_count_def to_uint32_id drop_bit_eq_div)

lemma js_shl_small:
  assumes "0 \<le> x" "x * 2 ^ k < 2147483648" "k < 31"
  shows "js_shl x (int k) = x * 2 ^ k"
proof -
  have "x * 1 \<le> x * 2 ^ k" using assms(1) by (intro mult_left_mono) auto
  then have "x < 2147483648" using assms by linarith
  with assms show ?thesis
    by (simp add: js_shl_def shift_count_def to_uint32_id to_int32_id_nonneg push_bit_eq_mult)
qed

text \<open>An or of numbers without a common bit is a sum.\<close>

lemma js_or_sum:
  assumes "0 \<le> x" "x < 2 ^ k" "0 \<le> y" "x + y * 2 ^ k < 2147483648" "k < 31"
  shows "js_or (y * 2 ^ k) x = y * 2 ^ k + x" "js_or x (y * 2 ^ k) = y * 2 ^ k + x"
proof -
  have "x OR push_bit k y = x + y * 2 ^ k" using or_push_bit [of x k y] assms by (simp add: mult.commute)
  then have "js_or x (y * 2 ^ k) = x + y * 2 ^ k"
    using assms by (simp add: js_or_eq push_bit_eq_mult to_int32_id_nonneg)
  then show "js_or (y * 2 ^ k) x = y * 2 ^ k + x" "js_or x (y * 2 ^ k) = y * 2 ^ k + x"
    by (simp_all add: js_or_commute [of "y * 2 ^ k"] add.commute)
qed

lemmas js_sar_simps = js_sar_small [where k = 6, simplified] js_sar_small [where k = 12, simplified]
  js_sar_small [where k = 18, simplified] js_sar_small [where k = 8, simplified]
lemmas js_shl_simps = js_shl_small [where k = 6, simplified] js_shl_small [where k = 10, simplified]
  js_shl_small [where k = 12, simplified] js_shl_small [where k = 18, simplified]

section \<open>String literals\<close>

lemma inj_char_unit: "inj (\<lambda>c :: char. word_of_nat (of_char c) :: code_unit)"
proof (rule injI)
  fix c d :: char
  assume "(word_of_nat (of_char c) :: code_unit) = word_of_nat (of_char d)"
  moreover have "(of_char c :: nat) < 256" "(of_char d :: nat) < 256" by simp_all
  ultimately show "c = d"
    by (simp add: word_of_nat_eq_iff take_bit_nat_eq_self)
qed

lemma distinct_js: "distinct (js s) \<longleftrightarrow> distinct s"
  unfolding js_def by (simp add: distinct_map inj_on_subset [OF inj_char_unit])

lemma length_js [simp]: "length (js s) = length s"
  by (simp add: js_def)

end
