(* ===== verification/Typed_Array.thy ===== *)
theory Typed_Array
  imports Js_Prelude
begin

text \<open>
  The memory model of \<open>Buffer\<close>: an \<open>ArrayBuffer\<close> is a byte list at an address, a \<open>Buffer\<close> is a
  \<open>Uint8Array\<close> view of a range of it, with an object identity.  \<open>Buffer.prototype.slice\<close> makes
  a second view of the same bytes, so writes through one view show in the other: the model
  keeps the sharing.  The model is the branch \<open>Buffer.TYPED_ARRAY_SUPPORT\<close> of the source.

  The locale \<open>byte_array\<close> is the interface that every operation on one buffer uses; it is
  interpreted on the views of the memory.
\<close>

section \<open>Memory, views, element access\<close>

record mem =
  arrays :: "byte list list"
  next_id :: nat

record buffer =
  bid :: nat
  arr :: nat
  off :: nat
  blen :: nat

definition wf_buffer :: "mem \<Rightarrow> buffer \<Rightarrow> bool" where
  "wf_buffer m b \<longleftrightarrow> arr b < length (arrays m) \<and> off b + blen b \<le> length (arrays m ! arr b) \<and>
     bid b < next_id m \<and> blen b \<le> 2147483647"

text \<open>The elements a view shows.\<close>

definition contents :: "mem \<Rightarrow> buffer \<Rightarrow> byte list" where
  "contents m b = take (blen b) (drop (off b) (arrays m ! arr b))"

text \<open>\<open>this[i]\<close> on the right of an expression: out of range it is \<open>undefined\<close>.\<close>

definition elem :: "byte list \<Rightarrow> int \<Rightarrow> jsnum" where
  "elem xs i = (if 0 \<le> i \<and> i < int (length xs) then Num (uint (xs ! nat i)) else Undef)"

text \<open>\<open>this[i] = v\<close>: the value is taken modulo 256, a write out of range does nothing.\<close>

definition buf_set :: "mem \<Rightarrow> buffer \<Rightarrow> int \<Rightarrow> int \<Rightarrow> mem" where
  "buf_set m b i v =
     (if 0 \<le> i \<and> i < int (blen b)
      then m\<lparr>arrays := (arrays m)[arr b := (arrays m ! arr b)[off b + nat i := word_of_int v]]\<rparr>
      else m)"

definition buf_get :: "mem \<Rightarrow> buffer \<Rightarrow> int \<Rightarrow> jsnum" where
  "buf_get m b i = elem (contents m b) i"

text \<open>\<open>new Uint8Array(n)\<close>: fresh zero bytes, a fresh object.\<close>

definition new_array :: "mem \<Rightarrow> nat \<Rightarrow> buffer \<times> mem" where
  "new_array m n =
     (\<lparr>bid = next_id m, arr = length (arrays m), off = 0, blen = n\<rparr>,
      \<lparr>arrays = arrays m @ [replicate n 0], next_id = Suc (next_id m)\<rparr>)"

text \<open>\<open>subarray(start, end)\<close> with both bounds already in range.\<close>

definition subarray :: "mem \<Rightarrow> buffer \<Rightarrow> nat \<Rightarrow> nat \<Rightarrow> buffer \<times> mem" where
  "subarray m b start fin =
     (\<lparr>bid = next_id m, arr = arr b, off = off b + start, blen = fin - start\<rparr>,
      m\<lparr>next_id := Suc (next_id m)\<rparr>)"

text \<open>Two views that share no byte.\<close>

definition disjoint_views :: "buffer \<Rightarrow> buffer \<Rightarrow> bool" where
  "disjoint_views a b \<longleftrightarrow> arr a \<noteq> arr b \<or> off a + blen a \<le> off b \<or> off b + blen b \<le> off a"

section \<open>Runs of writes\<close>

text \<open>Writing a list of values at consecutive indices, and the list operation it amounts to.\<close>

primrec put_run :: "('s \<Rightarrow> int \<Rightarrow> int \<Rightarrow> 's) \<Rightarrow> 's \<Rightarrow> int \<Rightarrow> int list \<Rightarrow> 's" where
  "put_run put s i [] = s"
| "put_run put s i (v # vs) = put_run put (put s i v) (i + 1) vs"

primrec put_down :: "('s \<Rightarrow> int \<Rightarrow> int \<Rightarrow> 's) \<Rightarrow> 's \<Rightarrow> int \<Rightarrow> int list \<Rightarrow> 's" where
  "put_down put s i [] = s"
| "put_down put s i (v # vs) = put_down put (put s i v) (i - 1) vs"

definition splice_at :: "nat \<Rightarrow> 'a list \<Rightarrow> 'a list \<Rightarrow> 'a list" where
  "splice_at n vs xs = take n xs @ vs @ drop (n + length vs) xs"

lemma splice_at_Nil [simp]: "splice_at n [] xs = xs"
  by (simp add: splice_at_def)

lemma length_splice_at [simp]:
  "n + length vs \<le> length xs \<Longrightarrow> length (splice_at n vs xs) = length xs"
  by (simp add: splice_at_def)

lemma splice_at_Cons:
  assumes "n + Suc (length vs) \<le> length xs"
  shows "splice_at n (v # vs) xs = splice_at (Suc n) vs (xs[n := v])"
  using assms
  by (simp add: splice_at_def take_Suc_conv_app_nth)

lemma splice_at_snoc:
  assumes "n + Suc (length vs) \<le> length xs"
  shows "splice_at n (vs @ [v]) xs = splice_at n vs (xs[n + length vs := v])"
proof -
  have "drop (n + length vs) (xs[n + length vs := v]) = v # drop (Suc (n + length vs)) xs"
    using assms by (subst Cons_nth_drop_Suc [symmetric]) auto
  then show ?thesis using assms by (simp add: splice_at_def)
qed

lemma nth_splice_at:
  assumes "n + length vs \<le> length xs" "i < length xs"
  shows "splice_at n vs xs ! i = (if n \<le> i \<and> i < n + length vs then vs ! (i - n) else xs ! i)"
  using assms by (auto simp: splice_at_def nth_append min_def)

locale byte_array =
  fixes get :: "'s \<Rightarrow> int \<Rightarrow> jsnum"
    and put :: "'s \<Rightarrow> int \<Rightarrow> int \<Rightarrow> 's"
    and bytes :: "'s \<Rightarrow> byte list"
    and ok :: "'s \<Rightarrow> bool"
  assumes get_elem: "ok s \<Longrightarrow> get s i = elem (bytes s) i"
    and set_in: "ok s \<Longrightarrow> 0 \<le> i \<Longrightarrow> i < int (length (bytes s)) \<Longrightarrow>
        bytes (put s i v) = (bytes s)[nat i := word_of_int v]"
    and set_out: "ok s \<Longrightarrow> \<not> (0 \<le> i \<and> i < int (length (bytes s))) \<Longrightarrow> put s i v = s"
    and set_ok: "ok s \<Longrightarrow> ok (put s i v)"
begin

lemma length_set: "ok s \<Longrightarrow> length (bytes (put s i v)) = length (bytes s)"
  by (cases "0 \<le> i \<and> i < int (length (bytes s))") (auto simp: set_in set_out)

lemma get_set_same:
  "ok s \<Longrightarrow> 0 \<le> i \<Longrightarrow> i < int (length (bytes s)) \<Longrightarrow>
    get (put s i v) i = Num (uint (word_of_int v :: byte))"
  by (auto simp: get_elem set_ok elem_def set_in)

lemma get_set_other:
  "ok s \<Longrightarrow> i \<noteq> j \<Longrightarrow> get (put s i v) j = get s j"
  by (cases "0 \<le> i \<and> i < int (length (bytes s))")
    (auto simp: get_elem set_ok set_out elem_def set_in nth_list_update)

lemma put_run_ok: "ok s \<Longrightarrow> ok (put_run put s i vs)"
  by (induction vs arbitrary: s i) (simp_all add: set_ok)

lemma put_run_bytes:
  assumes "ok s" "0 \<le> i" "nat i + length vs \<le> length (bytes s)"
  shows "bytes (put_run put s i vs) = splice_at (nat i) (map word_of_int vs) (bytes s)"
  using assms
proof (induction vs arbitrary: s i)
  case Nil
  then show ?case by simp
next
  case (Cons v vs)
  have "bytes (put_run put (put s i v) (i + 1) vs) =
      splice_at (nat (i + 1)) (map word_of_int vs) (bytes (put s i v))"
    using Cons.prems by (intro Cons.IH) (simp_all add: set_ok length_set nat_add_distrib)
  also have "\<dots> = splice_at (nat i) (map word_of_int (v # vs)) (bytes s)"
    using Cons.prems by (simp add: set_in splice_at_Cons nat_add_distrib)
  finally show ?case by simp
qed

lemma put_down_ok: "ok s \<Longrightarrow> ok (put_down put s i vs)"
  by (induction vs arbitrary: s i) (simp_all add: set_ok)

lemma put_down_bytes:
  assumes "ok s" "i < int (length (bytes s))" "int (length vs) \<le> i + 1"
  shows "bytes (put_down put s i vs) =
    splice_at (nat (i + 1) - length vs) (rev (map word_of_int vs)) (bytes s)"
  using assms
proof (induction vs arbitrary: s i)
  case Nil
  then show ?case by simp
next
  case (Cons v vs)
  let ?n = "nat (i + 1) - length (v # vs)"
  have n: "nat (i - 1 + 1) - length vs = ?n" "?n + length vs = nat i"
    using Cons.prems by auto
  have "bytes (put_down put (put s i v) (i - 1) vs) =
      splice_at (nat (i - 1 + 1) - length vs) (rev (map word_of_int vs)) (bytes (put s i v))"
    using Cons.prems by (intro Cons.IH) (simp_all add: set_ok length_set)
  also have "\<dots> = splice_at ?n (rev (map word_of_int vs) @ [word_of_int v]) (bytes s)"
    using Cons.prems n by (subst splice_at_snoc) (simp_all add: set_in)
  finally show ?case by simp
qed

lemma get_put_run_before: "ok s \<Longrightarrow> j < i \<Longrightarrow> get (put_run put s i vs) j = get s j"
  by (induction vs arbitrary: s i) (simp_all add: set_ok get_set_other)

end

section \<open>The interface on the memory\<close>

lemma length_contents [simp]: "wf_buffer m b \<Longrightarrow> length (contents m b) = blen b"
  by (auto simp: wf_buffer_def contents_def)

lemma wf_buffer_set [buf_simps]: "wf_buffer m c \<Longrightarrow> wf_buffer (buf_set m b i v) c"
  by (cases "arr b = arr c") (auto simp: wf_buffer_def buf_set_def)

lemma contents_set:
  assumes "wf_buffer m b" "0 \<le> i" "i < int (blen b)"
  shows "contents (buf_set m b i v) b = (contents m b)[nat i := word_of_int v]"
proof -
  have "nat i < blen b" using assms by simp
  then show ?thesis
    using assms
    by (simp add: contents_def buf_set_def wf_buffer_def drop_update_swap take_update_swap)
qed

lemma contents_set_disjoint [buf_simps]:
  assumes "disjoint_views b c"
  shows "contents (buf_set m b i v) c = contents m c"
proof (cases "arr b = arr c \<and> 0 \<le> i \<and> i < int (blen b) \<and> arr b < length (arrays m)")
  case True
  then have "off c + blen c \<le> off b + nat i \<or> off b + nat i < off c"
    using assms by (auto simp: disjoint_views_def)
  with True show ?thesis
    by (auto simp: contents_def buf_set_def drop_update_swap take_update_cancel drop_update_cancel)
next
  case False
  then show ?thesis
    by (cases "arr b < length (arrays m)")
      (auto simp: contents_def buf_set_def nth_list_update list_update_beyond)
qed

interpretation view: byte_array
  "\<lambda>m. buf_get m b" "\<lambda>m. buf_set m b" "\<lambda>m. contents m b" "\<lambda>m. wf_buffer m b" for b
  by unfold_locales (simp_all add: buf_get_def contents_set wf_buffer_set, auto simp: buf_set_def)

lemma wf_put_run [buf_simps]: "wf_buffer m c \<Longrightarrow> wf_buffer (put_run (\<lambda>m. buf_set m b) m i vs) c"
  by (induction vs arbitrary: m i) (simp_all add: wf_buffer_set)

lemma wf_put_down [buf_simps]: "wf_buffer m c \<Longrightarrow> wf_buffer (put_down (\<lambda>m. buf_set m b) m i vs) c"
  by (induction vs arbitrary: m i) (simp_all add: wf_buffer_set)

lemma contents_put_down_disjoint [buf_simps]:
  "disjoint_views b c \<Longrightarrow> contents (put_down (\<lambda>m. buf_set m b) m i vs) c = contents m c"
  by (induction vs arbitrary: m i) (simp_all add: contents_set_disjoint)

lemma contents_put_run_disjoint [buf_simps]:
  "disjoint_views b c \<Longrightarrow> contents (put_run (\<lambda>m. buf_set m b) m i vs) c = contents m c"
  by (induction vs arbitrary: m i) (simp_all add: contents_set_disjoint)

lemma new_array_wf:
  assumes "new_array m n = (b, m')" "n \<le> 2147483647"
  shows "wf_buffer m' b" "contents m' b = replicate n 0" "blen b = n"
  using assms by (auto simp: new_array_def wf_buffer_def contents_def)

lemma new_array_keeps:
  assumes "new_array m n = (b, m')" "wf_buffer m c"
  shows "wf_buffer m' c" "contents m' c = contents m c" "disjoint_views b c"
    "disjoint_views c b" "bid b \<noteq> bid c"
  using assms
  by (auto simp: new_array_def wf_buffer_def contents_def nth_append disjoint_views_def)

section \<open>Slices\<close>

text \<open>
  The bounds \<open>Buffer.prototype.slice\<close> computes: \<open>~~x\<close> is \<open>ToInt32\<close>, negative bounds count from
  the end, both are clipped to the length, and an end before the start gives an empty slice.
\<close>

definition slice_bounds :: "int \<Rightarrow> int \<Rightarrow> int option \<Rightarrow> int \<times> int" where
  "slice_bounds len start0 end0 =
     (let start = to_int32 start0;
          fin = (case end0 of None \<Rightarrow> len | Some e \<Rightarrow> to_int32 e);
          start = (if start < 0 then (if start + len < 0 then 0 else start + len)
                   else if start > len then len else start);
          fin = (if fin < 0 then (if fin + len < 0 then 0 else fin + len)
                 else if fin > len then len else fin);
          fin = (if fin < start then start else fin)
      in (start, fin))"

definition slice :: "mem \<Rightarrow> buffer \<Rightarrow> int \<Rightarrow> int option \<Rightarrow> buffer \<times> mem" where
  "slice m this start0 end0 =
     (let (start, fin) = slice_bounds (int (blen this)) start0 end0
      in subarray m this (nat start) (nat fin))"

text \<open>The elements of a slice, for code that only reads it.\<close>

definition slice_list :: "byte list \<Rightarrow> int \<Rightarrow> int option \<Rightarrow> byte list" where
  "slice_list xs start0 end0 =
     (let (start, fin) = slice_bounds (int (length xs)) start0 end0
      in take (nat fin - nat start) (drop (nat start) xs))"

lemma slice_bounds_range:
  assumes "0 \<le> len" "slice_bounds len start0 end0 = (s, e)"
  shows "0 \<le> s" "s \<le> e" "e \<le> len"
  using assms by (auto simp: slice_bounds_def Let_def split: if_splits option.splits)

lemma slice_bounds_id:
  assumes "0 \<le> start" "start \<le> fin" "fin \<le> len" "len < 2147483648"
  shows "slice_bounds len start (Some fin) = (start, fin)"
  using assms by (simp add: slice_bounds_def to_int32_id_nonneg)

lemma slice_wf:
  assumes "wf_buffer m b" "slice m b start0 end0 = (c, m')"
  shows "wf_buffer m' c" "contents m' c = slice_list (contents m b) start0 end0"
    "arr c = arr b" "arrays m' = arrays m"
proof -
  obtain s e where se: "slice_bounds (int (blen b)) start0 end0 = (s, e)" by fastforce
  then have r: "0 \<le> s" "s \<le> e" "e \<le> int (blen b)" using slice_bounds_range [of "int (blen b)"] by auto
  have c: "c = \<lparr>bid = next_id m, arr = arr b, off = off b + nat s, blen = nat e - nat s\<rparr>"
    "m' = m\<lparr>next_id := Suc (next_id m)\<rparr>"
    using assms se by (auto simp: slice_def subarray_def)
  show "wf_buffer m' c" using assms(1) r c by (auto simp: wf_buffer_def)
  have "slice_list (contents m b) start0 end0 = take (nat e - nat s) (drop (nat s) (contents m b))"
    using assms(1) se by (simp add: slice_list_def)
  also have "\<dots> = contents m' c"
    using r c by (simp add: contents_def drop_take add.commute min_def)
  finally show "contents m' c = slice_list (contents m b) start0 end0" by simp
  show "arr c = arr b" "arrays m' = arrays m" using c by simp_all
qed

end
