(* ===== verification/Buffer_Read_Int.thy ===== *)
theory Buffer_Read_Int
  imports Typed_Array
begin

text \<open>
  The integer readers of \<open>Buffer.prototype\<close> (module 379 of \<open>swagger-ui.js\<close>).  A reader sees
  the buffer as the list of its elements.  \<open>noAssert\<close> switches the bounds check off; a read out
  of range is then \<open>undefined\<close>, 0 inside a bitwise expression and \<open>NaN\<close> inside a sum.

  The reference value of a run of bytes is \<open>horner_sum uint 256\<close>, little endian first; the
  lemmas say that every reader computes it, that the fixed-width readers agree with the
  generic ones, and that the signed readers are the two's complement of the unsigned ones.
\<close>

section \<open>The readers\<close>

definition checkOffset :: "int \<Rightarrow> int \<Rightarrow> int \<Rightarrow> unit result" where
  "checkOffset offset ext len =
     (if offset < 0 then Inl (RangeError ''offset is not uint'')
      else if offset + ext > len then Inl (RangeError ''Trying to access beyond buffer length'')
      else Inr ())"

text \<open>The check in front of a body, skipped under \<open>noAssert\<close>.\<close>

definition guarded :: "bool \<Rightarrow> unit result \<Rightarrow> 'a result \<Rightarrow> 'a result" where
  "guarded noAssert check body =
     (if noAssert then body else case check of Inl e \<Rightarrow> Inl e | Inr _ \<Rightarrow> body)"

text \<open>\<open>while (++i < byteLength && (mul *= 256)) val += this[offset + i] * mul\<close>\<close>

function readLE_loop :: "byte list \<Rightarrow> int \<Rightarrow> int \<Rightarrow> int \<Rightarrow> int \<Rightarrow> jsnum \<Rightarrow> int \<times> jsnum" where
  "readLE_loop this offset byteLength i mul val =
     (if i + 1 < byteLength
      then readLE_loop this offset byteLength (i + 1) (mul * 256)
             (num_add val (num_mul (elem this (offset + (i + 1))) (Num (mul * 256))))
      else (mul, val))"
  by pat_completeness auto
termination
  by (relation "measure (\<lambda>(this, offset, byteLength, i, mul, val). nat (byteLength - i))") auto

declare readLE_loop.simps [simp del]

text \<open>\<open>while (byteLength > 0 && (mul *= 256)) val += this[offset + --byteLength] * mul\<close>\<close>

function readBE_loop :: "byte list \<Rightarrow> int \<Rightarrow> int \<Rightarrow> int \<Rightarrow> jsnum \<Rightarrow> int \<times> jsnum" where
  "readBE_loop this offset i mul val =
     (if i > 0
      then readBE_loop this offset (i - 1) (mul * 256)
             (num_add val (num_mul (elem this (offset + (i - 1))) (Num (mul * 256))))
      else (mul, val))"
  by pat_completeness auto
termination
  by (relation "measure (\<lambda>(this, offset, i, mul, val). nat i)") auto

declare readBE_loop.simps [simp del]

definition readUIntLE :: "byte list \<Rightarrow> int \<Rightarrow> int \<Rightarrow> bool \<Rightarrow> jsnum result" where
  "readUIntLE this offset0 byteLength0 noAssert =
     (let offset = js_or offset0 0; byteLength = js_or byteLength0 0 in
      guarded noAssert (checkOffset offset byteLength (int (length this)))
        (Inr (snd (readLE_loop this offset byteLength 0 1 (elem this offset)))))"

definition readUIntBE :: "byte list \<Rightarrow> int \<Rightarrow> int \<Rightarrow> bool \<Rightarrow> jsnum result" where
  "readUIntBE this offset0 byteLength0 noAssert =
     (let offset = js_or offset0 0; byteLength = js_or byteLength0 0 in
      guarded noAssert (checkOffset offset byteLength (int (length this)))
        (Inr (snd (readBE_loop this offset (byteLength - 1) 1 (elem this (offset + (byteLength - 1)))))))"

definition readUInt8 :: "byte list \<Rightarrow> int \<Rightarrow> bool \<Rightarrow> jsnum result" where
  "readUInt8 this offset noAssert =
     guarded noAssert (checkOffset offset 1 (int (length this))) (Inr (elem this offset))"

text \<open>An element inside a bitwise expression.\<close>

definition bits :: "byte list \<Rightarrow> int \<Rightarrow> int" where
  "bits this i = num_int (elem this i)"

definition readUInt16LE :: "byte list \<Rightarrow> int \<Rightarrow> bool \<Rightarrow> jsnum result" where
  "readUInt16LE this offset noAssert =
     guarded noAssert (checkOffset offset 2 (int (length this)))
       (Inr (Num (js_or (bits this offset) (js_shl (bits this (offset + 1)) 8))))"

definition readUInt16BE :: "byte list \<Rightarrow> int \<Rightarrow> bool \<Rightarrow> jsnum result" where
  "readUInt16BE this offset noAssert =
     guarded noAssert (checkOffset offset 2 (int (length this)))
       (Inr (Num (js_or (js_shl (bits this offset) 8) (bits this (offset + 1)))))"

definition readUInt32LE :: "byte list \<Rightarrow> int \<Rightarrow> bool \<Rightarrow> jsnum result" where
  "readUInt32LE this offset noAssert =
     guarded noAssert (checkOffset offset 4 (int (length this)))
       (Inr (num_add
          (Num (js_or (js_or (bits this offset) (js_shl (bits this (offset + 1)) 8))
                      (js_shl (bits this (offset + 2)) 16)))
          (num_mul (elem this (offset + 3)) (Num 16777216))))"

definition readUInt32BE :: "byte list \<Rightarrow> int \<Rightarrow> bool \<Rightarrow> jsnum result" where
  "readUInt32BE this offset noAssert =
     guarded noAssert (checkOffset offset 4 (int (length this)))
       (Inr (num_add (num_mul (elem this offset) (Num 16777216))
          (Num (js_or (js_or (js_shl (bits this (offset + 1)) 16) (js_shl (bits this (offset + 2)) 8))
                      (bits this (offset + 3))))))"

text \<open>\<open>mul *= 128; if (val >= mul) val -= Math.pow(2, 8 * byteLength)\<close>\<close>

definition sign_fix :: "int \<Rightarrow> int \<times> jsnum \<Rightarrow> jsnum" where
  "sign_fix byteLength = (\<lambda>(mul, val).
     if num_ge val (mul * 128) then num_add val (Num (- (2 ^ nat (8 * byteLength)))) else val)"

definition readIntLE :: "byte list \<Rightarrow> int \<Rightarrow> int \<Rightarrow> bool \<Rightarrow> jsnum result" where
  "readIntLE this offset0 byteLength0 noAssert =
     (let offset = js_or offset0 0; byteLength = js_or byteLength0 0 in
      guarded noAssert (checkOffset offset byteLength (int (length this)))
        (Inr (sign_fix byteLength (readLE_loop this offset byteLength 0 1 (elem this offset)))))"

definition readIntBE :: "byte list \<Rightarrow> int \<Rightarrow> int \<Rightarrow> bool \<Rightarrow> jsnum result" where
  "readIntBE this offset0 byteLength0 noAssert =
     (let offset = js_or offset0 0; byteLength = js_or byteLength0 0 in
      guarded noAssert (checkOffset offset byteLength (int (length this)))
        (Inr (sign_fix byteLength
          (readBE_loop this offset (byteLength - 1) 1 (elem this (offset + (byteLength - 1)))))))"

definition readInt8 :: "byte list \<Rightarrow> int \<Rightarrow> bool \<Rightarrow> jsnum result" where
  "readInt8 this offset noAssert =
     guarded noAssert (checkOffset offset 1 (int (length this)))
       (if js_and (bits this offset) 128 = 0 then Inr (elem this offset)
        else Inr (num_mul (num_add (num_add (Num 255) (num_mul (Num (- 1)) (elem this offset))) (Num 1))
                          (Num (- 1))))"

text \<open>\<open>val & 32768 ? val | 4294901760 : val\<close>\<close>

definition sign16 :: "int \<Rightarrow> int" where
  "sign16 val = (if js_and val 32768 \<noteq> 0 then js_or val 4294901760 else val)"

definition readInt16LE :: "byte list \<Rightarrow> int \<Rightarrow> bool \<Rightarrow> jsnum result" where
  "readInt16LE this offset noAssert =
     guarded noAssert (checkOffset offset 2 (int (length this)))
       (Inr (Num (sign16 (js_or (bits this offset) (js_shl (bits this (offset + 1)) 8)))))"

definition readInt16BE :: "byte list \<Rightarrow> int \<Rightarrow> bool \<Rightarrow> jsnum result" where
  "readInt16BE this offset noAssert =
     guarded noAssert (checkOffset offset 2 (int (length this)))
       (Inr (Num (sign16 (js_or (bits this (offset + 1)) (js_shl (bits this offset) 8)))))"

definition readInt32LE :: "byte list \<Rightarrow> int \<Rightarrow> bool \<Rightarrow> jsnum result" where
  "readInt32LE this offset noAssert =
     guarded noAssert (checkOffset offset 4 (int (length this)))
       (Inr (Num (js_or (js_or (js_or (bits this offset) (js_shl (bits this (offset + 1)) 8))
          (js_shl (bits this (offset + 2)) 16)) (js_shl (bits this (offset + 3)) 24))))"

definition readInt32BE :: "byte list \<Rightarrow> int \<Rightarrow> bool \<Rightarrow> jsnum result" where
  "readInt32BE this offset noAssert =
     guarded noAssert (checkOffset offset 4 (int (length this)))
       (Inr (Num (js_or (js_or (js_or (js_shl (bits this offset) 24) (js_shl (bits this (offset + 1)) 16))
          (js_shl (bits this (offset + 2)) 8)) (bits this (offset + 3)))))"

section \<open>Reference values\<close>

abbreviation le_value :: "byte list \<Rightarrow> int" where
  "le_value bs \<equiv> horner_sum uint 256 bs"

abbreviation be_value :: "byte list \<Rightarrow> int" where
  "be_value bs \<equiv> horner_sum uint 256 (rev bs)"

text \<open>The two's complement reading of an \<open>n\<close>-byte value.\<close>

definition signed_value :: "nat \<Rightarrow> int \<Rightarrow> int" where
  "signed_value n v = (if v \<ge> 2 ^ (8 * n - 1) then v - 2 ^ (8 * n) else v)"

abbreviation bytes_at :: "byte list \<Rightarrow> int \<Rightarrow> nat \<Rightarrow> byte list" where
  "bytes_at this offset n \<equiv> take n (drop (nat offset) this)"

abbreviation in_bounds :: "byte list \<Rightarrow> int \<Rightarrow> nat \<Rightarrow> bool" where
  "in_bounds this offset n \<equiv> 0 \<le> offset \<and> offset + int n \<le> int (length this)"

lemma le_value_bounds: "0 \<le> le_value bs \<and> le_value bs < 256 ^ length bs"
proof (induction bs)
  case (Cons b bs)
  have "uint b + 256 * le_value bs < 256 + 256 * (256 ^ length bs - 1)"
    using Cons by (intro add_less_le_mono mult_left_mono) auto
  with Cons show ?case by simp
qed simp

lemma signed_value_signed_take_bit:
  assumes "0 < n" "0 \<le> v" "v < 2 ^ (8 * n)"
  shows "signed_value n v = signed_take_bit (8 * n - 1) v"
proof -
  obtain k where k: "8 * n = Suc k" using assms by (cases "8 * n") auto
  have "signed_take_bit k v = take_bit (Suc k) (v + 2 ^ k) - 2 ^ k"
    by (rule signed_take_bit_eq_take_bit_shift)
  also have "\<dots> = (if v \<ge> 2 ^ k then v - 2 ^ Suc k else v)"
  proof (cases "v \<ge> 2 ^ k")
    case True
    have "take_bit (Suc k) (v + 2 ^ k) = take_bit (Suc k) (v + 2 ^ k - 2 ^ Suc k)"
      by (simp only: take_bit_eq_mod minus_mod_self2)
    also have "v + 2 ^ k - 2 ^ Suc k = v - 2 ^ k" by simp
    also have "take_bit (Suc k) (v - 2 ^ k) = v - 2 ^ k"
      using True assms k by (intro take_bit_int_eq_self) auto
    finally show ?thesis using True by simp
  next
    case False
    then have "take_bit (Suc k) (v + 2 ^ k) = v + 2 ^ k"
      using assms by (intro take_bit_int_eq_self) auto
    with False show ?thesis by simp
  qed
  finally show ?thesis by (simp add: signed_value_def k)
qed

section \<open>Bounds checks\<close>

lemma checkOffset_ok:
  "checkOffset offset (int n) (int (length this)) = Inr () \<longleftrightarrow> in_bounds this offset n"
  by (auto simp: checkOffset_def)

lemma guarded_ok:
  "in_bounds this offset n \<Longrightarrow>
    guarded noAssert (checkOffset offset (int n) (int (length this))) body = body"
  by (auto simp: guarded_def checkOffset_def)

lemma guarded_fails:
  "\<not> in_bounds this offset n \<Longrightarrow>
    \<exists>msg. guarded False (checkOffset offset (int n) (int (length this))) body = Inl (RangeError msg)"
  by (auto simp: guarded_def checkOffset_def)

lemma elem_in: "0 \<le> i \<Longrightarrow> i < int (length this) \<Longrightarrow> elem this i = Num (uint (this ! nat i))"
  by (simp add: elem_def)

section \<open>The loops\<close>

lemma take_drop_Suc:
  "n + Suc k \<le> length xs \<Longrightarrow> take (Suc k) (drop n xs) = xs ! n # take k (drop (Suc n) xs)"
  by (simp add: Cons_nth_drop_Suc [symmetric])

lemma take_drop_Suc_last:
  "n + Suc k \<le> length xs \<Longrightarrow> take (Suc k) (drop n xs) = take k (drop n xs) @ [xs ! (n + k)]"
  by (simp add: take_Suc_conv_app_nth)

lemma readLE_loop_value:
  assumes "0 \<le> offset + i + 1" "nat (offset + i + 1) + k \<le> length this"
  shows "readLE_loop this offset (i + 1 + int k) i mul (Num v) =
    (mul * 256 ^ k, Num (v + mul * 256 * le_value (take k (drop (nat (offset + i + 1)) this))))"
  using assms
proof (induction k arbitrary: i mul v)
  case 0
  then show ?case by (simp add: readLE_loop.simps)
next
  case (Suc k)
  let ?p = "nat (offset + i + 1)"
  have el: "elem this (offset + (i + 1)) = Num (uint (this ! ?p))"
    using Suc.prems by (subst elem_in) (auto simp: algebra_simps)
  have nx: "nat (offset + (i + 1) + 1) = Suc ?p" using Suc.prems by simp
  have ih: "readLE_loop this offset (i + 1 + 1 + int k) (i + 1) (mul * 256)
        (Num (v + uint (this ! ?p) * (mul * 256))) =
      (mul * 256 * 256 ^ k, Num (v + uint (this ! ?p) * (mul * 256) +
          mul * 256 * 256 * le_value (take k (drop (Suc ?p) this))))"
    using Suc.IH [of "i + 1" "mul * 256"] Suc.prems unfolding nx by simp
  have "readLE_loop this offset (i + 1 + int (Suc k)) i mul (Num v) =
      readLE_loop this offset (i + 1 + 1 + int k) (i + 1) (mul * 256)
        (Num (v + uint (this ! ?p) * (mul * 256)))"
    by (subst readLE_loop.simps) (simp add: el add.assoc)
  also note ih
  finally show ?case
    using Suc.prems by (simp add: take_drop_Suc algebra_simps)
qed

lemma readBE_loop_value:
  assumes "0 \<le> offset" "nat offset + k \<le> length this"
  shows "readBE_loop this offset (int k) mul (Num v) =
    (mul * 256 ^ k, Num (v + mul * 256 * be_value (take k (drop (nat offset) this))))"
  using assms
proof (induction k arbitrary: mul v)
  case 0
  then show ?case by (simp add: readBE_loop.simps)
next
  case (Suc k)
  have el: "elem this (offset + int k) = Num (uint (this ! (nat offset + k)))"
    using Suc.prems by (subst elem_in) (auto simp: nat_add_distrib)
  show ?case
    using Suc
    by (subst readBE_loop.simps) (simp add: el take_drop_Suc_last algebra_simps)
qed

section \<open>Every reader computes the reference value\<close>

lemma readLE_run:
  assumes "in_bounds this offset (Suc k)"
  shows "readLE_loop this offset (1 + int k) 0 1 (elem this offset) =
    (256 ^ k, Num (le_value (bytes_at this offset (Suc k))))"
proof -
  have nx: "nat (offset + 1) = Suc (nat offset)" using assms by auto
  have "readLE_loop this offset (0 + 1 + int k) 0 1 (Num (uint (this ! nat offset))) =
      (1 * 256 ^ k, Num (uint (this ! nat offset) +
        1 * 256 * le_value (take k (drop (nat (offset + 0 + 1)) this))))"
    using assms by (intro readLE_loop_value) auto
  moreover have "nat offset + Suc k \<le> length this" using assms by auto
  ultimately show ?thesis using assms nx by (simp add: elem_in take_drop_Suc)
qed

lemma readBE_run:
  assumes "in_bounds this offset (Suc k)"
  shows "readBE_loop this offset (int k) 1 (elem this (offset + int k)) =
    (256 ^ k, Num (be_value (bytes_at this offset (Suc k))))"
proof -
  have "nat (offset + int k) = nat offset + k" using assms by auto
  moreover have "readBE_loop this offset (int k) 1 (Num (uint (this ! (nat offset + k)))) =
      (1 * 256 ^ k, Num (uint (this ! (nat offset + k)) +
        1 * 256 * be_value (take k (drop (nat offset) this))))"
    using assms by (intro readBE_loop_value) auto
  moreover have "nat offset + Suc k \<le> length this" using assms by auto
  ultimately show ?thesis using assms by (simp add: elem_in take_drop_Suc_last)
qed

text \<open>The coercions \<open>offset | 0\<close> and \<open>byteLength | 0\<close> do nothing to a run inside a buffer.\<close>

abbreviation readable :: "byte list \<Rightarrow> int \<Rightarrow> nat \<Rightarrow> bool" where
  "readable this offset n \<equiv> in_bounds this offset n \<and> 0 < n \<and> length this \<le> 2147483647"

lemma readUIntLE_value:
  assumes "readable this offset n"
  shows "readUIntLE this offset (int n) noAssert = Inr (Num (le_value (bytes_at this offset n)))"
proof -
  obtain k where n: "n = Suc k" using assms by (cases n) auto
  show ?thesis
    using assms readLE_run [of offset k this]
    by (simp add: readUIntLE_def or_0 guarded_ok [of offset "Suc k" this, simplified] n)
qed

lemma readUIntBE_value:
  assumes "readable this offset n"
  shows "readUIntBE this offset (int n) noAssert = Inr (Num (be_value (bytes_at this offset n)))"
proof -
  obtain k where n: "n = Suc k" using assms by (cases n) auto
  show ?thesis
    using assms readBE_run [of offset k this]
    by (simp add: readUIntBE_def or_0 guarded_ok [of offset "Suc k" this, simplified] n)
qed

lemma sign_fix_value: "sign_fix (int (Suc k)) (256 ^ k, Num v) = Num (signed_value (Suc k) v)"
proof -
  have "(256::int) ^ k * 128 = 2 ^ (8 * Suc k - 1)"
    using power_mult [of "2::int" 8 k] by (simp add: power_add)
  moreover have "nat (8 * int (Suc k)) = 8 * Suc k" by simp
  ultimately show ?thesis by (simp add: sign_fix_def signed_value_def)
qed

lemma readIntLE_value:
  assumes "readable this offset n"
  shows "readIntLE this offset (int n) noAssert =
    Inr (Num (signed_value n (le_value (bytes_at this offset n))))"
proof -
  obtain k where n: "n = Suc k" using assms by (cases n) auto
  show ?thesis
    using assms readLE_run [of offset k this] sign_fix_value [of k]
    by (simp add: readIntLE_def or_0 guarded_ok [of offset "Suc k" this, simplified] n)
qed

lemma readIntBE_value:
  assumes "readable this offset n"
  shows "readIntBE this offset (int n) noAssert =
    Inr (Num (signed_value n (be_value (bytes_at this offset n))))"
proof -
  obtain k where n: "n = Suc k" using assms by (cases n) auto
  show ?thesis
    using assms readBE_run [of offset k this] sign_fix_value [of k]
    by (simp add: readIntBE_def or_0 guarded_ok [of offset "Suc k" this, simplified] n)
qed

section \<open>The fixed-width readers\<close>

lemma js_shl_byte:
  "0 \<le> x \<Longrightarrow> x < 256 \<Longrightarrow> js_shl x (int n) = to_int32 (push_bit n x)" if "n < 32"
  using that by (simp add: js_shl_def shift_count_def to_uint32_id to_int32_id)

lemmas js_shl_byte_simps =
  js_shl_byte [of 8, simplified] js_shl_byte [of 16, simplified] js_shl_byte [of 24, simplified]

text \<open>Two and four bytes joined with shifts and ors are the little endian value.\<close>

lemma to_int32_le_value: "length bs \<le> 3 \<Longrightarrow> to_int32 (le_value bs) = le_value bs"
proof -
  assume "length bs \<le> 3"
  then have "(256::int) ^ length bs \<le> 256 ^ 3" by (intro power_increasing) auto
  with le_value_bounds [of bs] show ?thesis by (intro to_int32_id) auto
qed

lemma join2:
  fixes a b :: byte
  shows "js_or (uint a) (js_shl (uint b) 8) = le_value [a, b]"
  using or_push_bit [of "uint a" 8 "uint b"] to_int32_le_value [of "[a, b]"]
  by (simp add: js_or_eq js_shl_byte_simps)

lemma join3:
  fixes a b c :: byte
  shows "js_or (js_or (uint a) (js_shl (uint b) 8)) (js_shl (uint c) 16) = le_value [a, b, c]"
  using or_push_bit [of "le_value [a, b]" 16 "uint c"] le_value_bounds [of "[a, b]"]
    to_int32_le_value [of "[a, b, c]"]
  by (simp add: join2) (simp add: js_or_eq js_shl_byte_simps add.assoc)

lemma join4:
  fixes a b c d :: byte
  shows "js_or (js_or (js_or (uint a) (js_shl (uint b) 8)) (js_shl (uint c) 16)) (js_shl (uint d) 24) =
    to_int32 (le_value [a, b, c, d])"
  using or_push_bit [of "le_value [a, b, c]" 24 "uint d"] le_value_bounds [of "[a, b, c]"]
  by (simp add: join3) (simp add: js_or_eq js_shl_byte_simps add.assoc)

text \<open>The elements a fixed-width reader picks are the bytes at the offset.\<close>

lemma bits_in: "0 \<le> i \<Longrightarrow> i < int (length this) \<Longrightarrow> bits this i = uint (this ! nat i)"
  by (simp add: bits_def elem_in)

lemma bytes_at_1: "in_bounds this offset 1 \<Longrightarrow> bytes_at this offset 1 = [this ! nat offset]"
  by (auto simp: take_drop_Suc)

lemma bytes_at_2: "in_bounds this offset 2 \<Longrightarrow>
    bytes_at this offset 2 = [this ! nat offset, this ! nat (offset + 1)]"
  by (auto simp: numeral_eq_Suc take_drop_Suc nat_add_distrib)

lemma bytes_at_4: "in_bounds this offset 4 \<Longrightarrow>
    bytes_at this offset 4 =
      [this ! nat offset, this ! nat (offset + 1), this ! nat (offset + 2), this ! nat (offset + 3)]"
  by (auto simp: numeral_eq_Suc take_drop_Suc nat_add_distrib)

lemmas guarded_ok_1 = guarded_ok [where n = 1, simplified]
lemmas guarded_ok_2 = guarded_ok [where n = 2, simplified]
lemmas guarded_ok_4 = guarded_ok [where n = 4, simplified]

lemma readUInt8_value:
  "in_bounds this offset 1 \<Longrightarrow>
    readUInt8 this offset noAssert = Inr (Num (le_value (bytes_at this offset 1)))"
  by (simp only: bytes_at_1) (simp add: readUInt8_def guarded_ok_1 elem_in)

lemma readUInt16LE_value:
  "in_bounds this offset 2 \<Longrightarrow>
    readUInt16LE this offset noAssert = Inr (Num (le_value (bytes_at this offset 2)))"
  by (simp only: bytes_at_2) (simp add: readUInt16LE_def guarded_ok_2 bits_in join2)

lemma readUInt16BE_value:
  "in_bounds this offset 2 \<Longrightarrow>
    readUInt16BE this offset noAssert = Inr (Num (be_value (bytes_at this offset 2)))"
  by (simp only: bytes_at_2)
    (simp add: readUInt16BE_def guarded_ok_2 bits_in js_or_commute [of "js_shl _ _"] join2)

lemma readUInt32LE_value:
  "in_bounds this offset 4 \<Longrightarrow>
    readUInt32LE this offset noAssert = Inr (Num (le_value (bytes_at this offset 4)))"
  by (simp only: bytes_at_4)
    (simp add: readUInt32LE_def guarded_ok_4 bits_in elem_in join3)

lemma join3_rev:
  fixes a b c :: byte
  shows "js_or (js_or (js_shl (uint c) 16) (js_shl (uint b) 8)) (uint a) = le_value [a, b, c]"
  using join3 [of a b c] by (simp only: js_or_ac)

lemma join4_rev:
  fixes a b c d :: byte
  shows "js_or (js_or (js_or (js_shl (uint d) 24) (js_shl (uint c) 16)) (js_shl (uint b) 8)) (uint a) =
    to_int32 (le_value [a, b, c, d])"
  using join4 [of a b c d] by (simp only: js_or_ac)

lemma readUInt32BE_value:
  "in_bounds this offset 4 \<Longrightarrow>
    readUInt32BE this offset noAssert = Inr (Num (be_value (bytes_at this offset 4)))"
  by (simp only: bytes_at_4)
    (simp add: readUInt32BE_def guarded_ok_4 bits_in elem_in join3_rev)

lemma js_and_sign_bit:
  assumes "0 \<le> v" "v < 2 ^ Suc k" "k < 31"
  shows "js_and v (2 ^ k) = 0 \<longleftrightarrow> v < 2 ^ k"
proof -
  have le: "(2::int) ^ Suc k \<le> 2 ^ 31" using assms by (intro power_increasing) auto
  have "to_int32 v = v" "to_int32 (2 ^ k) = 2 ^ k"
    using assms le by (auto intro!: to_int32_id)
  moreover have "bit v k \<longleftrightarrow> 2 ^ k \<le> v"
  proof -
    have "v div 2 ^ k = 1" if "2 ^ k \<le> v"
      using that assms div_add_self2 [of "2 ^ k" "v - 2 ^ k"] by (simp add: div_pos_pos_trivial)
    then show ?thesis
      using assms by (cases "2 ^ k \<le> v") (simp_all add: bit_iff_odd div_pos_pos_trivial)
  qed
  ultimately show ?thesis by (simp add: js_and_def and_exp_eq_0_iff_not_bit not_le)
qed

lemma sign16_value:
  assumes "0 \<le> v" "v < 65536"
  shows "sign16 v = signed_value 2 v"
proof -
  have "to_int32 v = v" using assms by (intro to_int32_id) auto
  moreover have "v OR - 65536 = v - 65536"
    using or_push_bit [of v 16 "- 1"] assms by (simp add: push_bit_eq_mult)
  moreover have "to_int32 4294901760 = - 65536"
    by (simp add: to_int32_def)
  ultimately show ?thesis
    using js_and_sign_bit [of v 15] assms
    by (simp add: sign16_def signed_value_def js_or_def not_less)
qed

lemma signed_value_4: "length bs = 4 \<Longrightarrow> to_int32 (le_value bs) = signed_value 4 (le_value bs)"
  using le_value_bounds [of bs] signed_value_signed_take_bit [of 4 "le_value bs"]
  by (simp add: to_int32_def)

lemma readInt16LE_value:
  "in_bounds this offset 2 \<Longrightarrow>
    readInt16LE this offset noAssert = Inr (Num (signed_value 2 (le_value (bytes_at this offset 2))))"
  using sign16_value le_value_bounds [of "bytes_at this offset 2"]
  by (simp only: bytes_at_2) (simp add: readInt16LE_def guarded_ok_2 bits_in join2)

lemma readInt16BE_value:
  "in_bounds this offset 2 \<Longrightarrow>
    readInt16BE this offset noAssert = Inr (Num (signed_value 2 (be_value (bytes_at this offset 2))))"
  using sign16_value le_value_bounds [of "rev (bytes_at this offset 2)"]
  by (simp only: bytes_at_2) (simp add: readInt16BE_def guarded_ok_2 bits_in join2)

lemma readInt32LE_value:
  "in_bounds this offset 4 \<Longrightarrow>
    readInt32LE this offset noAssert = Inr (Num (signed_value 4 (le_value (bytes_at this offset 4))))"
  by (simp only: bytes_at_4)
    (simp add: readInt32LE_def guarded_ok_4 bits_in join4 signed_value_4 [symmetric] del: horner_sum_simps)

lemma readInt32BE_value:
  "in_bounds this offset 4 \<Longrightarrow>
    readInt32BE this offset noAssert = Inr (Num (signed_value 4 (be_value (bytes_at this offset 4))))"
  by (simp only: bytes_at_4)
    (simp add: readInt32BE_def guarded_ok_4 bits_in join4_rev signed_value_4 [symmetric] del: horner_sum_simps)

lemma readInt8_value:
  assumes "in_bounds this offset 1"
  shows "readInt8 this offset noAssert = Inr (Num (signed_value 1 (le_value (bytes_at this offset 1))))"
proof -
  have "js_and (uint (this ! nat offset)) 128 = 0 \<longleftrightarrow> uint (this ! nat offset) < 128"
    using js_and_sign_bit [of "uint (this ! nat offset)" 7] by simp
  then show ?thesis
    using assms
    by (simp only: bytes_at_1)
      (simp add: readInt8_def guarded_ok_1 bits_in elem_in signed_value_def)
qed

end
