(* ===== verification/Buffer_Write_Int.thy ===== *)
theory Buffer_Write_Int
  imports Buffer_Read_Int
begin

text \<open>
  The integer writers of \<open>Buffer.prototype\<close> (module 379 of \<open>swagger-ui.js\<close>).  A writer changes
  the memory through the view and returns the index after the run.  The locale \<open>int_codec\<close> is
  the contract of a reader and writer of one format; it is interpreted on the eighteen
  formats of the source, and gives the round trip, the frame and the rejection of values that
  do not fit for each of them.
\<close>

section \<open>The writers\<close>

definition checkInt :: "buffer \<Rightarrow> int \<Rightarrow> int \<Rightarrow> int \<Rightarrow> int \<Rightarrow> int \<Rightarrow> unit result" where
  "checkInt buf value offset ext maxv minv =
     (if value > maxv \<or> value < minv then Inl (RangeError ''\"value\" argument is out of bounds'')
      else if offset + ext > int (blen buf) then Inl (RangeError ''Index out of range'')
      else Inr ())"

text \<open>
  \<open>Math.pow(2, 8 * byteLength) - 1\<close> and \<open>Math.pow(2, 8 * byteLength - 1)\<close>.  With a length below
  0 (below 1 for the signed form) the power is a fraction below 1 and no integer passes
  \<open>checkInt\<close>; the bounds \<open>-1\<close> and \<open>0\<close> say the same.
\<close>

definition max_unsigned :: "int \<Rightarrow> int" where
  "max_unsigned byteLength = (if byteLength < 0 then - 1 else 2 ^ nat (8 * byteLength) - 1)"

definition max_signed :: "int \<Rightarrow> int" where
  "max_signed byteLength = (if byteLength < 1 then - 1 else 2 ^ nat (8 * byteLength - 1) - 1)"

definition min_signed :: "int \<Rightarrow> int" where
  "min_signed byteLength = (if byteLength < 1 then 0 else - (2 ^ nat (8 * byteLength - 1)))"

function writeLE_loop :: "mem \<Rightarrow> buffer \<Rightarrow> int \<Rightarrow> int \<Rightarrow> int \<Rightarrow> int \<Rightarrow> int \<Rightarrow> mem" where
  "writeLE_loop m this value offset byteLength i mul =
     (if i + 1 < byteLength
      then writeLE_loop (buf_set m this (offset + (i + 1)) (js_and (trunc_div value (mul * 256)) 255))
             this value offset byteLength (i + 1) (mul * 256)
      else m)"
  by pat_completeness auto
termination
  by (relation "measure (\<lambda>(m, this, value, offset, byteLength, i, mul). nat (byteLength - i))") auto

declare writeLE_loop.simps [simp del]

function writeBE_loop :: "mem \<Rightarrow> buffer \<Rightarrow> int \<Rightarrow> int \<Rightarrow> int \<Rightarrow> int \<Rightarrow> mem" where
  "writeBE_loop m this value offset i mul =
     (if i - 1 \<ge> 0
      then writeBE_loop (buf_set m this (offset + (i - 1)) (js_and (trunc_div value (mul * 256)) 255))
             this value offset (i - 1) (mul * 256)
      else m)"
  by pat_completeness auto
termination
  by (relation "measure (\<lambda>(m, this, value, offset, i, mul). nat i)") auto

declare writeBE_loop.simps [simp del]

definition writeUIntLE :: "mem \<Rightarrow> buffer \<Rightarrow> int \<Rightarrow> int \<Rightarrow> int \<Rightarrow> bool \<Rightarrow> (int \<times> mem) result" where
  "writeUIntLE m this value offset0 byteLength0 noAssert =
     (let offset = js_or offset0 0; byteLength = js_or byteLength0 0 in
      guarded noAssert (checkInt this value offset byteLength (max_unsigned byteLength) 0)
        (Inr (offset + byteLength,
              writeLE_loop (buf_set m this offset (js_and value 255)) this value offset byteLength 0 1)))"

definition writeUIntBE :: "mem \<Rightarrow> buffer \<Rightarrow> int \<Rightarrow> int \<Rightarrow> int \<Rightarrow> bool \<Rightarrow> (int \<times> mem) result" where
  "writeUIntBE m this value offset0 byteLength0 noAssert =
     (let offset = js_or offset0 0; byteLength = js_or byteLength0 0; i = byteLength - 1 in
      guarded noAssert (checkInt this value offset byteLength (max_unsigned byteLength) 0)
        (Inr (offset + byteLength,
              writeBE_loop (buf_set m this (offset + i) (js_and value 255)) this value offset i 1)))"

definition writeUInt8 :: "mem \<Rightarrow> buffer \<Rightarrow> int \<Rightarrow> int \<Rightarrow> bool \<Rightarrow> (int \<times> mem) result" where
  "writeUInt8 m this value offset0 noAssert =
     (let offset = js_or offset0 0 in
      guarded noAssert (checkInt this value offset 1 255 0)
        (Inr (offset + 1, buf_set m this offset (js_and value 255))))"

definition writeUInt16LE :: "mem \<Rightarrow> buffer \<Rightarrow> int \<Rightarrow> int \<Rightarrow> bool \<Rightarrow> (int \<times> mem) result" where
  "writeUInt16LE m this value offset0 noAssert =
     (let offset = js_or offset0 0 in
      guarded noAssert (checkInt this value offset 2 65535 0)
        (let m1 = buf_set m this offset (js_and value 255);
             m2 = buf_set m1 this (offset + 1) (js_shr value 8)
         in Inr (offset + 2, m2)))"

definition writeUInt16BE :: "mem \<Rightarrow> buffer \<Rightarrow> int \<Rightarrow> int \<Rightarrow> bool \<Rightarrow> (int \<times> mem) result" where
  "writeUInt16BE m this value offset0 noAssert =
     (let offset = js_or offset0 0 in
      guarded noAssert (checkInt this value offset 2 65535 0)
        (let m1 = buf_set m this offset (js_shr value 8);
             m2 = buf_set m1 this (offset + 1) (js_and value 255)
         in Inr (offset + 2, m2)))"

definition writeUInt32LE :: "mem \<Rightarrow> buffer \<Rightarrow> int \<Rightarrow> int \<Rightarrow> bool \<Rightarrow> (int \<times> mem) result" where
  "writeUInt32LE m this value offset0 noAssert =
     (let offset = js_or offset0 0 in
      guarded noAssert (checkInt this value offset 4 4294967295 0)
        (let m1 = buf_set m this (offset + 3) (js_shr value 24);
             m2 = buf_set m1 this (offset + 2) (js_shr value 16);
             m3 = buf_set m2 this (offset + 1) (js_shr value 8);
             m4 = buf_set m3 this offset (js_and value 255)
         in Inr (offset + 4, m4)))"

text \<open>The four ascending stores that \<open>writeUInt32BE\<close> and \<open>writeInt32BE\<close> end with.\<close>

definition store32BE :: "mem \<Rightarrow> buffer \<Rightarrow> int \<Rightarrow> int \<Rightarrow> mem" where
  "store32BE m this value offset =
     (let m1 = buf_set m this offset (js_shr value 24);
          m2 = buf_set m1 this (offset + 1) (js_shr value 16);
          m3 = buf_set m2 this (offset + 2) (js_shr value 8)
      in buf_set m3 this (offset + 3) (js_and value 255))"

definition writeUInt32BE :: "mem \<Rightarrow> buffer \<Rightarrow> int \<Rightarrow> int \<Rightarrow> bool \<Rightarrow> (int \<times> mem) result" where
  "writeUInt32BE m this value offset0 noAssert =
     (let offset = js_or offset0 0 in
      guarded noAssert (checkInt this value offset 4 4294967295 0)
        (Inr (offset + 4, store32BE m this value offset)))"

text \<open>
  The signed loops: division truncates towards zero, so a negative value borrows 1 from
  every byte above the lowest byte that is not 0; the loop finds it by reading back the byte
  it has just written.
\<close>

function writeIntLE_loop :: "mem \<Rightarrow> buffer \<Rightarrow> int \<Rightarrow> int \<Rightarrow> int \<Rightarrow> int \<Rightarrow> int \<Rightarrow> int \<Rightarrow> mem" where
  "writeIntLE_loop m this value offset byteLength i mul sub =
     (if i + 1 < byteLength
      then let sub' = (if value < 0 \<and> sub = 0 \<and> buf_get m this (offset + (i + 1) - 1) \<noteq> Num 0 then 1 else sub)
           in writeIntLE_loop
                (buf_set m this (offset + (i + 1))
                   (js_and (js_sar (trunc_div value (mul * 256)) 0 - sub') 255))
                this value offset byteLength (i + 1) (mul * 256) sub'
      else m)"
  by pat_completeness auto
termination
  by (relation "measure (\<lambda>(m, this, value, offset, byteLength, i, mul, sub). nat (byteLength - i))") auto

declare writeIntLE_loop.simps [simp del]

function writeIntBE_loop :: "mem \<Rightarrow> buffer \<Rightarrow> int \<Rightarrow> int \<Rightarrow> int \<Rightarrow> int \<Rightarrow> int \<Rightarrow> mem" where
  "writeIntBE_loop m this value offset i mul sub =
     (if i - 1 \<ge> 0
      then let sub' = (if value < 0 \<and> sub = 0 \<and> buf_get m this (offset + (i - 1) + 1) \<noteq> Num 0 then 1 else sub)
           in writeIntBE_loop
                (buf_set m this (offset + (i - 1))
                   (js_and (js_sar (trunc_div value (mul * 256)) 0 - sub') 255))
                this value offset (i - 1) (mul * 256) sub'
      else m)"
  by pat_completeness auto
termination
  by (relation "measure (\<lambda>(m, this, value, offset, i, mul, sub). nat i)") auto

declare writeIntBE_loop.simps [simp del]

definition writeIntLE :: "mem \<Rightarrow> buffer \<Rightarrow> int \<Rightarrow> int \<Rightarrow> int \<Rightarrow> bool \<Rightarrow> (int \<times> mem) result" where
  "writeIntLE m this value offset0 byteLength noAssert =
     (let offset = js_or offset0 0 in
      guarded noAssert (checkInt this value offset byteLength (max_signed byteLength) (min_signed byteLength))
        (Inr (offset + byteLength,
              writeIntLE_loop (buf_set m this offset (js_and value 255)) this value offset byteLength 0 1 0)))"

definition writeIntBE :: "mem \<Rightarrow> buffer \<Rightarrow> int \<Rightarrow> int \<Rightarrow> int \<Rightarrow> bool \<Rightarrow> (int \<times> mem) result" where
  "writeIntBE m this value offset0 byteLength noAssert =
     (let offset = js_or offset0 0; i = byteLength - 1 in
      guarded noAssert (checkInt this value offset byteLength (max_signed byteLength) (min_signed byteLength))
        (Inr (offset + byteLength,
              writeIntBE_loop (buf_set m this (offset + i) (js_and value 255)) this value offset i 1 0)))"

definition writeInt8 :: "mem \<Rightarrow> buffer \<Rightarrow> int \<Rightarrow> int \<Rightarrow> bool \<Rightarrow> (int \<times> mem) result" where
  "writeInt8 m this value offset0 noAssert =
     (let offset = js_or offset0 0 in
      guarded noAssert (checkInt this value offset 1 127 (- 128))
        (let value' = (if value < 0 then 255 + value + 1 else value)
         in Inr (offset + 1, buf_set m this offset (js_and value' 255))))"

definition writeInt16LE :: "mem \<Rightarrow> buffer \<Rightarrow> int \<Rightarrow> int \<Rightarrow> bool \<Rightarrow> (int \<times> mem) result" where
  "writeInt16LE m this value offset0 noAssert =
     (let offset = js_or offset0 0 in
      guarded noAssert (checkInt this value offset 2 32767 (- 32768))
        (let m1 = buf_set m this offset (js_and value 255);
             m2 = buf_set m1 this (offset + 1) (js_shr value 8)
         in Inr (offset + 2, m2)))"

definition writeInt16BE :: "mem \<Rightarrow> buffer \<Rightarrow> int \<Rightarrow> int \<Rightarrow> bool \<Rightarrow> (int \<times> mem) result" where
  "writeInt16BE m this value offset0 noAssert =
     (let offset = js_or offset0 0 in
      guarded noAssert (checkInt this value offset 2 32767 (- 32768))
        (let m1 = buf_set m this offset (js_shr value 8);
             m2 = buf_set m1 this (offset + 1) (js_and value 255)
         in Inr (offset + 2, m2)))"

definition writeInt32LE :: "mem \<Rightarrow> buffer \<Rightarrow> int \<Rightarrow> int \<Rightarrow> bool \<Rightarrow> (int \<times> mem) result" where
  "writeInt32LE m this value offset0 noAssert =
     (let offset = js_or offset0 0 in
      guarded noAssert (checkInt this value offset 4 2147483647 (- 2147483648))
        (let m1 = buf_set m this offset (js_and value 255);
             m2 = buf_set m1 this (offset + 1) (js_shr value 8);
             m3 = buf_set m2 this (offset + 2) (js_shr value 16);
             m4 = buf_set m3 this (offset + 3) (js_shr value 24)
         in Inr (offset + 4, m4)))"

definition writeInt32BE :: "mem \<Rightarrow> buffer \<Rightarrow> int \<Rightarrow> int \<Rightarrow> bool \<Rightarrow> (int \<times> mem) result" where
  "writeInt32BE m this value offset0 noAssert =
     (let offset = js_or offset0 0 in
      guarded noAssert (checkInt this value offset 4 2147483647 (- 2147483648))
        (let value' = (if value < 0 then 4294967295 + value + 1 else value)
         in Inr (offset + 4, store32BE m this value' offset)))"

text \<open>
  The stores used without typed arrays.  A buffer is then a plain object with a field \<open>length\<close>: a store keeps the
  number that it is given, under any index.  At most as many bytes are stored as the buffer has room for, each
  one cut out of the value by its position.
\<close>

record plain_buffer =
  plain_entries :: "int \<rightharpoonup> int"
  plain_length :: nat

definition plain_set :: "plain_buffer \<Rightarrow> int \<Rightarrow> int \<Rightarrow> plain_buffer" where
  "plain_set buf i v = buf\<lparr>plain_entries := (plain_entries buf)(i \<mapsto> v)\<rparr>"

function objectWriteUInt16_loop :: "plain_buffer \<Rightarrow> int \<Rightarrow> int \<Rightarrow> bool \<Rightarrow> int \<Rightarrow> int \<Rightarrow> plain_buffer" where
  "objectWriteUInt16_loop buf value offset littleEndian i j =
     (if i < j
      then let p = (if littleEndian then i else 1 - i)
           in objectWriteUInt16_loop
                (plain_set buf (offset + i) (js_shr (js_and value (js_shl 255 (8 * p))) (p * 8)))
                value offset littleEndian (i + 1) j
      else buf)"
  by pat_completeness auto
termination
  by (relation "measure (\<lambda>(buf, value, offset, littleEndian, i, j). nat (j - i))") auto

declare objectWriteUInt16_loop.simps [simp del]

definition objectWriteUInt16 :: "plain_buffer \<Rightarrow> int \<Rightarrow> int \<Rightarrow> bool \<Rightarrow> plain_buffer" where
  "objectWriteUInt16 buf value offset littleEndian =
     (let value' = (if value < 0 then 65535 + value + 1 else value)
      in objectWriteUInt16_loop buf value' offset littleEndian 0 (min (int (plain_length buf) - offset) 2))"

function objectWriteUInt32_loop :: "plain_buffer \<Rightarrow> int \<Rightarrow> int \<Rightarrow> bool \<Rightarrow> int \<Rightarrow> int \<Rightarrow> plain_buffer" where
  "objectWriteUInt32_loop buf value offset littleEndian i j =
     (if i < j
      then objectWriteUInt32_loop
             (plain_set buf (offset + i)
                (js_and (js_shr value ((if littleEndian then i else 3 - i) * 8)) 255))
             value offset littleEndian (i + 1) j
      else buf)"
  by pat_completeness auto
termination
  by (relation "measure (\<lambda>(buf, value, offset, littleEndian, i, j). nat (j - i))") auto

declare objectWriteUInt32_loop.simps [simp del]

definition objectWriteUInt32 :: "plain_buffer \<Rightarrow> int \<Rightarrow> int \<Rightarrow> bool \<Rightarrow> plain_buffer" where
  "objectWriteUInt32 buf value offset littleEndian =
     (let value' = (if value < 0 then 4294967295 + value + 1 else value)
      in objectWriteUInt32_loop buf value' offset littleEndian 0 (min (int (plain_length buf) - offset) 4))"

section \<open>The bytes of a value\<close>

definition le_bytes :: "nat \<Rightarrow> int \<Rightarrow> byte list" where
  "le_bytes n v = map (\<lambda>j. word_of_int (v div 256 ^ j)) [0..<n]"

abbreviation be_bytes :: "nat \<Rightarrow> int \<Rightarrow> byte list" where
  "be_bytes n v \<equiv> rev (le_bytes n v)"

lemma length_le_bytes [simp]: "length (le_bytes n v) = n"
  by (simp add: le_bytes_def)

lemma le_bytes_Suc: "le_bytes (Suc n) v = word_of_int v # le_bytes n (v div 256)"
  by (simp add: le_bytes_def upt_conv_Cons map_Suc_upt [symmetric] zdiv_zmult2_eq [symmetric]
      del: upt_Suc map_Suc_upt)

lemma le_value_le_bytes: "le_value (le_bytes n v) = v mod 256 ^ n"
proof (induction n arbitrary: v)
  case 0
  then show ?case by (simp add: le_bytes_def)
next
  case (Suc n)
  have "uint (word_of_int v :: byte) = v mod 256"
    by (simp add: uint_word_of_int)
  with Suc show ?case
    by (simp add: le_bytes_Suc zmod_zmult2_eq)
qed

lemma pow_256: "(256::int) ^ n = 2 ^ (8 * n)"
  by (simp add: power_mult)

lemma signed_value_mod:
  assumes "0 < n" "- (2 ^ (8 * n - 1)) \<le> v" "v < 2 ^ (8 * n - 1)"
  shows "signed_value n (v mod 256 ^ n) = v"
proof -
  obtain k where k: "8 * n = Suc k" using assms(1) by (cases "8 * n") auto
  have "v mod 256 ^ n = (if 0 \<le> v then v else v + 2 ^ Suc k)"
  proof (cases "0 \<le> v")
    case False
    have "v mod 2 ^ Suc k = (v + 2 ^ Suc k) mod 2 ^ Suc k" by (simp only: mod_add_self2)
    also have "\<dots> = v + 2 ^ Suc k"
      using assms k False by (intro mod_pos_pos_trivial) auto
    finally show ?thesis using False k by (simp add: pow_256)
  qed (use assms k in \<open>simp add: pow_256\<close>)
  then show ?thesis using assms k by (simp add: signed_value_def)
qed

lemmas signed_value_mod_simps = signed_value_mod [of 1, simplified] signed_value_mod [of 2, simplified]
  signed_value_mod [of 4, simplified]

lemma byte_of_shr:
  assumes "k + 8 \<le> 32"
  shows "(word_of_int (js_shr v (int k)) :: byte) = word_of_int (v div 2 ^ k)"
proof -
  have "shift_count (int k) = k" using assms by (simp add: shift_count_def to_uint32_id)
  moreover have "take_bit 8 (drop_bit k (take_bit 32 v)) = take_bit 8 (drop_bit k v)"
    using assms by (intro bit_eqI) (auto simp: bit_simps)
  ultimately show ?thesis
    by (simp add: js_shr_def to_uint32_def word_of_int_eq_iff drop_bit_eq_div)
qed

lemmas byte_of_shr_simps =
  byte_of_shr [of 8, simplified] byte_of_shr [of 16, simplified] byte_of_shr [of 24, simplified]

lemma byte_of_and [simp]: "(word_of_int (js_and v 255) :: byte) = word_of_int v"
  by (simp add: js_simps)

lemma le_bytes_1: "le_bytes (Suc 0) v = [word_of_int v]"
  by (simp add: le_bytes_def)

lemma le_bytes_2: "le_bytes 2 v = [word_of_int v, word_of_int (v div 256)]"
  by (simp add: le_bytes_def upt_conv_Cons)

lemma le_bytes_4: "le_bytes 4 v =
    [word_of_int v, word_of_int (v div 256), word_of_int (v div 65536), word_of_int (v div 16777216)]"
  by (simp add: le_bytes_def upt_conv_Cons)

text \<open>Adding \<open>2 ^ 8\<close> or \<open>2 ^ 32\<close> to a negative value does not change the bytes stored.\<close>

lemma js_shr_wrap: "js_shr (4294967296 + v) k = js_shr v k"
  by (simp add: js_shr_def to_uint32_mod)

lemma js_and_wrap: "js_and (4294967296 + v) 255 = js_and v 255" "js_and (256 + v) 255 = js_and v 255"
proof -
  have "(16777216 * 256 + v) mod 256 = v mod 256" by (rule mod_mult_self3)
  then show "js_and (4294967296 + v) 255 = js_and v 255" "js_and (256 + v) 255 = js_and v 255"
    by (simp_all add: and_255)
qed

lemmas byte_of_wrap = js_shr_wrap js_and_wrap

section \<open>The loops as runs of writes\<close>

text \<open>What the loops store at the position of weight \<open>256 ^ j\<close>.\<close>

definition digit :: "int \<Rightarrow> nat \<Rightarrow> int" where
  "digit value j = js_and (trunc_div value (256 ^ j)) 255"

definition borrow :: "int \<Rightarrow> nat \<Rightarrow> int" where
  "borrow value j = (if value < 0 \<and> value mod 256 ^ j \<noteq> 0 then 1 else 0)"

definition signed_digit :: "int \<Rightarrow> nat \<Rightarrow> int" where
  "signed_digit value j = js_and (js_sar (trunc_div value (256 ^ j)) 0 - borrow value j) 255"

lemma writeLE_loop_run:
  "writeLE_loop m this value offset (int i + 1 + int k) (int i) (256 ^ i) =
    put_run (\<lambda>m. buf_set m this) m (offset + int i + 1) (map (digit value) [Suc i..<Suc i + k])"
proof (induction k arbitrary: i m)
  case 0
  then show ?case by (simp add: writeLE_loop.simps)
next
  case (Suc k)
  let ?m = "buf_set m this (offset + (int i + 1)) (digit value (Suc i))"
  have "writeLE_loop m this value offset (int i + 1 + int (Suc k)) (int i) (256 ^ i) =
      writeLE_loop ?m this value offset (int (Suc i) + 1 + int k) (int (Suc i)) (256 ^ Suc i)"
    by (subst writeLE_loop.simps) (simp add: digit_def algebra_simps)
  also have "\<dots> = put_run (\<lambda>m. buf_set m this) ?m (offset + int (Suc i) + 1)
      (map (digit value) [Suc (Suc i)..<Suc (Suc i) + k])"
    by (rule Suc.IH)
  finally show ?case
    by (simp add: upt_conv_Cons algebra_simps del: upt_Suc)
qed

lemma writeBE_loop_run:
  "writeBE_loop m this value offset (int k) (256 ^ i) =
    put_down (\<lambda>m. buf_set m this) m (offset + int k - 1) (map (digit value) [Suc i..<Suc i + k])"
proof (induction k arbitrary: i m)
  case 0
  then show ?case by (simp add: writeBE_loop.simps)
next
  case (Suc k)
  let ?m = "buf_set m this (offset + int k) (digit value (Suc i))"
  have "writeBE_loop m this value offset (int (Suc k)) (256 ^ i) =
      writeBE_loop ?m this value offset (int k) (256 ^ Suc i)"
    by (subst writeBE_loop.simps) (simp add: digit_def algebra_simps)
  also have "\<dots> = put_down (\<lambda>m. buf_set m this) ?m (offset + int k - 1)
      (map (digit value) [Suc (Suc i)..<Suc (Suc i) + k])"
    by (rule Suc.IH)
  finally show ?case
    by (simp add: upt_conv_Cons algebra_simps del: upt_Suc)
qed

lemma byte_of_digit: "0 \<le> value \<Longrightarrow> (word_of_int (digit value j) :: byte) = word_of_int (value div 256 ^ j)"
  by (simp add: digit_def trunc_div_nonneg)

text \<open>Truncated division minus the borrow is floor division.\<close>

lemma trunc_div_borrow: "trunc_div value (256 ^ j) - borrow value j = value div 256 ^ j"
proof (cases "value < 0")
  case True
  let ?d = "(256::int) ^ j"
  have d: "0 < ?d" by simp
  have neg: "\<bar>value\<bar> div ?d = (- value) div ?d" using True by simp
  show ?thesis
  proof (cases "value mod ?d = 0")
    case True
    with \<open>value < 0\<close> show ?thesis
      by (simp add: trunc_div_def borrow_def sgn_if neg zdiv_zminus1_eq_if)
  next
    case False
    with \<open>value < 0\<close> show ?thesis
      by (simp add: trunc_div_def borrow_def sgn_if neg zdiv_zminus1_eq_if)
  qed
qed (simp add: trunc_div_nonneg borrow_def)

lemma byte_of_signed_digit:
  "(word_of_int (signed_digit value j) :: byte) = word_of_int (value div 256 ^ j)"
proof -
  have "(word_of_int (js_sar x 0 - y) :: byte) = word_of_int (x - y)" for x y
  proof -
    have "(word_of_int (to_int32 x) :: byte) = word_of_int x"
      by (simp add: word_of_int_to_int32)
    then show ?thesis
      by (simp add: js_sar_def shift_count_def to_uint32_def)
  qed
  then show ?thesis by (simp only: signed_digit_def byte_of_and trunc_div_borrow)
qed

text \<open>The byte just written decides whether the next one borrows.\<close>

lemma borrow_Suc:
  "borrow value (Suc i) =
    (if value < 0 \<and> borrow value i = 0 \<and> uint (word_of_int (value div 256 ^ i) :: byte) \<noteq> 0
     then 1 else borrow value i)"
proof -
  have "value mod 256 ^ Suc i = 256 ^ i * ((value div 256 ^ i) mod 256) + value mod 256 ^ i"
    using zmod_zmult2_eq [of 256 "value" "256 ^ i"] by (simp add: mult.commute)
  moreover have "0 \<le> value mod 256 ^ i" "0 \<le> (value div 256 ^ i) mod 256" by simp_all
  ultimately have "value mod 256 ^ Suc i = 0 \<longleftrightarrow> value mod 256 ^ i = 0 \<and> (value div 256 ^ i) mod 256 = 0"
    by (auto simp: add_nonneg_eq_0_iff)
  moreover have "uint (word_of_int (value div 256 ^ i) :: byte) = (value div 256 ^ i) mod 256"
    by (simp add: uint_word_of_int)
  ultimately show ?thesis by (auto simp: borrow_def)
qed

lemma writeIntLE_loop_run:
  assumes "wf_buffer m this" "0 \<le> offset" "offset + int i + int k < int (blen this)"
    and "buf_get m this (offset + int i) = Num (uint (word_of_int (value div 256 ^ i) :: byte))"
  shows "writeIntLE_loop m this value offset (int i + 1 + int k) (int i) (256 ^ i) (borrow value i) =
    put_run (\<lambda>m. buf_set m this) m (offset + int i + 1) (map (signed_digit value) [Suc i..<Suc i + k])"
  using assms
proof (induction k arbitrary: i m)
  case 0
  then show ?case by (simp add: writeIntLE_loop.simps)
next
  case (Suc k)
  let ?m = "buf_set m this (offset + (int i + 1)) (signed_digit value (Suc i))"
  have sub: "(if value < 0 \<and> borrow value i = 0 \<and> buf_get m this (offset + (int i + 1) - 1) \<noteq> Num 0
      then 1 else borrow value i) = borrow value (Suc i)"
    using Suc.prems(4) borrow_Suc [of "value" i] by (simp add: algebra_simps)
  have "writeIntLE_loop m this value offset (int i + 1 + int (Suc k)) (int i) (256 ^ i) (borrow value i) =
      writeIntLE_loop ?m this value offset (int (Suc i) + 1 + int k) (int (Suc i)) (256 ^ Suc i)
        (borrow value (Suc i))"
    by (subst writeIntLE_loop.simps) (simp only: Let_def sub, simp add: signed_digit_def algebra_simps)
  also have "\<dots> = put_run (\<lambda>m. buf_set m this) ?m (offset + int (Suc i) + 1)
      (map (signed_digit value) [Suc (Suc i)..<Suc (Suc i) + k])"
  proof (rule Suc.IH)
    show "buf_get ?m this (offset + int (Suc i)) = Num (uint (word_of_int (value div 256 ^ Suc i) :: byte))"
      using Suc.prems view.get_set_same [of m this "offset + int (Suc i)" "signed_digit value (Suc i)"]
        byte_of_signed_digit [of "value" "Suc i"] by (simp add: algebra_simps)
  qed (use Suc.prems in \<open>auto simp: wf_buffer_set\<close>)
  finally show ?case
    by (simp add: upt_conv_Cons algebra_simps del: upt_Suc)
qed

lemma writeIntBE_loop_run:
  assumes "wf_buffer m this" "0 \<le> offset" "offset + int k < int (blen this)"
    and "buf_get m this (offset + int k) = Num (uint (word_of_int (value div 256 ^ i) :: byte))"
  shows "writeIntBE_loop m this value offset (int k) (256 ^ i) (borrow value i) =
    put_down (\<lambda>m. buf_set m this) m (offset + int k - 1) (map (signed_digit value) [Suc i..<Suc i + k])"
  using assms
proof (induction k arbitrary: i m)
  case 0
  then show ?case by (simp add: writeIntBE_loop.simps)
next
  case (Suc k)
  let ?m = "buf_set m this (offset + int k) (signed_digit value (Suc i))"
  have sub: "(if value < 0 \<and> borrow value i = 0 \<and> buf_get m this (offset + (int (Suc k) - 1) + 1) \<noteq> Num 0
      then 1 else borrow value i) = borrow value (Suc i)"
    using Suc.prems(4) borrow_Suc [of "value" i] by (simp add: algebra_simps)
  have "writeIntBE_loop m this value offset (int (Suc k)) (256 ^ i) (borrow value i) =
      writeIntBE_loop ?m this value offset (int k) (256 ^ Suc i) (borrow value (Suc i))"
    by (subst writeIntBE_loop.simps) (simp only: Let_def sub, simp add: signed_digit_def algebra_simps)
  also have "\<dots> = put_down (\<lambda>m. buf_set m this) ?m (offset + int k - 1)
      (map (signed_digit value) [Suc (Suc i)..<Suc (Suc i) + k])"
  proof (rule Suc.IH)
    show "buf_get ?m this (offset + int k) = Num (uint (word_of_int (value div 256 ^ Suc i) :: byte))"
      using Suc.prems view.get_set_same [of m this "offset + int k" "signed_digit value (Suc i)"]
        byte_of_signed_digit [of "value" "Suc i"] by (simp add: algebra_simps)
  qed (use Suc.prems in \<open>auto simp: wf_buffer_set\<close>)
  finally show ?case
    by (simp add: upt_conv_Cons algebra_simps del: upt_Suc)
qed

section \<open>The contract of an integer format\<close>

text \<open>
  A format of \<open>n\<close> bytes for the values from \<open>lo\<close> to \<open>hi\<close>: the reader decodes the run at the
  offset, the writer stores the encoded run there, touches no other byte and no other buffer,
  and refuses what does not fit.
\<close>

definition stores_run :: "mem \<Rightarrow> buffer \<Rightarrow> nat \<Rightarrow> byte list \<Rightarrow> mem \<Rightarrow> bool" where
  "stores_run m b p bs m' \<longleftrightarrow>
     contents m' b = splice_at p bs (contents m b) \<and>
     (\<forall>c. wf_buffer m c \<longrightarrow> wf_buffer m' c \<and> (disjoint_views b c \<longrightarrow> contents m' c = contents m c))"

locale int_codec =
  fixes n :: nat
    and lo hi :: int
    and rd :: "byte list \<Rightarrow> int \<Rightarrow> jsnum result"
    and wr :: "mem \<Rightarrow> buffer \<Rightarrow> int \<Rightarrow> int \<Rightarrow> (int \<times> mem) result"
    and enc :: "int \<Rightarrow> byte list"
    and dec :: "byte list \<Rightarrow> int"
  assumes n_pos: "0 < n"
    and length_enc: "length (enc v) = n"
    and dec_enc: "lo \<le> v \<Longrightarrow> v \<le> hi \<Longrightarrow> dec (enc v) = v"
    and rd_in: "readable xs p n \<Longrightarrow> rd xs p = Inr (Num (dec (bytes_at xs p n)))"
    and rd_out: "length xs \<le> 2147483647 \<Longrightarrow> - 2147483648 \<le> p \<Longrightarrow> p < 2147483648 \<Longrightarrow>
        \<not> in_bounds xs p n \<Longrightarrow> \<exists>msg. rd xs p = Inl (RangeError msg)"
    and wr_in: "wf_buffer m b \<Longrightarrow> lo \<le> v \<Longrightarrow> v \<le> hi \<Longrightarrow> 0 \<le> p \<Longrightarrow> p + int n \<le> int (blen b) \<Longrightarrow>
        \<exists>m'. wr m b v p = Inr (p + int n, m') \<and> stores_run m b (nat p) (enc v) m'"
    and wr_value: "\<not> (lo \<le> v \<and> v \<le> hi) \<Longrightarrow> \<exists>msg. wr m b v p = Inl (RangeError msg)"
    and wr_beyond: "- 2147483648 \<le> p \<Longrightarrow> p < 2147483648 \<Longrightarrow> p + int n > int (blen b) \<Longrightarrow>
        \<exists>msg. wr m b v p = Inl (RangeError msg)"
begin

lemma bytes_at_splice:
  assumes "length bs = n" "0 \<le> p" "p + int n \<le> int (length xs)"
  shows "bytes_at (splice_at (nat p) bs xs) p n = bs"
  using assms by (simp add: splice_at_def)

text \<open>What was written is read back.\<close>

lemma round_trip:
  assumes wf: "wf_buffer m b" and v: "lo \<le> v" "v \<le> hi" and p: "0 \<le> p" "p + int n \<le> int (blen b)"
  shows "\<exists>m'. wr m b v p = Inr (p + int n, m') \<and> wf_buffer m' b \<and>
      rd (contents m' b) p = Inr (Num v)"
proof -
  from wr_in [OF wf v p] obtain m' where m': "wr m b v p = Inr (p + int n, m')"
    and st: "stores_run m b (nat p) (enc v) m'" by blast
  have wf': "wf_buffer m' b" using st wf by (simp add: stores_run_def)
  have c: "contents m' b = splice_at (nat p) (enc v) (contents m b)"
    using st by (simp add: stores_run_def)
  have len: "length (contents m b) = blen b" using wf by simp
  have "readable (contents m' b) p n"
    using p wf n_pos by (auto simp: c length_enc len wf_buffer_def)
  moreover have "bytes_at (contents m' b) p n = enc v"
    unfolding c using p len by (intro bytes_at_splice) (auto simp: length_enc)
  ultimately show ?thesis
    using m' wf' rd_in [of p "contents m' b"] dec_enc [OF v] by simp
qed

text \<open>Every other element keeps its value.\<close>

lemma frame:
  assumes wf: "wf_buffer m b" and v: "lo \<le> v" "v \<le> hi" and p: "0 \<le> p" "p + int n \<le> int (blen b)"
    and w: "wr m b v p = Inr (q, m')" and j: "j < blen b" "int j < p \<or> p + int n \<le> int j"
  shows "contents m' b ! j = contents m b ! j"
proof -
  from wr_in [OF wf v p] w have "contents m' b = splice_at (nat p) (enc v) (contents m b)"
    by (auto simp: stores_run_def)
  then show ?thesis using wf p j by (auto simp: nth_splice_at length_enc)
qed

end

section \<open>The formats\<close>

lemma stores_put_run:
  assumes "wf_buffer m b" "0 \<le> p" "p + int (length vs) \<le> int (blen b)" "bs = map word_of_int vs"
  shows "stores_run m b (nat p) bs (put_run (\<lambda>m. buf_set m b) m p vs)"
  using assms view.put_run_bytes [of m b p vs]
  by (auto simp: stores_run_def wf_put_run contents_put_run_disjoint)

lemma stores_put_down:
  assumes "wf_buffer m b" "0 \<le> p" "p + int (length vs) \<le> int (blen b)" "bs = rev (map word_of_int vs)"
    and "q = p + int (length vs) - 1"
  shows "stores_run m b (nat p) bs (put_down (\<lambda>m. buf_set m b) m q vs)"
proof -
  have "nat (q + 1) - length vs = nat p" using assms by auto
  then show ?thesis
    using assms view.put_down_bytes [of m b q vs]
    by (auto simp: stores_run_def wf_put_down contents_put_down_disjoint)
qed

lemma guarded_checkInt_ok:
  "lo \<le> v \<Longrightarrow> v \<le> hi \<Longrightarrow> p + ext \<le> int (blen b) \<Longrightarrow> guarded noAssert (checkInt b v p ext hi lo) body = body"
  by (simp add: guarded_def checkInt_def)

lemma guarded_checkInt_fails:
  "\<not> (lo \<le> v \<and> v \<le> hi) \<or> p + ext > int (blen b) \<Longrightarrow>
    \<exists>msg. guarded False (checkInt b v p ext hi lo) body = Inl (RangeError msg)"
  by (auto simp: guarded_def checkInt_def)

lemma wf_blen: "wf_buffer m b \<Longrightarrow> int (blen b) < 2147483648"
  by (simp add: wf_buffer_def)

text \<open>One store, two stores and four stores, in ascending and descending order.\<close>

lemma store1: "buf_set m b p v = put_run (\<lambda>m. buf_set m b) m p [v]"
  by simp

lemma store2: "buf_set (buf_set m b p v) b (p + 1) w = put_run (\<lambda>m. buf_set m b) m p [v, w]"
  by simp

lemma store4: "buf_set (buf_set (buf_set (buf_set m b p v) b (p + 1) w) b (p + 2) x) b (p + 3) y =
    put_run (\<lambda>m. buf_set m b) m p [v, w, x, y]"
  by (simp add: add.assoc)

lemma store4_down: "buf_set (buf_set (buf_set (buf_set m b (p + 3) v) b (p + 2) w) b (p + 1) x) b p y =
    put_down (\<lambda>m. buf_set m b) m (p + 3) [v, w, x, y]"
  by (simp add: add_diff_eq [symmetric])

lemmas wr_defs = writeUInt8_def writeUInt16LE_def writeUInt16BE_def writeUInt32LE_def writeUInt32BE_def
  writeInt8_def writeInt16LE_def writeInt16BE_def writeInt32LE_def writeInt32BE_def

interpretation uint8: int_codec 1 0 255
  "\<lambda>xs p. readUInt8 xs p False" "\<lambda>m b v p. writeUInt8 m b v p False" "le_bytes 1" "\<lambda>bs. le_value bs"
proof (unfold_locales, goal_cases)
  case (4 p xs)
  then show ?case by (intro readUInt8_value) auto
next
  case (6 m b v p)
  then have "js_or p 0 = p" using wf_blen [of m b] by (intro or_0) auto
  with 6 show ?case
    by (simp add: wr_defs guarded_checkInt_ok Let_def byte_of_wrap store32BE_def store1
          del: put_run.simps put_down.simps)
      (intro stores_put_run stores_put_down; simp add: le_bytes_1 le_bytes_2 le_bytes_4 byte_of_shr_simps)
qed (auto simp: le_value_le_bytes signed_value_mod_simps readUInt8_def wr_defs or_0 Let_def
    intro!: guarded_fails [where n = 1, simplified] guarded_checkInt_fails)

interpretation uint16le: int_codec 2 0 65535
  "\<lambda>xs p. readUInt16LE xs p False" "\<lambda>m b v p. writeUInt16LE m b v p False" "le_bytes 2" "\<lambda>bs. le_value bs"
proof (unfold_locales, goal_cases)
  case (4 p xs)
  then show ?case by (intro readUInt16LE_value) auto
next
  case (6 m b v p)
  then have "js_or p 0 = p" using wf_blen [of m b] by (intro or_0) auto
  with 6 show ?case
    by (simp add: wr_defs guarded_checkInt_ok Let_def byte_of_wrap store32BE_def store2
          del: put_run.simps put_down.simps)
      (intro stores_put_run stores_put_down; simp add: le_bytes_1 le_bytes_2 le_bytes_4 byte_of_shr_simps)
qed (auto simp: le_value_le_bytes signed_value_mod_simps readUInt16LE_def wr_defs or_0 Let_def
    intro!: guarded_fails [where n = 2, simplified] guarded_checkInt_fails)

interpretation uint16be: int_codec 2 0 65535
  "\<lambda>xs p. readUInt16BE xs p False" "\<lambda>m b v p. writeUInt16BE m b v p False" "be_bytes 2" "\<lambda>bs. be_value bs"
proof (unfold_locales, goal_cases)
  case (4 p xs)
  then show ?case by (intro readUInt16BE_value) auto
next
  case (6 m b v p)
  then have "js_or p 0 = p" using wf_blen [of m b] by (intro or_0) auto
  with 6 show ?case
    by (simp add: wr_defs guarded_checkInt_ok Let_def byte_of_wrap store32BE_def store2
          del: put_run.simps put_down.simps)
      (intro stores_put_run stores_put_down; simp add: le_bytes_1 le_bytes_2 le_bytes_4 byte_of_shr_simps)
qed (auto simp: le_value_le_bytes signed_value_mod_simps readUInt16BE_def wr_defs or_0 Let_def
    intro!: guarded_fails [where n = 2, simplified] guarded_checkInt_fails)

interpretation uint32le: int_codec 4 0 4294967295
  "\<lambda>xs p. readUInt32LE xs p False" "\<lambda>m b v p. writeUInt32LE m b v p False" "le_bytes 4" "\<lambda>bs. le_value bs"
proof (unfold_locales, goal_cases)
  case (4 p xs)
  then show ?case by (intro readUInt32LE_value) auto
next
  case (6 m b v p)
  then have "js_or p 0 = p" using wf_blen [of m b] by (intro or_0) auto
  with 6 show ?case
    by (simp add: wr_defs guarded_checkInt_ok Let_def byte_of_wrap store32BE_def store4 store4_down
          del: put_run.simps put_down.simps)
      (intro stores_put_run stores_put_down; simp add: le_bytes_1 le_bytes_2 le_bytes_4 byte_of_shr_simps)
qed (auto simp: le_value_le_bytes signed_value_mod_simps readUInt32LE_def wr_defs or_0 Let_def
    intro!: guarded_fails [where n = 4, simplified] guarded_checkInt_fails)

interpretation uint32be: int_codec 4 0 4294967295
  "\<lambda>xs p. readUInt32BE xs p False" "\<lambda>m b v p. writeUInt32BE m b v p False" "be_bytes 4" "\<lambda>bs. be_value bs"
proof (unfold_locales, goal_cases)
  case (4 p xs)
  then show ?case by (intro readUInt32BE_value) auto
next
  case (6 m b v p)
  then have "js_or p 0 = p" using wf_blen [of m b] by (intro or_0) auto
  with 6 show ?case
    by (simp add: wr_defs guarded_checkInt_ok Let_def byte_of_wrap store32BE_def store4 store4_down
          del: put_run.simps put_down.simps)
      (intro stores_put_run stores_put_down; simp add: le_bytes_1 le_bytes_2 le_bytes_4 byte_of_shr_simps)
qed (auto simp: le_value_le_bytes signed_value_mod_simps readUInt32BE_def wr_defs or_0 Let_def
    intro!: guarded_fails [where n = 4, simplified] guarded_checkInt_fails)

interpretation int8: int_codec 1 "(- 128)" 127
  "\<lambda>xs p. readInt8 xs p False" "\<lambda>m b v p. writeInt8 m b v p False" "le_bytes 1" "\<lambda>bs. signed_value 1 (le_value bs)"
proof (unfold_locales, goal_cases)
  case (4 p xs)
  then show ?case by (intro readInt8_value) auto
next
  case (6 m b v p)
  then have "js_or p 0 = p" using wf_blen [of m b] by (intro or_0) auto
  with 6 show ?case
    by (simp add: wr_defs guarded_checkInt_ok Let_def byte_of_wrap store32BE_def store1
          del: put_run.simps put_down.simps)
      (intro stores_put_run stores_put_down; simp add: le_bytes_1 le_bytes_2 le_bytes_4 byte_of_shr_simps)
qed (auto simp: le_value_le_bytes signed_value_mod_simps readInt8_def wr_defs or_0 Let_def
    intro!: guarded_fails [where n = 1, simplified] guarded_checkInt_fails)

interpretation int16le: int_codec 2 "(- 32768)" 32767
  "\<lambda>xs p. readInt16LE xs p False" "\<lambda>m b v p. writeInt16LE m b v p False" "le_bytes 2" "\<lambda>bs. signed_value 2 (le_value bs)"
proof (unfold_locales, goal_cases)
  case (4 p xs)
  then show ?case by (intro readInt16LE_value) auto
next
  case (6 m b v p)
  then have "js_or p 0 = p" using wf_blen [of m b] by (intro or_0) auto
  with 6 show ?case
    by (simp add: wr_defs guarded_checkInt_ok Let_def byte_of_wrap store32BE_def store2
          del: put_run.simps put_down.simps)
      (intro stores_put_run stores_put_down; simp add: le_bytes_1 le_bytes_2 le_bytes_4 byte_of_shr_simps)
qed (auto simp: le_value_le_bytes signed_value_mod_simps readInt16LE_def wr_defs or_0 Let_def
    intro!: guarded_fails [where n = 2, simplified] guarded_checkInt_fails)

interpretation int16be: int_codec 2 "(- 32768)" 32767
  "\<lambda>xs p. readInt16BE xs p False" "\<lambda>m b v p. writeInt16BE m b v p False" "be_bytes 2" "\<lambda>bs. signed_value 2 (be_value bs)"
proof (unfold_locales, goal_cases)
  case (4 p xs)
  then show ?case by (intro readInt16BE_value) auto
next
  case (6 m b v p)
  then have "js_or p 0 = p" using wf_blen [of m b] by (intro or_0) auto
  with 6 show ?case
    by (simp add: wr_defs guarded_checkInt_ok Let_def byte_of_wrap store32BE_def store2
          del: put_run.simps put_down.simps)
      (intro stores_put_run stores_put_down; simp add: le_bytes_1 le_bytes_2 le_bytes_4 byte_of_shr_simps)
qed (auto simp: le_value_le_bytes signed_value_mod_simps readInt16BE_def wr_defs or_0 Let_def
    intro!: guarded_fails [where n = 2, simplified] guarded_checkInt_fails)

interpretation int32le: int_codec 4 "(- 2147483648)" 2147483647
  "\<lambda>xs p. readInt32LE xs p False" "\<lambda>m b v p. writeInt32LE m b v p False" "le_bytes 4" "\<lambda>bs. signed_value 4 (le_value bs)"
proof (unfold_locales, goal_cases)
  case (4 p xs)
  then show ?case by (intro readInt32LE_value) auto
next
  case (6 m b v p)
  then have "js_or p 0 = p" using wf_blen [of m b] by (intro or_0) auto
  with 6 show ?case
    by (simp add: wr_defs guarded_checkInt_ok Let_def byte_of_wrap store32BE_def store4 store4_down
          del: put_run.simps put_down.simps)
      (intro stores_put_run stores_put_down; simp add: le_bytes_1 le_bytes_2 le_bytes_4 byte_of_shr_simps)
qed (auto simp: le_value_le_bytes signed_value_mod_simps readInt32LE_def wr_defs or_0 Let_def
    intro!: guarded_fails [where n = 4, simplified] guarded_checkInt_fails)

interpretation int32be: int_codec 4 "(- 2147483648)" 2147483647
  "\<lambda>xs p. readInt32BE xs p False" "\<lambda>m b v p. writeInt32BE m b v p False" "be_bytes 4" "\<lambda>bs. signed_value 4 (be_value bs)"
proof (unfold_locales, goal_cases)
  case (4 p xs)
  then show ?case by (intro readInt32BE_value) auto
next
  case (6 m b v p)
  then have "js_or p 0 = p" using wf_blen [of m b] by (intro or_0) auto
  with 6 show ?case
    by (simp add: wr_defs guarded_checkInt_ok Let_def byte_of_wrap store32BE_def store4 store4_down
          del: put_run.simps put_down.simps)
      (intro stores_put_run stores_put_down; simp add: le_bytes_1 le_bytes_2 le_bytes_4 byte_of_shr_simps)
qed (auto simp: le_value_le_bytes signed_value_mod_simps readInt32BE_def wr_defs or_0 Let_def
    intro!: guarded_fails [where n = 4, simplified] guarded_checkInt_fails)

text \<open>
  The formats with a byte count.  The documented counts are 1 to 6, for which every
  intermediate number is below \<open>2 ^ 53\<close>; \<open>Suc (k mod 6)\<close> ranges over them.
\<close>

lemma le_bytes_Cons_digits:
  assumes "0 \<le> v"
  shows "le_bytes (Suc k) v = map word_of_int (js_and v 255 # map (digit v) [1..<Suc k])"
  using assms by (simp add: le_bytes_def upt_conv_Cons byte_of_digit comp_def del: upt_Suc)

lemma le_bytes_Cons_signed_digits:
  "le_bytes (Suc k) v = map word_of_int (js_and v 255 # map (signed_digit v) [1..<Suc k])"
  by (simp add: le_bytes_def upt_conv_Cons byte_of_signed_digit comp_def del: upt_Suc)

lemma writeUIntLE_stores:
  assumes "wf_buffer m b" "0 \<le> v" "0 \<le> p" "p + int (Suc k) \<le> int (blen b)"
  shows "stores_run m b (nat p) (le_bytes (Suc k) v)
    (writeLE_loop (buf_set m b p (js_and v 255)) b v p (int (Suc k)) 0 1)"
proof -
  have "writeLE_loop (buf_set m b p (js_and v 255)) b v p (int (Suc k)) 0 1 =
      put_run (\<lambda>m. buf_set m b) m p (js_and v 255 # map (digit v) [1..<Suc k])"
    using writeLE_loop_run [of "buf_set m b p (js_and v 255)" b v p 0 k] by simp
  then show ?thesis
    using assms by (simp only:) (rule stores_put_run, auto simp: le_bytes_Cons_digits)
qed

lemma writeUIntBE_stores:
  assumes "wf_buffer m b" "0 \<le> v" "0 \<le> p" "p + int (Suc k) \<le> int (blen b)"
  shows "stores_run m b (nat p) (be_bytes (Suc k) v)
    (writeBE_loop (buf_set m b (p + int k) (js_and v 255)) b v p (int k) 1)"
proof -
  have "writeBE_loop (buf_set m b (p + int k) (js_and v 255)) b v p (int k) 1 =
      put_down (\<lambda>m. buf_set m b) m (p + int k) (js_and v 255 # map (digit v) [1..<Suc k])"
    using writeBE_loop_run [of "buf_set m b (p + int k) (js_and v 255)" b v p k 0] by simp
  then show ?thesis
    using assms by (simp only:) (rule stores_put_down, auto simp: le_bytes_Cons_digits)
qed

lemma writeIntLE_stores:
  assumes "wf_buffer m b" "0 \<le> p" "p + int (Suc k) \<le> int (blen b)"
  shows "stores_run m b (nat p) (le_bytes (Suc k) v)
    (writeIntLE_loop (buf_set m b p (js_and v 255)) b v p (int (Suc k)) 0 1 0)"
proof -
  have "writeIntLE_loop (buf_set m b p (js_and v 255)) b v p (int (Suc k)) 0 1 0 =
      put_run (\<lambda>m. buf_set m b) m p (js_and v 255 # map (signed_digit v) [1..<Suc k])"
    using writeIntLE_loop_run [of "buf_set m b p (js_and v 255)" b p 0 k v] assms
      view.get_set_same [of m b p "js_and v 255"]
    by (simp add: borrow_def wf_buffer_set)
  then show ?thesis
    using assms by (simp only:) (rule stores_put_run, auto simp: le_bytes_Cons_signed_digits)
qed

lemma writeIntBE_stores:
  assumes "wf_buffer m b" "0 \<le> p" "p + int (Suc k) \<le> int (blen b)"
  shows "stores_run m b (nat p) (be_bytes (Suc k) v)
    (writeIntBE_loop (buf_set m b (p + int k) (js_and v 255)) b v p (int k) 1 0)"
proof -
  have "writeIntBE_loop (buf_set m b (p + int k) (js_and v 255)) b v p (int k) 1 0 =
      put_down (\<lambda>m. buf_set m b) m (p + int k) (js_and v 255 # map (signed_digit v) [1..<Suc k])"
    using writeIntBE_loop_run [of "buf_set m b (p + int k) (js_and v 255)" b p k v 0] assms
      view.get_set_same [of m b "p + int k" "js_and v 255"]
    by (simp add: borrow_def wf_buffer_set)
  then show ?thesis
    using assms by (simp only:) (rule stores_put_down, auto simp: le_bytes_Cons_signed_digits)
qed

lemma max_unsigned_nat: "max_unsigned (int n) = 2 ^ (8 * n) - 1"
  by (simp add: max_unsigned_def nat_mult_distrib)

lemma max_signed_nat: "max_signed (int (Suc k)) = 2 ^ (8 * Suc k - 1) - 1"
  and min_signed_nat: "min_signed (int (Suc k)) = - (2 ^ (8 * Suc k - 1))"
proof -
  have "nat (8 * int (Suc k) - 1) = 8 * Suc k - 1" by simp
  then show "max_signed (int (Suc k)) = 2 ^ (8 * Suc k - 1) - 1"
    "min_signed (int (Suc k)) = - (2 ^ (8 * Suc k - 1))"
    by (simp_all only: max_signed_def min_signed_def) simp_all
qed

lemma dec_enc_unsigned: "0 \<le> v \<Longrightarrow> v \<le> 2 ^ (8 * n) - 1 \<Longrightarrow> le_value (le_bytes n v) = v"
  by (simp add: le_value_le_bytes pow_256)

lemma dec_enc_signed:
  "0 < n \<Longrightarrow> - (2 ^ (8 * n - 1)) \<le> v \<Longrightarrow> v \<le> 2 ^ (8 * n - 1) - 1 \<Longrightarrow>
    signed_value n (le_value (le_bytes n v)) = v"
  by (simp only: le_value_le_bytes) (rule signed_value_mod, simp_all)

lemma or_0_width: "js_or (int (Suc (k mod 6))) 0 = int (Suc (k mod 6))"
  using mod_less_divisor [of 6 k] by (intro or_0) linarith+

interpretation uintle: int_codec "Suc (k mod 6)" "0" "2 ^ (8 * Suc (k mod 6)) - 1"
  "\<lambda>xs p. readUIntLE xs p (int (Suc (k mod 6))) False" "\<lambda>m b v p. writeUIntLE m b v p (int (Suc (k mod 6))) False"
  "le_bytes (Suc (k mod 6))" "\<lambda>bs. le_value bs" for k
proof (unfold_locales, goal_cases)
  case (3 v)
  then show ?case unfolding rev_rev_ident by (intro dec_enc_unsigned)
next
  case (4 p xs)
  then show ?case by (intro readUIntLE_value) auto
next
  case (5 xs p)
  then show ?case
    using guarded_fails [of p "Suc (k mod 6)" xs] unfolding readUIntLE_def by (simp only: or_0 or_0_width Let_def) blast
next
  case (6 m b v p)
  then have "js_or p 0 = p" using wf_blen [of m b] by (intro or_0) auto
  then show ?case
    using 6 writeUIntLE_stores [of m b v p "k mod 6"]
    by (simp only: writeUIntLE_def or_0_width Let_def max_unsigned_nat guarded_checkInt_ok) simp
next
  case (7 v m b p)
  then show ?case
    by (simp only: writeUIntLE_def or_0_width Let_def max_unsigned_nat) (rule guarded_checkInt_fails, simp)
next
  case (8 p b m v)
  then show ?case
    by (simp only: writeUIntLE_def or_0 or_0_width Let_def) (rule guarded_checkInt_fails, simp)
qed simp_all

interpretation uintbe: int_codec "Suc (k mod 6)" "0" "2 ^ (8 * Suc (k mod 6)) - 1"
  "\<lambda>xs p. readUIntBE xs p (int (Suc (k mod 6))) False" "\<lambda>m b v p. writeUIntBE m b v p (int (Suc (k mod 6))) False"
  "be_bytes (Suc (k mod 6))" "\<lambda>bs. be_value bs" for k
proof (unfold_locales, goal_cases)
  case (3 v)
  then show ?case unfolding rev_rev_ident by (intro dec_enc_unsigned)
next
  case (4 p xs)
  then show ?case by (intro readUIntBE_value) auto
next
  case (5 xs p)
  then show ?case
    using guarded_fails [of p "Suc (k mod 6)" xs] unfolding readUIntBE_def by (simp only: or_0 or_0_width Let_def) blast
next
  case (6 m b v p)
  then have "js_or p 0 = p" using wf_blen [of m b] by (intro or_0) auto
  then show ?case
    using 6 writeUIntBE_stores [of m b v p "k mod 6"]
    by (simp only: writeUIntBE_def or_0_width Let_def max_unsigned_nat guarded_checkInt_ok) simp
next
  case (7 v m b p)
  then show ?case
    by (simp only: writeUIntBE_def or_0_width Let_def max_unsigned_nat) (rule guarded_checkInt_fails, simp)
next
  case (8 p b m v)
  then show ?case
    by (simp only: writeUIntBE_def or_0 or_0_width Let_def) (rule guarded_checkInt_fails, simp)
qed simp_all

interpretation intle: int_codec "Suc (k mod 6)" "- (2 ^ (8 * Suc (k mod 6) - 1))" "2 ^ (8 * Suc (k mod 6) - 1) - 1"
  "\<lambda>xs p. readIntLE xs p (int (Suc (k mod 6))) False" "\<lambda>m b v p. writeIntLE m b v p (int (Suc (k mod 6))) False"
  "le_bytes (Suc (k mod 6))" "\<lambda>bs. signed_value (Suc (k mod 6)) (le_value bs)" for k
proof (unfold_locales, goal_cases)
  case (3 v)
  then show ?case unfolding rev_rev_ident by (intro dec_enc_signed) simp_all
next
  case (4 p xs)
  then show ?case by (intro readIntLE_value) auto
next
  case (5 xs p)
  then show ?case
    using guarded_fails [of p "Suc (k mod 6)" xs] unfolding readIntLE_def by (simp only: or_0 or_0_width Let_def) blast
next
  case (6 m b v p)
  then have "js_or p 0 = p" using wf_blen [of m b] by (intro or_0) auto
  then show ?case
    using 6 writeIntLE_stores [of m b p "k mod 6" v]
    by (simp only: writeIntLE_def or_0_width Let_def max_signed_nat min_signed_nat guarded_checkInt_ok) simp
next
  case (7 v m b p)
  then show ?case
    by (simp only: writeIntLE_def or_0_width Let_def max_signed_nat min_signed_nat) (rule guarded_checkInt_fails, simp)
next
  case (8 p b m v)
  then show ?case
    by (simp only: writeIntLE_def or_0 or_0_width Let_def) (rule guarded_checkInt_fails, simp)
qed simp_all

interpretation intbe: int_codec "Suc (k mod 6)" "- (2 ^ (8 * Suc (k mod 6) - 1))" "2 ^ (8 * Suc (k mod 6) - 1) - 1"
  "\<lambda>xs p. readIntBE xs p (int (Suc (k mod 6))) False" "\<lambda>m b v p. writeIntBE m b v p (int (Suc (k mod 6))) False"
  "be_bytes (Suc (k mod 6))" "\<lambda>bs. signed_value (Suc (k mod 6)) (be_value bs)" for k
proof (unfold_locales, goal_cases)
  case (3 v)
  then show ?case unfolding rev_rev_ident by (intro dec_enc_signed) simp_all
next
  case (4 p xs)
  then show ?case by (intro readIntBE_value) auto
next
  case (5 xs p)
  then show ?case
    using guarded_fails [of p "Suc (k mod 6)" xs] unfolding readIntBE_def by (simp only: or_0 or_0_width Let_def) blast
next
  case (6 m b v p)
  then have "js_or p 0 = p" using wf_blen [of m b] by (intro or_0) auto
  then show ?case
    using 6 writeIntBE_stores [of m b p "k mod 6" v]
    by (simp only: writeIntBE_def or_0_width Let_def max_signed_nat min_signed_nat guarded_checkInt_ok) simp
next
  case (7 v m b p)
  then show ?case
    by (simp only: writeIntBE_def or_0_width Let_def max_signed_nat min_signed_nat) (rule guarded_checkInt_fails, simp)
next
  case (8 p b m v)
  then show ?case
    by (simp only: writeIntBE_def or_0 or_0_width Let_def) (rule guarded_checkInt_fails, simp)
qed simp_all

section \<open>The stores without typed arrays\<close>

lemma buf_set_cong: "(word_of_int v :: byte) = word_of_int w \<Longrightarrow> buf_set m b i v = buf_set m b i w"
  by (simp add: buf_set_def)

lemma buf_set_commute: "i \<noteq> j \<Longrightarrow> buf_set (buf_set m b i v) b j w = buf_set (buf_set m b j w) b i v"
  by (cases "arr b < length (arrays m)")
    (auto simp: buf_set_def nat_eq_iff list_update_swap list_update_beyond intro!: mem.equality)

lemma put_run_append: "put_run put s i (vs @ ws) = put_run put (put_run put s i vs) (i + int (length vs)) ws"
  by (induction vs arbitrary: s i) (simp_all add: algebra_simps)

lemma set_put_run_commute:
  "i + int (length vs) \<le> j \<Longrightarrow>
    buf_set (put_run (\<lambda>m. buf_set m b) m i vs) b j w = put_run (\<lambda>m. buf_set m b) (buf_set m b j w) i vs"
  by (induction vs arbitrary: m i) (simp_all add: buf_set_commute)

text \<open>Descending stores end in the same memory as ascending ones.\<close>

lemma put_down_eq_put_run:
  "put_down (\<lambda>m. buf_set m b) m (p + int (length vs) - 1) vs = put_run (\<lambda>m. buf_set m b) m p (rev vs)"
proof (induction vs arbitrary: m)
  case (Cons v vs)
  have "put_down (\<lambda>m. buf_set m b) m (p + int (length (v # vs)) - 1) (v # vs) =
      put_down (\<lambda>m. buf_set m b) (buf_set m b (p + int (length vs)) v) (p + int (length vs) - 1) vs"
    by (simp add: algebra_simps)
  also have "\<dots> = put_run (\<lambda>m. buf_set m b) (buf_set m b (p + int (length vs)) v) p (rev vs)"
    by (rule Cons.IH)
  also have "\<dots> = put_run (\<lambda>m. buf_set m b) m p (rev (v # vs))"
    by (simp add: put_run_append set_put_run_commute)
  finally show ?case .
qed simp

lemma js_shl_255: "js_shl 255 8 = 65280"
  by (simp add: js_shl_def to_int32_id shift_count_def to_uint32_id push_bit_eq_mult)

lemma js_shl_255_0: "js_shl 255 0 = 255"
  by (simp add: js_shl_def to_int32_id shift_count_def to_uint32_id)

text \<open>The numbers that reach the object are the bytes themselves.\<close>

lemma masked_low: "js_shr (js_and v 255) 0 = v mod 256"
proof -
  have "0 \<le> v mod 256" "v mod 256 < 256" by simp_all
  then show ?thesis using js_shr_small [of "v mod 256" 0] by (simp add: js_simps)
qed

lemma masked_high: "js_shr (js_and v 65280) 8 = v div 256 mod 256"
proof -
  have "(65280 :: int) = push_bit 8 (mask 8)" by (simp add: push_bit_eq_mult mask_eq_exp_minus_1)
  then have a: "js_and v 65280 = 256 * (v div 256 mod 256)" using js_and_shifted_mask [of 8 8 v] by simp
  have "0 \<le> v div 256 mod 256" "v div 256 mod 256 < 256" by simp_all
  then show ?thesis unfolding a using js_shr_small [of "256 * (v div 256 mod 256)" 8] by simp
qed

lemma shifted_byte: "k + 8 \<le> 32 \<Longrightarrow> js_and (js_shr v (int k)) 255 = v div 2 ^ k mod 256"
  using byte_of_shr [of k v] by (simp add: js_simps word_of_int_eq_iff take_bit_eq_mod)

lemmas shifted_byte_simps = shifted_byte [of 0, simplified] shifted_byte [of 8, simplified] shifted_byte [of 16, simplified]
  shifted_byte [of 24, simplified]

lemma plain_length_set [simp]: "plain_length (plain_set s i v) = plain_length s"
  by (simp add: plain_set_def)

lemma div_wrap: "(65536 + v) mod 256 = v mod 256" "(65536 + v) div 256 = 256 + v div 256" "(4294967296 + v) mod 256 = v mod 256"
  "(4294967296 + v) div 256 = 16777216 + v div 256" "(4294967296 + v) div 65536 = 65536 + v div 65536"
  "(4294967296 + v) div 16777216 = 256 + v div 16777216" for v :: int
  using mod_mult_self1 [of v 256 256] div_mult_self3 [of 256 256 v] mod_mult_self1 [of v 16777216 256] div_mult_self3 [of 256 16777216 v]
    div_mult_self3 [of 65536 65536 v] div_mult_self3 [of 16777216 256 v]
  by (simp_all add: add.commute)

lemma mod_wrap: "(256 + x) mod 256 = x mod 256" "(65536 + x) mod 256 = x mod 256" "(16777216 + x) mod 256 = x mod 256" for x :: int
  using mod_mult_self1 [of x 1 256] mod_mult_self1 [of x 256 256] mod_mult_self1 [of x 65536 256] by (simp_all add: add.commute)

lemma objectWriteUInt16_unfold:
  assumes "offset + 2 \<le> int (plain_length s)"
  shows "objectWriteUInt16 s v offset littleEndian =
    put_run plain_set s offset ((if littleEndian then id else rev) [v mod 256, v div 256 mod 256])"
proof -
  have j: "min (int (plain_length s) - offset) 2 = 2" using assms by simp
  have "(65535 + v + 1) = 65536 + v" by simp
  then show ?thesis
    by (simp add: mod_wrap objectWriteUInt16_def j objectWriteUInt16_loop.simps js_shl_255 js_shl_255_0 masked_low masked_high div_wrap Let_def)
qed

lemma objectWriteUInt32_unfold:
  assumes "offset + 4 \<le> int (plain_length s)"
  shows "objectWriteUInt32 s v offset littleEndian =
    put_run plain_set s offset
      ((if littleEndian then id else rev) [v mod 256, v div 256 mod 256, v div 65536 mod 256, v div 16777216 mod 256])"
proof -
  have j: "min (int (plain_length s) - offset) 4 = 4" using assms by simp
  have "(4294967295 + v + 1) = 4294967296 + v" by simp
  then show ?thesis
    by (simp add: mod_wrap objectWriteUInt32_def j objectWriteUInt32_loop.simps shifted_byte_simps div_wrap add.assoc Let_def)
qed

text \<open>A plain object and a typed array that hold the same bytes.\<close>

definition same_bytes :: "plain_buffer \<Rightarrow> mem \<Rightarrow> buffer \<Rightarrow> bool" where
  "same_bytes s m b \<longleftrightarrow> wf_buffer m b \<and> plain_length s = blen b \<and>
     plain_entries s = (\<lambda>i. if 0 \<le> i \<and> i < int (blen b) then Some (uint (contents m b ! nat i)) else None)"

lemma same_bytes_set:
  assumes "same_bytes s m b" "0 \<le> i" "i < int (blen b)"
  shows "same_bytes (plain_set s i (v mod 256)) (buf_set m b i v) b"
proof -
  have "wf_buffer m b" using assms(1) by (simp add: same_bytes_def)
  moreover from this have "length (contents m b) = blen b" by (rule length_contents)
  moreover have "uint (word_of_int v :: byte) = v mod 256" by (simp add: unsigned_of_int take_bit_eq_mod)
  ultimately show ?thesis
    using assms by (auto simp: same_bytes_def plain_set_def wf_buffer_set contents_set nth_list_update nat_eq_iff fun_eq_iff)
qed

lemma same_bytes_run:
  "same_bytes s m b \<Longrightarrow> 0 \<le> i \<Longrightarrow> i + int (length vs) \<le> int (blen b) \<Longrightarrow>
    same_bytes (put_run plain_set s i (map (\<lambda>v. v mod 256) vs)) (put_run (\<lambda>m. buf_set m b) m i vs) b"
proof (induction vs arbitrary: s m i)
  case (Cons v vs)
  then show ?case using same_bytes_set [of s m b i v] by simp
qed simp

text \<open>The typed-array branch stores the same bytes.\<close>

lemma typed16_unfold:
  "buf_set m b i (js_and v 255) = buf_set m b i v"
  "buf_set m b i (js_shr v 8) = buf_set m b i (v div 256)"
  "buf_set m b i (js_shr v 16) = buf_set m b i (v div 65536)"
  "buf_set m b i (js_shr v 24) = buf_set m b i (v div 16777216)"
  by (auto intro!: buf_set_cong simp: byte_of_shr_simps)

lemma wrapped_unfold:
  "buf_set m b i (4294967296 + v) = buf_set m b i v"
  "buf_set m b i ((4294967296 + v) div 256) = buf_set m b i (v div 256)"
  "buf_set m b i ((4294967296 + v) div 65536) = buf_set m b i (v div 65536)"
  "buf_set m b i ((4294967296 + v) div 16777216) = buf_set m b i (v div 16777216)"
  by (auto intro!: buf_set_cong simp: word_of_int_eq_iff take_bit_eq_mod div_wrap mod_wrap)

section \<open>Fixed widths against byte counts\<close>

lemma fixed_agree_1:
  "readable xs p 1 \<Longrightarrow> readUInt8 xs p a = readUIntLE xs p 1 a \<and> readInt8 xs p a = readIntLE xs p 1 a"
  using readUIntLE_value [of p 1 xs a] readIntLE_value [of p 1 xs a]
  by (auto simp: readUInt8_value readInt8_value)

lemma fixed_agree_2:
  "readable xs p 2 \<Longrightarrow>
    readUInt16LE xs p a = readUIntLE xs p 2 a \<and> readUInt16BE xs p a = readUIntBE xs p 2 a \<and>
    readInt16LE xs p a = readIntLE xs p 2 a \<and> readInt16BE xs p a = readIntBE xs p 2 a"
  using readUIntLE_value [of p 2 xs a] readIntLE_value [of p 2 xs a]
    readUIntBE_value [of p 2 xs a] readIntBE_value [of p 2 xs a]
  by (auto simp: readUInt16LE_value readUInt16BE_value readInt16LE_value readInt16BE_value)

lemma fixed_agree_4:
  "readable xs p 4 \<Longrightarrow>
    readUInt32LE xs p a = readUIntLE xs p 4 a \<and> readUInt32BE xs p a = readUIntBE xs p 4 a \<and>
    readInt32LE xs p a = readIntLE xs p 4 a \<and> readInt32BE xs p a = readIntBE xs p 4 a"
  using readUIntLE_value [of p 4 xs a] readIntLE_value [of p 4 xs a]
    readUIntBE_value [of p 4 xs a] readIntBE_value [of p 4 xs a]
  by (auto simp: readUInt32LE_value readUInt32BE_value readInt32LE_value readInt32BE_value)

section \<open>Properties\<close>

definition reads_back ::
    "(mem \<Rightarrow> buffer \<Rightarrow> int \<Rightarrow> int \<Rightarrow> bool \<Rightarrow> (int \<times> mem) result) \<Rightarrow> (byte list \<Rightarrow> int \<Rightarrow> bool \<Rightarrow> jsnum result) \<Rightarrow>
     mem \<Rightarrow> buffer \<Rightarrow> int \<Rightarrow> int \<Rightarrow> nat \<Rightarrow> bool" where
  "reads_back wr rd m b v p n \<longleftrightarrow>
     (\<exists>m'. wr m b v p False = Inr (p + int n, m') \<and> wf_buffer m' b \<and>
        rd (contents m' b) p False = Inr (Num v))"

text \<open>
  C9: the signed writers with a byte count of 1 to 6 store two's complement, in both byte
  orders, although they compute it with truncating division and a borrow read back from the
  buffer: \<open>readIntLE\<close> and \<open>readIntBE\<close> return the value written.
\<close>

theorem signed_write_read:
  assumes "1 \<le> n" "n \<le> 6" "wf_buffer m b" "0 \<le> p" "p + int n \<le> int (blen b)"
    and "- (2 ^ (8 * n - 1)) \<le> v" "v \<le> 2 ^ (8 * n - 1) - 1"
  shows "reads_back (\<lambda>m b v p. writeIntLE m b v p (int n)) (\<lambda>xs p. readIntLE xs p (int n)) m b v p n \<and>
    reads_back (\<lambda>m b v p. writeIntBE m b v p (int n)) (\<lambda>xs p. readIntBE xs p (int n)) m b v p n"
proof -
  have n: "Suc ((n - 1) mod 6) = n" using assms by simp
  show ?thesis
    using assms intle.round_trip [where k = "n - 1", unfolded n] intbe.round_trip [where k = "n - 1", unfolded n]
    unfolding reads_back_def by blast
qed

text \<open>A buffer of eight zero bytes, for the witnesses.\<close>

definition sample_mem :: mem where
  "sample_mem = \<lparr>arrays = [replicate 8 0], next_id = 1\<rparr>"

definition sample_buf :: buffer where
  "sample_buf = \<lparr>bid = 0, arr = 0, off = 0, blen = 8\<rparr>"

lemma sample_wf: "wf_buffer sample_mem sample_buf" "blen sample_buf = 8"
  by (simp_all add: wf_buffer_def sample_mem_def sample_buf_def)

theorem signed_write_read_witness:
  "reads_back (\<lambda>m b v p. writeIntLE m b v p (int 3)) (\<lambda>xs p. readIntLE xs p (int 3))
     sample_mem sample_buf (- 512) 2 3 \<and>
   reads_back (\<lambda>m b v p. writeIntBE m b v p (int 3)) (\<lambda>xs p. readIntBE xs p (int 3))
     sample_mem sample_buf (- 512) 2 3"
  by (rule signed_write_read) (simp_all add: sample_wf)

text \<open>
  C28: the unsigned writers with a byte count of 1 to 6 round trip with their readers for every
  value of the range.
\<close>

theorem unsigned_write_read:
  assumes "1 \<le> n" "n \<le> 6" "wf_buffer m b" "0 \<le> p" "p + int n \<le> int (blen b)"
    and "0 \<le> v" "v \<le> 2 ^ (8 * n) - 1"
  shows "reads_back (\<lambda>m b v p. writeUIntLE m b v p (int n)) (\<lambda>xs p. readUIntLE xs p (int n)) m b v p n \<and>
    reads_back (\<lambda>m b v p. writeUIntBE m b v p (int n)) (\<lambda>xs p. readUIntBE xs p (int n)) m b v p n"
proof -
  have n: "Suc ((n - 1) mod 6) = n" using assms by simp
  show ?thesis
    using assms uintle.round_trip [where k = "n - 1", unfolded n] uintbe.round_trip [where k = "n - 1", unfolded n]
    unfolding reads_back_def by blast
qed

theorem unsigned_write_read_witness:
  "reads_back (\<lambda>m b v p. writeUIntLE m b v p (int 6)) (\<lambda>xs p. readUIntLE xs p (int 6))
     sample_mem sample_buf 281474976710655 2 6 \<and>
   reads_back (\<lambda>m b v p. writeUIntBE m b v p (int 6)) (\<lambda>xs p. readUIntBE xs p (int 6))
     sample_mem sample_buf 281474976710655 2 6"
  by (rule unsigned_write_read) (simp_all add: sample_wf)

text \<open>
  C29: every fixed-width reader, written with shifts and ors, agrees with the generic loop of
  its width on every run inside a buffer.
\<close>

theorem fixed_readers_agree:
  assumes "length xs \<le> 2147483647" "0 \<le> p" "p + int w \<le> int (length xs)"
  shows "(w = 1 \<longrightarrow> readUInt8 xs p a = readUIntLE xs p 1 a \<and> readInt8 xs p a = readIntLE xs p 1 a) \<and>
    (w = 2 \<longrightarrow> readUInt16LE xs p a = readUIntLE xs p 2 a \<and> readUInt16BE xs p a = readUIntBE xs p 2 a \<and>
       readInt16LE xs p a = readIntLE xs p 2 a \<and> readInt16BE xs p a = readIntBE xs p 2 a) \<and>
    (w = 4 \<longrightarrow> readUInt32LE xs p a = readUIntLE xs p 4 a \<and> readUInt32BE xs p a = readUIntBE xs p 4 a \<and>
       readInt32LE xs p a = readIntLE xs p 4 a \<and> readInt32BE xs p a = readIntBE xs p 4 a)"
  using assms fixed_agree_1 [of p xs a] fixed_agree_2 [of p xs a] fixed_agree_4 [of p xs a] by auto

theorem fixed_readers_agree_witness:
  "readUInt32LE [1, 2, 3, 4, 255] 1 False = readUIntLE [1, 2, 3, 4, 255] 1 4 False \<and>
   readInt32LE [1, 2, 3, 4, 255] 1 False = readIntLE [1, 2, 3, 4, 255] 1 4 False"
  using fixed_readers_agree [of "[1, 2, 3, 4, 255]" 1 4 False] by simp

text \<open>
  C30: the fixed-width writers round trip with their readers over their whole range, wherever the bytes fit.
\<close>

theorem fixed_write_read:
  assumes "wf_buffer m b" "0 \<le> p"
  shows "(p + 1 \<le> int (blen b) \<and> 0 \<le> v \<and> v \<le> 255 \<longrightarrow> reads_back writeUInt8 readUInt8 m b v p 1) \<and>
    (p + 2 \<le> int (blen b) \<and> 0 \<le> v \<and> v \<le> 65535 \<longrightarrow> reads_back writeUInt16LE readUInt16LE m b v p 2 \<and>
       reads_back writeUInt16BE readUInt16BE m b v p 2) \<and>
    (p + 4 \<le> int (blen b) \<and> 0 \<le> v \<and> v \<le> 4294967295 \<longrightarrow> reads_back writeUInt32LE readUInt32LE m b v p 4 \<and>
       reads_back writeUInt32BE readUInt32BE m b v p 4) \<and>
    (p + 1 \<le> int (blen b) \<and> - 128 \<le> v \<and> v \<le> 127 \<longrightarrow> reads_back writeInt8 readInt8 m b v p 1) \<and>
    (p + 2 \<le> int (blen b) \<and> - 32768 \<le> v \<and> v \<le> 32767 \<longrightarrow> reads_back writeInt16LE readInt16LE m b v p 2 \<and>
       reads_back writeInt16BE readInt16BE m b v p 2) \<and>
    (p + 4 \<le> int (blen b) \<and> - 2147483648 \<le> v \<and> v \<le> 2147483647 \<longrightarrow> reads_back writeInt32LE readInt32LE m b v p 4 \<and>
       reads_back writeInt32BE readInt32BE m b v p 4)"
proof -
  note rt = uint8.round_trip [OF assms(1)] uint16le.round_trip [OF assms(1)] uint16be.round_trip [OF assms(1)]
    uint32le.round_trip [OF assms(1)] uint32be.round_trip [OF assms(1)] int8.round_trip [OF assms(1)]
    int16le.round_trip [OF assms(1)] int16be.round_trip [OF assms(1)] int32le.round_trip [OF assms(1)]
    int32be.round_trip [OF assms(1)]
  show ?thesis
    unfolding reads_back_def by (intro conjI impI; elim conjE; (rule rt [OF _ _ assms(2)]; simp))
qed

theorem fixed_write_read_witness:
  "reads_back writeInt32BE readInt32BE sample_mem sample_buf (- 2147483648) 4 4"
  using fixed_write_read [of sample_mem sample_buf 4 "- 2147483648"] by (simp add: sample_wf)

text \<open>
  C31: on a browser without typed arrays, a buffer is a plain object, which keeps every number as it is given.  The stores
  \<open>objectWriteUInt16\<close> and \<open>objectWriteUInt32\<close> put into it exactly the bytes that the eight writers store in a typed array,
  in both byte orders, for every value in the range of the writer, negative ones included, and touch no other entry.
\<close>

definition stores_agree :: "(mem \<Rightarrow> buffer \<Rightarrow> int \<Rightarrow> int \<Rightarrow> bool \<Rightarrow> (int \<times> mem) result) \<Rightarrow> int \<Rightarrow>
    (plain_buffer \<Rightarrow> int \<Rightarrow> int \<Rightarrow> plain_buffer) \<Rightarrow> plain_buffer \<Rightarrow> mem \<Rightarrow> buffer \<Rightarrow> int \<Rightarrow> int \<Rightarrow> bool" where
  "stores_agree wr n obj s m b v p \<longleftrightarrow> (\<exists>m'. wr m b v p False = Inr (p + n, m') \<and> same_bytes (obj s v p) m' b)"

theorem object_stores_agree:
  assumes "same_bytes s m b" "0 \<le> p"
  shows "(p + 2 \<le> int (blen b) \<and> 0 \<le> v \<and> v \<le> 65535 \<longrightarrow>
      stores_agree writeUInt16LE 2 (\<lambda>s v p. objectWriteUInt16 s v p True) s m b v p \<and>
      stores_agree writeUInt16BE 2 (\<lambda>s v p. objectWriteUInt16 s v p False) s m b v p) \<and>
    (p + 2 \<le> int (blen b) \<and> - 32768 \<le> v \<and> v \<le> 32767 \<longrightarrow>
      stores_agree writeInt16LE 2 (\<lambda>s v p. objectWriteUInt16 s v p True) s m b v p \<and>
      stores_agree writeInt16BE 2 (\<lambda>s v p. objectWriteUInt16 s v p False) s m b v p) \<and>
    (p + 4 \<le> int (blen b) \<and> 0 \<le> v \<and> v \<le> 4294967295 \<longrightarrow>
      stores_agree writeUInt32LE 4 (\<lambda>s v p. objectWriteUInt32 s v p True) s m b v p \<and>
      stores_agree writeUInt32BE 4 (\<lambda>s v p. objectWriteUInt32 s v p False) s m b v p) \<and>
    (p + 4 \<le> int (blen b) \<and> - 2147483648 \<le> v \<and> v \<le> 2147483647 \<longrightarrow>
      stores_agree writeInt32LE 4 (\<lambda>s v p. objectWriteUInt32 s v p True) s m b v p \<and>
      stores_agree writeInt32BE 4 (\<lambda>s v p. objectWriteUInt32 s v p False) s m b v p)"
proof -
  have wf: "wf_buffer m b" "plain_length s = blen b" using assms(1) by (auto simp: same_bytes_def)
  have p: "js_or p 0 = p" if "p + 2 \<le> int (blen b)" using or_0 [of p] wf(1) assms(2) that by (simp add: wf_buffer_def)
  have down: "buf_set (buf_set (buf_set (buf_set m b (p + 3) v3) b (p + 2) v2) b (p + 1) v1) b p v0 =
      put_run (\<lambda>m. buf_set m b) m p [v0, v1, v2, v3]" for v0 v1 v2 v3
    using put_down_eq_put_run [of b m p "[v3, v2, v1, v0]"] unfolding store4_down
    by (simp add: add.commute del: put_run.simps put_down.simps)
  note run = same_bytes_run [OF assms]
  have u16: "same_bytes (objectWriteUInt16 s v p True) (buf_set (buf_set m b p v) b (p + 1) (v div 256)) b"
    "same_bytes (objectWriteUInt16 s v p False) (buf_set (buf_set m b p (v div 256)) b (p + 1) v) b" if "p + 2 \<le> int (blen b)"
    unfolding store2 using that run [of "[v, v div 256]"] run [of "[v div 256, v]"]
    by (simp_all add: objectWriteUInt16_unfold wf(2) del: put_run.simps)
  let ?vs = "[v, v div 256, v div 65536, v div 16777216]"
  have u32: "same_bytes (objectWriteUInt32 s v p True) (put_run (\<lambda>m. buf_set m b) m p ?vs) b"
    "same_bytes (objectWriteUInt32 s v p False) (put_run (\<lambda>m. buf_set m b) m p (rev ?vs)) b" if "p + 4 \<le> int (blen b)"
    using that run [of ?vs] run [of "rev ?vs"] by (simp_all add: objectWriteUInt32_unfold wf(2) del: put_run.simps)
  have wrapped: "put_run (\<lambda>m. buf_set m b) m p [(4294967296 + v) div 16777216, (4294967296 + v) div 65536, (4294967296 + v) div 256, 4294967296 + v] =
      put_run (\<lambda>m. buf_set m b) m p (rev ?vs)" by (simp add: wrapped_unfold)
  show ?thesis
    unfolding stores_agree_def
    by (intro conjI impI; elim conjE)
      (simp_all add: wr_defs p guarded_checkInt_ok Let_def store32BE_def typed16_unfold wrapped down store4 u16
        u32 [unfolded rev.simps append.simps] del: put_run.simps)
qed

text \<open>The object of a zeroed buffer.\<close>

definition sample_plain :: plain_buffer where
  "sample_plain = \<lparr>plain_entries = (\<lambda>i. if 0 \<le> i \<and> i < 8 then Some 0 else None), plain_length = 8\<rparr>"

theorem object_stores_agree_witness:
  "stores_agree writeInt16BE 2 (\<lambda>s v p. objectWriteUInt16 s v p False) sample_plain sample_mem sample_buf (- 2) 6"
proof -
  have "contents sample_mem sample_buf = replicate 8 0" by (simp add: contents_def sample_mem_def sample_buf_def)
  then have "same_bytes sample_plain sample_mem sample_buf" by (auto simp: same_bytes_def sample_plain_def sample_wf fun_eq_iff)
  from object_stores_agree [OF this, of 6 "- 2"] show ?thesis by (simp add: sample_wf)
qed

text \<open>
  \<open>checkInt\<close> does not test the sign of the offset.  A write at a negative offset passes the
  check, reports success and leaves the buffer as it was: the value is lost silently, where
  the readers raise a \<open>RangeError\<close>.
\<close>

theorem negative_offset_write_lost:
  assumes "- 2147483648 \<le> p" "p < - 3" "0 \<le> v" "v \<le> 127"
  shows "writeUInt8 m b v p False = Inr (p + 1, m) \<and> writeUInt32LE m b v p False = Inr (p + 4, m) \<and>
    writeInt16BE m b v p False = Inr (p + 2, m) \<and>
    (\<exists>msg. readUInt32LE (contents m b) p False = Inl (RangeError msg))"
proof -
  have "buf_set m b i v = m" if "i < 0" for m i v using that by (simp add: buf_set_def)
  moreover have "\<exists>msg. readUInt32LE (contents m b) p False = Inl (RangeError msg)"
    using assms unfolding readUInt32LE_def by (intro guarded_fails [where n = 4, simplified]) simp
  ultimately show ?thesis
    using assms by (simp add: wr_defs or_0 guarded_checkInt_ok Let_def)
qed

theorem negative_offset_write_lost_witness:
  "writeUInt8 sample_mem sample_buf 42 (- 5) False = Inr (- 4, sample_mem)"
  using negative_offset_write_lost [of "- 5" 42 sample_mem sample_buf] by simp

end
