(* ===== verification/Buffer_Float.thy ===== *)
theory Buffer_Float
  imports Buffer_Read_Int
begin

text \<open>
  The floating-point accessors of \<open>Buffer.prototype\<close> (module 379 of \<open>swagger-ui.js\<close>).  The bit
  layout of the numbers is the business of the required module \<open>ieee754\<close>: its \<open>read\<close> and \<open>write\<close>
  are parameters here, and \<open>'f\<close> is the type of the numbers.  What is modelled is the bounds
  check in front of them and the width and byte order they are called with.
\<close>

type_synonym 'f ieee_read = "byte list \<Rightarrow> int \<Rightarrow> bool \<Rightarrow> nat \<Rightarrow> nat \<Rightarrow> 'f"
type_synonym 'f ieee_write = "mem \<Rightarrow> buffer \<Rightarrow> 'f \<Rightarrow> int \<Rightarrow> bool \<Rightarrow> nat \<Rightarrow> nat \<Rightarrow> mem"

definition readFloatLE :: "'f ieee_read \<Rightarrow> byte list \<Rightarrow> int \<Rightarrow> bool \<Rightarrow> 'f result" where
  "readFloatLE ieee this offset noAssert =
     guarded noAssert (checkOffset offset 4 (int (length this))) (Inr (ieee this offset True 23 4))"

definition readFloatBE :: "'f ieee_read \<Rightarrow> byte list \<Rightarrow> int \<Rightarrow> bool \<Rightarrow> 'f result" where
  "readFloatBE ieee this offset noAssert =
     guarded noAssert (checkOffset offset 4 (int (length this))) (Inr (ieee this offset False 23 4))"

definition readDoubleLE :: "'f ieee_read \<Rightarrow> byte list \<Rightarrow> int \<Rightarrow> bool \<Rightarrow> 'f result" where
  "readDoubleLE ieee this offset noAssert =
     guarded noAssert (checkOffset offset 8 (int (length this))) (Inr (ieee this offset True 52 8))"

definition readDoubleBE :: "'f ieee_read \<Rightarrow> byte list \<Rightarrow> int \<Rightarrow> bool \<Rightarrow> 'f result" where
  "readDoubleBE ieee this offset noAssert =
     guarded noAssert (checkOffset offset 8 (int (length this))) (Inr (ieee this offset False 52 8))"

text \<open>The value and its limits are passed to the check but not looked at.\<close>

definition checkIEEE754 :: "buffer \<Rightarrow> int \<Rightarrow> int \<Rightarrow> unit result" where
  "checkIEEE754 buf offset ext =
     (if offset + ext > int (blen buf) then Inl (RangeError ''Index out of range'')
      else if offset < 0 then Inl (RangeError ''Index out of range'')
      else Inr ())"

definition writeFloat :: "'f ieee_write \<Rightarrow> mem \<Rightarrow> buffer \<Rightarrow> 'f \<Rightarrow> int \<Rightarrow> bool \<Rightarrow> bool \<Rightarrow> (int \<times> mem) result" where
  "writeFloat ieee m buf v offset littleEndian noAssert =
     guarded noAssert (checkIEEE754 buf offset 4) (Inr (offset + 4, ieee m buf v offset littleEndian 23 4))"

definition writeFloatLE :: "'f ieee_write \<Rightarrow> mem \<Rightarrow> buffer \<Rightarrow> 'f \<Rightarrow> int \<Rightarrow> bool \<Rightarrow> (int \<times> mem) result" where
  "writeFloatLE ieee m this v offset noAssert = writeFloat ieee m this v offset True noAssert"

definition writeFloatBE :: "'f ieee_write \<Rightarrow> mem \<Rightarrow> buffer \<Rightarrow> 'f \<Rightarrow> int \<Rightarrow> bool \<Rightarrow> (int \<times> mem) result" where
  "writeFloatBE ieee m this v offset noAssert = writeFloat ieee m this v offset False noAssert"

definition writeDouble :: "'f ieee_write \<Rightarrow> mem \<Rightarrow> buffer \<Rightarrow> 'f \<Rightarrow> int \<Rightarrow> bool \<Rightarrow> bool \<Rightarrow> (int \<times> mem) result" where
  "writeDouble ieee m buf v offset littleEndian noAssert =
     guarded noAssert (checkIEEE754 buf offset 8) (Inr (offset + 8, ieee m buf v offset littleEndian 52 8))"

definition writeDoubleLE :: "'f ieee_write \<Rightarrow> mem \<Rightarrow> buffer \<Rightarrow> 'f \<Rightarrow> int \<Rightarrow> bool \<Rightarrow> (int \<times> mem) result" where
  "writeDoubleLE ieee m this v offset noAssert = writeDouble ieee m this v offset True noAssert"

definition writeDoubleBE :: "'f ieee_write \<Rightarrow> mem \<Rightarrow> buffer \<Rightarrow> 'f \<Rightarrow> int \<Rightarrow> bool \<Rightarrow> (int \<times> mem) result" where
  "writeDoubleBE ieee m this v offset noAssert = writeDouble ieee m this v offset False noAssert"

text \<open>Whatever the number codec does, a floating-point read or write succeeds exactly when the whole
  number lies inside the buffer; otherwise it is a \<open>RangeError\<close> and nothing is written.  In
  particular a negative offset is refused.\<close>

theorem float_access_bounds:
  fixes ieee_r :: "'f ieee_read" and ieee_w :: "'f ieee_write"
  shows "(\<forall>(r, n) \<in> {(readFloatLE, 4), (readFloatBE, 4), (readDoubleLE, 8), (readDoubleBE, 8)}.
      (\<exists>x. r ieee_r xs offset False = Inr x) = (0 \<le> offset \<and> offset + n \<le> int (length xs)) \<and>
      (\<forall>e. r ieee_r xs offset False = Inl e \<longrightarrow> (\<exists>s. e = RangeError s))) \<and>
    (\<forall>(w, n) \<in> {(writeFloatLE, 4), (writeFloatBE, 4), (writeDoubleLE, 8), (writeDoubleBE, 8)}.
      (\<exists>m'. w ieee_w m b v offset False = Inr (offset + n, m')) = (0 \<le> offset \<and> offset + n \<le> int (blen b)) \<and>
      (\<forall>e. w ieee_w m b v offset False = Inl e \<longrightarrow> (\<exists>s. e = RangeError s)))"
  by (auto simp: readFloatLE_def readFloatBE_def readDoubleLE_def readDoubleBE_def writeFloatLE_def
      writeFloatBE_def writeDoubleLE_def writeDoubleBE_def writeFloat_def writeDouble_def guarded_def
      checkOffset_def checkIEEE754_def)

theorem float_access_bounds_witness:
  "(\<exists>x. readFloatLE (\<lambda>xs offset le mLen n. xs ! nat offset) [1, 2, 3, 4] 0 False = Inr x) \<and>
   \<not> (\<exists>x. readFloatLE (\<lambda>xs offset le mLen n. xs ! nat offset) [1, 2, 3, 4] (- 1) False = Inr x)"
  using float_access_bounds [of "\<lambda>xs offset le mLen n. xs ! nat offset" "[1, 2, 3, 4]" 0]
    float_access_bounds [of "\<lambda>xs offset le mLen n. xs ! nat offset" "[1, 2, 3, 4]" "- 1"]
  by simp

end
