(* ===== verification/Buffer_Text.thy ===== *)
theory Buffer_Text
  imports Typed_Array
begin

text \<open>
  The text encodings of \<open>Buffer\<close> (module 379 of \<open>swagger-ui.js\<close>): from a string, a list of
  16-bit code units, to bytes and back.  UTF-8 is the hard one: surrogate pairs are joined,
  lone surrogates and malformed input become U+FFFD, and the encoder stops when the room
  \<open>units\<close> is used up.
\<close>

section \<open>UTF-8 encoding\<close>

text \<open>The room left for bytes; \<open>None\<close> is \<open>Infinity\<close>.\<close>

type_synonym room = "int option"

definition room_sub :: "room \<Rightarrow> int \<Rightarrow> room" where
  "room_sub units k = map_option (\<lambda>u. u - k) units"

definition room_neg :: "room \<Rightarrow> bool" where
  "room_neg units = (case units of None \<Rightarrow> False | Some u \<Rightarrow> u < 0)"

text \<open>\<open>if ((units -= 3) > -1) bytes.push(239, 191, 189)\<close>\<close>

definition replacement :: "room \<Rightarrow> int list" where
  "replacement units = (if room_neg (room_sub units 3) then [] else [239, 191, 189])"

text \<open>The bytes pushed for a code point.\<close>

definition utf8_sequence :: "int \<Rightarrow> int list" where
  "utf8_sequence codePoint =
     (if codePoint < 128 then [codePoint]
      else if codePoint < 2048 then
        [js_or (js_sar codePoint 6) 192, js_or (js_and codePoint 63) 128]
      else if codePoint < 65536 then
        [js_or (js_sar codePoint 12) 224, js_or (js_and (js_sar codePoint 6) 63) 128,
         js_or (js_and codePoint 63) 128]
      else
        [js_or (js_sar codePoint 18) 240, js_or (js_and (js_sar codePoint 12) 63) 128,
         js_or (js_and (js_sar codePoint 6) 63) 128, js_or (js_and codePoint 63) 128])"

definition surrogate_pair :: "int \<Rightarrow> int \<Rightarrow> int" where
  "surrogate_pair lead codePoint = js_or (js_shl (lead - 55296) 10) (codePoint - 56320) + 65536"

text \<open>
  The loop over the string, with the pending lead surrogate; the result is what is pushed
  from here on.  Leaving the loop when the room is used up ends the list.
\<close>

definition prepend :: "'a list \<Rightarrow> 'a list result \<Rightarrow> 'a list result" where
  "prepend xs r = map_sum id ((@) xs) r"

lemma prepend_simps [simp]:
  "prepend xs (Inr ys) = Inr (xs @ ys)" "prepend xs (Inl e) = Inl e"
  by (simp_all add: prepend_def)

fun utf8_loop :: "room \<Rightarrow> int option \<Rightarrow> jstr \<Rightarrow> int list result" where
  "utf8_loop units leadSurrogate [] = Inr []"
| "utf8_loop units leadSurrogate (c # cs) =
     (let push = (\<lambda>units codePoint.
            if codePoint \<ge> 1114112 then Inl (PlainError ''Invalid code point'')
            else let bs = utf8_sequence codePoint; units' = room_sub units (int (length bs)) in
                 if room_neg units' then Inr [] else prepend bs (utf8_loop units' None cs));
          codePoint = uint c
      in if codePoint > 55295 \<and> codePoint < 57344 then
           (case leadSurrogate of
              None \<Rightarrow>
                if codePoint > 56319 then prepend (replacement units) (utf8_loop (room_sub units 3) None cs)
                else if cs = [] then prepend (replacement units) (utf8_loop (room_sub units 3) None cs)
                else utf8_loop units (Some codePoint) cs
            | Some lead \<Rightarrow>
                if codePoint < 56320
                then prepend (replacement units) (utf8_loop (room_sub units 3) (Some codePoint) cs)
                else push units (surrogate_pair lead codePoint))
         else
           (case leadSurrogate of
              None \<Rightarrow> push units codePoint
            | Some lead \<Rightarrow> prepend (replacement units) (push (room_sub units 3) codePoint)))"

definition utf8ToBytes :: "jstr \<Rightarrow> int option \<Rightarrow> int list result" where
  "utf8ToBytes string units = utf8_loop (if units = Some 0 then None else units) None string"

section \<open>UTF-8 decoding\<close>

text \<open>The length announced by the first byte.\<close>

definition sequence_length :: "int \<Rightarrow> int" where
  "sequence_length firstByte =
     (if firstByte > 239 then 4 else if firstByte > 223 then 3 else if firstByte > 191 then 2 else 1)"

definition continuation :: "int \<Rightarrow> bool" where
  "continuation b \<longleftrightarrow> js_and b 192 = 128"

text \<open>\<open>codePoint\<close> after the switch: \<open>None\<close> is \<open>null\<close>.  \<open>buf[i]\<close> is in range here.\<close>

abbreviation byte_at :: "byte list \<Rightarrow> int \<Rightarrow> int" where
  "byte_at buf i \<equiv> num_int (elem buf i)"

definition decode_sequence :: "byte list \<Rightarrow> int \<Rightarrow> int \<Rightarrow> int option" where
  "decode_sequence buf i fin =
     (let firstByte = byte_at buf i; n = sequence_length firstByte in
      if i + n \<le> fin then
        (if n = 1 then (if firstByte < 128 then Some firstByte else None)
         else if n = 2 then
           (let secondByte = byte_at buf (i + 1) in
            if continuation secondByte then
              (let t = js_or (js_shl (js_and firstByte 31) 6) (js_and secondByte 63)
               in if t > 127 then Some t else None)
            else None)
         else if n = 3 then
           (let secondByte = byte_at buf (i + 1); thirdByte = byte_at buf (i + 2) in
            if continuation secondByte \<and> continuation thirdByte then
              (let t = js_or (js_or (js_shl (js_and firstByte 15) 12) (js_shl (js_and secondByte 63) 6))
                             (js_and thirdByte 63)
               in if t > 2047 \<and> (t < 55296 \<or> t > 57343) then Some t else None)
            else None)
         else
           (let secondByte = byte_at buf (i + 1); thirdByte = byte_at buf (i + 2);
                fourthByte = byte_at buf (i + 3) in
            if continuation secondByte \<and> continuation thirdByte \<and> continuation fourthByte then
              (let t = js_or (js_or (js_or (js_shl (js_and firstByte 15) 18) (js_shl (js_and secondByte 63) 12))
                                    (js_shl (js_and thirdByte 63) 6)) (js_and fourthByte 63)
               in if t > 65535 \<and> t < 1114112 then Some t else None)
            else None))
      else None)"

text \<open>What one round of the loop pushes, and how far it moves.\<close>

definition utf8_step :: "byte list \<Rightarrow> int \<Rightarrow> int \<Rightarrow> int list \<times> int" where
  "utf8_step buf i fin =
     (case decode_sequence buf i fin of
        None \<Rightarrow> ([65533], 1)
      | Some codePoint \<Rightarrow>
          (if codePoint > 65535 then
             (let c = codePoint - 65536 in
              [js_or (js_and (js_shr c 10) 1023) 55296, js_or 56320 (js_and c 1023)])
           else [codePoint],
           sequence_length (byte_at buf i)))"

lemma sequence_length_pos: "1 \<le> sequence_length b"
  by (simp add: sequence_length_def)

lemma utf8_step_pos: "1 \<le> snd (utf8_step buf i fin)"
  by (simp add: utf8_step_def sequence_length_pos split: option.split)

function utf8_slice_loop :: "byte list \<Rightarrow> int \<Rightarrow> int \<Rightarrow> int list" where
  "utf8_slice_loop buf i fin =
     (if i < fin
      then fst (utf8_step buf i fin) @ utf8_slice_loop buf (i + snd (utf8_step buf i fin)) fin
      else [])"
  by pat_completeness auto
termination
proof (relation "measure (\<lambda>(buf, i, fin). nat (fin - i))", goal_cases)
  case (2 buf i fin)
  then show ?case using utf8_step_pos [of buf i fin] by simp
qed simp

declare utf8_slice_loop.simps [simp del]

text \<open>\<open>String.fromCharCode\<close> takes each number modulo \<open>2 ^ 16\<close>.\<close>

abbreviation fromCharCodes :: "int list \<Rightarrow> jstr" where
  "fromCharCodes \<equiv> map word_of_int"

definition MAX_ARGUMENTS_LENGTH :: nat where
  "MAX_ARGUMENTS_LENGTH = 4096"

function decode_chunks :: "int list \<Rightarrow> nat \<Rightarrow> jstr" where
  "decode_chunks codePoints i =
     (if i < length codePoints
      then fromCharCodes (take MAX_ARGUMENTS_LENGTH (drop i codePoints)) @
           decode_chunks codePoints (i + MAX_ARGUMENTS_LENGTH)
      else [])"
  by pat_completeness auto
termination
  by (relation "measure (\<lambda>(xs, i). length xs - i)") (auto simp: MAX_ARGUMENTS_LENGTH_def)

declare decode_chunks.simps [simp del]

definition decodeCodePointsArray :: "int list \<Rightarrow> jstr" where
  "decodeCodePointsArray codePoints =
     (if length codePoints \<le> MAX_ARGUMENTS_LENGTH then fromCharCodes codePoints
      else decode_chunks codePoints 0)"

definition utf8Slice :: "byte list \<Rightarrow> int \<Rightarrow> int \<Rightarrow> jstr" where
  "utf8Slice buf start fin =
     decodeCodePointsArray (utf8_slice_loop buf start (min (int (length buf)) fin))"

section \<open>ASCII, Latin-1, UTF-16LE\<close>

definition asciiToBytes :: "jstr \<Rightarrow> int list" where
  "asciiToBytes str = map (\<lambda>c. js_and (uint c) 255) str"

definition asciiSlice :: "byte list \<Rightarrow> int \<Rightarrow> int \<Rightarrow> jstr" where
  "asciiSlice buf start fin =
     map (\<lambda>i. word_of_int (js_and (byte_at buf i) 127)) [start..min (int (length buf)) fin - 1]"

definition latin1Slice :: "byte list \<Rightarrow> int \<Rightarrow> int \<Rightarrow> jstr" where
  "latin1Slice buf start fin =
     map (\<lambda>i. word_of_int (byte_at buf i)) [start..min (int (length buf)) fin - 1]"

text \<open>\<open>if ((units -= 2) < 0) break\<close> in front of each unit.\<close>

fun utf16leToBytes :: "jstr \<Rightarrow> int \<Rightarrow> int list" where
  "utf16leToBytes [] units = []"
| "utf16leToBytes (c # cs) units =
     (if units - 2 < 0 then []
      else uint c mod 256 # js_sar (uint c) 8 # utf16leToBytes cs (units - 2))"

text \<open>With an odd number of bytes the last sum is \<open>NaN\<close> and \<open>fromCharCode\<close> makes it U+0000.\<close>

fun utf16le_units :: "byte list \<Rightarrow> jstr" where
  "utf16le_units [] = []"
| "utf16le_units [a] = [word_of_int (num_int (num_add (Num (uint a)) (num_mul Undef (Num 256))))]"
| "utf16le_units (a # b # bs) = word_of_int (uint a + uint b * 256) # utf16le_units bs"

definition utf16leSlice :: "byte list \<Rightarrow> int \<Rightarrow> int \<Rightarrow> jstr" where
  "utf16leSlice buf start fin = utf16le_units (slice_list buf start (Some fin))"

section \<open>Hexadecimal\<close>

definition hex_digit :: "int \<Rightarrow> code_unit" where
  "hex_digit d = word_of_int (if d < 10 then 48 + d else 87 + d)"

text \<open>\<open>n.toString(16)\<close> of a byte, padded to two digits.\<close>

definition toHex :: "int \<Rightarrow> jstr" where
  "toHex n = (if n < 16 then [48, hex_digit n] else [hex_digit (n div 16), hex_digit (n mod 16)])"

definition hexSlice :: "byte list \<Rightarrow> int \<Rightarrow> int \<Rightarrow> jstr" where
  "hexSlice buf start0 end0 =
     (let len = int (length buf);
          start = (if start0 = 0 \<or> start0 < 0 then 0 else start0);
          fin = (if end0 = 0 \<or> end0 < 0 \<or> end0 > len then len else end0)
      in concat (map (\<lambda>i. toHex (byte_at buf i)) [start..fin - 1]))"

text \<open>White space that \<open>parseInt\<close> and \<open>trim\<close> skip.\<close>

definition js_space :: "code_unit \<Rightarrow> bool" where
  "js_space c \<longleftrightarrow> uint c \<in> {9, 10, 11, 12, 13, 32, 160, 5760, 8232, 8233, 8239, 8287, 12288, 65279} \<or>
     8192 \<le> uint c \<and> uint c \<le> 8202"

definition hex_value :: "code_unit \<Rightarrow> int option" where
  "hex_value c =
     (let u = uint c in
      if 48 \<le> u \<and> u \<le> 57 then Some (u - 48)
      else if 65 \<le> u \<and> u \<le> 70 then Some (u - 55)
      else if 97 \<le> u \<and> u \<le> 102 then Some (u - 87)
      else None)"

fun hex_prefix :: "int option \<Rightarrow> jstr \<Rightarrow> int option" where
  "hex_prefix acc [] = acc"
| "hex_prefix acc (c # cs) =
     (case hex_value c of
        None \<Rightarrow> acc
      | Some d \<Rightarrow> hex_prefix (Some ((case acc of None \<Rightarrow> 0 | Some a \<Rightarrow> a) * 16 + d)) cs)"

text \<open>
  \<open>parseInt(s, 16)\<close>: white space, a sign, \<open>0x\<close>, then the longest run of digits; no digit is \<open>NaN\<close>.
\<close>

definition parseInt16 :: "jstr \<Rightarrow> int option" where
  "parseInt16 s =
     (let s1 = dropWhile js_space s;
          neg = (s1 \<noteq> [] \<and> hd s1 = 45);
          s2 = (if s1 \<noteq> [] \<and> (hd s1 = 45 \<or> hd s1 = 43) then tl s1 else s1);
          s3 = (if length s2 \<ge> 2 \<and> s2 ! 0 = 48 \<and> (s2 ! 1 = 120 \<or> s2 ! 1 = 88) then drop 2 s2 else s2)
      in map_option (\<lambda>v. if neg then - v else v) (hex_prefix None s3))"

function hexWrite_loop :: "mem \<Rightarrow> buffer \<Rightarrow> jstr \<Rightarrow> int \<Rightarrow> int \<Rightarrow> int \<Rightarrow> int \<times> mem" where
  "hexWrite_loop m buf string offset len i =
     (if i < len
      then case parseInt16 (take 2 (drop (nat (i * 2)) string)) of
             None \<Rightarrow> (i, m)
           | Some parsed \<Rightarrow> hexWrite_loop (buf_set m buf (offset + i) parsed) buf string offset len (i + 1)
      else (i, m))"
  by pat_completeness auto
termination
  by (relation "measure (\<lambda>(m, buf, string, offset, len, i). nat (len - i))") auto

declare hexWrite_loop.simps [simp del]

text \<open>A length of 0 counts as absent.\<close>

definition hexWrite :: "mem \<Rightarrow> buffer \<Rightarrow> jstr \<Rightarrow> int \<Rightarrow> int \<Rightarrow> (int \<times> mem) result" where
  "hexWrite m buf string offset len0 =
     (let remaining = int (blen buf) - offset;
          len = (if len0 = 0 then remaining else if len0 > remaining then remaining else len0);
          strLen = int (length string)
      in if strLen mod 2 \<noteq> 0 then Inl (TypeError ''Invalid hex string'')
         else let len = (if len > strLen div 2 then strLen div 2 else len)
              in Inr (hexWrite_loop m buf string offset len 0))"

section \<open>Base64 clean-up\<close>

definition stringtrim :: "jstr \<Rightarrow> jstr" where
  "stringtrim str = rev (dropWhile js_space (rev (dropWhile js_space str)))"

text \<open>The characters that \<open>INVALID_BASE64_RE\<close> keeps: plus, slash, digits, letters, minus, underscore.\<close>

definition base64_char :: "code_unit \<Rightarrow> bool" where
  "base64_char c \<longleftrightarrow>
     (let u = uint c in u = 43 \<or> u = 47 \<or> (48 \<le> u \<and> u \<le> 57) \<or> (65 \<le> u \<and> u \<le> 90) \<or>
        (97 \<le> u \<and> u \<le> 122) \<or> u = 45 \<or> u = 95)"

definition base64clean :: "jstr \<Rightarrow> jstr" where
  "base64clean str =
     (let s = filter base64_char (stringtrim str)
      in if length s < 2 then []
         else s @ replicate ((4 - length s mod 4) mod 4) 61)"

section \<open>Copying bytes into a buffer\<close>

function blit_loop :: "int list \<Rightarrow> mem \<Rightarrow> buffer \<Rightarrow> int \<Rightarrow> int \<Rightarrow> int \<Rightarrow> int \<times> mem" where
  "blit_loop src m dst offset len i =
     (if i < len
      then if i + offset \<ge> int (blen dst) \<or> i \<ge> int (length src) then (i, m)
           else blit_loop src (buf_set m dst (i + offset) (src ! nat i)) dst offset len (i + 1)
      else (i, m))"
  by pat_completeness auto
termination
  by (relation "measure (\<lambda>(src, m, dst, offset, len, i). nat (len - i))") auto

declare blit_loop.simps [simp del]

definition blitBuffer :: "int list \<Rightarrow> mem \<Rightarrow> buffer \<Rightarrow> int \<Rightarrow> int \<Rightarrow> int \<times> mem" where
  "blitBuffer src m dst offset len = blit_loop src m dst offset len 0"

section \<open>Unicode scalar values\<close>

definition is_scalar :: "int \<Rightarrow> bool" where
  "is_scalar cp \<longleftrightarrow> 0 \<le> cp \<and> cp < 1114112 \<and> \<not> (55296 \<le> cp \<and> cp \<le> 57343)"

text \<open>UTF-16: one unit, or a lead and a trail surrogate.\<close>

definition utf16 :: "int \<Rightarrow> int list" where
  "utf16 cp =
     (if cp < 65536 then [cp]
      else [55296 + (cp - 65536) div 1024, 56320 + (cp - 65536) mod 1024])"

abbreviation utf16_string :: "int list \<Rightarrow> jstr" where
  "utf16_string cps \<equiv> fromCharCodes (concat (map utf16 cps))"

abbreviation utf8_bytes :: "int list \<Rightarrow> int list" where
  "utf8_bytes cps \<equiv> concat (map utf8_sequence cps)"

lemma or_128: "0 \<le> x \<Longrightarrow> x < 64 \<Longrightarrow> js_or x 128 = 128 + x"
  using js_or_sum(2) [of x 6 2] by simp

lemma or_192: "0 \<le> x \<Longrightarrow> x < 64 \<Longrightarrow> js_or x 192 = 192 + x"
  using js_or_sum(2) [of x 6 3] by simp

lemma or_224: "0 \<le> x \<Longrightarrow> x < 32 \<Longrightarrow> js_or x 224 = 224 + x"
  using js_or_sum(2) [of x 5 7] by simp

lemma or_240: "0 \<le> x \<Longrightarrow> x < 16 \<Longrightarrow> js_or x 240 = 240 + x"
  using js_or_sum(2) [of x 4 15] by simp

lemma or_55296: "0 \<le> x \<Longrightarrow> x < 1024 \<Longrightarrow> js_or x 55296 = 55296 + x"
  using js_or_sum(2) [of x 10 54] by simp

lemma or_56320: "0 \<le> x \<Longrightarrow> x < 1024 \<Longrightarrow> js_or 56320 x = 56320 + x"
  using js_or_sum(1) [of x 10 55] by simp

lemmas or_const = or_128 or_192 or_224 or_240 or_55296 or_56320

text \<open>The encoder in arithmetic.\<close>

lemma utf8_sequence_arith:
  assumes "0 \<le> cp" "cp < 1114112"
  shows "utf8_sequence cp =
    (if cp < 128 then [cp]
     else if cp < 2048 then [192 + cp div 64, 128 + cp mod 64]
     else if cp < 65536 then [224 + cp div 4096, 128 + cp div 64 mod 64, 128 + cp mod 64]
     else [240 + cp div 262144, 128 + cp div 4096 mod 64, 128 + cp div 64 mod 64, 128 + cp mod 64])"
proof -
  have "cp < 2048 \<Longrightarrow> cp div 64 < 64" "cp < 65536 \<Longrightarrow> cp div 4096 < 32" "cp div 262144 < 16"
    using assms by auto
  with assms show ?thesis
    by (simp add: utf8_sequence_def js_sar_simps js_and_masks or_const)
qed

lemma utf8_sequence_bytes:
  assumes "0 \<le> cp" "cp < 1114112" "b \<in> set (utf8_sequence cp)"
  shows "0 \<le> b \<and> b < 256"
proof -
  have "cp < 2048 \<Longrightarrow> cp div 64 < 64" "cp < 65536 \<Longrightarrow> cp div 4096 < 32" "cp div 262144 < 16"
    using assms by auto
  with assms show ?thesis
    by (auto simp: utf8_sequence_arith split: if_splits)
qed

text \<open>The decoder in arithmetic.\<close>

lemma continuation_iff: "0 \<le> b \<Longrightarrow> b < 256 \<Longrightarrow> continuation b \<longleftrightarrow> 128 \<le> b \<and> b < 192"
proof -
  assume b: "0 \<le> b" "b < 256"
  have "(192::int) = push_bit 6 (mask 2)" by (simp add: push_bit_eq_mult mask_eq_exp_minus_1)
  then have "js_and b 192 = 64 * ((b div 64) mod 4)"
    using js_and_shifted_mask [of 6 2 b] by simp
  moreover have "b div 64 \<in> {0, 1, 2, 3}" using b by auto
  ultimately show ?thesis using b by (auto simp: continuation_def)
qed

lemma continuation_marker: "0 \<le> x \<Longrightarrow> x < 64 \<Longrightarrow> continuation (128 + x)"
  by (simp add: continuation_iff)

lemma join_2:
  "js_or (js_shl (js_and a 31) 6) (js_and b 63) = (a mod 32) * 64 + b mod 64"
proof -
  have "a mod 32 < 32" "0 \<le> a mod 32" by simp_all
  then show ?thesis
    using js_or_sum(1) [of "b mod 64" 6 "a mod 32"] by (simp add: js_and_masks js_shl_simps)
qed

lemma join_3:
  "js_or (js_or (js_shl (js_and a 15) 12) (js_shl (js_and b 63) 6)) (js_and c 63) =
    (a mod 16) * 4096 + (b mod 64) * 64 + c mod 64"
proof -
  have r: "a mod 16 < 16" "0 \<le> a mod 16" "b mod 64 < 64" "0 \<le> b mod 64" by simp_all
  then have "js_or ((a mod 16) * 4096) ((b mod 64) * 64) = ((a mod 16) * 64 + b mod 64) * 64"
    using js_or_sum(1) [of "(b mod 64) * 64" 12 "a mod 16"] by (simp add: algebra_simps)
  with r show ?thesis
    using js_or_sum(1) [of "c mod 64" 6 "(a mod 16) * 64 + b mod 64"]
    by (simp add: js_and_masks js_shl_simps)
qed

lemma or_4:
  assumes "0 \<le> x" "x < 64" "0 \<le> y" "y < 64" "0 \<le> z" "z < 64" "0 \<le> w" "w < 64"
  shows "js_or (js_or (js_or (x * 262144) (y * 4096)) (z * 64)) w = x * 262144 + y * 4096 + z * 64 + w"
proof -
  have 1: "js_or (x * 262144) (y * 4096) = (x * 64 + y) * 4096"
    using js_or_sum(1) [of "y * 4096" 18 x] assms by (simp add: algebra_simps)
  have 2: "js_or ((x * 64 + y) * 4096) (z * 64) = ((x * 64 + y) * 64 + z) * 64"
    using js_or_sum(1) [of "z * 64" 12 "x * 64 + y"] assms by (simp add: algebra_simps)
  have 3: "js_or (((x * 64 + y) * 64 + z) * 64) w = ((x * 64 + y) * 64 + z) * 64 + w"
    using js_or_sum(1) [of w 6 "(x * 64 + y) * 64 + z"] assms by (simp add: algebra_simps)
  show ?thesis unfolding 1 2 3 by (simp add: algebra_simps)
qed

lemma join_4:
  "js_or (js_or (js_or (js_shl (js_and a 15) 18) (js_shl (js_and b 63) 12)) (js_shl (js_and c 63) 6)) (js_and d 63) =
    (a mod 16) * 262144 + (b mod 64) * 4096 + (c mod 64) * 64 + d mod 64"
proof -
  have "a mod 16 < 16" "b mod 64 < 64" "c mod 64 < 64" by simp_all
  then have "a mod 16 * 262144 < 2147483648" "b mod 64 * 4096 < 2147483648" "c mod 64 * 64 < 2147483648"
    by linarith+
  then show ?thesis
    using or_4 [of "a mod 16" "b mod 64" "c mod 64" "d mod 64"] by (simp add: js_and_masks js_shl_simps)
qed

section \<open>Decoding what was encoded\<close>

lemma byte_at_mid:
  assumes "j < length bs" "0 \<le> bs ! j" "bs ! j < 256"
  shows "byte_at (pre @ map word_of_int bs @ post) (int (length pre) + int j) = bs ! j"
proof -
  have "nat (int (length pre) + int j) = length pre + j" by simp
  with assms show ?thesis
    by (simp add: elem_def nth_append uint_word_of_int)
qed

lemma marker_mod: "0 \<le> q \<Longrightarrow> q < m \<Longrightarrow> (k * m + q) mod m = (q :: int)"
  by simp

lemmas marker_mods = marker_mod [of _ 32 6, simplified] marker_mod [of _ 16 14, simplified]
  marker_mod [of _ 16 15, simplified] marker_mod [of _ 64 2, simplified]

lemma digits_step: "q * 64 + c = cp \<Longrightarrow> a * 64 + b = q \<Longrightarrow> a * 4096 + b * 64 + c = (cp :: int)"
  by linarith

lemma digits_3: "cp div 4096 * 4096 + cp div 64 mod 64 * 64 + cp mod 64 = (cp :: int)"
  using digits_step [OF div_mult_mod_eq div_mult_mod_eq, of cp] zdiv_zmult2_eq [of 64 cp 64]
  by simp

lemma digits_4: "cp div 262144 * 262144 + cp div 4096 mod 64 * 4096 + cp div 64 mod 64 * 64 + cp mod 64 = (cp :: int)"
proof -
  have "a * 64 + b = q \<Longrightarrow> q * 4096 + c + d = cp \<Longrightarrow> a * 262144 + b * 4096 + c + d = cp" for a b c d q :: int
    by linarith
  from this [OF div_mult_mod_eq digits_3]
  have "cp div 4096 div 64 * 262144 + cp div 4096 mod 64 * 4096 + cp div 64 mod 64 * 64 + cp mod 64 = cp" .
  moreover have "cp div 262144 = cp div 4096 div 64" using zdiv_zmult2_eq [of 64 cp 4096] by simp
  ultimately show ?thesis by (simp only:)
qed

lemma decode_1:
  assumes "byte_at buf i = a" "a < 128" "i + 1 \<le> fin"
  shows "decode_sequence buf i fin = Some a \<and> sequence_length (byte_at buf i) = 1"
  using assms by (simp add: decode_sequence_def sequence_length_def)

lemma decode_2:
  assumes "byte_at buf i = 192 + a" "byte_at buf (i + 1) = 128 + b" "i + 2 \<le> fin"
    and "0 \<le> a" "a < 32" "0 \<le> b" "b < 64" "a * 64 + b = t" "127 < t"
  shows "decode_sequence buf i fin = Some t \<and> sequence_length (byte_at buf i) = 2"
  using assms
  by (simp add: decode_sequence_def sequence_length_def join_2 marker_mods continuation_marker)

lemma decode_3:
  assumes "byte_at buf i = 224 + a" "byte_at buf (i + 1) = 128 + b" "byte_at buf (i + 2) = 128 + c"
    and "i + 3 \<le> fin" "0 \<le> a" "a < 16" "0 \<le> b" "b < 64" "0 \<le> c" "c < 64"
    and "a * 4096 + b * 64 + c = t" "2047 < t" "t < 55296 \<or> 57343 < t"
  shows "decode_sequence buf i fin = Some t \<and> sequence_length (byte_at buf i) = 3"
  using assms
  by (simp add: decode_sequence_def sequence_length_def join_3 marker_mods continuation_marker)

lemma decode_4:
  assumes "byte_at buf i = 240 + a" "byte_at buf (i + 1) = 128 + b" "byte_at buf (i + 2) = 128 + c"
    and "byte_at buf (i + 3) = 128 + d" "i + 4 \<le> fin"
    and "0 \<le> a" "a < 16" "0 \<le> b" "b < 64" "0 \<le> c" "c < 64" "0 \<le> d" "d < 64"
    and "a * 262144 + b * 4096 + c * 64 + d = t" "65535 < t" "t < 1114112"
  shows "decode_sequence buf i fin = Some t \<and> sequence_length (byte_at buf i) = 4"
  using assms
  by (simp add: decode_sequence_def sequence_length_def join_4 marker_mods continuation_marker)

lemma decode_encoded:
  assumes cp: "is_scalar cp" and bs: "bs = utf8_sequence cp"
    and fin: "int (length pre) + int (length bs) \<le> fin"
  shows "decode_sequence (pre @ map word_of_int bs @ post) (int (length pre)) fin = Some cp \<and>
    sequence_length (byte_at (pre @ map word_of_int bs @ post) (int (length pre))) = int (length bs)"
proof -
  let ?buf = "pre @ map word_of_int bs @ post" and ?i = "int (length pre)"
  have cp0: "0 \<le> cp" "cp < 1114112" using cp by (auto simp: is_scalar_def)
  have at: "byte_at ?buf (?i + int j) = bs ! j" if "j < length bs" for j
    using byte_at_mid [of j bs pre post] that utf8_sequence_bytes [OF cp0, of "bs ! j"] bs by simp
  note arith = utf8_sequence_arith [OF cp0]
  have div: "0 \<le> cp div 64" "0 \<le> cp div 4096" "0 \<le> cp div 262144" "cp div 262144 < 16"
    "cp < 2048 \<Longrightarrow> cp div 64 < 32" "cp < 65536 \<Longrightarrow> cp div 4096 < 16"
    using cp0 by (simp_all add: pos_imp_zdiv_nonneg_iff)
  have md: "0 \<le> x mod 64" "x mod 64 < 64" for x :: int by simp_all
  consider "cp < 128" | "128 \<le> cp" "cp < 2048" | "2048 \<le> cp" "cp < 65536" | "65536 \<le> cp" by linarith
  then show ?thesis
  proof cases
    case 1
    then have l: "length bs = 1" "bs ! 0 = cp" using bs arith by simp_all
    have at0: "byte_at ?buf ?i = cp" using at [of 0] l(1) l(2) by simp
    show ?thesis using decode_1 [OF at0 1, of fin] fin l by simp
  next
    case 2
    then have l: "length bs = 2" "bs ! 0 = 192 + cp div 64" "bs ! 1 = 128 + cp mod 64"
      using bs arith by simp_all
    have at0: "byte_at ?buf ?i = 192 + cp div 64" using at [of 0] l(1) l(2) by simp
    have at1: "byte_at ?buf (?i + 1) = 128 + cp mod 64" using at [of 1] l(1) l(3) by simp
    have f: "?i + 2 \<le> fin" using fin l by simp
    have "127 < cp" using 2 by simp
    from decode_2 [OF at0 at1 f div(1) div(5) [OF 2(2)] md div_mult_mod_eq this] show ?thesis unfolding l(1) by simp
  next
    case 3
    then have l: "length bs = 3" "bs ! 0 = 224 + cp div 4096" "bs ! 1 = 128 + cp div 64 mod 64"
      "bs ! 2 = 128 + cp mod 64"
      using bs arith by simp_all
    have at0: "byte_at ?buf ?i = 224 + cp div 4096" using at [of 0] l(1) l(2) by simp
    have at1: "byte_at ?buf (?i + 1) = 128 + cp div 64 mod 64" using at [of 1] l(1) l(3) by simp
    have at2: "byte_at ?buf (?i + 2) = 128 + cp mod 64" using at [of 2] l(1) l(4) by simp
    have f: "?i + 3 \<le> fin" using fin l by simp
    have "2047 < cp" "cp < 55296 \<or> 57343 < cp" using 3 cp by (auto simp: is_scalar_def)
    from decode_3 [OF at0 at1 at2 f div(2) div(6) [OF 3(2)] md md digits_3 this] show ?thesis unfolding l(1) by simp
  next
    case 4
    then have l: "length bs = 4" "bs ! 0 = 240 + cp div 262144" "bs ! 1 = 128 + cp div 4096 mod 64"
      "bs ! 2 = 128 + cp div 64 mod 64" "bs ! 3 = 128 + cp mod 64"
      using bs arith by simp_all
    have at0: "byte_at ?buf ?i = 240 + cp div 262144" using at [of 0] l(1) l(2) by simp
    have at1: "byte_at ?buf (?i + 1) = 128 + cp div 4096 mod 64" using at [of 1] l(1) l(3) by simp
    have at2: "byte_at ?buf (?i + 2) = 128 + cp div 64 mod 64" using at [of 2] l(1) l(4) by simp
    have at3: "byte_at ?buf (?i + 3) = 128 + cp mod 64" using at [of 3] l(1) l(5) by simp
    have f: "?i + 4 \<le> fin" using fin l by simp
    have "65535 < cp" using 4 by simp
    from decode_4 [OF at0 at1 at2 at3 f div(3,4) md md md digits_4 this cp0(2)] show ?thesis unfolding l(1) by simp
  qed
qed

lemma utf8_step_encoded:
  assumes "is_scalar cp" "int (length pre) + int (length (utf8_sequence cp)) \<le> fin"
  shows "utf8_step (pre @ map word_of_int (utf8_sequence cp) @ post) (int (length pre)) fin =
    (utf16 cp, int (length (utf8_sequence cp)))"
proof -
  have "0 \<le> c \<Longrightarrow> c < 1048576 \<Longrightarrow> js_or (js_and (js_shr c 10) 1023) 55296 = 55296 + c div 1024" for c
    using js_shr_small [of c 10] by (simp add: js_and_masks or_const)
  with assms decode_encoded [OF assms(1) refl assms(2)] show ?thesis
    by (simp add: utf8_step_def utf16_def js_and_masks or_const is_scalar_def Let_def)
qed

lemma utf8_slice_loop_encoded:
  assumes "\<forall>cp \<in> set cps. is_scalar cp" "fin = int (length pre) + int (length (utf8_bytes cps))"
  shows "utf8_slice_loop (pre @ map word_of_int (utf8_bytes cps) @ post) (int (length pre)) fin =
    concat (map utf16 cps)"
  using assms
proof (induction cps arbitrary: pre)
  case Nil
  then show ?case by (simp add: utf8_slice_loop.simps)
next
  case (Cons cp cps)
  let ?bs = "map word_of_int (utf8_sequence cp) :: byte list"
  have len: "0 < length (utf8_sequence cp)" by (simp add: utf8_sequence_def)
  have step: "utf8_step (pre @ ?bs @ map word_of_int (utf8_bytes cps) @ post) (int (length pre)) fin =
      (utf16 cp, int (length (utf8_sequence cp)))"
    using Cons.prems by (intro utf8_step_encoded) auto
  have ih: "utf8_slice_loop ((pre @ ?bs) @ map word_of_int (utf8_bytes cps) @ post) (int (length (pre @ ?bs))) fin =
      concat (map utf16 cps)"
    using Cons.prems by (intro Cons.IH) auto
  have "int (length pre) < fin"
    unfolding Cons.prems(2) using len by (simp del: length_greater_0_conv)
  then show ?case
    using step ih by (subst utf8_slice_loop.simps) simp
qed

lemma decode_chunks_drop: "decode_chunks xs i = fromCharCodes (drop i xs)"
proof (induction xs i rule: decode_chunks.induct)
  case (1 xs i)
  show ?case
  proof (cases "i < length xs")
    case True
    have "drop i xs = take MAX_ARGUMENTS_LENGTH (drop i xs) @ drop (i + MAX_ARGUMENTS_LENGTH) xs"
      by (simp add: add.commute flip: drop_drop)
    then have "fromCharCodes (drop i xs) =
        fromCharCodes (take MAX_ARGUMENTS_LENGTH (drop i xs)) @ fromCharCodes (drop (i + MAX_ARGUMENTS_LENGTH) xs)"
      by (metis map_append)
    then show ?thesis using True 1 by (subst decode_chunks.simps) simp
  qed (simp add: decode_chunks.simps)
qed

lemma decodeCodePointsArray_eq: "decodeCodePointsArray xs = fromCharCodes xs"
  by (simp add: decodeCodePointsArray_def decode_chunks_drop)

section \<open>Encoding a well-formed string\<close>

text \<open>The characters that fit in the room, whole.\<close>

fun fitting :: "room \<Rightarrow> int list \<Rightarrow> int list" where
  "fitting units [] = []"
| "fitting units (cp # cps) =
     (let units' = room_sub units (int (length (utf8_sequence cp))) in
      if room_neg units' then [] else cp # fitting units' cps)"

lemma uint_unit: "0 \<le> x \<Longrightarrow> x < 65536 \<Longrightarrow> uint (word_of_int x :: code_unit) = x"
  by (simp add: uint_word_of_int)

lemma surrogate_pair_eq:
  assumes "0 \<le> h" "h < 1024" "0 \<le> l" "l < 1024"
  shows "surrogate_pair (55296 + h) (56320 + l) = h * 1024 + l + 65536"
  using assms js_or_sum(1) [of l 10 h] by (simp add: surrogate_pair_def js_shl_simps)

lemma utf8_loop_scalar:
  assumes "is_scalar cp"
  shows "utf8_loop units None (fromCharCodes (utf16 cp) @ cs) =
    (let units' = room_sub units (int (length (utf8_sequence cp))) in
     if room_neg units' then Inr [] else prepend (utf8_sequence cp) (utf8_loop units' None cs))"
proof (cases "cp < 65536")
  case True
  then show ?thesis
    using assms by (auto simp: utf16_def is_scalar_def uint_unit Let_def)
next
  case False
  obtain h l where h: "0 \<le> h" "h < 1024" "0 \<le> l" "l < 1024" and eq: "h * 1024 + l + 65536 = cp"
    and units: "utf16 cp = [55296 + h, 56320 + l]"
  proof
    show "0 \<le> (cp - 65536) div 1024" "(cp - 65536) div 1024 < 1024"
      using False assms by (auto simp: is_scalar_def pos_imp_zdiv_nonneg_iff)
    show "(cp - 65536) div 1024 * 1024 + (cp - 65536) mod 1024 + 65536 = cp"
      using div_mult_mod_eq [of "cp - 65536" 1024] by linarith
  qed (use False in \<open>simp_all add: utf16_def\<close>)
  have u: "uint (word_of_int (55296 + h) :: code_unit) = 55296 + h"
    "uint (word_of_int (56320 + l) :: code_unit) = 56320 + l"
    using h by (intro uint_unit; linarith)+
  have cp: "\<not> cp \<ge> 1114112" using assms by (simp add: is_scalar_def)
  have "utf8_loop units None (fromCharCodes (utf16 cp) @ cs) =
      utf8_loop units (Some (55296 + h)) (word_of_int (56320 + l) # cs)"
    using h by (simp only: units list.map append.simps utf8_loop.simps u) (simp add: Let_def)
  also have "\<dots> = (let units' = room_sub units (int (length (utf8_sequence cp))) in
     if room_neg units' then Inr [] else prepend (utf8_sequence cp) (utf8_loop units' None cs))"
    using h surrogate_pair_eq [OF h] eq cp
    by (simp only: utf8_loop.simps u) (simp add: Let_def)
  finally show ?thesis .
qed

lemma utf8_loop_string:
  assumes "\<forall>cp \<in> set cps. is_scalar cp"
  shows "utf8_loop units None (utf16_string cps) = Inr (utf8_bytes (fitting units cps))"
  using assms
  by (induction cps arbitrary: units) (simp_all add: utf8_loop_scalar Let_def)

section \<open>Decoding arbitrary bytes\<close>

lemma byte_at_range: "0 \<le> byte_at buf i \<and> byte_at buf i < 256"
  by (simp add: elem_def)

lemma decode_sequence_scalar:
  assumes "decode_sequence buf i fin = Some cp"
  shows "is_scalar cp"
proof -
  have r2: "(a mod 32) * 64 + b mod 64 < 2048" for a b :: int
    using pos_mod_bound [of 32 a] pos_mod_bound [of 64 b] by linarith
  have r3: "(a mod 16) * 4096 + (b mod 64) * 64 + c mod 64 < 65536" for a b c :: int
    using pos_mod_bound [of 16 a] pos_mod_bound [of 64 b] pos_mod_bound [of 64 c] by linarith
  have "cp = byte_at buf i \<and> cp < 128 \<or> (\<exists>a b. cp = (a mod 32) * 64 + b mod 64 \<and> 127 < cp) \<or>
      (\<exists>a b c. cp = (a mod 16) * 4096 + (b mod 64) * 64 + c mod 64 \<and> 2047 < cp \<and> (cp < 55296 \<or> cp > 57343)) \<or>
      65535 < cp \<and> cp < 1114112"
    using assms unfolding decode_sequence_def join_2 join_3 Let_def
    by (simp only: option.inject option.distinct split: if_split_asm) blast+
  then consider "cp = byte_at buf i" "cp < 128"
    | a b where "cp = (a mod 32) * 64 + b mod 64" "127 < cp"
    | a b c where "cp = (a mod 16) * 4096 + (b mod 64) * 64 + c mod 64" "2047 < cp" "cp < 55296 \<or> cp > 57343"
    | "65535 < cp" "cp < 1114112"
    by blast
  then show ?thesis
  proof cases
    case 1
    then show ?thesis using byte_at_range [of buf i] by (simp add: is_scalar_def)
  next
    case (2 a b)
    then have "cp < 2048" using r2 [of a b] by simp
    with 2(2) show ?thesis by (simp add: is_scalar_def)
  next
    case (3 a b c)
    then have "cp < 65536" using r3 [of a b c] by simp
    with 3(2,3) show ?thesis by (auto simp: is_scalar_def)
  qed (simp add: is_scalar_def)
qed

lemma utf8_step_utf16: "\<exists>cp. is_scalar cp \<and> fst (utf8_step buf i fin) = utf16 cp"
proof (cases "decode_sequence buf i fin")
  case None
  then show ?thesis by (intro exI [of _ 65533]) (simp add: utf8_step_def utf16_def is_scalar_def)
next
  case (Some cp)
  have "0 \<le> c \<Longrightarrow> c < 1048576 \<Longrightarrow> js_or (js_and (js_shr c 10) 1023) 55296 = 55296 + c div 1024" for c
    using js_shr_small [of c 10] by (simp add: js_and_masks or_const)
  then show ?thesis
    using Some decode_sequence_scalar [OF Some]
    by (intro exI [of _ cp]) (simp add: utf8_step_def utf16_def js_and_masks or_const is_scalar_def Let_def)
qed

lemma utf8_slice_loop_utf16:
  "\<exists>cps. (\<forall>cp \<in> set cps. is_scalar cp) \<and> utf8_slice_loop buf i fin = concat (map utf16 cps)"
proof (induction buf i fin rule: utf8_slice_loop.induct)
  case (1 buf i fin)
  show ?case
  proof (cases "i < fin")
    case True
    obtain cp where cp: "is_scalar cp" "fst (utf8_step buf i fin) = utf16 cp"
      using utf8_step_utf16 by blast
    obtain cps where cps: "\<forall>cp \<in> set cps. is_scalar cp"
      "utf8_slice_loop buf (i + snd (utf8_step buf i fin)) fin = concat (map utf16 cps)"
      using 1 True by blast
    show ?thesis
      using cp cps True by (intro exI [of _ "cp # cps"]) (simp add: utf8_slice_loop.simps [of buf i fin])
  qed (auto simp: utf8_slice_loop.simps intro: exI [of _ "[]"])
qed

section \<open>The single-byte and two-byte encodings\<close>

lemma map_upto_nth: "map (\<lambda>i. f (byte_at buf i)) [0..int (length buf) - 1] = map (\<lambda>b. f (uint b)) buf"
proof (rule nth_equalityI)
  fix j assume "j < length (map (\<lambda>i. f (byte_at buf i)) [0..int (length buf) - 1])"
  then show "map (\<lambda>i. f (byte_at buf i)) [0..int (length buf) - 1] ! j = map (\<lambda>b. f (uint b)) buf ! j"
    by (simp add: elem_def nth_upto)
qed simp

lemma latin1Slice_all: "latin1Slice buf 0 (int (length buf)) = map (\<lambda>b. word_of_int (uint b)) buf"
  by (simp add: latin1Slice_def map_upto_nth)

lemma asciiSlice_all: "asciiSlice buf 0 (int (length buf)) = map (\<lambda>b. word_of_int (uint b mod 128)) buf"
  using map_upto_nth [of "\<lambda>x. word_of_int (x mod 128)" buf] by (simp add: asciiSlice_def js_and_masks)

lemma slice_list_all: "length xs \<le> 2147483647 \<Longrightarrow> slice_list xs 0 (Some (int (length xs))) = xs"
  by (simp add: slice_list_def slice_bounds_id)

lemma utf16le_round: "utf16le_units (map word_of_int (utf16leToBytes s (2 * int (length s)))) = s"
proof (induction s)
  case (Cons c cs)
  have "uint c mod 256 + uint c div 256 * 256 = uint c" by simp
  moreover have "x < 65536 \<Longrightarrow> x div 256 < 256" for x :: int by auto
  then have "uint c div 256 < 256" "0 \<le> uint c div 256"
    by (simp_all add: pos_imp_zdiv_nonneg_iff)
  moreover have "- 2147483648 \<le> x \<Longrightarrow> x < 65536 \<Longrightarrow> js_sar x 8 = x div 256" for x
    by (simp add: js_sar_simps)
  then have "js_sar (uint c) 8 = uint c div 256"
    using order_trans [OF _ uint_ge_0 [of c], of "- 2147483648"] by simp
  ultimately show ?case
    using Cons by (simp add: uint_word_of_int)
qed simp

lemma length_utf16leToBytes: "length (utf16leToBytes s (2 * int (length s))) = 2 * length s"
  by (induction s) simp_all

section \<open>Hexadecimal digits\<close>

lemma hex_value_digit: "0 \<le> d \<Longrightarrow> d < 16 \<Longrightarrow> hex_value (hex_digit d) = Some d"
  by (simp add: hex_value_def hex_digit_def uint_unit Let_def)

lemma hex_digit_plain:
  assumes "0 \<le> d" "d < 16"
  shows "\<not> js_space (hex_digit d)" "hex_digit d \<noteq> 45" "hex_digit d \<noteq> 43" "hex_digit d \<noteq> 120"
    "hex_digit d \<noteq> 88"
proof -
  have u: "uint (hex_digit d) = (if d < 10 then 48 + d else 87 + d)"
    using assms by (simp add: hex_digit_def uint_unit)
  show "\<not> js_space (hex_digit d)" using assms u by (auto simp: js_space_def)
  have "uint (hex_digit d) \<notin> {45, 43, 120, 88}" using assms u by auto
  then show "hex_digit d \<noteq> 45" "hex_digit d \<noteq> 43" "hex_digit d \<noteq> 120" "hex_digit d \<noteq> 88"
    by auto
qed

lemma toHex_eq: "0 \<le> n \<Longrightarrow> n < 256 \<Longrightarrow> toHex n = [hex_digit (n div 16), hex_digit (n mod 16)]"
  by (auto simp: toHex_def hex_digit_def)

lemma parseInt16_toHex:
  assumes "0 \<le> n" "n < 256"
  shows "parseInt16 (toHex n) = Some n"
proof -
  have d: "0 \<le> n div 16" "n div 16 < 16" "0 \<le> n mod 16" "n mod 16 < 16" using assms by auto
  have "n div 16 * 16 + n mod 16 = n" by simp
  then show ?thesis
    using hex_digit_plain [OF d(1,2)] hex_digit_plain [OF d(3,4)] hex_value_digit [OF d(1,2)]
      hex_value_digit [OF d(3,4)]
    unfolding toHex_eq [OF assms] by (simp add: parseInt16_def Let_def)
qed

end
