(* ===== verification/Base64.thy ===== *)
theory Base64
  imports Buffer_Text
begin

text \<open>
  The base64 codec that \<open>Buffer\<close> requires.  In \<open>swagger-ui.js\<close> it is an external module; its code
  ships in \<open>swagger-ui-bundle.js\<close> (\<open>byteLength\<close>, \<open>toByteArray\<close>, \<open>fromByteArray\<close>, the helper \<open>l\<close>
  that finds the padding and the helper \<open>c\<close> that encodes a chunk), which is what is modelled here.
\<close>

section \<open>Tables\<close>

definition b64_chars :: jstr where
  "b64_chars = js ''ABCDEFGHIJKLMNOPQRSTUVWXYZabcdefghijklmnopqrstuvwxyz0123456789+/''"

text \<open>\<open>r[i]\<close>, for an index below 64.\<close>

definition b64_lookup :: "int \<Rightarrow> code_unit" where
  "b64_lookup i = b64_chars ! nat i"

text \<open>\<open>o[code]\<close> inside a bitwise expression; the table also maps minus to 62 and underscore to 63.\<close>

definition b64_rev :: "code_unit \<Rightarrow> int" where
  "b64_rev c =
     (if c = 45 then 62 else if c = 95 then 63
      else case map_of (zip b64_chars [0..63]) c of None \<Rightarrow> 0 | Some i \<Rightarrow> i)"

section \<open>Decoding\<close>

text \<open>\<open>e.indexOf("=")\<close>\<close>

definition index_of_pad :: "jstr \<Rightarrow> int" where
  "index_of_pad e = (if 61 \<in> set e then int (length (takeWhile (\<lambda>c. c \<noteq> 61) e)) else - 1)"

definition getLens :: "jstr \<Rightarrow> (int \<times> int) result" where
  "getLens e =
     (let t = int (length e) in
      if t mod 4 > 0 then Inl (PlainError ''Invalid string. Length must be a multiple of 4'')
      else let n = (if index_of_pad e = - 1 then t else index_of_pad e)
           in Inr (n, if n = t then 0 else 4 - n mod 4))"

definition b64_byteLength :: "jstr \<Rightarrow> int result" where
  "b64_byteLength e = map_sum id (\<lambda>(n, r). 3 * (n + r) div 4 - r) (getLens e)"

text \<open>\<open>o[e.charCodeAt(f)]\<close>; past the end the code is \<open>NaN\<close> and the entry \<open>undefined\<close>.\<close>

definition code_at :: "jstr \<Rightarrow> int \<Rightarrow> int" where
  "code_at e f = (if 0 \<le> f \<and> f < int (length e) then b64_rev (e ! nat f) else 0)"

function toByteArray_loop :: "jstr \<Rightarrow> int \<Rightarrow> int \<Rightarrow> int list" where
  "toByteArray_loop e f c =
     (if f < c
      then let t = js_or (js_or (js_or (js_shl (code_at e f) 18) (js_shl (code_at e (f + 1)) 12))
                      (js_shl (code_at e (f + 2)) 6)) (code_at e (f + 3))
           in js_and (js_sar t 16) 255 # js_and (js_sar t 8) 255 # js_and 255 t # toByteArray_loop e (f + 4) c
      else [])"
  by pat_completeness auto
termination
  by (relation "measure (\<lambda>(e, f, c). nat (c - f))") auto

declare toByteArray_loop.simps [simp del]

text \<open>\<open>f\<close> after the loop.\<close>

definition loop_end :: "int \<Rightarrow> int" where
  "loop_end c = (if c \<le> 0 then 0 else (c + 3) div 4 * 4)"

definition toByteArray_tail :: "jstr \<Rightarrow> int \<Rightarrow> int \<Rightarrow> int list" where
  "toByteArray_tail e f a =
     (if a = 2 then [js_and 255 (js_or (js_shl (code_at e f) 2) (js_sar (code_at e (f + 1)) 4))]
      else if a = 1 then
        (let t = js_or (js_or (js_shl (code_at e f) 10) (js_shl (code_at e (f + 1)) 4))
                       (js_sar (code_at e (f + 2)) 2)
         in [js_and (js_sar t 8) 255, js_and 255 t])
      else [])"

text \<open>
  The array has a fixed size: stores beyond it are lost, bytes without a store stay 0, and a
  negative size is refused by \<open>new Uint8Array\<close>.
\<close>

definition toByteArray :: "jstr \<Rightarrow> byte list result" where
  "toByteArray e =
     (case getLens e of
        Inl err \<Rightarrow> Inl err
      | Inr (r, a) \<Rightarrow>
          let size = 3 * (r + a) div 4 - a;
              c = (if a > 0 then r - 4 else r);
              stores = toByteArray_loop e 0 c @ toByteArray_tail e (loop_end c) a
          in if size < 0 then Inl (RangeError ''Invalid typed array length'')
             else Inr (take (nat size) (map word_of_int stores @ replicate (nat size) 0)))"

section \<open>Encoding\<close>

definition tripletToBase64 :: "int \<Rightarrow> jstr" where
  "tripletToBase64 i =
     [b64_lookup (js_and (js_sar i 18) 63), b64_lookup (js_and (js_sar i 12) 63),
      b64_lookup (js_and (js_sar i 6) 63), b64_lookup (js_and 63 i)]"

function encodeChunk :: "byte list \<Rightarrow> int \<Rightarrow> int \<Rightarrow> jstr" where
  "encodeChunk e u n =
     (if u < n
      then tripletToBase64 (js_and (js_shl (byte_at e u) 16) 16711680 +
             js_and (js_shl (byte_at e (u + 1)) 8) 65280 + js_and 255 (byte_at e (u + 2))) @
           encodeChunk e (u + 3) n
      else [])"
  by pat_completeness auto
termination
  by (relation "measure (\<lambda>(e, u, n). nat (n - u))") auto

declare encodeChunk.simps [simp del]

function fromByteArray_loop :: "byte list \<Rightarrow> int \<Rightarrow> int \<Rightarrow> jstr" where
  "fromByteArray_loop e a u =
     (if a < u
      then encodeChunk e a (if a + 16383 > u then u else a + 16383) @ fromByteArray_loop e (a + 16383) u
      else [])"
  by pat_completeness auto
termination
  by (relation "measure (\<lambda>(e, a, u). nat (u - a))") auto

declare fromByteArray_loop.simps [simp del]

definition fromByteArray :: "byte list \<Rightarrow> jstr" where
  "fromByteArray e =
     (let n = int (length e); o3 = n mod 3 in
      fromByteArray_loop e 0 (n - o3) @
      (if o3 = 1 then
         (let t = byte_at e (n - 1)
          in [b64_lookup (js_sar t 2), b64_lookup (js_and (js_shl t 4) 63), 61, 61])
       else if o3 = 2 then
         (let t = js_shl (byte_at e (n - 2)) 8 + byte_at e (n - 1)
          in [b64_lookup (js_sar t 10), b64_lookup (js_and (js_sar t 4) 63),
              b64_lookup (js_and (js_shl t 2) 63), 61])
       else []))"

section \<open>The encoder as a function on lists\<close>

text \<open>The six-bit groups of a byte list; the last group is filled up with zero bits.\<close>

fun sextets :: "byte list \<Rightarrow> int list" where
  "sextets (a # b # c # xs) =
     (let t = uint a * 65536 + uint b * 256 + uint c
      in t div 262144 # t div 4096 mod 64 # t div 64 mod 64 # t mod 64 # sextets xs)"
| "sextets [a, b] = (let t = uint a * 256 + uint b in [t div 1024, t div 16 mod 64, t mod 16 * 4])"
| "sextets [a] = [uint a div 4, uint a mod 4 * 16]"
| "sextets [] = []"

lemma length_b64_chars [simp]: "length b64_chars = 64"
  by (simp add: b64_chars_def)

lemma distinct_b64_chars: "distinct b64_chars"
  by (simp add: b64_chars_def distinct_js)

lemma special_not_b64_chars: "45 \<notin> set b64_chars" "95 \<notin> set b64_chars" "61 \<notin> set b64_chars"
  by (simp_all add: b64_chars_def js_def)

lemma b64_lookup_in: "0 \<le> i \<Longrightarrow> i < 64 \<Longrightarrow> b64_lookup i \<in> set b64_chars"
  by (simp add: b64_lookup_def)

lemma b64_rev_lookup: "0 \<le> i \<Longrightarrow> i < 64 \<Longrightarrow> b64_rev (b64_lookup i) = i"
proof -
  assume i: "0 \<le> i" "i < 64"
  have "map_of (zip b64_chars [0..63]) (b64_chars ! nat i) = Some ([0..63] ! nat i)"
    using i distinct_b64_chars by (intro map_of_zip_nth) auto
  moreover have "b64_lookup i \<noteq> 45" "b64_lookup i \<noteq> 95"
    using b64_lookup_in [OF i] special_not_b64_chars by auto
  ultimately show ?thesis
    using i by (simp add: b64_rev_def b64_lookup_def)
qed

lemma b64_lookup_not_pad: "0 \<le> i \<Longrightarrow> i < 64 \<Longrightarrow> b64_lookup i \<noteq> 61"
  using b64_lookup_in special_not_b64_chars by metis

lemma mod_3_Suc: "Suc (Suc (Suc n)) mod 3 = n mod 3"
  by presburger

lemma sextets_append: "length xs mod 3 = 0 \<Longrightarrow> sextets (xs @ ys) = sextets xs @ sextets ys"
  by (induction xs rule: sextets.induct) (simp_all add: Let_def mod_3_Suc)

lemma length_sextets: "length xs mod 3 = 0 \<Longrightarrow> 3 * length (sextets xs) = 4 * length xs"
  by (induction xs rule: sextets.induct) (simp_all add: Let_def mod_3_Suc)

text \<open>The arithmetic of one group of three bytes.\<close>

lemma triple_range:
  fixes a b c :: byte
  shows "0 \<le> uint a * 65536 + uint b * 256 + uint c" "uint a * 65536 + uint b * 256 + uint c < 16777216"
  using uint_byte_bounds(1) [of a] uint_byte_bounds(1) [of b] uint_byte_bounds(1) [of c]
  by (simp, linarith)

lemma encode_triple:
  "js_and (js_shl (uint (a :: byte)) 16) 16711680 + js_and (js_shl (uint (b :: byte)) 8) 65280 +
    js_and 255 (uint (c :: byte)) = uint a * 65536 + uint b * 256 + uint c"
proof -
  have m: "(16711680::int) = push_bit 16 (mask 8)" "(65280::int) = push_bit 8 (mask 8)"
    by (simp_all add: push_bit_eq_mult mask_eq_exp_minus_1)
  have r: "0 \<le> uint a" "uint a < 256" "0 \<le> uint b" "uint b < 256" "uint c < 256" by simp_all
  have "js_shl x 16 = x * 65536" "js_shl x 8 = x * 256" if "0 \<le> x" "x < 256" for x
    using that js_shl_small [of x 16] js_shl_small [of x 8] by auto
  then have "js_shl (uint a) 16 = uint a * 65536" "js_shl (uint b) 8 = uint b * 256"
    using r by auto
  moreover have "js_and 255 (uint c) = uint c"
    using and_255 [of "uint c"] by (simp add: js_and_def and.commute)
  ultimately show ?thesis
    using js_and_shifted_mask [of 16 8 "uint a * 65536"] js_and_shifted_mask [of 8 8 "uint b * 256"]
    unfolding m by simp
qed

lemma tripletToBase64_eq:
  assumes "0 \<le> t" "t < 16777216"
  shows "tripletToBase64 t = map b64_lookup [t div 262144, t div 4096 mod 64, t div 64 mod 64, t mod 64]"
proof -
  have "js_and 63 t = t mod 64" using js_and_masks(3) [of t] by (simp add: js_and_def and.commute)
  moreover have "t div 262144 mod 64 = t div 262144" using assms by auto
  ultimately show ?thesis
    using assms by (simp add: tripletToBase64_def js_sar_simps js_and_masks)
qed

lemma encodeChunk_sextets:
  assumes "u + 3 * k \<le> length e"
  shows "encodeChunk e (int u) (int u + 3 * int k) = map b64_lookup (sextets (take (3 * k) (drop u e)))"
  using assms
proof (induction k arbitrary: u)
  case 0
  then show ?case by (simp add: encodeChunk.simps)
next
  case (Suc k)
  let ?t = "uint (e ! u) * 65536 + uint (e ! (u + 1)) * 256 + uint (e ! (u + 2))"
  have at: "byte_at e (int u) = uint (e ! u)" "byte_at e (int u + 1) = uint (e ! (u + 1))"
    "byte_at e (int u + 2) = uint (e ! (u + 2))"
    using Suc.prems by (simp_all add: elem_def nat_add_distrib)
  have "drop u e = e ! u # e ! (u + 1) # e ! (u + 2) # drop (u + 3) e"
    using Suc.prems by (simp add: Cons_nth_drop_Suc numeral_3_eq_3)
  then have tk: "take (3 * Suc k) (drop u e) = e ! u # e ! (u + 1) # e ! (u + 2) # take (3 * k) (drop (u + 3) e)"
    by (simp add: numeral_3_eq_3)
  have "encodeChunk e (int u) (int u + 3 * int (Suc k)) =
      tripletToBase64 ?t @ encodeChunk e (int (u + 3)) (int (u + 3) + 3 * int k)"
    by (subst encodeChunk.simps, simp only: at encode_triple) (simp add: algebra_simps)
  also have "\<dots> = map b64_lookup (sextets (take (3 * Suc k) (drop u e)))"
    using Suc.IH [of "u + 3"] Suc.prems
    unfolding tk tripletToBase64_eq [OF triple_range] by (simp add: Let_def)
  finally show ?case .
qed

text \<open>The chunk length is a multiple of three, so cutting the input into chunks changes nothing.\<close>

lemma fromByteArray_loop_sextets:
  assumes "a + 3 * k \<le> length e"
  shows "fromByteArray_loop e (int a) (int a + 3 * int k) = map b64_lookup (sextets (take (3 * k) (drop a e)))"
  using assms
proof (induction k arbitrary: a rule: less_induct)
  case (less k)
  consider "k = 0" | "0 < k" "k \<le> 5461" | "5461 < k" by linarith
  then show ?case
  proof cases
    case 1
    then show ?thesis by (simp add: fromByteArray_loop.simps)
  next
    case 2
    then have "fromByteArray_loop e (int a) (int a + 3 * int k) = encodeChunk e (int a) (int a + 3 * int k)"
      by (subst fromByteArray_loop.simps) (auto simp: fromByteArray_loop.simps [of e "int a + 16383"])
    with less.prems show ?thesis by (simp add: encodeChunk_sextets)
  next
    case 3
    let ?k = "k - 5461"
    have split: "take (3 * k) (drop a e) = take 16383 (drop a e) @ take (3 * ?k) (drop (a + 16383) e)"
    proof -
      have "3 * k = 16383 + 3 * ?k" using 3 by simp
      then show ?thesis by (simp only: take_add drop_drop) (simp add: add.commute)
    qed
    have "fromByteArray_loop e (int a) (int a + 3 * int k) =
        encodeChunk e (int a) (int a + 3 * int 5461) @ fromByteArray_loop e (int (a + 16383)) (int (a + 16383) + 3 * int ?k)"
      using 3 by (subst fromByteArray_loop.simps) (simp add: of_nat_diff)
    also have "fromByteArray_loop e (int (a + 16383)) (int (a + 16383) + 3 * int ?k) =
        map b64_lookup (sextets (take (3 * ?k) (drop (a + 16383) e)))"
      using 3 less.prems by (intro less.IH) auto
    also have "encodeChunk e (int a) (int a + 3 * int 5461) = map b64_lookup (sextets (take 16383 (drop a e)))"
      using 3 less.prems encodeChunk_sextets [of a 5461 e] by simp
    finally show ?thesis
      using 3 less.prems by (simp add: split sextets_append)
  qed
qed

definition pad_count :: "nat \<Rightarrow> nat" where
  "pad_count n = (3 - n mod 3) mod 3"

lemma fromByteArray_sextets:
  "fromByteArray e = map b64_lookup (sextets e) @ replicate (pad_count (length e)) 61"
proof -
  define k where "k = length e div 3"
  define tl3 where "tl3 = drop (3 * k) e"
  have len: "length e = 3 * k + length e mod 3" by (simp add: k_def)
  have e: "e = take (3 * k) e @ tl3" by (simp add: tl3_def)
  have main: "fromByteArray_loop e 0 (3 * int k) = map b64_lookup (sextets (take (3 * k) e))"
    using fromByteArray_loop_sextets [of 0 k e] len by simp
  have n: "int (length e) - int (length e) mod 3 = 3 * int k"
    using len by (metis add_diff_cancel_right' of_nat_add of_nat_mod of_nat_mult of_nat_numeral)
  have sx: "sextets e = sextets (take (3 * k) e) @ sextets tl3"
    using len by (subst e, subst sextets_append) simp_all
  have sm: "js_sar x 2 = x div 4" "js_and (js_shl x 4) 63 = x mod 4 * 16" if "0 \<le> x" "x < 256" for x
    using that js_sar_small [of x 2] js_shl_small [of x 4] mult_mod_left [of x 4 16]
    by (auto simp: js_and_masks)
  have sm2: "js_shl y 8 + z = y * 256 + z" "js_sar (y * 256 + z) 10 = (y * 256 + z) div 1024"
      "js_and (js_sar (y * 256 + z) 4) 63 = (y * 256 + z) div 16 mod 64"
      "js_and (js_shl (y * 256 + z) 2) 63 = (y * 256 + z) mod 16 * 4"
    if "0 \<le> y" "y < 256" "0 \<le> z" "z < 256" for y z
    using that js_shl_small [of y 8] js_sar_small [of "y * 256 + z" 10] js_sar_small [of "y * 256 + z" 4]
      js_shl_small [of "y * 256 + z" 2] mult_mod_right [of 4 "y * 256 + z" 16]
    by (auto simp: js_and_masks mult.commute)
  have im: "int (length e) mod 3 = int (length e mod 3)" by (simp add: of_nat_mod)
  consider "length e mod 3 = 0" | "length e mod 3 = 1" | "length e mod 3 = 2" by linarith
  then show ?thesis
  proof cases
    case 1
    then have t: "tl3 = []" using len by (simp add: tl3_def)
    have o: "int (length e) mod 3 = 0" using 1 im by simp
    have "fromByteArray e = map b64_lookup (sextets (take (3 * k) e))"
      unfolding fromByteArray_def Let_def n unfolding main o by simp
    then show ?thesis unfolding sx t pad_count_def 1 by simp
  next
    case 2
    then have "tl3 = [e ! (3 * k)]" using len Cons_nth_drop_Suc [of "3 * k" e] by (simp add: tl3_def)
    moreover have "nat (int (length e) - 1) = 3 * k" using len 2 by simp
    then have "byte_at e (int (length e) - 1) = uint (e ! (3 * k))"
      using len 2 by (simp add: elem_def)
    moreover have "int (length e) mod 3 = 1" using 2 im by simp
    ultimately show ?thesis
      using main n sx sm [of "uint (e ! (3 * k))"] 2
      by (simp add: fromByteArray_def pad_count_def Let_def numeral_2_eq_2)
  next
    case 3
    let ?y = "uint (e ! (3 * k))" and ?z = "uint (e ! Suc (3 * k))"
    have t: "tl3 = [e ! (3 * k), e ! Suc (3 * k)]"
      using 3 len Cons_nth_drop_Suc [of "3 * k" e] Cons_nth_drop_Suc [of "Suc (3 * k)" e] by (simp add: tl3_def)
    have i: "nat (int (length e) - 2) = 3 * k" "nat (int (length e) - 1) = Suc (3 * k)"
      using len 3 by simp_all
    then have at: "byte_at e (int (length e) - 2) = ?y" "byte_at e (int (length e) - 1) = ?z"
      using len 3 by (simp_all add: elem_def)
    have o: "int (length e) mod 3 = 2" using 3 im by simp
    have "fromByteArray e = map b64_lookup (sextets (take (3 * k) e)) @
        [b64_lookup ((?y * 256 + ?z) div 1024), b64_lookup ((?y * 256 + ?z) div 16 mod 64),
         b64_lookup ((?y * 256 + ?z) mod 16 * 4), 61]"
      unfolding fromByteArray_def Let_def n unfolding main o at
      by (simp only: sm2 uint_ge_0 uint_byte_bounds(1)) simp
    moreover have "sextets e = sextets (take (3 * k) e) @
        [(?y * 256 + ?z) div 1024, (?y * 256 + ?z) div 16 mod 64, (?y * 256 + ?z) mod 16 * 4]"
      unfolding sx t by (simp only: sextets.simps Let_def)
    ultimately show ?thesis unfolding pad_count_def 3 by (simp only: map_append list.map) simp
  qed
qed

section \<open>Decoding the encoder's output\<close>

lemma sextets_range: "s \<in> set (sextets xs) \<Longrightarrow> 0 \<le> s \<and> s < 64"
proof (induction xs rule: sextets.induct)
  case (1 a b c xs)
  have "t div 262144 < 64 \<and> 0 \<le> t div 262144" if "0 \<le> t" "t < 16777216" for t :: int
    using that by (simp add: pos_imp_zdiv_nonneg_iff)
  from this [OF triple_range [of a b c]] 1 show ?case by (auto simp: Let_def)
next
  case (2 a b)
  have "t div 1024 < 64 \<and> 0 \<le> t div 1024" if "0 \<le> t" "t < 65536" for t :: int
    using that by (simp add: pos_imp_zdiv_nonneg_iff)
  moreover have "0 \<le> uint a * 256 + uint b" by simp
  moreover have "uint a * 256 + uint b < 65536"
    using uint_byte_bounds(1) [of a] uint_byte_bounds(1) [of b] by linarith
  ultimately have "(uint a * 256 + uint b) div 1024 < 64 \<and> 0 \<le> (uint a * 256 + uint b) div 1024"
    by blast
  moreover have "(uint a * 256 + uint b) mod 16 < 16" by simp
  ultimately show ?case using 2 by (auto simp: Let_def)
next
  case (3 a)
  have "x div 4 < 64" if "x < 256" for x :: int using that by simp
  from this [of "uint a"] have "uint a div 4 < 64" by simp
  moreover have "uint a mod 4 < 4" by simp
  ultimately show ?case using 3 by (auto simp: pos_imp_zdiv_nonneg_iff)
qed simp

lemma code_at_sextet:
  assumes "j < length (sextets xs)" "p = int (length pre) + int j"
  shows "code_at (pre @ map b64_lookup (sextets xs) @ post) p = sextets xs ! j"
proof -
  have "nat p = length pre + j" using assms by simp
  with assms sextets_range [OF nth_mem [OF assms(1)]] show ?thesis
    by (simp add: code_at_def nth_append b64_rev_lookup)
qed

lemma decode_triple:
  fixes a b c :: byte
  defines "t \<equiv> uint a * 65536 + uint b * 256 + uint c"
  shows "js_or (js_or (js_or (js_shl (t div 262144) 18) (js_shl (t div 4096 mod 64) 12))
      (js_shl (t div 64 mod 64) 6)) (t mod 64) = t"
    and "js_and (js_sar t 16) 255 = uint a" "js_and (js_sar t 8) 255 = uint b" "js_and 255 t = uint c"
proof -
  have t: "0 \<le> t" "t < 16777216" using triple_range [of a b c] by (simp_all add: t_def)
  have d: "0 \<le> t div 262144" "t div 262144 < 64" using t by (simp_all add: pos_imp_zdiv_nonneg_iff)
  have sh: "js_shl x 18 = x * 262144" "js_shl x 12 = x * 4096" "js_shl x 6 = x * 64"
    if "0 \<le> x" "x < 64" for x using that by (simp_all add: js_shl_simps)
  have s: "js_shl (t div 262144) 18 = t div 262144 * 262144"
    "js_shl (t div 4096 mod 64) 12 = t div 4096 mod 64 * 4096" "js_shl (t div 64 mod 64) 6 = t div 64 mod 64 * 64"
    by (rule sh(1) [OF d]) (rule sh(2) sh(3), simp_all)+
  show "js_or (js_or (js_or (js_shl (t div 262144) 18) (js_shl (t div 4096 mod 64) 12))
      (js_shl (t div 64 mod 64) 6)) (t mod 64) = t"
    unfolding s by (rule trans [OF or_4 [OF d] digits_4]) simp_all
  have dm: "(x * 65536 + y * 256 + z) div 65536 mod 256 = x" "(x * 65536 + y * 256 + z) div 256 mod 256 = y"
      "(x * 65536 + y * 256 + z) mod 256 = z"
    if "0 \<le> x" "x < 256" "0 \<le> y" "y < 256" "0 \<le> z" "z < 256" for x y z :: int
  proof -
    have 1: "x * 65536 + y * 256 + z = (x * 256 + y) * 256 + z" by simp
    have 2: "x * 65536 + y * 256 + z = x * 65536 + (y * 256 + z)" by simp
    have "(x * 65536 + y * 256 + z) div 256 = x * 256 + y"
      using that unfolding 1 by (subst div_mult_self3) simp_all
    moreover have "(x * 65536 + y * 256 + z) div 65536 = x"
      using that unfolding 2 by (subst div_mult_self3) simp_all
    moreover have "(x * 65536 + y * 256 + z) mod 256 = z"
      using that unfolding 1 by (subst mod_mult_self3) simp_all
    ultimately show "(x * 65536 + y * 256 + z) div 65536 mod 256 = x"
      "(x * 65536 + y * 256 + z) div 256 mod 256 = y" "(x * 65536 + y * 256 + z) mod 256 = z"
      using that by simp_all
  qed
  have "js_and 255 t = t mod 256" using and_255 [of t] by (simp add: js_and_def and.commute)
  then show "js_and 255 t = uint c" unfolding t_def by (simp only: dm(3) uint_ge_0 uint_byte_bounds(1))
  have "js_sar t 16 = t div 65536" "js_sar t 8 = t div 256"
    using t js_sar_small [of t 16] js_sar_small [of t 8] by simp_all
  then show "js_and (js_sar t 16) 255 = uint a" "js_and (js_sar t 8) 255 = uint b"
    unfolding t_def by (simp_all only: and_255 dm(1,2) uint_ge_0 uint_byte_bounds(1))
qed

lemma toByteArray_loop_sextets:
  assumes "length xs = 3 * k" "p = int (length pre)"
  shows "toByteArray_loop (pre @ map b64_lookup (sextets xs) @ post) p (p + 4 * int k) = map uint xs"
  using assms
proof (induction k arbitrary: pre xs p)
  case 0
  then show ?case by (simp add: toByteArray_loop.simps)
next
  case (Suc k)
  then obtain a b c ys where xs: "xs = a # b # c # ys" "length ys = 3 * k"
    by (auto simp: length_Suc_conv numeral_3_eq_3)
  define t where "t = uint a * 65536 + uint b * 256 + uint c"
  let ?e = "pre @ map b64_lookup (sextets xs) @ post"
  have sx: "sextets xs = [t div 262144, t div 4096 mod 64, t div 64 mod 64, t mod 64] @ sextets ys"
    by (simp add: xs Let_def t_def)
  have at: "code_at ?e (p + int j) = sextets xs ! j" if "j < 4" for j
    by (rule code_at_sextet) (use that Suc.prems in \<open>simp_all add: sx\<close>)
  have n: "sextets xs ! 0 = t div 262144" "sextets xs ! 1 = t div 4096 mod 64"
    "sextets xs ! 2 = t div 64 mod 64" "sextets xs ! 3 = t mod 64"
    by (simp_all add: sx)
  have at0: "code_at ?e p = t div 262144" using at [of 0] n(1) by simp
  have at1: "code_at ?e (p + 1) = t div 4096 mod 64" using at [of 1] n(2) by simp
  have at2: "code_at ?e (p + 2) = t div 64 mod 64" using at [of 2] n(3) by simp
  have at3: "code_at ?e (p + 3) = t mod 64" using at [of 3] n(4) by simp
  have e: "?e = (pre @ map b64_lookup [t div 262144, t div 4096 mod 64, t div 64 mod 64, t mod 64]) @
      map b64_lookup (sextets ys) @ post" by (simp add: sx)
  have "toByteArray_loop ?e (p + 4) (p + 4 + 4 * int k) = map uint ys"
    unfolding e using Suc.prems xs by (intro Suc.IH) auto
  moreover have "p < p + 4 * int (Suc k)" "p + 4 * int (Suc k) = p + 4 + 4 * int k" by simp_all
  ultimately have "toByteArray_loop ?e p (p + 4 * int (Suc k)) = uint a # uint b # uint c # map uint ys"
    using decode_triple [of a b c, folded t_def]
    by (subst toByteArray_loop.simps) (simp only: at0 at1 at2 at3 Let_def if_True)
  then show ?case by (simp add: xs)
qed

text \<open>The loop bound need not be a multiple of four.\<close>

lemma toByteArray_loop_round:
  "4 * int k - 4 < c \<Longrightarrow> c \<le> 4 * int k \<Longrightarrow>
    toByteArray_loop e p (p + c) = toByteArray_loop e p (p + 4 * int k)"
proof (induction k arbitrary: p c)
  case 0
  then show ?case by (simp add: toByteArray_loop.simps)
next
  case (Suc k)
  have "toByteArray_loop e (p + 4) (p + 4 + (c - 4)) = toByteArray_loop e (p + 4) (p + 4 + 4 * int k)"
    using Suc.prems by (intro Suc.IH) auto
  moreover have "p + 4 + (c - 4) = p + c" "p + 4 + 4 * int k = p + 4 * int (Suc k)" by simp_all
  moreover have "p < p + c" "p < p + 4 * int (Suc k)" using Suc.prems by simp_all
  ultimately show ?case
    by (simp only: toByteArray_loop.simps [of e p "p + c"] toByteArray_loop.simps [of e p "p + 4 * int (Suc k)"] if_True)
qed

lemma tail_one:
  assumes "0 \<le> x" "x < 256"
  shows "js_and 255 (js_or (js_shl (x div 4) 2) (js_sar (x mod 4 * 16) 4)) = x"
proof -
  have "js_shl (x div 4) 2 = x div 4 * 4" using js_shl_small [of "x div 4" 2] assms by auto
  moreover have "js_sar (x mod 4 * 16) 4 = x mod 4"
  proof -
    have "js_sar (y * 16) 4 = y" if "0 \<le> y" "y < 4" for y
      using that js_sar_small [of "y * 16" 4] by simp
    then show ?thesis by simp
  qed
  moreover have "js_or (x div 4 * 4) (x mod 4) = x div 4 * 4 + x mod 4"
    using js_or_sum(1) [of "x mod 4" 2 "x div 4"] assms by (simp add: pos_imp_zdiv_nonneg_iff)
  moreover have "js_and 255 x = x" using and_255 [of x] assms by (simp add: js_and_def and.commute)
  ultimately show ?thesis by simp
qed

lemma tail_two:
  assumes "0 \<le> t" "t < 65536"
  shows "js_or (js_or (js_shl (t div 1024) 10) (js_shl (t div 16 mod 64) 4)) (js_sar (t mod 16 * 4) 2) = t"
proof -
  have d: "0 \<le> t div 1024" "t div 1024 < 64" using assms by (simp_all add: pos_imp_zdiv_nonneg_iff)
  have "js_shl (t div 1024) 10 = t div 1024 * 1024" using d by (simp add: js_shl_simps)
  moreover have "js_shl x 4 = x * 16" if "0 \<le> x" "x < 64" for x using that js_shl_small [of x 4] by simp
  then have "js_shl (t div 16 mod 64) 4 = t div 16 mod 64 * 16" by simp
  moreover have "js_sar (y * 4) 2 = y" if "0 \<le> y" "y < 16" for y using that js_sar_small [of "y * 4" 2] by simp
  then have "js_sar (t mod 16 * 4) 2 = t mod 16" by simp
  moreover have "js_or (js_or (x * 1024) (y * 16)) z = x * 1024 + y * 16 + z"
    if "0 \<le> x" "x < 64" "0 \<le> y" "y < 64" "0 \<le> z" "z < 16" for x y z
    using that js_or_sum(1) [of "y * 16" 10 x] js_or_sum(1) [of z 4 "x * 64 + y"] by (simp add: algebra_simps)
  then have "js_or (js_or (t div 1024 * 1024) (t div 16 mod 64 * 16)) (t mod 16) =
      t div 1024 * 1024 + t div 16 mod 64 * 16 + t mod 16" using d by simp
  moreover have "q * 16 + c = t \<Longrightarrow> a * 64 + b = q \<Longrightarrow> a * 1024 + b * 16 + c = t" for a b c q :: int
    by linarith
  from this [OF div_mult_mod_eq div_mult_mod_eq] have "t div 1024 * 1024 + t div 16 mod 64 * 16 + t mod 16 = t"
    using zdiv_zmult2_eq [of 64 t 16] by simp
  ultimately show ?thesis by (simp only:)
qed

lemma loop_end_eq: "4 * int k - 4 < c \<Longrightarrow> c \<le> 4 * int k \<Longrightarrow> loop_end c = 4 * int k"
proof -
  assume c: "4 * int k - 4 < c" "c \<le> 4 * int k"
  then have "(c + 3) div 4 = int k" by linarith
  then show ?thesis using c by (auto simp: loop_end_def)
qed

lemma index_of_pad_sextets:
  "index_of_pad (map b64_lookup (sextets e) @ replicate k 61) =
    (if k = 0 then - 1 else int (length (sextets e)))"
proof -
  have no: "61 \<notin> set (map b64_lookup (sextets e))"
    using sextets_range b64_lookup_not_pad by fastforce
  then have "takeWhile (\<lambda>c. c \<noteq> 61) (map b64_lookup (sextets e) @ replicate k 61) = map b64_lookup (sextets e)"
    by (subst takeWhile_append2) (auto simp: takeWhile_replicate)
  with no show ?thesis by (auto simp: index_of_pad_def)
qed

lemma word_of_uint_list [simp]: "map (word_of_int \<circ> uint) xs = (xs :: byte list)"
  by (induction xs) simp_all

lemma main_loop:
  assumes "length xs = 3 * k" "4 * int k - 4 < c" "c \<le> 4 * int k"
    "e = map b64_lookup (sextets xs) @ post"
  shows "toByteArray_loop e 0 c = map uint xs"
  using toByteArray_loop_round [OF assms(2,3), of e 0] toByteArray_loop_sextets [OF assms(1), of 0 "[]" post]
    assms(4) by simp

lemma length_sextets_k: "length xs = 3 * k \<Longrightarrow> length (sextets xs) = 4 * k"
  using length_sextets [of xs] by simp

lemma toByteArray_fromByteArray_0:
  assumes "length xs = 3 * k"
  shows "toByteArray (map b64_lookup (sextets xs)) = Inr xs"
proof -
  let ?e = "map b64_lookup (sextets xs)"
  have len: "int (length ?e) = 4 * int k" using length_sextets_k [OF assms] by simp
  have "index_of_pad ?e = - 1" using index_of_pad_sextets [of xs 0] by simp
  then have g: "getLens ?e = Inr (4 * int k, 0)" unfolding getLens_def len by simp
  have l: "toByteArray_loop ?e 0 (4 * int k) = map uint xs" using assms by (intro main_loop) auto
  have "3 * (4 * int k + 0) div 4 - 0 = 3 * int k" by simp
  then show ?thesis
    using assms by (simp add: toByteArray_def g l toByteArray_tail_def Let_def)
qed

lemma toByteArray_fromByteArray_1:
  assumes "length xs = 3 * k"
  shows "toByteArray (map b64_lookup (sextets (xs @ [x])) @ [61, 61]) = Inr (xs @ [x])"
proof -
  let ?e = "map b64_lookup (sextets (xs @ [x])) @ [61, 61]"
  have sx: "sextets (xs @ [x]) = sextets xs @ sextets [x]" using assms by (intro sextets_append) simp
  have ls: "length (sextets (xs @ [x])) = 4 * k + 2" using length_sextets_k [OF assms] sx by simp
  then have len: "int (length ?e) = 4 * int k + 4" by simp
  have "index_of_pad ?e = 4 * int k + 2"
    using index_of_pad_sextets [of "xs @ [x]" 2] ls by (simp add: numeral_2_eq_2)
  moreover have "(4 * int k + 4) mod 4 = 0" "(4 * int k + 2) mod 4 = 2" by presburger+
  ultimately have g: "getLens ?e = Inr (4 * int k + 2, 2)" unfolding getLens_def len by simp
  have l: "toByteArray_loop ?e 0 (4 * int k - 2) = map uint xs"
    using assms sx by (intro main_loop [where post = "map b64_lookup (sextets [x]) @ [61, 61]"]) auto
  have f: "loop_end (4 * int k - 2) = 4 * int k" by (rule loop_end_eq) simp_all
  have at: "code_at ?e (4 * int k) = sextets (xs @ [x]) ! (4 * k)"
    "code_at ?e (4 * int k + 1) = sextets (xs @ [x]) ! (4 * k + 1)"
    using code_at_sextet [of "4 * k" "xs @ [x]" "4 * int k" "[]" "[61, 61]"]
      code_at_sextet [of "4 * k + 1" "xs @ [x]" "4 * int k + 1" "[]" "[61, 61]"] ls by simp_all
  have n: "sextets (xs @ [x]) ! (4 * k) = uint x div 4" "sextets (xs @ [x]) ! (4 * k + 1) = uint x mod 4 * 16"
    using length_sextets_k [OF assms] unfolding sx by (simp_all add: nth_append)
  have t: "toByteArray_tail ?e (4 * int k) 2 = [uint x]"
    unfolding toByteArray_tail_def at n by (simp add: tail_one)
  have sz: "3 * (4 * int k + 2 + 2) div 4 - 2 = 3 * int k + 1" by simp
  have z: "nat (3 * int k + 1) - 3 * k = Suc 0" by simp
  show ?thesis
    unfolding toByteArray_def g sum.case prod.case Let_def sz
    using assms by (simp add: f l t z)
qed

lemma toByteArray_fromByteArray_2:
  assumes "length xs = 3 * k"
  shows "toByteArray (map b64_lookup (sextets (xs @ [x, y])) @ [61]) = Inr (xs @ [x, y])"
proof -
  let ?e = "map b64_lookup (sextets (xs @ [x, y])) @ [61]"
  define t where "t = uint x * 256 + uint y"
  have tr: "0 \<le> t" "t < 65536"
    using uint_byte_bounds(1) [of x] uint_byte_bounds(1) [of y] unfolding t_def by (simp, linarith)
  have sx: "sextets (xs @ [x, y]) = sextets xs @ [t div 1024, t div 16 mod 64, t mod 16 * 4]"
    using assms sextets_append [of xs "[x, y]"] by (simp add: t_def Let_def)
  have ls: "length (sextets (xs @ [x, y])) = 4 * k + 3" using length_sextets_k [OF assms] sx by simp
  then have len: "int (length ?e) = 4 * int k + 4" by simp
  have "index_of_pad ?e = 4 * int k + 3" using index_of_pad_sextets [of "xs @ [x, y]" 1] ls by simp
  moreover have "(4 * int k + 4) mod 4 = 0" "(4 * int k + 3) mod 4 = 3" by presburger+
  ultimately have g: "getLens ?e = Inr (4 * int k + 3, 1)" unfolding getLens_def len by simp
  have l: "toByteArray_loop ?e 0 (4 * int k - 1) = map uint xs"
    using assms unfolding sx by (intro main_loop [where k = k]) auto
  have f: "loop_end (4 * int k - 1) = 4 * int k" by (rule loop_end_eq) simp_all
  have at: "code_at ?e (4 * int k) = sextets (xs @ [x, y]) ! (4 * k)"
    "code_at ?e (4 * int k + 1) = sextets (xs @ [x, y]) ! (4 * k + 1)"
    "code_at ?e (4 * int k + 2) = sextets (xs @ [x, y]) ! (4 * k + 2)"
    using code_at_sextet [of "4 * k" "xs @ [x, y]" "4 * int k" "[]" "[61]"]
      code_at_sextet [of "4 * k + 1" "xs @ [x, y]" "4 * int k + 1" "[]" "[61]"]
      code_at_sextet [of "4 * k + 2" "xs @ [x, y]" "4 * int k + 2" "[]" "[61]"] ls by simp_all
  have n: "sextets (xs @ [x, y]) ! (4 * k) = t div 1024" "sextets (xs @ [x, y]) ! (4 * k + 1) = t div 16 mod 64"
    "sextets (xs @ [x, y]) ! (4 * k + 2) = t mod 16 * 4"
    using length_sextets_k [OF assms] unfolding sx by (simp_all add: nth_append)
  have b: "js_and (js_sar t 8) 255 = uint x" "js_and 255 t = uint y"
    using decode_triple(3,4) [of 0 x y] unfolding t_def by simp_all
  have tl: "toByteArray_tail ?e (4 * int k) 1 = [uint x, uint y]"
    unfolding toByteArray_tail_def at n tail_two [OF tr] Let_def b by simp
  have sz: "3 * (4 * int k + 3 + 1) div 4 - 1 = 3 * int k + 2" by simp
  have z: "nat (3 * int k + 2) - 3 * k = Suc (Suc 0)" by simp
  show ?thesis
    unfolding toByteArray_def g sum.case prod.case Let_def sz
    using assms by (simp add: f l tl z)
qed

lemma toByteArray_fromByteArray: "toByteArray (fromByteArray e) = Inr e"
proof -
  define k where "k = length e div 3"
  have m: "length (take (3 * k) e) = 3 * k" by (simp add: k_def)
  have e: "e = take (3 * k) e @ drop (3 * k) e" by simp
  have len: "length (drop (3 * k) e) = length e mod 3" by (simp add: k_def mod_div_trivial minus_mult_div_eq_mod)
  consider "length e mod 3 = 0" | "length e mod 3 = 1" | "length e mod 3 = 2" by linarith
  then show ?thesis
  proof cases
    case 1
    then have "take (3 * k) e = e" using len e by simp
    then show ?thesis
      using toByteArray_fromByteArray_0 [OF m] by (simp add: fromByteArray_sextets pad_count_def 1)
  next
    case 2
    with len have "length (drop (3 * k) e) = Suc 0" by (simp only: One_nat_def)
    then obtain x where "drop (3 * k) e = [x]" unfolding length_Suc_conv length_0_conv by blast
    with e have e': "take (3 * k) e @ [x] = e" by simp
    show ?thesis
      using toByteArray_fromByteArray_1 [OF m, of x]
      unfolding e' by (simp add: fromByteArray_sextets pad_count_def 2 numeral_2_eq_2)
  next
    case 3
    with len have "length (drop (3 * k) e) = Suc (Suc 0)" by (simp only: numeral_2_eq_2)
    then obtain x y where "drop (3 * k) e = [x, y]" unfolding length_Suc_conv length_0_conv by blast
    with e have e': "take (3 * k) e @ [x, y] = e" by simp
    show ?thesis
      using toByteArray_fromByteArray_2 [OF m, of x y]
      unfolding e' by (simp add: fromByteArray_sextets pad_count_def 3)
  qed
qed

end
