(* ===== verification/Buffer_Codec.thy ===== *)
theory Buffer_Codec
  imports Base64
begin

text \<open>
  From strings to buffers and back (module 379 of \<open>swagger-ui.js\<close>): allocation, the choice of
  the encoding, \<open>byteLength\<close>, \<open>write\<close>, \<open>toString\<close>, \<open>fromString\<close>.  The locale \<open>text_codec\<close> states
  what an encoding promises; it is interpreted for each of the six encodings, and the round
  trip through a buffer is proved once from it.
\<close>

section \<open>Allocation\<close>

definition kMaxLength :: int where
  "kMaxLength = 2147483647"

text \<open>\<open>new Uint8Array(n)\<close> refuses a negative length.\<close>

definition createBuffer :: "mem \<Rightarrow> int \<Rightarrow> (buffer \<times> mem) result" where
  "createBuffer m len =
     (if kMaxLength < len then Inl (RangeError ''Invalid typed array length'')
      else if len < 0 then Inl (RangeError ''Invalid typed array length'')
      else Inr (new_array m (nat len)))"

section \<open>Encoding names\<close>

datatype encoding = Hex | Utf8 | Ascii | Latin1 | Base64_enc | Ucs2

text \<open>
  \<open>toLowerCase\<close>.  Only the ASCII letters matter: no other character has a lower case that occurs
  in the name of an encoding.
\<close>

definition lower_unit :: "code_unit \<Rightarrow> code_unit" where
  "lower_unit c = (if 65 \<le> uint c \<and> uint c \<le> 90 then c + 32 else c)"

definition toLowerCase :: "jstr \<Rightarrow> jstr" where
  "toLowerCase s = map lower_unit s"

text \<open>The cases of the switches in \<open>byteLength\<close>, \<open>slowToString\<close> and \<open>write\<close>.\<close>

definition encoding_case :: "jstr \<Rightarrow> encoding option" where
  "encoding_case e =
     (if e = js ''hex'' then Some Hex
      else if e = js ''utf8'' \<or> e = js ''utf-8'' then Some Utf8
      else if e = js ''ascii'' then Some Ascii
      else if e = js ''latin1'' \<or> e = js ''binary'' then Some Latin1
      else if e = js ''base64'' then Some Base64_enc
      else if e = js ''ucs2'' \<or> e = js ''ucs-2'' \<or> e = js ''utf16le'' \<or> e = js ''utf-16le'' then Some Ucs2
      else None)"

text \<open>The loop around the switch: a second round in lower case, then the default.\<close>

definition encoding_switch :: "jstr \<Rightarrow> encoding option" where
  "encoding_switch e =
     (case encoding_case e of None \<Rightarrow> encoding_case (toLowerCase e) | Some c \<Rightarrow> Some c)"

definition isEncoding :: "jstr \<Rightarrow> bool" where
  "isEncoding e = (toLowerCase e \<in> {js ''hex'', js ''utf8'', js ''utf-8'', js ''ascii'', js ''latin1'',
     js ''binary'', js ''base64'', js ''ucs2'', js ''ucs-2'', js ''utf16le'', js ''utf-16le''})"

section \<open>Byte length and writing\<close>

definition base64ToBytes :: "jstr \<Rightarrow> byte list result" where
  "base64ToBytes str = toByteArray (base64clean str)"

text \<open>\<open>byteLength\<close> of a string; an encoding that is not known counts as UTF-8.\<close>

definition byteLength :: "jstr \<Rightarrow> jstr option \<Rightarrow> int result" where
  "byteLength string encoding =
     (let len = int (length string) in
      if len = 0 then Inr 0
      else case (case encoding of None \<Rightarrow> Some Utf8 | Some e \<Rightarrow> encoding_switch e) of
             Some Ascii \<Rightarrow> Inr len
           | Some Latin1 \<Rightarrow> Inr len
           | Some Utf8 \<Rightarrow> map_sum id (\<lambda>bs. int (length bs)) (utf8ToBytes string None)
           | Some Ucs2 \<Rightarrow> Inr (len * 2)
           | Some Hex \<Rightarrow> Inr (js_shr len 1)
           | Some Base64_enc \<Rightarrow> map_sum id (\<lambda>bs. int (length bs)) (base64ToBytes string)
           | None \<Rightarrow> map_sum id (\<lambda>bs. int (length bs)) (utf8ToBytes string None))"

definition utf8Write :: "mem \<Rightarrow> buffer \<Rightarrow> jstr \<Rightarrow> int \<Rightarrow> int \<Rightarrow> (int \<times> mem) result" where
  "utf8Write m buf string offset len =
     map_sum id (\<lambda>src. blitBuffer src m buf offset len) (utf8ToBytes string (Some (int (blen buf) - offset)))"

definition asciiWrite :: "mem \<Rightarrow> buffer \<Rightarrow> jstr \<Rightarrow> int \<Rightarrow> int \<Rightarrow> (int \<times> mem) result" where
  "asciiWrite m buf string offset len = Inr (blitBuffer (asciiToBytes string) m buf offset len)"

definition latin1Write :: "mem \<Rightarrow> buffer \<Rightarrow> jstr \<Rightarrow> int \<Rightarrow> int \<Rightarrow> (int \<times> mem) result" where
  "latin1Write m buf string offset len = asciiWrite m buf string offset len"

definition base64Write :: "mem \<Rightarrow> buffer \<Rightarrow> jstr \<Rightarrow> int \<Rightarrow> int \<Rightarrow> (int \<times> mem) result" where
  "base64Write m buf string offset len =
     map_sum id (\<lambda>src. blitBuffer (map uint src) m buf offset len) (base64ToBytes string)"

definition ucs2Write :: "mem \<Rightarrow> buffer \<Rightarrow> jstr \<Rightarrow> int \<Rightarrow> int \<Rightarrow> (int \<times> mem) result" where
  "ucs2Write m buf string offset len =
     Inr (blitBuffer (utf16leToBytes string (int (blen buf) - offset)) m buf offset len)"

text \<open>
  An argument of \<open>write\<close> or \<open>fill\<close>: absent, a number, a string.  \<open>isFinite\<close> and the arithmetic
  operators convert a string first; the strings that denote a number here are the blank ones (0)
  and the decimal integers, a fraction or an exponent is outside the model.
\<close>

datatype arg = Undefined | Number int | String jstr

definition digit_value :: "code_unit \<Rightarrow> int" where
  "digit_value c = uint c - 48"

definition is_digit :: "code_unit \<Rightarrow> bool" where
  "is_digit c \<longleftrightarrow> 48 \<le> uint c \<and> uint c \<le> 57"

definition str_number :: "jstr \<Rightarrow> int option" where
  "str_number s0 =
     (let s = stringtrim s0;
          signed = (s \<noteq> [] \<and> (hd s = 43 \<or> hd s = 45));
          ds = (if signed then tl s else s);
          v = foldl (\<lambda>a c. a * 10 + digit_value c) 0 ds
      in if s = [] then Some 0
         else if ds \<noteq> [] \<and> list_all is_digit ds then Some (if hd s = 45 then - v else v)
         else None)"

fun arg_number :: "arg \<Rightarrow> int option" where
  "arg_number Undefined = None"
| "arg_number (Number n) = Some n"
| "arg_number (String s) = str_number s"

definition is_string :: "arg \<Rightarrow> bool" where
  "is_string a = (case a of String s \<Rightarrow> True | _ \<Rightarrow> False)"

text \<open>The three argument shapes: the offset, the length, and the encoding they select.\<close>

definition write_args :: "int \<Rightarrow> arg \<Rightarrow> arg \<Rightarrow> arg \<Rightarrow> (int \<times> int option \<times> arg) result" where
  "write_args this_length offset len encoding =
     (if offset = Undefined then Inr (0, Some this_length, String (js ''utf8''))
      else if len = Undefined \<and> is_string offset
        then Inr (0, Some this_length, offset)
      else case arg_number offset of
             Some off' \<Rightarrow>
               (case arg_number len of
                  Some len' \<Rightarrow> Inr (to_int32 off', Some (to_int32 len'),
                                  if encoding = Undefined then String (js ''utf8'') else encoding)
                | None \<Rightarrow> Inr (to_int32 off', None, len))
           | None \<Rightarrow> Inl (PlainError ''Buffer.write(string, encoding, offset[, length]) is no longer supported''))"

text \<open>The name the switch sees: a missing or empty one is utf8, a number is printed by \<open>"" + encoding\<close>.\<close>

definition arg_encoding :: "arg \<Rightarrow> encoding option" where
  "arg_encoding e =
     (case e of
        Undefined \<Rightarrow> Some Utf8
      | Number n \<Rightarrow> (if n = 0 then Some Utf8 else None)
      | String s \<Rightarrow> (if s = [] then Some Utf8 else encoding_switch s))"

definition buf_write :: "mem \<Rightarrow> buffer \<Rightarrow> jstr \<Rightarrow> arg \<Rightarrow> arg \<Rightarrow> arg \<Rightarrow> (int \<times> mem) result" where
  "buf_write m this string offset0 length0 encoding0 =
     (case write_args (int (blen this)) offset0 length0 encoding0 of
        Inl e \<Rightarrow> Inl e
      | Inr (offset, length1, encoding) \<Rightarrow>
          let remaining = int (blen this) - offset;
              len = (case length1 of None \<Rightarrow> remaining | Some l \<Rightarrow> if l > remaining then remaining else l)
          in if (length string > 0 \<and> (len < 0 \<or> offset < 0)) \<or> offset > int (blen this)
             then Inl (RangeError ''Attempt to write outside buffer bounds'')
             else case arg_encoding encoding of
                    Some Hex \<Rightarrow> hexWrite m this string offset len
                  | Some Utf8 \<Rightarrow> utf8Write m this string offset len
                  | Some Ascii \<Rightarrow> asciiWrite m this string offset len
                  | Some Latin1 \<Rightarrow> latin1Write m this string offset len
                  | Some Base64_enc \<Rightarrow> base64Write m this string offset len
                  | Some Ucs2 \<Rightarrow> ucs2Write m this string offset len
                  | None \<Rightarrow> Inl (TypeError ''Unknown encoding''))"

section \<open>Reading text\<close>

definition base64Slice :: "byte list \<Rightarrow> int \<Rightarrow> int \<Rightarrow> jstr" where
  "base64Slice buf start fin =
     (if start = 0 \<and> fin = int (length buf) then fromByteArray buf
      else fromByteArray (slice_list buf start (Some fin)))"

definition slice_text :: "encoding \<Rightarrow> byte list \<Rightarrow> int \<Rightarrow> int \<Rightarrow> jstr" where
  "slice_text e buf start fin =
     (case e of
        Hex \<Rightarrow> hexSlice buf start fin
      | Utf8 \<Rightarrow> utf8Slice buf start fin
      | Ascii \<Rightarrow> asciiSlice buf start fin
      | Latin1 \<Rightarrow> latin1Slice buf start fin
      | Base64_enc \<Rightarrow> base64Slice buf start fin
      | Ucs2 \<Rightarrow> utf16leSlice buf start fin)"

definition slowToString :: "byte list \<Rightarrow> jstr option \<Rightarrow> int option \<Rightarrow> int option \<Rightarrow> jstr result" where
  "slowToString this encoding start0 end0 =
     (let len = int (length this);
          start1 = (case start0 of None \<Rightarrow> 0 | Some s \<Rightarrow> if s < 0 then 0 else s)
      in if start1 > len then Inr []
         else let end1 = (case end0 of None \<Rightarrow> len | Some e \<Rightarrow> if e > len then len else e)
         in if end1 \<le> 0 then Inr []
         else let fin = js_shr end1 0; start = js_shr start1 0
         in if fin \<le> start then Inr []
         else case (case encoding of None \<Rightarrow> Some Utf8
                      | Some s \<Rightarrow> if s = [] then Some Utf8 else encoding_switch s) of
                Some e \<Rightarrow> Inr (slice_text e this start fin)
              | None \<Rightarrow> Inl (TypeError ''Unknown encoding''))"

text \<open>\<open>None\<close> stands for a call without arguments.\<close>

definition toString :: "byte list \<Rightarrow> (jstr option \<times> int option \<times> int option) option \<Rightarrow> jstr result" where
  "toString this arguments =
     (let len = to_int32 (int (length this)) in
      if len = 0 then Inr []
      else case arguments of
             None \<Rightarrow> Inr (utf8Slice this 0 len)
           | Some (encoding, start, fin) \<Rightarrow> slowToString this encoding start fin)"

definition INSPECT_MAX_BYTES :: int where
  "INSPECT_MAX_BYTES = 50"

text \<open>\<open>.match(/.{2}/g).join(" ")\<close>\<close>

fun pairs_joined :: "jstr \<Rightarrow> jstr" where
  "pairs_joined (a # b # c # d # cs) = a # b # 32 # pairs_joined (c # d # cs)"
| "pairs_joined (a # b # cs) = [a, b]"
| "pairs_joined cs = []"

definition inspect :: "byte list \<Rightarrow> jstr result" where
  "inspect this =
     (if length this > 0
      then map_sum id
             (\<lambda>h. js ''<Buffer '' @ pairs_joined h @
                  (if int (length this) > INSPECT_MAX_BYTES then js '' ... '' else []) @ js ''>'')
             (toString this (Some (Some (js ''hex''), Some 0, Some INSPECT_MAX_BYTES)))
      else Inr (js ''<Buffer >''))"

section \<open>A buffer from a string\<close>

text \<open>\<open>that.write(string, encoding)\<close>, and the slice when less was written than announced.\<close>

definition fromString :: "mem \<Rightarrow> jstr \<Rightarrow> jstr option \<Rightarrow> (buffer \<times> mem) result" where
  "fromString m string encoding0 =
     (let encoding = (case encoding0 of None \<Rightarrow> js ''utf8'' | Some e \<Rightarrow> if e = [] then js ''utf8'' else e)
      in if \<not> isEncoding encoding then Inl (TypeError ''encoding must be a valid string encoding'')
         else case byteLength string (Some encoding) of
                Inl e \<Rightarrow> Inl e
              | Inr len0 \<Rightarrow>
                  let len = to_int32 len0 in
                  (case createBuffer m len of
                     Inl e \<Rightarrow> Inl e
                   | Inr (that, m1) \<Rightarrow>
                       (case buf_write m1 that string (String encoding) Undefined Undefined of
                          Inl e \<Rightarrow> Inl e
                        | Inr (actual, m2) \<Rightarrow>
                            if actual \<noteq> len then Inr (slice m2 that 0 (Some actual))
                            else Inr (that, m2))))"

end
