(* ===== verification/Codec_Laws.thy ===== *)
theory Codec_Laws
  imports Buffer_Codec
begin

text \<open>
  What an encoding promises, as the locale \<open>text_codec\<close>, its interpretation for the six encodings
  of \<open>Buffer\<close>, and the round trips through \<open>fromString\<close> and \<open>toString\<close> that follow.
\<close>

section \<open>Runs of stores\<close>

abbreviation store_run :: "buffer \<Rightarrow> mem \<Rightarrow> int \<Rightarrow> int list \<Rightarrow> mem" where
  "store_run b \<equiv> put_run (\<lambda>m. buf_set m b)"

lemma blit_loop_run:
  assumes "0 \<le> i" "k = min (min len (int (blen dst) - offset)) (int (length src))"
  shows "blit_loop src m dst offset len i =
    (max i k, store_run dst m (i + offset) (take (nat (k - i)) (drop (nat i) src)))"
  using assms
proof (induction src m dst offset len i rule: blit_loop.induct)
  case (1 src m dst offset len i)
  show ?case
  proof (cases "i < k")
    case True
    then have go: "i < len" "\<not> (int (blen dst) \<le> i + offset \<or> int (length src) \<le> i)" and i: "nat i < length src"
      using "1.prems" by auto
    have d: "drop (nat i) src = src ! nat i # drop (Suc (nat i)) src" "nat (k - i) = Suc (nat (k - (i + 1)))"
      "nat (i + 1) = Suc (nat i)"
      using True "1.prems"(1) Cons_nth_drop_Suc [OF i] by auto
    have ih: "blit_loop src (buf_set m dst (i + offset) (src ! nat i)) dst offset len (i + 1) =
        (max (i + 1) k, store_run dst (buf_set m dst (i + offset) (src ! nat i)) (i + 1 + offset)
          (take (nat (k - (i + 1))) (drop (nat (i + 1)) src)))"
      by (rule "1.IH") (use go "1.prems" in auto)
    have e: "i + 1 + offset = i + offset + 1" "max (i + 1) k = max i k" using True by auto
    show ?thesis
      using go ih by (simp only: blit_loop.simps [of src m dst offset len i] d e if_True if_False take_Suc_Cons put_run.simps)
  next
    case False
    then show ?thesis
      using "1.prems" by (subst blit_loop.simps) auto
  qed
qed

lemma blitBuffer_all:
  assumes "blen dst = length src" "len = int (length src)"
  shows "blitBuffer src m dst 0 len = (int (length src), store_run dst m 0 src)"
  using assms blit_loop_run [of 0 "int (length src)" len dst 0 src m] by (simp add: blitBuffer_def)

abbreviation hex_text :: "byte list \<Rightarrow> jstr" where
  "hex_text bs \<equiv> concat (map (\<lambda>b. toHex (uint b)) bs)"

lemma length_toHex [simp]: "length (toHex n) = 2"
  by (simp add: toHex_def)

lemma length_hex_text [simp]: "length (hex_text bs) = 2 * length bs"
  by (induction bs) simp_all

lemma hex_text_pair: "i < length bs \<Longrightarrow> take 2 (drop (2 * i) (hex_text bs)) = toHex (uint (bs ! i))"
proof (induction bs arbitrary: i)
  case (Cons b bs)
  then show ?case by (cases i) simp_all
qed simp

lemma hexWrite_loop_run:
  assumes "0 \<le> i" "i \<le> int (length bs)"
  shows "hexWrite_loop m buf (hex_text bs) offset (int (length bs)) i =
    (int (length bs), store_run buf m (offset + i) (map uint (drop (nat i) bs)))"
  using assms
proof (induction m buf "hex_text bs" offset "int (length bs)" i rule: hexWrite_loop.induct)
  case (1 m buf offset i)
  show ?case
  proof (cases "i < int (length bs)")
    case True
    then have i: "nat i < length bs" using "1.prems" by simp
    then have p: "parseInt16 (take 2 (drop (nat (i * 2)) (hex_text bs))) = Some (uint (bs ! nat i))"
      using hex_text_pair [OF i] "1.prems"(1) by (simp add: nat_mult_distrib mult.commute parseInt16_toHex)
    have d: "drop (nat i) bs = bs ! nat i # drop (Suc (nat i)) bs" "nat (i + 1) = Suc (nat i)"
      using Cons_nth_drop_Suc [OF i] "1.prems"(1) by auto
    have e: "offset + (i + 1) = offset + i + 1" by simp
    show ?thesis
      using 1(1) [OF True p] True "1.prems"(1)
      by (simp add: hexWrite_loop.simps [of m buf _ offset _ i] p d e)
  next
    case False
    then show ?thesis using "1.prems" by (subst hexWrite_loop.simps) simp
  qed
qed

section \<open>The contract of an encoding\<close>

locale text_codec =
  fixes size_of :: "jstr \<Rightarrow> int result"
    and store :: "mem \<Rightarrow> buffer \<Rightarrow> jstr \<Rightarrow> int \<Rightarrow> int \<Rightarrow> (int \<times> mem) result"
    and text_of :: "byte list \<Rightarrow> int \<Rightarrow> int \<Rightarrow> jstr"
    and rep :: "jstr \<Rightarrow> byte list \<Rightarrow> bool"
  assumes rep_empty: "rep s bs \<Longrightarrow> s = [] \<longleftrightarrow> bs = []"
    and size_law: "rep s bs \<Longrightarrow> length bs \<le> 2147483647 \<Longrightarrow> s \<noteq> [] \<Longrightarrow> size_of s = Inr (int (length bs))"
    and store_law: "rep s bs \<Longrightarrow> blen b = length bs \<Longrightarrow>
        store m b s 0 (int (length bs)) = Inr (int (length bs), store_run b m 0 (map uint bs))"
    and text_law: "rep s bs \<Longrightarrow> length bs \<le> 2147483647 \<Longrightarrow> text_of bs 0 (int (length bs)) = s"
begin

lemma store_fresh:
  assumes "rep s bs" "length bs \<le> 2147483647" "new_array m (length bs) = (b, m1)"
  shows "\<exists>m2. store m1 b s 0 (int (length bs)) = Inr (int (length bs), m2) \<and> wf_buffer m2 b \<and>
    contents m2 b = bs \<and> blen b = length bs \<and>
    (\<forall>c. wf_buffer m c \<longrightarrow> wf_buffer m2 c \<and> contents m2 c = contents m c \<and> disjoint_views b c)"
proof -
  note new = new_array_wf [OF assms(3,2)]
  let ?m2 = "store_run b m1 0 (map uint bs)"
  have "contents ?m2 b = splice_at 0 (map word_of_int (map uint bs)) (contents m1 b)"
    using new view.put_run_bytes [of m1 b 0 "map uint bs"] by simp
  also have "\<dots> = bs" using new by (simp add: splice_at_def)
  finally have "contents ?m2 b = bs" .
  then show ?thesis
    using store_law [OF assms(1) new(3), of m1] new new_array_keeps [OF assms(3)]
    by (auto simp: buf_simps)
qed

lemma text_stored: "rep s bs \<Longrightarrow> length bs \<le> 2147483647 \<Longrightarrow> contents m b = bs \<Longrightarrow>
    text_of (contents m b) 0 (int (length (contents m b))) = s"
  by (simp add: text_law)

end

section \<open>The six encodings\<close>

text \<open>Which bytes stand for which text.\<close>

definition represents :: "encoding \<Rightarrow> jstr \<Rightarrow> byte list \<Rightarrow> bool" where
  "represents e s bs =
     (case e of
        Hex \<Rightarrow> s = hex_text bs
      | Utf8 \<Rightarrow> (\<exists>cps. (\<forall>cp \<in> set cps. is_scalar cp) \<and> s = utf16_string cps \<and>
                   bs = map word_of_int (utf8_bytes cps))
      | Ascii \<Rightarrow> s = map (\<lambda>b. word_of_int (uint b)) bs \<and> (\<forall>b \<in> set bs. uint b < 128)
      | Latin1 \<Rightarrow> s = map (\<lambda>b. word_of_int (uint b)) bs
      | Base64_enc \<Rightarrow> s = fromByteArray bs
      | Ucs2 \<Rightarrow> bs = concat (map (\<lambda>c. [word_of_int (uint c), word_of_int (uint c div 256)]) s))"

lemma represents_simps:
  "represents Hex s bs \<longleftrightarrow> s = hex_text bs"
  "represents Latin1 s bs \<longleftrightarrow> s = map (\<lambda>b. word_of_int (uint b)) bs"
  "represents Ascii s bs \<longleftrightarrow> s = map (\<lambda>b. word_of_int (uint b)) bs \<and> (\<forall>b \<in> set bs. uint b < 128)"
  "represents Base64_enc s bs \<longleftrightarrow> s = fromByteArray bs"
  "represents Ucs2 s bs \<longleftrightarrow> bs = concat (map (\<lambda>c. [word_of_int (uint c), word_of_int (uint c div 256)]) s)"
  by (simp_all add: represents_def)

text \<open>Lengths below the limit survive the conversion to 32 bits.\<close>

lemma toHex_ne [simp]: "toHex n \<noteq> []"
  using length_toHex [of n] by (metis list.size(3) zero_neq_numeral)

lemma hex_text_empty [simp]: "hex_text bs = [] \<longleftrightarrow> bs = []"
  by (cases bs) simp_all

lemma hexSlice_all: "hexSlice bs 0 (int (length bs)) = hex_text bs"
  using map_upto_nth [of toHex bs] by (simp add: hexSlice_def Let_def)

lemma hexWrite_all:
  assumes "blen b = length bs"
  shows "hexWrite m b (hex_text bs) 0 (int (length bs)) = Inr (int (length bs), store_run b m 0 (map uint bs))"
  using assms hexWrite_loop_run [of 0 bs m b 0] by (cases "bs = []") (simp_all add: hexWrite_def Let_def)

interpretation hex_codec: text_codec "\<lambda>s. byteLength s (Some (js ''hex''))" hexWrite hexSlice "represents Hex"
proof unfold_locales
  show "byteLength s (Some (js ''hex'')) = Inr (int (length bs))"
    if "represents Hex s bs" "length bs \<le> 2147483647" "s \<noteq> []" for s bs
    using that js_shr_small [of "2 * int (length bs)" 1]
    by (simp add: represents_simps byteLength_def encoding_switch_def encoding_case_def Let_def)
qed (auto simp: represents_simps hexSlice_all hexWrite_all)

lemma latin1_bytes: "asciiToBytes (map (\<lambda>b. word_of_int (uint b)) bs) = map uint (bs :: byte list)"
proof (induction bs)
  case (Cons b bs)
  have "uint (word_of_int (uint b) :: code_unit) = uint b"
    using uint_ge_0 [of b] uint_byte_bounds(1) [of b] by (intro uint_unit) linarith+
  with Cons show ?case by (simp add: asciiToBytes_def js_simps)
qed (simp add: asciiToBytes_def)

lemma encoding_names:
  "encoding_switch (js ''hex'') = Some Hex" "encoding_switch (js ''utf8'') = Some Utf8"
  "encoding_switch (js ''ascii'') = Some Ascii" "encoding_switch (js ''latin1'') = Some Latin1"
  "encoding_switch (js ''base64'') = Some Base64_enc" "encoding_switch (js ''ucs2'') = Some Ucs2"
  by (simp_all add: encoding_switch_def encoding_case_def js_def)

lemma asciiWrite_all:
  assumes "s = map (\<lambda>b. word_of_int (uint b)) (bs :: byte list)" "blen b = length bs"
  shows "asciiWrite m b s 0 (int (length bs)) = Inr (int (length bs), store_run b m 0 (map uint bs))"
  unfolding assms(1) asciiWrite_def latin1_bytes using assms(2) by (simp add: blitBuffer_all)

interpretation latin1_codec: text_codec "\<lambda>s. byteLength s (Some (js ''latin1''))" latin1Write latin1Slice "represents Latin1"
  by unfold_locales
    (auto simp: represents_simps latin1Slice_all latin1Write_def asciiWrite_all byteLength_def encoding_names Let_def)

interpretation ascii_codec: text_codec "\<lambda>s. byteLength s (Some (js ''ascii''))" asciiWrite asciiSlice "represents Ascii"
  by unfold_locales
    (auto simp: represents_simps asciiSlice_all asciiWrite_all byteLength_def encoding_names Let_def)

subsection \<open>UTF-16LE\<close>

lemma utf16le_sar: "js_sar (uint (c :: code_unit)) 8 = uint c div 256"
proof -
  have "- 2147483648 \<le> x \<Longrightarrow> x < 65536 \<Longrightarrow> js_sar x 8 = x div 256" for x
    by (simp add: js_sar_simps)
  then show ?thesis using order_trans [OF _ uint_ge_0 [of c], of "- 2147483648"] by simp
qed

lemma utf16leToBytes_eq:
  "utf16leToBytes s (2 * int (length s)) = map uint (concat (map (\<lambda>c. [word_of_int (uint c), word_of_int (uint c div 256)]) s) :: byte list)"
proof (induction s)
  case (Cons c s)
  have "uint (word_of_int x :: byte) = x mod 256" for x
    by (simp add: uint_word_of_int)
  moreover have "x < 65536 \<Longrightarrow> 0 \<le> x \<Longrightarrow> x div 256 mod 256 = x div 256" for x :: int by auto
  from this [OF uint_unit_bounds(1) uint_ge_0] have "uint c div 256 mod 256 = uint c div 256" .
  moreover have "uint (ucast c :: byte) = uint c mod 256" by (simp add: unsigned_ucast_eq take_bit_eq_mod)
  moreover have "2 * int (length (c # s)) - 2 = 2 * int (length s)" by simp
  ultimately show ?case using Cons by (simp add: utf16le_sar)
qed simp

lemma length_ucs2_bytes: "length (concat (map (\<lambda>c. [f c, g c]) s)) = 2 * length s"
  by (induction s) simp_all

interpretation ucs2_codec: text_codec "\<lambda>s. byteLength s (Some (js ''ucs2''))" ucs2Write utf16leSlice "represents Ucs2"
proof unfold_locales
  show "s = [] \<longleftrightarrow> bs = []" if "represents Ucs2 s bs" for s bs
    using that by (cases s) (simp_all add: represents_simps)
  show "byteLength s (Some (js ''ucs2'')) = Inr (int (length bs))" if "represents Ucs2 s bs" "s \<noteq> []" for s bs
    using that by (simp add: represents_simps byteLength_def encoding_names Let_def length_ucs2_bytes)
  show "ucs2Write m b s 0 (int (length bs)) = Inr (int (length bs), store_run b m 0 (map uint bs))"
    if "represents Ucs2 s bs" "blen b = length bs" for s bs b m
  proof -
    have "int (blen b) = 2 * int (length s)" using that by (simp add: represents_simps length_ucs2_bytes)
    moreover have "utf16leToBytes s (2 * int (length s)) = map uint bs"
      using that by (simp add: represents_simps utf16leToBytes_eq)
    ultimately show ?thesis using that(2) by (simp add: ucs2Write_def blitBuffer_all)
  qed
  show "utf16leSlice bs 0 (int (length bs)) = s" if "represents Ucs2 s bs" "length bs \<le> 2147483647" for s bs
    using utf16le_round [of s] that by (simp add: utf16leSlice_def slice_list_all represents_simps utf16leToBytes_eq)
qed

subsection \<open>UTF-8\<close>

lemma utf8_sequence_ne [simp]: "utf8_sequence cp \<noteq> []"
  by (simp add: utf8_sequence_def)

lemma utf16_ne [simp]: "utf16 cp \<noteq> []"
  by (simp add: utf16_def)

lemma fitting_all: "int (length (utf8_bytes cps)) \<le> k \<Longrightarrow> fitting (Some k) cps = cps"
  by (induction cps arbitrary: k) (simp_all add: room_sub_def room_neg_def Let_def)

lemma fitting_unbounded [simp]: "fitting None cps = cps"
  by (induction cps) (simp_all add: room_sub_def room_neg_def Let_def)

lemma utf8ToBytes_string:
  assumes "\<forall>cp \<in> set cps. is_scalar cp"
  shows "utf8ToBytes (utf16_string cps) None = Inr (utf8_bytes cps)"
    and "utf8ToBytes (utf16_string cps) (Some (int (length (utf8_bytes cps)))) = Inr (utf8_bytes cps)"
  using utf8_loop_string [OF assms] fitting_all [of cps "int (length (utf8_bytes cps))"]
  by (simp_all add: utf8ToBytes_def)

lemma uint_utf8_bytes:
  assumes "\<forall>cp \<in> set cps. is_scalar cp"
  shows "map uint (map word_of_int (utf8_bytes cps) :: byte list) = utf8_bytes cps"
proof -
  have "uint (word_of_int b :: byte) = b" if b: "b \<in> set (utf8_bytes cps)" for b
  proof -
    obtain cp where "cp \<in> set cps" "b \<in> set (utf8_sequence cp)" using b by auto
    then have "0 \<le> b \<and> b < 256" using assms utf8_sequence_bytes [of cp b] by (simp add: is_scalar_def)
    then show ?thesis by (simp add: uint_word_of_int)
  qed
  then show ?thesis unfolding map_map by (intro map_idI) simp
qed

interpretation utf8_codec: text_codec "\<lambda>s. byteLength s (Some (js ''utf8''))" utf8Write utf8Slice "represents Utf8"
proof unfold_locales
  show "s = [] \<longleftrightarrow> bs = []" if "represents Utf8 s bs" for s bs
    using that by (auto simp: represents_def concat_eq_Nil_conv)
  show "byteLength s (Some (js ''utf8'')) = Inr (int (length bs))" if "represents Utf8 s bs" "s \<noteq> []" for s bs
    using that by (auto simp: represents_def byteLength_def encoding_names Let_def utf8ToBytes_string)
  show "utf8Write m b s 0 (int (length bs)) = Inr (int (length bs), store_run b m 0 (map uint bs))"
    if r: "represents Utf8 s bs" and l: "blen b = length bs" for s bs b m
  proof -
    obtain cps where c: "\<forall>cp \<in> set cps. is_scalar cp" "s = utf16_string cps" "bs = map word_of_int (utf8_bytes cps)"
      using r unfolding represents_def encoding.case by blast
    have "utf8ToBytes s (Some (int (blen b))) = Inr (map uint bs)"
      unfolding l c(2,3) uint_utf8_bytes [OF c(1)] length_map by (rule utf8ToBytes_string(2) [OF c(1)])
    then show ?thesis using l by (simp add: utf8Write_def blitBuffer_all)
  qed
  show "utf8Slice bs 0 (int (length bs)) = s" if "represents Utf8 s bs" for s bs
    using that utf8_slice_loop_encoded [of _ _ "[]" "[]"]
    by (auto simp: represents_def utf8Slice_def decodeCodePointsArray_eq)
qed

subsection \<open>Base64\<close>

lemma b64_chars_plain:
  assumes "c \<in> set b64_chars"
  shows "base64_char c" "\<not> js_space c" "c \<noteq> 61"
proof -
  have "list_all (\<lambda>c. base64_char c \<and> \<not> js_space c \<and> c \<noteq> 61) b64_chars" by code_simp
  with assms show "base64_char c" "\<not> js_space c" "c \<noteq> 61" by (auto simp: list_all_iff)
qed

lemma base64_body:
  assumes "c \<in> set (map b64_lookup (sextets bs))"
  shows "base64_char c" "\<not> js_space c" "c \<noteq> 61"
proof -
  have "c \<in> set b64_chars" using assms b64_lookup_in sextets_range by auto
  then show "base64_char c" "\<not> js_space c" "c \<noteq> 61" by (rule b64_chars_plain)+
qed

lemma dropWhile_none: "(\<And>x. x \<in> set xs \<Longrightarrow> \<not> P x) \<Longrightarrow> dropWhile P xs = xs"
  by (cases xs) simp_all

lemma stringtrim_none: "(\<And>x. x \<in> set xs \<Longrightarrow> \<not> js_space x) \<Longrightarrow> stringtrim xs = xs"
  using dropWhile_none [of xs js_space] dropWhile_none [of "rev xs" js_space] by (simp add: stringtrim_def)

lemma length_sextets_pad: "(length (sextets xs) + pad_count (length xs)) mod 4 = 0"
proof (induction xs rule: sextets.induct)
  case (1 a b c xs)
  have "pad_count (length (a # b # c # xs)) = pad_count (length xs)" by (simp add: pad_count_def mod_3_Suc)
  moreover have "length (sextets (a # b # c # xs)) = 4 + length (sextets xs)" by (simp add: Let_def)
  ultimately show ?case using 1 by (simp only: add.assoc mod_add_self1)
qed (simp_all add: pad_count_def Let_def)

lemma base64clean_encoded: "base64clean (fromByteArray bs) = fromByteArray bs"
proof (cases "bs = []")
  case True
  then show ?thesis by (simp add: base64clean_def fromByteArray_sextets pad_count_def stringtrim_def)
next
  case False
  let ?s = "map b64_lookup (sextets bs)" and ?p = "replicate (pad_count (length bs)) (61 :: code_unit)"
  have e: "fromByteArray bs = ?s @ ?p" by (rule fromByteArray_sextets)
  have sp: "\<not> js_space 61" "\<not> base64_char 61" by (simp_all add: js_space_def base64_char_def)
  have "stringtrim (?s @ ?p) = ?s @ ?p"
    by (rule stringtrim_none) (use base64_body(2) sp(1) in auto)
  moreover have "filter base64_char (?s @ ?p) = ?s"
    using base64_body(1) sp(2) by (auto simp: filter_id_conv)
  moreover have "2 \<le> length (sextets bs)" using False by (cases bs rule: sextets.cases) (simp_all add: Let_def)
  moreover have "(4 - length (sextets bs) mod 4) mod 4 = pad_count (length bs)"
  proof -
    have "pad_count (length bs) < 4" by (simp add: pad_count_def)
    moreover have "(q + p) mod 4 = 0 \<Longrightarrow> q < 4 \<Longrightarrow> p < 4 \<Longrightarrow> (4 - q) mod 4 = p" for q p :: nat
    proof -
      assume "(q + p) mod 4 = 0" "q < 4" "p < 4"
      moreover from this have "q = 0 \<or> q = 1 \<or> q = 2 \<or> q = 3" "p = 0 \<or> p = 1 \<or> p = 2 \<or> p = 3" by linarith+
      ultimately show ?thesis by (elim disjE) simp_all
    qed
    from this [of "length (sextets bs) mod 4"] have "pad_count (length bs) < 4 \<Longrightarrow> ?thesis"
      using length_sextets_pad [of bs] by (simp add: mod_add_left_eq)
    ultimately show ?thesis by blast
  qed
  ultimately show ?thesis by (simp add: e base64clean_def Let_def)
qed

lemma base64ToBytes_encoded: "base64ToBytes (fromByteArray bs) = Inr bs"
  by (simp add: base64ToBytes_def base64clean_encoded toByteArray_fromByteArray)

interpretation base64_codec: text_codec "\<lambda>s. byteLength s (Some (js ''base64''))" base64Write base64Slice "represents Base64_enc"
proof unfold_locales
  show "s = [] \<longleftrightarrow> bs = []" if "represents Base64_enc s bs" for s bs
    using that by (cases bs rule: sextets.cases) (simp_all add: represents_simps fromByteArray_sextets pad_count_def Let_def)
  show "base64Write m b s 0 (int (length bs)) = Inr (int (length bs), store_run b m 0 (map uint bs))"
    if "represents Base64_enc s bs" "blen b = length bs" for s bs b m
    using that blitBuffer_all [of b "map uint bs"] by (simp add: represents_simps base64Write_def base64ToBytes_encoded)
qed (auto simp: represents_simps byteLength_def encoding_names Let_def base64ToBytes_encoded base64Slice_def)

section \<open>Round trips\<close>

lemma lower_known:
  assumes "encoding_case e = Some c"
  shows "toLowerCase e = e"
proof -
  have "list_all (\<lambda>n. toLowerCase (js n) = js n) [''hex'', ''utf8'', ''utf-8'', ''ascii'', ''latin1'',
      ''binary'', ''base64'', ''ucs2'', ''ucs-2'', ''utf16le'', ''utf-16le'']" by code_simp
  with assms show ?thesis by (auto simp: encoding_case_def split: if_splits)
qed

lemma isEncoding_case: "isEncoding e \<longleftrightarrow> encoding_case (toLowerCase e) \<noteq> None"
  by (auto simp: isEncoding_def encoding_case_def)

lemma isEncoding_switch: "isEncoding e \<longleftrightarrow> encoding_switch e \<noteq> None"
  using lower_known [of e] by (auto simp: isEncoding_case encoding_switch_def split: option.splits)

text \<open>The size, the store and the text of an encoding, chosen by its name.\<close>

definition store_text :: "encoding \<Rightarrow> mem \<Rightarrow> buffer \<Rightarrow> jstr \<Rightarrow> int \<Rightarrow> int \<Rightarrow> (int \<times> mem) result" where
  "store_text e =
     (case e of Hex \<Rightarrow> hexWrite | Utf8 \<Rightarrow> utf8Write | Ascii \<Rightarrow> asciiWrite | Latin1 \<Rightarrow> latin1Write
      | Base64_enc \<Rightarrow> base64Write | Ucs2 \<Rightarrow> ucs2Write)"

definition size_text :: "encoding \<Rightarrow> jstr \<Rightarrow> int result" where
  "size_text e s = byteLength s (Some (js (case e of Hex \<Rightarrow> ''hex'' | Utf8 \<Rightarrow> ''utf8'' | Ascii \<Rightarrow> ''ascii''
      | Latin1 \<Rightarrow> ''latin1'' | Base64_enc \<Rightarrow> ''base64'' | Ucs2 \<Rightarrow> ''ucs2'')))"

lemma byteLength_name: "encoding_switch name = Some e \<Longrightarrow> byteLength s (Some name) = size_text e s"
  by (cases e) (simp_all add: size_text_def byteLength_def encoding_names Let_def)

lemma buf_write_name:
  assumes "encoding_switch name = Some e" "name \<noteq> []"
  shows "buf_write m b s (String name) Undefined Undefined = store_text e m b s 0 (int (blen b))"
  using assms
  by (cases e) (simp_all add: buf_write_def write_args_def is_string_def arg_encoding_def store_text_def)

interpretation codec: text_codec "size_text e" "store_text e" "slice_text e" "represents e" for e
proof (cases e)
qed (simp_all add: size_text_def [abs_def] store_text_def slice_text_def [abs_def]
  hex_codec.text_codec_axioms utf8_codec.text_codec_axioms ascii_codec.text_codec_axioms
  latin1_codec.text_codec_axioms base64_codec.text_codec_axioms ucs2_codec.text_codec_axioms)

lemma toString_all:
  assumes "encoding_switch name = Some e" "name \<noteq> []" "bs \<noteq> []" "length bs \<le> 2147483647"
  shows "toString bs (Some (Some name, None, None)) = Inr (slice_text e bs 0 (int (length bs)))"
proof -
  have "js_shr (int (length bs)) 0 = int (length bs)" "js_shr 0 0 = 0"
    using assms(4) js_shr_small [of "int (length bs)" 0] js_shr_small [of 0 0] by simp_all
  then show ?thesis
    using assms by (simp add: toString_def slowToString_def to_int32_id_nonneg Let_def)
qed

lemma fromString_round:
  assumes "represents e s bs" "length bs \<le> 2147483647" "encoding_switch name = Some e" "name \<noteq> []"
  shows "\<exists>b m'. fromString m s (Some name) = Inr (b, m') \<and> wf_buffer m' b \<and> contents m' b = bs \<and>
    (\<forall>c. wf_buffer m c \<longrightarrow> wf_buffer m' c \<and> contents m' c = contents m c \<and> disjoint_views b c) \<and>
    toString (contents m' b) (Some (Some name, None, None)) = Inr s"
proof -
  obtain b m1 where new: "new_array m (length bs) = (b, m1)" by fastforce
  obtain m2 where w: "store_text e m1 b s 0 (int (length bs)) = Inr (int (length bs), m2)"
    and m2: "wf_buffer m2 b" "contents m2 b = bs" "blen b = length bs"
      "\<forall>c. wf_buffer m c \<longrightarrow> wf_buffer m2 c \<and> contents m2 c = contents m c \<and> disjoint_views b c"
    using codec.store_fresh [OF assms(1,2) new] by blast
  have len: "byteLength s (Some name) = Inr (int (length bs))"
    using codec.size_law [OF assms(1,2)] codec.rep_empty [OF assms(1)]
    by (cases "s = []") (simp_all add: byteLength_name [OF assms(3)], simp add: size_text_def byteLength_def)
  have i32: "to_int32 (int (length bs)) = int (length bs)" using assms(2) by (simp add: to_int32_id_nonneg)
  have cr: "createBuffer m (int (length bs)) = Inr (b, m1)"
    using assms(2) new by (simp add: createBuffer_def kMaxLength_def)
  have wr: "buf_write m1 b s (String name) Undefined Undefined = Inr (int (length bs), m2)"
    using buf_write_name [OF assms(3,4), of m1 b s] w m2(3) by simp
  have "fromString m s (Some name) = Inr (b, m2)"
    using assms(3,4) by (simp add: fromString_def isEncoding_switch len i32 cr wr)
  moreover have "toString (contents m2 b) (Some (Some name, None, None)) = Inr s"
    using toString_all [OF assms(3,4) _ assms(2)] codec.text_law [OF assms(1,2)] codec.rep_empty [OF assms(1)] m2(2)
    by (cases "bs = []") (simp_all add: toString_def to_int32_def)
  ultimately show ?thesis using m2 by blast
qed

text \<open>C8: For every encoding: a string that represents some bytes becomes a new buffer with exactly
  these bytes, every existing buffer keeps its contents, and \<open>toString\<close> with the same encoding
  gives the string back.\<close>

theorem fromString_toString:
  assumes "represents e s bs" "length bs \<le> 2147483647" "encoding_switch name = Some e" "name \<noteq> []"
  shows "\<exists>b m'. fromString m s (Some name) = Inr (b, m') \<and> wf_buffer m' b \<and> contents m' b = bs \<and>
    (\<forall>c. wf_buffer m c \<longrightarrow> wf_buffer m' c \<and> contents m' c = contents m c \<and> disjoint_views b c) \<and>
    toString (contents m' b) (Some (Some name, None, None)) = Inr s"
  by (rule fromString_round [OF assms])

theorem fromString_toString_witness:
  "\<exists>b m'. fromString \<lparr>arrays = [], next_id = 0\<rparr> [8364, 55357, 56832] (Some (js ''UTF-8'')) = Inr (b, m') \<and>
    contents m' b = [226, 130, 172, 240, 159, 152, 128] \<and>
    toString (contents m' b) (Some (Some (js ''UTF-8''), None, None)) = Inr [8364, 55357, 56832]"
proof -
  have "represents Utf8 [8364, 55357, 56832] [226, 130, 172, 240, 159, 152, 128]"
    unfolding represents_def encoding.case by (rule exI [of _ "[8364, 128512]"]) code_simp
  moreover have "encoding_switch (js ''UTF-8'') = Some Utf8" "js ''UTF-8'' \<noteq> []" by code_simp+
  ultimately show ?thesis
    using fromString_toString [of Utf8 "[8364, 55357, 56832]" "[226, 130, 172, 240, 159, 152, 128]" "js ''UTF-8''"
      "\<lparr>arrays = [], next_id = 0\<rparr>"] by auto
qed

section \<open>UTF-8 on arbitrary input\<close>

text \<open>C32: Whatever the bytes, the UTF-8 decoder ends and its output is well-formed UTF-16: a list of
  scalar values, never a lone surrogate.\<close>

theorem utf8Slice_well_formed:
  "\<exists>cps. (\<forall>cp \<in> set cps. is_scalar cp) \<and> utf8Slice buf start fin = utf16_string cps"
  unfolding utf8Slice_def decodeCodePointsArray_eq using utf8_slice_loop_utf16 by metis

theorem utf8Slice_well_formed_witness:
  "(\<exists>cps. (\<forall>cp \<in> set cps. is_scalar cp) \<and> utf8Slice [237, 160, 128, 240, 159] 0 5 = utf16_string cps) \<and>
    utf8Slice [237, 160, 128, 240, 159] 0 5 = [65533, 65533, 65533, 65533, 65533]"
  using utf8Slice_well_formed [of "[237, 160, 128, 240, 159]" 0 5]
  by (rule conjI) code_simp

lemma fitting_longest:
  "\<exists>rest. cps = fitting (Some k) cps @ rest \<and> (0 \<le> k \<longrightarrow> int (length (utf8_bytes (fitting (Some k) cps))) \<le> k) \<and>
    (rest \<noteq> [] \<longrightarrow> k < int (length (utf8_bytes (fitting (Some k) cps))) + int (length (utf8_sequence (hd rest))))"
proof (induction cps arbitrary: k)
  case (Cons cp cps)
  show ?case
  proof (cases "k < int (length (utf8_sequence cp))")
    case True
    then show ?thesis by (simp add: room_sub_def room_neg_def Let_def)
  next
    case False
    from Cons [of "k - int (length (utf8_sequence cp))"] False show ?thesis
      by (auto simp: room_sub_def room_neg_def Let_def)
  qed
qed simp

text \<open>C33: \<open>write\<close> in UTF-8 at an offset, without a length, stores the longest prefix of the characters that fits in the
  rest of the buffer, whole characters only; it reports the number of bytes stored and leaves
  every other byte alone.  With a length it stores and reports at most so many of the same bytes, and may cut a
  character: the length is not a limit for the conversion.\<close>

theorem utf8_write_truncates:
  assumes "wf_buffer m b" "\<forall>cp \<in> set cps. is_scalar cp" "pos < blen b"
  shows "\<exists>pre rest. cps = pre @ rest \<and>
    (\<exists>m'. buf_write m b (utf16_string cps) (Number (int pos)) Undefined Undefined =
        Inr (int (length (utf8_bytes pre)), m') \<and>
      contents m' b = splice_at pos (map word_of_int (utf8_bytes pre)) (contents m b)) \<and>
    pos + length (utf8_bytes pre) \<le> blen b \<and>
    (rest \<noteq> [] \<longrightarrow> blen b < pos + length (utf8_bytes pre) + length (utf8_sequence (hd rest))) \<and>
    (\<forall>l \<le> 2147483647. \<exists>m'. buf_write m b (utf16_string cps) (Number (int pos)) (Number (int l)) Undefined =
        Inr (int (min l (length (utf8_bytes pre))), m') \<and>
      contents m' b = splice_at pos (take l (map word_of_int (utf8_bytes pre))) (contents m b))"
proof -
  let ?k = "int (blen b) - int pos"
  define pre where "pre = fitting (Some ?k) cps"
  obtain rest where rest: "cps = pre @ rest" "int (length (utf8_bytes pre)) \<le> ?k"
    "rest \<noteq> [] \<longrightarrow> ?k < int (length (utf8_bytes pre)) + int (length (utf8_sequence (hd rest)))"
    using fitting_longest [of cps ?k] assms(3) unfolding pre_def by auto
  let ?st = "\<lambda>n. store_run b m (int pos) (take n (utf8_bytes pre))"
  have i32: "to_int32 (int pos) = int pos" using assms(1,3) by (simp add: to_int32_id_nonneg wf_buffer_def)
  have u: "utf8ToBytes (utf16_string cps) (Some ?k) = Inr (utf8_bytes pre)"
    using utf8_loop_string [OF assms(2)] assms(3) by (simp add: utf8ToBytes_def pre_def)
  have bl: "blitBuffer (utf8_bytes pre) m b (int pos) (min (int l) ?k) =
      (int (min l (length (utf8_bytes pre))), ?st l)" for l
  proof -
    have "min (min (min (int l) ?k) ?k) (int (length (utf8_bytes pre))) = int (min l (length (utf8_bytes pre)))" using rest(2) by simp
    moreover have "take (min l (length xs)) xs = take l xs" for xs :: "int list" by (simp add: min_def)
    ultimately show ?thesis
      using blit_loop_run [OF _ refl, of 0 "utf8_bytes pre" m b "int pos" "min (int l) ?k"] by (simp add: blitBuffer_def)
  qed
  have bk: "blitBuffer (utf8_bytes pre) m b (int pos) ?k = (int (length (utf8_bytes pre)), ?st (length (utf8_bytes pre)))"
    using bl [of "blen b"] rest(2) by simp
  have st: "contents (?st n) b = splice_at pos (take n (map word_of_int (utf8_bytes pre))) (contents m b)" for n
    using view.put_run_bytes [of m b "int pos" "take n (utf8_bytes pre)"] assms(1) rest(2) by (simp add: take_map)
  have "buf_write m b (utf16_string cps) (Number (int pos)) Undefined Undefined =
      Inr (int (length (utf8_bytes pre)), ?st (length (utf8_bytes pre)))"
    unfolding buf_write_def write_args_def using assms(3) i32
    by (simp add: is_string_def arg_encoding_def utf8Write_def u bk)
  moreover have "contents (?st (length (utf8_bytes pre))) b = splice_at pos (map word_of_int (utf8_bytes pre)) (contents m b)"
    using st [of "length (utf8_bytes pre)"] by simp
  moreover have "buf_write m b (utf16_string cps) (Number (int pos)) (Number (int l)) Undefined =
      Inr (int (min l (length (utf8_bytes pre))), ?st l)" if "l \<le> 2147483647" for l
  proof -
    have "to_int32 (int l) = int l" using that by (simp add: to_int32_id_nonneg)
    moreover have "(if ?k < int l then ?k else int l) = min (int l) ?k" by simp
    moreover have "\<not> min (int l) ?k < 0" using assms(3) by simp
    moreover have "arg_encoding (String (js ''utf8'')) = Some Utf8" by code_simp
    ultimately show ?thesis
      unfolding buf_write_def write_args_def using assms(3) i32 bl [of l]
      by (simp add: is_string_def utf8Write_def u Let_def)
  qed
  moreover have "pos + length (utf8_bytes pre) \<le> blen b" using rest(2) by linarith
  moreover have "rest \<noteq> [] \<longrightarrow> blen b < pos + length (utf8_bytes pre) + length (utf8_sequence (hd rest))"
    using rest(3) assms(3) by auto
  ultimately show ?thesis using rest(1) st by blast
qed

theorem utf8_write_truncates_witness:
  "\<exists>pre rest. [97, 8364, 98] = pre @ rest \<and>
    (\<exists>m'. buf_write \<lparr>arrays = [[1, 2, 3, 4]], next_id = 1\<rparr> \<lparr>bid = 0, arr = 0, off = 0, blen = 4\<rparr>
      (utf16_string [97, 8364, 98]) (Number 1) Undefined Undefined = Inr (int (length (utf8_bytes pre)), m')) \<and>
    1 + length (utf8_bytes pre) \<le> 4 \<and> (rest \<noteq> [] \<longrightarrow> 4 < 1 + length (utf8_bytes pre) + length (utf8_sequence (hd rest)))"
proof -
  have "wf_buffer \<lparr>arrays = [[1, 2, 3, 4]], next_id = 1\<rparr> \<lparr>bid = 0, arr = 0, off = 0, blen = 4\<rparr>"
    "\<forall>cp \<in> set [97, 8364, 98]. is_scalar cp" by (simp_all add: wf_buffer_def is_scalar_def)
  from utf8_write_truncates [OF this, of 1, unfolded of_nat_1 buffer.select_convs] show ?thesis
    by (simp only: one_less_numeral_iff semiring_norm if_True True_implies_equals) blast
qed

text \<open>A lone lead surrogate at the end of a string is replaced by U+FFFD, but not when another lone
  lead surrogate stands before it: then the last one leaves no bytes at all.\<close>

theorem utf8_last_surrogate_lost:
  assumes "55296 \<le> uint a" "uint a \<le> 56319" "55296 \<le> uint b" "uint b \<le> 56319"
  shows "utf8ToBytes [b] None = Inr [239, 191, 189] \<and> utf8ToBytes [a, b] None = Inr [239, 191, 189]"
  using assms by (simp_all add: utf8ToBytes_def replacement_def room_sub_def room_neg_def Let_def)

theorem utf8_last_surrogate_lost_witness:
  "utf8ToBytes [55297] None = Inr [239, 191, 189] \<and> utf8ToBytes [55296, 55297] None = Inr [239, 191, 189]"
  using utf8_last_surrogate_lost [of 55296 55297] by simp

end
