(* ===== verification/Buffer_Ops.thy ===== *)
theory Buffer_Ops
  imports Codec_Laws Buffer_Read_Int
begin

text \<open>
  The operations of \<open>Buffer\<close> on whole buffers (module 379 of \<open>swagger-ui.js\<close>): the constructors,
  \<open>concat\<close>, \<open>compare\<close> and \<open>equals\<close>, the byte swaps, \<open>copy\<close>, \<open>fill\<close>, and the searches.
\<close>

section \<open>Copying\<close>

text \<open>The two loops of \<open>copy\<close>, and the typed-array \<open>set\<close>, which reads the source first.\<close>

function copy_up :: "mem \<Rightarrow> buffer \<Rightarrow> buffer \<Rightarrow> int \<Rightarrow> int \<Rightarrow> int \<Rightarrow> int \<Rightarrow> mem" where
  "copy_up m this target targetStart start len i =
     (if i < len
      then copy_up (buf_set m target (i + targetStart) (num_int (buf_get m this (i + start))))
             this target targetStart start len (i + 1)
      else m)"
  by pat_completeness auto
termination
  by (relation "measure (\<lambda>(m, this, target, targetStart, start, len, i). nat (len - i))") auto

function copy_down :: "mem \<Rightarrow> buffer \<Rightarrow> buffer \<Rightarrow> int \<Rightarrow> int \<Rightarrow> int \<Rightarrow> mem" where
  "copy_down m this target targetStart start i =
     (if i \<ge> 0
      then copy_down (buf_set m target (i + targetStart) (num_int (buf_get m this (i + start))))
             this target targetStart start (i - 1)
      else m)"
  by pat_completeness auto
termination
  by (relation "measure (\<lambda>(m, this, target, targetStart, start, i). nat (i + 1))") auto

declare copy_up.simps [simp del] copy_down.simps [simp del]

definition typed_set :: "mem \<Rightarrow> buffer \<Rightarrow> byte list \<Rightarrow> int \<Rightarrow> mem" where
  "typed_set m target source pos = store_run target m pos (map uint source)"

text \<open>
  The range after the defaults and the checks: target start, source start and end; \<open>None\<close> where
  the source returns 0 at once.
\<close>

definition copy_range ::
  "int \<Rightarrow> int \<Rightarrow> int option \<Rightarrow> int option \<Rightarrow> int option \<Rightarrow> (int \<times> int \<times> int) option result" where
  "copy_range this_length target_length targetStart0 start0 end0 =
     (let start = (case start0 of None \<Rightarrow> 0 | Some s \<Rightarrow> s);
          fin = (case end0 of None \<Rightarrow> this_length | Some e \<Rightarrow> e);
          targetStart = (case targetStart0 of None \<Rightarrow> 0 | Some t \<Rightarrow> if t \<ge> target_length then target_length else t);
          fin = (if fin > 0 \<and> fin < start then start else fin)
      in if fin = start then Inr None
         else if target_length = 0 \<or> this_length = 0 then Inr None
         else if targetStart < 0 then Inl (RangeError ''targetStart out of bounds'')
         else if start < 0 \<or> start \<ge> this_length then Inl (RangeError ''sourceStart out of bounds'')
         else if fin < 0 then Inl (RangeError ''sourceEnd out of bounds'')
         else let fin = (if fin > this_length then this_length else fin);
                  fin = (if target_length - targetStart < fin - start
                         then target_length - targetStart + start else fin)
              in Inr (Some (targetStart, start, fin)))"

text \<open>The choice between the two loops and the typed-array \<open>set\<close>.\<close>

definition copy_bytes :: "mem \<Rightarrow> buffer \<Rightarrow> buffer \<Rightarrow> int \<Rightarrow> int \<Rightarrow> int \<Rightarrow> mem" where
  "copy_bytes m this target targetStart start fin =
     (let len = fin - start in
      if bid this = bid target \<and> start < targetStart \<and> targetStart < fin
      then copy_down m this target targetStart start (len - 1)
      else if len < 1000 then copy_up m this target targetStart start len 0
      else typed_set m target (take (nat len) (drop (nat start) (contents m this))) targetStart)"

definition copy :: "mem \<Rightarrow> buffer \<Rightarrow> buffer \<Rightarrow> int option \<Rightarrow> int option \<Rightarrow> int option \<Rightarrow> (int \<times> mem) result" where
  "copy m this target targetStart0 start0 end0 =
     (case copy_range (int (blen this)) (int (blen target)) targetStart0 start0 end0 of
        Inl e \<Rightarrow> Inl e
      | Inr None \<Rightarrow> Inr (0, m)
      | Inr (Some (targetStart, start, fin)) \<Rightarrow>
          Inr (fin - start, copy_bytes m this target targetStart start fin))"

section \<open>Constructors\<close>

text \<open>
  The values a constructor or \<open>fill\<close> accepts: numbers, strings, buffers, an \<open>ArrayBuffer\<close> (its
  address), an object with a numeric length and elements, one with a length that is not a number,
  the JSON form of a buffer, and any other object or nothing.
\<close>

datatype jsval =
    VNum int
  | VStr jstr
  | VBuf buffer
  | VArrayBuffer nat
  | VArrayLike int "jsnum list"
  | VBadLength
  | VJson "jsnum list"
  | VObj
  | VNone

definition assertSize :: "jsval \<Rightarrow> int result" where
  "assertSize v =
     (case v of
        VNum n \<Rightarrow> if n < 0 then Inl (RangeError ''size argument must not be negative'') else Inr n
      | _ \<Rightarrow> Inl (TypeError ''size argument must be a number''))"

definition checked :: "int \<Rightarrow> int result" where
  "checked len =
     (if len \<ge> kMaxLength then Inl (RangeError ''Attempt to allocate Buffer larger than maximum size: 0x7fffffff bytes'')
      else Inr (to_int32 len))"

definition allocUnsafe :: "mem \<Rightarrow> jsval \<Rightarrow> (buffer \<times> mem) result" where
  "allocUnsafe m v =
     (case assertSize v of
        Inl e \<Rightarrow> Inl e
      | Inr n \<Rightarrow> if n < 0 then createBuffer m 0
                 else (case checked n of Inl e \<Rightarrow> Inl e | Inr l \<Rightarrow> createBuffer m (to_int32 l)))"

text \<open>Writing \<open>array[i] & 255\<close> for each index; a missing element is \<open>undefined\<close>, so 0.\<close>

definition array_elem :: "jsnum list \<Rightarrow> nat \<Rightarrow> int" where
  "array_elem xs i = (if i < length xs then num_int (xs ! i) else 0)"

definition fromArrayLike :: "mem \<Rightarrow> int \<Rightarrow> jsnum list \<Rightarrow> (buffer \<times> mem) result" where
  "fromArrayLike m array_length xs =
     (case (if array_length < 0 then Inr 0 else checked array_length) of
        Inl e \<Rightarrow> Inl e
      | Inr l \<Rightarrow>
          let len = to_int32 l in
          (case createBuffer m len of
             Inl e \<Rightarrow> Inl e
           | Inr (that, m1) \<Rightarrow>
               Inr (that, store_run that m1 0 (map (\<lambda>i. js_and (array_elem xs i) 255) [0..<nat len]))))"

text \<open>A view of an existing \<open>ArrayBuffer\<close>.  The typed-array constructor refuses a range beyond it.\<close>

definition fromArrayBuffer :: "mem \<Rightarrow> nat \<Rightarrow> int option \<Rightarrow> int option \<Rightarrow> (buffer \<times> mem) result" where
  "fromArrayBuffer m a byteOffset len =
     (let size = int (length (arrays m ! a)) in
      if (case byteOffset of None \<Rightarrow> False | Some p \<Rightarrow> p < 0 \<or> size < p)
      then Inl (RangeError ''offset is out of bounds'')
      else if (case byteOffset of None \<Rightarrow> False | Some p \<Rightarrow> size < p + (case len of None \<Rightarrow> 0 | Some l \<Rightarrow> l))
      then Inl (RangeError ''length is out of bounds'')
      else let p = (case byteOffset of None \<Rightarrow> 0 | Some p \<Rightarrow> p);
               l = (case len of None \<Rightarrow> size - p | Some l \<Rightarrow> l)
           in if l < 0 \<or> p + l > size then Inl (RangeError ''Invalid typed array length'')
              else Inr (\<lparr>bid = next_id m, arr = a, off = nat p, blen = nat l\<rparr>, m\<lparr>next_id := Suc (next_id m)\<rparr>))"

definition fromObject :: "mem \<Rightarrow> jsval \<Rightarrow> (buffer \<times> mem) result" where
  "fromObject m obj =
     (case obj of
        VBuf b \<Rightarrow>
          (case checked (int (blen b)) of
             Inl e \<Rightarrow> Inl e
           | Inr l \<Rightarrow>
               (case createBuffer m (to_int32 l) of
                  Inl e \<Rightarrow> Inl e
                | Inr (that, m1) \<Rightarrow>
                    if blen that = 0 then Inr (that, m1)
                    else map_sum id (\<lambda>(n, m2). (that, m2)) (copy m1 b that (Some 0) (Some 0) (Some (to_int32 l)))))
      | VArrayLike n xs \<Rightarrow> fromArrayLike m n xs
      | VBadLength \<Rightarrow> createBuffer m 0
      | VJson xs \<Rightarrow> fromArrayLike m (int (length xs)) xs
      | _ \<Rightarrow> Inl (TypeError ''First argument must be a string, Buffer, ArrayBuffer, Array, or array-like object.''))"

definition val_number :: "jsval \<Rightarrow> int option" where
  "val_number v = (case v of VNum n \<Rightarrow> Some n | _ \<Rightarrow> None)"

definition val_string :: "jsval \<Rightarrow> jstr option" where
  "val_string v = (case v of VStr s \<Rightarrow> Some s | _ \<Rightarrow> None)"

text \<open>\<open>encodingOrOffset\<close> is read as an offset by one branch and as an encoding by the other.\<close>

definition buffer_from :: "mem \<Rightarrow> jsval \<Rightarrow> jsval \<Rightarrow> jsval \<Rightarrow> (buffer \<times> mem) result" where
  "buffer_from m v encodingOrOffset len =
     (case v of
        VNum n \<Rightarrow> Inl (TypeError ''value argument must not be a number'')
      | VArrayBuffer a \<Rightarrow> fromArrayBuffer m a (val_number encodingOrOffset) (val_number len)
      | VStr s \<Rightarrow> fromString m s (val_string encodingOrOffset)
      | _ \<Rightarrow> fromObject m v)"

definition Buffer :: "mem \<Rightarrow> jsval \<Rightarrow> jsval \<Rightarrow> jsval \<Rightarrow> (buffer \<times> mem) result" where
  "Buffer m arg encodingOrOffset len =
     (case arg of
        VNum n \<Rightarrow>
          (case encodingOrOffset of
             VStr e \<Rightarrow> Inl (PlainError ''If encoding is specified then the first argument must be a string'')
           | _ \<Rightarrow> allocUnsafe m arg)
      | _ \<Rightarrow> buffer_from m arg encodingOrOffset len)"

section \<open>Filling\<close>

definition arg_val :: "arg \<Rightarrow> jsval" where
  "arg_val a = (case a of Undefined \<Rightarrow> VNone | Number n \<Rightarrow> VNum n | String s \<Rightarrow> VStr s)"

text \<open>The arguments after the shuffling for a string value: value, start, end, encoding.\<close>

definition fill_args :: "int \<Rightarrow> jsval \<Rightarrow> arg \<Rightarrow> arg \<Rightarrow> arg \<Rightarrow> (jsval \<times> arg \<times> arg \<times> arg) result" where
  "fill_args this_length val start fin encoding =
     (case val of
        VStr s \<Rightarrow>
          (let (start, fin, encoding) =
                 (if is_string start then (Number 0, Number this_length, start)
                  else if is_string fin then (start, Number this_length, fin)
                  else (start, fin, encoding));
               val = (if length s = 1 \<and> uint (hd s) < 256 then VNum (uint (hd s)) else val)
           in case encoding of
                Number n \<Rightarrow> Inl (TypeError ''encoding must be a string'')
              | String e \<Rightarrow> if isEncoding e then Inr (val, start, fin, encoding)
                            else Inl (TypeError ''Unknown encoding'')
              | Undefined \<Rightarrow> Inr (val, start, fin, encoding))
      | VNum n \<Rightarrow> Inr (VNum (js_and n 255), start, fin, encoding)
      | _ \<Rightarrow> Inr (val, start, fin, encoding))"

text \<open>A comparison with an operand that is not a number is false.\<close>

definition arg_less :: "int option \<Rightarrow> int option \<Rightarrow> bool" where
  "arg_less x y = (case (x, y) of (Some a, Some b) \<Rightarrow> a < b | _ \<Rightarrow> False)"

definition arg_le :: "int option \<Rightarrow> int option \<Rightarrow> bool" where
  "arg_le x y = (case (x, y) of (Some a, Some b) \<Rightarrow> a \<le> b | _ \<Rightarrow> False)"

definition arg_shr0 :: "int option \<Rightarrow> int" where
  "arg_shr0 x = js_shr (case x of None \<Rightarrow> 0 | Some n \<Rightarrow> n) 0"

text \<open>\<open>this[i + start] = bytes[i % len]\<close>, reading \<open>bytes\<close> through the memory when it is a buffer.\<close>

function fill_loop :: "mem \<Rightarrow> buffer \<Rightarrow> (mem \<Rightarrow> int \<Rightarrow> jsnum) \<Rightarrow> int \<Rightarrow> int \<Rightarrow> int \<Rightarrow> int \<Rightarrow> mem" where
  "fill_loop m this bytes len start n i =
     (if i < n
      then fill_loop (buf_set m this (i + start) (num_int (if len = 0 then Undef else bytes m (i mod len))))
             this bytes len start n (i + 1)
      else m)"
  by pat_completeness auto
termination
  by (relation "measure (\<lambda>(m, this, bytes, len, start, n, i). nat (n - i))") auto

declare fill_loop.simps [simp del]

text \<open>\<open>utf8ToBytes(new Buffer(val, encoding).toString())\<close>\<close>

definition fill_bytes :: "mem \<Rightarrow> jsval \<Rightarrow> arg \<Rightarrow> (int list \<times> mem) result" where
  "fill_bytes m val encoding =
     (case Buffer m val (arg_val encoding) VNone of
        Inl e \<Rightarrow> Inl e
      | Inr (b, m1) \<Rightarrow>
          (case toString (contents m1 b) None of
             Inl e \<Rightarrow> Inl e
           | Inr s \<Rightarrow> map_sum id (\<lambda>bs. (bs, m1)) (utf8ToBytes s None)))"

definition int_elem :: "int list \<Rightarrow> int \<Rightarrow> jsnum" where
  "int_elem xs i = (if 0 \<le> i \<and> i < int (length xs) then Num (xs ! nat i) else Undef)"

definition fill :: "mem \<Rightarrow> buffer \<Rightarrow> jsval \<Rightarrow> arg \<Rightarrow> arg \<Rightarrow> arg \<Rightarrow> mem result" where
  "fill m this val0 start0 end0 encoding0 =
     (let this_length = int (blen this) in
      case fill_args this_length val0 start0 end0 encoding0 of
        Inl e \<Rightarrow> Inl e
      | Inr (val, start1, end1, encoding) \<Rightarrow>
          if arg_less (arg_number start1) (Some 0) \<or> arg_less (Some this_length) (arg_number start1) \<or>
             arg_less (Some this_length) (arg_number end1)
          then Inl (RangeError ''Out of range index'')
          else if arg_le (arg_number end1) (arg_number start1) then Inr m
          else let start = arg_shr0 (arg_number start1);
                   fin = (if end1 = Undefined then this_length else arg_shr0 (arg_number end1))
               in case val of
                    VNum n \<Rightarrow> Inr (fill_loop m this (\<lambda>_ _. Num n) 1 start (fin - start) 0)
                  | VNone \<Rightarrow> Inr (fill_loop m this (\<lambda>_ _. Num 0) 1 start (fin - start) 0)
                  | VBuf b \<Rightarrow> Inr (fill_loop m this (\<lambda>m i. buf_get m b i) (int (blen b)) start (fin - start) 0)
                  | _ \<Rightarrow> if val = VStr [] then Inr (fill_loop m this (\<lambda>_ _. Num 0) 1 start (fin - start) 0)
                         else map_sum id
                                (\<lambda>(bs, m1). fill_loop m1 this (\<lambda>_ i. int_elem bs i) (int (length bs)) start (fin - start) 0)
                                (fill_bytes m val encoding))"

text \<open>\<open>alloc\<close> passes the encoding on only when it is a string.\<close>

definition alloc :: "mem \<Rightarrow> jsval \<Rightarrow> jsval \<Rightarrow> arg \<Rightarrow> (buffer \<times> mem) result" where
  "alloc m v fill_value encoding =
     (case assertSize v of
        Inl e \<Rightarrow> Inl e
      | Inr n \<Rightarrow>
          (case createBuffer m n of
             Inl e \<Rightarrow> Inl e
           | Inr (that, m1) \<Rightarrow>
               if n \<le> 0 \<or> fill_value = VNone then Inr (that, m1)
               else map_sum id (\<lambda>m2. (that, m2))
                      (fill m1 that fill_value (if is_string encoding then encoding else Undefined) Undefined Undefined)))"

text \<open>\<open>+length != length\<close> holds for a string that is not a number; then the size is 0.\<close>

definition SlowBuffer :: "mem \<Rightarrow> arg \<Rightarrow> (buffer \<times> mem) result" where
  "SlowBuffer m len = alloc m (VNum (case arg_number len of None \<Rightarrow> 0 | Some n \<Rightarrow> n)) VNone Undefined"

section \<open>Comparing\<close>

text \<open>The first difference decides, then the lengths.\<close>

function first_difference :: "byte list \<Rightarrow> byte list \<Rightarrow> int \<Rightarrow> int \<Rightarrow> (int \<times> int) option" where
  "first_difference a b len i =
     (if i < len
      then if elem a i \<noteq> elem b i then Some (num_int (elem a i), num_int (elem b i))
           else first_difference a b len (i + 1)
      else None)"
  by pat_completeness auto
termination
  by (relation "measure (\<lambda>(a, b, len, i). nat (len - i))") auto

declare first_difference.simps [simp del]

definition order_of :: "int \<Rightarrow> int \<Rightarrow> int" where
  "order_of x y = (if x < y then - 1 else if y < x then 1 else 0)"

definition compare_bytes :: "byte list \<Rightarrow> byte list \<Rightarrow> int" where
  "compare_bytes a b =
     (let x = int (length a); y = int (length b) in
      case first_difference a b (min x y) 0 of
        None \<Rightarrow> order_of x y
      | Some (p, q) \<Rightarrow> order_of p q)"

definition buffer_compare :: "mem \<Rightarrow> jsval \<Rightarrow> jsval \<Rightarrow> int result" where
  "buffer_compare m a b =
     (case (a, b) of
        (VBuf x, VBuf y) \<Rightarrow>
          if bid x = bid y then Inr 0 else Inr (compare_bytes (contents m x) (contents m y))
      | _ \<Rightarrow> Inl (TypeError ''Arguments must be Buffers''))"

definition equals :: "mem \<Rightarrow> buffer \<Rightarrow> jsval \<Rightarrow> bool result" where
  "equals m this b =
     (case b of
        VBuf y \<Rightarrow> if bid this = bid y then Inr True
                  else map_sum id (\<lambda>c. c = 0) (buffer_compare m (VBuf this) b)
      | _ \<Rightarrow> Inl (TypeError ''Argument must be a Buffer''))"

definition compare_method ::
  "mem \<Rightarrow> buffer \<Rightarrow> jsval \<Rightarrow> int option \<Rightarrow> int option \<Rightarrow> int option \<Rightarrow> int option \<Rightarrow> int result" where
  "compare_method m this target0 start0 end0 thisStart0 thisEnd0 =
     (case target0 of
        VBuf target \<Rightarrow>
          (let start = (case start0 of None \<Rightarrow> 0 | Some x \<Rightarrow> x);
               fin = (case end0 of None \<Rightarrow> int (blen target) | Some x \<Rightarrow> x);
               thisStart = (case thisStart0 of None \<Rightarrow> 0 | Some x \<Rightarrow> x);
               thisEnd = (case thisEnd0 of None \<Rightarrow> int (blen this) | Some x \<Rightarrow> x)
           in if start < 0 \<or> fin > int (blen target) \<or> thisStart < 0 \<or> thisEnd > int (blen this)
              then Inl (RangeError ''out of range index'')
              else if thisStart \<ge> thisEnd \<and> start \<ge> fin then Inr 0
              else if thisStart \<ge> thisEnd then Inr (- 1)
              else if start \<ge> fin then Inr 1
              else let start = js_shr start 0; fin = js_shr fin 0;
                       thisStart = js_shr thisStart 0; thisEnd = js_shr thisEnd 0
                   in if bid this = bid target then Inr 0
                      else let x = thisEnd - thisStart; y = fin - start;
                               thisCopy = slice_list (contents m this) thisStart (Some thisEnd);
                               targetCopy = slice_list (contents m target) start (Some fin)
                           in Inr (case first_difference thisCopy targetCopy (min x y) 0 of
                                     None \<Rightarrow> order_of x y
                                   | Some (p, q) \<Rightarrow> order_of p q))
      | _ \<Rightarrow> Inl (TypeError ''Argument must be a Buffer''))"

section \<open>Concatenation\<close>

text \<open>The sum of the lengths, over any values: \<open>list[i].length\<close> of a value that has none is \<open>NaN\<close>.\<close>

definition val_length :: "jsval \<Rightarrow> jsnum" where
  "val_length v =
     (case v of VBuf b \<Rightarrow> Num (int (blen b)) | VStr s \<Rightarrow> Num (int (length s)) | VArrayLike n xs \<Rightarrow> Num n
      | _ \<Rightarrow> NaN)"

fun concat_loop :: "mem \<Rightarrow> buffer \<Rightarrow> int \<Rightarrow> jsval list \<Rightarrow> mem result" where
  "concat_loop m target pos [] = Inr m"
| "concat_loop m target pos (v # vs) =
     (case v of
        VBuf b \<Rightarrow>
          (case copy m b target (Some pos) None None of
             Inl e \<Rightarrow> Inl e
           | Inr (n, m1) \<Rightarrow> concat_loop m1 target (pos + int (blen b)) vs)
      | _ \<Rightarrow> Inl (TypeError ''list argument must be an Array of Buffers''))"

text \<open>
  A \<open>NaN\<close> total passes the size check and gives an empty buffer, and the loop then rejects the
  element without a length.
\<close>

definition buffer_concat :: "mem \<Rightarrow> jsval list \<Rightarrow> int option \<Rightarrow> (buffer \<times> mem) result" where
  "buffer_concat m vs len0 =
     (if vs = [] then alloc m (VNum 0) VNone Undefined
      else let len = (case len0 of
                        None \<Rightarrow> num_int (foldl (\<lambda>a v. num_add a (val_length v)) (Num 0) vs)
                      | Some l \<Rightarrow> l)
           in case allocUnsafe m (VNum len) of
                Inl e \<Rightarrow> Inl e
              | Inr (b, m1) \<Rightarrow> map_sum id (\<lambda>m2. (b, m2)) (concat_loop m1 b 0 vs))"

end
