(* ===== verification/Buffer_Ops_Laws.thy ===== *)
theory Buffer_Ops_Laws
  imports Buffer_Ops
begin

text \<open>
  What the operations on whole buffers do: \<open>copy\<close> moves bytes as \<open>memmove\<close> does when the two
  buffers are the same object or do not overlap, the constructors make fresh memory, \<open>compare\<close>
  is the lexicographic order, \<open>concat\<close> and \<open>fill\<close> produce what their names say.
\<close>

section \<open>Copy\<close>

lemma copy_up_run:
  assumes "wf_buffer m this" "0 \<le> i"
    "\<And>m i j v. wf_buffer m this \<Longrightarrow> 0 \<le> i \<Longrightarrow> i < j \<Longrightarrow> j < len \<Longrightarrow>
      buf_get (buf_set m target (i + ts) v) this (j + start) = buf_get m this (j + start)"
  shows "copy_up m this target ts start len i =
    store_run target m (i + ts) (map (\<lambda>j. num_int (buf_get m this (j + start))) [i..len - 1])"
  using assms
proof (induction m this target ts start len i rule: copy_up.induct)
  case (1 m this target ts start len i)
  show ?case
  proof (cases "i < len")
    case True
    let ?m1 = "buf_set m target (i + ts) (num_int (buf_get m this (i + start)))"
    have ih: "copy_up ?m1 this target ts start len (i + 1) =
        store_run target ?m1 (i + 1 + ts) (map (\<lambda>j. num_int (buf_get ?m1 this (j + start))) [i + 1..len - 1])"
      using True "1.prems" by (intro "1.IH") (simp_all add: wf_buffer_set)
    have "map (\<lambda>j. num_int (buf_get ?m1 this (j + start))) [i + 1..len - 1] =
        map (\<lambda>j. num_int (buf_get m this (j + start))) [i + 1..len - 1]"
      using "1.prems" by (intro map_cong refl) simp
    moreover have "[i..len - 1] = i # [i + 1..len - 1]" using True by (simp add: upto_rec1)
    moreover have "i + 1 + ts = i + ts + 1" by simp
    moreover have "copy_up m this target ts start len i = copy_up ?m1 this target ts start len (i + 1)"
      using True by (subst copy_up.simps) simp
    ultimately show ?thesis by (simp only: ih list.map put_run.simps)
  qed (subst copy_up.simps, simp)
qed

lemma copy_down_bytes:
  assumes "wf_buffer m b" "start < ts" "ts + n \<le> blen b"
  shows "wf_buffer (copy_down m b b (int ts) (int start) (int n - 1)) b \<and>
    contents (copy_down m b b (int ts) (int start) (int n - 1)) b =
    splice_at ts (take n (drop start (contents m b))) (contents m b)"
  using assms
proof (induction n arbitrary: m)
  case 0
  then show ?case by (subst (1 2) copy_down.simps) simp
next
  case (Suc n)
  let ?xs = "contents m b" and ?v = "contents m b ! (start + n)"
  let ?m1 = "buf_set m b (int n + int ts) (uint ?v)"
  have len: "length ?xs = blen b" using Suc.prems by simp
  have v: "num_int (buf_get m b (int n + int start)) = uint ?v"
    using Suc.prems by (simp add: buf_get_def elem_def nat_add_distrib add.commute)
  have step: "copy_down m b b (int ts) (int start) (int n) =
      copy_down ?m1 b b (int ts) (int start) (int n - 1)"
    by (subst copy_down.simps) (simp add: v)
  have xs1: "contents ?m1 b = ?xs[ts + n := ?v]"
    using Suc.prems contents_set [of m b "int n + int ts" "uint ?v"] by (simp add: nat_add_distrib add.commute)
  have ih: "wf_buffer (copy_down ?m1 b b (int ts) (int start) (int n - 1)) b \<and>
      contents (copy_down ?m1 b b (int ts) (int start) (int n - 1)) b =
      splice_at ts (take n (drop start (contents ?m1 b))) (contents ?m1 b)"
    using Suc.prems by (intro Suc.IH) (simp_all add: wf_buffer_set)
  have "take n (drop start (?xs[ts + n := ?v])) = take n (drop start ?xs)"
    using Suc.prems by (simp add: drop_update_swap take_update_cancel)
  moreover have "take (Suc n) (drop start ?xs) = take n (drop start ?xs) @ [?v]"
    using Suc.prems len by (simp add: take_Suc_conv_app_nth)
  moreover have "length (take n (drop start ?xs)) = n" using Suc.prems len by simp
  ultimately show ?case
    using ih Suc.prems len by (simp add: step xs1 splice_at_snoc)
qed

lemma map_uint_upto:
  assumes "s + n \<le> length xs"
  shows "map (\<lambda>j. num_int (elem xs (j + int s))) [0..int n - 1] = map uint (take n (drop s xs))"
  using assms by (intro nth_equalityI) (simp_all add: elem_def nth_upto nat_add_distrib add.commute)

lemma copy_up_bytes:
  assumes "wf_buffer m this" "wf_buffer m target" "start + n \<le> blen this" "ts + n \<le> blen target"
    "disjoint_views this target \<or> this = target \<and> (ts \<le> start \<or> start + n \<le> ts)"
  shows "wf_buffer (copy_up m this target (int ts) (int start) (int n) 0) target \<and>
    contents (copy_up m this target (int ts) (int start) (int n) 0) target =
    splice_at ts (take n (drop start (contents m this))) (contents m target)"
proof -
  have "buf_get (buf_set m target (i + int ts) v) this (j + int start) = buf_get m this (j + int start)"
    if "wf_buffer m this" "0 \<le> i" "i < j" "j < int n" for m i j v
  proof (cases "disjoint_views this target")
    case True
    then have "disjoint_views target this" by (auto simp: disjoint_views_def)
    then show ?thesis by (simp add: buf_get_def contents_set_disjoint)
  next
    case False
    then have eq: "this = target" "i + int ts \<noteq> j + int start" using assms(5) that by auto
    show ?thesis unfolding eq(1) using that(1) eq by (intro view.get_set_other) simp_all
  qed
  then have "copy_up m this target (int ts) (int start) (int n) 0 =
      store_run target m (int ts) (map uint (take n (drop start (contents m this))))"
    using copy_up_run [OF assms(1), of 0 "int n" target "int ts" "int start"]
      map_uint_upto [of start n "contents m this"] assms(1,3) by (simp add: buf_get_def)
  then show ?thesis
    using view.put_run_bytes [of m target "int ts" "map uint (take n (drop start (contents m this)))"] assms(1-4)
    by (simp add: wf_put_run)
qed

lemma copy_bytes_moves:
  assumes "wf_buffer m this" "wf_buffer m target" "this = target \<or> disjoint_views this target \<and> bid this \<noteq> bid target"
    "start + n \<le> blen this" "ts + n \<le> blen target"
  shows "wf_buffer (copy_bytes m this target (int ts) (int start) (int (start + n))) target \<and>
    contents (copy_bytes m this target (int ts) (int start) (int (start + n))) target =
    splice_at ts (take n (drop start (contents m this))) (contents m target)"
proof -
  have e: "int (start + n) - int start = int n" by simp
  consider "this = target" "start < ts" "ts < start + n"
    | "\<not> (bid this = bid target \<and> start < ts \<and> ts < start + n)" "int n < 1000"
    | "\<not> (bid this = bid target \<and> start < ts \<and> ts < start + n)" "\<not> int n < 1000"
    using assms(3) by blast
  then show ?thesis
  proof cases
    case 1
    then show ?thesis using copy_down_bytes [of m target start ts n] assms by (simp add: copy_bytes_def)
  next
    case 2
    then have "disjoint_views this target \<or> this = target \<and> (ts \<le> start \<or> start + n \<le> ts)"
      using assms(3) by auto
    from copy_up_bytes [OF assms(1,2,4,5) this] 2 show ?thesis
      unfolding copy_bytes_def Let_def e of_nat_less_iff by (simp only: if_True if_False)
  next
    case 3
    have "contents (typed_set m target (take n (drop start (contents m this))) (int ts)) target =
        splice_at ts (take n (drop start (contents m this))) (contents m target)"
      using view.put_run_bytes [of m target "int ts" "map uint (take n (drop start (contents m this)))"]
        assms by (simp add: typed_set_def)
    moreover have "wf_buffer (typed_set m target xs (int ts)) target" for xs
      using assms(2) by (simp add: typed_set_def wf_put_run)
    ultimately show ?thesis
      using 3 unfolding copy_bytes_def Let_def e of_nat_less_iff nat_int by (simp only: if_False)
  qed
qed

lemma copy_range_eq:
  assumes "start < fin" "fin \<le> this_length" "ts \<le> target_length" "0 < target_length"
    "n = min (fin - start) (target_length - ts)"
  shows "copy_range (int this_length) (int target_length) (Some (int ts)) (Some (int start)) (Some (int fin)) =
    Inr (Some (int ts, int start, int (start + n)))"
proof -
  consider "ts = target_length" "n = 0" | "ts < target_length" "target_length - ts < fin - start" "n = target_length - ts"
    | "ts < target_length" "\<not> target_length - ts < fin - start" "n = fin - start"
    using assms by linarith
  then show ?thesis
    by cases (use assms in \<open>auto simp: copy_range_def of_nat_diff Let_def\<close>)
qed

lemma copy_memmove:
  assumes "wf_buffer m this" "wf_buffer m target" "this = target \<or> disjoint_views this target \<and> bid this \<noteq> bid target"
    "start < fin" "fin \<le> blen this" "ts \<le> blen target"
    "n = min (fin - start) (blen target - ts)"
  shows "\<exists>m'. copy m this target (Some (int ts)) (Some (int start)) (Some (int fin)) = Inr (int n, m') \<and>
    wf_buffer m' target \<and>
    contents m' target = splice_at ts (take n (drop start (contents m this))) (contents m target)"
proof (cases "blen target = 0")
  case True
  then show ?thesis
    using assms by (auto simp: copy_def copy_range_def Let_def)
next
  case False
  have "start + n \<le> blen this" "ts + n \<le> blen target" using assms by auto
  from copy_bytes_moves [OF assms(1-3) this] False show ?thesis
    using copy_range_eq [OF assms(4-6) _ assms(7)] by (simp add: copy_def)
qed

text \<open>C34: \<open>copy\<close> between views that are the same object or share no byte: it moves the requested
  range, cut to the room in the target, as \<open>memmove\<close> does, and returns the number of bytes.\<close>

theorem copy_moves:
  assumes "wf_buffer m this" "wf_buffer m target" "this = target \<or> disjoint_views this target \<and> bid this \<noteq> bid target"
    "start < fin" "fin \<le> blen this" "ts \<le> blen target"
  shows "\<exists>n m'. n = min (fin - start) (blen target - ts) \<and>
    copy m this target (Some (int ts)) (Some (int start)) (Some (int fin)) = Inr (int n, m') \<and>
    contents m' target = splice_at ts (take n (drop start (contents m this))) (contents m target)"
  using copy_memmove [OF assms refl] by blast

theorem copy_moves_witness:
  "\<exists>n m'. n = min (4 - 0) (5 - 2) \<and>
    copy \<lparr>arrays = [[1, 2, 3, 4, 5]], next_id = 1\<rparr> \<lparr>bid = 0, arr = 0, off = 0, blen = 5\<rparr>
      \<lparr>bid = 0, arr = 0, off = 0, blen = 5\<rparr> (Some (int 2)) (Some (int 0)) (Some (int 4)) = Inr (int n, m') \<and>
    contents m' \<lparr>bid = 0, arr = 0, off = 0, blen = 5\<rparr> = [1, 2, 1, 2, 3]"
proof -
  let ?m = "\<lparr>arrays = [[1, 2, 3, 4, 5]], next_id = 1\<rparr>" and ?b = "\<lparr>bid = 0, arr = 0, off = 0, blen = 5\<rparr>"
  have "wf_buffer ?m ?b" "(0 :: nat) < 4" "4 \<le> blen ?b" "2 \<le> blen ?b" by (simp_all add: wf_buffer_def)
  from copy_moves [OF this(1,1) _ this(2-4)] show ?thesis
    by (simp add: splice_at_def contents_def numeral_eq_Suc)
qed

text \<open>Two views of the same array are different objects, so \<open>copy\<close> does not see that they overlap:
  the first three bytes copied to the view one byte further repeat the first byte, where
  \<open>memmove\<close> would give 1 1 2 3.\<close>

theorem copy_overlapping_slices:
  "let m = \<lparr>arrays = [[1, 2, 3, 4]], next_id = 1\<rparr>;
       b = \<lparr>bid = 0, arr = 0, off = 0, blen = 4\<rparr>;
       (source, m1) = slice m b 0 (Some 3);
       (target, m2) = slice m1 b 1 None
   in wf_buffer m2 source \<and> wf_buffer m2 target \<and> contents m2 source = [1, 2, 3] \<and>
      map_sum id (\<lambda>(n, m3). (n, contents m3 b)) (copy m2 source target None None None) = Inr (3, [1, 1, 1, 1])"
  by (simp add: slice_def slice_bounds_def to_int32_id subarray_def wf_buffer_def contents_def copy_def copy_range_def
      copy_bytes_def copy_up.simps buf_set_def buf_get_def elem_def)

text \<open>With an end of 0 and a start inside the source, \<open>copy\<close> copies nothing but returns a negative
  count instead of 0.\<close>

theorem copy_negative_count:
  assumes "0 < start" "start < int (blen this)" "0 < blen target" "0 \<le> ts" "ts \<le> int (blen target)"
  shows "copy m this target (Some ts) (Some start) (Some 0) = Inr (- start, m)"
  using assms by (auto simp: copy_def copy_range_def copy_bytes_def Let_def copy_up.simps)

theorem copy_negative_count_witness:
  "copy \<lparr>arrays = [[1, 2], [3, 4]], next_id = 2\<rparr> \<lparr>bid = 0, arr = 0, off = 0, blen = 2\<rparr>
     \<lparr>bid = 1, arr = 1, off = 0, blen = 2\<rparr> (Some 0) (Some 1) (Some 0) =
   Inr (- 1, \<lparr>arrays = [[1, 2], [3, 4]], next_id = 2\<rparr>)"
  by (rule copy_negative_count) simp_all

section \<open>What copy leaves alone\<close>

lemma copy_up_frame:
  "(wf_buffer m c \<longrightarrow> wf_buffer (copy_up m this target ts start len i) c) \<and>
   (disjoint_views target c \<longrightarrow> contents (copy_up m this target ts start len i) c = contents m c)"
proof (induction m this target ts start len i rule: copy_up.induct)
  case (1 m this target ts start len i)
  then show ?case by (subst (1 2) copy_up.simps) (simp add: wf_buffer_set contents_set_disjoint)
qed

lemma copy_down_frame:
  "(wf_buffer m c \<longrightarrow> wf_buffer (copy_down m this target ts start i) c) \<and>
   (disjoint_views target c \<longrightarrow> contents (copy_down m this target ts start i) c = contents m c)"
proof (induction m this target ts start i rule: copy_down.induct)
  case (1 m this target ts start i)
  then show ?case by (subst (1 2) copy_down.simps) (simp add: wf_buffer_set contents_set_disjoint)
qed

lemma copy_bytes_frame:
  assumes "wf_buffer m c"
  shows "wf_buffer (copy_bytes m this target ts start fin) c"
    "disjoint_views target c \<Longrightarrow> contents (copy_bytes m this target ts start fin) c = contents m c"
  using assms copy_up_frame copy_down_frame
  by (simp_all add: copy_bytes_def Let_def typed_set_def wf_put_run contents_put_run_disjoint)

lemma copy_frame:
  assumes "copy m this target ts start fin = Inr (n, m')" "wf_buffer m c"
  shows "wf_buffer m' c" "disjoint_views target c \<Longrightarrow> contents m' c = contents m c"
  using assms copy_bytes_frame
  by (auto simp: copy_def split: sum.splits option.splits)

section \<open>Slices\<close>

text \<open>C35: A slice is a view of the same bytes: it shows the selected range of the buffer, and a write
  through it changes exactly that byte of the buffer.\<close>

theorem slice_shares_memory:
  assumes "wf_buffer m b" "slice m b start0 end0 = (c, m1)" "slice_bounds (int (blen b)) start0 end0 = (st, fin)"
    "0 \<le> i" "i < int (blen c)"
  shows "0 \<le> st \<and> st \<le> fin \<and> fin \<le> int (blen b) \<and>
    contents m1 c = take (nat fin - nat st) (drop (nat st) (contents m b)) \<and> contents m1 b = contents m b \<and>
    contents (buf_set m1 c i v) b = (contents m b)[nat st + nat i := word_of_int v]"
proof -
  have r: "0 \<le> st" "st \<le> fin" "fin \<le> int (blen b)" using slice_bounds_range [OF _ assms(3)] by simp_all
  have c: "c = \<lparr>bid = next_id m, arr = arr b, off = off b + nat st, blen = nat fin - nat st\<rparr>"
    "m1 = m\<lparr>next_id := Suc (next_id m)\<rparr>"
    using assms(2,3) by (auto simp: slice_def subarray_def)
  have wf: "wf_buffer m1 b" "contents m1 b = contents m b" using assms(1) c(2) by (auto simp: wf_buffer_def contents_def)
  have "contents m1 c = take (nat fin - nat st) (drop (nat st) (contents m b))"
    using slice_wf(2) [OF assms(1,2)] assms(1,3) by (simp add: slice_list_def)
  moreover have "buf_set m1 c i v = buf_set m1 b (st + i) v"
    using r assms(4,5) c(1) by (auto simp: buf_set_def nat_add_distrib add.assoc)
  then have "contents (buf_set m1 c i v) b = (contents m b)[nat st + nat i := word_of_int v]"
    using contents_set [of m1 b "st + i" v] wf r assms(4,5) c(1) by (simp add: nat_add_distrib)
  ultimately show ?thesis using r wf(2) by simp
qed

theorem slice_shares_memory_witness:
  "contents (buf_set \<lparr>arrays = [[1, 2, 3]], next_id = 2\<rparr> \<lparr>bid = 1, arr = 0, off = 1, blen = 2\<rparr> 0 9)
     \<lparr>bid = 0, arr = 0, off = 0, blen = 3\<rparr> = [1, 9, 3]"
proof -
  have "wf_buffer \<lparr>arrays = [[1, 2, 3]], next_id = 1\<rparr> \<lparr>bid = 0, arr = 0, off = 0, blen = 3\<rparr>"
    "slice \<lparr>arrays = [[1, 2, 3]], next_id = 1\<rparr> \<lparr>bid = 0, arr = 0, off = 0, blen = 3\<rparr> (- 2) None =
      (\<lparr>bid = 1, arr = 0, off = 1, blen = 2\<rparr>, \<lparr>arrays = [[1, 2, 3]], next_id = 2\<rparr>)"
    "slice_bounds (int (blen \<lparr>bid = 0, arr = 0, off = 0, blen = 3\<rparr>)) (- 2) None = (1, 3)"
    by (simp_all add: wf_buffer_def slice_def slice_bounds_def to_int32_id subarray_def)
  from slice_shares_memory [OF this, of 0 9] show ?thesis by (simp add: contents_def)
qed

section \<open>Comparing\<close>

lemma first_difference_shift:
  "0 \<le> i \<Longrightarrow> first_difference (x # a) (y # b) (n + 1) (i + 1) = first_difference a b n i"
proof (induction a b n i rule: first_difference.induct)
  case (1 a b n i)
  have e: "elem (z # c) (i + 1) = elem c i" for z c
    using "1.prems" by (auto simp: elem_def nat_add_distrib)
  from 1 show ?case
    by (subst (1 2) first_difference.simps) (simp add: e)
qed

lemma compare_bytes_simps:
  "compare_bytes [] [] = 0" "compare_bytes [] (y # b) = - 1" "compare_bytes (x # a) [] = 1"
  "compare_bytes (x # a) (y # b) = (if x = y then compare_bytes a b else if x < y then - 1 else 1)"
proof -
  show "compare_bytes (x # a) (y # b) = (if x = y then compare_bytes a b else if x < y then - 1 else 1)"
  proof (cases "x = y")
    case True
    have "min (int (length (x # a))) (int (length (y # b))) = min (int (length a)) (int (length b)) + 1" by simp
    with True have "first_difference (x # a) (y # b) (min (int (length (x # a))) (int (length (y # b)))) 0 =
        first_difference a b (min (int (length a)) (int (length b))) 0"
      using first_difference_shift [of 0 x a y b "min (int (length a)) (int (length b))"]
      by (subst first_difference.simps) (simp add: elem_def)
    with True show ?thesis
      by (simp add: compare_bytes_def Let_def order_of_def split: option.split)
  next
    case False
    then show ?thesis
      by (simp add: compare_bytes_def Let_def first_difference.simps elem_def order_of_def word_less_def word_uint_eq_iff)
  qed
qed (simp_all add: compare_bytes_def first_difference.simps order_of_def)

lemma compare_bytes_range: "compare_bytes a b \<in> {- 1, 0, 1}"
  by (induction a b rule: list_induct2') (simp_all add: compare_bytes_simps)

lemma compare_bytes_eq: "compare_bytes a b = 0 \<longleftrightarrow> a = b"
  by (induction a b rule: list_induct2') (simp_all add: compare_bytes_simps)

lemma compare_bytes_less: "compare_bytes a b = - 1 \<longleftrightarrow> (a, b) \<in> lexord {(x, y). x < y}"
  by (induction a b rule: list_induct2') (auto simp: compare_bytes_simps)

lemma compare_bytes_flip: "compare_bytes b a = - compare_bytes a b"
  by (induction a b rule: list_induct2') (auto simp: compare_bytes_simps)

text \<open>C36: \<open>Buffer.compare\<close> is the lexicographic order of the bytes: 0 exactly on equal contents, -1
  exactly below, and swapping the arguments negates it; \<open>equals\<close> is equality of the contents.  (An
  object has one view, so equal identities mean the same buffer.)\<close>

theorem compare_lexicographic:
  assumes "bid a = bid b \<longrightarrow> a = b"
  shows "\<exists>c. buffer_compare m (VBuf a) (VBuf b) = Inr c \<and> buffer_compare m (VBuf b) (VBuf a) = Inr (- c) \<and>
    (c = 0 \<longleftrightarrow> contents m a = contents m b) \<and>
    (c = - 1 \<longleftrightarrow> (contents m a, contents m b) \<in> lexord {(x, y). x < y}) \<and> c \<in> {- 1, 0, 1} \<and>
    equals m a (VBuf b) = Inr (contents m a = contents m b)"
proof (cases "bid a = bid b")
  case True
  have "\<not> (xs, xs) \<in> lexord {(x :: byte, y). x < y}" for xs by (rule lexord_irreflexive) simp
  with True assms show ?thesis by (simp add: buffer_compare_def equals_def)
next
  case False
  then show ?thesis
    using compare_bytes_range [of "contents m a" "contents m b"]
      compare_bytes_flip [of "contents m b" "contents m a"]
    by (intro exI [of _ "compare_bytes (contents m a) (contents m b)"])
      (simp add: buffer_compare_def equals_def compare_bytes_eq compare_bytes_less)
qed

theorem compare_lexicographic_witness:
  "buffer_compare \<lparr>arrays = [[1, 2], [1, 3, 0]], next_id = 2\<rparr> (VBuf \<lparr>bid = 0, arr = 0, off = 0, blen = 2\<rparr>)
     (VBuf \<lparr>bid = 1, arr = 1, off = 0, blen = 3\<rparr>) = Inr (- 1)"
  using compare_lexicographic [of "\<lparr>bid = 0, arr = 0, off = 0, blen = 2\<rparr>" "\<lparr>bid = 1, arr = 1, off = 0, blen = 3\<rparr>"
      "\<lparr>arrays = [[1, 2], [1, 3, 0]], next_id = 2\<rparr>"]
  by (auto simp: contents_def)

text \<open>The method \<open>compare\<close> with ranges answers 0 whenever both buffers are the same object, whatever
  the two non-empty ranges hold.\<close>

theorem compare_same_object_ignores_ranges:
  assumes "0 \<le> s" "s < e" "e \<le> int (blen b)" "0 \<le> ts" "ts < te" "te \<le> int (blen b)"
  shows "compare_method m b (VBuf b) (Some s) (Some e) (Some ts) (Some te) = Inr 0"
  using assms by (simp add: compare_method_def Let_def)

theorem compare_same_object_ignores_ranges_witness:
  "contents \<lparr>arrays = [[1, 2]], next_id = 1\<rparr> \<lparr>bid = 0, arr = 0, off = 0, blen = 2\<rparr> = [1, 2] \<and>
   compare_method \<lparr>arrays = [[1, 2]], next_id = 1\<rparr> \<lparr>bid = 0, arr = 0, off = 0, blen = 2\<rparr>
     (VBuf \<lparr>bid = 0, arr = 0, off = 0, blen = 2\<rparr>) (Some 0) (Some 1) (Some 1) (Some 2) = Inr 0"
  by (rule conjI) (simp add: contents_def, rule compare_same_object_ignores_ranges, simp_all)

section \<open>Constructors\<close>

lemma createBuffer_ok:
  assumes "0 \<le> n" "n \<le> kMaxLength"
  obtains b m' where "createBuffer m n = Inr (b, m')" "wf_buffer m' b" "blen b = nat n"
    "contents m' b = replicate (nat n) 0"
    "\<And>c. wf_buffer m c \<Longrightarrow> wf_buffer m' c \<and> contents m' c = contents m c \<and> disjoint_views b c \<and>
      disjoint_views c b \<and> bid b \<noteq> bid c"
proof -
  obtain b m' where new: "new_array m (nat n) = (b, m')" by fastforce
  have le: "nat n \<le> 2147483647" using assms by (simp add: kMaxLength_def nat_le_iff)
  show ?thesis
  proof (rule that [of b m'])
    show "createBuffer m n = Inr (b, m')" using assms new by (simp add: createBuffer_def)
  qed (use new_array_wf [OF new le] new_array_keeps [OF new] in auto)
qed

lemma checked_ok: "0 \<le> n \<Longrightarrow> n < kMaxLength \<Longrightarrow> checked n = Inr n" "n < kMaxLength \<Longrightarrow> 0 \<le> n \<Longrightarrow> to_int32 n = n"
  by (simp_all add: checked_def kMaxLength_def to_int32_id_nonneg)

lemma allocUnsafe_eq: "0 \<le> n \<Longrightarrow> n < kMaxLength \<Longrightarrow> allocUnsafe m (VNum n) = createBuffer m n"
  by (simp add: allocUnsafe_def assertSize_def checked_ok)

lemma fromArrayLike_bytes:
  assumes "int (length xs) < kMaxLength"
  shows "\<exists>b m'. fromArrayLike m (int (length xs)) xs = Inr (b, m') \<and> wf_buffer m' b \<and>
    contents m' b = map (\<lambda>x. word_of_int (num_int x)) xs \<and>
    (\<forall>c. wf_buffer m c \<longrightarrow> wf_buffer m' c \<and> contents m' c = contents m c \<and> disjoint_views b c)"
proof -
  let ?vs = "map (\<lambda>i. js_and (array_elem xs i) 255) [0..<length xs]"
  obtain b m1 where b: "createBuffer m (int (length xs)) = Inr (b, m1)" "wf_buffer m1 b" "blen b = length xs"
    "contents m1 b = replicate (length xs) 0"
    "\<And>c. wf_buffer m c \<Longrightarrow> wf_buffer m1 c \<and> contents m1 c = contents m c \<and> disjoint_views b c \<and>
      disjoint_views c b \<and> bid b \<noteq> bid c"
    using createBuffer_ok [of "int (length xs)" m] assms by auto
  have "map word_of_int ?vs = map (\<lambda>x. word_of_int (num_int x) :: byte) xs"
    by (rule nth_equalityI) (simp_all add: array_elem_def js_simps)
  then have "contents (store_run b m1 0 ?vs) b = map (\<lambda>x. word_of_int (num_int x)) xs"
    using view.put_run_bytes [of m1 b 0 ?vs] b by (simp add: splice_at_def)
  moreover have "fromArrayLike m (int (length xs)) xs = Inr (b, store_run b m1 0 ?vs)"
    using assms b(1) by (simp add: fromArrayLike_def checked_ok)
  ultimately show ?thesis using b by (auto simp: wf_put_run contents_put_run_disjoint)
qed

lemma fromObject_buffer:
  assumes "wf_buffer m b" "int (blen b) < kMaxLength"
  shows "\<exists>c m'. fromObject m (VBuf b) = Inr (c, m') \<and> wf_buffer m' c \<and> contents m' c = contents m b \<and>
    (\<forall>d. wf_buffer m d \<longrightarrow> wf_buffer m' d \<and> contents m' d = contents m d \<and> disjoint_views c d)"
proof -
  obtain c m1 where c: "createBuffer m (int (blen b)) = Inr (c, m1)" "wf_buffer m1 c" "blen c = blen b"
    "contents m1 c = replicate (blen b) 0"
    "\<And>d. wf_buffer m d \<Longrightarrow> wf_buffer m1 d \<and> contents m1 d = contents m d \<and> disjoint_views c d \<and>
      disjoint_views d c \<and> bid c \<noteq> bid d"
    using createBuffer_ok [of "int (blen b)" m] assms(2) by auto
  have fo: "fromObject m (VBuf b) = (if blen b = 0 then Inr (c, m1)
      else map_sum id (\<lambda>(n, m2). (c, m2)) (copy m1 b c (Some (int 0)) (Some (int 0)) (Some (int (blen b)))))"
    using assms(2) c(1,3) by (simp add: fromObject_def checked_ok)
  show ?thesis
  proof (cases "blen b = 0")
    case True
    then have "contents m b = []" using assms(1) by (metis length_contents length_0_conv)
    with True fo c show ?thesis by auto
  next
    case False
    then obtain m2 where m2: "copy m1 b c (Some (int 0)) (Some (int 0)) (Some (int (blen b))) = Inr (int (blen b), m2)"
      "contents m2 c = splice_at 0 (take (blen b) (drop 0 (contents m1 b))) (contents m1 c)" "wf_buffer m2 c"
      using copy_memmove [of m1 b c 0 "blen b" 0 "blen b"] assms(1) c(2,3) c(5) [OF assms(1)] by auto
    then have "contents m2 c = contents m b"
      using c(3,4) c(5) [OF assms(1)] assms(1) by (simp add: splice_at_def)
    with fo False m2 copy_frame [OF m2(1)] c(5) show ?thesis by auto
  qed
qed

text \<open>C38: A buffer made from another buffer, from an array of numbers or from the JSON form of a buffer
  holds the same bytes (numbers modulo 256) in fresh memory: no existing buffer changes or shares
  a byte with it.\<close>

theorem buffer_from_copies:
  assumes "wf_buffer m b" "int (blen b) < kMaxLength" "int (length xs) < kMaxLength"
    "v = VBuf b \<and> bs = contents m b \<or> v = VArrayLike (int (length xs)) xs \<and> bs = map (\<lambda>x. word_of_int (num_int x)) xs \<or>
     v = VJson xs \<and> bs = map (\<lambda>x. word_of_int (num_int x)) xs"
  shows "\<exists>c m'. buffer_from m v VNone VNone = Inr (c, m') \<and> wf_buffer m' c \<and> contents m' c = bs \<and>
    (\<forall>d. wf_buffer m d \<longrightarrow> wf_buffer m' d \<and> contents m' d = contents m d \<and> disjoint_views c d)"
proof -
  from assms(4) consider "v = VBuf b" "bs = contents m b"
    | "v = VArrayLike (int (length xs)) xs" "bs = map (\<lambda>x. word_of_int (num_int x)) xs"
    | "v = VJson xs" "bs = map (\<lambda>x. word_of_int (num_int x)) xs" by blast
  then show ?thesis
  proof cases
    case 1
    then show ?thesis using fromObject_buffer [OF assms(1,2)] by (simp add: buffer_from_def)
  qed (use fromArrayLike_bytes [OF assms(3), of m] in \<open>simp_all add: buffer_from_def fromObject_def\<close>)
qed

theorem buffer_from_copies_witness:
  "\<exists>c m'. buffer_from \<lparr>arrays = [[7]], next_id = 1\<rparr> (VJson [Num 1, Num 300, Num (- 1)]) VNone VNone = Inr (c, m') \<and>
    contents m' c = [1, 44, 255]"
  using buffer_from_copies [of "\<lparr>arrays = [[7]], next_id = 1\<rparr>" "\<lparr>bid = 0, arr = 0, off = 0, blen = 1\<rparr>"
      "[Num 1, Num 300, Num (- 1)]" "VJson [Num 1, Num 300, Num (- 1)]" "[1, 44, 255]"]
  by (auto simp: wf_buffer_def kMaxLength_def)

section \<open>Concatenation\<close>

lemma copy_whole:
  assumes "wf_buffer m b" "wf_buffer m target" "disjoint_views b target" "bid b \<noteq> bid target" "ts + blen b \<le> blen target"
  shows "\<exists>k m'. copy m b target (Some (int ts)) None None = Inr (k, m') \<and> wf_buffer m' target \<and>
    contents m' target = splice_at ts (contents m b) (contents m target)"
proof (cases "blen b = 0")
  case True
  then have "contents m b = []" using assms(1) by (metis length_contents length_0_conv)
  with True assms show ?thesis by (auto simp: copy_def copy_range_def Let_def)
next
  case False
  have "copy m b target (Some (int ts)) None None = copy m b target (Some (int ts)) (Some (int 0)) (Some (int (blen b)))"
    by (simp add: copy_def copy_range_def)
  moreover have "min (blen b - 0) (blen target - ts) = blen b" using assms(5) by simp
  ultimately show ?thesis
    using copy_memmove [OF assms(1,2) _ _ _ _ refl, of 0 "blen b" ts] assms False by auto
qed

lemma concat_loop_bytes:
  assumes "wf_buffer m target" "\<And>b. b \<in> set bs \<Longrightarrow> wf_buffer m b \<and> disjoint_views target b \<and> disjoint_views b target \<and> bid b \<noteq> bid target"
    "pos + length (concat (map (contents m) bs)) = blen target"
  shows "\<exists>m'. concat_loop m target (int pos) (map VBuf bs) = Inr m' \<and> wf_buffer m' target \<and>
    contents m' target = take pos (contents m target) @ concat (map (contents m) bs) \<and>
    (\<forall>c. wf_buffer m c \<longrightarrow> wf_buffer m' c \<and> (disjoint_views target c \<longrightarrow> contents m' c = contents m c))"
  using assms
proof (induction bs arbitrary: m pos)
  case (Cons b bs)
  have b: "wf_buffer m b" "disjoint_views target b" "disjoint_views b target" "bid b \<noteq> bid target"
    using Cons.prems(2) by auto
  obtain k m1 where m1: "copy m b target (Some (int pos)) None None = Inr (k, m1)" "wf_buffer m1 target"
    "contents m1 target = splice_at pos (contents m b) (contents m target)"
    using copy_whole [OF b(1) Cons.prems(1) b(3,4), of pos] Cons.prems(3) b(1) by auto
  note fr = copy_frame [OF m1(1)]
  have keep: "contents m1 c = contents m c" if "c \<in> set bs" for c
    using fr that Cons.prems(2) by simp
  then have same: "map (contents m1) bs = map (contents m) bs" by simp
  obtain m2 where m2: "concat_loop m1 target (int (pos + blen b)) (map VBuf bs) = Inr m2" "wf_buffer m2 target"
    "contents m2 target = take (pos + blen b) (contents m1 target) @ concat (map (contents m) bs)"
    "\<forall>c. wf_buffer m1 c \<longrightarrow> wf_buffer m2 c \<and> (disjoint_views target c \<longrightarrow> contents m2 c = contents m1 c)"
    using Cons.IH [of m1 "pos + blen b"] m1(2) fr(1) Cons.prems b(1) unfolding same by auto
  have "take (pos + blen b) (contents m1 target) = take pos (contents m target) @ contents m b"
    using m1(3) b(1) Cons.prems(1,3) by (simp add: splice_at_def)
  then show ?case using m1(1) m2 fr by (auto simp: add.assoc)
qed simp

lemma fold_lengths:
  "foldl (\<lambda>a v. num_add a (val_length v)) (Num n) (map VBuf bs) = Num (n + int (sum_list (map blen bs)))"
  by (induction bs arbitrary: n) (simp_all add: val_length_def)

lemma sum_blen: "(\<And>b. b \<in> set bs \<Longrightarrow> wf_buffer m b) \<Longrightarrow> sum_list (map blen bs) = length (concat (map (contents m) bs))"
  by (induction bs) simp_all

text \<open>C37: \<open>Buffer.concat\<close> of buffers (possibly sharing memory with each other) gives a fresh buffer that
  holds their bytes one after the other, and changes no existing buffer.\<close>

theorem concat_bytes:
  assumes "\<forall>b \<in> set bs. wf_buffer m b" "bs \<noteq> []" "int (length (concat (map (contents m) bs))) < kMaxLength"
  shows "\<exists>c m'. buffer_concat m (map VBuf bs) None = Inr (c, m') \<and> wf_buffer m' c \<and>
    contents m' c = concat (map (contents m) bs) \<and>
    (\<forall>d. wf_buffer m d \<longrightarrow> wf_buffer m' d \<and> contents m' d = contents m d \<and> disjoint_views c d)"
proof -
  let ?n = "length (concat (map (contents m) bs))"
  obtain c m1 where c: "createBuffer m (int ?n) = Inr (c, m1)" "wf_buffer m1 c" "blen c = ?n"
    "\<And>d. wf_buffer m d \<Longrightarrow> wf_buffer m1 d \<and> contents m1 d = contents m d \<and> disjoint_views c d \<and>
      disjoint_views d c \<and> bid c \<noteq> bid d"
    using createBuffer_ok [of "int ?n" m] assms(3) by (metis less_imp_le nat_int of_nat_0_le_iff)
  have same: "map (contents m1) bs = map (contents m) bs" using assms(1) c(4) by simp
  obtain m2 where m2: "concat_loop m1 c (int 0) (map VBuf bs) = Inr m2" "wf_buffer m2 c"
    "contents m2 c = concat (map (contents m) bs)"
    "\<forall>d. wf_buffer m1 d \<longrightarrow> wf_buffer m2 d \<and> (disjoint_views c d \<longrightarrow> contents m2 d = contents m1 d)"
    using concat_loop_bytes [of m1 c bs 0] c assms(1) unfolding same by (auto simp: eq_commute)
  have "foldl (\<lambda>a v. num_add a (val_length v)) (Num 0) (map VBuf bs) = Num (int ?n)"
    using fold_lengths [of 0 bs] sum_blen [of bs m] assms(1) by simp
  then have "buffer_concat m (map VBuf bs) None = Inr (c, m2)"
    using assms(2,3) m2(1) c(1) by (simp add: buffer_concat_def allocUnsafe_eq)
  then show ?thesis using m2 c(4) by auto
qed

theorem concat_bytes_witness:
  "\<exists>c m'. buffer_concat \<lparr>arrays = [[1, 2, 3]], next_id = 2\<rparr>
      (map VBuf [\<lparr>bid = 0, arr = 0, off = 0, blen = 2\<rparr>, \<lparr>bid = 1, arr = 0, off = 1, blen = 2\<rparr>]) None = Inr (c, m') \<and>
    contents m' c = [1, 2, 2, 3]"
  using concat_bytes [of "[\<lparr>bid = 0, arr = 0, off = 0, blen = 2\<rparr>, \<lparr>bid = 1, arr = 0, off = 1, blen = 2\<rparr>]"
      "\<lparr>arrays = [[1, 2, 3]], next_id = 2\<rparr>"]
  by (auto simp: wf_buffer_def contents_def kMaxLength_def)

section \<open>Filling\<close>

lemma fill_loop_run:
  assumes "0 \<le> i" "wf_buffer m this"
    "\<And>m i j v. wf_buffer m this \<Longrightarrow> bytes (buf_set m this i v) j = bytes m j"
  shows "fill_loop m this bytes len start n i =
    store_run this m (i + start) (map (\<lambda>j. num_int (if len = 0 then Undef else bytes m (j mod len))) [i..n - 1])"
  using assms
proof (induction m this bytes len start n i rule: fill_loop.induct)
  case (1 m this bytes len start n i)
  show ?case
  proof (cases "i < n")
    case True
    let ?m1 = "buf_set m this (i + start) (num_int (if len = 0 then Undef else bytes m (i mod len)))"
    have ih: "fill_loop ?m1 this bytes len start n (i + 1) =
        store_run this ?m1 (i + 1 + start) (map (\<lambda>j. num_int (if len = 0 then Undef else bytes ?m1 (j mod len))) [i + 1..n - 1])"
      using True "1.prems" by (intro "1.IH") (simp_all add: wf_buffer_set)
    have "bytes ?m1 j = bytes m j" for j using "1.prems"(2,3) by blast
    moreover have "[i..n - 1] = i # [i + 1..n - 1]" using True by (simp add: upto_rec1)
    moreover have "i + 1 + start = i + start + 1" by simp
    moreover have "fill_loop m this bytes len start n i = fill_loop ?m1 this bytes len start n (i + 1)"
      using True by (subst fill_loop.simps) simp
    ultimately show ?thesis by (simp only: ih list.map put_run.simps)
  qed (subst fill_loop.simps, simp)
qed

lemma fill_loop_bytes:
  assumes "wf_buffer m this" "start \<le> fin" "fin \<le> blen this"
    "\<And>m i j v. wf_buffer m this \<Longrightarrow> bytes (buf_set m this i v) j = bytes m j"
  shows "contents (fill_loop m this bytes len (int start) (int fin - int start) 0) this =
    splice_at start (map (\<lambda>j. word_of_int (num_int (if len = 0 then Undef else bytes m (int j mod len)))) [0..<fin - start]) (contents m this)"
proof -
  let ?f = "\<lambda>j. num_int (if len = 0 then Undef else bytes m (j mod len))"
  have "map ?f [0..int fin - int start - 1] = map (\<lambda>j. ?f (int j)) [0..<fin - start]"
    using assms(2) by (intro nth_equalityI) (simp_all add: nth_upto)
  moreover have "fill_loop m this bytes len (int start) (int fin - int start) 0 =
      store_run this m (int start) (map ?f [0..int fin - int start - 1])"
    using fill_loop_run [of 0 m this bytes len "int start" "int fin - int start"] assms(1,4) by simp
  ultimately show ?thesis
    using view.put_run_bytes [of m this "int start" "map (\<lambda>j. ?f (int j)) [0..<fin - start]"] assms(1-3)
    by (simp add: comp_def)
qed

lemma fill_range:
  assumes "start < fin" "fin \<le> blen this" "blen this \<le> 2147483647"
  shows "\<not> (arg_less (arg_number (Number (int start))) (Some 0) \<or>
       arg_less (Some (int (blen this))) (arg_number (Number (int start))) \<or>
       arg_less (Some (int (blen this))) (arg_number (Number (int fin))))"
    "\<not> arg_le (arg_number (Number (int fin))) (arg_number (Number (int start)))"
    "arg_shr0 (arg_number (Number (int start))) = int start" "arg_shr0 (arg_number (Number (int fin))) = int fin"
  using assms js_shr_small [of "int start" 0] js_shr_small [of "int fin" 0]
  by (simp_all add: arg_less_def arg_le_def arg_shr0_def)

text \<open>C39: \<open>fill\<close> over a range: with a number every byte of the range becomes the number modulo 256;
  with a non-empty buffer that shares no byte with the target, the range repeats its bytes.  The
  bytes outside the range stay.\<close>

theorem fill_repeats:
  assumes "wf_buffer m this" "start < fin" "fin \<le> blen this" "wf_buffer m b" "disjoint_views this b" "0 < blen b"
  shows "\<exists>m1 m2. fill m this (VNum n) (Number (int start)) (Number (int fin)) Undefined = Inr m1 \<and>
      contents m1 this = splice_at start (replicate (fin - start) (word_of_int n)) (contents m this) \<and>
      fill m this (VBuf b) (Number (int start)) (Number (int fin)) Undefined = Inr m2 \<and>
      contents m2 this = splice_at start (map (\<lambda>j. contents m b ! (j mod blen b)) [0..<fin - start]) (contents m this)"
proof -
  have this: "blen this \<le> 2147483647" using assms(1) by (simp add: wf_buffer_def)
  note r = fill_range [OF assms(2,3) this]
  have n: "fill m this (VNum n) (Number (int start)) (Number (int fin)) Undefined =
      Inr (fill_loop m this (\<lambda>_ _. Num (js_and n 255)) 1 (int start) (int fin - int start) 0)"
    unfolding fill_def fill_args_def Let_def using r by (simp del: arg_number.simps)
  have b: "fill m this (VBuf b) (Number (int start)) (Number (int fin)) Undefined =
      Inr (fill_loop m this (\<lambda>m i. buf_get m b i) (int (blen b)) (int start) (int fin - int start) 0)"
    unfolding fill_def fill_args_def Let_def using r by (simp del: arg_number.simps)
  have rd: "num_int (buf_get m b (int j mod int (blen b))) = uint (contents m b ! (j mod blen b))" for j
    using assms(4,6) by (simp add: buf_get_def elem_def zmod_int [symmetric])
  have c1: "contents (fill_loop m this (\<lambda>_ _. Num (js_and n 255)) 1 (int start) (int fin - int start) 0) this =
      splice_at start (replicate (fin - start) (word_of_int n)) (contents m this)"
    using fill_loop_bytes [OF assms(1) _ assms(3), of start "\<lambda>_ _. Num (js_and n 255)" 1] assms(2)
    by (simp add: js_simps map_replicate_const)
  have k: "buf_get (buf_set m this i v) b j = buf_get m b j" for m i j v
    using assms(5) by (simp add: buf_get_def contents_set_disjoint)
  have c2: "contents (fill_loop m this (\<lambda>m i. buf_get m b i) (int (blen b)) (int start) (int fin - int start) 0) this =
      splice_at start (map (\<lambda>j. contents m b ! (j mod blen b)) [0..<fin - start]) (contents m this)"
    using fill_loop_bytes [where bytes = "\<lambda>m i. buf_get m b i" and len = "int (blen b)", OF assms(1) _ assms(3) k, of start]
      assms(2,6) by (simp add: rd)
  show ?thesis using n b c1 c2 by blast
qed

theorem fill_repeats_witness:
  "\<exists>m1 m2. fill \<lparr>arrays = [[1, 2, 3, 4], [8, 9]], next_id = 2\<rparr> \<lparr>bid = 0, arr = 0, off = 0, blen = 4\<rparr> (VNum 257)
      (Number (int 1)) (Number (int 4)) Undefined = Inr m1 \<and>
    contents m1 \<lparr>bid = 0, arr = 0, off = 0, blen = 4\<rparr> = [1, 1, 1, 1] \<and>
    fill \<lparr>arrays = [[1, 2, 3, 4], [8, 9]], next_id = 2\<rparr> \<lparr>bid = 0, arr = 0, off = 0, blen = 4\<rparr>
      (VBuf \<lparr>bid = 1, arr = 1, off = 0, blen = 2\<rparr>) (Number (int 1)) (Number (int 4)) Undefined = Inr m2 \<and>
    contents m2 \<lparr>bid = 0, arr = 0, off = 0, blen = 4\<rparr> = [1, 8, 9, 8]"
proof -
  have u: "[0..<3 :: nat] = [0, 1, 2]" "replicate 3 (257 :: byte) = [1, 1, 1]" by (simp_all add: upt_rec numeral_3_eq_3)
  show ?thesis
    using fill_repeats [of "\<lparr>arrays = [[1, 2, 3, 4], [8, 9]], next_id = 2\<rparr>" "\<lparr>bid = 0, arr = 0, off = 0, blen = 4\<rparr>"
        1 4 "\<lparr>bid = 1, arr = 1, off = 0, blen = 2\<rparr>" 257]
    by (simp add: wf_buffer_def contents_def disjoint_views_def splice_at_def u)
qed

lemma utf8_high_byte: "128 \<le> uint b \<Longrightarrow> toString [b] None = Inr [65533]"
proof -
  assume b: "128 \<le> uint b"
  have "decode_sequence [b] 0 1 = None"
    using b by (simp add: decode_sequence_def sequence_length_def elem_def Let_def)
  then have "utf8_slice_loop [b] 0 1 = [65533]"
    by (subst utf8_slice_loop.simps) (simp add: utf8_step_def utf8_slice_loop.simps)
  then show ?thesis
    by (simp add: toString_def to_int32_id utf8Slice_def decodeCodePointsArray_eq)
qed

lemma fill_bytes_hex:
  assumes "128 \<le> uint b" "wf_buffer m this"
  shows "\<exists>m1. fill_bytes m (VStr (hex_text [b])) (String (js ''hex'')) = Inr ([239, 191, 189], m1) \<and>
    wf_buffer m1 this \<and> contents m1 this = contents m this"
proof -
  have ne: "js ''hex'' \<noteq> []" by (simp add: js_def)
  obtain c m1 where c: "fromString m (hex_text [b]) (Some (js ''hex'')) = Inr (c, m1)" "contents m1 c = [b]"
    "\<forall>d. wf_buffer m d \<longrightarrow> wf_buffer m1 d \<and> contents m1 d = contents m d \<and> disjoint_views c d"
    using fromString_round [of Hex "hex_text [b]" "[b]" "js ''hex''" m] ne by (auto simp: represents_simps encoding_names)
  have "utf8ToBytes [65533] None = Inr [239, 191, 189]" by code_simp
  then show ?thesis
    using c assms(2) utf8_high_byte [OF assms(1)]
    by (simp add: fill_bytes_def Buffer_def buffer_from_def arg_val_def val_string_def)
qed

text \<open>\<open>fill\<close> with a string and an encoding sends the bytes through a UTF-8 string: filling with the
  hex digits of a byte above 127 fills with the encoding EF BF BD of the replacement character
  instead of that byte.\<close>

theorem fill_hex_mangled:
  assumes "wf_buffer m this" "0 < blen this" "128 \<le> uint b"
  shows "\<exists>m'. fill m this (VStr (hex_text [b])) (String (js ''hex'')) Undefined Undefined = Inr m' \<and>
    contents m' this = map (\<lambda>j. [239, 191, 189] ! (j mod 3)) [0..<blen this]"
proof -
  obtain m1 where m1: "fill_bytes m (VStr (hex_text [b])) (String (js ''hex'')) = Inr ([239, 191, 189], m1)"
    "wf_buffer m1 this" "contents m1 this = contents m this"
    using fill_bytes_hex [OF assms(3,1)] by blast
  have len: "length (hex_text [b]) = 2" by simp
  then have ne: "hex_text [b] \<noteq> []" "length (hex_text [b]) \<noteq> 1" by (metis list.size(3) zero_neq_numeral, simp)
  have a: "fill_args (int (blen this)) (VStr (hex_text [b])) (String (js ''hex'')) Undefined Undefined =
      Inr (VStr (hex_text [b]), Number 0, Number (int (blen this)), String (js ''hex''))"
    using ne(2) isEncoding_switch [of "js ''hex''"] by (simp add: fill_args_def is_string_def encoding_names Let_def)
  have l: "blen this \<le> 2147483647" using assms(1) by (simp add: wf_buffer_def)
  note r = fill_range [of 0 "blen this" this, simplified of_nat_0, OF assms(2) order_refl l]
  have "fill m this (VStr (hex_text [b])) (String (js ''hex'')) Undefined Undefined =
      Inr (fill_loop m1 this (\<lambda>_ i. int_elem [239, 191, 189] i) 3 0 (int (blen this)) 0)"
    unfolding fill_def a Let_def using r ne(1) m1(1) by (simp del: arg_number.simps)
  moreover have "contents (fill_loop m1 this (\<lambda>_ i. int_elem [239, 191, 189] i) 3 0 (int (blen this)) 0) this =
      map (\<lambda>j. word_of_int (num_int (int_elem [239, 191, 189] (int j mod 3)))) [0..<blen this]"
    using fill_loop_bytes [of m1 this 0 "blen this" "\<lambda>_ i. int_elem [239, 191, 189] i" 3] m1(2)
    by (simp add: splice_at_def)
  moreover have "word_of_int (num_int (int_elem [239, 191, 189] (int j mod 3))) = ([239, 191, 189] :: byte list) ! (j mod 3)" for j
  proof -
    have "int j mod 3 = int (j mod 3)" by (simp add: zmod_int)
    moreover have "j mod 3 = 0 \<or> j mod 3 = 1 \<or> j mod 3 = 2" by linarith
    ultimately show ?thesis by (elim disjE) (simp_all add: int_elem_def)
  qed
  ultimately show ?thesis by simp
qed

theorem fill_hex_mangled_witness:
  "\<exists>m'. fill \<lparr>arrays = [[1, 2, 3, 4]], next_id = 1\<rparr> \<lparr>bid = 0, arr = 0, off = 0, blen = 4\<rparr>
      (VStr (js ''ff'')) (String (js ''hex'')) Undefined Undefined = Inr m' \<and>
    contents m' \<lparr>bid = 0, arr = 0, off = 0, blen = 4\<rparr> = [239, 191, 189, 239]"
proof -
  have "hex_text [255] = js ''ff''" by code_simp
  moreover have "[0..<4 :: nat] = [0, 1, 2, 3]" by (simp add: upt_rec)
  ultimately show ?thesis
    using fill_hex_mangled [of "\<lparr>arrays = [[1, 2, 3, 4]], next_id = 1\<rparr>" "\<lparr>bid = 0, arr = 0, off = 0, blen = 4\<rparr>" 255]
    by (simp add: wf_buffer_def)
qed

end
