(* ===== verification/Buffer_Search.thy ===== *)
theory Buffer_Search
  imports Buffer_Ops Complex_Main
begin

text \<open>
  Searching (\<open>indexOf\<close>, \<open>lastIndexOf\<close>, \<open>includes\<close>) and byte swapping in \<open>Buffer\<close> (module 379 of
  \<open>swagger-ui.js\<close>).  With a 16-bit encoding the source divides lengths and offsets by two and may
  step over half indices; the model keeps every index multiplied by \<open>indexSize\<close>, so that it is a
  byte position, and divides where the source returns an index.
\<close>

section \<open>Searching\<close>

definition wide_name :: "arg \<Rightarrow> bool" where
  "wide_name encoding =
     (case encoding of
        String e \<Rightarrow> toLowerCase e \<in> {js ''ucs2'', js ''ucs-2'', js ''utf16le'', js ''utf-16le''}
      | _ \<Rightarrow> False)"

abbreviation index_size :: "bool \<Rightarrow> nat" where
  "index_size wide \<equiv> (if wide then 2 else 1)"

text \<open>\<open>read(buf, i)\<close> at byte position \<open>p = i * indexSize\<close>.\<close>

definition read_at :: "bool \<Rightarrow> byte list \<Rightarrow> int \<Rightarrow> jsnum result" where
  "read_at wide buf p = (if wide then readUInt16BE buf p False else Inr (elem buf p))"

text \<open>
  The forward loop.  The source keeps \<open>i\<close> and \<open>foundIndex\<close>, which is -1 while no match is being
  followed; here \<open>f\<close> is the start of the match being tried and \<open>k\<close> the number of bytes matched,
  so \<open>i\<close> is at \<open>f + k\<close> and \<open>foundIndex\<close> is -1 exactly when \<open>k\<close> is 0.  After a mismatch the
  search goes on one step after \<open>f\<close>.
\<close>

function index_loop :: "bool \<Rightarrow> byte list \<Rightarrow> byte list \<Rightarrow> int \<Rightarrow> nat \<Rightarrow> int result" where
  "index_loop wide hay val f k =
     (if f + int k < int (length hay)
      then case read_at wide hay (f + int k) of
             Inl e \<Rightarrow> Inl e
           | Inr x \<Rightarrow>
               (case read_at wide val (int k) of
                  Inl e \<Rightarrow> Inl e
                | Inr y \<Rightarrow>
                    if x = y
                    then if k + index_size wide = length val then Inr f
                         else index_loop wide hay val f (k + index_size wide)
                    else index_loop wide hay val (f + int (index_size wide)) 0)
      else Inr (- 1))"
  by pat_completeness auto
termination
  by (relation "measures [\<lambda>(w, hay, val, f, k). nat (int (length hay) - f),
        \<lambda>(w, hay, val, f, k). nat (int (length hay) - (f + int k))]") auto

declare index_loop.simps [simp del]

text \<open>The inner loop of the backward search, and the search.\<close>

function match_loop :: "bool \<Rightarrow> byte list \<Rightarrow> byte list \<Rightarrow> int \<Rightarrow> nat \<Rightarrow> bool result" where
  "match_loop wide hay val p q =
     (if q < length val
      then case read_at wide hay (p + int q) of
             Inl e \<Rightarrow> Inl e
           | Inr x \<Rightarrow>
               (case read_at wide val (int q) of
                  Inl e \<Rightarrow> Inl e
                | Inr y \<Rightarrow> if x \<noteq> y then Inr False else match_loop wide hay val p (q + index_size wide))
      else Inr True)"
  by pat_completeness auto
termination
  by (relation "measure (\<lambda>(w, hay, val, p, q). length val - q)") auto

function last_loop :: "bool \<Rightarrow> byte list \<Rightarrow> byte list \<Rightarrow> int \<Rightarrow> rat result" where
  "last_loop wide hay val p =
     (if p \<ge> 0
      then case match_loop wide hay val p 0 of
             Inl e \<Rightarrow> Inl e
           | Inr found \<Rightarrow> if found then Inr (of_int p / of_nat (index_size wide))
                          else last_loop wide hay val (p - int (index_size wide))
      else Inr (- 1))"
  by pat_completeness auto
termination
  by (relation "measure (\<lambda>(w, hay, val, p). nat (p + 1))") auto

declare match_loop.simps [simp del] last_loop.simps [simp del]

definition arrayIndexOf :: "byte list \<Rightarrow> byte list \<Rightarrow> int \<Rightarrow> arg \<Rightarrow> bool \<Rightarrow> rat result" where
  "arrayIndexOf hay val byteOffset encoding dir =
     (let wide = wide_name encoding in
      if wide \<and> (length hay < 2 \<or> length val < 2) then Inr (- 1)
      else if dir then map_sum id of_int (index_loop wide hay val byteOffset 0)
      else last_loop wide hay val
             (if byteOffset + int (length val) > int (length hay)
              then int (length hay) - int (length val) else byteOffset))"

text \<open>\<open>Uint8Array.prototype.indexOf\<close> and \<open>lastIndexOf\<close> with a start in range.\<close>

definition typed_indexOf :: "byte list \<Rightarrow> int \<Rightarrow> int \<Rightarrow> int" where
  "typed_indexOf buf v start =
     (case find (\<lambda>i. elem buf i = Num v) [start..int (length buf) - 1] of None \<Rightarrow> - 1 | Some i \<Rightarrow> i)"

definition typed_lastIndexOf :: "byte list \<Rightarrow> int \<Rightarrow> int \<Rightarrow> int" where
  "typed_lastIndexOf buf v start =
     (case find (\<lambda>i. elem buf i = Num v) (rev [0..start]) of None \<Rightarrow> - 1 | Some i \<Rightarrow> i)"

text \<open>The offset after clipping; \<open>None\<close> when the search is over before it starts.\<close>

definition search_start :: "int \<Rightarrow> arg \<Rightarrow> bool \<Rightarrow> int option" where
  "search_start len byteOffset dir =
     (let n = (case byteOffset of
                 Undefined \<Rightarrow> if dir then 0 else len - 1
               | Number x \<Rightarrow> if x > 2147483647 then 2147483647 else if x < - 2147483648 then - 2147483648 else x
               | String e \<Rightarrow> 0);
          n = (if n < 0 then len + n else n)
      in if n \<ge> len then (if dir then None else Some (len - 1))
         else if n < 0 then (if dir then Some 0 else None)
         else Some n)"

definition bidirectionalIndexOf :: "mem \<Rightarrow> buffer \<Rightarrow> jsval \<Rightarrow> arg \<Rightarrow> arg \<Rightarrow> bool \<Rightarrow> rat result" where
  "bidirectionalIndexOf m buffer v byteOffset0 encoding0 dir =
     (let buf = contents m buffer;
          encoding = (if is_string byteOffset0 then byteOffset0 else encoding0)
      in if buf = [] then Inr (- 1)
         else case search_start (int (length buf)) byteOffset0 dir of
                None \<Rightarrow> Inr (- 1)
              | Some byteOffset \<Rightarrow>
                  (let search = (\<lambda>val. if val = [] then Inr (- 1) else arrayIndexOf buf val byteOffset encoding dir)
                   in case v of
                        VStr s \<Rightarrow>
                          (case buffer_from m v (arg_val encoding) VNone of
                             Inl e \<Rightarrow> Inl e
                           | Inr (b, m1) \<Rightarrow> search (contents m1 b))
                      | VBuf b \<Rightarrow> search (contents m b)
                      | VNum n \<Rightarrow>
                          Inr (of_int (if dir then typed_indexOf buf (js_and n 255) byteOffset
                                       else typed_lastIndexOf buf (js_and n 255) byteOffset))
                      | _ \<Rightarrow> Inl (TypeError ''val must be string, number or Buffer'')))"

definition indexOf :: "mem \<Rightarrow> buffer \<Rightarrow> jsval \<Rightarrow> arg \<Rightarrow> arg \<Rightarrow> rat result" where
  "indexOf m this v byteOffset encoding = bidirectionalIndexOf m this v byteOffset encoding True"

definition lastIndexOf :: "mem \<Rightarrow> buffer \<Rightarrow> jsval \<Rightarrow> arg \<Rightarrow> arg \<Rightarrow> rat result" where
  "lastIndexOf m this v byteOffset encoding = bidirectionalIndexOf m this v byteOffset encoding False"

definition buf_includes :: "mem \<Rightarrow> buffer \<Rightarrow> jsval \<Rightarrow> arg \<Rightarrow> arg \<Rightarrow> bool result" where
  "buf_includes m this v byteOffset encoding = map_sum id (\<lambda>i. i \<noteq> - 1) (indexOf m this v byteOffset encoding)"

section \<open>Swapping bytes\<close>

definition swap :: "mem \<Rightarrow> buffer \<Rightarrow> int \<Rightarrow> int \<Rightarrow> mem" where
  "swap s b n m =
     (let i = num_int (buf_get s b n);
          s1 = buf_set s b n (num_int (buf_get s b m))
      in buf_set s1 b m i)"

text \<open>The loop of the three swaps: at each multiple of the width, the given exchanges.\<close>

function swap_loop :: "nat \<Rightarrow> (int \<times> int) list \<Rightarrow> mem \<Rightarrow> buffer \<Rightarrow> int \<Rightarrow> int \<Rightarrow> mem" where
  "swap_loop step ex m this len i =
     (if i < len
      then swap_loop step ex (fold (\<lambda>(p, q) m. swap m this (i + p) (i + q)) ex m) this len (i + int (Suc step))
      else m)"
  by pat_completeness auto
termination
  by (relation "measure (\<lambda>(step, ex, m, this, len, i). nat (len - i))") auto

declare swap_loop.simps [simp del]

definition swap16 :: "mem \<Rightarrow> buffer \<Rightarrow> mem result" where
  "swap16 m this =
     (let len = int (blen this) in
      if len mod 2 \<noteq> 0 then Inl (RangeError ''Buffer size must be a multiple of 16-bits'')
      else Inr (swap_loop 1 [(0, 1)] m this len 0))"

definition swap32 :: "mem \<Rightarrow> buffer \<Rightarrow> mem result" where
  "swap32 m this =
     (let len = int (blen this) in
      if len mod 4 \<noteq> 0 then Inl (RangeError ''Buffer size must be a multiple of 32-bits'')
      else Inr (swap_loop 3 [(0, 3), (1, 2)] m this len 0))"

definition swap64 :: "mem \<Rightarrow> buffer \<Rightarrow> mem result" where
  "swap64 m this =
     (let len = int (blen this) in
      if len mod 8 \<noteq> 0 then Inl (RangeError ''Buffer size must be a multiple of 64-bits'')
      else Inr (swap_loop 7 [(0, 7), (1, 6), (2, 5), (3, 4)] m this len 0))"

text \<open>\<open>toJSON().data\<close>\<close>

definition toJSON :: "byte list \<Rightarrow> jsval" where
  "toJSON this = VJson (map (\<lambda>b. Num (uint b)) this)"

end
