(* ===== verification/Search_Laws.thy ===== *)
theory Search_Laws
  imports Buffer_Search
begin

text \<open>
  Correctness of the searches and of the byte swaps: \<open>indexOf\<close> finds the first occurrence and
  \<open>lastIndexOf\<close> the last one, the swaps reverse each group of bytes and are their own inverse.
\<close>

section \<open>Searching bytes\<close>

definition occurs_at :: "byte list \<Rightarrow> byte list \<Rightarrow> int \<Rightarrow> bool" where
  "occurs_at hay val f \<longleftrightarrow> 0 \<le> f \<and> f + int (length val) \<le> int (length hay) \<and>
     take (length val) (drop (nat f) hay) = val"

lemma occurs_at_nth:
  "occurs_at hay val f \<longleftrightarrow> 0 \<le> f \<and> f + int (length val) \<le> int (length hay) \<and>
     (\<forall>j < length val. elem hay (f + int j) = elem val (int j))"
proof (cases "0 \<le> f \<and> f + int (length val) \<le> int (length hay)")
  case True
  then have len: "nat f + length val \<le> length hay" by linarith
  have "elem hay (f + int j) = elem val (int j) \<longleftrightarrow> take (length val) (drop (nat f) hay) ! j = val ! j"
    if "j < length val" for j
    using that True len by (simp add: elem_def nat_add_distrib word_uint_eq_iff)
  with True len show ?thesis by (simp add: occurs_at_def list_eq_iff_nth_eq)
qed (auto simp: occurs_at_def)

lemma elem_eq_Num: "elem hay p = elem val (int j) \<Longrightarrow> j < length val \<Longrightarrow> 0 \<le> p \<and> p < int (length hay)"
  by (auto simp: elem_def split: if_splits)

text \<open>The first occurrence from a position on, the last one up to a position, or -1.\<close>

definition first_from :: "byte list \<Rightarrow> byte list \<Rightarrow> int \<Rightarrow> int \<Rightarrow> bool" where
  "first_from hay val f r \<longleftrightarrow> r = - 1 \<and> (\<forall>g \<ge> f. \<not> occurs_at hay val g) \<or>
     f \<le> r \<and> occurs_at hay val r \<and> (\<forall>g. f \<le> g \<and> g < r \<longrightarrow> \<not> occurs_at hay val g)"

definition last_upto :: "byte list \<Rightarrow> byte list \<Rightarrow> int \<Rightarrow> int \<Rightarrow> bool" where
  "last_upto hay val p r \<longleftrightarrow> r = - 1 \<and> (\<forall>g. g \<le> p \<longrightarrow> \<not> occurs_at hay val g) \<or>
     r \<le> p \<and> occurs_at hay val r \<and> (\<forall>g. r < g \<and> g \<le> p \<longrightarrow> \<not> occurs_at hay val g)"

lemma first_from_skip:
  assumes "\<not> occurs_at hay val f" "first_from hay val (f + 1) r"
  shows "first_from hay val f r"
proof -
  have "g = f \<or> f + 1 \<le> g" if "f \<le> g" for g using that by linarith
  moreover have "f + 1 \<le> r \<Longrightarrow> f \<le> r" by simp
  ultimately show ?thesis using assms unfolding first_from_def by blast
qed

lemma last_upto_skip:
  assumes "\<not> occurs_at hay val p" "last_upto hay val (p - 1) r"
  shows "last_upto hay val p r"
proof -
  have "g = p \<or> g \<le> p - 1" if "g \<le> p" for g using that by linarith
  moreover have "r \<le> p - 1 \<Longrightarrow> r \<le> p" by simp
  ultimately show ?thesis using assms unfolding last_upto_def by blast
qed

text \<open>The forward loop: the part of \<open>val\<close> before \<open>k\<close> already matches at \<open>f\<close>.\<close>

lemma index_loop_first:
  assumes "0 \<le> f" "k < length val" "\<forall>j < k. elem hay (f + int j) = elem val (int j)"
  shows "\<exists>r. index_loop False hay val f k = Inr r \<and> first_from hay val f r"
  using assms
proof (induction False hay val f k rule: index_loop.induct)
  case (1 hay val f k)
  note step = index_loop.simps [of False hay val f k]
  have rd: "read_at False hay (f + int k) = Inr (elem hay (f + int k))" "read_at False val (int k) = Inr (elem val (int k))"
    by (simp_all add: read_at_def)
  consider "\<not> f + int k < int (length hay)"
    | "f + int k < int (length hay)" "elem hay (f + int k) \<noteq> elem val (int k)"
    | "f + int k < int (length hay)" "elem hay (f + int k) = elem val (int k)" by blast
  then show ?case
  proof cases
    case 1
    then have "\<forall>g \<ge> f. \<not> occurs_at hay val g" using "1.prems"(2) by (auto simp: occurs_at_def)
    with 1 show ?thesis by (simp add: step first_from_def)
  next
    case 2
    then have "index_loop False hay val f k = index_loop False hay val (f + 1) 0"
      by (simp add: step read_at_def)
    moreover have "\<not> occurs_at hay val f" using 2 "1.prems"(2) by (auto simp: occurs_at_nth)
    moreover have "0 < length val" using "1.prems"(2) by (cases val) simp_all
    ultimately show ?thesis
      using "1.hyps"(2) [OF 2(1) rd 2(2)] "1.prems"(1) first_from_skip by auto
  next
    case 3
    have m: "\<forall>j < Suc k. elem hay (f + int j) = elem val (int j)"
      using 3 "1.prems"(3) by (auto simp: less_Suc_eq)
    show ?thesis
    proof (cases "Suc k = length val")
      case True
      then have "occurs_at hay val f" using 3 m "1.prems"(1) by (auto simp: occurs_at_nth)
      with True 3 show ?thesis by (auto simp: step read_at_def first_from_def)
    next
      case False
      then have "index_loop False hay val f k = index_loop False hay val f (Suc k)"
        using 3 by (simp add: step read_at_def)
      moreover have "Suc k < length val" using False "1.prems"(2) by simp
      ultimately show ?thesis
        using "1.hyps"(1) [OF 3(1) rd 3(2)] False m "1.prems"(1) by (simp add: read_at_def)
    qed
  qed
qed

lemma match_loop_iff:
  assumes "0 \<le> p" "\<forall>j < q. elem hay (p + int j) = elem val (int j)"
  shows "match_loop False hay val p q = Inr (\<forall>j < length val. elem hay (p + int j) = elem val (int j))"
  using assms
proof (induction False hay val p q rule: match_loop.induct)
  case (1 hay val p q)
  show ?case
  proof (cases "q < length val \<and> elem hay (p + int q) = elem val (int q)")
    case True
    then have "\<forall>j < q + 1. elem hay (p + int j) = elem val (int j)" using "1.prems"(2) by (auto simp: less_Suc_eq)
    then show ?thesis
      using 1 True by (subst match_loop.simps) (simp add: read_at_def)
  next
    case False
    then show ?thesis
      using "1.prems"(2) by (subst match_loop.simps) (auto simp: read_at_def)
  qed
qed

lemma match_loop_occurs:
  assumes "0 \<le> p" "val \<noteq> []"
  shows "match_loop False hay val p 0 = Inr (occurs_at hay val p)"
proof -
  have "(\<forall>j < length val. elem hay (p + int j) = elem val (int j)) \<Longrightarrow> p + int (length val) \<le> int (length hay)"
    using assms elem_eq_Num [of hay "p + int (length val - 1)" val "length val - 1"]
    by (cases val) (auto simp: less_Suc_eq_le)
  then have "occurs_at hay val p \<longleftrightarrow> (\<forall>j < length val. elem hay (p + int j) = elem val (int j))"
    using assms(1) by (auto simp: occurs_at_nth)
  then show ?thesis using match_loop_iff [OF assms(1), of 0 hay val] by simp
qed

lemma last_loop_last:
  assumes "val \<noteq> []"
  shows "\<exists>r. last_loop False hay val p = Inr (of_int r) \<and> last_upto hay val p r"
  using assms
proof (induction False hay val p rule: last_loop.induct)
  case (1 hay val p)
  note step = last_loop.simps [of False hay val p]
  consider "\<not> 0 \<le> p" | "0 \<le> p" "occurs_at hay val p" | "0 \<le> p" "\<not> occurs_at hay val p" by blast
  then show ?case
  proof cases
    case 1
    then show ?thesis by (intro exI [of _ "- 1"]) (auto simp: step occurs_at_def last_upto_def)
  next
    case 2
    then show ?thesis using match_loop_occurs [OF 2(1) "1.prems"] by (intro exI [of _ p]) (auto simp: step last_upto_def)
  next
    case 3
    note mo = match_loop_occurs [OF 3(1) "1.prems"]
    have "last_loop False hay val p = last_loop False hay val (p - 1)" using 3 mo by (simp add: step)
    then show ?thesis
      using "1.hyps" [OF 3(1) mo 3(2) "1.prems"] last_upto_skip [OF 3(2)] by auto
  qed
qed

lemma occurs_at_single: "occurs_at hay [w] g \<longleftrightarrow> elem hay g = Num (uint w)"
  by (auto simp: occurs_at_nth elem_def)

lemma occurs_range: "occurs_at hay val g \<Longrightarrow> val \<noteq> [] \<Longrightarrow> 0 \<le> g \<and> g \<le> int (length hay) - 1"
  by (cases val) (auto simp: occurs_at_def)

lemma typed_indexOf_first:
  assumes "0 \<le> k"
  shows "first_from hay [w] k (typed_indexOf hay (uint w) k)"
proof (cases "find (occurs_at hay [w]) [k..int (length hay) - 1]")
  case None
  then have "\<forall>g \<ge> k. \<not> occurs_at hay [w] g" using occurs_range [of hay "[w]"] by (auto simp: find_None_iff)
  with None show ?thesis by (simp add: typed_indexOf_def occurs_at_single [symmetric] first_from_def)
next
  case (Some i)
  then obtain j where j: "j < length [k..int (length hay) - 1]" "occurs_at hay [w] i" "i = k + int j"
    "\<forall>g < j. \<not> occurs_at hay [w] (k + int g)"
    by (auto simp: find_Some_iff nth_upto)
  have "\<not> occurs_at hay [w] g" if "k \<le> g" "g < i" for g
  proof -
    have "nat (g - k) < j" "k + int (nat (g - k)) = g" using that j(3) by auto
    with j(4) show ?thesis by metis
  qed
  with Some j show ?thesis by (simp add: typed_indexOf_def occurs_at_single [symmetric] first_from_def)
qed

lemma typed_lastIndexOf_last: "last_upto hay [w] p (typed_lastIndexOf hay (uint w) p)"
proof (cases "find (occurs_at hay [w]) (rev [0..p])")
  case None
  then have "\<forall>g. g \<le> p \<longrightarrow> \<not> occurs_at hay [w] g" using occurs_range [of hay "[w]"] by (auto simp: find_None_iff)
  with None show ?thesis by (simp add: typed_lastIndexOf_def occurs_at_single [symmetric] last_upto_def)
next
  case (Some i)
  have nth: "rev [0..p] ! g = p - int g" if "g < length [0..p]" for g
    using that by (simp add: rev_nth nth_upto)
  obtain j where j: "j < length [0..p]" "occurs_at hay [w] i" "i = p - int j"
    "\<forall>g < j. \<not> occurs_at hay [w] (p - int g)"
    using Some nth by (auto simp: find_Some_iff)
  have "\<not> occurs_at hay [w] g" if "i < g" "g \<le> p" for g
  proof -
    have "nat (p - g) < j" "p - int (nat (p - g)) = g" using that j(3) by auto
    with j(4) show ?thesis by metis
  qed
  with Some j show ?thesis by (simp add: typed_lastIndexOf_def occurs_at_single [symmetric] last_upto_def)
qed

text \<open>The bytes a searched value stands for.\<close>

definition searched :: "mem \<Rightarrow> jsval \<Rightarrow> byte list \<Rightarrow> bool" where
  "searched m v val \<longleftrightarrow> val \<noteq> [] \<and> length val \<le> 2147483647 \<and>
     (case v of VBuf b \<Rightarrow> val = contents m b | VNum n \<Rightarrow> val = [word_of_int n]
      | VStr s \<Rightarrow> represents Utf8 s val | _ \<Rightarrow> False)"

lemma byte_of_int: "uint (word_of_int n :: byte) = js_and n 255"
  by (simp add: js_simps uint_word_of_int)

lemma search_start_eq:
  assumes "\<bar>x\<bar> \<le> 2147483647" "p = (if x < 0 then len + x else x)"
  shows "search_start len (Number x) dir =
    (if p \<ge> len then (if dir then None else Some (len - 1))
     else if p < 0 then (if dir then Some 0 else None) else Some p)"
proof -
  have e: "(if x > 2147483647 then 2147483647 else if x < - 2147483648 then - 2147483648 else x) = x"
    using assms(1) by auto
  show ?thesis unfolding search_start_def arg.case Let_def assms(2) e by (rule refl)
qed

lemma search_bytes:
  assumes "searched m v val" "contents m b \<noteq> []" "search_start (int (length (contents m b))) (Number x) dir = Some k"
  shows "bidirectionalIndexOf m b v (Number x) Undefined dir =
    (case v of VNum n \<Rightarrow> Inr (of_int (if dir then typed_indexOf (contents m b) (uint (hd val)) k
                                   else typed_lastIndexOf (contents m b) (uint (hd val)) k))
     | _ \<Rightarrow> arrayIndexOf (contents m b) val k Undefined dir)"
proof (cases v)
  case (VStr s)
  have sw: "encoding_switch (js ''utf8'') = Some Utf8" "js ''utf8'' \<noteq> []" by (simp_all add: encoding_names) (simp add: js_def)
  have "fromString m s None = fromString m s (Some (js ''utf8''))" using sw(2) by (simp add: fromString_def)
  moreover obtain c m' where "fromString m s (Some (js ''utf8'')) = Inr (c, m')" "contents m' c = val"
    using fromString_round [of Utf8 s val "js ''utf8''" m] assms(1) sw VStr by (auto simp: searched_def)
  ultimately show ?thesis
    using assms VStr by (simp add: bidirectionalIndexOf_def is_string_def searched_def buffer_from_def
        arg_val_def val_string_def)
qed (use assms in \<open>auto simp: bidirectionalIndexOf_def is_string_def searched_def byte_of_int Let_def\<close>)

lemma arrayIndexOf_first:
  assumes "val \<noteq> []" "0 \<le> k"
  shows "\<exists>r. arrayIndexOf hay val k Undefined True = Inr (of_int r) \<and> first_from hay val k r"
  using index_loop_first [of k 0 val hay] assms by (auto simp: arrayIndexOf_def wide_name_def)

lemma last_upto_cut:
  assumes "\<And>g. occurs_at hay val g \<Longrightarrow> g \<le> p \<longleftrightarrow> g \<le> q" "last_upto hay val p r"
  shows "last_upto hay val q r"
  using assms unfolding last_upto_def by blast

lemma arrayIndexOf_last:
  assumes "val \<noteq> []"
  shows "\<exists>r. arrayIndexOf hay val k Undefined False = Inr (of_int r) \<and> last_upto hay val k r"
proof -
  let ?p = "if k + int (length val) > int (length hay) then int (length hay) - int (length val) else k"
  obtain r where "last_loop False hay val ?p = Inr (of_int r)" "last_upto hay val ?p r"
    using last_loop_last [OF assms] by blast
  moreover have "last_upto hay val k r"
    using calculation(2) by (rule last_upto_cut [rotated]) (auto simp: occurs_at_def)
  ultimately show ?thesis by (auto simp: arrayIndexOf_def wide_name_def)
qed

text \<open>C40: \<open>indexOf\<close>, called without an encoding for a buffer, a byte or a string, which is then UTF-8, ends and returns the first occurrence at or
  after the offset (a negative offset counts from the end), and -1 exactly when there is none;
  \<open>includes\<close> is true exactly when there is one.\<close>

theorem indexOf_first:
  assumes "searched m v val" "contents m b \<noteq> []" "\<bar>x\<bar> \<le> 2147483647"
    "k = (if x < 0 then max 0 (int (length (contents m b)) + x) else x)"
  shows "\<exists>r. indexOf m b v (Number x) Undefined = Inr (of_int r) \<and> first_from (contents m b) val k r \<and>
    buf_includes m b v (Number x) Undefined = Inr (\<exists>g \<ge> k. occurs_at (contents m b) val g)"
proof -
  let ?h = "contents m b"
  have "\<exists>r. indexOf m b v (Number x) Undefined = Inr (of_int r) \<and> first_from ?h val k r"
  proof (cases "k < int (length ?h)")
    case True
    then have st: "search_start (int (length ?h)) (Number x) True = Some k"
      using assms(2-4) by (auto simp: search_start_def Let_def)
    have v: "val \<noteq> []" "0 \<le> k" using assms(1,4) by (auto simp: searched_def)
    show ?thesis
    proof (cases "\<exists>n. v = VNum n")
      case num: True
      then have "val = [hd val]" using assms(1) by (auto simp: searched_def)
      with num search_bytes [OF assms(1,2) st] typed_indexOf_first [OF v(2), of ?h "hd val"] show ?thesis
        by (auto simp: indexOf_def)
    next
      case False
      then show ?thesis
        using search_bytes [OF assms(1,2) st] arrayIndexOf_first [OF v, of ?h] by (cases v) (auto simp: indexOf_def)
    qed
  next
    case False
    then have "search_start (int (length ?h)) (Number x) True = None"
      using assms(2-4) by (auto simp: search_start_def Let_def split: if_splits)
    moreover have "\<forall>g \<ge> k. \<not> occurs_at ?h val g"
      using False occurs_range [of ?h val] assms(1) by (fastforce simp: searched_def)
    ultimately show ?thesis
      using assms(2) by (intro exI [of _ "- 1"]) (simp add: indexOf_def bidirectionalIndexOf_def first_from_def)
  qed
  then obtain r where r: "indexOf m b v (Number x) Undefined = Inr (of_int r)" "first_from ?h val k r" by blast
  have "(of_int r :: rat) \<noteq> - 1 \<longleftrightarrow> r \<noteq> - 1" by (metis of_int_1 of_int_eq_iff of_int_minus)
  moreover have "r \<noteq> - 1 \<longleftrightarrow> (\<exists>g \<ge> k. occurs_at ?h val g)"
    using r(2) unfolding first_from_def by (auto simp: occurs_at_def)
  ultimately show ?thesis using r by (auto simp: buf_includes_def)
qed

text \<open>C27: \<open>lastIndexOf\<close>, called without an encoding for a buffer, a byte or a string, which is then UTF-8, ends and returns the last
  occurrence at or before the offset (a negative offset counts from the end), and -1 exactly when there is none.  For the 16-bit
  encodings this does not hold: see \<open>lastIndexOf_wide_units\<close>.\<close>

theorem lastIndexOf_last:
  assumes "searched m v val" "contents m b \<noteq> []" "\<bar>x\<bar> \<le> 2147483647" "length (contents m b) \<le> 2147483647"
  shows "\<exists>r. lastIndexOf m b v (Number x) Undefined = Inr (of_int r) \<and>
    last_upto (contents m b) val (if x < 0 then int (length (contents m b)) + x else x) r"
proof -
  let ?h = "contents m b" and ?p = "if x < 0 then int (length (contents m b)) + x else x"
  have v: "val \<noteq> []" using assms(1) by (simp add: searched_def)
  note st = search_start_eq [OF assms(3) refl, of "int (length ?h)" False]
  consider "?p < 0" | k where "0 \<le> ?p" "search_start (int (length ?h)) (Number x) False = Some k"
      "k = (if ?p < int (length ?h) then ?p else int (length ?h) - 1)"
    using st by (cases "?p < int (length ?h)"; cases "?p < 0") auto
  then show ?thesis
  proof cases
    case 1
    then have "search_start (int (length ?h)) (Number x) False = None"
      using st by simp
    moreover have "\<forall>g. g \<le> ?p \<longrightarrow> \<not> occurs_at ?h val g" using 1 by (auto simp: occurs_at_def)
    ultimately show ?thesis
      using assms(2) by (intro exI [of _ "- 1"]) (simp add: lastIndexOf_def bidirectionalIndexOf_def last_upto_def)
  next
    case (2 k)
    have "\<exists>r. lastIndexOf m b v (Number x) Undefined = Inr (of_int r) \<and> last_upto ?h val k r"
    proof (cases "\<exists>n. v = VNum n")
      case num: True
      then have "val = [hd val]" using assms(1) by (auto simp: searched_def)
      with num search_bytes [OF assms(1,2) 2(2)] typed_lastIndexOf_last [of ?h "hd val" k] show ?thesis
        by (auto simp: lastIndexOf_def)
    next
      case False
      then show ?thesis
        using search_bytes [OF assms(1,2) 2(2)] arrayIndexOf_last [OF v, of ?h k] by (cases v) (auto simp: lastIndexOf_def)
    qed
    moreover have "g \<le> k \<longleftrightarrow> g \<le> ?p" if "occurs_at ?h val g" for g
      unfolding 2(3) using occurs_range [OF that v] by auto
    ultimately have "\<exists>r. lastIndexOf m b v (Number x) Undefined = Inr (of_int r) \<and> last_upto ?h val ?p r"
      using last_upto_cut [of ?h val k ?p] by blast
    then show ?thesis .
  qed
qed

theorem indexOf_first_witness:
  "\<exists>r. indexOf \<lparr>arrays = [[1, 1, 2, 1, 2]], next_id = 2\<rparr> \<lparr>bid = 0, arr = 0, off = 0, blen = 5\<rparr>
      (VBuf \<lparr>bid = 1, arr = 0, off = 3, blen = 2\<rparr>) (Number (- 5)) Undefined = Inr (of_int r) \<and>
    first_from [1, 1, 2, 1, 2] [1, 2] 0 r"
  using indexOf_first [of "\<lparr>arrays = [[1, 1, 2, 1, 2]], next_id = 2\<rparr>" "VBuf \<lparr>bid = 1, arr = 0, off = 3, blen = 2\<rparr>" "[1, 2]"
      "\<lparr>bid = 0, arr = 0, off = 0, blen = 5\<rparr>" "- 5" 0]
  by (auto simp: searched_def contents_def)

theorem lastIndexOf_last_witness:
  "\<exists>r. lastIndexOf \<lparr>arrays = [[1, 1, 2, 1, 2]], next_id = 2\<rparr> \<lparr>bid = 0, arr = 0, off = 0, blen = 5\<rparr>
      (VNum 257) (Number 2) Undefined = Inr (of_int r) \<and> last_upto [1, 1, 2, 1, 2] [1] 2 r"
  using lastIndexOf_last [of "\<lparr>arrays = [[1, 1, 2, 1, 2]], next_id = 2\<rparr>" "VNum 257" "[1]"
      "\<lparr>bid = 0, arr = 0, off = 0, blen = 5\<rparr>" 2]
  by (auto simp: searched_def contents_def)

text \<open>With a 16-bit encoding \<open>lastIndexOf\<close> returns the index in 16-bit units where \<open>indexOf\<close> returns it
  in bytes: the only occurrence of \<open>"c"\<close> in the UTF-16 text \<open>"abcb"\<close> is at byte 4, and \<open>lastIndexOf\<close>
  says 2.\<close>

theorem lastIndexOf_wide_units:
  "let m = \<lparr>arrays = [[97, 0, 98, 0, 99, 0, 98, 0]], next_id = 1\<rparr>;
       b = \<lparr>bid = 0, arr = 0, off = 0, blen = 8\<rparr>
   in indexOf m b (VStr (js ''c'')) Undefined (String (js ''ucs2'')) = Inr 4 \<and>
      lastIndexOf m b (VStr (js ''c'')) Undefined (String (js ''ucs2'')) = Inr 2"
  by code_simp

section \<open>Swapping\<close>

lemma swap_contents:
  assumes "wf_buffer m b" "p < blen b" "q < blen b"
  shows "wf_buffer (swap m b (int p) (int q)) b"
    "contents (swap m b (int p) (int q)) b = (contents m b)[p := contents m b ! q, q := contents m b ! p]"
  using assms contents_set [of m b "int p"] contents_set [of "buf_set m b (int p) v" b "int q" for v]
  by (simp_all add: swap_def Let_def wf_buffer_set buf_get_def elem_def)

text \<open>Each full group of \<open>w\<close> bytes reversed.\<close>

function rev_groups :: "nat \<Rightarrow> 'a list \<Rightarrow> 'a list" where
  "rev_groups w xs = (if w = 0 \<or> length xs < w then xs else rev (take w xs) @ rev_groups w (drop w xs))"
  by pat_completeness auto
termination
  by (relation "measure (\<lambda>(w, xs). length xs)") auto

declare rev_groups.simps [simp del]

lemma length_rev_groups [simp]: "length (rev_groups w xs) = length xs"
  by (induction w xs rule: rev_groups.induct) (subst rev_groups.simps, simp)

lemma rev_groups_twice: "rev_groups w (rev_groups w xs) = xs"
proof (induction w xs rule: rev_groups.induct)
  case (1 w xs)
  show ?case
  proof (cases "w = 0 \<or> length xs < w")
    case False
    then have "rev_groups w (rev (take w xs) @ rev_groups w (drop w xs)) = take w xs @ rev_groups w (rev_groups w (drop w xs))"
      by (subst rev_groups.simps) (simp add: rev_swap)
    with False 1 show ?thesis by (simp add: rev_groups.simps [of w xs])
  qed (simp add: rev_groups.simps)
qed

text \<open>A list of exchanges that reverses one group of bytes, and the loop over the groups.\<close>

locale group_swap =
  fixes step :: nat and ex :: "(int \<times> int) list"
  assumes exchange: "wf_buffer m b \<Longrightarrow> i + Suc step \<le> blen b \<Longrightarrow>
    wf_buffer (fold (\<lambda>(p, q) m. swap m b (int i + p) (int i + q)) ex m) b \<and>
    contents (fold (\<lambda>(p, q) m. swap m b (int i + p) (int i + q)) ex m) b =
      splice_at i (rev (take (Suc step) (drop i (contents m b)))) (contents m b)"
begin

lemma loop_groups:
  assumes "wf_buffer m b" "i + k * Suc step = blen b"
  shows "contents (swap_loop step ex m b (int (blen b)) (int i)) b =
    take i (contents m b) @ rev_groups (Suc step) (drop i (contents m b))"
  using assms
proof (induction k arbitrary: m i)
  case 0
  then show ?case by (subst swap_loop.simps) (simp add: rev_groups.simps)
next
  case (Suc k)
  let ?m1 = "fold (\<lambda>(p, q) m. swap m b (int i + p) (int i + q)) ex m"
  let ?w = "Suc step" and ?xs = "contents m b"
  have le: "i + ?w \<le> blen b" and len: "length ?xs = blen b" using Suc.prems by auto
  note e = exchange [OF Suc.prems(1) le]
  have "swap_loop step ex m b (int (blen b)) (int i) = swap_loop step ex ?m1 b (int (blen b)) (int (i + ?w))"
    using le by (subst swap_loop.simps) (simp add: ac_simps)
  moreover have "contents (swap_loop step ex ?m1 b (int (blen b)) (int (i + ?w))) b =
      take (i + ?w) (contents ?m1 b) @ rev_groups ?w (drop (i + ?w) (contents ?m1 b))"
    using e Suc.prems(2) by (intro Suc.IH) auto
  moreover have "take (i + ?w) (contents ?m1 b) = take i ?xs @ rev (take ?w (drop i ?xs))"
    "drop (i + ?w) (contents ?m1 b) = drop (i + ?w) ?xs"
    using e le len by (simp_all add: splice_at_def)
  moreover have "rev_groups ?w (drop i ?xs) = rev (take ?w (drop i ?xs)) @ rev_groups ?w (drop (i + ?w) ?xs)"
    using le len by (subst rev_groups.simps) (auto simp: add.commute rev_groups.simps [of _ "[]"])
  ultimately show ?case by simp
qed

lemma loop_all:
  assumes "wf_buffer m b" "blen b mod Suc step = 0"
  shows "contents (swap_loop step ex m b (int (blen b)) 0) b = rev_groups (Suc step) (contents m b)"
proof -
  obtain k where "blen b = k * Suc step" using assms(2) by (metis div_mult_mod_eq add.right_neutral)
  then show ?thesis using loop_groups [OF assms(1), of 0 k] by simp
qed

end

lemma split_group:
  assumes "i + n \<le> length xs"
  obtains pre mid post where "xs = pre @ mid @ post" "length pre = i" "length mid = n"
  using assms by (metis append_take_drop_id diff_add_inverse length_drop length_take min.absorb2 le_add_diff_inverse2
      add.commute add_leD1 take_drop drop_drop length_append)

text \<open>The effect of exchanges inside one group, as an exchange of elements of a list.\<close>

definition exchange_list :: "(nat \<times> nat) list \<Rightarrow> 'a list \<Rightarrow> 'a list" where
  "exchange_list ps xs = fold (\<lambda>(p, q) xs. xs[p := xs ! q, q := xs ! p]) ps xs"

lemma fold_swap:
  assumes "wf_buffer m b" "contents m b = pre @ mid @ post" "\<forall>(p, q) \<in> set ps. p < length mid \<and> q < length mid"
  shows "wf_buffer (fold (\<lambda>(p, q) m. swap m b (int (length pre) + p) (int (length pre) + q)) (map (map_prod int int) ps) m) b \<and>
    contents (fold (\<lambda>(p, q) m. swap m b (int (length pre) + p) (int (length pre) + q)) (map (map_prod int int) ps) m) b =
      pre @ exchange_list ps mid @ post"
  using assms
proof (induction ps arbitrary: m mid)
  case (Cons pq ps)
  obtain p q where pq: "pq = (p, q)" "p < length mid" "q < length mid" using Cons.prems(3) by (cases pq) auto
  let ?m1 = "swap m b (int (length pre + p)) (int (length pre + q))"
  have len: "blen b = length pre + length mid + length post"
    using Cons.prems(1,2) by (metis length_append length_contents add.assoc)
  have s: "wf_buffer ?m1 b" "contents ?m1 b = pre @ mid[p := mid ! q, q := mid ! p] @ post"
    using swap_contents [OF Cons.prems(1), of "length pre + p" "length pre + q"] pq len Cons.prems(2)
    by (simp_all add: nth_append list_update_append)
  then show ?case
    using Cons.IH [OF s] Cons.prems(3) pq by (simp add: exchange_list_def)
qed (simp add: exchange_list_def)

lemma exchange_reverses:
  assumes "\<And>mid :: byte list. length mid = Suc step \<Longrightarrow> exchange_list ps mid = rev mid"
    "\<forall>(p, q) \<in> set ps. p < Suc step \<and> q < Suc step" "ex = map (map_prod int int) ps"
  shows "group_swap step ex"
proof
  fix m b i
  assume wf: "wf_buffer m b" and le: "i + Suc step \<le> blen b"
  obtain pre mid post where x: "contents m b = pre @ mid @ post" "length pre = i" "length mid = Suc step"
    using split_group [of i "Suc step" "contents m b"] wf le by auto
  have "splice_at i (rev (take (Suc step) (drop i (contents m b)))) (contents m b) = pre @ rev mid @ post"
    using x by (simp add: splice_at_def)
  then show "wf_buffer (fold (\<lambda>(p, q) m. swap m b (int i + p) (int i + q)) ex m) b \<and>
      contents (fold (\<lambda>(p, q) m. swap m b (int i + p) (int i + q)) ex m) b =
      splice_at i (rev (take (Suc step) (drop i (contents m b)))) (contents m b)"
    using fold_swap [OF wf x(1), of ps] assms x(2,3) by simp
qed

lemma length_2: "length xs = Suc (Suc 0) \<longleftrightarrow> (\<exists>a b. xs = [a, b])"
  by (auto simp: length_Suc_conv)

lemma length_4: "length xs = 4 \<longleftrightarrow> (\<exists>a b c d. xs = [a, b, c, d])"
  by (auto simp: length_Suc_conv eval_nat_numeral)

lemma length_8: "length xs = 8 \<longleftrightarrow> (\<exists>a b c d e f g h. xs = [a, b, c, d, e, f, g, h])"
  by (auto simp: length_Suc_conv eval_nat_numeral)

interpretation swap_2: group_swap 1 "[(0, 1)]"
  by (rule exchange_reverses [of _ "[(0, 1)]"]) (auto simp: exchange_list_def length_2)

interpretation swap_4: group_swap 3 "[(0, 3), (1, 2)]"
  by (rule exchange_reverses [of _ "[(0, 3), (1, 2)]"]) (auto simp: exchange_list_def length_4)

interpretation swap_8: group_swap 7 "[(0, 7), (1, 6), (2, 5), (3, 4)]"
  by (rule exchange_reverses [of _ "[(0, 7), (1, 6), (2, 5), (3, 4)]"]) (auto simp: exchange_list_def length_8)

text \<open>The byte swaps reverse every group of two, four or eight bytes and refuse a length that is not a
  multiple of the group; swapping twice restores the contents.\<close>

theorem swaps_reverse_groups:
  assumes "wf_buffer m b"
    "(f, w) \<in> {(swap16, 2), (swap32, 4), (swap64, 8)}"
  shows "if blen b mod w = 0
    then \<exists>m'. f m b = Inr m' \<and> contents m' b = rev_groups w (contents m b) \<and>
           rev_groups w (contents m' b) = contents m b
    else \<exists>e. f m b = Inl (RangeError e)"
proof -
  have mod: "int (blen b) mod 2 = 0 \<longleftrightarrow> blen b mod 2 = 0" "int (blen b) mod 4 = 0 \<longleftrightarrow> blen b mod 4 = 0"
    "int (blen b) mod 8 = 0 \<longleftrightarrow> blen b mod 8 = 0" by presburger+
  from assms(2) consider "f = swap16" "w = 2" | "f = swap32" "w = 4" | "f = swap64" "w = 8" by auto
  then show ?thesis
  proof cases
    case 1
    then show ?thesis
      using swap_2.loop_all [OF assms(1), unfolded Suc_1] mod(1)
      by (cases "blen b mod 2 = 0") (simp_all add: swap16_def Let_def rev_groups_twice)
  next
    case 2
    then show ?thesis
      using swap_4.loop_all [OF assms(1)] mod(2) by (simp add: swap32_def Let_def rev_groups_twice)
  next
    case 3
    then show ?thesis
      using swap_8.loop_all [OF assms(1)] mod(3) by (simp add: swap64_def Let_def rev_groups_twice)
  qed
qed

theorem swaps_reverse_groups_witness:
  "\<exists>m'. swap32 \<lparr>arrays = [[1, 2, 3, 4, 5, 6, 7, 8]], next_id = 1\<rparr> \<lparr>bid = 0, arr = 0, off = 0, blen = 8\<rparr> = Inr m' \<and>
    contents m' \<lparr>bid = 0, arr = 0, off = 0, blen = 8\<rparr> = [4, 3, 2, 1, 8, 7, 6, 5]"
proof -
  have w: "wf_buffer \<lparr>arrays = [[1, 2, 3, 4, 5, 6, 7, 8]], next_id = 1\<rparr> \<lparr>bid = 0, arr = 0, off = 0, blen = 8\<rparr>"
    by (simp add: wf_buffer_def)
  have "rev_groups 4 [1, 2, 3, 4, 5, 6, 7, 8 :: byte] = [4, 3, 2, 1, 8, 7, 6, 5]"
    by (simp add: rev_groups.simps)
  then show ?thesis
    using swaps_reverse_groups [OF w, of swap32 4] by (auto simp: contents_def)
qed

end
