(* ===== verification/Js_Value.thy ===== *)
theory Js_Value
  imports Buffer_Text Complex_Main "HOL-Library.Log_Nat"
begin

text \<open>
  JavaScript values as the YAML loader and dumper see them: numbers that may be fractional or
  infinite, dates, and arrays and objects with an identity, kept in a heap.  The regular
  expressions of the source are written with a small matcher.
\<close>

section \<open>Numbers\<close>

text \<open>A double: a finite value other than the negative zero, or one of the special values.\<close>

datatype dbl = Fin rat | NegZero | PosInf | NegInf | NotANumber

text \<open>Rounding to the nearest double, ties to even.\<close>

definition floor_log2 :: "rat \<Rightarrow> int" where
  "floor_log2 a =
     (let (n, d) = quotient_of a; k = int (floorlog 2 (nat n)) - int (floorlog 2 (nat d))
      in if 2 powi k \<le> a then k else k - 1)"

definition round_even :: "rat \<Rightarrow> int" where
  "round_even x =
     (let f = \<lfloor>x\<rfloor>; r = x - of_int f
      in if r < 1/2 then f else if r > 1/2 then f + 1 else if even f then f else f + 1)"

definition round_double :: "rat \<Rightarrow> dbl" where
  "round_double x =
     (if x = 0 then Fin 0
      else let a = \<bar>x\<bar>; q = max (floor_log2 a - 52) (- 1074); n = round_even (a / 2 powi q);
               v = of_int n * 2 powi q
           in if v \<ge> 2 ^ 1024 then (if x < 0 then NegInf else PosInf)
              else if n = 0 then (if x < 0 then NegZero else Fin 0)
              else Fin (if x < 0 then - v else v))"

fun dbl_neg :: "dbl \<Rightarrow> dbl" where
  "dbl_neg (Fin x) = (if x = 0 then NegZero else Fin (- x))"
| "dbl_neg NegZero = Fin 0"
| "dbl_neg PosInf = NegInf"
| "dbl_neg NegInf = PosInf"
| "dbl_neg NotANumber = NotANumber"

text \<open>Sum and product of numbers that are not negative, which is all the code needs.\<close>

fun dbl_add :: "dbl \<Rightarrow> dbl \<Rightarrow> dbl" where
  "dbl_add (Fin x) (Fin y) = round_double (x + y)"
| "dbl_add PosInf (Fin y) = PosInf"
| "dbl_add (Fin x) PosInf = PosInf"
| "dbl_add PosInf PosInf = PosInf"
| "dbl_add _ _ = NotANumber"

fun dbl_mul :: "dbl \<Rightarrow> dbl \<Rightarrow> dbl" where
  "dbl_mul (Fin x) (Fin y) = round_double (x * y)"
| "dbl_mul PosInf (Fin y) = (if y = 0 then NotANumber else PosInf)"
| "dbl_mul (Fin x) PosInf = (if x = 0 then NotANumber else PosInf)"
| "dbl_mul PosInf PosInf = PosInf"
| "dbl_mul _ _ = NotANumber"

section \<open>Values and the heap\<close>

datatype yval =
    YNull
  | YUndef
  | YBool bool
  | YNum dbl
  | YStr jstr
  | YRef nat
  | YBytes "byte list"
  | YDate int
  | YRegExp jstr jstr
  | YFun "jstr list" jstr

datatype ycell = YArr "yval list" | YObj "(jstr \<times> yval) list"

type_synonym yheap = "ycell list"

text \<open>What \<open>Object.prototype.toString.call\<close> distinguishes.\<close>

datatype jsclass = C_Null | C_Undefined | C_Boolean | C_Number | C_String | C_Array | C_Object | C_Uint8Array
  | C_Date | C_RegExp | C_Function

fun class_of :: "yheap \<Rightarrow> yval \<Rightarrow> jsclass" where
  "class_of h YNull = C_Null"
| "class_of h YUndef = C_Undefined"
| "class_of h (YBool b) = C_Boolean"
| "class_of h (YNum n) = C_Number"
| "class_of h (YStr s) = C_String"
| "class_of h (YRef a) = (if a < length h then (case h ! a of YArr vs \<Rightarrow> C_Array | YObj ps \<Rightarrow> C_Object) else C_Object)"
| "class_of h (YBytes bs) = C_Uint8Array"
| "class_of h (YDate t) = C_Date"
| "class_of h (YRegExp s f) = C_RegExp"
| "class_of h (YFun ps b) = C_Function"

fun elements_of :: "yheap \<Rightarrow> yval \<Rightarrow> yval list" where
  "elements_of h (YRef a) = (if a < length h then (case h ! a of YArr vs \<Rightarrow> vs | YObj ps \<Rightarrow> []) else [])"
| "elements_of h _ = []"

fun props_of :: "yheap \<Rightarrow> yval \<Rightarrow> (jstr \<times> yval) list" where
  "props_of h (YRef a) = (if a < length h then (case h ! a of YArr vs \<Rightarrow> [] | YObj ps \<Rightarrow> ps) else [])"
| "props_of h _ = []"

text \<open>
  \<open>Object.keys\<close>: first the keys that are array indices, in ascending order, then the others in
  the order of insertion.
\<close>

definition decimal_value :: "jstr \<Rightarrow> nat" where
  "decimal_value s = foldl (\<lambda>a c. a * 10 + nat (uint c - 48)) 0 s"

definition is_index_key :: "jstr \<Rightarrow> bool" where
  "is_index_key s \<longleftrightarrow> s \<noteq> [] \<and> list_all (\<lambda>c. 48 \<le> uint c \<and> uint c \<le> 57) s \<and> (hd s \<noteq> 48 \<or> length s = 1) \<and>
     decimal_value s < 4294967295"

definition object_keys :: "(jstr \<times> yval) list \<Rightarrow> jstr list" where
  "object_keys ps =
     (let ks = map fst ps
      in sort_key decimal_value (filter is_index_key ks) @ filter (\<lambda>k. \<not> is_index_key k) ks)"

definition get_prop :: "(jstr \<times> yval) list \<Rightarrow> jstr \<Rightarrow> yval" where
  "get_prop ps k = (case map_of ps k of None \<Rightarrow> YUndef | Some v \<Rightarrow> v)"

definition has_own :: "(jstr \<times> 'v) list \<Rightarrow> jstr \<Rightarrow> bool" where
  "has_own ps k \<longleftrightarrow> k \<in> set (map fst ps)"

text \<open>
  \<open>object[key] = value\<close>: a new key goes to the end; the key \<open>__proto__\<close> sets the prototype and makes
  no property of its own.
\<close>

fun set_alist :: "(jstr \<times> 'v) list \<Rightarrow> jstr \<Rightarrow> 'v \<Rightarrow> (jstr \<times> 'v) list" where
  "set_alist [] k v = [(k, v)]"
| "set_alist ((k', v') # ps) k v = (if k' = k then (k, v) # ps else (k', v') # set_alist ps k v)"

definition set_prop :: "(jstr \<times> 'v) list \<Rightarrow> jstr \<Rightarrow> 'v \<Rightarrow> (jstr \<times> 'v) list" where
  "set_prop ps k v = (if k = js ''__proto__'' then ps else set_alist ps k v)"

definition delete_prop :: "(jstr \<times> 'v) list \<Rightarrow> jstr \<Rightarrow> (jstr \<times> 'v) list" where
  "delete_prop ps k = filter (\<lambda>(k', v). k' \<noteq> k) ps"

lemma set_alist_keys: "set (map fst (set_alist ps k v)) = insert k (set (map fst ps))"
  by (induction ps k v rule: set_alist.induct) auto

lemma set_alist_distinct: "distinct (map fst ps) \<Longrightarrow> distinct (map fst (set_alist ps k v))"
proof (induction ps k v rule: set_alist.induct)
  case (2 k' v' ps k v)
  then show ?case using set_alist_keys [of ps k v] by auto
qed simp

lemma map_of_set_alist: "map_of (set_alist ps k v) k' = (if k' = k then Some v else map_of ps k')"
  by (induction ps k v rule: set_alist.induct) auto

lemma map_of_set_prop: "k \<noteq> js ''__proto__'' \<Longrightarrow> map_of (set_prop ps k v) k' = (if k' = k then Some v else map_of ps k')"
  by (simp add: set_prop_def map_of_set_alist)

section \<open>Regular expressions\<close>

text \<open>Matching a whole string, by derivatives.\<close>

datatype rx = RNone | REps | RChr "code_unit \<Rightarrow> bool" | RSeq rx rx | RAlt rx rx | RStar rx

fun rx_nullable :: "rx \<Rightarrow> bool" where
  "rx_nullable RNone = False"
| "rx_nullable REps = True"
| "rx_nullable (RChr p) = False"
| "rx_nullable (RSeq a b) = (rx_nullable a \<and> rx_nullable b)"
| "rx_nullable (RAlt a b) = (rx_nullable a \<or> rx_nullable b)"
| "rx_nullable (RStar a) = True"

fun rx_deriv :: "code_unit \<Rightarrow> rx \<Rightarrow> rx" where
  "rx_deriv c RNone = RNone"
| "rx_deriv c REps = RNone"
| "rx_deriv c (RChr p) = (if p c then REps else RNone)"
| "rx_deriv c (RSeq a b) =
     (if rx_nullable a then RAlt (RSeq (rx_deriv c a) b) (rx_deriv c b) else RSeq (rx_deriv c a) b)"
| "rx_deriv c (RAlt a b) = RAlt (rx_deriv c a) (rx_deriv c b)"
| "rx_deriv c (RStar a) = RSeq (rx_deriv c a) (RStar a)"

fun rx_match :: "rx \<Rightarrow> jstr \<Rightarrow> bool" where
  "rx_match r [] = rx_nullable r"
| "rx_match r (c # cs) = rx_match (rx_deriv c r) cs"

definition unit_in :: "string \<Rightarrow> code_unit \<Rightarrow> bool" where
  "unit_in s c \<longleftrightarrow> c \<in> set (js s)"

definition unit_digit :: "code_unit \<Rightarrow> bool" where
  "unit_digit c \<longleftrightarrow> 48 \<le> uint c \<and> uint c \<le> 57"

abbreviation rx_opt :: "rx \<Rightarrow> rx" where
  "rx_opt r \<equiv> RAlt r REps"

abbreviation rx_plus :: "rx \<Rightarrow> rx" where
  "rx_plus r \<equiv> RSeq r (RStar r)"

abbreviation rx_any :: "string \<Rightarrow> rx" where
  "rx_any s \<equiv> RChr (unit_in s)"

abbreviation rx_dig :: rx where
  "rx_dig \<equiv> RChr unit_digit"

primrec rx_str :: "string \<Rightarrow> rx" where
  "rx_str [] = REps"
| "rx_str (c # cs) = RSeq (RChr (\<lambda>x. x = word_of_nat (of_char c))) (rx_str cs)"

primrec rx_seq :: "rx list \<Rightarrow> rx" where
  "rx_seq [] = REps"
| "rx_seq (r # rs) = RSeq r (rx_seq rs)"

primrec rx_alts :: "rx list \<Rightarrow> rx" where
  "rx_alts [] = RNone"
| "rx_alts (r # rs) = RAlt r (rx_alts rs)"

text \<open>The language of an expression, and the matcher decides it.\<close>

fun rx_lang :: "rx \<Rightarrow> jstr set" where
  "rx_lang RNone = {}"
| "rx_lang REps = {[]}"
| "rx_lang (RChr p) = {[c] | c. p c}"
| "rx_lang (RSeq a b) = {s @ t | s t. s \<in> rx_lang a \<and> t \<in> rx_lang b}"
| "rx_lang (RAlt a b) = rx_lang a \<union> rx_lang b"
| "rx_lang (RStar a) = {concat ss | ss. set ss \<subseteq> rx_lang a}"

lemma rx_nullable_lang: "rx_nullable r \<longleftrightarrow> [] \<in> rx_lang r"
proof (induction r)
  case (RStar r)
  have "[] = concat []" "set [] \<subseteq> rx_lang r" by simp_all
  then show ?case by (simp only: rx_nullable.simps rx_lang.simps mem_Collect_eq) blast
qed auto

lemma concat_Cons_split: "concat ss = c # s \<Longrightarrow> \<exists>t us. (c # t) \<in> set ss \<and> set us \<subseteq> set ss \<and> s = t @ concat us"
proof (induction ss)
  case (Cons w ss)
  show ?case
  proof (cases w)
    case Nil
    then obtain t us where "c # t \<in> set ss" "set us \<subseteq> set ss" "s = t @ concat us" using Cons by auto
    then show ?thesis by (intro exI [of _ t] exI [of _ us]) auto
  next
    case (Cons d w')
    then have "s = w' @ concat ss" "d = c" using Cons.prems by auto
    then show ?thesis using Cons by auto
  qed
qed simp

lemma rx_deriv_lang: "s \<in> rx_lang (rx_deriv c r) \<longleftrightarrow> c # s \<in> rx_lang r"
proof (induction r arbitrary: s)
  case (RSeq a b)
  have split: "c # s \<in> rx_lang (RSeq a b) \<longleftrightarrow>
      (\<exists>t u. s = t @ u \<and> c # t \<in> rx_lang a \<and> u \<in> rx_lang b) \<or> ([] \<in> rx_lang a \<and> c # s \<in> rx_lang b)"
    by (auto simp: Cons_eq_append_conv)
  show ?case unfolding split by (auto simp: RSeq rx_nullable_lang)
next
  case (RStar r)
  show ?case
  proof
    assume "s \<in> rx_lang (rx_deriv c (RStar r))"
    then obtain t ss where "s = t @ concat ss" "c # t \<in> rx_lang r" "set ss \<subseteq> rx_lang r" using RStar by auto
    then have "c # s = concat ((c # t) # ss)" "set ((c # t) # ss) \<subseteq> rx_lang r" by simp_all
    then show "c # s \<in> rx_lang (RStar r)" by (simp only: rx_lang.simps mem_Collect_eq) blast
  next
    assume "c # s \<in> rx_lang (RStar r)"
    then obtain ss where ss: "concat ss = c # s" "set ss \<subseteq> rx_lang r" by auto
    from concat_Cons_split [OF ss(1)] obtain t us where "c # t \<in> set ss" "set us \<subseteq> set ss" "s = t @ concat us" by blast
    then have "t \<in> rx_lang (rx_deriv c r)" "concat us \<in> rx_lang (RStar r)" "s = t @ concat us"
      using ss(2) RStar by auto
    then show "s \<in> rx_lang (rx_deriv c (RStar r))" unfolding rx_deriv.simps rx_lang.simps(4) by blast
  qed
qed (auto split: if_splits)

lemma rx_match_lang: "rx_match r s \<longleftrightarrow> s \<in> rx_lang r"
  by (induction s arbitrary: r) (simp_all add: rx_nullable_lang rx_deriv_lang)

end
