(* ===== verification/Yaml_Types.thy ===== *)
theory Yaml_Types
  imports Js_Value
begin

text \<open>
  The scalar and collection types of js-yaml (modules 505 to 521 of \<open>swagger-ui.js\<close>): which text
  resolves to a type, the value it constructs, and how a value is written back.  \<open>None\<close> is the
  \<open>null\<close> that the loader passes for an empty node.
\<close>

datatype ykind = Scalar | Sequence | Mapping

section \<open>Null, booleans, merge keys\<close>

definition resolveYamlNull :: "jstr option \<Rightarrow> bool" where
  "resolveYamlNull data =
     (case data of
        None \<Rightarrow> True
      | Some d \<Rightarrow> (length d = 1 \<and> d = js ''~'') \<or>
          (length d = 4 \<and> (d = js ''null'' \<or> d = js ''Null'' \<or> d = js ''NULL'')))"

definition constructYamlNull :: yval where
  "constructYamlNull = YNull"

definition isNull :: "yval \<Rightarrow> bool" where
  "isNull v \<longleftrightarrow> v = YNull"

definition resolveYamlBoolean :: "jstr option \<Rightarrow> bool" where
  "resolveYamlBoolean data =
     (case data of
        None \<Rightarrow> False
      | Some d \<Rightarrow> (length d = 4 \<and> (d = js ''true'' \<or> d = js ''True'' \<or> d = js ''TRUE'')) \<or>
          (length d = 5 \<and> (d = js ''false'' \<or> d = js ''False'' \<or> d = js ''FALSE'')))"

definition constructYamlBoolean :: "jstr \<Rightarrow> bool" where
  "constructYamlBoolean d \<longleftrightarrow> d = js ''true'' \<or> d = js ''True'' \<or> d = js ''TRUE''"

definition resolveYamlMerge :: "jstr option \<Rightarrow> bool" where
  "resolveYamlMerge data \<longleftrightarrow> data = Some (js ''<<'') \<or> data = None"

section \<open>Integers\<close>

definition isHexCode :: "code_unit \<Rightarrow> bool" where
  "isHexCode c \<longleftrightarrow> (48 \<le> uint c \<and> uint c \<le> 57) \<or> (65 \<le> uint c \<and> uint c \<le> 70) \<or> (97 \<le> uint c \<and> uint c \<le> 102)"

definition isOctCode :: "code_unit \<Rightarrow> bool" where
  "isOctCode c \<longleftrightarrow> 48 \<le> uint c \<and> uint c \<le> 55"

definition isDecCode :: "code_unit \<Rightarrow> bool" where
  "isDecCode c \<longleftrightarrow> 48 \<le> uint c \<and> uint c \<le> 57"

definition isBinCode :: "code_unit \<Rightarrow> bool" where
  "isBinCode c \<longleftrightarrow> c = 48 \<or> c = 49"

text \<open>The loop over the digits of a prefixed number, with \<open>hasDigits\<close> and the last character read.\<close>

fun digits_loop :: "(code_unit \<Rightarrow> bool) \<Rightarrow> jstr \<Rightarrow> bool \<Rightarrow> code_unit \<Rightarrow> bool" where
  "digits_loop p [] hasDigits ch \<longleftrightarrow> hasDigits \<and> ch \<noteq> 95"
| "digits_loop p (c # cs) hasDigits ch \<longleftrightarrow>
     (if c = 95 then digits_loop p cs hasDigits c
      else if \<not> p c then False
      else digits_loop p cs True c)"

text \<open>\<open>/^(:[0-5]?[0-9])+$/\<close>\<close>

definition sexagesimal_rx :: rx where
  "sexagesimal_rx = rx_plus (rx_seq [rx_any '':'', rx_opt (RChr (\<lambda>c. 48 \<le> uint c \<and> uint c \<le> 53)), rx_dig])"

fun decimal_loop :: "jstr \<Rightarrow> bool \<Rightarrow> code_unit \<Rightarrow> bool" where
  "decimal_loop [] hasDigits ch \<longleftrightarrow> hasDigits \<and> ch \<noteq> 95"
| "decimal_loop (c # cs) hasDigits ch \<longleftrightarrow>
     (if c = 95 then decimal_loop cs hasDigits c
      else if c = 58 then hasDigits \<and> rx_match sexagesimal_rx (c # cs)
      else if \<not> isDecCode c then False
      else decimal_loop cs True c)"

text \<open>After the sign.\<close>

definition resolve_unsigned :: "jstr \<Rightarrow> bool" where
  "resolve_unsigned d =
     (case d of
        [] \<Rightarrow> decimal_loop [] False 0
      | c # cs \<Rightarrow>
          if c = 48 then
            (case cs of
               [] \<Rightarrow> True
             | x # xs \<Rightarrow>
                 if x = 98 then digits_loop isBinCode xs False x
                 else if x = 120 then digits_loop isHexCode xs False x
                 else digits_loop isOctCode cs False x)
          else if c = 95 then False
          else decimal_loop d False c)"

definition is_sign :: "code_unit \<Rightarrow> bool" where
  "is_sign c \<longleftrightarrow> c = 45 \<or> c = 43"

definition strip_sign :: "jstr \<Rightarrow> jstr" where
  "strip_sign d = (if d \<noteq> [] \<and> is_sign (hd d) then tl d else d)"

definition resolveYamlInteger :: "jstr option \<Rightarrow> bool" where
  "resolveYamlInteger data =
     (case data of None \<Rightarrow> False | Some d \<Rightarrow> if d = [] then False else resolve_unsigned (strip_sign d))"

text \<open>\<open>parseInt(s, radix)\<close> for a string without white space and sign in front.\<close>

definition radix_value :: "int \<Rightarrow> code_unit \<Rightarrow> int option" where
  "radix_value r c =
     (let u = uint c;
          v = (if 48 \<le> u \<and> u \<le> 57 then u - 48
               else if 65 \<le> u \<and> u \<le> 90 then u - 55
               else if 97 \<le> u \<and> u \<le> 122 then u - 87 else r)
      in if v < r then Some v else None)"

fun radix_prefix :: "int \<Rightarrow> int option \<Rightarrow> jstr \<Rightarrow> int option" where
  "radix_prefix r acc [] = acc"
| "radix_prefix r acc (c # cs) =
     (case radix_value r c of
        None \<Rightarrow> acc
      | Some d \<Rightarrow> radix_prefix r (Some ((case acc of None \<Rightarrow> 0 | Some a \<Rightarrow> a) * r + d)) cs)"

definition strip_0x :: "jstr \<Rightarrow> jstr" where
  "strip_0x s = (if length s \<ge> 2 \<and> s ! 0 = 48 \<and> (s ! 1 = 120 \<or> s ! 1 = 88) then drop 2 s else s)"

definition parseInt :: "jstr \<Rightarrow> int \<Rightarrow> dbl" where
  "parseInt s r = (case radix_prefix r None (if r = 16 then strip_0x s else s) of None \<Rightarrow> NotANumber | Some n \<Rightarrow> round_double (of_int n))"

text \<open>\<open>sign * n\<close>: a negative sign in front of 0 gives the negative zero.\<close>

definition signed_number :: "bool \<Rightarrow> dbl \<Rightarrow> dbl" where
  "signed_number neg x = (if neg then dbl_neg x else x)"

text \<open>\<open>s.split(":")\<close>\<close>

fun split_colon :: "jstr \<Rightarrow> jstr list" where
  "split_colon [] = [[]]"
| "split_colon (c # cs) =
     (if c = 58 then [] # split_colon cs
      else case split_colon cs of [] \<Rightarrow> [[c]] | w # ws \<Rightarrow> (c # w) # ws)"

text \<open>\<open>value += d * base; base *= 60\<close> from the last part to the first.\<close>

fun base60 :: "dbl list \<Rightarrow> dbl \<Rightarrow> dbl \<Rightarrow> dbl" where
  "base60 [] value base = value"
| "base60 (d # ds) value base = base60 ds (dbl_add value (dbl_mul d base)) (dbl_mul base (Fin 60))"

definition constructYamlInteger :: "jstr \<Rightarrow> dbl" where
  "constructYamlInteger data =
     (let value0 = filter (\<lambda>c. c \<noteq> 95) data;
          neg = (value0 \<noteq> [] \<and> hd value0 = 45);
          v = strip_sign value0
      in if v = js ''0'' then Fin 0
         else if v \<noteq> [] \<and> hd v = 48 then
           (if length v > 1 \<and> v ! 1 = 98 then signed_number neg (parseInt (drop 2 v) 2)
            else if length v > 1 \<and> v ! 1 = 120 then signed_number neg (parseInt v 16)
            else signed_number neg (parseInt v 8))
         else if 58 \<in> set v then
           signed_number neg (base60 (map (\<lambda>p. parseInt p 10) (rev (split_colon v))) (Fin 0) (Fin 1))
         else signed_number neg (parseInt v 10))"

text \<open>\<open>n.toString(radix)\<close> of an integer, for a radix other than 10: all its digits.\<close>

definition digit_char :: "nat \<Rightarrow> code_unit" where
  "digit_char d = (if d < 10 then word_of_nat (48 + d) else word_of_nat (87 + d))"

fun radix_digits :: "nat \<Rightarrow> nat \<Rightarrow> jstr" where
  "radix_digits r n =
     (if r < 2 \<or> n < r then [digit_char n] else radix_digits r (n div r) @ [digit_char (n mod r)])"

declare radix_digits.simps [simp del]

definition int_string :: "nat \<Rightarrow> int \<Rightarrow> jstr" where
  "int_string r n = (if n < 0 then 45 # radix_digits r (nat (- n)) else radix_digits r (nat n))"

definition upper_unit :: "code_unit \<Rightarrow> code_unit" where
  "upper_unit c = (if 97 \<le> uint c \<and> uint c \<le> 122 then c - 32 else c)"

section \<open>Floating-point numbers\<close>

text \<open>The five alternatives of \<open>YAML_FLOAT_PATTERN\<close>.\<close>

definition rx_exponent :: rx where
  "rx_exponent = rx_opt (rx_seq [rx_any ''eE'', rx_opt (rx_any ''-+''), rx_plus rx_dig])"

definition rx_digits_us :: rx where
  "rx_digits_us = RStar (RChr (\<lambda>c. unit_digit c \<or> c = 95))"

definition YAML_FLOAT_PATTERN :: rx where
  "YAML_FLOAT_PATTERN = rx_alts
     [rx_seq [rx_opt (rx_any ''-+''), RAlt (rx_any ''0'') (RSeq (RChr (\<lambda>c. 49 \<le> uint c \<and> uint c \<le> 57)) rx_digits_us),
        rx_opt (RSeq (rx_any ''.'') rx_digits_us), rx_exponent],
      rx_seq [rx_any ''.'', RChr (\<lambda>c. unit_digit c \<or> c = 95), rx_digits_us, rx_exponent],
      rx_seq [rx_opt (rx_any ''-+''), rx_dig, rx_digits_us,
        rx_plus (rx_seq [rx_any '':'', rx_opt (RChr (\<lambda>c. 48 \<le> uint c \<and> uint c \<le> 53)), rx_dig]),
        rx_any ''.'', rx_digits_us],
      rx_seq [rx_opt (rx_any ''-+''), rx_any ''.'', rx_alts [rx_str ''inf'', rx_str ''Inf'', rx_str ''INF'']],
      rx_seq [rx_any ''.'', rx_alts [rx_str ''nan'', rx_str ''NaN'', rx_str ''NAN'']]]"

definition resolveYamlFloat :: "jstr option \<Rightarrow> bool" where
  "resolveYamlFloat data =
     (case data of None \<Rightarrow> False | Some d \<Rightarrow> rx_match YAML_FLOAT_PATTERN d \<and> \<not> (d \<noteq> [] \<and> last d = 95))"

text \<open>\<open>parseFloat\<close> of a string that starts with a digit or a point: digits, fraction, exponent.\<close>

definition parseFloat :: "jstr \<Rightarrow> dbl" where
  "parseFloat s =
     (let ip = takeWhile unit_digit s; r1 = dropWhile unit_digit s;
          fp = (if r1 \<noteq> [] \<and> hd r1 = 46 then takeWhile unit_digit (tl r1) else []);
          r2 = (if r1 \<noteq> [] \<and> hd r1 = 46 then dropWhile unit_digit (tl r1) else r1);
          r3 = (if r2 \<noteq> [] \<and> (hd r2 = 101 \<or> hd r2 = 69) then tl r2 else []);
          ep = takeWhile unit_digit (strip_sign r3);
          e = (if ep = [] then 0 else if hd r3 = 45 then - int (decimal_value ep) else int (decimal_value ep))
      in if ip = [] \<and> fp = [] then NotANumber
         else round_double (of_nat (decimal_value (ip @ fp)) * 10 powi (e - int (length fp))))"

definition lower_ascii :: "code_unit \<Rightarrow> code_unit" where
  "lower_ascii c = (if 65 \<le> uint c \<and> uint c \<le> 90 then c + 32 else c)"

text \<open>The parts after the split, last one first.\<close>

fun float60 :: "jstr list \<Rightarrow> dbl \<Rightarrow> dbl \<Rightarrow> dbl" where
  "float60 [] value base = value"
| "float60 (p # ps) value base = float60 ps (dbl_add value (dbl_mul (parseFloat p) base)) (dbl_mul base (Fin 60))"

definition constructYamlFloat :: "jstr \<Rightarrow> dbl" where
  "constructYamlFloat data =
     (let value0 = map lower_ascii (filter (\<lambda>c. c \<noteq> 95) data);
          neg = (value0 \<noteq> [] \<and> hd value0 = 45);
          v = strip_sign value0;
          apply_sign = (\<lambda>x. if neg then dbl_neg x else x)
      in if v = js ''.inf'' then (if neg then NegInf else PosInf)
         else if v = js ''.nan'' then NotANumber
         else if 58 \<in> set v then apply_sign (float60 (rev (split_colon v)) (Fin 0) (Fin 1))
         else apply_sign (parseFloat v))"

text \<open>
  \<open>toString(10)\<close> of a positive value: the shortest digits that round to it,
  then the layout by the exponent.
\<close>

definition decimal_exponent :: "rat \<Rightarrow> int" where
  "decimal_exponent v = (case find (\<lambda>n. v < 10 powi n) [- 323..309] of None \<Rightarrow> 310 | Some n \<Rightarrow> n)"

definition shortest_digits :: "rat \<Rightarrow> int \<Rightarrow> int \<times> int" where
  "shortest_digits v n =
     (case find (\<lambda>k. round_double (of_int (round_even (v * 10 powi (k - n))) * 10 powi (n - k)) = Fin v) [1..17] of
        None \<Rightarrow> (17, round_even (v * 10 powi (17 - n)))
      | Some k \<Rightarrow> (k, round_even (v * 10 powi (k - n))))"

definition number_layout :: "jstr \<Rightarrow> int \<Rightarrow> jstr" where
  "number_layout ds n =
     (let k = int (length ds) in
      if k \<le> n \<and> n \<le> 21 then ds @ replicate (nat (n - k)) 48
      else if 0 < n \<and> n \<le> 21 then take (nat n) ds @ [46] @ drop (nat n) ds
      else if - 6 < n \<and> n \<le> 0 then js ''0.'' @ replicate (nat (- n)) 48 @ ds
      else let e = 101 # (if n - 1 < 0 then 45 else 43) # radix_digits 10 (nat \<bar>n - 1\<bar>)
           in if k = 1 then ds @ e else take 1 ds @ [46] @ drop 1 ds @ e)"

definition number_string :: "rat \<Rightarrow> jstr" where
  "number_string x =
     (let v = \<bar>x\<bar>; n = decimal_exponent v; (k, s) = shortest_digits v n;
          body = (if x = 0 then js ''0'' else number_layout (radix_digits 10 (nat s)) n)
      in if x < 0 then 45 # body else body)"

text \<open>The text of an integer; with the radix 10 it is that of every number.\<close>

datatype int_style = Binary | Octal | Decimal | Hexadecimal

definition representYamlInteger :: "int_style \<Rightarrow> int \<Rightarrow> jstr" where
  "representYamlInteger style n =
     (case style of
        Binary \<Rightarrow> if n \<ge> 0 then js ''0b'' @ int_string 2 n else js ''-0b'' @ tl (int_string 2 n)
      | Octal \<Rightarrow> if n \<ge> 0 then js ''0'' @ int_string 8 n else js ''-0'' @ tl (int_string 8 n)
      | Decimal \<Rightarrow> number_string (of_int n)
      | Hexadecimal \<Rightarrow> if n \<ge> 0 then js ''0x'' @ map upper_unit (int_string 16 n)
                       else js ''-0x'' @ tl (map upper_unit (int_string 16 n)))"

text \<open>\<open>res.replace("e", ".e")\<close> when \<open>/^[-+]?[0-9]+e/\<close> matches.\<close>

definition dot_before_e :: "jstr \<Rightarrow> jstr" where
  "dot_before_e res =
     (let body = strip_sign res; ds = takeWhile unit_digit body; rest = dropWhile unit_digit body
      in if ds \<noteq> [] \<and> rest \<noteq> [] \<and> hd rest = 101
         then takeWhile (\<lambda>c. c \<noteq> 101) res @ [46] @ dropWhile (\<lambda>c. c \<noteq> 101) res else res)"

definition styled :: "jstr option \<Rightarrow> string \<Rightarrow> string \<Rightarrow> string \<Rightarrow> jstr \<Rightarrow> jstr" where
  "styled style lower upper camel other =
     (if style = Some (js ''lowercase'') then js lower
      else if style = Some (js ''uppercase'') then js upper
      else if style = Some (js ''camelcase'') then js camel else other)"

definition representYamlFloat :: "dbl \<Rightarrow> jstr option \<Rightarrow> jstr" where
  "representYamlFloat x style =
     (case x of
        NotANumber \<Rightarrow> styled style ''.nan'' ''.NAN'' ''.NaN'' (js ''NaN'')
      | PosInf \<Rightarrow> styled style ''.inf'' ''.INF'' ''.Inf'' (js ''Infinity'')
      | NegInf \<Rightarrow> styled style ''-.inf'' ''-.INF'' ''-.Inf'' (js ''-Infinity'')
      | NegZero \<Rightarrow> js ''-0.0''
      | Fin v \<Rightarrow> dot_before_e (number_string v))"

definition isInteger :: "yval \<Rightarrow> bool" where
  "isInteger v = (case v of YNum (Fin x) \<Rightarrow> of_int \<lfloor>x\<rfloor> = x | _ \<Rightarrow> False)"

definition isFloat :: "yval \<Rightarrow> bool" where
  "isFloat v = (case v of YNum (Fin x) \<Rightarrow> of_int \<lfloor>x\<rfloor> \<noteq> x | YNum _ \<Rightarrow> True | _ \<Rightarrow> False)"

section \<open>Binary data\<close>

definition BASE64_MAP :: jstr where
  "BASE64_MAP = js ''ABCDEFGHIJKLMNOPQRSTUVWXYZabcdefghijklmnopqrstuvwxyz0123456789+/='' @ [10, 13]"

text \<open>\<open>map.indexOf(c)\<close>\<close>

definition map_index :: "code_unit \<Rightarrow> int" where
  "map_index c = (if c \<in> set BASE64_MAP then int (length (takeWhile (\<lambda>x. x \<noteq> c) BASE64_MAP)) else - 1)"

fun binary_bits :: "jstr \<Rightarrow> int \<Rightarrow> int option" where
  "binary_bits [] nbits = Some nbits"
| "binary_bits (c # cs) nbits =
     (if map_index c > 64 then binary_bits cs nbits
      else if map_index c < 0 then None
      else binary_bits cs (nbits + 6))"

definition resolveYamlBinary :: "jstr option \<Rightarrow> bool" where
  "resolveYamlBinary data =
     (case data of
        None \<Rightarrow> False
      | Some d \<Rightarrow> (case binary_bits d 0 of None \<Rightarrow> False | Some n \<Rightarrow> n mod 8 = 0))"

definition three_bytes :: "int \<Rightarrow> int list" where
  "three_bytes bits = [js_and (js_sar bits 16) 255, js_and (js_sar bits 8) 255, js_and bits 255]"

text \<open>The loop over the cleaned input at index \<open>idx\<close>; \<open>bits\<close> keeps every bit that fits in 32.\<close>

fun binary_loop :: "jstr \<Rightarrow> nat \<Rightarrow> int \<Rightarrow> int list \<times> int" where
  "binary_loop [] idx bits = ([], bits)"
| "binary_loop (c # cs) idx bits =
     (let push = (if idx mod 4 = 0 \<and> idx \<noteq> 0 then three_bytes bits else []);
          (r, b) = binary_loop cs (Suc idx) (js_or (js_shl bits 6) (map_index c))
      in (push @ r, b))"

definition constructYamlBinary :: "jstr \<Rightarrow> byte list" where
  "constructYamlBinary data =
     (let input = filter (\<lambda>c. c \<noteq> 13 \<and> c \<noteq> 10 \<and> c \<noteq> 61) data;
          (r, bits) = binary_loop input 0 0;
          tailbits = length input mod 4 * 6
      in map word_of_int (r @
           (if tailbits = 0 then three_bytes bits
            else if tailbits = 18 then [js_and (js_sar bits 10) 255, js_and (js_sar bits 2) 255]
            else if tailbits = 12 then [js_and (js_sar bits 4) 255]
            else [])))"

definition base64_at :: "int \<Rightarrow> code_unit" where
  "base64_at i = BASE64_MAP ! nat i"

definition four_chars :: "int \<Rightarrow> jstr" where
  "four_chars bits =
     [base64_at (js_and (js_sar bits 18) 63), base64_at (js_and (js_sar bits 12) 63),
      base64_at (js_and (js_sar bits 6) 63), base64_at (js_and bits 63)]"

fun represent_loop :: "byte list \<Rightarrow> nat \<Rightarrow> int \<Rightarrow> jstr \<times> int" where
  "represent_loop [] idx bits = ([], bits)"
| "represent_loop (x # xs) idx bits =
     (let push = (if idx mod 3 = 0 \<and> idx \<noteq> 0 then four_chars bits else []);
          (r, b) = represent_loop xs (Suc idx) (js_shl bits 8 + uint x)
      in (push @ r, b))"

definition representYamlBinary :: "byte list \<Rightarrow> jstr" where
  "representYamlBinary xs =
     (let (r, bits) = represent_loop xs 0 0; tail = length xs mod 3
      in r @
         (if tail = 0 then four_chars bits
          else if tail = 2 then
            [base64_at (js_and (js_sar bits 10) 63), base64_at (js_and (js_sar bits 4) 63),
             base64_at (js_and (js_shl bits 2) 63), base64_at 64]
          else if tail = 1 then
            [base64_at (js_and (js_sar bits 2) 63), base64_at (js_and (js_shl bits 4) 63), base64_at 64, base64_at 64]
          else []))"

section \<open>Timestamps\<close>

text \<open>
  The two date patterns, as parsers that return the groups.  Each repetition stands in front of a
  character it cannot match, so the longest match is the only one.
\<close>

definition digits_upto :: "nat \<Rightarrow> nat \<Rightarrow> jstr \<Rightarrow> (jstr \<times> jstr) option" where
  "digits_upto lo hi s =
     (let ds = take hi (takeWhile unit_digit s)
      in if length ds < lo then None else Some (ds, drop (length ds) s))"

definition expect :: "(code_unit \<Rightarrow> bool) \<Rightarrow> jstr \<Rightarrow> jstr option" where
  "expect p s = (case s of [] \<Rightarrow> None | c # cs \<Rightarrow> if p c then Some cs else None)"

definition date_part :: "nat \<Rightarrow> jstr \<Rightarrow> ((nat \<times> nat \<times> nat) \<times> jstr) option" where
  "date_part lo s =
     Option.bind (digits_upto 4 4 s) (\<lambda>(y, s1).
     Option.bind (expect (\<lambda>c. c = 45) s1) (\<lambda>s2.
     Option.bind (digits_upto lo 2 s2) (\<lambda>(m, s3).
     Option.bind (expect (\<lambda>c. c = 45) s3) (\<lambda>s4.
     Option.bind (digits_upto lo 2 s4) (\<lambda>(d, s5).
       Some ((decimal_value y, decimal_value m, decimal_value d), s5))))))"

definition YAML_DATE_REGEXP :: "jstr \<Rightarrow> (nat \<times> nat \<times> nat) option" where
  "YAML_DATE_REGEXP s =
     (case date_part 2 s of Some (ymd, []) \<Rightarrow> Some ymd | _ \<Rightarrow> None)"

definition unit_blank :: "code_unit \<Rightarrow> bool" where
  "unit_blank c \<longleftrightarrow> c = 32 \<or> c = 9"

text \<open>\<open>(?:[Tt]|[ \t]+)\<close>\<close>

definition time_separator :: "jstr \<Rightarrow> jstr option" where
  "time_separator s =
     (case s of
        [] \<Rightarrow> None
      | c # cs \<Rightarrow> if c = 84 \<or> c = 116 then Some cs else if unit_blank c then Some (dropWhile unit_blank cs) else None)"

definition time_part :: "jstr \<Rightarrow> ((nat \<times> nat \<times> nat) \<times> jstr) option" where
  "time_part s =
     Option.bind (digits_upto 1 2 s) (\<lambda>(h, s1).
     Option.bind (expect (\<lambda>c. c = 58) s1) (\<lambda>s2.
     Option.bind (digits_upto 2 2 s2) (\<lambda>(m, s3).
     Option.bind (expect (\<lambda>c. c = 58) s3) (\<lambda>s4.
     Option.bind (digits_upto 2 2 s4) (\<lambda>(sec, s5).
       Some ((decimal_value h, decimal_value m, decimal_value sec), s5))))))"

definition fraction_part :: "jstr \<Rightarrow> jstr \<times> jstr" where
  "fraction_part s =
     (case s of
        [] \<Rightarrow> ([], [])
      | c # cs \<Rightarrow> if c = 46 then (takeWhile unit_digit cs, dropWhile unit_digit cs) else ([], s))"

text \<open>The time zone: none, \<open>Z\<close>, or a sign with hours and minutes; it must end the string.\<close>

definition zone_part :: "jstr \<Rightarrow> (bool \<times> nat \<times> nat) option option" where
  "zone_part s =
     (if s = [] then Some None
      else case dropWhile unit_blank s of
             [] \<Rightarrow> None
           | c # cs \<Rightarrow>
               if c = 90 then (if cs = [] then Some None else None)
               else if c = 45 \<or> c = 43 then
                 (case digits_upto 1 2 cs of
                    None \<Rightarrow> None
                  | Some (h, r) \<Rightarrow>
                      if r = [] then Some (Some (c = 45, decimal_value h, 0))
                      else (case Option.bind (expect (\<lambda>c. c = 58) r) (digits_upto 2 2) of
                              Some (mi, []) \<Rightarrow> Some (Some (c = 45, decimal_value h, decimal_value mi))
                            | _ \<Rightarrow> None))
               else None)"

type_synonym timestamp_groups = "(nat \<times> nat \<times> nat) \<times> (nat \<times> nat \<times> nat) \<times> jstr \<times> (bool \<times> nat \<times> nat) option"

definition YAML_TIMESTAMP_REGEXP :: "jstr \<Rightarrow> timestamp_groups option" where
  "YAML_TIMESTAMP_REGEXP s =
     Option.bind (date_part 1 s) (\<lambda>(ymd, s1).
     Option.bind (time_separator s1) (\<lambda>s2.
     Option.bind (time_part s2) (\<lambda>(hms, s3).
       let (fr, s4) = fraction_part s3
       in Option.bind (zone_part s4) (\<lambda>z. Some (ymd, hms, fr, z)))))"

definition resolveYamlTimestamp :: "jstr option \<Rightarrow> bool" where
  "resolveYamlTimestamp data =
     (case data of
        None \<Rightarrow> False
      | Some d \<Rightarrow> YAML_DATE_REGEXP d \<noteq> None \<or> YAML_TIMESTAMP_REGEXP d \<noteq> None)"

text \<open>\<open>Date.UTC\<close>: day numbers from 1970, months counted from 0, years below 100 in the 20th century.\<close>

definition day_from_year :: "int \<Rightarrow> int" where
  "day_from_year y = 365 * (y - 1970) + (y - 1969) div 4 - (y - 1901) div 100 + (y - 1601) div 400"

definition leap_year :: "int \<Rightarrow> bool" where
  "leap_year y \<longleftrightarrow> y mod 4 = 0 \<and> (y mod 100 \<noteq> 0 \<or> y mod 400 = 0)"

definition month_days :: "bool \<Rightarrow> int list" where
  "month_days leap = [0, 31, if leap then 60 else 59, if leap then 91 else 90, if leap then 121 else 120,
     if leap then 152 else 151, if leap then 182 else 181, if leap then 213 else 212, if leap then 244 else 243,
     if leap then 274 else 273, if leap then 305 else 304, if leap then 335 else 334]"

definition make_day :: "int \<Rightarrow> int \<Rightarrow> int \<Rightarrow> int" where
  "make_day year month day =
     (let y = year + month div 12; m = month mod 12
      in day_from_year y + month_days (leap_year y) ! nat m + day - 1)"

definition date_utc :: "int \<Rightarrow> int \<Rightarrow> int \<Rightarrow> int \<Rightarrow> int \<Rightarrow> int \<Rightarrow> int \<Rightarrow> int" where
  "date_utc year month day hour minute second ms =
     (let y = (if 0 \<le> year \<and> year \<le> 99 then 1900 + year else year)
      in make_day y month day * 86400000 + hour * 3600000 + minute * 60000 + second * 1000 + ms)"

text \<open>The first three digits of the fraction, filled up with zeros.\<close>

definition fraction_ms :: "jstr \<Rightarrow> int" where
  "fraction_ms fr = (if fr = [] then 0 else int (decimal_value (take 3 (fr @ [48, 48, 48]))))"

definition constructYamlTimestamp :: "jstr \<Rightarrow> int result" where
  "constructYamlTimestamp data =
     (case YAML_DATE_REGEXP data of
        Some (y, m, d) \<Rightarrow> Inr (date_utc (int y) (int m - 1) (int d) 0 0 0 0)
      | None \<Rightarrow>
          (case YAML_TIMESTAMP_REGEXP data of
             None \<Rightarrow> Inl (PlainError ''Date resolve error'')
           | Some ((y, m, d), (h, mi, sec), fr, zone) \<Rightarrow>
               let t = date_utc (int y) (int m - 1) (int d) (int h) (int mi) (int sec) (fraction_ms fr);
                   delta = (case zone of
                              None \<Rightarrow> 0
                            | Some (neg, zh, zm) \<Rightarrow> (if neg then - 1 else 1) * ((int zh * 60 + int zm) * 60000))
               in Inr (t - delta)))"

text \<open>\<open>toISOString\<close>: the year is the one whose days contain the day, the month likewise.\<close>

definition year_from_day :: "int \<Rightarrow> int" where
  "year_from_day d =
     (let q = d div (if d < 0 then 365 else 366); y = 1970 + q
      in y + int (length (takeWhile (\<lambda>k. day_from_year (y + int k + 1) \<le> d) [0..<nat (\<bar>q\<bar> + 2)])))"

definition month_from_day :: "bool \<Rightarrow> int \<Rightarrow> int" where
  "month_from_day leap n = int (length (takeWhile (\<lambda>x. x \<le> n) (month_days leap))) - 1"

definition padded :: "nat \<Rightarrow> int \<Rightarrow> jstr" where
  "padded k n = (let ds = radix_digits 10 (nat n) in replicate (k - length ds) 48 @ ds)"

definition iso_year :: "int \<Rightarrow> jstr" where
  "iso_year y = (if 0 \<le> y \<and> y \<le> 9999 then padded 4 y else (if y < 0 then 45 else 43) # padded 6 \<bar>y\<bar>)"

definition toISOString :: "int \<Rightarrow> jstr" where
  "toISOString t =
     (let d = t div 86400000; r = t mod 86400000; y = year_from_day d;
          n = d - day_from_year y; m = month_from_day (leap_year y) n
      in iso_year y @ [45] @ padded 2 (m + 1) @ [45] @ padded 2 (n - month_days (leap_year y) ! nat m + 1) @ [84] @
         padded 2 (r div 3600000) @ [58] @ padded 2 (r div 60000 mod 60) @ [58] @ padded 2 (r div 1000 mod 60) @ [46] @
         padded 3 (r mod 1000) @ [90])"

definition representYamlTimestamp :: "int \<Rightarrow> jstr" where
  "representYamlTimestamp t = toISOString t"

end
