(* ===== verification/Number_Laws.thy ===== *)
theory Number_Laws
  imports Yaml_Types
begin

text \<open>
  Whole numbers as doubles: up to \<open>2 ^ 53\<close> the rounding keeps them, and their decimal text,
  which \<open>toString\<close> builds from the shortest digits that round to the number, is all their digits.
\<close>

section \<open>Rounding\<close>

lemma round_even_int [simp]: "round_even (of_int i) = i"
  by (simp add: round_even_def)

lemma round_even_ge: "of_int i \<le> x \<Longrightarrow> i \<le> round_even x"
proof -
  assume "of_int i \<le> x"
  then have "i \<le> \<lfloor>x\<rfloor>" by (simp add: le_floor_iff)
  then show ?thesis by (auto simp: round_even_def Let_def)
qed

lemma round_even_le: "x \<le> of_int i \<Longrightarrow> round_even x \<le> i"
proof -
  assume x: "x \<le> of_int i"
  then have f: "\<lfloor>x\<rfloor> \<le> i" by linarith
  show ?thesis
  proof (cases "\<lfloor>x\<rfloor> = i")
    case True
    then have "x = of_int i" using x of_int_floor_le [of x] by simp
    then show ?thesis by simp
  qed (use f in \<open>auto simp: round_even_def Let_def\<close>)
qed

lemma round_even_near: "x \<le> of_int (round_even x) + 1 / 2"
proof -
  have "x < of_int \<lfloor>x\<rfloor> + 1" by linarith
  then show ?thesis by (auto simp: round_even_def Let_def)
qed

lemma floor_log2_int:
  assumes "0 < m"
  shows "floor_log2 (of_int m) = int (floorlog 2 (nat m)) - 1"
proof -
  have "2 ^ (floorlog 2 (nat m) - 1) \<le> nat m" using floorlog_bounds [of "nat m" 2] assms by simp
  then have "int (2 ^ (floorlog 2 (nat m) - 1)) \<le> m" using assms by linarith
  then have "(2 :: int) ^ (floorlog 2 (nat m) - 1) \<le> m" by simp
  then have "(2 :: rat) ^ (floorlog 2 (nat m) - 1) \<le> of_int m" by (metis of_int_le_iff of_int_numeral of_int_power)
  moreover have "0 < floorlog 2 (nat m)" using assms by (simp add: floorlog_def)
  ultimately have "(2 :: rat) powi (int (floorlog 2 (nat m)) - 1) \<le> of_int m"
    by (simp add: power_int_def nat_diff_distrib)
  moreover have "floorlog 2 (nat 1) = 1" by (simp add: floorlog_def)
  ultimately show ?thesis by (simp add: floor_log2_def)
qed

lemma floorlog_le: "m < 2 ^ k \<Longrightarrow> floorlog 2 m \<le> k" for m :: nat
  by (simp add: floorlog_leI)

lemma floor_log2_two: "2 ^ k \<le> m \<Longrightarrow> m < 2 ^ Suc k \<Longrightarrow> floor_log2 (of_int m) = int k"
proof -
  assume m: "2 ^ k \<le> m" "m < 2 ^ Suc k"
  have "0 < m" using m(1) by (rule less_le_trans [rotated]) simp
  moreover have "nat (2 ^ k) \<le> nat m" "nat m < nat (2 ^ Suc k)" using m \<open>0 < m\<close> by (simp_all only: nat_mono nat_less_eq_zless)
  then have "2 ^ k \<le> nat m" "nat m < 2 ^ Suc k" by (simp_all only: nat_power_eq zero_le_numeral nat_numeral)
  then have "floorlog 2 (nat m) = Suc k" using floorlog_ge_SucI [of 2 k "nat m"] floorlog_leI [of "nat m" 2 "Suc k"] by simp
  ultimately show ?thesis using floor_log2_int by simp
qed

lemma round_small:
  assumes "0 < m" "m < 2 ^ 53"
  shows "round_double (of_int m) = Fin (of_int m)"
proof -
  define q where "q = max (floor_log2 (of_int m) - 52) (- 1074)"
  have "nat m < 2 ^ 53" using assms by simp
  then have "floorlog 2 (nat m) \<le> 53" by (rule floorlog_le)
  then have "q \<le> 0" using floor_log2_int [OF assms(1)] by (simp add: q_def)
  then have "(2 :: rat) powi q = 1 / of_int (2 ^ nat (- q))" by (auto simp: power_int_def inverse_eq_divide power_one_over)
  then have d: "of_int m / (2 :: rat) powi q = of_int (m * 2 ^ nat (- q))" by simp
  have "of_int (round_even (of_int m / 2 powi q)) * (2 :: rat) powi q = of_int m"
    using round_even_int [of "m * 2 ^ nat (- q)"] d by (metis nonzero_eq_divide_eq power_int_eq_0_iff zero_neq_numeral)
  moreover have "round_even (of_int m / 2 powi q) \<noteq> 0" unfolding d round_even_int using assms by simp
  moreover have "\<not> (2 :: rat) ^ 1024 \<le> of_int m"
  proof -
    have "m < 2 ^ 1024" using assms(2) by (rule less_le_trans) simp
    then show ?thesis by (metis not_le of_int_less_iff of_int_numeral of_int_power)
  qed
  ultimately show ?thesis using assms by (simp add: round_double_def Let_def q_def)
qed

lemma round_big:
  assumes "2 ^ 53 \<le> w" "w < 2 ^ 54" "round_double (of_int w) = Fin x"
  shows "2 ^ 53 \<le> x" "of_int w \<le> x + 1"
proof -
  have "floor_log2 (of_int w) = 53" using floor_log2_two [of 53 w] assms(1,2) by simp
  moreover have "of_int (2 ^ 52) \<le> (of_int w / 2 :: rat)" using assms(1) by simp
  from round_even_ge [OF this] have "(2 ^ 52 :: int) \<le> round_even (of_int w / 2)" .
  then have "of_int (2 ^ 53) \<le> (of_int (round_even (of_int w / 2) * 2) :: rat)" by (simp only: of_int_le_iff) simp
  ultimately have "2 ^ 53 \<le> x \<and> of_int w \<le> x + 1"
    using assms round_even_near [of "of_int w / 2"] by (auto simp: round_double_def Let_def split: if_splits)
  then show "2 ^ 53 \<le> x" "of_int w \<le> x + 1" by simp_all
qed

text \<open>A whole number up to \<open>2 ^ 53\<close> is a double.\<close>

lemma round_double_int:
  assumes "\<bar>n\<bar> \<le> 2 ^ 53"
  shows "round_double (of_int n) = Fin (of_int n)"
proof -
  have "round_double (of_int (2 ^ 53)) = Fin (of_int (2 ^ 53))"
  proof -
    have "floor_log2 (of_int (2 ^ 53)) = 53" using floor_log2_two [of 53 "2 ^ 53"] by simp
    then show ?thesis using round_even_int [of "2 ^ 52"] by (simp add: round_double_def Let_def)
  qed
  moreover have pos: "round_double (of_int m) = Fin (of_int m)" if "0 < m" "m \<le> 2 ^ 53" for m
    using that round_small [of m] calculation by (cases "m = 2 ^ 53") auto
  moreover have neg: "round_double (- x) = Fin (- y)" if "0 < x" "round_double x = Fin y" "y \<noteq> 0" for x y
    using that by (auto simp: round_double_def Let_def split: if_splits)
  ultimately show ?thesis
  proof (cases "n < 0")
    case True
    have "round_double (of_int (- n)) = Fin (of_int (- n))" using True assms by (intro pos) auto
    from neg [OF _ this] show ?thesis using True by simp
  next
    case False
    then show ?thesis using pos [of n] assms by (cases "n = 0") (simp_all add: round_double_def)
  qed
qed

section \<open>Decimal text\<close>

lemma find_upto:
  assumes "a \<le> n" "n \<le> b" "P n" "\<And>j. a \<le> j \<Longrightarrow> j < n \<Longrightarrow> \<not> P j"
  shows "find P [a..b] = Some n"
proof -
  have s: "[a..b] = [a..n - 1] @ n # [n + 1..b]"
    using assms(1,2) upto_split3 by blast
  have "find P ([a..n - 1] @ n # [n + 1..b]) = Some n"
  proof -
    have "find P (xs @ n # ys) = Some n" if "\<forall>x \<in> set xs. \<not> P x" for xs ys using that assms(3) by (induction xs) auto
    then show ?thesis using assms(4) by simp
  qed
  then show ?thesis using s by simp
qed

lemma find_upto_le:
  assumes "a \<le> n" "n \<le> b" "P n"
  obtains k where "find P [a..b] = Some k" "a \<le> k" "k \<le> n" "P k"
proof -
  have "\<exists>k. a \<le> k \<and> k \<le> n \<and> P k \<and> (\<forall>j. a \<le> j \<longrightarrow> j < k \<longrightarrow> \<not> P j)"
  proof -
    obtain i :: nat where i: "P (a + int i)" "i \<le> nat (n - a)" "\<And>l. l < i \<Longrightarrow> \<not> P (a + int l)"
      using ex_least_nat_le [of "\<lambda>i. P (a + int i)" "nat (n - a)"] assms(1,3) by auto
    have "\<not> P j" if "a \<le> j" "j < a + int i" for j
      using i(3) [of "nat (j - a)"] that by simp
    then show ?thesis using i(1,2) assms(1) by (intro exI [of _ "a + int i"]) auto
  qed
  then obtain k where "a \<le> k" "k \<le> n" "P k" "\<forall>j. a \<le> j \<longrightarrow> j < k \<longrightarrow> \<not> P j" by (elim exE conjE)
  moreover from this have "find P [a..b] = Some k" using assms(2) by (intro find_upto) auto
  ultimately show thesis using that by blast
qed

text \<open>The number of digits, and zeros at the end.\<close>

lemma length_radix: "10 ^ k \<le> m \<Longrightarrow> m < 10 ^ Suc k \<Longrightarrow> length (radix_digits 10 m) = Suc k"
proof (induction k arbitrary: m)
  case 0
  then show ?case by (simp add: radix_digits.simps [of 10 m])
next
  case (Suc k)
  have "10 ^ k \<le> m div 10" using Suc(2) by (simp add: less_eq_div_iff_mult_less_eq)
  moreover have "m div 10 < 10 ^ Suc k" using Suc(3) by (simp add: div_less_iff_less_mult)
  moreover have "\<not> m < 10" using Suc(2) one_le_power [of "10 :: nat" k] unfolding power_Suc by linarith
  ultimately show ?case using Suc(1) by (simp add: radix_digits.simps [of 10 m])
qed

lemma radix_zeros: "0 < s \<Longrightarrow> radix_digits 10 (s * 10 ^ j) = radix_digits 10 s @ replicate j 48"
proof (induction j)
  case (Suc j)
  have "radix_digits 10 (10 * t) = radix_digits 10 t @ [48]" if "0 < t" for t
    using that by (simp add: radix_digits.simps [of 10 "10 * t"] digit_char_def)
  from this [of "s * 10 ^ j"] show ?case using Suc by (simp add: mult.left_commute [of s] replicate_append_same)
qed simp

lemma decimal_exponent_int:
  assumes "10 ^ k \<le> m" "m < 10 ^ Suc k" "k < 300"
  shows "decimal_exponent (of_nat m) = int (Suc k)"
proof -
  have "find (\<lambda>n. (of_nat m :: rat) < 10 powi n) [- 323..309] = Some (int (Suc k))"
  proof (rule find_upto)
    have "(of_nat m :: rat) < of_nat (10 ^ Suc k)" using assms(2) by (simp only: of_nat_less_iff)
    then show "(of_nat m :: rat) < 10 powi int (Suc k)" unfolding power_int_of_nat by simp
    fix j assume "j < int (Suc k)"
    then have "(10 :: rat) powi j \<le> 10 powi int k" by (intro power_int_increasing) auto
    also have "\<dots> = of_nat (10 ^ k)" unfolding power_int_of_nat by simp
    also have "\<dots> \<le> of_nat m" using assms(1) by (simp only: of_nat_le_iff)
    finally show "\<not> (of_nat m :: rat) < 10 powi j" by simp
  qed (use assms(3) in auto)
  then show ?thesis by (simp add: decimal_exponent_def)
qed

text \<open>The shortest digits of a whole number give it exactly, with zeros behind them.\<close>

lemma shortest_digits_int:
  assumes "m \<le> 2 ^ 53" "10 ^ e \<le> m" "m < 10 ^ Suc e"
  obtains k s where "shortest_digits (of_nat m) (int (Suc e)) = (k, int s)" "1 \<le> k" "k \<le> int (Suc e)"
    "m = s * 10 ^ nat (int (Suc e) - k)"
proof -
  define n where "n = int (Suc e)"
  define s where "s = (\<lambda>k. round_even (of_nat m * 10 powi (k - n)))"
  define P where "P = (\<lambda>k. round_double (of_int (s k) * 10 powi (n - k)) = Fin (of_nat m))"
  have m: "0 < m" using assms(2) by (rule less_le_trans [rotated]) simp
  have e: "e \<le> 15"
  proof (rule ccontr)
    assume "\<not> e \<le> 15"
    then have "(10 :: nat) ^ 16 \<le> 10 ^ e" by (intro power_increasing) auto
    then show False using assms(1,2) by simp
  qed
  have "s n = int m" using round_even_int [of "int m"] by (simp add: s_def)
  moreover have "round_double (of_int (int m)) = Fin (of_int (int m))" using assms(1) by (intro round_double_int) simp
  ultimately have "P n" by (simp add: P_def)
  then obtain k where k: "find P [1..17] = Some k" "1 \<le> k" "k \<le> n" "P k"
    using find_upto_le [of 1 n 17 P] e by (auto simp: n_def)
  have s0: "0 \<le> s k" unfolding s_def by (rule round_even_ge) simp
  have pw: "(10 :: rat) powi (n - k) = of_int (10 ^ nat (n - k))" using k(3) by (simp add: power_int_def)
  then have w: "round_double (of_int (s k * 10 ^ nat (n - k))) = Fin (of_nat m)" using k(4) by (simp add: P_def)
  have exact: "s k * 10 ^ nat (n - k) = int m"
  proof (cases "s k * 10 ^ nat (n - k) < 2 ^ 53")
    case True
    have "s k \<noteq> 0"
      using w m by (auto simp: round_double_def)
    then have "round_double (of_int (s k * 10 ^ nat (n - k))) = Fin (of_int (s k * 10 ^ nat (n - k)))"
      using True s0 by (intro round_small) auto
    then show ?thesis using w by (metis dbl.inject of_int_eq_iff of_int_of_nat_eq)
  next
    case False
    have "of_nat m * (10 :: rat) powi (k - n) \<le> of_int (10 ^ nat k)"
    proof -
      have "(of_nat m :: rat) \<le> of_nat (10 ^ Suc e)" using assms(3) by (simp only: of_nat_le_iff less_imp_le)
      then have "(of_nat m :: rat) \<le> 10 powi n" unfolding n_def power_int_of_nat by simp
      then have "of_nat m * (10 :: rat) powi (k - n) \<le> 10 powi n * 10 powi (k - n)" by (intro mult_right_mono) auto
      also have "\<dots> = 10 powi k" by (simp flip: power_int_add)
      also have "\<dots> = of_int (10 ^ nat k)" using k(2) by (simp add: power_int_def)
      finally show ?thesis .
    qed
    then have "s k \<le> 10 ^ nat k" unfolding s_def by (rule round_even_le)
    then have "s k * 10 ^ nat (n - k) \<le> 10 ^ nat k * 10 ^ nat (n - k)" by (intro mult_right_mono) auto
    also have "\<dots> = 10 ^ nat n" using k(2,3) by (simp add: nat_add_distrib flip: power_add)
    also have "\<dots> \<le> 10 ^ 16" using e by (intro power_increasing) (auto simp: n_def)
    finally have "s k * 10 ^ nat (n - k) < 2 ^ 54" by (rule le_less_trans) simp
    note big = round_big [OF _ this w]
    have "of_int (2 ^ 53) \<le> (of_int (int m) :: rat)" using big(1) False by simp
    then have m53: "int m = 2 ^ 53" unfolding of_int_le_iff using assms(1) by simp
    have "of_int (s k * 10 ^ nat (n - k)) \<le> (of_int (int m + 1) :: rat)" using big(2) False by simp
    then have "s k * 10 ^ nat (n - k) \<le> 2 ^ 53 + 1" unfolding of_int_le_iff m53 .
    moreover have "10 dvd s k * 10 ^ nat (n - k)" if "k \<noteq> n"
      using that k(3) by (intro dvd_mult dvd_power) simp
    moreover have "\<not> 10 dvd w" if "2 ^ 53 \<le> w" "w \<le> 2 ^ 53 + 1" for w :: int
    proof -
      have "w = 2 ^ 53 \<or> w = 2 ^ 53 + 1" using that by linarith
      then show ?thesis by auto
    qed
    ultimately have "k = n" using False by (meson not_le)
    then show ?thesis using \<open>s n = int m\<close> by simp
  qed
  show thesis
  proof (rule that)
    show "shortest_digits (of_nat m) (int (Suc e)) = (k, int (nat (s k)))"
      using k(1) s0 unfolding P_def s_def by (simp add: shortest_digits_def n_def)
    have "int (nat (s k) * 10 ^ nat (n - k)) = int m" using exact s0 by simp
    then show "m = nat (s k) * 10 ^ nat (int (Suc e) - k)" unfolding n_def of_nat_eq_iff by simp
  qed (use k in \<open>simp_all add: n_def\<close>)
qed

text \<open>The decimal text of a whole number up to \<open>2 ^ 53\<close>.\<close>

lemma number_string_int:
  assumes "\<bar>n\<bar> \<le> 2 ^ 53"
  shows "number_string (of_int n) = int_string 10 n"
proof (cases "n = 0")
  case True
  have "radix_digits 10 0 = [48]" by (simp add: radix_digits.simps [of 10 0] digit_char_def)
  with True show ?thesis by (simp add: number_string_def int_string_def js_def split: prod.split)
next
  case False
  define m where "m = nat \<bar>n\<bar>"
  have m: "0 < m" "m \<le> 2 ^ 53" "\<bar>of_int n\<bar> = (of_nat m :: rat)" using False assms by (simp_all add: m_def)
  obtain e where e: "10 ^ e \<le> m" "m < 10 ^ Suc e" using ex_power_ivl1 [of 10 m] m(1) by auto
  have "e < 21"
  proof (rule ccontr)
    assume "\<not> e < 21"
    then have "(10 :: nat) ^ 21 \<le> 10 ^ e" by (intro power_increasing) auto
    then show False using e(1) m(2) by simp
  qed
  obtain k s where k: "shortest_digits (of_nat m) (int (Suc e)) = (k, int s)" "k \<le> int (Suc e)" "1 \<le> k"
    "m = s * 10 ^ nat (int (Suc e) - k)" using shortest_digits_int [OF m(2) e] .
  have "0 < s" using k(4) m(1) by simp
  from radix_zeros [OF this, of "nat (int (Suc e) - k)"] k(4)
  have z: "radix_digits 10 m = radix_digits 10 s @ replicate (nat (int (Suc e) - k)) 48" by simp
  then have "int (length (radix_digits 10 s)) = k" using length_radix [OF e] k(2,3) by simp
  then have "number_layout (radix_digits 10 s) (int (Suc e)) = radix_digits 10 m"
    using z k(2) \<open>e < 21\<close> by (simp add: number_layout_def)
  moreover have "decimal_exponent (of_nat m) = int (Suc e)" using e \<open>e < 21\<close> by (intro decimal_exponent_int) simp_all
  ultimately have "number_string (of_int n) = (if n < 0 then 45 # radix_digits 10 m else radix_digits 10 m)"
    using False k(1) unfolding number_string_def m(3) Let_def by (simp only: of_int_eq_0_iff nat_int of_int_less_0_iff if_False prod.case)
  moreover have "nat (- n) = m" if "n < 0" using that by (simp only: m_def abs_of_neg)
  moreover have "nat n = m" if "\<not> n < 0" using that by (simp only: m_def abs_of_nonneg not_less)
  ultimately show ?thesis by (cases "n < 0") (simp_all only: int_string_def if_True if_False not_False_eq_True)
qed

end
