(* ===== verification/Yaml_Int_Laws.thy ===== *)
theory Yaml_Int_Laws
  imports Number_Laws
begin

text \<open>
  Integers in YAML: what \<open>representYamlInteger\<close> writes in any of the four styles resolves to an
  integer and constructs the number again.
\<close>

section \<open>Digits\<close>

lemma uint_word_nat: "n < 65536 \<Longrightarrow> uint (word_of_nat n :: code_unit) = int n"
  by (simp add: unsigned_of_nat take_bit_nat_eq_self flip: of_nat_take_bit)

lemma uint_digit_char: "d < 16 \<Longrightarrow> uint (digit_char d) = (if d < 10 then 48 + int d else 87 + int d)"
  using uint_word_nat [of "48 + d"] uint_word_nat [of "87 + d"] by (simp add: digit_char_def del: of_nat_add)

lemma uint_upper_digit: "d < 16 \<Longrightarrow> uint (upper_unit (digit_char d)) = (if d < 10 then 48 + int d else 55 + int d)"
proof -
  assume d: "d < 16"
  have "uint (c - 32) = uint c - 32" if "97 \<le> uint c" for c :: code_unit
    using that uint_sub_if' [of c 32] by simp
  with d show ?thesis by (simp add: upper_unit_def uint_digit_char)
qed

text \<open>A digit: the lower and the upper case form.\<close>

definition is_digit_of :: "nat \<Rightarrow> code_unit \<Rightarrow> nat \<Rightarrow> bool" where
  "is_digit_of r c d \<longleftrightarrow> d < r \<and> (c = digit_char d \<or> c = upper_unit (digit_char d))"

lemma is_digit_of_facts:
  assumes "is_digit_of r c d" "r \<le> 16"
  shows "radix_value (int r) c = Some (int d)" "c \<noteq> 95" "c \<noteq> 58" "c \<noteq> 45" "c \<noteq> 43" "c \<noteq> 120"
    "isHexCode c" "r \<le> 10 \<Longrightarrow> isDecCode c" "r \<le> 8 \<Longrightarrow> isOctCode c" "r \<le> 2 \<Longrightarrow> isBinCode c"
    "r \<le> 10 \<Longrightarrow> c \<noteq> 98" "c = 48 \<longleftrightarrow> d = 0"
proof -
  have d: "d < 16" "d < r" using assms by (auto simp: is_digit_of_def)
  have u: "uint c = (if d < 10 then 48 + int d else 87 + int d) \<or> uint c = (if d < 10 then 48 + int d else 55 + int d)"
    using assms(1) uint_digit_char [OF d(1)] uint_upper_digit [OF d(1)] by (auto simp: is_digit_of_def)
  show "radix_value (int r) c = Some (int d)" using u d by (cases "d < 10") (auto simp: radix_value_def Let_def)
  have "uint c \<notin> {95, 58, 45, 43, 120}" using u d by (cases "d < 10") auto
  then show "c \<noteq> 95" "c \<noteq> 58" "c \<noteq> 45" "c \<noteq> 43" "c \<noteq> 120" by auto
  show "isHexCode c" using u d by (cases "d < 10") (auto simp: isHexCode_def)
  show "r \<le> 10 \<Longrightarrow> isDecCode c" "r \<le> 8 \<Longrightarrow> isOctCode c" using u d by (cases "d < 10"; auto simp: isDecCode_def isOctCode_def)+
  have "r \<le> 10 \<Longrightarrow> uint c \<noteq> 98" using u d by auto
  then show "r \<le> 10 \<Longrightarrow> c \<noteq> 98" by auto
  have "uint c = 48 \<longleftrightarrow> d = 0" using u d by (cases "d < 10") auto
  then show "c = 48 \<longleftrightarrow> d = 0" by (simp add: word_uint_eq_iff)
  have "r \<le> 2 \<Longrightarrow> uint c = 48 \<or> uint c = 49" using u d by auto
  then show "r \<le> 2 \<Longrightarrow> isBinCode c" by (simp add: isBinCode_def word_uint_eq_iff)
qed

text \<open>Digits of a number, most significant first, in either case.\<close>

definition digits_of :: "nat \<Rightarrow> jstr \<Rightarrow> nat \<Rightarrow> bool" where
  "digits_of r cs n \<longleftrightarrow> cs \<noteq> [] \<and> (\<exists>ds. list_all2 (is_digit_of r) cs ds \<and> foldl (\<lambda>a d. a * r + d) 0 ds = n)"

lemma radix_prefix_digits:
  assumes "list_all2 (is_digit_of r) cs ds" "r \<le> 16"
  shows "radix_prefix (int r) (Some (int a)) cs = Some (int (foldl (\<lambda>a d. a * r + d) a ds))"
  using assms(1)
proof (induction arbitrary: a rule: list_all2_induct)
  case (Cons c cs d ds)
  have "int a * int r + int d = int (a * r + d)" by simp
  with Cons is_digit_of_facts(1) [OF Cons(1) assms(2)] show ?case by (simp del: of_nat_add of_nat_mult)
qed simp

lemma radix_prefix_parse:
  assumes "digits_of r cs n" "r \<le> 16"
  shows "radix_prefix (int r) None cs = Some (int n)"
proof -
  obtain ds where "cs \<noteq> []" "list_all2 (is_digit_of r) cs ds" "foldl (\<lambda>a d. a * r + d) 0 ds = n"
    using assms(1) by (auto simp: digits_of_def)
  then obtain c cs' d ds' where l: "cs = c # cs'" "ds = d # ds'" "is_digit_of r c d" "list_all2 (is_digit_of r) cs' ds'"
    by (cases cs; cases ds) auto
  then show ?thesis
    using radix_prefix_digits [OF l(4) assms(2), of d] is_digit_of_facts(1) [OF l(3) assms(2)]
      \<open>foldl (\<lambda>a d. a * r + d) 0 ds = n\<close> by simp
qed

lemma digits_of_snoc:
  assumes "digits_of r cs a" "is_digit_of r c d"
  shows "digits_of r (cs @ [c]) (a * r + d)"
proof -
  obtain ds where "list_all2 (is_digit_of r) cs ds" "foldl (\<lambda>a d. a * r + d) 0 ds = a"
    using assms(1) by (auto simp: digits_of_def)
  then show ?thesis
    using assms(2) by (auto simp: digits_of_def intro!: exI [of _ "ds @ [d]"] list_all2_appendI)
qed

lemma digits_of_single: "is_digit_of r c d \<Longrightarrow> digits_of r [c] d"
  by (auto simp: digits_of_def intro!: exI [of _ "[d]"])

lemma digits_of_radix:
  assumes "2 \<le> r" "r \<le> 16"
  shows "digits_of r (radix_digits r n) n \<and> digits_of r (map upper_unit (radix_digits r n)) n"
  using assms
proof (induction r n rule: radix_digits.induct)
  case (1 r n)
  have dig: "is_digit_of r (digit_char d) d" "is_digit_of r (upper_unit (digit_char d)) d" if "d < r" for d
    using that by (simp_all add: is_digit_of_def)
  show ?case
  proof (cases "n < r")
    case True
    with dig [OF True] show ?thesis by (simp add: radix_digits.simps [of r n] digits_of_single)
  next
    case False
    have m: "n mod r < r" "n = n div r * r + n mod r" using 1(2) by simp_all
    with 1 False have "digits_of r (radix_digits r (n div r)) (n div r)"
      "digits_of r (map upper_unit (radix_digits r (n div r))) (n div r)" by simp_all
    from digits_of_snoc [OF this(1) dig(1) [OF m(1)]] digits_of_snoc [OF this(2) dig(2) [OF m(1)]]
    show ?thesis using False 1(2) m(2) by (simp add: radix_digits.simps [of r n])
  qed
qed

text \<open>A number above 0 starts with a digit other than 0.\<close>

lemma radix_digits_hd: "2 \<le> r \<Longrightarrow> r \<le> 16 \<Longrightarrow> 0 < n \<Longrightarrow> hd (radix_digits r n) \<noteq> 48 \<and> radix_digits r n \<noteq> []"
proof (induction r n rule: radix_digits.induct)
  case (1 r n)
  show ?case
  proof (cases "n < r")
    case True
    then have "uint (digit_char n) \<noteq> 48" using 1 by (simp add: uint_digit_char)
    then show ?thesis using True by (auto simp: radix_digits.simps [of r n])
  next
    case False
    then have "0 < n div r" using 1(2) by (simp add: div_greater_zero_iff)
    with 1 False show ?thesis by (simp add: radix_digits.simps [of r n])
  qed
qed

section \<open>Resolution\<close>

lemma digits_loop_all:
  "list_all p cs \<Longrightarrow> list_all (\<lambda>c. c \<noteq> 95) cs \<Longrightarrow> cs \<noteq> [] \<Longrightarrow> digits_loop p cs b ch"
proof (induction cs arbitrary: b ch)
  case (Cons c cs)
  then show ?case by (cases cs) auto
qed simp

lemma decimal_loop_all:
  "list_all isDecCode cs \<Longrightarrow> list_all (\<lambda>c. c \<noteq> 95 \<and> c \<noteq> 58) cs \<Longrightarrow> cs \<noteq> [] \<Longrightarrow> decimal_loop cs b ch"
proof (induction cs arbitrary: b ch)
  case (Cons c cs)
  then show ?case by (cases cs) auto
qed simp

lemma digits_of_all:
  assumes "digits_of r cs n" "r \<le> 16" "\<And>c d. is_digit_of r c d \<Longrightarrow> p c"
  shows "list_all p cs" "cs \<noteq> []"
proof -
  obtain ds where "list_all2 (is_digit_of r) cs ds" using assms(1) by (auto simp: digits_of_def)
  then show "list_all p cs" by (induction rule: list_all2_induct) (auto dest: assms(3))
qed (use assms(1) in \<open>simp add: digits_of_def\<close>)

text \<open>The text of a number without its sign.\<close>

definition int_body :: "int_style \<Rightarrow> nat \<Rightarrow> jstr" where
  "int_body style k =
     (case style of
        Binary \<Rightarrow> [48, 98] @ radix_digits 2 k
      | Octal \<Rightarrow> [48] @ radix_digits 8 k
      | Decimal \<Rightarrow> radix_digits 10 k
      | Hexadecimal \<Rightarrow> [48, 120] @ map upper_unit (radix_digits 16 k))"

lemma represent_body:
  "\<bar>n\<bar> \<le> 2 ^ 53 \<Longrightarrow> representYamlInteger st n = (if n < 0 then [45] else []) @ int_body st (nat \<bar>n\<bar>)"
  by (cases st) (simp_all add: representYamlInteger_def number_string_int int_body_def int_string_def js_def)

definition digit_ok :: "nat \<Rightarrow> code_unit \<Rightarrow> bool" where
  "digit_ok r c \<longleftrightarrow> c \<noteq> 95 \<and> c \<noteq> 58 \<and> c \<noteq> 45 \<and> c \<noteq> 43 \<and> c \<noteq> 120 \<and> isHexCode c \<and>
     (r \<le> 10 \<longrightarrow> isDecCode c \<and> c \<noteq> 98) \<and> (r \<le> 8 \<longrightarrow> isOctCode c) \<and> (r \<le> 2 \<longrightarrow> isBinCode c)"

lemma digit_ok: "r \<le> 16 \<Longrightarrow> is_digit_of r c d \<Longrightarrow> digit_ok r c"
  using is_digit_of_facts [of r c d] by (simp add: digit_ok_def)

lemma radix_all:
  assumes "2 \<le> r" "r \<le> 16"
  shows "list_all (digit_ok r) (radix_digits r n)" "list_all (digit_ok r) (map upper_unit (radix_digits r n))"
    "radix_digits r n \<noteq> []"
proof -
  note d = digits_of_radix [OF assms, of n]
  show "list_all (digit_ok r) (radix_digits r n)" "list_all (digit_ok r) (map upper_unit (radix_digits r n))"
    by (rule digits_of_all(1) [OF _ assms(2) digit_ok [OF assms(2)]]; use d in blast)+
  show "radix_digits r n \<noteq> []" using d by (simp add: digits_of_def)
qed

lemma radix_first:
  assumes "2 \<le> r" "r \<le> 10"
  obtains c cs where "radix_digits r n = c # cs" "c \<noteq> 98" "c \<noteq> 120" "c \<noteq> 45" "c \<noteq> 43" "c \<noteq> 95" "c = 48 \<longrightarrow> n = 0"
proof -
  have r: "r \<le> 16" using assms by simp
  have "n \<noteq> 0 \<Longrightarrow> hd (radix_digits r n) \<noteq> 48" using radix_digits_hd [OF assms(1) r] by simp
  with that show ?thesis
    using radix_all(1,3) [OF assms(1) r, of n] assms(2) by (cases "radix_digits r n") (auto simp: digit_ok_def)
qed

lemma radix_zero: "2 \<le> r \<Longrightarrow> radix_digits r 0 = [48]"
  by (subst radix_digits.simps) (simp add: digit_char_def)

lemma body_resolves: "resolve_unsigned (int_body st k)" "\<not> is_sign (hd (int_body st k))" "int_body st k \<noteq> []"
proof -
  note all = radix_all(1) [of 2 k] radix_all(1) [of 8 k] radix_all(1) [of 10 k] radix_all(2) [of 16 k]
  have us: "list_all (\<lambda>c. c \<noteq> 95) (radix_digits 2 k)" "list_all isBinCode (radix_digits 2 k)"
    "list_all (\<lambda>c. c \<noteq> 95) (radix_digits 8 k)" "list_all isOctCode (radix_digits 8 k)"
    "list_all (\<lambda>c. c \<noteq> 95 \<and> c \<noteq> 58) (radix_digits 10 k)" "list_all isDecCode (radix_digits 10 k)"
    "list_all (\<lambda>c. c \<noteq> 95) (map upper_unit (radix_digits 16 k))" "list_all isHexCode (map upper_unit (radix_digits 16 k))"
    using all by (simp_all add: list_all_iff digit_ok_def)
  have ne: "radix_digits 2 k \<noteq> []" "radix_digits 8 k \<noteq> []" "radix_digits 10 k \<noteq> []" "radix_digits 16 k \<noteq> []"
    using radix_all(3) by simp_all
  obtain c8 cs8 where o: "radix_digits 8 k = c8 # cs8" "c8 \<noteq> 98" "c8 \<noteq> 120"
    by (rule radix_first [of 8 k]) auto
  obtain c cs where d: "radix_digits 10 k = c # cs" "c \<noteq> 45" "c \<noteq> 43" "c \<noteq> 95" "c = 48 \<longrightarrow> k = 0"
    by (rule radix_first [of 10 k]) auto
  show "resolve_unsigned (int_body st k)"
  proof (cases st)
    case Decimal
    then show ?thesis
      using d decimal_loop_all [OF us(6) us(5) ne(3), of False c]
      by (cases "k = 0") (auto simp: int_body_def resolve_unsigned_def radix_zero simp del: decimal_loop.simps)
  next
    case Octal
    then show ?thesis using o digits_loop_all [OF us(4) us(3) ne(2), of False c8]
      by (simp add: int_body_def resolve_unsigned_def del: digits_loop.simps)
  qed (simp_all add: int_body_def resolve_unsigned_def digits_loop_all [OF us(2) us(1) ne(1)]
      digits_loop_all [OF us(8) us(7)] ne)
  show "\<not> is_sign (hd (int_body st k))" using d by (cases st) (simp_all add: int_body_def is_sign_def)
  show "int_body st k \<noteq> []" using ne by (cases st) (simp_all add: int_body_def)
qed

section \<open>Construction\<close>

lemma parse_radix: "2 \<le> r \<Longrightarrow> r \<le> 16 \<Longrightarrow> radix_prefix (int r) None (radix_digits r k) = Some (int k)"
  using digits_of_radix [of r k] radix_prefix_parse by blast

lemma parse_upper: "radix_prefix 16 None (map upper_unit (radix_digits 16 k)) = Some (int k)"
  using digits_of_radix [of 16 k] radix_prefix_parse [of 16 _ k] by simp

lemma body_no_underscore: "list_all (\<lambda>c. c \<noteq> 95) (int_body st k)" "58 \<notin> set (int_body Decimal k)"
proof -
  note all = radix_all(1) [of 2 k] radix_all(1) [of 8 k] radix_all(1) [of 10 k] radix_all(2) [of 16 k]
  show "list_all (\<lambda>c. c \<noteq> 95) (int_body st k)"
    using all by (cases st) (simp_all add: int_body_def list_all_iff digit_ok_def)
  show "58 \<notin> set (int_body Decimal k)"
    using all(3) by (auto simp: int_body_def list_all_iff digit_ok_def)
qed

text \<open>What is left after the underscores and the sign have gone.\<close>

definition construct_unsigned :: "bool \<Rightarrow> jstr \<Rightarrow> dbl" where
  "construct_unsigned neg v =
     (if v = js ''0'' then Fin 0
      else if v \<noteq> [] \<and> hd v = 48 then
        (if length v > 1 \<and> v ! 1 = 98 then signed_number neg (parseInt (drop 2 v) 2)
         else if length v > 1 \<and> v ! 1 = 120 then signed_number neg (parseInt v 16)
         else signed_number neg (parseInt v 8))
      else if 58 \<in> set v then
        signed_number neg (base60 (map (\<lambda>p. parseInt p 10) (rev (split_colon v))) (Fin 0) (Fin 1))
      else signed_number neg (parseInt v 10))"

lemma construct_body:
  "constructYamlInteger ((if neg then [45] else []) @ int_body st k) = construct_unsigned neg (int_body st k)"
proof -
  have f: "filter (\<lambda>c. c \<noteq> 95) (int_body st k) = int_body st k"
    using body_no_underscore(1) [of st k] by (simp add: list_all_iff filter_id_conv)
  have h: "int_body st k \<noteq> []" "hd (int_body st k) \<noteq> 45" "hd (int_body st k) \<noteq> 43"
    using body_resolves(2,3) [of st k] by (simp_all add: is_sign_def)
  show ?thesis
    by (cases neg)
      (simp_all add: constructYamlInteger_def construct_unsigned_def Let_def strip_sign_def is_sign_def f h)
qed

lemma parse_number:
  "radix_prefix r None (if r = 16 then strip_0x s else s) = Some (int k) \<Longrightarrow> k \<le> 2 ^ 53 \<Longrightarrow> parseInt s r = Fin (of_nat k)"
  using round_double_int [of "int k"] by (simp add: parseInt_def)

lemma construct_unsigned_body:
  assumes "neg \<longrightarrow> 0 < k" and k: "k \<le> 2 ^ 53"
  shows "construct_unsigned neg (int_body st k) = signed_number neg (Fin (of_nat k))"
proof (cases st)
  case Binary
  then show ?thesis
    using parse_number [OF _ k, of 2] parse_radix [of 2 k] by (simp add: int_body_def construct_unsigned_def js_def)
next
  case Octal
  obtain c cs where o: "radix_digits 8 k = c # cs" "c \<noteq> 98" "c \<noteq> 120" by (rule radix_first [of 8 k]) auto
  have "radix_prefix 8 None (48 # radix_digits 8 k) = radix_prefix 8 (Some 0) (radix_digits 8 k)"
    by (simp add: radix_value_def)
  also have "\<dots> = radix_prefix 8 None (radix_digits 8 k)"
    using parse_radix [of 8 k] o by (simp split: option.splits)
  finally show ?thesis
    using Octal o parse_number [OF _ k, of 8] parse_radix [of 8 k] by (simp add: int_body_def construct_unsigned_def js_def)
next
  case Hexadecimal
  then show ?thesis
    using parse_number [OF _ k, of 16] parse_upper [of k] by (simp add: int_body_def construct_unsigned_def strip_0x_def js_def)
next
  case Decimal
  obtain c cs where d: "radix_digits 10 k = c # cs" "c = 48 \<longrightarrow> k = 0" by (rule radix_first [of 10 k]) auto
  show ?thesis
  proof (cases "k = 0")
    case True
    then show ?thesis
      using Decimal assms(1) by (simp add: int_body_def radix_zero construct_unsigned_def js_def signed_number_def)
  next
    case False
    then have "c \<noteq> 48" using d by simp
    with d Decimal show ?thesis
      using body_no_underscore(2) [of k] parse_number [OF _ k, of 10] parse_radix [of 10 k]
      by (simp add: int_body_def construct_unsigned_def js_def)
  qed
qed

text \<open>C21: an integer, written as binary, octal, decimal or hexadecimal text, is recognised as an integer when
  it is read, and constructs the same number.\<close>

theorem integer_round_trip:
  assumes "\<bar>n\<bar> \<le> 2 ^ 53"
  shows "resolveYamlInteger (Some (representYamlInteger st n)) \<and>
    constructYamlInteger (representYamlInteger st n) = Fin (of_int n)"
proof -
  let ?neg = "n < 0" and ?k = "nat \<bar>n\<bar>"
  note rep = represent_body [OF assms]
  have s: "strip_sign (representYamlInteger st n) = int_body st ?k" "representYamlInteger st n \<noteq> []"
    using body_resolves(2,3) [of st ?k] by (auto simp: rep strip_sign_def is_sign_def)
  then have "resolveYamlInteger (Some (representYamlInteger st n))"
    using body_resolves(1) [of st ?k] by (simp add: resolveYamlInteger_def)
  moreover have "constructYamlInteger (representYamlInteger st n) = signed_number ?neg (Fin (of_nat ?k))"
    unfolding rep construct_body by (rule construct_unsigned_body) (use assms in auto)
  ultimately show ?thesis by (simp add: signed_number_def)
qed

theorem integer_round_trip_witness:
  "resolveYamlInteger (Some (representYamlInteger Hexadecimal (- 48879))) \<and>
   constructYamlInteger (representYamlInteger Hexadecimal (- 48879)) = Fin (of_int (- 48879))"
  using integer_round_trip [of "- 48879" Hexadecimal] by simp

end
