(* ===== verification/Yaml_Schema.thy ===== *)
theory Yaml_Schema
  imports Yaml_Types
begin

text \<open>
  The collection types and the JavaScript-specific types of js-yaml, the record that a \<open>Type\<close> is,
  and the schemas (modules 11, 55, 56, 73, 99, 143, 226, 227, 505 to 507, 516 to 521 of
  \<open>swagger-ui.js\<close>).  A schema is compiled into the list of implicit types, the list of explicit
  types, and a table by kind and tag.
\<close>

section \<open>Collections\<close>

abbreviation class_is :: "yheap \<Rightarrow> yval \<Rightarrow> jsclass \<Rightarrow> bool" where
  "class_is h v c \<equiv> class_of h v = c"

fun omap_loop :: "yheap \<Rightarrow> yval list \<Rightarrow> jstr list \<Rightarrow> bool" where
  "omap_loop h [] objectKeys = True"
| "omap_loop h (pair # rest) objectKeys =
     (if class_of h pair \<noteq> C_Object then False
      else case object_keys (props_of h pair) of
             [k] \<Rightarrow> if k \<in> set objectKeys then False else omap_loop h rest (objectKeys @ [k])
           | _ \<Rightarrow> False)"

definition resolveYamlOmap :: "yheap \<Rightarrow> yval \<Rightarrow> bool" where
  "resolveYamlOmap h data = (if data = YNull then True else omap_loop h (elements_of h data) [])"

definition resolveYamlPairs :: "yheap \<Rightarrow> yval \<Rightarrow> bool" where
  "resolveYamlPairs h data =
     (if data = YNull then True
      else list_all (\<lambda>pair. class_of h pair = C_Object \<and> length (object_keys (props_of h pair)) = 1) (elements_of h data))"

definition resolveYamlSet :: "yheap \<Rightarrow> yval \<Rightarrow> bool" where
  "resolveYamlSet h data = (if data = YNull then True else list_all (\<lambda>(k, v). v = YNull) (props_of h data))"

text \<open>A new array or object on the heap.\<close>

definition alloc_cell :: "yheap \<Rightarrow> ycell \<Rightarrow> yval \<times> yheap" where
  "alloc_cell h c = (YRef (length h), h @ [c])"

text \<open>\<open>data !== null ? data : []\<close> and the like.\<close>

definition or_empty :: "ycell \<Rightarrow> yheap \<Rightarrow> yval \<Rightarrow> (yval \<times> yheap) result" where
  "or_empty c h data = (if data = YNull then Inr (alloc_cell h c) else Inr (data, h))"

text \<open>One array \<open>[key, value]\<close> per pair, then the array of them.\<close>

fun pair_cells :: "yheap \<Rightarrow> yval list \<Rightarrow> yheap \<Rightarrow> yval list \<times> yheap" where
  "pair_cells h0 [] h = ([], h)"
| "pair_cells h0 (pair # rest) h =
     (let ps = props_of h0 pair;
          k = (case object_keys ps of [] \<Rightarrow> YUndef | key # _ \<Rightarrow> YStr key);
          v = (case object_keys ps of [] \<Rightarrow> YUndef | key # _ \<Rightarrow> get_prop ps key);
          (r, h1) = alloc_cell h (YArr [k, v]);
          (rs, h2) = pair_cells h0 rest h1
      in (r # rs, h2))"

definition constructYamlPairs :: "yheap \<Rightarrow> yval \<Rightarrow> (yval \<times> yheap) result" where
  "constructYamlPairs h data =
     (if data = YNull then Inr (alloc_cell h (YArr []))
      else let (rs, h1) = pair_cells h (elements_of h data) h in Inr (alloc_cell h1 (YArr rs)))"

section \<open>JavaScript types\<close>

definition modifier_chars :: "code_unit \<Rightarrow> bool" where
  "modifier_chars c \<longleftrightarrow> unit_in ''gim'' c"

text \<open>\<open>/\/([gim]*)$/.exec(data)\<close>: what follows the last slash, if nothing but modifiers does.\<close>

definition regexp_tail :: "jstr \<Rightarrow> jstr option" where
  "regexp_tail d =
     (let m = rev (takeWhile (\<lambda>c. c \<noteq> 47) (rev d))
      in if 47 \<in> set d \<and> list_all modifier_chars m then Some m else None)"

definition resolveJavascriptRegExp :: "jstr option \<Rightarrow> bool" where
  "resolveJavascriptRegExp data =
     (case data of
        None \<Rightarrow> False
      | Some d \<Rightarrow>
          if d = [] then False
          else if hd d = 47 then
            (let modifiers = (case regexp_tail d of None \<Rightarrow> [] | Some t \<Rightarrow> t)
             in length modifiers \<le> 3 \<and> length modifiers < length d \<and> d ! (length d - length modifiers - 1) = 47)
          else True)"

text \<open>
  \<open>slice(1, n)\<close>, then \<open>new RegExp\<close>, which refuses a modifier given twice.  Whether the pattern itself is
  a regular expression is not modelled.
\<close>

definition constructJavascriptRegExp :: "jstr \<Rightarrow> yval result" where
  "constructJavascriptRegExp d =
     (if d \<noteq> [] \<and> hd d = 47 then
        (let modifiers = (case regexp_tail d of None \<Rightarrow> [] | Some t \<Rightarrow> t)
         in if distinct modifiers
            then Inr (YRegExp (drop 1 (take (length d - length modifiers - 1) d)) modifiers)
            else Inl (PlainError ''Invalid flags supplied to RegExp constructor''))
      else Inr (YRegExp d []))"

definition representJavascriptRegExp :: "jstr \<Rightarrow> jstr \<Rightarrow> jstr" where
  "representJavascriptRegExp source flags =
     [47] @ source @ [47] @ (if 103 \<in> set flags then [103] else []) @
     (if 109 \<in> set flags then [109] else []) @ (if 105 \<in> set flags then [105] else [])"

text \<open>
  What \<open>esprima.parse\<close> tells about \<open>"(" + data + ")"\<close>: the parameters, the range of the body and
  whether it is a block, for a single function or arrow expression; \<open>None\<close> otherwise or when the
  parser is missing or fails.  It is a parameter of the model.
\<close>

type_synonym esprima = "jstr \<Rightarrow> (jstr list \<times> nat \<times> nat \<times> bool) option"

definition resolveJavascriptFunction :: "esprima \<Rightarrow> jstr option \<Rightarrow> bool" where
  "resolveJavascriptFunction esp data =
     (case data of None \<Rightarrow> False | Some d \<Rightarrow> esp (js ''('' @ d @ js '')'') \<noteq> None)"

definition str_slice :: "jstr \<Rightarrow> nat \<Rightarrow> nat \<Rightarrow> jstr" where
  "str_slice s a b = drop a (take b s)"

definition constructJavascriptFunction :: "esprima \<Rightarrow> jstr \<Rightarrow> yval result" where
  "constructJavascriptFunction esp d =
     (let source = js ''('' @ d @ js '')'' in
      case esp source of
        None \<Rightarrow> Inl (PlainError ''Failed to resolve function'')
      | Some (params, a, b, block) \<Rightarrow>
          Inr (YFun params (if block then str_slice source (a + 1) (b - 1)
                            else js ''return '' @ str_slice source a b)))"

section \<open>Types\<close>

datatype represent = RFun "yval \<Rightarrow> jstr option \<Rightarrow> jstr" | RStyles "(jstr \<times> (yval \<Rightarrow> jstr)) list"

record ytype =
  ty_tag :: jstr
  ty_kind :: ykind
  ty_resolve :: "yheap \<Rightarrow> yval \<Rightarrow> bool"
  ty_construct :: "yheap \<Rightarrow> yval \<Rightarrow> (yval \<times> yheap) result"
  ty_predicate :: "(yval \<Rightarrow> bool) option"
  ty_represent :: "represent option"
  ty_default :: "jstr option"
  ty_aliases :: "(jstr \<times> jstr) list"

definition yaml_tag :: "string \<Rightarrow> jstr" where
  "yaml_tag s = js (''tag:yaml.org,2002:'' @ s)"

text \<open>A scalar node is a string, or \<open>null\<close> when it is empty.\<close>

definition scalar_data :: "yval \<Rightarrow> jstr option" where
  "scalar_data v = (case v of YStr s \<Rightarrow> Some s | _ \<Rightarrow> None)"

definition on_string :: "(jstr \<Rightarrow> yval) \<Rightarrow> yheap \<Rightarrow> yval \<Rightarrow> (yval \<times> yheap) result" where
  "on_string f h v = Inr (f (case v of YStr s \<Rightarrow> s | _ \<Rightarrow> []), h)"

definition on_string_err :: "(jstr \<Rightarrow> yval result) \<Rightarrow> yheap \<Rightarrow> yval \<Rightarrow> (yval \<times> yheap) result" where
  "on_string_err f h v = map_sum id (\<lambda>x. (x, h)) (f (case v of YStr s \<Rightarrow> s | _ \<Rightarrow> []))"

text \<open>The styles and their aliases, \<open>compileStyleAliases\<close>.\<close>

definition compileStyleAliases :: "(jstr \<times> jstr list) list \<Rightarrow> (jstr \<times> jstr) list" where
  "compileStyleAliases ps = foldl (\<lambda>r (style, as). foldl (\<lambda>r a. set_prop r a style) r as) [] ps"

definition plain_type :: "jstr \<Rightarrow> ykind \<Rightarrow> ytype" where
  "plain_type t k = \<lparr>ty_tag = t, ty_kind = k, ty_resolve = (\<lambda>h v. True), ty_construct = (\<lambda>h v. Inr (v, h)),
     ty_predicate = None, ty_represent = None, ty_default = None, ty_aliases = []\<rparr>"

definition type_str :: ytype where
  "type_str = (plain_type (yaml_tag ''str'') Scalar)
     \<lparr>ty_construct := (\<lambda>h v. Inr (if v \<noteq> YNull then v else YStr [], h))\<rparr>"

definition type_seq :: ytype where
  "type_seq = (plain_type (yaml_tag ''seq'') Sequence)\<lparr>ty_construct := or_empty (YArr [])\<rparr>"

definition type_map :: ytype where
  "type_map = (plain_type (yaml_tag ''map'') Mapping)\<lparr>ty_construct := or_empty (YObj [])\<rparr>"

definition type_null :: ytype where
  "type_null = (plain_type (yaml_tag ''null'') Scalar)
     \<lparr>ty_resolve := (\<lambda>h v. resolveYamlNull (scalar_data v)), ty_construct := (\<lambda>h v. Inr (constructYamlNull, h)),
      ty_predicate := Some isNull,
      ty_represent := Some (RStyles [(js ''canonical'', \<lambda>v. js ''~''), (js ''lowercase'', \<lambda>v. js ''null''),
        (js ''uppercase'', \<lambda>v. js ''NULL''), (js ''camelcase'', \<lambda>v. js ''Null'')]),
      ty_default := Some (js ''lowercase'')\<rparr>"

definition isBoolean :: "yval \<Rightarrow> bool" where
  "isBoolean v = (case v of YBool b \<Rightarrow> True | _ \<Rightarrow> False)"

definition bool_text :: "string \<Rightarrow> string \<Rightarrow> yval \<Rightarrow> jstr" where
  "bool_text t f v = js (if v = YBool True then t else f)"

definition type_bool :: ytype where
  "type_bool = (plain_type (yaml_tag ''bool'') Scalar)
     \<lparr>ty_resolve := (\<lambda>h v. resolveYamlBoolean (scalar_data v)), ty_construct := on_string (\<lambda>s. YBool (constructYamlBoolean s)),
      ty_predicate := Some isBoolean,
      ty_represent := Some (RStyles [(js ''lowercase'', bool_text ''true'' ''false''),
        (js ''uppercase'', bool_text ''TRUE'' ''FALSE''), (js ''camelcase'', bool_text ''True'' ''False'')]),
      ty_default := Some (js ''lowercase'')\<rparr>"

definition int_of_val :: "yval \<Rightarrow> int" where
  "int_of_val v = (case v of YNum (Fin x) \<Rightarrow> \<lfloor>x\<rfloor> | _ \<Rightarrow> 0)"

definition type_int :: ytype where
  "type_int = (plain_type (yaml_tag ''int'') Scalar)
     \<lparr>ty_resolve := (\<lambda>h v. resolveYamlInteger (scalar_data v)), ty_construct := on_string (\<lambda>s. YNum (constructYamlInteger s)),
      ty_predicate := Some isInteger,
      ty_represent := Some (RStyles [(js ''binary'', \<lambda>v. representYamlInteger Binary (int_of_val v)),
        (js ''octal'', \<lambda>v. representYamlInteger Octal (int_of_val v)),
        (js ''decimal'', \<lambda>v. representYamlInteger Decimal (int_of_val v)),
        (js ''hexadecimal'', \<lambda>v. representYamlInteger Hexadecimal (int_of_val v))]),
      ty_default := Some (js ''decimal''),
      ty_aliases := compileStyleAliases [(js ''binary'', [js ''2'', js ''bin'']), (js ''octal'', [js ''8'', js ''oct'']),
        (js ''decimal'', [js ''10'', js ''dec'']), (js ''hexadecimal'', [js ''16'', js ''hex''])]\<rparr>"

definition num_of_val :: "yval \<Rightarrow> dbl" where
  "num_of_val v = (case v of YNum x \<Rightarrow> x | _ \<Rightarrow> NotANumber)"

definition type_float :: ytype where
  "type_float = (plain_type (yaml_tag ''float'') Scalar)
     \<lparr>ty_resolve := (\<lambda>h v. resolveYamlFloat (scalar_data v)), ty_construct := on_string (\<lambda>s. YNum (constructYamlFloat s)),
      ty_predicate := Some isFloat, ty_represent := Some (RFun (\<lambda>v. representYamlFloat (num_of_val v))),
      ty_default := Some (js ''lowercase'')\<rparr>"

definition isDate :: "yval \<Rightarrow> bool" where
  "isDate v = (case v of YDate t \<Rightarrow> True | _ \<Rightarrow> False)"

definition type_timestamp :: ytype where
  "type_timestamp = (plain_type (yaml_tag ''timestamp'') Scalar)
     \<lparr>ty_resolve := (\<lambda>h v. resolveYamlTimestamp (scalar_data v)),
      ty_construct := on_string_err (\<lambda>s. map_sum id YDate (constructYamlTimestamp s)), ty_predicate := Some isDate,
      ty_represent := Some (RFun (\<lambda>v st. representYamlTimestamp (case v of YDate t \<Rightarrow> t | _ \<Rightarrow> 0)))\<rparr>"

definition type_merge :: ytype where
  "type_merge = (plain_type (yaml_tag ''merge'') Scalar)\<lparr>ty_resolve := (\<lambda>h v. resolveYamlMerge (scalar_data v))\<rparr>"

definition isBinary :: "yval \<Rightarrow> bool" where
  "isBinary v = (case v of YBytes b \<Rightarrow> True | _ \<Rightarrow> False)"

definition type_binary :: ytype where
  "type_binary = (plain_type (yaml_tag ''binary'') Scalar)
     \<lparr>ty_resolve := (\<lambda>h v. resolveYamlBinary (scalar_data v)), ty_construct := on_string (\<lambda>s. YBytes (constructYamlBinary s)),
      ty_predicate := Some isBinary,
      ty_represent := Some (RFun (\<lambda>v st. representYamlBinary (case v of YBytes b \<Rightarrow> b | _ \<Rightarrow> [])))\<rparr>"

definition type_omap :: ytype where
  "type_omap = (plain_type (yaml_tag ''omap'') Sequence)
     \<lparr>ty_resolve := resolveYamlOmap, ty_construct := or_empty (YArr [])\<rparr>"

definition type_pairs :: ytype where
  "type_pairs = (plain_type (yaml_tag ''pairs'') Sequence)
     \<lparr>ty_resolve := resolveYamlPairs, ty_construct := constructYamlPairs\<rparr>"

definition type_set :: ytype where
  "type_set = (plain_type (yaml_tag ''set'') Mapping)
     \<lparr>ty_resolve := resolveYamlSet, ty_construct := or_empty (YObj [])\<rparr>"

definition isUndefined :: "yval \<Rightarrow> bool" where
  "isUndefined v \<longleftrightarrow> v = YUndef"

definition type_undefined :: ytype where
  "type_undefined = (plain_type (yaml_tag ''js/undefined'') Scalar)
     \<lparr>ty_construct := (\<lambda>h v. Inr (YUndef, h)), ty_predicate := Some isUndefined,
      ty_represent := Some (RFun (\<lambda>v st. []))\<rparr>"

definition isRegExp :: "yval \<Rightarrow> bool" where
  "isRegExp v = (case v of YRegExp s f \<Rightarrow> True | _ \<Rightarrow> False)"

definition type_regexp :: ytype where
  "type_regexp = (plain_type (yaml_tag ''js/regexp'') Scalar)
     \<lparr>ty_resolve := (\<lambda>h v. resolveJavascriptRegExp (scalar_data v)), ty_construct := on_string_err constructJavascriptRegExp,
      ty_predicate := Some isRegExp,
      ty_represent := Some (RFun (\<lambda>v st. case v of YRegExp s f \<Rightarrow> representJavascriptRegExp s f | _ \<Rightarrow> []))\<rparr>"

definition isFunction :: "yval \<Rightarrow> bool" where
  "isFunction v = (case v of YFun ps b \<Rightarrow> True | _ \<Rightarrow> False)"

text \<open>\<open>object.toString()\<close> of a function is its source text, a parameter.\<close>

definition type_function :: "esprima \<Rightarrow> (jstr list \<Rightarrow> jstr \<Rightarrow> jstr) \<Rightarrow> ytype" where
  "type_function esp text_of = (plain_type (yaml_tag ''js/function'') Scalar)
     \<lparr>ty_resolve := (\<lambda>h v. resolveJavascriptFunction esp (scalar_data v)),
      ty_construct := on_string_err (constructJavascriptFunction esp), ty_predicate := Some isFunction,
      ty_represent := Some (RFun (\<lambda>v st. case v of YFun ps b \<Rightarrow> text_of ps b | _ \<Rightarrow> []))\<rparr>"

section \<open>Schemas\<close>

text \<open>A schema names the schemas it includes and its own types.\<close>

datatype schema = Schema "schema list" "ytype list" "ytype list"

fun schema_include :: "schema \<Rightarrow> schema list" where
  "schema_include (Schema inc imp ex) = inc"

fun schema_types :: "bool \<Rightarrow> schema \<Rightarrow> ytype list" where
  "schema_types implicit (Schema inc imp ex) = (if implicit then imp else ex)"

definition same_type :: "ytype \<Rightarrow> ytype \<Rightarrow> bool" where
  "same_type a b \<longleftrightarrow> ty_tag a = ty_tag b \<and> ty_kind a = ty_kind b"

text \<open>
  The loop over the own types: each one is appended, and the indices of the earlier ones with the
  same tag and kind are excluded at the end.
\<close>

fun push_types :: "ytype list \<Rightarrow> ytype list \<Rightarrow> nat list \<Rightarrow> ytype list \<times> nat list" where
  "push_types [] result exclude = (result, exclude)"
| "push_types (t # ts) result exclude =
     push_types ts (result @ [t]) (exclude @ filter (\<lambda>i. same_type (result ! i) t) [0..<length result])"

definition drop_indices :: "'a list \<Rightarrow> nat list \<Rightarrow> 'a list" where
  "drop_indices xs is = map fst (filter (\<lambda>(x, i). i \<notin> set is) (zip xs [0..<length xs]))"

fun compileList :: "schema \<Rightarrow> bool \<Rightarrow> ytype list \<Rightarrow> ytype list" where
  "compileList (Schema inc imp ex) implicit result =
     (let result1 = foldl (\<lambda>r s. compileList s implicit r) result inc;
          (result2, exclude) = push_types (if implicit then imp else ex) result1 []
      in drop_indices result2 exclude)"

text \<open>\<open>compileMap\<close>: a later type replaces an earlier one under the same kind and tag; \<open>None\<close> is the fallback.\<close>

definition compileMap :: "ytype list \<Rightarrow> ytype list \<Rightarrow> ykind option \<Rightarrow> jstr \<Rightarrow> ytype option" where
  "compileMap imp ex k t =
     foldl (\<lambda>r ty. if ty_tag ty = t \<and> (k = None \<or> k = Some (ty_kind ty)) then Some ty else r) None (imp @ ex)"

record compiled =
  compiledImplicit :: "ytype list"
  compiledExplicit :: "ytype list"
  compiledTypeMap :: "ykind option \<Rightarrow> jstr \<Rightarrow> ytype option"

definition compileSchema :: "schema \<Rightarrow> compiled" where
  "compileSchema s =
     (let imp = compileList s True []; ex = compileList s False []
      in \<lparr>compiledImplicit = imp, compiledExplicit = ex, compiledTypeMap = compileMap imp ex\<rparr>)"

definition FAILSAFE_SCHEMA :: schema where
  "FAILSAFE_SCHEMA = Schema [] [] [type_str, type_seq, type_map]"

definition JSON_SCHEMA :: schema where
  "JSON_SCHEMA = Schema [FAILSAFE_SCHEMA] [type_null, type_bool, type_int, type_float] []"

definition CORE_SCHEMA :: schema where
  "CORE_SCHEMA = Schema [JSON_SCHEMA] [] []"

definition DEFAULT_SAFE_SCHEMA :: schema where
  "DEFAULT_SAFE_SCHEMA = Schema [CORE_SCHEMA] [type_timestamp, type_merge] [type_binary, type_omap, type_pairs, type_set]"

definition DEFAULT_FULL_SCHEMA :: "esprima \<Rightarrow> (jstr list \<Rightarrow> jstr \<Rightarrow> jstr) \<Rightarrow> schema" where
  "DEFAULT_FULL_SCHEMA esp text_of =
     Schema [DEFAULT_SAFE_SCHEMA] [] [type_undefined, type_regexp, type_function esp text_of]"

text \<open>\<open>Schema.create\<close> with a list of schemas and a list of types.\<close>

definition createSchema :: "schema list \<Rightarrow> ytype list \<Rightarrow> schema" where
  "createSchema schemas types = Schema schemas [] types"

end
