(* ===== verification/Yaml_Common.thy ===== *)
theory Yaml_Common
  imports Yaml_Schema
begin

text \<open>
  The helpers, source positions and errors of js-yaml (modules 55, 72 and 504 of
  \<open>swagger-ui.js\<close>): \<open>common\<close>, \<open>YAMLException\<close> and \<open>Mark\<close>, and the results that the loader and the dumper
  return.
\<close>

section \<open>Helpers\<close>

definition isNothing :: "yval \<Rightarrow> bool" where
  "isNothing v \<longleftrightarrow> v = YUndef \<or> v = YNull"

text \<open>\<open>typeof subject === "object" && subject !== null\<close>\<close>

fun isObject :: "yval \<Rightarrow> bool" where
  "isObject (YRef a) = True"
| "isObject (YBytes bs) = True"
| "isObject (YDate t) = True"
| "isObject (YRegExp s f) = True"
| "isObject _ = False"

text \<open>\<open>repeat(string, count)\<close>\<close>

definition repeat_str :: "jstr \<Rightarrow> int \<Rightarrow> jstr" where
  "repeat_str s count = concat (replicate (nat count) s)"

definition isNegativeZero :: "dbl \<Rightarrow> bool" where
  "isNegativeZero x \<longleftrightarrow> x = NegZero"

text \<open>\<open>extend(target, source)\<close>: the source's keys in their order, each overwriting the target's.\<close>

definition extend :: "(jstr \<times> 'v) list \<Rightarrow> (jstr \<times> 'v) list \<Rightarrow> (jstr \<times> 'v) list" where
  "extend target source = foldl (\<lambda>t (k, v). set_prop t k v) target source"

text \<open>\<open>charCodeAt\<close> is \<open>NaN\<close> outside the string, for which \<open>-1\<close> stands: it equals no code unit, and every
  comparison the code makes with it is false.\<close>

definition code_at :: "jstr \<Rightarrow> int \<Rightarrow> int" where
  "code_at s i = (if 0 \<le> i \<and> i < int (length s) then uint (s ! nat i) else - 1)"

text \<open>\<open>s.slice(a, b)\<close> for indices that are not negative.\<close>

definition slice_str :: "jstr \<Rightarrow> int \<Rightarrow> int \<Rightarrow> jstr" where
  "slice_str s a b = take (nat b - nat a) (drop (nat a) s)"

section \<open>Marks\<close>

record mark =
  m_name :: "jstr option"
  m_buffer :: jstr
  m_position :: int
  m_line :: int
  m_column :: int

text \<open>\<open>"\0\r\n\u2028\u2029".indexOf(...)\<close>\<close>

definition snippet_stop :: "int \<Rightarrow> bool" where
  "snippet_stop c \<longleftrightarrow> c \<in> {0, 13, 10, 8232, 8233}"

text \<open>\<open>this.position - start > maxLength / 2 - 1\<close>, without the fraction.\<close>

function snippet_start :: "jstr \<Rightarrow> int \<Rightarrow> int \<Rightarrow> int \<Rightarrow> jstr \<times> int" where
  "snippet_start buf pos maxLength start =
     (if start > 0 \<and> \<not> snippet_stop (code_at buf (start - 1)) then
        (let start1 = start - 1
         in if 2 * (pos - start1) > maxLength - 2 then (js '' ... '', start1 + 5)
            else snippet_start buf pos maxLength start1)
      else ([], start))"
  by pat_completeness auto
termination by (relation "measure (\<lambda>(buf, pos, m, start). nat start)") auto

function snippet_end :: "jstr \<Rightarrow> int \<Rightarrow> int \<Rightarrow> int \<Rightarrow> jstr \<times> int" where
  "snippet_end buf pos maxLength end1 =
     (if end1 < int (length buf) \<and> \<not> snippet_stop (code_at buf end1) then
        (let end2 = end1 + 1
         in if 2 * (end2 - pos) > maxLength - 2 then (js '' ... '', end2 - 5)
            else snippet_end buf pos maxLength end2)
      else ([], end1))"
  by pat_completeness auto
termination by (relation "measure (\<lambda>(buf, pos, m, e). nat (int (length buf) - e))") auto

declare snippet_start.simps [simp del] snippet_end.simps [simp del]

definition getSnippet :: "mark \<Rightarrow> int \<Rightarrow> int \<Rightarrow> jstr option" where
  "getSnippet mk indent0 maxLength0 =
     (if m_buffer mk = [] then None
      else
        let indent = (if indent0 = 0 then 4 else indent0);
            maxLength = (if maxLength0 = 0 then 75 else maxLength0);
            (head, start) = snippet_start (m_buffer mk) (m_position mk) maxLength (m_position mk);
            (tail, end1) = snippet_end (m_buffer mk) (m_position mk) maxLength (m_position mk);
            snippet = slice_str (m_buffer mk) start end1
        in Some (repeat_str [32] indent @ head @ snippet @ tail @ [10] @
             repeat_str [32] (indent + m_position mk - start + int (length head)) @ js ''^''))"

definition mark_toString :: "mark \<Rightarrow> bool \<Rightarrow> jstr" where
  "mark_toString mk isCompact =
     (let where0 = (case m_name mk of None \<Rightarrow> [] | Some n \<Rightarrow> if n = [] then [] else js ''in \"'' @ n @ js ''\" '');
          where1 = where0 @ js ''at line '' @ int_string 10 (m_line mk + 1) @ js '', column '' @ int_string 10 (m_column mk + 1)
      in if isCompact then where1
         else case getSnippet mk 0 0 of None \<Rightarrow> where1 | Some sn \<Rightarrow> where1 @ js '':'' @ [10] @ sn)"

section \<open>Errors\<close>

text \<open>
  What the loader and the dumper throw.  \<open>NoFuel\<close> stands for the stack running out; \<open>NotModelled\<close> for
  the values that the model of the loader does not follow.
\<close>

datatype yaml_error =
    YAMLException jstr "mark option"
  | JsError js_error
  | NoFuel
  | NotModelled

type_synonym 'a yresult = "yaml_error + 'a"

definition yaml_message :: "jstr \<Rightarrow> mark option \<Rightarrow> jstr" where
  "yaml_message reason mk =
     (if reason = [] then js ''(unknown reason)'' else reason) @
     (case mk of None \<Rightarrow> [] | Some m \<Rightarrow> [32] @ mark_toString m False)"

definition yaml_toString :: "jstr \<Rightarrow> mark option \<Rightarrow> bool \<Rightarrow> jstr" where
  "yaml_toString reason mk isCompact =
     js ''YAMLException: '' @ (if reason = [] then js ''(unknown reason)'' else reason) @
     (case mk of None \<Rightarrow> [] | Some m \<Rightarrow> if isCompact then [] else [32] @ mark_toString m False)"

definition rbind :: "'a yresult \<Rightarrow> ('a \<Rightarrow> 'b yresult) \<Rightarrow> 'b yresult" where
  "rbind m f = (case m of Inl e \<Rightarrow> Inl e | Inr x \<Rightarrow> f x)"

lemma rbind_simps [simp]: "rbind (Inl e) f = Inl e" "rbind (Inr x) f = f x"
  by (simp_all add: rbind_def)

lemma rbind_Inr_iff: "rbind m f = Inr y \<longleftrightarrow> (\<exists>x. m = Inr x \<and> f x = Inr y)"
  by (cases m) simp_all

lemma rbind_cong [fundef_cong]: "m = m' \<Longrightarrow> (\<And>x. m' = Inr x \<Longrightarrow> f x = f' x) \<Longrightarrow> rbind m f = rbind m' f'"
  by (cases m') simp_all

text \<open>\<open>deprecated(name)\<close>: the functions \<open>scan\<close>, \<open>parse\<close>, \<open>compose\<close> and \<open>addConstructor\<close>.\<close>

definition deprecated :: "string \<Rightarrow> 'a yresult" where
  "deprecated name = Inl (JsError (PlainError (''Function '' @ name @ '' is deprecated and cannot be used.'')))"

end
