(* ===== verification/Yaml_Dumper.thy ===== *)
theory Yaml_Dumper
  imports Yaml_Common "HOL-Library.List_Lexorder"
begin

text \<open>
  The dumper of js-yaml (module 522 of \<open>swagger-ui.js\<close>): the choice of a style for a string, the
  writers of scalars, sequences and mappings, references to objects that occur more than once, and
  \<open>dump\<close>.  The input lives in a heap that the dumper only reads.  Dates, buffers and regular
  expressions of the input are taken to occur once each.
\<close>

section \<open>Options and state\<close>

text \<open>\<open>sortKeys\<close>: off, the order of code units, the caller's comparison as the sort it makes, or a
  truthy value that is neither \<open>true\<close> nor a function.\<close>

datatype sort_keys = SortOff | SortTrue | SortFun "jstr list \<Rightarrow> jstr list" | SortOther

text \<open>An option that is \<open>None\<close> is absent; \<open>o_schema\<close> may also be present and falsy.\<close>

record dump_options =
  o_schema :: "schema option option"
  o_indent :: "int option"
  o_skipInvalid :: bool
  o_flowLevel :: "int option"
  o_styles :: "(jstr \<times> jstr) list option"
  o_sortKeys :: sort_keys
  o_lineWidth :: "int option"
  o_noRefs :: bool
  o_noCompatMode :: bool
  o_condenseFlow :: bool

definition no_options :: dump_options where
  "no_options = \<lparr>o_schema = None, o_indent = None, o_skipInvalid = False, o_flowLevel = None, o_styles = None,
     o_sortKeys = SortOff, o_lineWidth = None, o_noRefs = False, o_noCompatMode = False, o_condenseFlow = False\<rparr>"

text \<open>\<open>options[key] || default\<close> for numbers.\<close>

definition or_number :: "int option \<Rightarrow> int \<Rightarrow> int" where
  "or_number x d = (case x of None \<Rightarrow> d | Some n \<Rightarrow> if n = 0 then d else n)"

record dstate =
  d_schema :: compiled
  d_indent :: int
  d_skipInvalid :: bool
  d_flowLevel :: int
  d_styleMap :: "(jstr \<times> jstr) list"
  d_sortKeys :: sort_keys
  d_lineWidth :: int
  d_noRefs :: bool
  d_noCompatMode :: bool
  d_condenseFlow :: bool
  d_tag :: "jstr option"
  d_dump :: yval
  d_duplicates :: "yval list"
  d_usedDuplicates :: "bool list"

text \<open>The names that every object inherits from \<open>Object.prototype\<close>.\<close>

definition inherited_names :: "jstr list" where
  "inherited_names = map js [''constructor'', ''__defineGetter__'', ''__defineSetter__'', ''hasOwnProperty'',
     ''__lookupGetter__'', ''__lookupSetter__'', ''isPrototypeOf'', ''propertyIsEnumerable'', ''toString'',
     ''valueOf'', ''__proto__'', ''toLocaleString'']"

text \<open>
  One key of the \<open>styles\<close> option.  A tag that is no type of the schema but an inherited name finds a
  function without \<open>styleAliases\<close>, and the test for an alias throws.
\<close>

definition style_entry :: "compiled \<Rightarrow> (jstr \<times> jstr) list \<Rightarrow> jstr \<Rightarrow> (jstr \<times> jstr) yresult" where
  "style_entry sch mp tag0 =
     (let style = (case map_of mp tag0 of None \<Rightarrow> [] | Some s \<Rightarrow> s);
          tag = (if take 2 tag0 = js ''!!'' then js ''tag:yaml.org,2002:'' @ drop 2 tag0 else tag0)
      in case compiledTypeMap sch None tag of
           Some ty \<Rightarrow> Inr (tag, case map_of (ty_aliases ty) style of None \<Rightarrow> style | Some st \<Rightarrow> st)
         | None \<Rightarrow>
             if tag \<in> set inherited_names
             then Inl (JsError (TypeError ''Cannot convert undefined or null to object''))
             else Inr (tag, style))"

primrec compileStyleMap_loop ::
    "compiled \<Rightarrow> (jstr \<times> jstr) list \<Rightarrow> jstr list \<Rightarrow> (jstr \<times> jstr) list \<Rightarrow> (jstr \<times> jstr) list yresult" where
  "compileStyleMap_loop sch mp [] acc = Inr acc"
| "compileStyleMap_loop sch mp (k # ks) acc =
     rbind (style_entry sch mp k) (\<lambda>(tag, style). compileStyleMap_loop sch mp ks (set_prop acc tag style))"

definition compileStyleMap :: "compiled \<Rightarrow> (jstr \<times> jstr) list option \<Rightarrow> (jstr \<times> jstr) list yresult" where
  "compileStyleMap sch mp =
     (case mp of
        None \<Rightarrow> Inr []
      | Some ps \<Rightarrow> compileStyleMap_loop sch ps (object_keys (map (\<lambda>(k, v). (k, YStr v)) ps)) [])"

text \<open>\<open>State(options)\<close>; \<open>full\<close> is \<open>DEFAULT_FULL_SCHEMA\<close>.\<close>

definition dumpState :: "schema \<Rightarrow> dump_options \<Rightarrow> dstate yresult" where
  "dumpState full opts =
     (let sch = compileSchema (case o_schema opts of Some (Some s) \<Rightarrow> s | _ \<Rightarrow> full) in
      rbind (compileStyleMap sch (o_styles opts)) (\<lambda>styleMap.
        Inr \<lparr>d_schema = sch, d_indent = max 1 (or_number (o_indent opts) 2), d_skipInvalid = o_skipInvalid opts,
          d_flowLevel = (case o_flowLevel opts of None \<Rightarrow> - 1 | Some n \<Rightarrow> n), d_styleMap = styleMap,
          d_sortKeys = o_sortKeys opts, d_lineWidth = or_number (o_lineWidth opts) 80, d_noRefs = o_noRefs opts,
          d_noCompatMode = o_noCompatMode opts, d_condenseFlow = o_condenseFlow opts,
          d_tag = None, d_dump = YStr [], d_duplicates = [], d_usedDuplicates = []\<rparr>))"

section \<open>Characters\<close>

definition ESCAPE_SEQUENCES :: "int \<Rightarrow> jstr option" where
  "ESCAPE_SEQUENCES c = map_option (\<lambda>x. [92, x]) (map_of
     [(0, 48), (7, 97), (8, 98), (9, 116), (10, 110), (11, 118), (12, 102), (13, 114), (27, 101), (34, 34),
      (92, 92), (133, 78), (160, 95), (8232, 76), (8233, 80)] c)"

definition DEPRECATED_BOOLEANS_SYNTAX :: "jstr list" where
  "DEPRECATED_BOOLEANS_SYNTAX = map js [''y'', ''Y'', ''yes'', ''Yes'', ''YES'', ''on'', ''On'', ''ON'', ''n'', ''N'',
     ''no'', ''No'', ''NO'', ''off'', ''Off'', ''OFF'']"

definition encodeHex :: "int \<Rightarrow> jstr yresult" where
  "encodeHex character =
     (let s = map upper_unit (int_string 16 character);
          build = (\<lambda>handle len. Inr ([92] @ js handle @ repeat_str [48] (len - int (length s)) @ s))
      in if character \<le> 255 then build ''x'' 2
         else if character \<le> 65535 then build ''u'' 4
         else if character \<le> 4294967295 then build ''U'' 8
         else Inl (YAMLException (js ''code point within a string may not be greater than 0xFFFFFFFF'') None))"

definition isWhitespace :: "int \<Rightarrow> bool" where
  "isWhitespace c \<longleftrightarrow> c = 32 \<or> c = 9"

definition isPrintable :: "int \<Rightarrow> bool" where
  "isPrintable c \<longleftrightarrow> (32 \<le> c \<and> c \<le> 126) \<or> (161 \<le> c \<and> c \<le> 55295 \<and> c \<noteq> 8232 \<and> c \<noteq> 8233) \<or>
     (57344 \<le> c \<and> c \<le> 65533 \<and> c \<noteq> 65279) \<or> (65536 \<le> c \<and> c \<le> 1114111)"

definition isPlainSafe :: "int \<Rightarrow> bool" where
  "isPlainSafe c \<longleftrightarrow> isPrintable c \<and> c \<noteq> 65279 \<and> c \<noteq> 44 \<and> c \<noteq> 91 \<and> c \<noteq> 93 \<and> c \<noteq> 123 \<and> c \<noteq> 125 \<and> c \<noteq> 58 \<and> c \<noteq> 35"

definition isPlainSafeFirst :: "int \<Rightarrow> bool" where
  "isPlainSafeFirst c \<longleftrightarrow> isPrintable c \<and> c \<noteq> 65279 \<and> \<not> isWhitespace c \<and> c \<noteq> 45 \<and> c \<noteq> 63 \<and> c \<noteq> 58 \<and> c \<noteq> 44 \<and>
     c \<noteq> 91 \<and> c \<noteq> 93 \<and> c \<noteq> 123 \<and> c \<noteq> 125 \<and> c \<noteq> 35 \<and> c \<noteq> 38 \<and> c \<noteq> 42 \<and> c \<noteq> 33 \<and> c \<noteq> 124 \<and> c \<noteq> 62 \<and> c \<noteq> 39 \<and>
     c \<noteq> 34 \<and> c \<noteq> 37 \<and> c \<noteq> 64 \<and> c \<noteq> 96"

text \<open>\<open>/^\n* /\<close>\<close>

definition needIndentIndicator :: "jstr \<Rightarrow> bool" where
  "needIndentIndicator s \<longleftrightarrow> (case dropWhile (\<lambda>c. c = 10) s of [] \<Rightarrow> False | c # _ \<Rightarrow> c = 32)"

definition testImplicitResolving :: "dstate \<Rightarrow> jstr \<Rightarrow> bool" where
  "testImplicitResolving st s \<longleftrightarrow> list_ex (\<lambda>ty. ty_resolve ty [] (YStr s)) (compiledImplicit (d_schema st))"

section \<open>Lines\<close>

text \<open>The lines of a string, each with its line feed.\<close>

function indent_loop :: "jstr \<Rightarrow> jstr \<Rightarrow> jstr" where
  "indent_loop ind s =
     (if s = [] then []
      else
        let line = takeWhile (\<lambda>c. c \<noteq> 10) s; rest = dropWhile (\<lambda>c. c \<noteq> 10) s
        in if rest = [] then ind @ line
           else (if line = [] then [] else ind) @ line @ [10] @ indent_loop ind (tl rest))"
  by pat_completeness auto
termination
proof (relation "measure (\<lambda>(ind, s). length s)", goal_cases)
  case (2 ind s line rest)
  then show ?case using length_dropWhile_le [of "\<lambda>c. c \<noteq> 10" s] by (cases s) auto
qed simp

declare indent_loop.simps [simp del]

definition indentString :: "jstr \<Rightarrow> int \<Rightarrow> jstr" where
  "indentString s spaces = indent_loop (repeat_str [32] spaces) s"

definition generateNextLine :: "dstate \<Rightarrow> int \<Rightarrow> jstr" where
  "generateNextLine st level = [10] @ repeat_str [32] (d_indent st * level)"

text \<open>\<open>string[i]\<close> compared with a character.\<close>

definition char_is :: "jstr \<Rightarrow> int \<Rightarrow> int \<Rightarrow> bool" where
  "char_is s i c \<longleftrightarrow> code_at s i = c"

definition blockHeader :: "jstr \<Rightarrow> int \<Rightarrow> jstr" where
  "blockHeader s indentPerLevel =
     (let n = int (length s);
          indentIndicator = (if needIndentIndicator s then int_string 10 indentPerLevel else []);
          clip = char_is s (n - 1) 10;
          keep = (clip \<and> (char_is s (n - 2) 10 \<or> s = [10]));
          chomp = (if keep then js ''+'' else if clip then [] else js ''-'')
      in indentIndicator @ chomp @ [10])"

definition dropEndingNewline :: "jstr \<Rightarrow> jstr" where
  "dropEndingNewline s = (if char_is s (int (length s) - 1) 10 then butlast s else s)"

text \<open>The matches of \<open>/ [^ ]/g\<close>: a space in front of another character.\<close>

definition break_points :: "jstr \<Rightarrow> int list" where
  "break_points line =
     filter (\<lambda>i. code_at line i = 32 \<and> code_at line (i + 1) \<noteq> 32 \<and> i + 1 < int (length line)) [0..int (length line) - 1]"

primrec foldLine_loop :: "jstr \<Rightarrow> int \<Rightarrow> int list \<Rightarrow> int \<Rightarrow> int \<Rightarrow> jstr \<Rightarrow> int \<times> int \<times> jstr" where
  "foldLine_loop line width [] start curr1 result = (start, curr1, result)"
| "foldLine_loop line width (next1 # ms) start curr1 result =
     (if next1 - start > width then
        (let end1 = (if curr1 > start then curr1 else next1)
         in foldLine_loop line width ms (end1 + 1) next1 (result @ [10] @ slice_str line start end1))
      else foldLine_loop line width ms start next1 result)"

definition foldLine :: "jstr \<Rightarrow> int \<Rightarrow> jstr" where
  "foldLine line width =
     (if line = [] \<or> code_at line 0 = 32 then line
      else
        let (start, curr1, result) = foldLine_loop line width (break_points line) 0 0 [];
            n = int (length line);
            result1 = result @ [10] @
              (if n - start > width \<and> curr1 > start
               then slice_str line start curr1 @ [10] @ slice_str line (curr1 + 1) n
               else slice_str line start n)
        in drop 1 result1)"

text \<open>The matches of \<open>/(\n+)([^\n]*)/g\<close>, one after the other.\<close>

function foldString_loop :: "jstr \<Rightarrow> int \<Rightarrow> bool \<Rightarrow> jstr" where
  "foldString_loop s width prevMoreIndented =
     (if s = [] \<or> hd s \<noteq> 10 then []
      else
        let prefix = takeWhile (\<lambda>c. c = 10) s; r = dropWhile (\<lambda>c. c = 10) s;
            line = takeWhile (\<lambda>c. c \<noteq> 10) r; moreIndented = (code_at line 0 = 32)
        in prefix @ (if \<not> prevMoreIndented \<and> \<not> moreIndented \<and> line \<noteq> [] then [10] else []) @ foldLine line width @
           foldString_loop (dropWhile (\<lambda>c. c \<noteq> 10) r) width moreIndented)"
  by pat_completeness auto
termination
proof (relation "measure (\<lambda>(s, width, p). length s)", goal_cases)
  case (2 s width p x r y z)
  then obtain c cs where "s = c # cs" "c = 10" by (cases s) auto
  then have "length r \<le> length cs" using 2 by (simp add: length_dropWhile_le)
  with \<open>s = c # cs\<close> show ?case using length_dropWhile_le [of "\<lambda>c. c \<noteq> 10" r] by simp
qed simp

declare foldString_loop.simps [simp del]

definition foldString :: "jstr \<Rightarrow> int \<Rightarrow> jstr" where
  "foldString s width =
     foldLine (takeWhile (\<lambda>c. c \<noteq> 10) s) width @
     foldString_loop (dropWhile (\<lambda>c. c \<noteq> 10) s) width (code_at s 0 = 10 \<or> code_at s 0 = 32)"

section \<open>Scalars\<close>

datatype scalar_style = STYLE_PLAIN | STYLE_SINGLE | STYLE_LITERAL | STYLE_FOLDED | STYLE_DOUBLE

text \<open>
  The two loops over the characters; \<open>None\<close> is the early return of the double-quoted style.  The
  loop over several lines keeps \<open>hasLineBreak\<close>, \<open>hasFoldableLine\<close>, \<open>previousLineBreak\<close> and \<open>plain\<close>.
\<close>

primrec single_line_loop :: "jstr \<Rightarrow> bool \<Rightarrow> bool option" where
  "single_line_loop [] plain = Some plain"
| "single_line_loop (c # cs) plain =
     (if \<not> isPrintable (uint c) then None else single_line_loop cs (plain \<and> isPlainSafe (uint c)))"

definition foldable_line :: "jstr \<Rightarrow> int \<Rightarrow> int \<Rightarrow> int \<Rightarrow> bool" where
  "foldable_line s lineWidth previousLineBreak i \<longleftrightarrow>
     i - previousLineBreak - 1 > lineWidth \<and> code_at s (previousLineBreak + 1) \<noteq> 32"

primrec multi_line_loop ::
    "jstr \<Rightarrow> int \<Rightarrow> jstr \<Rightarrow> int \<Rightarrow> bool \<Rightarrow> bool \<Rightarrow> int \<Rightarrow> bool \<Rightarrow> (bool \<times> bool \<times> int \<times> bool) option" where
  "multi_line_loop s lineWidth [] i hasLineBreak hasFoldableLine prev plain =
     Some (hasLineBreak, hasFoldableLine, prev, plain)"
| "multi_line_loop s lineWidth (c # cs) i hasLineBreak hasFoldableLine prev plain =
     (let plain1 = (plain \<and> isPlainSafe (uint c)) in
      if c = 10 then
        (if lineWidth \<noteq> - 1
         then multi_line_loop s lineWidth cs (i + 1) True (hasFoldableLine \<or> foldable_line s lineWidth prev i) i plain1
         else multi_line_loop s lineWidth cs (i + 1) True hasFoldableLine prev plain1)
      else if \<not> isPrintable (uint c) then None
      else multi_line_loop s lineWidth cs (i + 1) hasLineBreak hasFoldableLine prev plain1)"

definition chooseScalarStyle :: "jstr \<Rightarrow> bool \<Rightarrow> int \<Rightarrow> int \<Rightarrow> (jstr \<Rightarrow> bool) \<Rightarrow> scalar_style" where
  "chooseScalarStyle s singleLineOnly indentPerLevel lineWidth testAmbiguousType =
     (let n = int (length s);
          plain0 = (isPlainSafeFirst (code_at s 0) \<and> \<not> isWhitespace (code_at s (n - 1)));
          finish = (\<lambda>hasLineBreak hasFoldableLine plain.
            if \<not> hasLineBreak \<and> \<not> hasFoldableLine then
              (if plain \<and> \<not> testAmbiguousType s then STYLE_PLAIN else STYLE_SINGLE)
            else if indentPerLevel > 9 \<and> needIndentIndicator s then STYLE_DOUBLE
            else if hasFoldableLine then STYLE_FOLDED else STYLE_LITERAL)
      in if singleLineOnly then
           (case single_line_loop s plain0 of None \<Rightarrow> STYLE_DOUBLE | Some plain \<Rightarrow> finish False False plain)
         else
           (case multi_line_loop s lineWidth s 0 False False (- 1) plain0 of
              None \<Rightarrow> STYLE_DOUBLE
            | Some (hasLineBreak, hasFoldableLine, prev, plain) \<Rightarrow>
                finish hasLineBreak (hasFoldableLine \<or> (lineWidth \<noteq> - 1 \<and> foldable_line s lineWidth prev n)) plain))"

text \<open>\<open>escapeSeq || encodeHex(char)\<close> and the character itself.\<close>

definition escape_char :: "code_unit \<Rightarrow> jstr yresult" where
  "escape_char c =
     (case ESCAPE_SEQUENCES (uint c) of
        Some e \<Rightarrow> Inr e
      | None \<Rightarrow> if isPrintable (uint c) then Inr [c] else encodeHex (uint c))"

definition is_pair :: "code_unit \<Rightarrow> code_unit \<Rightarrow> bool" where
  "is_pair c d \<longleftrightarrow> 55296 \<le> uint c \<and> uint c \<le> 56319 \<and> 56320 \<le> uint d \<and> uint d \<le> 57343"

fun escapeString :: "jstr \<Rightarrow> jstr yresult" where
  "escapeString [] = Inr []"
| "escapeString [c] = escape_char c"
| "escapeString (c # d # cs) =
     (if is_pair c d then
        rbind (encodeHex ((uint c - 55296) * 1024 + uint d - 56320 + 65536)) (\<lambda>e.
        rbind (escapeString cs) (\<lambda>r. Inr (e @ r)))
      else
        rbind (escape_char c) (\<lambda>e.
        rbind (escapeString (d # cs)) (\<lambda>r. Inr (e @ r))))"

text \<open>\<open>string.replace(/'/g, "''")\<close>\<close>

definition double_quotes :: "jstr \<Rightarrow> jstr" where
  "double_quotes s = concat (map (\<lambda>c. if c = 39 then [39, 39] else [c]) s)"

definition scalar_width :: "dstate \<Rightarrow> int \<Rightarrow> int" where
  "scalar_width st indent =
     (if d_lineWidth st = - 1 then - 1 else max (min (d_lineWidth st) 40) (d_lineWidth st - indent))"

definition writeScalar :: "dstate \<Rightarrow> jstr \<Rightarrow> int \<Rightarrow> bool \<Rightarrow> jstr yresult" where
  "writeScalar st s level iskey =
     (if s = [] then Inr (js [CHR 0x27, CHR 0x27])
      else if \<not> d_noCompatMode st \<and> s \<in> set DEPRECATED_BOOLEANS_SYNTAX then Inr ([39] @ s @ [39])
      else
        let indent = d_indent st * max 1 level;
            lineWidth = scalar_width st indent;
            singleLineOnly = (iskey \<or> (d_flowLevel st > - 1 \<and> level \<ge> d_flowLevel st))
        in case chooseScalarStyle s singleLineOnly (d_indent st) lineWidth (testImplicitResolving st) of
             STYLE_PLAIN \<Rightarrow> Inr s
           | STYLE_SINGLE \<Rightarrow> Inr ([39] @ double_quotes s @ [39])
           | STYLE_LITERAL \<Rightarrow> Inr (js ''|'' @ blockHeader s (d_indent st) @ dropEndingNewline (indentString s indent))
           | STYLE_FOLDED \<Rightarrow> Inr (js ''>'' @ blockHeader s (d_indent st) @
               dropEndingNewline (indentString (foldString s lineWidth) indent))
           | STYLE_DOUBLE \<Rightarrow> rbind (escapeString s) (\<lambda>e. Inr ([34] @ e @ [34])))"

section \<open>Nodes\<close>

text \<open>The state after a node, and whether it was written.  The writers take the one of their parts.\<close>

type_synonym writer = "dstate \<Rightarrow> int \<Rightarrow> yval \<Rightarrow> bool \<Rightarrow> bool \<Rightarrow> bool \<Rightarrow> (bool \<times> dstate) yresult"

definition dump_text :: "dstate \<Rightarrow> jstr" where
  "dump_text st = (case d_dump st of YStr s \<Rightarrow> s | _ \<Rightarrow> [])"

definition set_dump :: "dstate \<Rightarrow> jstr \<Rightarrow> dstate" where
  "set_dump st s = st\<lparr>d_dump := YStr s\<rparr>"

text \<open>\<open>state.dump && CHAR_LINE_FEED === state.dump.charCodeAt(0)\<close>\<close>

definition starts_line :: "dstate \<Rightarrow> bool" where
  "starts_line st \<longleftrightarrow> code_at (dump_text st) 0 = 10"

primrec flow_sequence_loop :: "writer \<Rightarrow> int \<Rightarrow> yval list \<Rightarrow> nat \<Rightarrow> dstate \<Rightarrow> jstr \<Rightarrow> (jstr \<times> dstate) yresult" where
  "flow_sequence_loop wn level [] index st result = Inr (result, st)"
| "flow_sequence_loop wn level (v # vs) index st result =
     rbind (wn st level v False False False) (\<lambda>(ok, st1).
       flow_sequence_loop wn level vs (Suc index) st1
         (if ok then result @ (if index \<noteq> 0 then js '','' @ (if d_condenseFlow st1 then [] else [32]) else []) @ dump_text st1
          else result))"

definition writeFlowSequence :: "writer \<Rightarrow> dstate \<Rightarrow> int \<Rightarrow> yval list \<Rightarrow> dstate yresult" where
  "writeFlowSequence wn st level vs =
     rbind (flow_sequence_loop wn level vs 0 st []) (\<lambda>(result, st1).
       Inr (set_dump (st1\<lparr>d_tag := d_tag st\<rparr>) (js ''['' @ result @ js '']'')))"

primrec block_sequence_loop ::
    "writer \<Rightarrow> int \<Rightarrow> bool \<Rightarrow> yval list \<Rightarrow> nat \<Rightarrow> dstate \<Rightarrow> jstr \<Rightarrow> (jstr \<times> dstate) yresult" where
  "block_sequence_loop wn level isCompact [] index st result = Inr (result, st)"
| "block_sequence_loop wn level isCompact (v # vs) index st result =
     rbind (wn st (level + 1) v True True False) (\<lambda>(ok, st1).
       block_sequence_loop wn level isCompact vs (Suc index) st1
         (if ok then result @ (if \<not> isCompact \<or> index \<noteq> 0 then generateNextLine st1 level else []) @
            (if starts_line st1 then js ''-'' else js ''- '') @ dump_text st1
          else result))"

definition writeBlockSequence :: "writer \<Rightarrow> dstate \<Rightarrow> int \<Rightarrow> yval list \<Rightarrow> bool \<Rightarrow> dstate yresult" where
  "writeBlockSequence wn st level vs isCompact =
     rbind (block_sequence_loop wn level isCompact vs 0 st []) (\<lambda>(result, st1).
       Inr (set_dump (st1\<lparr>d_tag := d_tag st\<rparr>) (if result = [] then js ''[]'' else result)))"

primrec flow_mapping_loop ::
    "writer \<Rightarrow> int \<Rightarrow> (jstr \<times> yval) list \<Rightarrow> jstr list \<Rightarrow> nat \<Rightarrow> dstate \<Rightarrow> jstr \<Rightarrow> (jstr \<times> dstate) yresult" where
  "flow_mapping_loop wn level ps [] index st result = Inr (result, st)"
| "flow_mapping_loop wn level ps (key # keys) index st result =
     (let condense = d_condenseFlow st;
          pair0 = (if condense then [34] else []) @ (if index \<noteq> 0 then js '', '' else [])
      in rbind (wn st level (YStr key) False False False) (\<lambda>(ok, st1).
         if \<not> ok then flow_mapping_loop wn level ps keys (Suc index) st1 result
         else
           let pair1 = pair0 @ (if length (dump_text st1) > 1024 then js ''? '' else []) @ dump_text st1 @
                 (if condense then [34] else []) @ js '':'' @ (if condense then [] else [32])
           in rbind (wn st1 level (get_prop ps key) False False False) (\<lambda>(ok2, st2).
                flow_mapping_loop wn level ps keys (Suc index) st2
                  (if ok2 then result @ pair1 @ dump_text st2 else result))))"

definition writeFlowMapping :: "writer \<Rightarrow> dstate \<Rightarrow> int \<Rightarrow> (jstr \<times> yval) list \<Rightarrow> dstate yresult" where
  "writeFlowMapping wn st level ps =
     rbind (flow_mapping_loop wn level ps (object_keys ps) 0 st []) (\<lambda>(result, st1).
       Inr (set_dump (st1\<lparr>d_tag := d_tag st\<rparr>) (js ''{'' @ result @ js ''}'')))"

text \<open>\<open>state.tag !== null && state.tag !== "?"\<close>\<close>

definition explicit_tag :: "dstate \<Rightarrow> bool" where
  "explicit_tag st \<longleftrightarrow> d_tag st \<noteq> None \<and> d_tag st \<noteq> Some (js ''?'')"

primrec block_mapping_loop ::
    "writer \<Rightarrow> int \<Rightarrow> bool \<Rightarrow> (jstr \<times> yval) list \<Rightarrow> jstr list \<Rightarrow> nat \<Rightarrow> dstate \<Rightarrow> jstr \<Rightarrow> (jstr \<times> dstate) yresult" where
  "block_mapping_loop wn level isCompact ps [] index st result = Inr (result, st)"
| "block_mapping_loop wn level isCompact ps (key # keys) index st result =
     (let pair0 = (if \<not> isCompact \<or> index \<noteq> 0 then generateNextLine st level else [])
      in rbind (wn st (level + 1) (YStr key) True True True) (\<lambda>(ok, st1).
         if \<not> ok then block_mapping_loop wn level isCompact ps keys (Suc index) st1 result
         else
           let explicitPair = (explicit_tag st1 \<or> length (dump_text st1) > 1024);
               pair1 = pair0 @ (if explicitPair then (if starts_line st1 then js ''?'' else js ''? '') else []) @
                 dump_text st1 @ (if explicitPair then generateNextLine st1 level else [])
           in rbind (wn st1 (level + 1) (get_prop ps key) True explicitPair False) (\<lambda>(ok2, st2).
                block_mapping_loop wn level isCompact ps keys (Suc index) st2
                  (if ok2 then result @ pair1 @ (if starts_line st2 then js '':'' else js '': '') @ dump_text st2
                   else result))))"

definition sorted_keys :: "dstate \<Rightarrow> (jstr \<times> yval) list \<Rightarrow> jstr list yresult" where
  "sorted_keys st ps =
     (case d_sortKeys st of
        SortOff \<Rightarrow> Inr (object_keys ps)
      | SortTrue \<Rightarrow> Inr (sort (object_keys ps))
      | SortFun f \<Rightarrow> Inr (f (object_keys ps))
      | SortOther \<Rightarrow> Inl (YAMLException (js ''sortKeys must be a boolean or a function'') None))"

definition writeBlockMapping :: "writer \<Rightarrow> dstate \<Rightarrow> int \<Rightarrow> (jstr \<times> yval) list \<Rightarrow> bool \<Rightarrow> dstate yresult" where
  "writeBlockMapping wn st level ps isCompact =
     rbind (sorted_keys st ps) (\<lambda>keys.
     rbind (block_mapping_loop wn level isCompact ps keys 0 st []) (\<lambda>(result, st1).
       Inr (set_dump (st1\<lparr>d_tag := d_tag st\<rparr>) (if result = [] then js ''{}'' else result))))"

text \<open>The represented text of a value for the style in force.\<close>

definition represent_as :: "dstate \<Rightarrow> ytype \<Rightarrow> yval \<Rightarrow> jstr option yresult" where
  "represent_as st ty v =
     (let style = (case map_of (d_styleMap st) (ty_tag ty) of
                     Some s \<Rightarrow> if s = [] then ty_default ty else Some s
                   | None \<Rightarrow> ty_default ty);
          name = (case style of None \<Rightarrow> js ''null'' | Some s \<Rightarrow> s)
      in case ty_represent ty of
           None \<Rightarrow> Inr None
         | Some (RFun f) \<Rightarrow> Inr (Some (f v style))
         | Some (RStyles rs) \<Rightarrow>
             (case map_of rs name of
                Some f \<Rightarrow> Inr (Some (f v))
              | None \<Rightarrow> Inl (YAMLException (js ''!<'' @ ty_tag ty @ js ''> tag resolver accepts not \"'' @ name @ js ''\" style'') None)))"

primrec detect_loop :: "dstate \<Rightarrow> yval \<Rightarrow> bool \<Rightarrow> ytype list \<Rightarrow> (bool \<times> dstate) yresult" where
  "detect_loop st v explicit [] = Inr (False, st)"
| "detect_loop st v explicit (ty # tys) =
     (if (case ty_predicate ty of None \<Rightarrow> False | Some p \<Rightarrow> p v) then
        (let st1 = st\<lparr>d_tag := Some (if explicit then ty_tag ty else js ''?'')\<rparr>
         in rbind (represent_as st1 ty v) (\<lambda>r.
              Inr (True, case r of None \<Rightarrow> st1 | Some s \<Rightarrow> set_dump st1 s)))
      else detect_loop st v explicit tys)"

definition detectType :: "dstate \<Rightarrow> yval \<Rightarrow> bool \<Rightarrow> (bool \<times> dstate) yresult" where
  "detectType st v explicit =
     detect_loop st v explicit (if explicit then compiledExplicit (d_schema st) else compiledImplicit (d_schema st))"

text \<open>\<open>state.duplicates.indexOf(object)\<close>\<close>

primrec index_of :: "'a \<Rightarrow> 'a list \<Rightarrow> nat option" where
  "index_of x [] = None"
| "index_of x (y # ys) = (if x = y then Some 0 else map_option Suc (index_of x ys))"

definition ref_name :: "nat \<Rightarrow> jstr" where
  "ref_name i = js ''ref_'' @ radix_digits 10 i"

primrec class_name :: "jsclass \<Rightarrow> string" where
  "class_name C_Null = ''[object Null]''"
| "class_name C_Undefined = ''[object Undefined]''"
| "class_name C_Boolean = ''[object Boolean]''"
| "class_name C_Number = ''[object Number]''"
| "class_name C_String = ''[object String]''"
| "class_name C_Array = ''[object Array]''"
| "class_name C_Object = ''[object Object]''"
| "class_name C_Uint8Array = ''[object Uint8Array]''"
| "class_name C_Date = ''[object Date]''"
| "class_name C_RegExp = ''[object RegExp]''"
| "class_name C_Function = ''[object Function]''"

text \<open>\<open>"&ref_" + duplicateIndex\<close> in front of a block, and with a space in front of a flow collection.\<close>

definition with_anchor :: "nat option \<Rightarrow> jstr \<Rightarrow> dstate \<Rightarrow> dstate" where
  "with_anchor dup sep st =
     (case dup of None \<Rightarrow> st | Some i \<Rightarrow> set_dump st (js ''&'' @ ref_name i @ sep @ dump_text st))"

text \<open>The branches on the class of \<open>state.dump\<close>; \<open>None\<close> is the \<open>return false\<close> of \<open>skipInvalid\<close>.\<close>

definition write_body ::
    "writer \<Rightarrow> yheap \<Rightarrow> dstate \<Rightarrow> int \<Rightarrow> bool \<Rightarrow> bool \<Rightarrow> bool \<Rightarrow> nat option \<Rightarrow> dstate option yresult" where
  "write_body wn h st level block isCompact iskey dup =
     (case class_of h (d_dump st) of
        C_Object \<Rightarrow>
          if block \<and> object_keys (props_of h (d_dump st)) \<noteq> []
          then rbind (writeBlockMapping wn st level (props_of h (d_dump st)) isCompact) (\<lambda>st1. Inr (Some (with_anchor dup [] st1)))
          else rbind (writeFlowMapping wn st level (props_of h (d_dump st))) (\<lambda>st1. Inr (Some (with_anchor dup [32] st1)))
      | C_Array \<Rightarrow>
          if block \<and> elements_of h (d_dump st) \<noteq> []
          then rbind (writeBlockSequence wn st level (elements_of h (d_dump st)) isCompact) (\<lambda>st1. Inr (Some (with_anchor dup [] st1)))
          else rbind (writeFlowSequence wn st level (elements_of h (d_dump st))) (\<lambda>st1. Inr (Some (with_anchor dup [32] st1)))
      | C_String \<Rightarrow>
          if d_tag st \<noteq> Some (js ''?'')
          then rbind (writeScalar st (dump_text st) level iskey) (\<lambda>s. Inr (Some (set_dump st s)))
          else Inr (Some st)
      | c \<Rightarrow>
          if d_skipInvalid st then Inr None
          else Inl (YAMLException (js (''unacceptable kind of an object to dump '' @ class_name c)) None))"

text \<open>The tag in front, unless the node was skipped.\<close>

definition write_tagged :: "dstate option yresult \<Rightarrow> dstate \<Rightarrow> (bool \<times> dstate) yresult" where
  "write_tagged r st0 =
     rbind r (\<lambda>res. case res of
        None \<Rightarrow> Inr (False, st0)
      | Some st \<Rightarrow>
          Inr (True, if explicit_tag st
                     then set_dump st (js ''!<'' @ the (d_tag st) @ js ''> '' @ dump_text st) else st))"

text \<open>The body of \<open>writeNode\<close>, and the function itself with a bound on the depth of the calls.\<close>

definition write_node_step :: "writer \<Rightarrow> yheap \<Rightarrow> writer" where
  "write_node_step wn h st level object block0 compact0 iskey =
     rbind (detectType (st\<lparr>d_tag := None, d_dump := object\<rparr>) object False) (\<lambda>(found, st1).
     rbind (if found then Inr (True, st1) else detectType st1 object True) (\<lambda>(found2, st2).
       let cls = class_of h (d_dump st2);
           block = (block0 \<and> (d_flowLevel st2 < 0 \<or> d_flowLevel st2 > level));
           dup = (if cls = C_Object \<or> cls = C_Array then index_of object (d_duplicates st2) else None);
           isCompact = (compact0 \<and> \<not> (explicit_tag st2 \<or> dup \<noteq> None \<or> (d_indent st2 \<noteq> 2 \<and> level > 0)))
       in case dup of
            Some i \<Rightarrow>
              if d_usedDuplicates st2 ! i then Inr (True, set_dump st2 (js ''*'' @ ref_name i))
              else write_tagged (write_body wn h (st2\<lparr>d_usedDuplicates := (d_usedDuplicates st2)[i := True]\<rparr>)
                     level block isCompact iskey dup) st2
          | None \<Rightarrow> write_tagged (write_body wn h st2 level block isCompact iskey dup) st2))"

primrec writeNode :: "nat \<Rightarrow> yheap \<Rightarrow> writer" where
  "writeNode 0 h = (\<lambda>st level object block isCompact iskey. Inl NoFuel)"
| "writeNode (Suc n) h = write_node_step (writeNode n h) h"

section \<open>References\<close>

text \<open>
  \<open>inspectNode\<close> keeps the objects seen and the indices of those seen again.  A date, a buffer or a
  regular expression occurs once and has no objects below it.
\<close>

type_synonym seen = "yval list \<times> nat list"

definition child_values :: "yheap \<Rightarrow> yval \<Rightarrow> yval list" where
  "child_values h v =
     (if class_of h v = C_Array then elements_of h v
      else map (get_prop (props_of h v)) (object_keys (props_of h v)))"

primrec inspect_all :: "(yval \<Rightarrow> seen \<Rightarrow> seen yresult) \<Rightarrow> yval list \<Rightarrow> seen \<Rightarrow> seen yresult" where
  "inspect_all f [] s = Inr s"
| "inspect_all f (v # vs) s = rbind (f v s) (inspect_all f vs)"

definition inspect_step :: "(yval \<Rightarrow> seen \<Rightarrow> seen yresult) \<Rightarrow> yheap \<Rightarrow> yval \<Rightarrow> seen \<Rightarrow> seen yresult" where
  "inspect_step f h object seen =
     (let (objects, dups) = seen in
      case object of
        YRef a \<Rightarrow>
          (case index_of object objects of
             Some i \<Rightarrow> Inr (objects, if i \<in> set dups then dups else dups @ [i])
           | None \<Rightarrow> inspect_all f (child_values h object) (objects @ [object], dups))
      | _ \<Rightarrow> if isObject object then Inr (objects @ [object], dups) else Inr (objects, dups))"

primrec inspectNode :: "nat \<Rightarrow> yheap \<Rightarrow> yval \<Rightarrow> seen \<Rightarrow> seen yresult" where
  "inspectNode 0 h = (\<lambda>object seen. Inl NoFuel)"
| "inspectNode (Suc n) h = inspect_step (inspectNode n h) h"

definition getDuplicateReferences :: "nat \<Rightarrow> yheap \<Rightarrow> yval \<Rightarrow> dstate \<Rightarrow> dstate yresult" where
  "getDuplicateReferences n h object st =
     rbind (inspectNode n h object ([], [])) (\<lambda>(objects, dups).
       Inr (st\<lparr>d_duplicates := d_duplicates st @ map (\<lambda>i. objects ! i) dups,
               d_usedDuplicates := replicate (length dups) False\<rparr>))"

text \<open>Each call goes to an object that no call above it has, so the depth is below this bound.\<close>

definition depth_bound :: "yheap \<Rightarrow> nat" where
  "depth_bound h = length h + 2"

definition dump :: "schema \<Rightarrow> yheap \<Rightarrow> yval \<Rightarrow> dump_options \<Rightarrow> jstr yresult" where
  "dump full h input opts =
     rbind (dumpState full opts) (\<lambda>st.
     rbind (if d_noRefs st then Inr st else getDuplicateReferences (depth_bound h) h input st) (\<lambda>st1.
     rbind (writeNode (depth_bound h) h st1 0 input True True False) (\<lambda>(ok, st2).
       Inr (if ok then dump_text st2 @ [10] else []))))"

definition safeDump :: "schema \<Rightarrow> yheap \<Rightarrow> yval \<Rightarrow> dump_options \<Rightarrow> jstr yresult" where
  "safeDump full h input opts =
     dump full h input
       (if o_schema opts = None then opts\<lparr>o_schema := Some (Some DEFAULT_SAFE_SCHEMA)\<rparr> else opts)"

end
