(* ===== verification/Yaml_Scanner.thy ===== *)
theory Yaml_Scanner
  imports Yaml_Common
begin

text \<open>
  The scanner of js-yaml (module 503 of \<open>swagger-ui.js\<close>, first half): character classes, the loader's
  state, directives, separation space, and the four readers of scalars.  The input ends with the
  character 0 that \<open>loadDocuments\<close> appends.  A reader returns whether it has read a node, together with
  the new state, or throws.
\<close>

section \<open>Characters\<close>

definition is_EOL :: "int \<Rightarrow> bool" where
  "is_EOL c \<longleftrightarrow> c = 10 \<or> c = 13"

definition is_WHITE_SPACE :: "int \<Rightarrow> bool" where
  "is_WHITE_SPACE c \<longleftrightarrow> c = 9 \<or> c = 32"

definition is_WS_OR_EOL :: "int \<Rightarrow> bool" where
  "is_WS_OR_EOL c \<longleftrightarrow> c = 9 \<or> c = 32 \<or> c = 10 \<or> c = 13"

definition is_FLOW_INDICATOR :: "int \<Rightarrow> bool" where
  "is_FLOW_INDICATOR c \<longleftrightarrow> c = 44 \<or> c = 91 \<or> c = 93 \<or> c = 123 \<or> c = 125"

definition fromHexCode :: "int \<Rightarrow> int" where
  "fromHexCode c =
     (if 48 \<le> c \<and> c \<le> 57 then c - 48
      else let lc = js_or c 32 in if 97 \<le> lc \<and> lc \<le> 102 then lc - 97 + 10 else - 1)"

definition escapedHexLen :: "int \<Rightarrow> nat" where
  "escapedHexLen c = (if c = 120 then 2 else if c = 117 then 4 else if c = 85 then 8 else 0)"

definition fromDecimalCode :: "int \<Rightarrow> int" where
  "fromDecimalCode c = (if 48 \<le> c \<and> c \<le> 57 then c - 48 else - 1)"

definition simpleEscapeSequence :: "int \<Rightarrow> jstr" where
  "simpleEscapeSequence c =
     (case map_of [(48, 0), (97, 7), (98, 8), (116, 9), (9, 9), (110, 10), (118, 11), (102, 12), (114, 13), (101, 27),
        (32, 32), (34, 34), (47, 47), (92, 92), (78, 133), (95, 160), (76, 8232), (80, 8233)] c of
        None \<Rightarrow> [] | Some u \<Rightarrow> [u])"

text \<open>\<open>String.fromCharCode\<close> keeps the low 16 bits.\<close>

definition charFromCodepoint :: "int \<Rightarrow> jstr" where
  "charFromCodepoint c =
     (if c \<le> 65535 then [word_of_int c]
      else [word_of_int (js_sar (c - 65536) 10 + 55296), word_of_int (js_and (c - 65536) 1023 + 56320)])"

section \<open>Patterns\<close>

definition high_unit :: "code_unit \<Rightarrow> bool" where
  "high_unit c \<longleftrightarrow> 55296 \<le> uint c \<and> uint c \<le> 56319"

definition low_unit :: "code_unit \<Rightarrow> bool" where
  "low_unit c \<longleftrightarrow> 56320 \<le> uint c \<and> uint c \<le> 57343"

definition control_unit :: "code_unit \<Rightarrow> bool" where
  "control_unit c \<longleftrightarrow> (let u = uint c in u \<le> 8 \<or> u = 11 \<or> u = 12 \<or> (14 \<le> u \<and> u \<le> 31) \<or> (127 \<le> u \<and> u \<le> 132) \<or>
     (134 \<le> u \<and> u \<le> 159) \<or> u = 65534 \<or> u = 65535)"

text \<open>A surrogate that is not half of a pair.\<close>

fun lone_surrogate :: "jstr \<Rightarrow> bool" where
  "lone_surrogate [] = False"
| "lone_surrogate [c] = (high_unit c \<or> low_unit c)"
| "lone_surrogate (c # d # cs) =
     (if high_unit c then (if low_unit d then lone_surrogate cs else True)
      else if low_unit c then True else lone_surrogate (d # cs))"

definition PATTERN_NON_PRINTABLE :: "jstr \<Rightarrow> bool" where
  "PATTERN_NON_PRINTABLE s \<longleftrightarrow> list_ex control_unit s \<or> lone_surrogate s"

definition PATTERN_NON_ASCII_LINE_BREAKS :: "jstr \<Rightarrow> bool" where
  "PATTERN_NON_ASCII_LINE_BREAKS s \<longleftrightarrow> list_ex (\<lambda>c. uint c \<in> {133, 8232, 8233}) s"

definition PATTERN_FLOW_INDICATORS :: "jstr \<Rightarrow> bool" where
  "PATTERN_FLOW_INDICATORS s \<longleftrightarrow> list_ex (\<lambda>c. is_FLOW_INDICATOR (uint c)) s"

definition ascii_letter :: "code_unit \<Rightarrow> bool" where
  "ascii_letter c \<longleftrightarrow> (65 \<le> uint c \<and> uint c \<le> 90) \<or> (97 \<le> uint c \<and> uint c \<le> 122)"

text \<open>\<open>/^(?:!|!!|![a-z\-]+!)$/i\<close>\<close>

definition PATTERN_TAG_HANDLE :: rx where
  "PATTERN_TAG_HANDLE = rx_alts [rx_str ''!'', rx_str ''!!'',
     rx_seq [rx_any ''!'', rx_plus (RChr (\<lambda>c. ascii_letter c \<or> c = 45)), rx_any ''!'']]"

text \<open>\<open>/^(?:!|[^,\[\]\{\}])(?:%[0-9a-f]{2}|[0-9a-z\-#;\/\?:@&=\+\$,_\.!~\*'\(\)\[\]])*$/i\<close>\<close>

definition PATTERN_TAG_URI :: rx where
  "PATTERN_TAG_URI =
     RSeq (RChr (\<lambda>c. \<not> is_FLOW_INDICATOR (uint c)))
       (RStar (RAlt (rx_seq [rx_any ''%'', RChr isHexCode, RChr isHexCode])
          (RChr (\<lambda>c. unit_digit c \<or> ascii_letter c \<or> c = 39 \<or> unit_in ''-#;/?:@&=+$,_.!~*()[]'' c))))"

text \<open>\<open>/^([0-9]+)\.([0-9]+)$/\<close>, the two numbers.\<close>

definition version_numbers :: "jstr \<Rightarrow> (nat \<times> nat) option" where
  "version_numbers s =
     (let a = takeWhile unit_digit s; r = dropWhile unit_digit s
      in if a \<noteq> [] \<and> r \<noteq> [] \<and> hd r = 46 \<and> tl r \<noteq> [] \<and> list_all unit_digit (tl r)
         then Some (decimal_value a, decimal_value (tl r)) else None)"

section \<open>The state\<close>

text \<open>
  \<open>hostString\<close> is what \<open>String\<close> makes of a date, which depends on the time zone, of a regular
  expression and of a function.  Warnings are kept as a list of messages; the listener of the options is not
  modelled.
\<close>

record lstate =
  input :: jstr
  filename :: "jstr option"
  typeSchema :: compiled
  legacy :: bool
  json :: bool
  inputLength :: int
  position :: int
  line :: int
  lineStart :: int
  lineIndent :: int
  documents :: "yval list"
  version :: "jstr option"
  checkLineBreaks :: bool
  tagMap :: "(jstr \<times> jstr) list"
  anchorMap :: "(jstr \<times> yval) list"
  tag :: "jstr option"
  anchor :: "jstr option"
  kind :: "ykind option"
  ndresult :: yval
  heap :: yheap
  warnings :: "jstr list"
  hostString :: "yval \<Rightarrow> jstr"

type_synonym 'a reader = "lstate \<Rightarrow> ('a \<times> lstate) yresult"

text \<open>\<open>state.input.charCodeAt(state.position + k)\<close>\<close>

definition peek :: "lstate \<Rightarrow> int \<Rightarrow> int" where
  "peek st k = code_at (input st) (position st + k)"

definition move :: "int \<Rightarrow> lstate \<Rightarrow> lstate" where
  "move k st = st\<lparr>position := position st + k\<rparr>"

text \<open>A loop that moves on while the current character satisfies a condition.  Every condition fails at the 0 that ends the input, so
  the loop stops there at the latest, as \<open>takeWhile\<close> does.\<close>

definition scan :: "(int \<Rightarrow> bool) \<Rightarrow> lstate \<Rightarrow> lstate" where
  "scan p st = move (int (length (takeWhile (\<lambda>c. p (uint c)) (drop (nat (position st)) (input st))))) st"

definition input_slice :: "lstate \<Rightarrow> int \<Rightarrow> int \<Rightarrow> jstr" where
  "input_slice st a b = slice_str (input st) a b"

definition generateError :: "lstate \<Rightarrow> jstr \<Rightarrow> yaml_error" where
  "generateError st msg = YAMLException msg (Some \<lparr>m_name = filename st, m_buffer = input st, m_position = position st,
     m_line = line st, m_column = position st - lineStart st\<rparr>)"

definition throwError :: "lstate \<Rightarrow> string \<Rightarrow> 'a yresult" where
  "throwError st msg = Inl (generateError st (js msg))"

definition throwErrorWith :: "lstate \<Rightarrow> jstr \<Rightarrow> 'a yresult" where
  "throwErrorWith st msg = Inl (generateError st msg)"

definition throwWarning :: "lstate \<Rightarrow> jstr \<Rightarrow> lstate" where
  "throwWarning st msg = st\<lparr>warnings := warnings st @ [msg]\<rparr>"

definition result_text :: "lstate \<Rightarrow> jstr" where
  "result_text st = (case ndresult st of YStr s \<Rightarrow> s | _ \<Rightarrow> [])"

text \<open>\<open>state.result += s\<close>\<close>

definition add_result :: "lstate \<Rightarrow> jstr \<Rightarrow> lstate" where
  "add_result st s = st\<lparr>ndresult := YStr (result_text st @ s)\<rparr>"

section \<open>Directives\<close>

definition handleYamlDirective :: "lstate \<Rightarrow> jstr list \<Rightarrow> lstate yresult" where
  "handleYamlDirective st args =
     (if version st \<noteq> None then throwError st ''duplication of %YAML directive''
      else case args of
        [a] \<Rightarrow>
          (case version_numbers a of
             None \<Rightarrow> throwError st ''ill-formed argument of the YAML directive''
           | Some (major, minor) \<Rightarrow>
               if major \<noteq> 1 then throwError st ''unacceptable YAML version of the document''
               else
                 let st1 = st\<lparr>version := Some a, checkLineBreaks := (minor < 2)\<rparr>
                 in Inr (if minor \<noteq> 1 \<and> minor \<noteq> 2 then throwWarning st1 (js ''unsupported YAML version of the document'')
                         else st1))
      | _ \<Rightarrow> throwError st ''YAML directive accepts exactly one argument'')"

definition handleTagDirective :: "lstate \<Rightarrow> jstr list \<Rightarrow> lstate yresult" where
  "handleTagDirective st args =
     (case args of
        [handle, prefix] \<Rightarrow>
          if \<not> rx_match PATTERN_TAG_HANDLE handle
          then throwError st ''ill-formed tag handle (first argument) of the TAG directive''
          else if has_own (tagMap st) handle
          then throwErrorWith st (js ''there is a previously declared suffix for \"'' @ handle @ js ''\" tag handle'')
          else if \<not> rx_match PATTERN_TAG_URI prefix
          then throwError st ''ill-formed tag prefix (second argument) of the TAG directive''
          else Inr (st\<lparr>tagMap := set_prop (tagMap st) handle prefix\<rparr>)
      | _ \<Rightarrow> throwError st ''TAG directive accepts exactly two arguments'')"

section \<open>Segments and space\<close>

definition json_unit :: "code_unit \<Rightarrow> bool" where
  "json_unit c \<longleftrightarrow> uint c = 9 \<or> (32 \<le> uint c \<and> uint c \<le> 1114111)"

definition captureSegment :: "lstate \<Rightarrow> int \<Rightarrow> int \<Rightarrow> bool \<Rightarrow> lstate yresult" where
  "captureSegment st start end1 checkJson =
     (if start < end1 then
        (let r = input_slice st start end1
         in if checkJson \<and> \<not> list_all json_unit r then throwError st ''expected valid JSON character''
            else if \<not> checkJson \<and> PATTERN_NON_PRINTABLE r then throwError st ''the stream contains non-printable characters''
            else Inr (add_result st r))
      else Inr st)"

definition readLineBreak :: "lstate \<Rightarrow> lstate yresult" where
  "readLineBreak st =
     (let ch = peek st 0;
          broken = (\<lambda>st1. Inr (st1\<lparr>line := line st1 + 1, lineStart := position st1\<rparr>))
      in if ch = 10 then broken (move 1 st)
         else if ch = 13 then (if peek st 1 = 10 then broken (move 2 st) else broken (move 1 st))
         else throwError st ''a line break is expected'')"

text \<open>White space and a comment; a comment ends in front of a line break or at the end.\<close>

definition skip_blank :: "bool \<Rightarrow> lstate \<Rightarrow> lstate" where
  "skip_blank allowComments st =
     (let st1 = scan is_WHITE_SPACE st
      in if allowComments \<and> peek st1 0 = 35 then scan (\<lambda>c. c \<noteq> 10 \<and> c \<noteq> 13 \<and> c \<noteq> 0) (move 1 st1) else st1)"

text \<open>The spaces at the beginning of a line.\<close>

definition skip_indent :: "lstate \<Rightarrow> lstate" where
  "skip_indent st = (let st1 = scan (\<lambda>c. c = 32) st in st1\<lparr>lineIndent := position st1 - position st\<rparr>)"

lemma code_at_bound: "code_at s i \<noteq> - 1 \<Longrightarrow> 0 \<le> i \<and> i < int (length s)"
  by (simp add: code_at_def split: if_splits)

lemma scan_frame [simp]: "input (scan p st) = input st" "position st \<le> position (scan p st)"
  "line (scan p st) = line st" "lineStart (scan p st) = lineStart st" "lineIndent (scan p st) = lineIndent st"
  by (simp_all add: scan_def move_def)

lemma skip_blank_frame [simp]: "input (skip_blank b st) = input st" "position st \<le> position (skip_blank b st)"
  "lineStart (skip_blank b st) = lineStart st"
proof -
  have "position (scan is_WHITE_SPACE st) \<le> position (scan p (move 1 (scan is_WHITE_SPACE st)))" for p
    using scan_frame(2) [of "move 1 (scan is_WHITE_SPACE st)" p] by (simp add: move_def)
  then show "position st \<le> position (skip_blank b st)"
    using order_trans [OF scan_frame(2) [of st is_WHITE_SPACE]] by (auto simp: skip_blank_def Let_def)
qed (simp_all add: skip_blank_def Let_def move_def)

lemma skip_indent_frame [simp]: "input (skip_indent st) = input st" "position st \<le> position (skip_indent st)"
  by (simp_all add: skip_indent_def Let_def)

lemma readLineBreak_moves:
  assumes "readLineBreak st = Inr st'"
  shows "input st' = input st" "position st < position st'" "lineStart st' = position st'"
    "0 \<le> position st" "position st < int (length (input st))"
  using assms code_at_bound [of "input st" "position st"]
  by (auto simp: readLineBreak_def Let_def peek_def move_def throwError_def split: if_splits)

text \<open>The loop over lines.  The position grows with every line.\<close>

function skip_lines :: "bool \<Rightarrow> int \<Rightarrow> int reader" where
  "skip_lines allowComments lineBreaks st =
     (let st1 = skip_blank allowComments st in
      if peek st 0 = 0 then Inr (lineBreaks, st)
      else if is_EOL (peek st1 0) then
        (case readLineBreak st1 of
           Inl e \<Rightarrow> Inl e
         | Inr st2 \<Rightarrow> skip_lines allowComments (lineBreaks + 1) (skip_indent st2))
      else Inr (lineBreaks, st1))"
  by pat_completeness auto
termination
proof (relation "measure (\<lambda>(b, n, st). nat (int (length (input st)) - position st))", goal_cases)
  case (2 b n st st1 st2)
  note m = readLineBreak_moves [OF 2(4)]
  have "position st1 < position (skip_indent st2)" using m(2) skip_indent_frame(2) [of st2] by linarith
  moreover have "position st \<le> position st1" "input st1 = input st" using 2(1) by simp_all
  ultimately show ?case using m(1,5) by simp
qed simp

declare skip_lines.simps [simp del]

definition skipSeparationSpace :: "bool \<Rightarrow> int \<Rightarrow> int reader" where
  "skipSeparationSpace allowComments checkIndent st =
     rbind (skip_lines allowComments 0 st) (\<lambda>(lineBreaks, st1).
       Inr (lineBreaks,
            if checkIndent \<noteq> - 1 \<and> lineBreaks \<noteq> 0 \<and> lineIndent st1 < checkIndent
            then throwWarning st1 (js ''deficient indentation'') else st1))"

definition testDocumentSeparator :: "lstate \<Rightarrow> bool" where
  "testDocumentSeparator st \<longleftrightarrow>
     (let ch = peek st 0 in (ch = 45 \<or> ch = 46) \<and> ch = peek st 1 \<and> ch = peek st 2 \<and>
        (peek st 3 = 0 \<or> is_WS_OR_EOL (peek st 3)))"

definition writeFoldedLines :: "lstate \<Rightarrow> int \<Rightarrow> lstate" where
  "writeFoldedLines st count =
     (if count = 1 then add_result st [32]
      else if count > 1 then add_result st (repeat_str [10] (count - 1)) else st)"

end
