(* ===== verification/Yaml_Scalars.thy ===== *)
theory Yaml_Scalars
  imports Yaml_Scanner
begin

text \<open>
  The readers of plain, single-quoted, double-quoted and block scalars.  Every loop moves forward in
  the input, which is how the functions terminate; where the code would run past the end of the
  input for ever, the result is \<open>NoFuel\<close>.
\<close>

section \<open>What a step keeps\<close>

lemma skip_lines_frame:
  "skip_lines b n st = Inr (k, st') \<Longrightarrow> input st' = input st \<and> position st \<le> position st'"
proof (induction b n st rule: skip_lines.induct)
  case (1 b n st)
  show ?case
  proof (cases "is_EOL (peek (skip_blank b st) 0) \<and> peek st 0 \<noteq> 0")
    case True
    then obtain st2 where st2: "readLineBreak (skip_blank b st) = Inr st2" "skip_lines b (n + 1) (skip_indent st2) = Inr (k, st')"
      using 1(2) by (subst (asm) skip_lines.simps) (auto simp: Let_def split: sum.splits)
    have r: "input st' = input (skip_indent st2)" "position (skip_indent st2) \<le> position st'"
      using 1(1) [OF refl _ _ st2(1) st2(2)] True by simp_all
    note m = readLineBreak_moves [OF st2(1)]
    have "position st \<le> position st'"
      using r(2) m(2) skip_indent_frame(2) [of st2] skip_blank_frame(2) [where st = st and b = b] by linarith
    with r(1) m(1) show ?thesis by simp
  next
    case False
    then show ?thesis using 1(2) by (subst (asm) skip_lines.simps) (auto simp: Let_def split: if_splits)
  qed
qed

lemma throwWarning_frame [simp]: "input (throwWarning st m) = input st" "position (throwWarning st m) = position st"
  by (simp_all add: throwWarning_def)

lemma skipSeparationSpace_frame:
  "skipSeparationSpace b c st = Inr (k, st') \<Longrightarrow> input st' = input st \<and> position st \<le> position st'"
  using skip_lines_frame by (fastforce simp: skipSeparationSpace_def rbind_Inr_iff split: if_splits)

text \<open>In front of a line break it moves.\<close>

lemma skip_blank_eol: "is_EOL (peek st 0) \<Longrightarrow> skip_blank b st = st"
proof -
  assume e: "is_EOL (peek st 0)"
  then have p: "0 \<le> position st" "position st < int (length (input st))" "peek st 0 \<noteq> 9" "peek st 0 \<noteq> 32" "peek st 0 \<noteq> 35"
    using code_at_bound [of "input st" "position st"] by (auto simp: is_EOL_def peek_def)
  then have "drop (nat (position st)) (input st) = (input st ! nat (position st)) # drop (Suc (nat (position st))) (input st)"
    by (simp add: Cons_nth_drop_Suc)
  moreover have "\<not> is_WHITE_SPACE (uint (input st ! nat (position st)))"
    using p by (auto simp: is_WHITE_SPACE_def peek_def code_at_def)
  ultimately have "scan is_WHITE_SPACE st = st" by (simp add: scan_def move_def)
  with p show ?thesis by (simp add: skip_blank_def)
qed

lemma skipSeparationSpace_moves:
  assumes "skipSeparationSpace b c st = Inr (k, st')" "is_EOL (peek st 0)"
  shows "position st < position st'"
proof -
  obtain st1 where st1: "skip_lines b 0 st = Inr (k, st1)" "position st' = position st1"
    using assms(1) by (fastforce simp: skipSeparationSpace_def rbind_Inr_iff split: if_splits)
  have "peek st 0 \<noteq> 0" using assms(2) by (auto simp: is_EOL_def)
  then obtain st2 where st2: "readLineBreak st = Inr st2" "skip_lines b 1 (skip_indent st2) = Inr (k, st1)"
    using st1(1) assms(2) skip_blank_eol [OF assms(2), of b]
    by (subst (asm) skip_lines.simps) (auto simp: Let_def split: sum.splits)
  have "position (skip_indent st2) \<le> position st1" using skip_lines_frame [OF st2(2)] by simp
  with readLineBreak_moves(2) [OF st2(1)] skip_indent_frame(2) [of st2] st1(2) show ?thesis by linarith
qed

lemma add_result_frame [simp]: "input (add_result st s) = input st" "position (add_result st s) = position st"
  "line (add_result st s) = line st" "lineStart (add_result st s) = lineStart st"
  by (simp_all add: add_result_def)

lemma writeFoldedLines_frame [simp]: "input (writeFoldedLines st n) = input st" "position (writeFoldedLines st n) = position st"
  by (simp_all add: writeFoldedLines_def)

lemma move_frame [simp]: "input (move k st) = input st" "position (move k st) = position st + k"
  "lineStart (move k st) = lineStart st" "line (move k st) = line st"
  by (simp_all add: move_def)

lemma captureSegment_frame:
  "captureSegment st a b j = Inr st' \<Longrightarrow> input st' = input st \<and> position st' = position st"
  by (auto simp: captureSegment_def Let_def throwError_def split: if_splits)

lemma peek_inside: "peek st 0 \<noteq> - 1 \<Longrightarrow> 0 \<le> position st \<and> position st < int (length (input st))"
  using code_at_bound by (simp add: peek_def)

text \<open>How much input is left, the measure of the loops below.\<close>

definition left_over :: "lstate \<Rightarrow> nat" where
  "left_over st = nat (int (length (input st)) - position st)"

lemma left_over_less: "input st' = input st \<Longrightarrow> position st < position st' \<Longrightarrow> peek st 0 \<noteq> - 1 \<Longrightarrow> left_over st' < left_over st"
  using peek_inside [of st] by (simp add: left_over_def)

lemma left_over_move [simp]: "peek st 0 \<noteq> - 1 \<Longrightarrow> 0 < k \<Longrightarrow> left_over (move k st) < left_over st"
  by (rule left_over_less) simp_all

lemma left_over_eq: "input st' = input st \<Longrightarrow> position st' = position st \<Longrightarrow> left_over st' = left_over st"
  by (simp add: left_over_def)

section \<open>Plain scalars\<close>

text \<open>The characters no plain scalar starts with.\<close>

definition plain_start :: "lstate \<Rightarrow> bool \<Rightarrow> bool" where
  "plain_start st withinFlow \<longleftrightarrow>
     (let ch = peek st 0; following = peek st 1 in
      \<not> (is_WS_OR_EOL ch \<or> is_FLOW_INDICATOR ch \<or> ch \<in> {35, 38, 42, 33, 124, 62, 39, 34, 37, 64, 96}) \<and>
      \<not> ((ch = 63 \<or> ch = 45) \<and> (is_WS_OR_EOL following \<or> (withinFlow \<and> is_FLOW_INDICATOR following))))"

text \<open>The conditions that break out of the loop.\<close>

definition plain_stop :: "lstate \<Rightarrow> bool \<Rightarrow> bool" where
  "plain_stop st withinFlow \<longleftrightarrow>
     (let ch = peek st 0 in
      if ch = 58 then is_WS_OR_EOL (peek st 1) \<or> (withinFlow \<and> is_FLOW_INDICATOR (peek st 1))
      else if ch = 35 then is_WS_OR_EOL (peek st (- 1))
      else (position st = lineStart st \<and> testDocumentSeparator st) \<or> (withinFlow \<and> is_FLOW_INDICATOR ch))"

function plain_loop ::
    "int \<Rightarrow> bool \<Rightarrow> int \<Rightarrow> int \<Rightarrow> int \<Rightarrow> bool \<Rightarrow> lstate \<Rightarrow> (int \<times> int \<times> lstate) yresult" where
  "plain_loop nodeIndent withinFlow line0 captureStart captureEnd hasPending st =
     (let ch = peek st 0 in
      if ch = 0 then Inr (captureStart, captureEnd, st)
      else if ch = - 1 then Inl NoFuel
      else if plain_stop st withinFlow then Inr (captureStart, captureEnd, st)
      else if is_EOL ch then
        (case skipSeparationSpace False (- 1) st of
           Inl e \<Rightarrow> Inl e
         | Inr (n, st1) \<Rightarrow>
             if lineIndent st1 \<ge> nodeIndent
             then plain_loop nodeIndent withinFlow (line st) captureStart captureEnd True st1
             else Inr (captureStart, captureEnd,
               st1\<lparr>position := captureEnd, line := line st, lineStart := lineStart st, lineIndent := lineIndent st\<rparr>))
      else
        case (if hasPending
              then rbind (captureSegment st captureStart captureEnd False)
                (\<lambda>st1. Inr (position st, position st, writeFoldedLines st1 (line st1 - line0)))
              else Inr (captureStart, captureEnd, st)) of
          Inl e \<Rightarrow> Inl e
        | Inr (start1, end1, st2) \<Rightarrow>
            plain_loop nodeIndent withinFlow line0 start1 (if is_WHITE_SPACE ch then end1 else position st2 + 1) False (move 1 st2))"
  by pat_completeness auto
termination
proof (relation "measure (\<lambda>(n, w, l, a, b, p, st). left_over st)", goal_cases)
  case (2 n w l a b p st ch q k st1)
  then have "position st < position st1" "input st1 = input st"
    using skipSeparationSpace_moves skipSeparationSpace_frame by (simp_all, blast+)
  then show ?case using 2 by (simp add: left_over_less)
next
  case (3 n w l a b p st ch q start1 z end1 st2)
  then have "input st2 = input st \<and> position st2 = position st"
    using captureSegment_frame by (fastforce simp: rbind_Inr_iff split: if_splits)
  then have "left_over (move 1 st2) < left_over st" using 3 by (intro left_over_less) simp_all
  then show ?case by simp
qed simp

declare plain_loop.simps [simp del]

definition readPlainScalar :: "int \<Rightarrow> bool \<Rightarrow> bool reader" where
  "readPlainScalar nodeIndent withinFlow st =
     (if \<not> plain_start st withinFlow then Inr (False, st)
      else
        rbind (plain_loop nodeIndent withinFlow 0 (position st) (position st) False (st\<lparr>kind := Some Scalar, ndresult := YStr []\<rparr>))
          (\<lambda>(captureStart, captureEnd, st1).
        rbind (captureSegment st1 captureStart captureEnd False) (\<lambda>st2.
          if result_text st2 \<noteq> [] then Inr (True, st2)
          else Inr (False, st2\<lparr>kind := kind st, ndresult := ndresult st\<rparr>))))"

section \<open>Quoted scalars\<close>

function single_loop :: "int \<Rightarrow> int \<Rightarrow> int \<Rightarrow> bool reader" where
  "single_loop nodeIndent captureStart captureEnd st =
     (let ch = peek st 0 in
      if ch = 0 then throwError st ''unexpected end of the stream within a single quoted scalar''
      else if ch = - 1 then Inl NoFuel
      else if ch = 39 then
        (case captureSegment st captureStart (position st) True of
           Inl e \<Rightarrow> Inl e
         | Inr st1 \<Rightarrow>
             if peek st1 1 = 39 then single_loop nodeIndent (position st1 + 1) (position st1 + 2) (move 2 st1)
             else Inr (True, move 1 st1))
      else if is_EOL ch then
        (case captureSegment st captureStart captureEnd True of
           Inl e \<Rightarrow> Inl e
         | Inr st1 \<Rightarrow>
             (case skipSeparationSpace False nodeIndent st1 of
                Inl e \<Rightarrow> Inl e
              | Inr (n, st2) \<Rightarrow> single_loop nodeIndent (position st2) (position st2) (writeFoldedLines st2 n)))
      else if position st = lineStart st \<and> testDocumentSeparator st
      then throwError st ''unexpected end of the document within a single quoted scalar''
      else single_loop nodeIndent captureStart (position st + 1) (move 1 st))"
  by pat_completeness auto
termination
proof (relation "measure (\<lambda>(n, a, b, st). left_over st)", goal_cases)
  case (2 n a b st ch st1)
  then have "input st1 = input st" "position st1 = position st" using captureSegment_frame by blast+
  then show ?case using 2 by (intro in_measure [THEN iffD2]) (simp add: left_over_less)
next
  case (3 n a b st ch st1 q k st2)
  then have c: "input st1 = input st" "position st1 = position st" using captureSegment_frame by blast+
  then have "peek st1 0 = peek st 0" by (simp add: peek_def)
  then have "position st < position st2" "input st2 = input st"
    using 3 c skipSeparationSpace_moves [of False n st1 k st2] skipSeparationSpace_frame [of False n st1 k st2] by simp_all
  then show ?case using 3 by (simp add: left_over_less)
qed simp_all

declare single_loop.simps [simp del]

definition readSingleQuotedScalar :: "int \<Rightarrow> bool reader" where
  "readSingleQuotedScalar nodeIndent st =
     (if peek st 0 \<noteq> 39 then Inr (False, st)
      else let st1 = move 1 (st\<lparr>kind := Some Scalar, ndresult := YStr []\<rparr>)
           in single_loop nodeIndent (position st1) (position st1) st1)"

text \<open>The hexadecimal digits of an escape; the position stays on the last one.\<close>

primrec hex_digits :: "nat \<Rightarrow> int \<Rightarrow> int reader" where
  "hex_digits 0 hexResult st = Inr (hexResult, st)"
| "hex_digits (Suc n) hexResult st =
     (let st1 = move 1 st; tmp = fromHexCode (peek st1 0)
      in if tmp \<ge> 0 then hex_digits n (js_shl hexResult 4 + tmp) st1
         else throwError st1 ''expected hexadecimal character'')"

text \<open>After a backslash; the position is on the character behind it.\<close>

definition read_escape :: "int \<Rightarrow> lstate \<Rightarrow> lstate yresult" where
  "read_escape nodeIndent st =
     (let ch = peek st 0 in
      if is_EOL ch then rbind (skipSeparationSpace False nodeIndent st) (\<lambda>(n, st1). Inr st1)
      else if ch < 256 \<and> simpleEscapeSequence ch \<noteq> [] then Inr (move 1 (add_result st (simpleEscapeSequence ch)))
      else if escapedHexLen ch > 0 then
        rbind (hex_digits (escapedHexLen ch) 0 st) (\<lambda>(hexResult, st1).
          Inr (move 1 (add_result st1 (charFromCodepoint hexResult))))
      else throwError st ''unknown escape sequence'')"

lemma hex_digits_frame:
  "hex_digits n r st = Inr (x, st') \<Longrightarrow> input st' = input st \<and> position st' = position st + int n"
  by (induction n arbitrary: r st) (fastforce simp: Let_def throwError_def split: if_splits)+

lemma read_escape_frame:
  "read_escape n st = Inr st' \<Longrightarrow> input st' = input st \<and> position st \<le> position st'"
  using skipSeparationSpace_frame hex_digits_frame
  by (fastforce simp: read_escape_def Let_def throwError_def rbind_Inr_iff split: if_splits)

function double_loop :: "int \<Rightarrow> int \<Rightarrow> int \<Rightarrow> bool reader" where
  "double_loop nodeIndent captureStart captureEnd st =
     (let ch = peek st 0 in
      if ch = 0 then throwError st ''unexpected end of the stream within a double quoted scalar''
      else if ch = - 1 then Inl NoFuel
      else if ch = 34 then rbind (captureSegment st captureStart (position st) True) (\<lambda>st1. Inr (True, move 1 st1))
      else if ch = 92 then
        (case captureSegment st captureStart (position st) True of
           Inl e \<Rightarrow> Inl e
         | Inr st1 \<Rightarrow>
             (case read_escape nodeIndent (move 1 st1) of
                Inl e \<Rightarrow> Inl e
              | Inr st2 \<Rightarrow> double_loop nodeIndent (position st2) (position st2) st2))
      else if is_EOL ch then
        (case captureSegment st captureStart captureEnd True of
           Inl e \<Rightarrow> Inl e
         | Inr st1 \<Rightarrow>
             (case skipSeparationSpace False nodeIndent st1 of
                Inl e \<Rightarrow> Inl e
              | Inr (n, st2) \<Rightarrow> double_loop nodeIndent (position st2) (position st2) (writeFoldedLines st2 n)))
      else if position st = lineStart st \<and> testDocumentSeparator st
      then throwError st ''unexpected end of the document within a double quoted scalar''
      else double_loop nodeIndent captureStart (position st + 1) (move 1 st))"
  by pat_completeness auto
termination
proof (relation "measure (\<lambda>(n, a, b, st). left_over st)", goal_cases)
  case (2 n a b st ch st1 st2)
  then have c: "input st1 = input st" "position st1 = position st" using captureSegment_frame by blast+
  have "input st2 = input st1" "position st1 < position st2" using read_escape_frame [OF 2(7)] by simp_all
  then show ?case using 2 c by (simp add: left_over_less)
next
  case (3 n a b st ch st1 q k st2)
  then have c: "input st1 = input st" "position st1 = position st" using captureSegment_frame by blast+
  then have "peek st1 0 = peek st 0" by (simp add: peek_def)
  then have "position st < position st2" "input st2 = input st"
    using 3 c skipSeparationSpace_moves [of False n st1 k st2] skipSeparationSpace_frame [of False n st1 k st2] by simp_all
  then show ?case using 3 by (simp add: left_over_less)
qed simp_all

declare double_loop.simps [simp del]

definition readDoubleQuotedScalar :: "int \<Rightarrow> bool reader" where
  "readDoubleQuotedScalar nodeIndent st =
     (if peek st 0 \<noteq> 34 then Inr (False, st)
      else let st1 = move 1 (st\<lparr>kind := Some Scalar, ndresult := YStr []\<rparr>)
           in double_loop nodeIndent (position st1) (position st1) st1)"

section \<open>Block scalars\<close>

datatype chomping = CHOMPING_CLIP | CHOMPING_STRIP | CHOMPING_KEEP

text \<open>The header: chomping and indentation indicators, in any order, each at most once.\<close>

function header_loop :: "int \<Rightarrow> chomping \<Rightarrow> int \<Rightarrow> bool \<Rightarrow> lstate \<Rightarrow> (chomping \<times> int \<times> bool \<times> lstate) yresult" where
  "header_loop nodeIndent chomp textIndent detected st0 =
     (let st = move 1 st0; ch = peek st 0; tmp = fromDecimalCode ch in
      if ch = 43 \<or> ch = 45 then
        (if chomp = CHOMPING_CLIP
         then header_loop nodeIndent (if ch = 43 then CHOMPING_KEEP else CHOMPING_STRIP) textIndent detected st
         else throwError st ''repeat of a chomping mode identifier'')
      else if tmp \<ge> 0 then
        (if tmp = 0 then throwError st ''bad explicit indentation width of a block scalar; it cannot be less than one''
         else if \<not> detected then header_loop nodeIndent chomp (nodeIndent + tmp - 1) True st
         else throwError st ''repeat of an indentation width identifier'')
      else Inr (chomp, textIndent, detected, st))"
  by pat_completeness auto
termination
proof (relation "measure (\<lambda>(n, c, t, d, st). left_over st)", goal_cases)
  case (2 n c t d st0 st ch tmp)
  then have "peek st 0 \<noteq> - 1" by auto
  then show ?case using 2(1) peek_inside [of st] by (simp add: left_over_def)
next
  case (3 n c t d st0 st ch tmp)
  then have "peek st 0 \<noteq> - 1" by (auto simp: fromDecimalCode_def)
  then show ?case using 3(1) peek_inside [of st] by (simp add: left_over_def)
qed simp

declare header_loop.simps [simp del]

text \<open>White space and a comment behind the header.\<close>

definition skip_header :: "lstate \<Rightarrow> lstate" where
  "skip_header st =
     (if is_WHITE_SPACE (peek st 0) then
        (let st1 = scan is_WHITE_SPACE st
         in if peek st1 0 = 35 then scan (\<lambda>c. \<not> is_EOL c \<and> c \<noteq> 0) (move 1 st1) else st1)
      else st)"

text \<open>The indentation of a line of text: the loop stops at \<open>textIndent\<close> once that is known.\<close>

definition text_indent :: "bool \<Rightarrow> int \<Rightarrow> lstate \<Rightarrow> lstate" where
  "text_indent detected textIndent st =
     (let n = int (length (takeWhile (\<lambda>c. c = 32) (drop (nat (position st)) (input st))));
          k = (if detected then max 0 (min n textIndent) else n)
      in (move k st)\<lparr>lineIndent := k\<rparr>)"

text \<open>The line breaks in front of a line of text.\<close>

definition breaks_before :: "bool \<Rightarrow> bool \<Rightarrow> bool \<Rightarrow> int \<Rightarrow> int \<Rightarrow> jstr" where
  "breaks_before isFolded didRead atMoreIndented emptyLines ch =
     (let normal = repeat_str [10] (if didRead then 1 + emptyLines else emptyLines) in
      if isFolded then
        (if is_WHITE_SPACE ch then normal
         else if atMoreIndented then repeat_str [10] (emptyLines + 1)
         else if emptyLines = 0 then (if didRead then [32] else [])
         else repeat_str [10] emptyLines)
      else normal)"

text \<open>The line breaks at the end of the scalar.\<close>

definition breaks_after :: "chomping \<Rightarrow> bool \<Rightarrow> int \<Rightarrow> jstr" where
  "breaks_after chomp didRead emptyLines =
     (case chomp of
        CHOMPING_KEEP \<Rightarrow> repeat_str [10] (if didRead then 1 + emptyLines else emptyLines)
      | CHOMPING_CLIP \<Rightarrow> if didRead then [10] else []
      | CHOMPING_STRIP \<Rightarrow> [])"

lemma text_indent_frame [simp]: "input (text_indent d t st) = input st" "position st \<le> position (text_indent d t st)"
  by (simp_all add: text_indent_def Let_def)

lemma text_line_moves:
  assumes "readLineBreak st = Inr st0" "st1 = text_indent d t st0"
  shows "position st < position st1" "input st1 = input st" "0 \<le> position st" "position st < int (length (input st))"
proof -
  note m = readLineBreak_moves [OF assms(1)]
  show "position st < position st1"
    unfolding assms(2) using m(2) text_indent_frame(2) [where d = d and t = t and st = st0] by linarith
qed (use readLineBreak_moves [OF assms(1)] assms(2) in simp_all)

function block_loop ::
    "bool \<Rightarrow> chomping \<Rightarrow> bool \<Rightarrow> int \<Rightarrow> bool \<Rightarrow> int \<Rightarrow> bool \<Rightarrow> lstate \<Rightarrow> lstate yresult" where
  "block_loop isFolded chomp detected textIndent0 didRead emptyLines atMore st =
     (if peek st 0 = 0 then Inr st
      else case readLineBreak st of
        Inl e \<Rightarrow> Inl e
      | Inr st0 \<Rightarrow>
          let st1 = text_indent detected textIndent0 st0;
              ch = peek st1 0;
              textIndent = (if \<not> detected \<and> lineIndent st1 > textIndent0 then lineIndent st1 else textIndent0)
          in if is_EOL ch then block_loop isFolded chomp detected textIndent didRead (emptyLines + 1) atMore st1
             else if lineIndent st1 < textIndent then Inr (add_result st1 (breaks_after chomp didRead emptyLines))
             else
               let st2 = add_result st1 (breaks_before isFolded didRead atMore emptyLines ch);
                   st3 = scan (\<lambda>c. \<not> is_EOL c \<and> c \<noteq> 0) st2
               in case captureSegment st3 (position st2) (position st3) False of
                    Inl e \<Rightarrow> Inl e
                  | Inr st4 \<Rightarrow> block_loop isFolded chomp True textIndent True 0 (if isFolded then is_WHITE_SPACE ch else atMore) st4)"
  by pat_completeness auto
termination
proof (relation "measure (\<lambda>(f, c, d, t, r, e, a, st). left_over st)", goal_cases)
  case (2 f c d t r e a st st0 st1 ch t1)
  then show ?case using text_line_moves [OF 2(2,3)] by (simp add: left_over_def)
next
  case (3 f c d t r e a st st0 st1 ch t1 st2 st3 st4)
  have "input st4 = input st3" "position st4 = position st3" using captureSegment_frame [OF 3(10)] by simp_all
  moreover have "input st3 = input st1" "position st1 \<le> position st3" using 3(8,9) scan_frame [where st = st2] by simp_all
  ultimately show ?case using text_line_moves [OF 3(2,3)] by (simp add: left_over_def)
qed simp

declare block_loop.simps [simp del]

definition readBlockScalar :: "int \<Rightarrow> bool reader" where
  "readBlockScalar nodeIndent st =
     (if peek st 0 \<noteq> 124 \<and> peek st 0 \<noteq> 62 then Inr (False, st)
      else
        let isFolded = (peek st 0 = 62) in
        rbind (header_loop nodeIndent CHOMPING_CLIP nodeIndent False (st\<lparr>kind := Some Scalar, ndresult := YStr []\<rparr>))
          (\<lambda>(chomp, textIndent, detected, st1).
        rbind (block_loop isFolded chomp detected textIndent False 0 False (skip_header st1)) (\<lambda>st2. Inr (True, st2))))"

end
