(* ===== verification/Yaml_Loader.thy ===== *)
theory Yaml_Loader
  imports Yaml_Scalars
begin

text \<open>
  The loader of js-yaml (module 503 of \<open>swagger-ui.js\<close>, second half): mappings and merge keys, flow and
  block collections, tags, anchors and aliases, the composition of a node, documents, and \<open>load\<close>.
  Arrays and objects live on the heap of the state, so that an alias is the same object as its
  anchor.  \<open>composeNode\<close> and the loops that call it take a bound on the depth and on the number of
  rounds.
\<close>

section \<open>Keys\<close>

text \<open>\<open>String(value)\<close>; the list holds the arrays that are being joined, which join as nothing.\<close>

fun number_text :: "dbl \<Rightarrow> jstr" where
  "number_text (Fin x) = number_string x"
| "number_text NegZero = js ''0''"
| "number_text PosInf = js ''Infinity''"
| "number_text NegInf = js ''-Infinity''"
| "number_text NotANumber = js ''NaN''"

primrec join_strings :: "(yval \<Rightarrow> jstr yresult) \<Rightarrow> yval list \<Rightarrow> jstr list yresult" where
  "join_strings f [] = Inr []"
| "join_strings f (v # vs) =
     rbind (if v = YNull \<or> v = YUndef then Inr [] else f v) (\<lambda>s.
     rbind (join_strings f vs) (\<lambda>ss. Inr (s # ss)))"

definition comma_join :: "jstr list \<Rightarrow> jstr" where
  "comma_join ss = (case ss of [] \<Rightarrow> [] | s # rest \<Rightarrow> s @ concat (map (\<lambda>t. 44 # t) rest))"

primrec js_String :: "nat \<Rightarrow> (yval \<Rightarrow> jstr) \<Rightarrow> yheap \<Rightarrow> nat list \<Rightarrow> yval \<Rightarrow> jstr yresult" where
  "js_String 0 host h stack v = Inl NoFuel"
| "js_String (Suc n) host h stack v =
     (case v of
        YNull \<Rightarrow> Inr (js ''null'')
      | YUndef \<Rightarrow> Inr (js ''undefined'')
      | YBool b \<Rightarrow> Inr (js (if b then ''true'' else ''false''))
      | YNum x \<Rightarrow> Inr (number_text x)
      | YStr s \<Rightarrow> Inr s
      | YBytes bs \<Rightarrow> Inr (utf8Slice bs 0 (int (length bs)))
      | YRef a \<Rightarrow>
          if class_of h v = C_Array then
            (if a \<in> set stack then Inr []
             else rbind (join_strings (js_String n host h (a # stack)) (elements_of h v)) (\<lambda>ss. Inr (comma_join ss)))
          else
            (case map_of (props_of h v) (js ''toString'') of
               None \<Rightarrow> Inr (js ''[object Object]'')
             | Some (YFun ps b) \<Rightarrow> Inl NotModelled
             | Some _ \<Rightarrow> Inl (JsError (TypeError ''Cannot convert object to primitive value'')))
      | _ \<Rightarrow> Inr (host v))"

definition key_string :: "lstate \<Rightarrow> yval \<Rightarrow> jstr yresult" where
  "key_string st v = js_String (length (heap st) + 2) (hostString st) (heap st) [] v"

text \<open>\<open>Object.keys(source)\<close> and \<open>source[key]\<close> for any object.\<close>

definition own_entries :: "yheap \<Rightarrow> yval \<Rightarrow> (jstr \<times> yval) list" where
  "own_entries h v =
     (let indexed = (\<lambda>vs. zip (map (radix_digits 10) [0..<length vs]) vs)
      in case v of
           YRef a \<Rightarrow>
             if class_of h v = C_Array then indexed (elements_of h v)
             else map (\<lambda>k. (k, get_prop (props_of h v) k)) (object_keys (props_of h v))
         | YBytes bs \<Rightarrow> indexed (map (\<lambda>b. YNum (Fin (of_int (uint b)))) bs)
         | _ \<Rightarrow> [])"

section \<open>Mappings\<close>

definition object_at :: "yheap \<Rightarrow> nat \<Rightarrow> (jstr \<times> yval) list" where
  "object_at h a = props_of h (YRef a)"

definition put_object :: "lstate \<Rightarrow> nat \<Rightarrow> (jstr \<times> yval) list \<Rightarrow> lstate" where
  "put_object st a ps = st\<lparr>heap := (heap st)[a := YObj ps]\<rparr>"

definition push_array :: "lstate \<Rightarrow> nat \<Rightarrow> yval \<Rightarrow> lstate" where
  "push_array st a v = st\<lparr>heap := (heap st)[a := YArr (elements_of (heap st) (YRef a) @ [v])]\<rparr>"

definition new_cell :: "lstate \<Rightarrow> ycell \<Rightarrow> nat \<times> lstate" where
  "new_cell st c = (length (heap st), st\<lparr>heap := heap st @ [c]\<rparr>)"

text \<open>The keys that a merge has put and an explicit key may override; \<open>__proto__\<close> never becomes one.\<close>

definition add_key :: "jstr list \<Rightarrow> jstr \<Rightarrow> jstr list" where
  "add_key ks k = (if k = js ''__proto__'' \<or> k \<in> set ks then ks else ks @ [k])"

primrec merge_loop ::
    "(jstr \<times> yval) list \<Rightarrow> (jstr \<times> yval) list \<Rightarrow> jstr list \<Rightarrow> (jstr \<times> yval) list \<times> jstr list" where
  "merge_loop [] dest overridable = (dest, overridable)"
| "merge_loop (kv # rest) dest overridable =
     (if has_own dest (fst kv) then merge_loop rest dest overridable
      else merge_loop rest (set_prop dest (fst kv) (snd kv)) (add_key overridable (fst kv)))"

definition mergeMappings :: "nat \<Rightarrow> yval \<Rightarrow> jstr list \<Rightarrow> jstr list reader" where
  "mergeMappings a source overridable st =
     (if \<not> isObject source then throwError st ''cannot merge mappings; the provided source object is unacceptable''
      else let (dest, ks) = merge_loop (own_entries (heap st) source) (object_at (heap st) a) overridable
           in Inr (ks, put_object st a dest))"

primrec merge_all :: "nat \<Rightarrow> yval list \<Rightarrow> jstr list \<Rightarrow> jstr list reader" where
  "merge_all a [] overridable st = Inr (overridable, st)"
| "merge_all a (v # vs) overridable st =
     rbind (mergeMappings a v overridable st) (\<lambda>(ks, st1). merge_all a vs ks st1)"

text \<open>\<open>x || y\<close> for numbers.\<close>

definition or_int :: "int \<Rightarrow> int \<Rightarrow> int" where
  "or_int x y = (if x = 0 then y else x)"

text \<open>\<open>None\<close> for \<open>_result\<close> is \<open>null\<close>; a missing \<open>startLine\<close> or \<open>startPos\<close> is 0, which \<open>||\<close> treats alike.\<close>

definition storeMappingPair ::
    "nat option \<Rightarrow> jstr list \<Rightarrow> jstr option \<Rightarrow> yval \<Rightarrow> yval \<Rightarrow> int \<Rightarrow> int \<Rightarrow> (nat \<times> jstr list) reader" where
  "storeMappingPair result0 overridable keyTag keyNode valueNode startLine startPos st0 =
     rbind (key_string st0 keyNode) (\<lambda>key.
       let (a, st) = (case result0 of None \<Rightarrow> new_cell st0 (YObj []) | Some a \<Rightarrow> (a, st0)) in
       if keyTag = Some (yaml_tag ''merge'') then
         rbind (if class_of (heap st) valueNode = C_Array
                then merge_all a (elements_of (heap st) valueNode) overridable st
                else mergeMappings a valueNode overridable st) (\<lambda>(ks, st1). Inr ((a, ks), st1))
       else if \<not> json st \<and> key \<notin> set overridable \<and> has_own (object_at (heap st) a) key then
         throwError (st\<lparr>line := or_int startLine (line st), position := or_int startPos (position st)\<rparr>) ''duplicated mapping key''
       else
         Inr ((a, filter (\<lambda>k. k \<noteq> key) overridable), put_object st a (set_prop (object_at (heap st) a) key valueNode)))"

section \<open>Properties and aliases\<close>

function tag_loop :: "bool \<Rightarrow> jstr \<Rightarrow> int \<Rightarrow> lstate \<Rightarrow> (bool \<times> jstr \<times> int \<times> lstate) yresult" where
  "tag_loop isNamed tagHandle start st =
     (let ch = peek st 0 in
      if ch = 0 \<or> is_WS_OR_EOL ch then Inr (isNamed, tagHandle, start, st)
      else if ch = - 1 then Inl NoFuel
      else if ch = 33 then
        (if isNamed then throwError st ''tag suffix cannot contain exclamation marks''
         else
           let handle = input_slice st (start - 1) (position st + 1)
           in if \<not> rx_match PATTERN_TAG_HANDLE handle
              then throwError st ''named tag handle cannot contain such characters''
              else tag_loop True handle (position st + 1) (move 1 st))
      else tag_loop isNamed tagHandle start (move 1 st))"
  by pat_completeness auto
termination by (relation "measure (\<lambda>(n, t, s, st). left_over st)") simp_all

declare tag_loop.simps [simp del]

text \<open>The name behind the handle: up to \<open>>\<close> for a verbatim tag, up to white space otherwise.\<close>

definition read_tag_name :: "bool \<Rightarrow> bool \<Rightarrow> jstr \<Rightarrow> lstate \<Rightarrow> (jstr \<times> jstr \<times> lstate) yresult" where
  "read_tag_name isVerbatim isNamed tagHandle st =
     (let start = position st in
      if isVerbatim then
        (let st1 = scan (\<lambda>c. c \<noteq> 0 \<and> c \<noteq> 62) (move 1 st)
         in if position st1 < inputLength st1 then Inr (tagHandle, input_slice st1 start (position st1), move 1 st1)
            else throwError st1 ''unexpected end of the stream within a verbatim tag'')
      else
        rbind (tag_loop isNamed tagHandle start st) (\<lambda>(isNamed1, handle, start1, st1).
          let name = input_slice st1 start1 (position st1)
          in if PATTERN_FLOW_INDICATORS name then throwError st1 ''tag suffix cannot contain flow indicator characters''
             else Inr (handle, name, st1)))"

definition readTagProperty :: "bool reader" where
  "readTagProperty st =
     (if peek st 0 \<noteq> 33 then Inr (False, st)
      else if tag st \<noteq> None then throwError st ''duplication of a tag property''
      else
        let ch = peek st 1; isVerbatim = (ch = 60); isNamed = (ch = 33);
            handle0 = (if isNamed then js ''!!'' else js ''!'');
            st1 = move (if isVerbatim \<or> isNamed then 2 else 1) st
        in rbind (read_tag_name isVerbatim isNamed handle0 st1) (\<lambda>(handle, name, st2).
             if name \<noteq> [] \<and> \<not> rx_match PATTERN_TAG_URI name
             then throwErrorWith st2 (js ''tag name cannot contain such characters: '' @ name)
             else if isVerbatim then Inr (True, st2\<lparr>tag := Some name\<rparr>)
             else case map_of (tagMap st2) handle of
               Some prefix \<Rightarrow> Inr (True, st2\<lparr>tag := Some (prefix @ name)\<rparr>)
             | None \<Rightarrow>
                 if handle = js ''!'' then Inr (True, st2\<lparr>tag := Some (js ''!'' @ name)\<rparr>)
                 else if handle = js ''!!'' then Inr (True, st2\<lparr>tag := Some (js ''tag:yaml.org,2002:'' @ name)\<rparr>)
                 else throwErrorWith st2 (js ''undeclared tag handle \"'' @ handle @ js ''\"'')))"

definition name_char :: "int \<Rightarrow> bool" where
  "name_char c \<longleftrightarrow> c \<noteq> 0 \<and> \<not> is_WS_OR_EOL c \<and> \<not> is_FLOW_INDICATOR c"

definition readAnchorProperty :: "bool reader" where
  "readAnchorProperty st =
     (if peek st 0 \<noteq> 38 then Inr (False, st)
      else if anchor st \<noteq> None then throwError st ''duplication of an anchor property''
      else
        let st1 = move 1 st; st2 = scan name_char st1
        in if position st2 = position st1
           then throwError st2 ''name of an anchor node must contain at least one character''
           else Inr (True, st2\<lparr>anchor := Some (input_slice st2 (position st1) (position st2))\<rparr>))"

text \<open>
  \<open>state.anchorMap.hasOwnProperty(alias)\<close>: an anchor of that name shadows the method, and its value is
  called instead.
\<close>

definition readAlias :: "bool reader" where
  "readAlias st =
     (if peek st 0 \<noteq> 42 then Inr (False, st)
      else
        let st1 = move 1 st; st2 = scan name_char st1; alias = input_slice st2 (position st1) (position st2)
        in if position st2 = position st1
           then throwError st2 ''name of an alias node must contain at least one character''
           else case map_of (anchorMap st2) (js ''hasOwnProperty'') of
             Some (YFun ps b) \<Rightarrow> Inl NotModelled
           | Some _ \<Rightarrow> Inl (JsError (TypeError ''state.anchorMap.hasOwnProperty is not a function''))
           | None \<Rightarrow>
               (case map_of (anchorMap st2) alias of
                  None \<Rightarrow> throwErrorWith st2 (js ''unidentified alias \"'' @ alias @ js ''\"'')
                | Some v \<Rightarrow> rbind (skipSeparationSpace True (- 1) (st2\<lparr>ndresult := v\<rparr>)) (\<lambda>(n, st3). Inr (True, st3))))"

text \<open>\<open>if (state.anchor !== null) state.anchorMap[state.anchor] = value\<close>\<close>

definition set_anchor :: "lstate \<Rightarrow> yval \<Rightarrow> lstate" where
  "set_anchor st v = (case anchor st of None \<Rightarrow> st | Some a \<Rightarrow> st\<lparr>anchorMap := set_prop (anchorMap st) a v\<rparr>)"

section \<open>Collections\<close>

datatype node_context = CONTEXT_FLOW_IN | CONTEXT_FLOW_OUT | CONTEXT_BLOCK_IN | CONTEXT_BLOCK_OUT

text \<open>The composer of the parts: parent indentation, context, \<open>allowToSeek\<close>, \<open>allowCompact\<close>.\<close>

type_synonym composer = "int \<Rightarrow> node_context \<Rightarrow> bool \<Rightarrow> bool \<Rightarrow> bool reader"

definition skip_space :: "int \<Rightarrow> lstate \<Rightarrow> lstate yresult" where
  "skip_space checkIndent st = rbind (skipSeparationSpace True checkIndent st) (\<lambda>(n, st1). Inr st1)"

text \<open>One entry of a flow collection: tag and value of the key, the value behind a colon if there is one.\<close>

definition flow_entry :: "composer \<Rightarrow> int \<Rightarrow> lstate \<Rightarrow> (bool \<times> jstr option \<times> yval \<times> yval \<times> lstate) yresult" where
  "flow_entry cn nodeIndent st =
     (let explicit = (peek st 0 = 63 \<and> is_WS_OR_EOL (peek st 1)) in
      rbind (if explicit then skip_space nodeIndent (move 1 st) else Inr st) (\<lambda>st1.
      rbind (cn nodeIndent CONTEXT_FLOW_IN False True st1) (\<lambda>(ok, st2).
      rbind (skip_space nodeIndent st2) (\<lambda>st3.
        if (explicit \<or> line st3 = line st1) \<and> peek st3 0 = 58 then
          rbind (skip_space nodeIndent (move 1 st3)) (\<lambda>st4.
          rbind (cn nodeIndent CONTEXT_FLOW_IN False True st4) (\<lambda>(ok2, st5).
            Inr (True, tag st2, ndresult st2, ndresult st5, st5)))
        else Inr (explicit, tag st2, ndresult st2, YNull, st3)))))"

definition flow_store :: "bool \<Rightarrow> nat \<Rightarrow> jstr list \<Rightarrow> bool \<Rightarrow> jstr option \<Rightarrow> yval \<Rightarrow> yval \<Rightarrow> jstr list reader" where
  "flow_store isMapping a overridable isPair keyTag keyNode valueNode st =
     (if isMapping then
        rbind (storeMappingPair (Some a) overridable keyTag keyNode valueNode 0 0 st) (\<lambda>((b, ks), st1). Inr (ks, st1))
      else if isPair then
        rbind (storeMappingPair None overridable keyTag keyNode valueNode 0 0 st)
          (\<lambda>((b, ks), st1). Inr (ks, push_array st1 a (YRef b)))
      else Inr (overridable, push_array st a keyNode))"

primrec flow_loop ::
    "nat \<Rightarrow> composer \<Rightarrow> int \<Rightarrow> bool \<Rightarrow> nat \<Rightarrow> jstr option \<Rightarrow> jstr option \<Rightarrow> bool \<Rightarrow> jstr list \<Rightarrow> bool reader" where
  "flow_loop 0 cn nodeIndent isMapping a tag0 anchor0 readNext overridable st = Inl NoFuel"
| "flow_loop (Suc k) cn nodeIndent isMapping a tag0 anchor0 readNext overridable st =
     (if peek st 0 = 0 then throwError st ''unexpected end of the stream within a flow collection''
      else
        rbind (skip_space nodeIndent st) (\<lambda>st1.
          if peek st1 0 = (if isMapping then 125 else 93) then
            Inr (True, (move 1 st1)\<lparr>tag := tag0, anchor := anchor0,
              kind := Some (if isMapping then Mapping else Sequence), ndresult := YRef a\<rparr>)
          else if \<not> readNext then throwError st1 ''missed comma between flow collection entries''
          else
            rbind (flow_entry cn nodeIndent st1) (\<lambda>(isPair, keyTag, keyNode, valueNode, st2).
            rbind (flow_store isMapping a overridable isPair keyTag keyNode valueNode st2) (\<lambda>(ks, st3).
            rbind (skip_space nodeIndent st3) (\<lambda>st4.
              if peek st4 0 = 44 then flow_loop k cn nodeIndent isMapping a tag0 anchor0 True ks (move 1 st4)
              else flow_loop k cn nodeIndent isMapping a tag0 anchor0 False ks st4)))))"

definition readFlowCollection :: "nat \<Rightarrow> composer \<Rightarrow> int \<Rightarrow> bool reader" where
  "readFlowCollection n cn nodeIndent st =
     (if peek st 0 \<noteq> 91 \<and> peek st 0 \<noteq> 123 then Inr (False, st)
      else
        let isMapping = (peek st 0 = 123);
            (a, st1) = new_cell st (if isMapping then YObj [] else YArr [])
        in flow_loop n cn nodeIndent isMapping a (tag st) (anchor st) True [] (move 1 (set_anchor st1 (YRef a))))"

primrec sequence_loop :: "nat \<Rightarrow> composer \<Rightarrow> int \<Rightarrow> nat \<Rightarrow> bool \<Rightarrow> bool reader" where
  "sequence_loop 0 cn nodeIndent a detected st = Inl NoFuel"
| "sequence_loop (Suc k) cn nodeIndent a detected st =
     (if peek st 0 \<noteq> 45 \<or> \<not> is_WS_OR_EOL (peek st 1) then Inr (detected, st)
      else
        rbind (skipSeparationSpace True (- 1) (move 1 st)) (\<lambda>(n, st1).
          if n \<noteq> 0 \<and> lineIndent st1 \<le> nodeIndent then sequence_loop k cn nodeIndent a True (push_array st1 a YNull)
          else
            rbind (cn nodeIndent CONTEXT_BLOCK_IN False True st1) (\<lambda>(ok, st2).
            rbind (skip_space (- 1) (push_array st2 a (ndresult st2))) (\<lambda>st3.
              if (line st3 = line st1 \<or> lineIndent st3 > nodeIndent) \<and> peek st3 0 \<noteq> 0
              then throwError st3 ''bad indentation of a sequence entry''
              else if lineIndent st3 < nodeIndent then Inr (True, st3)
              else sequence_loop k cn nodeIndent a True st3))))"

definition readBlockSequence :: "nat \<Rightarrow> composer \<Rightarrow> int \<Rightarrow> bool reader" where
  "readBlockSequence n cn nodeIndent st =
     (let (a, st1) = new_cell st (YArr []) in
      rbind (sequence_loop n cn nodeIndent a False (set_anchor st1 (YRef a))) (\<lambda>(detected, st2).
        if detected
        then Inr (True, st2\<lparr>tag := tag st, anchor := anchor st, kind := Some Sequence, ndresult := YRef a\<rparr>)
        else Inr (False, st2)))"

text \<open>The variables of the loop of \<open>readBlockMapping\<close>.\<close>

record bmap =
  b_overridable :: "jstr list"
  b_keyTag :: "jstr option"
  b_keyNode :: yval
  b_valueNode :: yval
  b_atExplicitKey :: bool
  b_detected :: bool
  b_allowCompact :: bool

definition bmap_start :: bmap where
  "bmap_start = \<lparr>b_overridable = [], b_keyTag = None, b_keyNode = YNull, b_valueNode = YNull,
     b_atExplicitKey = False, b_detected = False, b_allowCompact = False\<rparr>"

text \<open>\<open>storeMappingPair(...); keyTag = keyNode = valueNode = null\<close>\<close>

definition store_pair :: "nat \<Rightarrow> yval \<Rightarrow> int \<Rightarrow> int \<Rightarrow> bmap \<Rightarrow> bmap reader" where
  "store_pair a v startLine startPos b st =
     rbind (storeMappingPair (Some a) (b_overridable b) (b_keyTag b) (b_keyNode b) v startLine startPos st)
       (\<lambda>((a1, ks), st1). Inr (b\<lparr>b_overridable := ks, b_keyTag := None, b_keyNode := YNull, b_valueNode := YNull\<rparr>, st1))"

text \<open>
  What the head of an entry leads to: go on with the entry, leave the loop, or return from the function
  because the node is not a mapping.
\<close>

datatype head = Entry bmap | Leave | NotMapping

definition explicit_head :: "nat \<Rightarrow> bmap \<Rightarrow> head reader" where
  "explicit_head a b st =
     (if peek st 0 = 63 then
        rbind (if b_atExplicitKey b then store_pair a YNull 0 0 b st else Inr (b, st)) (\<lambda>(b1, st1).
          Inr (Entry (b1\<lparr>b_detected := True, b_atExplicitKey := True, b_allowCompact := True\<rparr>), move 1 st1))
      else if b_atExplicitKey b then Inr (Entry (b\<lparr>b_atExplicitKey := False, b_allowCompact := True\<rparr>), move 1 st)
      else throwError st
        ''incomplete explicit mapping pair; a key node is missed; or followed by a non-tabulated empty line'')"

definition implicit_head :: "composer \<Rightarrow> int \<Rightarrow> nat \<Rightarrow> bmap \<Rightarrow> head reader" where
  "implicit_head cn flowIndent a b st =
     rbind (cn flowIndent CONTEXT_FLOW_OUT False True st) (\<lambda>(ok, st1).
       if \<not> ok then Inr (Leave, st1)
       else if line st1 = line st then
         (let st2 = scan is_WHITE_SPACE st1 in
          if peek st2 0 = 58 then
            (let st3 = move 1 st2 in
             if \<not> is_WS_OR_EOL (peek st3 0)
             then throwError st3 ''a whitespace character is expected after the key-value separator within a block mapping''
             else
               rbind (if b_atExplicitKey b then store_pair a YNull 0 0 b st3 else Inr (b, st3)) (\<lambda>(b1, st4).
                 Inr (Entry (b1\<lparr>b_detected := True, b_atExplicitKey := False, b_allowCompact := False,
                        b_keyTag := tag st4, b_keyNode := ndresult st4\<rparr>), st4)))
          else if b_detected b then throwError st2 ''can not read an implicit mapping pair; a colon is missed''
          else Inr (NotMapping, st2))
       else if b_detected b then throwError st1 ''can not read a block mapping entry; a multiline key may not be an implicit key''
       else Inr (NotMapping, st1))"

definition mapping_head :: "composer \<Rightarrow> int \<Rightarrow> nat \<Rightarrow> bmap \<Rightarrow> head reader" where
  "mapping_head cn flowIndent a b st =
     (if (peek st 0 = 63 \<or> peek st 0 = 58) \<and> is_WS_OR_EOL (peek st 1)
      then explicit_head a b st else implicit_head cn flowIndent a b st)"

text \<open>The value of the entry, or the explicit key.\<close>

definition mapping_value :: "composer \<Rightarrow> int \<Rightarrow> nat \<Rightarrow> int \<Rightarrow> int \<Rightarrow> bmap \<Rightarrow> bmap reader" where
  "mapping_value cn nodeIndent a line0 pos0 b st =
     (if line st = line0 \<or> lineIndent st > nodeIndent then
        rbind (cn nodeIndent CONTEXT_BLOCK_OUT True (b_allowCompact b) st) (\<lambda>(ok, st1).
          let b1 = (if \<not> ok then b else if b_atExplicitKey b then b\<lparr>b_keyNode := ndresult st1\<rparr> else b\<lparr>b_valueNode := ndresult st1\<rparr>)
          in rbind (if b_atExplicitKey b1 then Inr (b1, st1) else store_pair a (b_valueNode b1) line0 pos0 b1 st1) (\<lambda>(b2, st2).
             rbind (skip_space (- 1) st2) (\<lambda>st3. Inr (b2, st3))))
      else Inr (b, st))"

text \<open>Behind the loop: a last explicit key without a value, then the result.\<close>

definition mapping_end :: "nat \<Rightarrow> jstr option \<Rightarrow> jstr option \<Rightarrow> bmap \<Rightarrow> bool reader" where
  "mapping_end a tag0 anchor0 b st =
     rbind (if b_atExplicitKey b then store_pair a YNull 0 0 b st else Inr (b, st)) (\<lambda>(b1, st1).
       Inr (b_detected b1,
            if b_detected b1
            then st1\<lparr>tag := tag0, anchor := anchor0, kind := Some Mapping, ndresult := YRef a\<rparr> else st1))"

primrec mapping_loop ::
    "nat \<Rightarrow> composer \<Rightarrow> int \<Rightarrow> int \<Rightarrow> nat \<Rightarrow> jstr option \<Rightarrow> jstr option \<Rightarrow> bmap \<Rightarrow> bool reader" where
  "mapping_loop 0 cn nodeIndent flowIndent a tag0 anchor0 b st = Inl NoFuel"
| "mapping_loop (Suc k) cn nodeIndent flowIndent a tag0 anchor0 b st =
     (if peek st 0 = 0 then mapping_end a tag0 anchor0 b st
      else
        rbind (mapping_head cn flowIndent a b st) (\<lambda>(hd1, st1).
          case hd1 of
            Leave \<Rightarrow> mapping_end a tag0 anchor0 b st1
          | NotMapping \<Rightarrow> Inr (True, st1\<lparr>tag := tag0, anchor := anchor0\<rparr>)
          | Entry b1 \<Rightarrow>
              rbind (mapping_value cn nodeIndent a (line st) (position st) b1 st1) (\<lambda>(b2, st2).
                if lineIndent st2 > nodeIndent \<and> peek st2 0 \<noteq> 0 then throwError st2 ''bad indentation of a mapping entry''
                else if lineIndent st2 < nodeIndent then mapping_end a tag0 anchor0 b2 st2
                else mapping_loop k cn nodeIndent flowIndent a tag0 anchor0 b2 st2)))"

definition readBlockMapping :: "nat \<Rightarrow> composer \<Rightarrow> int \<Rightarrow> int \<Rightarrow> bool reader" where
  "readBlockMapping n cn nodeIndent flowIndent st =
     (let (a, st1) = new_cell st (YObj [])
      in mapping_loop n cn nodeIndent flowIndent a (tag st) (anchor st) bmap_start (set_anchor st1 (YRef a)))"

end
