(* ===== verification/Yaml_Document.thy ===== *)
theory Yaml_Document
  imports Yaml_Loader
begin

text \<open>
  The composition of a node, documents, and the functions \<open>load\<close>, \<open>loadAll\<close>, \<open>safeLoad\<close> and \<open>safeLoadAll\<close>
  of the loader of js-yaml (module 503 of \<open>swagger-ui.js\<close>).
\<close>

section \<open>Nodes\<close>

definition indent_status :: "lstate \<Rightarrow> int \<Rightarrow> int" where
  "indent_status st parentIndent =
     (if lineIndent st > parentIndent then 1 else if lineIndent st = parentIndent then 0 else - 1)"

text \<open>\<open>first(state) || second(state)\<close>\<close>

definition or_else :: "bool reader \<Rightarrow> bool reader \<Rightarrow> bool reader" where
  "or_else r1 r2 st = rbind (r1 st) (\<lambda>(ok, st1). if ok then Inr (True, st1) else r2 st1)"

definition guarded :: "bool \<Rightarrow> bool reader \<Rightarrow> bool reader" where
  "guarded c r st = (if c then r st else Inr (False, st))"

text \<open>
  The loop over tags and anchors, with \<open>indentStatus\<close>, \<open>atNewLine\<close> and \<open>allowBlockCollections\<close>.  A second tag
  or a second anchor throws, so that the condition is evaluated three times at most.
\<close>

primrec property_loop :: "nat \<Rightarrow> int \<Rightarrow> bool \<Rightarrow> int \<Rightarrow> bool \<Rightarrow> bool \<Rightarrow> (int \<times> bool \<times> bool) reader" where
  "property_loop 0 parentIndent allowBlockStyles status atNewLine allowBlock st = Inl NoFuel"
| "property_loop (Suc k) parentIndent allowBlockStyles status atNewLine allowBlock st =
     rbind (or_else readTagProperty readAnchorProperty st) (\<lambda>(ok, st1).
       if \<not> ok then Inr ((status, atNewLine, allowBlock), st1)
       else rbind (skipSeparationSpace True (- 1) st1) (\<lambda>(n, st2).
         if n \<noteq> 0 then property_loop k parentIndent allowBlockStyles (indent_status st2 parentIndent) True allowBlockStyles st2
         else property_loop k parentIndent allowBlockStyles status atNewLine False st2))"

text \<open>Everything in front of the content: reset, separation space, properties.\<close>

definition node_start :: "int \<Rightarrow> node_context \<Rightarrow> bool \<Rightarrow> bool \<Rightarrow> (int \<times> bool) reader" where
  "node_start parentIndent ctx allowToSeek allowCompact st0 =
     (let st = st0\<lparr>tag := None, anchor := None, kind := None, ndresult := YNull\<rparr>;
          allowBlockStyles = (ctx = CONTEXT_BLOCK_OUT \<or> ctx = CONTEXT_BLOCK_IN)
      in rbind (if allowToSeek
                then rbind (skipSeparationSpace True (- 1) st) (\<lambda>(n, st1).
                  Inr ((if n \<noteq> 0 then indent_status st1 parentIndent else 1, n \<noteq> 0), st1))
                else Inr ((1, False), st)) (\<lambda>((status, atNewLine), st1).
         rbind (if status = 1 then property_loop 3 parentIndent allowBlockStyles status atNewLine allowBlockStyles st1
                else Inr ((status, atNewLine, allowBlockStyles), st1)) (\<lambda>((status1, atNewLine1, allowBlock), st2).
           Inr ((status1, allowBlock \<and> (atNewLine1 \<or> allowCompact)), st2))))"

text \<open>The scalars, an alias, or nothing; then the anchor.\<close>

definition scalar_content :: "int \<Rightarrow> node_context \<Rightarrow> bool reader" where
  "scalar_content flowIndent ctx st =
     rbind (or_else (guarded (ctx = CONTEXT_BLOCK_OUT \<or> ctx = CONTEXT_BLOCK_IN) (readBlockScalar flowIndent))
             (or_else (readSingleQuotedScalar flowIndent) (readDoubleQuotedScalar flowIndent)) st) (\<lambda>(ok, st1).
     rbind (if ok then Inr (True, st1)
            else rbind (readAlias st1) (\<lambda>(isAlias, st2).
              if isAlias then
                (if tag st2 \<noteq> None \<or> anchor st2 \<noteq> None then throwError st2 ''alias node should not have any properties''
                 else Inr (True, st2))
              else rbind (readPlainScalar flowIndent (ctx = CONTEXT_FLOW_IN) st2) (\<lambda>(isPlain, st3).
                Inr (isPlain, if isPlain \<and> tag st3 = None then st3\<lparr>tag := Some (js ''?'')\<rparr> else st3)))) (\<lambda>(hasContent, st4).
       Inr (hasContent, set_anchor st4 (ndresult st4))))"

definition node_content :: "nat \<Rightarrow> composer \<Rightarrow> int \<Rightarrow> node_context \<Rightarrow> int \<Rightarrow> bool \<Rightarrow> bool reader" where
  "node_content n cn parentIndent ctx status allowBlock st =
     (let flowIndent = (if ctx = CONTEXT_FLOW_IN \<or> ctx = CONTEXT_FLOW_OUT then parentIndent else parentIndent + 1);
          blockIndent = position st - lineStart st
      in if status = 1 then
           rbind (or_else (guarded allowBlock (or_else (readBlockSequence n cn blockIndent) (readBlockMapping n cn blockIndent flowIndent)))
                   (readFlowCollection n cn flowIndent) st) (\<lambda>(ok, st1).
             if ok then Inr (True, st1) else scalar_content flowIndent ctx st1)
         else if status = 0 \<and> ctx = CONTEXT_BLOCK_OUT then guarded allowBlock (readBlockSequence n cn blockIndent) st
         else Inr (False, st))"

text \<open>\<open>type.construct(state.result)\<close>, and the anchor.\<close>

definition construct_node :: "ytype \<Rightarrow> lstate \<Rightarrow> lstate yresult" where
  "construct_node ty st =
     (case ty_construct ty (heap st) (ndresult st) of
        Inl e \<Rightarrow> Inl (JsError e)
      | Inr (v, h) \<Rightarrow> Inr (set_anchor (st\<lparr>ndresult := v, heap := h\<rparr>) v))"

fun kind_name :: "ykind option \<Rightarrow> string" where
  "kind_name None = ''null''"
| "kind_name (Some Scalar) = ''scalar''"
| "kind_name (Some Sequence) = ''sequence''"
| "kind_name (Some Mapping) = ''mapping''"

text \<open>
  A scalar type other than \<open>!!str\<close> and \<open>!!js/undefined\<close> that meets a value which another tag has already
  constructed: not modelled.
\<close>

definition foreign_value :: "lstate \<Rightarrow> ytype \<Rightarrow> bool" where
  "foreign_value st ty \<longleftrightarrow> ty_kind ty = Scalar \<and> ty_tag ty \<noteq> yaml_tag ''str'' \<and> ty_tag ty \<noteq> yaml_tag ''js/undefined'' \<and>
     (case ndresult st of YNull \<Rightarrow> False | YStr s \<Rightarrow> False | _ \<Rightarrow> True)"

definition resolve_node :: "lstate \<Rightarrow> lstate yresult" where
  "resolve_node st =
     (case tag st of
        None \<Rightarrow> Inr st
      | Some t \<Rightarrow>
          if t = js ''!'' then Inr st
          else if t = js ''?'' then
            (case find (\<lambda>ty. ty_resolve ty (heap st) (ndresult st)) (compiledImplicit (typeSchema st)) of
               None \<Rightarrow> Inr st
             | Some ty \<Rightarrow> rbind (construct_node ty st) (\<lambda>st1. Inr (st1\<lparr>tag := Some (ty_tag ty)\<rparr>)))
          else
            (case compiledTypeMap (typeSchema st) (kind st) t of
               None \<Rightarrow> throwErrorWith st (js ''unknown tag !<'' @ t @ js ''>'')
             | Some ty \<Rightarrow>
                 if ndresult st \<noteq> YNull \<and> Some (ty_kind ty) \<noteq> kind st then
                   throwErrorWith st (js ''unacceptable node kind for !<'' @ t @ js ''> tag; it should be \"'' @
                     js (kind_name (Some (ty_kind ty))) @ js ''\", not \"'' @ js (kind_name (kind st)) @ js ''\"'')
                 else if foreign_value st ty then Inl NotModelled
                 else if \<not> ty_resolve ty (heap st) (ndresult st) then
                   throwErrorWith st (js ''cannot resolve a node with !<'' @ t @ js ''> explicit tag'')
                 else construct_node ty st))"

definition compose_step :: "nat \<Rightarrow> composer \<Rightarrow> composer" where
  "compose_step n cn parentIndent ctx allowToSeek allowCompact st =
     rbind (node_start parentIndent ctx allowToSeek allowCompact st) (\<lambda>((status, allowBlock), st1).
     rbind (if status = 1 \<or> ctx = CONTEXT_BLOCK_OUT then node_content n cn parentIndent ctx status allowBlock st1
            else Inr (False, st1)) (\<lambda>(hasContent, st2).
     rbind (resolve_node st2) (\<lambda>st3.
       Inr (tag st3 \<noteq> None \<or> anchor st3 \<noteq> None \<or> hasContent, st3))))"

primrec composeNode :: "nat \<Rightarrow> composer" where
  "composeNode 0 = (\<lambda>parentIndent ctx allowToSeek allowCompact st. Inl NoFuel)"
| "composeNode (Suc n) = compose_step n (composeNode n)"

section \<open>Documents\<close>

text \<open>The arguments of a directive.\<close>

function directive_args :: "jstr list \<Rightarrow> jstr list reader" where
  "directive_args args st =
     (if peek st 0 = 0 then Inr (args, st)
      else
        let st1 = scan is_WHITE_SPACE st; ch = peek st1 0 in
        if ch = - 1 then Inl NoFuel
        else if ch = 35 then Inr (args, scan (\<lambda>c. c \<noteq> 0 \<and> \<not> is_EOL c) (move 1 st1))
        else if is_EOL ch then Inr (args, st1)
        else if ch = 0 then Inr (args @ [[]], st1)
        else
          let st2 = scan (\<lambda>c. c \<noteq> 0 \<and> \<not> is_WS_OR_EOL c) (move 1 st1)
          in directive_args (args @ [input_slice st2 (position st1) (position st2)]) st2)"
  by pat_completeness auto
termination
proof (relation "measure (\<lambda>(a, st). left_over st)", goal_cases)
  case (2 a st st1 ch st2)
  have "position st \<le> position st1" "input st1 = input st" using 2 by simp_all
  moreover have "position st1 + 1 \<le> position st2" "input st2 = input st1"
    using 2 scan_frame(2) [of "move 1 st1"] by simp_all
  moreover have "position st1 < int (length (input st1))" using peek_inside [of st1] 2 by simp
  ultimately show ?case by (simp add: left_over_def)
qed simp

declare directive_args.simps [simp del]

definition read_directive :: "lstate \<Rightarrow> lstate yresult" where
  "read_directive st =
     (let st1 = move 1 st; st2 = scan (\<lambda>c. c \<noteq> 0 \<and> \<not> is_WS_OR_EOL c) st1;
          name = input_slice st2 (position st1) (position st2)
      in if name = [] then throwError st2 ''directive name must not be less than one character in length''
         else
           rbind (directive_args [] st2) (\<lambda>(args, st3).
           rbind (if peek st3 0 \<noteq> 0 then readLineBreak st3 else Inr st3) (\<lambda>st4.
             if name = js ''YAML'' then handleYamlDirective st4 args
             else if name = js ''TAG'' then handleTagDirective st4 args
             else Inr (throwWarning st4 (js ''unknown document directive \"'' @ name @ js ''\"'')))))"

primrec directive_loop :: "nat \<Rightarrow> bool \<Rightarrow> bool reader" where
  "directive_loop 0 hasDirectives st = Inl NoFuel"
| "directive_loop (Suc k) hasDirectives st =
     (if peek st 0 = 0 then Inr (hasDirectives, st)
      else
        rbind (skip_space (- 1) st) (\<lambda>st1.
          if lineIndent st1 > 0 \<or> peek st1 0 \<noteq> 37 then Inr (hasDirectives, st1)
          else rbind (read_directive st1) (\<lambda>st2. directive_loop k True st2)))"

text \<open>The three dashes in front of a document.\<close>

definition document_start :: "bool \<Rightarrow> lstate \<Rightarrow> lstate yresult" where
  "document_start hasDirectives st =
     (if lineIndent st = 0 \<and> peek st 0 = 45 \<and> peek st 1 = 45 \<and> peek st 2 = 45 then skip_space (- 1) (move 3 st)
      else if hasDirectives then throwError st ''directives end mark is expected'' else Inr st)"

text \<open>What follows a document: a separator, or the end of the input.\<close>

definition document_end :: "int \<Rightarrow> lstate \<Rightarrow> lstate yresult" where
  "document_end documentStart st0 =
     (let st1 = (if checkLineBreaks st0 \<and> PATTERN_NON_ASCII_LINE_BREAKS (input_slice st0 documentStart (position st0))
                 then throwWarning st0 (js ''non-ASCII line breaks are interpreted as content'') else st0);
          st = st1\<lparr>documents := documents st1 @ [ndresult st1]\<rparr>
      in if position st = lineStart st \<and> testDocumentSeparator st then
           (if peek st 0 = 46 then skip_space (- 1) (move 3 st) else Inr st)
         else if position st < inputLength st - 1
         then throwError st ''end of the stream or a document separator is expected''
         else Inr st)"

definition readDocument :: "nat \<Rightarrow> lstate \<Rightarrow> lstate yresult" where
  "readDocument n st0 =
     (let st = st0\<lparr>version := None, checkLineBreaks := legacy st0, tagMap := [], anchorMap := []\<rparr> in
      rbind (directive_loop n False st) (\<lambda>(hasDirectives, st1).
      rbind (skip_space (- 1) st1) (\<lambda>st2.
      rbind (document_start hasDirectives st2) (\<lambda>st3.
      rbind (composeNode n (lineIndent st3 - 1) CONTEXT_BLOCK_OUT False True st3) (\<lambda>(ok, st4).
      rbind (skip_space (- 1) st4) (\<lambda>st5. document_end (position st0) st5))))))"

primrec document_loop :: "nat \<Rightarrow> nat \<Rightarrow> lstate \<Rightarrow> lstate yresult" where
  "document_loop 0 n st = Inl NoFuel"
| "document_loop (Suc k) n st =
     (if position st < inputLength st - 1 then rbind (readDocument n st) (document_loop k n) else Inr st)"

section \<open>Loading\<close>

text \<open>An option that is \<open>None\<close> is absent; the schema may also be present and falsy.\<close>

record load_options =
  lo_filename :: "jstr option"
  lo_schema :: "schema option option"
  lo_legacy :: bool
  lo_json :: bool

definition no_load_options :: load_options where
  "no_load_options = \<lparr>lo_filename = None, lo_schema = None, lo_legacy = False, lo_json = False\<rparr>"

text \<open>What is not under the model's control: the full schema, which holds the JavaScript parser, and \<open>String\<close>.\<close>

record load_env =
  le_full :: schema
  le_host :: "yval \<Rightarrow> jstr"

definition loadState :: "load_env \<Rightarrow> jstr \<Rightarrow> load_options \<Rightarrow> lstate" where
  "loadState env s opts =
     \<lparr>input = s, filename = (case lo_filename opts of Some n \<Rightarrow> if n = [] then None else Some n | None \<Rightarrow> None),
      typeSchema = compileSchema (case lo_schema opts of Some (Some sch) \<Rightarrow> sch | _ \<Rightarrow> le_full env),
      legacy = lo_legacy opts, json = lo_json opts, inputLength = int (length s), position = 0, line = 0, lineStart = 0,
      lineIndent = 0, documents = [], version = None, checkLineBreaks = False, tagMap = [], anchorMap = [],
      tag = None, anchor = None, kind = None, ndresult = YUndef, heap = [], warnings = [], hostString = le_host env\<rparr>"

text \<open>A line feed at the end, no byte order mark at the beginning.\<close>

definition prepare_input :: "jstr \<Rightarrow> jstr" where
  "prepare_input s0 =
     (if s0 = [] then []
      else
        let s1 = (if last s0 \<noteq> 10 \<and> last s0 \<noteq> 13 then s0 @ [10] else s0)
        in if hd s1 = 65279 then tl s1 else s1)"

text \<open>The bound on depth and rounds that goes with an input.\<close>

definition load_bound :: "jstr \<Rightarrow> nat" where
  "load_bound s = 2 * length s + 10"

definition load_start :: "load_env \<Rightarrow> jstr \<Rightarrow> load_options \<Rightarrow> lstate" where
  "load_start env s opts =
     (let st = loadState env s opts; st1 = st\<lparr>input := input st @ [0]\<rparr>; st2 = scan (\<lambda>c. c = 32) st1
      in st2\<lparr>lineIndent := position st2\<rparr>)"

definition loadDocuments :: "load_env \<Rightarrow> jstr \<Rightarrow> load_options \<Rightarrow> lstate yresult" where
  "loadDocuments env s0 opts =
     (let s = prepare_input s0 in document_loop (load_bound s) (load_bound s) (load_start env s opts))"

text \<open>The documents, whether they go to the iterator or are returned, and the heap they live on.\<close>

definition loadAll :: "load_env \<Rightarrow> jstr \<Rightarrow> bool \<Rightarrow> load_options \<Rightarrow> (bool \<times> yval list \<times> yheap) yresult" where
  "loadAll env s iteratorIsFunction opts =
     rbind (loadDocuments env s opts) (\<lambda>st. Inr (iteratorIsFunction, documents st, heap st))"

definition load :: "load_env \<Rightarrow> jstr \<Rightarrow> load_options \<Rightarrow> (yval \<times> yheap) yresult" where
  "load env s opts =
     rbind (loadDocuments env s opts) (\<lambda>st.
       case documents st of
         [] \<Rightarrow> Inr (YUndef, heap st)
       | [d] \<Rightarrow> Inr (d, heap st)
       | _ \<Rightarrow> Inl (YAMLException (js ''expected a single document in the stream, but found more'') None))"

text \<open>\<open>common.extend({schema: DEFAULT_SAFE_SCHEMA}, options)\<close>\<close>

definition safe_options :: "load_options \<Rightarrow> load_options" where
  "safe_options opts =
     (if lo_schema opts = None then opts\<lparr>lo_schema := Some (Some DEFAULT_SAFE_SCHEMA)\<rparr> else opts)"

text \<open>Without a function the safe options stand in the place of the iterator, and there are no options.\<close>

definition safeLoadAll :: "load_env \<Rightarrow> jstr \<Rightarrow> bool \<Rightarrow> load_options \<Rightarrow> (bool \<times> yval list \<times> yheap) yresult" where
  "safeLoadAll env s outputIsFunction opts =
     (if outputIsFunction then loadAll env s True (safe_options opts) else loadAll env s False no_load_options)"

definition safeLoad :: "load_env \<Rightarrow> jstr \<Rightarrow> load_options \<Rightarrow> (yval \<times> yheap) yresult" where
  "safeLoad env s opts = load env s (safe_options opts)"

text \<open>An environment without a JavaScript parser, and a state at the beginning of a text, for concrete runs.\<close>

definition plain_env :: load_env where
  "plain_env = \<lparr>le_full = DEFAULT_FULL_SCHEMA (\<lambda>_. None) (\<lambda>_ _. []), le_host = (\<lambda>_. [])\<rparr>"

definition text_state :: "jstr \<Rightarrow> lstate" where
  "text_state s = (loadState plain_env s no_load_options)\<lparr>input := s @ [0]\<rparr>"

lemma text_state_simps [simp]:
  "input (text_state s) = s @ [0]" "position (text_state s) = 0" "lineStart (text_state s) = 0" "lineIndent (text_state s) = 0"
  "line (text_state s) = 0" "inputLength (text_state s) = int (length s)"
  by (simp_all add: text_state_def loadState_def)

end
