(* ===== verification/Yaml_Quote_Laws.thy ===== *)
theory Yaml_Quote_Laws
  imports Yaml_Int_Laws Yaml_Dumper Yaml_Document
begin

text \<open>
  Quoted strings: what the dumper writes between double quotes or single quotes is read back by the
  loader's scanner as the same string.
\<close>

section \<open>Reading from a position\<close>

text \<open>The rest of the input begins with the given text.\<close>

definition ahead :: "lstate \<Rightarrow> jstr \<Rightarrow> bool" where
  "ahead st xs \<longleftrightarrow> 0 \<le> position st \<and> drop (nat (position st)) (input st) = xs"

lemma peek_ahead: "ahead st xs \<Longrightarrow> 0 \<le> k \<Longrightarrow> nat k < length xs \<Longrightarrow> peek st k = uint (xs ! nat k)"
proof -
  assume a: "ahead st xs" and k: "0 \<le> k" "nat k < length xs"
  then have "xs ! nat k = input st ! (nat (position st) + nat k)" "nat (position st) + nat k < length (input st)"
    by (auto simp: ahead_def)
  moreover have "nat (position st + k) = nat (position st) + nat k" using a k by (simp add: ahead_def nat_add_distrib)
  ultimately show ?thesis using a k by (simp add: peek_def code_at_def ahead_def) linarith
qed

lemma peek_Cons: "ahead st (x # xs) \<Longrightarrow> peek st 0 = uint x"
  using peek_ahead [of st "x # xs" 0] by simp

lemma peek_Cons2: "ahead st (x # y # xs) \<Longrightarrow> peek st 1 = uint y"
  using peek_ahead [of st "x # y # xs" 1] by simp

lemma ahead_move: "ahead st (xs @ ys) \<Longrightarrow> ahead (move (int (length xs)) st) ys"
  by (auto simp: ahead_def nat_add_distrib drop_drop [symmetric] add.commute simp del: drop_drop)

lemma ahead_move1: "ahead st (x # xs) \<Longrightarrow> ahead (move 1 st) xs"
  using ahead_move [of st "[x]" xs] by simp

text \<open>The text from a start up to the position.\<close>

definition behind :: "lstate \<Rightarrow> int \<Rightarrow> jstr \<Rightarrow> bool" where
  "behind st a ys \<longleftrightarrow> 0 \<le> a \<and> a + int (length ys) = position st \<and> take (length ys) (drop (nat a) (input st)) = ys"

lemma behind_self: "0 \<le> position st \<Longrightarrow> behind st (position st) []"
  by (simp add: behind_def)

lemma behind_slice: "behind st a ys \<Longrightarrow> input_slice st a (position st) = ys"
proof -
  assume b: "behind st a ys"
  then have "nat (position st) - nat a = length ys" by (auto simp: behind_def)
  with b show ?thesis by (simp add: behind_def input_slice_def slice_str_def)
qed

lemma behind_move:
  assumes "behind st a ys" "ahead st (x # xs)"
  shows "behind (move 1 st) a (ys @ [x])"
proof -
  have a: "0 \<le> a" "position st = a + int (length ys)" "take (length ys) (drop (nat a) (input st)) = ys"
    using assms(1) by (auto simp: behind_def)
  have "drop (length ys) (drop (nat a) (input st)) = x # xs"
    using assms(2) a by (simp add: ahead_def nat_add_distrib add.commute)
  then have "drop (nat a) (input st) = ys @ x # xs" using a(3) append_take_drop_id [of "length ys" "drop (nat a) (input st)"] by simp
  then show ?thesis using a by (simp add: behind_def)
qed

lemma capture_behind:
  assumes "behind st a ys" "list_all json_unit ys" "ndresult st = YStr r"
  shows "captureSegment st a (position st) True = Inr (st\<lparr>ndresult := YStr (r @ ys)\<rparr>)"
proof -
  have "a < position st \<longleftrightarrow> ys \<noteq> []" using assms(1) by (cases ys) (auto simp: behind_def)
  with assms show ?thesis
    by (cases "ys = []") (simp_all add: captureSegment_def behind_slice add_result_def result_text_def)
qed

text \<open>A change of the result alone.\<close>

lemma ahead_result [simp]: "ahead (st\<lparr>ndresult := v\<rparr>) xs = ahead st xs"
  by (simp add: ahead_def)

lemma peek_result [simp]: "peek (st\<lparr>ndresult := v\<rparr>) k = peek st k"
  by (simp add: peek_def)

lemma move_result: "move k (st\<lparr>ndresult := v\<rparr>) = (move k st)\<lparr>ndresult := v\<rparr>"
  by (simp add: move_def)

lemma move_ndresult [simp]: "ndresult (move k st) = ndresult st"
  by (simp add: move_def)

lemma move_move [simp]: "move j (move k st) = move (j + k) st"
  by (simp add: move_def add.commute add.left_commute)

section \<open>Hexadecimal escapes\<close>

lemma fromHexCode_digit: "is_digit_of 16 c d \<Longrightarrow> fromHexCode (uint c) = int d"
proof -
  assume g: "is_digit_of 16 c d"
  then have d: "d < 16" by (simp add: is_digit_of_def)
  have u: "uint c = (if d < 10 then 48 + int d else 87 + int d) \<or> uint c = (if d < 10 then 48 + int d else 55 + int d)"
    using g uint_digit_char [OF d] uint_upper_digit [OF d] by (auto simp: is_digit_of_def)
  show ?thesis
  proof (cases "d < 10")
    case True
    then show ?thesis using u by (auto simp: fromHexCode_def)
  next
    case False
    then have "d \<in> {10, 11, 12, 13, 14, 15}" using d by auto
    then show ?thesis using u by (auto simp: fromHexCode_def js_or_def to_int32_id Let_def)
  qed
qed

lemma foldl_digits_mono: "a \<le> foldl (\<lambda>a d. a * 16 + d) a (ds :: nat list)"
proof (induction ds arbitrary: a)
  case (Cons d ds)
  have "a \<le> a * 16 + d" by simp
  also have "\<dots> \<le> foldl (\<lambda>a d. a * 16 + d) (a * 16 + d) ds" by (rule Cons)
  finally show ?case by simp
qed simp

lemma js_shl4: "0 \<le> r \<Longrightarrow> r < 134217728 \<Longrightarrow> js_shl r 4 = r * 16"
  by (simp add: js_shl_def shift_count_def to_uint32_id to_int32_id push_bit_eq_mult)

lemma hex_digits_reads:
  assumes "list_all2 (is_digit_of 16) cs ds" "ahead st (x # cs @ post)"
    "foldl (\<lambda>a d. a * 16 + d) r ds < 134217728"
  shows "hex_digits (length cs) (int r) st = Inr (int (foldl (\<lambda>a d. a * 16 + d) r ds), move (int (length cs)) st)"
  using assms
proof (induction arbitrary: r st x rule: list_all2_induct)
  case Nil
  then show ?case by (simp add: move_def)
next
  case (Cons c cs d ds)
  have "r \<le> r * 16 + d" by simp
  also have "\<dots> \<le> foldl (\<lambda>a d. a * 16 + d) (r * 16 + d) ds" by (rule foldl_digits_mono)
  finally have r: "js_shl (int r) 4 + int d = int (r * 16 + d)" using Cons.prems(2) by (simp add: js_shl4)
  have m: "ahead (move 1 st) (c # cs @ post)" using Cons.prems(1) ahead_move1 [of st x] by simp
  then have "fromHexCode (peek (move 1 st) 0) = int d" by (simp add: peek_Cons fromHexCode_digit [OF Cons.hyps(1)])
  moreover have "hex_digits (length cs) (int (r * 16 + d)) (move 1 st) =
      Inr (int (foldl (\<lambda>a d. a * 16 + d) (r * 16 + d) ds), move (int (length cs)) (move 1 st))"
    by (rule Cons.IH [OF m]) (use Cons.prems(2) in simp)
  moreover have "move (int (length cs)) (move 1 st) = move (1 + int (length cs)) st" by (simp add: add.commute)
  ultimately show ?case by (simp add: Let_def r del: of_nat_add of_nat_mult move_move)
qed

lemma radix_digits_length: "0 < k \<Longrightarrow> 2 \<le> r \<Longrightarrow> n < r ^ k \<Longrightarrow> length (radix_digits r n) \<le> k"
proof (induction k arbitrary: n)
  case (Suc k)
  show ?case
  proof (cases "n < r")
    case True
    then show ?thesis by (simp add: radix_digits.simps [of r n])
  next
    case False
    then have k: "0 < k" using Suc.prems by (cases k) auto
    have "n div r < r ^ k" using Suc.prems by (simp add: less_mult_imp_div_less mult.commute)
    then show ?thesis using Suc.IH [OF k Suc.prems(2)] False Suc.prems(2) by (simp add: radix_digits.simps [of r n])
  qed
qed simp

lemma concat_singles: "concat (replicate n [x]) = replicate n x"
  by (induction n) simp_all

lemma digits_of_zeros: "digits_of 16 cs n \<Longrightarrow> digits_of 16 (replicate k 48 @ cs) n"
proof (induction k)
  case (Suc k)
  then obtain ds where ds: "list_all2 (is_digit_of 16) (replicate k 48 @ cs) ds" "foldl (\<lambda>a d. a * 16 + d) 0 ds = n"
    by (auto simp: digits_of_def)
  have "is_digit_of 16 48 0" by (simp add: is_digit_of_def digit_char_def)
  with ds show ?case unfolding digits_of_def by (intro conjI exI [of _ "0 # ds"]) simp_all
qed simp

text \<open>What \<open>encodeHex\<close> writes: a backslash, a handle and as many digits as the handle asks for.\<close>

lemma encodeHex_digits:
  assumes "n < 134217728"
  obtains h cs where "encodeHex (int n) = Inr (92 # h # cs)" "digits_of 16 cs n" "escapedHexLen (uint h) = length cs"
    "h \<in> {120, 117, 85}"
proof -
  let ?s = "map upper_unit (radix_digits 16 n)"
  have dig: "digits_of 16 (replicate k 48 @ ?s) n" for k using digits_of_radix [of 16 n] by (intro digits_of_zeros) simp
  have len: "length ?s \<le> k" if "n < 16 ^ k" "0 < k" for k using radix_digits_length [of k 16 n] that by simp
  have build: "repeat_str [48] (int k - int (length ?s)) @ ?s = replicate (k - length ?s) 48 @ ?s" for k
    by (simp add: repeat_str_def concat_singles)
  have s: "map upper_unit (int_string 16 (int n)) = ?s" by (simp add: int_string_def)
  consider "n \<le> 255" | "255 < n" "n \<le> 65535" | "65535 < n" by linarith
  then show ?thesis
  proof cases
    case 1
    then have "encodeHex (int n) = Inr (92 # 120 # replicate (2 - length ?s) 48 @ ?s)"
      using build [of 2] by (simp add: encodeHex_def s js_def)
    with that [OF this dig] show ?thesis using len [of 2] 1 by (simp add: escapedHexLen_def)
  next
    case 2
    then have "encodeHex (int n) = Inr (92 # 117 # replicate (4 - length ?s) 48 @ ?s)"
      using build [of 4] by (simp add: encodeHex_def s js_def)
    with that [OF this dig] show ?thesis using len [of 4] 2 by (simp add: escapedHexLen_def)
  next
    case 3
    then have "encodeHex (int n) = Inr (92 # 85 # replicate (8 - length ?s) 48 @ ?s)"
      using build [of 8] assms by (simp add: encodeHex_def s js_def)
    with that [OF this dig] show ?thesis using len [of 8] assms by (simp add: escapedHexLen_def)
  qed
qed

section \<open>Double-quoted strings\<close>

text \<open>What one escape sequence stands for, for \<open>read_escape\<close> behind the backslash.\<close>

definition escapes_to :: "jstr \<Rightarrow> jstr \<Rightarrow> bool" where
  "escapes_to e us \<longleftrightarrow> (\<forall>n st r post. ahead st (e @ post) \<longrightarrow> ndresult st = YStr r \<longrightarrow>
     read_escape n st = Inr ((move (int (length e)) st)\<lparr>ndresult := YStr (r @ us)\<rparr>))"

lemma escapes_to_hex:
  assumes "n < 134217728"
  shows "\<exists>e. encodeHex (int n) = Inr (92 # e) \<and> escapes_to e (charFromCodepoint (int n))"
proof -
  obtain h cs where e: "encodeHex (int n) = Inr (92 # h # cs)" "digits_of 16 cs n" "escapedHexLen (uint h) = length cs"
    "h \<in> {120, 117, 85}" using encodeHex_digits [OF assms] by blast
  obtain ds where ds: "list_all2 (is_digit_of 16) cs ds" "foldl (\<lambda>a d. a * 16 + d) 0 ds = n" "cs \<noteq> []"
    using e(2) by (auto simp: digits_of_def)
  have "read_escape m st = Inr ((move (int (length (h # cs))) st)\<lparr>ndresult := YStr (r @ charFromCodepoint (int n))\<rparr>)"
    if a: "ahead st ((h # cs) @ post)" "ndresult st = YStr r" for m st r post
  proof -
    have p: "peek st 0 = uint h" using a(1) by (simp add: peek_Cons)
    have "hex_digits (length cs) 0 st = Inr (int n, move (int (length cs)) st)"
      using hex_digits_reads [OF ds(1), of st h post 0] a(1) ds(2) assms by simp
    moreover have "0 < length cs" using ds(3) by simp
    moreover have "\<not> is_EOL (uint h)" "simpleEscapeSequence (uint h) = []"
      using e(4) by (auto simp: is_EOL_def simpleEscapeSequence_def)
    ultimately show ?thesis
      using p e(3) a(2) by (simp add: read_escape_def add_result_def result_text_def move_def Let_def)
  qed
  with e(1) show ?thesis unfolding escapes_to_def by (intro exI [of _ "h # cs"]) blast
qed

lemma escapes_to_simple:
  assumes "ESCAPE_SEQUENCES (uint c) = Some e"
  shows "\<exists>x. e = [92, x] \<and> escapes_to [x] [c]"
proof -
  have "map_of [(0, 48), (7, 97), (8, 98), (9, 116), (10, 110), (11, 118), (12, 102), (13, 114), (27, 101), (34, 34),
      (92, 92), (133, 78), (160, 95), (8232, 76), (8233, 80)] (uint c) = Some (x :: code_unit) \<Longrightarrow>
      simpleEscapeSequence (uint x) = [c] \<and> uint x < 256 \<and> \<not> is_EOL (uint x)" for x
    by (auto simp: simpleEscapeSequence_def is_EOL_def word_uint_eq_iff split: if_splits)
  then obtain x where x: "e = [92, x]" "simpleEscapeSequence (uint x) = [c]" "uint x < 256" "\<not> is_EOL (uint x)"
    using assms by (auto simp: ESCAPE_SEQUENCES_def)
  then have "escapes_to [x] [c]"
    by (auto simp: escapes_to_def read_escape_def peek_Cons add_result_def result_text_def move_def Let_def)
  with x(1) show ?thesis by blast
qed

lemma charFromCodepoint_unit: "charFromCodepoint (uint (c :: code_unit)) = [c]"
  by (simp add: charFromCodepoint_def)

lemma charFromCodepoint_pair:
  assumes "is_pair c d"
  shows "charFromCodepoint ((uint c - 55296) * 1024 + uint d - 56320 + 65536) = [c, d]"
proof -
  obtain h l where u: "uint c = 55296 + h" "uint d = 56320 + l" "0 \<le> h" "h < 1024" "0 \<le> l" "l < 1024"
    using assms that [of "uint c - 55296" "uint d - 56320"] by (auto simp: is_pair_def)
  have "js_sar (h * 1024 + l) 10 = h"
    using u by (simp add: js_sar_def shift_count_def to_uint32_id to_int32_id drop_bit_eq_div)
  moreover have "js_and (h * 1024 + l) 1023 = l"
    using and_mask [of 10 "h * 1024 + l"] u by (simp add: mask_eq_exp_minus_1 take_bit_eq_mod)
  moreover have "word_of_int (h + 55296) = c" "word_of_int (l + 56320) = d"
    using u(1,2) by (metis add.commute word_of_int_uint)+
  ultimately show ?thesis using u by (simp add: charFromCodepoint_def add.commute)
qed

text \<open>One step of \<open>escapeString\<close>: a printable character as it is, or an escape sequence.\<close>

definition raw_unit :: "code_unit \<Rightarrow> bool" where
  "raw_unit c \<longleftrightarrow> isPrintable (uint c) \<and> c \<noteq> 34 \<and> c \<noteq> 92"

lemma escape_char_cases:
  obtains "escape_char c = Inr [c]" "raw_unit c"
  | e where "escape_char c = Inr (92 # e)" "escapes_to e [c]"
proof (cases "ESCAPE_SEQUENCES (uint c)")
  case (Some e)
  from escapes_to_simple [OF this] obtain x where "e = [92, x]" "escapes_to [x] [c]" by blast
  then show ?thesis using that(2) [of "[x]"] Some by (simp add: escape_char_def)
next
  case None
  show ?thesis
  proof (cases "isPrintable (uint c)")
    case True
    have "c \<noteq> 34" "c \<noteq> 92" using None by (auto simp: ESCAPE_SEQUENCES_def)
    then show ?thesis using that(1) True None by (simp add: escape_char_def raw_unit_def)
  next
    case False
    have "nat (uint c) < 134217728" using uint_unit_bounds(1) [of c] by linarith
    from escapes_to_hex [OF this] obtain e where "encodeHex (uint c) = Inr (92 # e)" "escapes_to e [c]"
      by (auto simp: charFromCodepoint_unit)
    then show ?thesis using that(2) [of e] None False by (simp add: escape_char_def)
  qed
qed

text \<open>
  The parts of an escaped string: raw characters and escape sequences, with what they stand for.
\<close>

inductive escaped :: "jstr \<Rightarrow> jstr \<Rightarrow> bool" where
  Done: "escaped [] []"
| Raw: "raw_unit c \<Longrightarrow> escaped e s \<Longrightarrow> escaped (c # e) (c # s)"
| Esc: "escapes_to x us \<Longrightarrow> escaped e s \<Longrightarrow> escaped (92 # x @ e) (us @ s)"

lemma escapeString_escaped: "\<exists>e. escapeString s = Inr e \<and> escaped e s"
proof (induction s rule: escapeString.induct)
  case 1
  show ?case by (simp add: Done)
next
  case (2 c)
  show ?case
    by (rule escape_char_cases [of c]) (use Raw [OF _ Done] Esc [OF _ Done, of _ "[c]"] in fastforce)+
next
  case (3 c d cs)
  show ?case
  proof (cases "is_pair c d")
    case True
    let ?v = "(uint c - 55296) * 1024 + uint d - 56320 + 65536"
    have "0 \<le> ?v" "nat ?v < 134217728" using True by (auto simp: is_pair_def)
    then obtain x where x: "encodeHex ?v = Inr (92 # x)" "escapes_to x [c, d]"
      using escapes_to_hex [of "nat ?v"] charFromCodepoint_pair [OF True] by auto
    obtain e where "escapeString cs = Inr e" "escaped e cs" using 3(1) [OF True x(1)] by blast
    then show ?thesis using True x Esc [OF x(2)] by fastforce
  next
    case False
    have ih: "\<exists>e. escapeString (d # cs) = Inr e \<and> escaped e (d # cs)" if "escape_char c = Inr x" for x
      using 3(2) [OF False that] .
    show ?thesis
    proof (rule escape_char_cases [of c])
      assume c: "escape_char c = Inr [c]" "raw_unit c"
      obtain e where "escapeString (d # cs) = Inr e" "escaped e (d # cs)" using ih [OF c(1)] by blast
      then show ?thesis using False c Raw [OF c(2)] by auto
    next
      fix x
      assume x: "escape_char c = Inr (92 # x)" "escapes_to x [c]"
      obtain e where "escapeString (d # cs) = Inr e" "escaped e (d # cs)" using ih [OF x(1)] by blast
      then show ?thesis using False x Esc [OF x(2)] by fastforce
    qed
  qed
qed

lemma raw_unit_facts:
  assumes "raw_unit c"
  shows "uint c \<noteq> 0" "uint c \<noteq> - 1" "uint c \<noteq> 34" "uint c \<noteq> 92" "\<not> is_EOL (uint c)" "json_unit c"
  using assms by (auto simp: raw_unit_def isPrintable_def is_EOL_def json_unit_def word_uint_eq_iff)

lemma double_loop_reads:
  assumes "escaped e s" "ahead st (e @ 34 # post)" "behind st a ys" "list_all json_unit ys" "ndresult st = YStr r"
    "lineStart st < position st"
  shows "double_loop n a b st = Inr (True, (move (int (length e) + 1) st)\<lparr>ndresult := YStr (r @ ys @ s)\<rparr>)"
  using assms
proof (induction arbitrary: st a b ys r rule: escaped.induct)
  case Done
  then have "peek st 0 = 34" by (simp add: peek_Cons)
  then show ?case using Done capture_behind [OF Done(2,3,4)]
    by (subst double_loop.simps) (simp add: Let_def move_result)
next
  case (Raw c e s)
  note f = raw_unit_facts [OF Raw(1)]
  have p: "peek st 0 = uint c" using Raw.prems(1) by (simp add: peek_Cons)
  have a: "ahead (move 1 st) (e @ 34 # post)" using Raw.prems(1) ahead_move1 [of st c] by simp
  have b: "behind (move 1 st) a (ys @ [c])" using behind_move [OF Raw.prems(2)] Raw.prems(1) by simp
  have "double_loop n a (position st + 1) (move 1 st) =
      Inr (True, (move (int (length e) + 1) (move 1 st))\<lparr>ndresult := YStr (r @ (ys @ [c]) @ s)\<rparr>)"
    by (rule Raw.IH [OF a b]) (use Raw.prems f in \<open>simp_all add: move_def\<close>)
  then show ?case using f p Raw.prems(5)
    by (subst double_loop.simps) (simp add: Let_def add.commute)
next
  case (Esc x us e s)
  have p: "peek st 0 = 92" using Esc.prems(1) by (simp add: peek_Cons)
  let ?st1 = "st\<lparr>ndresult := YStr (r @ ys)\<rparr>" and ?st2 = "(move (int (length x) + 1) st)\<lparr>ndresult := YStr ((r @ ys) @ us)\<rparr>"
  have a: "ahead (move 1 ?st1) (x @ e @ 34 # post)" using Esc.prems(1) ahead_move1 [of st 92] by (simp add: move_result)
  have "read_escape n (move 1 ?st1) = Inr ((move (int (length x)) (move 1 ?st1))\<lparr>ndresult := YStr ((r @ ys) @ us)\<rparr>)"
    by (rule Esc.hyps(1) [unfolded escapes_to_def, rule_format, OF a]) (simp add: move_def)
  then have "read_escape n (move 1 ?st1) = Inr ?st2" by (simp add: move_result)
  moreover have "ahead ?st2 (e @ 34 # post)" using ahead_move [OF a] by (simp add: move_result)
  moreover have "0 \<le> position ?st2" using Esc.prems(1) by (simp add: ahead_def)
  ultimately have "double_loop n (position ?st2) (position ?st2) ?st2 =
      Inr (True, (move (int (length e) + 1) ?st2)\<lparr>ndresult := YStr ((r @ ys @ us) @ [] @ s)\<rparr>)"
    using Esc.prems(5) by (intro Esc.IH) (auto simp: behind_def)
  then show ?case using p capture_behind [OF Esc.prems(2,3,4)] \<open>read_escape n (move 1 ?st1) = Inr ?st2\<close>
    by (subst double_loop.simps) (simp add: Let_def move_result is_EOL_def add.commute add.left_commute)
qed

lemma double_quoted_reads:
  assumes "escaped e s" "ahead st (34 # e @ 34 # post)" "lineStart st \<le> position st"
  shows "readDoubleQuotedScalar n st = Inr (True, st\<lparr>kind := Some Scalar, ndresult := YStr s,
    position := position st + int (length e) + 2\<rparr>)"
proof -
  let ?st = "move 1 (st\<lparr>kind := Some Scalar, ndresult := YStr []\<rparr>)"
  have "ahead ?st (e @ 34 # post)" using ahead_move1 [OF assms(2)] by (simp add: ahead_def move_def)
  then have "double_loop n (position ?st) (position ?st) ?st =
      Inr (True, (move (int (length e) + 1) ?st)\<lparr>ndresult := YStr ([] @ [] @ s)\<rparr>)"
    using assms(2,3) by (intro double_loop_reads [OF assms(1)]) (auto simp: behind_def ahead_def)
  moreover have "peek st 0 = 34" using assms(2) by (simp add: peek_Cons)
  ultimately show ?thesis by (simp add: readDoubleQuotedScalar_def Let_def move_def)
qed

text \<open>C20: every string, escaped by the dumper and put between double quotes, is read by the loader's scanner
  as that string, whatever follows; escaping never fails.\<close>

theorem double_quoted_round_trip:
  "\<exists>e. escapeString s = Inr e \<and>
     (\<forall>st pre post n. input st = pre @ (34 # e @ [34]) @ post \<longrightarrow> position st = int (length pre) \<longrightarrow> lineStart st \<le> position st \<longrightarrow>
        readDoubleQuotedScalar n st = Inr (True, st\<lparr>kind := Some Scalar, ndresult := YStr s,
          position := position st + int (length e) + 2\<rparr>))"
proof -
  obtain e where e: "escapeString s = Inr e" "escaped e s" using escapeString_escaped [of s] by blast
  show ?thesis
  proof (intro exI [of _ e] conjI allI impI)
    fix st :: lstate and pre post n
    assume "input st = pre @ (34 # e @ [34]) @ post" "position st = int (length pre)" "lineStart st \<le> position st"
    then show "readDoubleQuotedScalar n st = Inr (True, st\<lparr>kind := Some Scalar, ndresult := YStr s,
        position := position st + int (length e) + 2\<rparr>)"
      by (intro double_quoted_reads [OF e(2), of st post]) (simp_all add: ahead_def)
  qed (rule e(1))
qed

theorem double_quoted_round_trip_witness:
  "let e = [92, 120, 57, 70, 97, 92, 110]; st = text_state (34 # e @ [34, 10])
   in readDoubleQuotedScalar 0 st = Inr (True, st\<lparr>kind := Some Scalar, ndresult := YStr [159, 97, 10], position := 9\<rparr>)"
proof -
  have d: "radix_digits 16 159 = [57, 102]" by (simp add: radix_digits.simps digit_char_def)
  have s: "escapeString [159, 97, 10] = Inr [92, 120, 57, 70, 97, 92, 110]"
    by (simp add: escape_char_def is_pair_def ESCAPE_SEQUENCES_def isPrintable_def encodeHex_def int_string_def d
        repeat_str_def js_def upper_unit_def)
  let ?st = "text_state (34 # [92, 120, 57, 70, 97, 92, 110] @ [34, 10])"
  obtain e where e: "escapeString [159, 97, 10] = Inr e" "\<forall>st pre post n. input st = pre @ (34 # e @ [34]) @ post \<longrightarrow>
      position st = int (length pre) \<longrightarrow> lineStart st \<le> position st \<longrightarrow>
      readDoubleQuotedScalar n st = Inr (True, st\<lparr>kind := Some Scalar, ndresult := YStr [159, 97, 10],
        position := position st + int (length e) + 2\<rparr>)"
    using double_quoted_round_trip [of "[159, 97, 10]"] by blast
  have "e = [92, 120, 57, 70, 97, 92, 110]" using e(1) unfolding s by simp
  with spec [OF e(2), of ?st] have "readDoubleQuotedScalar 0 ?st = Inr (True, ?st\<lparr>kind := Some Scalar, ndresult := YStr [159, 97, 10],
        position := position ?st + int (length e) + 2\<rparr>)"
    by (elim allE [of _ "[]"] allE [of _ "[10, 0]"] allE [of _ 0]) simp
  with \<open>e = _\<close> show ?thesis by (simp add: Let_def)
qed

section \<open>Single-quoted strings\<close>

lemma double_quotes_simps [simp]: "double_quotes [] = []" "double_quotes (c # s) = (if c = 39 then [39, 39] else [c]) @ double_quotes s"
  by (simp_all add: double_quotes_def)

lemma printable_facts:
  assumes "isPrintable (uint (c :: code_unit))"
  shows "uint c \<noteq> 0" "uint c \<noteq> - 1" "\<not> is_EOL (uint c)" "json_unit c"
  using assms by (auto simp: isPrintable_def is_EOL_def json_unit_def)

lemma single_loop_reads:
  assumes "list_all (\<lambda>c. isPrintable (uint c)) s" "ahead st (double_quotes s @ 39 # x # post)" "x \<noteq> 39"
    "behind st a ys" "list_all json_unit ys" "ndresult st = YStr r" "lineStart st < position st"
  shows "single_loop n a b st = Inr (True, (move (int (length (double_quotes s)) + 1) st)\<lparr>ndresult := YStr (r @ ys @ s)\<rparr>)"
  using assms
proof (induction s arbitrary: st a b ys r)
  case Nil
  then have "peek st 0 = 39" "peek st 1 \<noteq> 39" by (simp_all add: peek_Cons peek_Cons2 word_uint_eq_iff)
  then show ?case using capture_behind [OF Nil.prems(4,5,6)]
    by (subst single_loop.simps) (simp add: Let_def move_result)
next
  case (Cons c s)
  have pr: "isPrintable (uint c)" "list_all (\<lambda>c. isPrintable (uint c)) s" using Cons.prems(1) by simp_all
  note f = printable_facts [OF pr(1)]
  show ?case
  proof (cases "c = 39")
    case True
    let ?st1 = "st\<lparr>ndresult := YStr (r @ ys)\<rparr>"
    have a: "ahead st ([39, 39] @ double_quotes s @ 39 # x # post)" using Cons.prems(2) True by simp
    have p: "peek st 0 = 39" "peek st 1 = 39" using a by (simp_all add: peek_Cons peek_Cons2)
    have a2: "ahead (move 2 ?st1) (double_quotes s @ 39 # x # post)" using ahead_move [OF a] by (simp add: move_result)
    have "behind (move 1 st) (position st + 1) []" using a by (simp add: behind_def ahead_def)
    then have "behind (move 2 ?st1) (position st + 1) [39]"
      using behind_move [of "move 1 st" _ "[]" 39] ahead_move1 [of st 39 "39 # double_quotes s @ 39 # x # post"] a
      by (simp add: move_result behind_def)
    then have "single_loop n (position st + 1) (position st + 2) (move 2 ?st1) =
        Inr (True, (move (int (length (double_quotes s)) + 1) (move 2 ?st1))\<lparr>ndresult := YStr ((r @ ys) @ [39] @ s)\<rparr>)"
      using Cons.prems(7) by (intro Cons.IH [OF pr(2) a2 Cons.prems(3)]) (simp_all add: json_unit_def)
    then show ?thesis using p True capture_behind [OF Cons.prems(4,5,6)]
      by (subst single_loop.simps) (simp add: Let_def move_result add.commute add.left_commute)
  next
    case False
    have a: "ahead st (c # double_quotes s @ 39 # x # post)" using Cons.prems(2) False by simp
    have "single_loop n a (position st + 1) (move 1 st) =
        Inr (True, (move (int (length (double_quotes s)) + 1) (move 1 st))\<lparr>ndresult := YStr (r @ (ys @ [c]) @ s)\<rparr>)"
      by (rule Cons.IH [OF pr(2) ahead_move1 [OF a] Cons.prems(3) behind_move [OF Cons.prems(4) a]])
        (use Cons.prems f in simp_all)
    moreover have "peek st 0 = uint c" "uint c \<noteq> 39" using a False by (auto simp: peek_Cons word_uint_eq_iff)
    ultimately show ?thesis using f False Cons.prems(7)
      by (subst single_loop.simps) (simp add: Let_def add.commute)
  qed
qed

lemma single_quoted_reads:
  assumes "ahead st (39 # double_quotes s @ 39 # x # post)" "lineStart st \<le> position st" "x \<noteq> 39"
    "list_all (\<lambda>c. isPrintable (uint c)) s"
  shows "readSingleQuotedScalar n st = Inr (True, st\<lparr>kind := Some Scalar, ndresult := YStr s,
    position := position st + int (length (double_quotes s)) + 2\<rparr>)"
proof -
  let ?st = "move 1 (st\<lparr>kind := Some Scalar, ndresult := YStr []\<rparr>)"
  have "ahead ?st (double_quotes s @ 39 # x # post)"
    using ahead_move1 [OF assms(1)] by (simp add: ahead_def move_def)
  then have "single_loop n (position ?st) (position ?st) ?st =
      Inr (True, (move (int (length (double_quotes s)) + 1) ?st)\<lparr>ndresult := YStr ([] @ [] @ s)\<rparr>)"
    using assms(1,2) by (intro single_loop_reads [OF assms(4) _ assms(3)]) (auto simp: behind_def ahead_def)
  moreover have "peek st 0 = 39" using assms(1) by (simp add: peek_Cons)
  ultimately show ?thesis by (simp add: readSingleQuotedScalar_def Let_def move_def)
qed

end
