(* ===== verification/Yaml_Schema_Laws.thy ===== *)
theory Yaml_Schema_Laws
  imports Yaml_Schema
begin

text \<open>
  The compilation of schemas: the list of a schema holds one type per tag and kind, the one declared
  last; the lists of the predefined schemas follow.
\<close>

section \<open>The last declaration of each tag and kind\<close>

definition type_key :: "ytype \<Rightarrow> jstr \<times> ykind" where
  "type_key t = (ty_tag t, ty_kind t)"

lemma same_type_key: "same_type a b \<longleftrightarrow> type_key a = type_key b"
  by (simp add: same_type_def type_key_def)

primrec keep_last :: "ytype list \<Rightarrow> ytype list" where
  "keep_last [] = []"
| "keep_last (t # ts) = (if type_key t \<in> type_key ` set ts then keep_last ts else t # keep_last ts)"

text \<open>The types of a schema in the order of their declaration, included schemas first.\<close>

fun declared :: "schema \<Rightarrow> bool \<Rightarrow> ytype list" where
  "declared (Schema inc imp ex) b = concat (map (\<lambda>s. declared s b) inc) @ (if b then imp else ex)"

abbreviation one_per_key :: "ytype list \<Rightarrow> bool" where
  "one_per_key ts \<equiv> distinct (map type_key ts)"

lemma keep_last_keys: "type_key ` set (keep_last ts) = type_key ` set ts"
  by (induction ts) auto

lemma keep_last_subset: "set (keep_last ts) \<subseteq> set ts"
  by (induction ts) auto

lemma keep_last_distinct: "one_per_key (keep_last ts)"
proof (induction ts)
  case (Cons t ts)
  then show ?case using keep_last_keys [of ts] by auto
qed simp

lemma keep_last_id: "one_per_key ts \<Longrightarrow> keep_last ts = ts"
  by (induction ts) auto

lemma keep_last_append:
  "keep_last (xs @ ys) = filter (\<lambda>t. type_key t \<notin> type_key ` set ys) (keep_last xs) @ keep_last ys"
  by (induction xs) auto

lemma keep_last_idem: "keep_last (keep_last xs @ ys) = keep_last (xs @ ys)"
  by (simp add: keep_last_append keep_last_id [OF keep_last_distinct])

text \<open>The indices that remain.\<close>

definition last_indices :: "ytype list \<Rightarrow> nat set" where
  "last_indices xs = {i. \<forall>j. i < j \<longrightarrow> j < length xs \<longrightarrow> type_key (xs ! j) \<noteq> type_key (xs ! i)}"

lemma last_indices_Cons:
  "{i. Suc i \<in> last_indices (t # ts)} = last_indices ts" "0 \<in> last_indices (t # ts) \<longleftrightarrow> type_key t \<notin> type_key ` set ts"
proof -
  show "{i. Suc i \<in> last_indices (t # ts)} = last_indices ts"
    by (auto simp: last_indices_def nth_Cons' dest: spec [of _ "Suc _"] split: if_splits)
  have "0 \<in> last_indices (t # ts) \<longleftrightarrow> (\<forall>j < length ts. type_key (ts ! j) \<noteq> type_key t)"
    by (auto simp: last_indices_def nth_Cons' dest: spec [of _ "Suc _"])
  also have "\<dots> \<longleftrightarrow> (\<forall>x \<in> set ts. type_key x \<noteq> type_key t)" by (simp add: all_set_conv_all_nth)
  finally show "0 \<in> last_indices (t # ts) \<longleftrightarrow> type_key t \<notin> type_key ` set ts"
    by (metis imageE image_eqI)
qed

lemma keep_last_nths: "keep_last ts = nths ts (last_indices ts)"
  by (induction ts) (simp_all add: nths_Cons last_indices_Cons)

section \<open>The loop over the own types\<close>

lemma drop_indices_nths: "drop_indices xs is = nths xs (- set is)"
  by (simp add: drop_indices_def nths_def split_def)

text \<open>An index is excluded when a later own type has the same key.\<close>

definition overridden :: "nat \<Rightarrow> ytype list \<Rightarrow> nat set" where
  "overridden n xs = {i. \<exists>j. n \<le> j \<and> i < j \<and> j < length xs \<and> type_key (xs ! i) = type_key (xs ! j)}"

lemma overridden_step:
  "overridden n xs = {i. i < n \<and> n < length xs \<and> type_key (xs ! i) = type_key (xs ! n)} \<union> overridden (Suc n) xs"
proof (rule set_eqI)
  fix i
  show "i \<in> overridden n xs \<longleftrightarrow>
      i \<in> {i. i < n \<and> n < length xs \<and> type_key (xs ! i) = type_key (xs ! n)} \<union> overridden (Suc n) xs"
    unfolding overridden_def mem_Collect_eq Un_iff by (metis Suc_leD Suc_leI le_neq_implies_less order_refl)
qed

lemma push_types_spec:
  "fst (push_types ts res ex) = res @ ts \<and>
   set (snd (push_types ts res ex)) = set ex \<union> overridden (length res) (res @ ts)"
proof (induction ts arbitrary: res ex)
  case Nil
  show ?case by (auto simp: overridden_def)
next
  case (Cons t ts)
  let ?new = "filter (\<lambda>i. same_type (res ! i) t) [0..<length res]"
  have "overridden (length res) ((res @ [t]) @ ts) =
      {i. i < length res \<and> type_key (((res @ [t]) @ ts) ! i) = type_key (((res @ [t]) @ ts) ! length res)} \<union>
      overridden (Suc (length res)) ((res @ [t]) @ ts)"
    by (subst overridden_step) auto
  also have "{i. i < length res \<and> type_key (((res @ [t]) @ ts) ! i) = type_key (((res @ [t]) @ ts) ! length res)} = set ?new"
    by (auto simp: same_type_key nth_append)
  finally have o: "overridden (length res) ((res @ [t]) @ ts) =
      set ?new \<union> overridden (Suc (length res)) ((res @ [t]) @ ts)" .
  have ih: "fst (push_types ts (res @ [t]) (ex @ ?new)) = (res @ [t]) @ ts"
    "set (snd (push_types ts (res @ [t]) (ex @ ?new))) = set (ex @ ?new) \<union> overridden (Suc (length res)) ((res @ [t]) @ ts)"
    using Cons.IH [of "res @ [t]" "ex @ ?new"] by simp_all
  have "res @ t # ts = (res @ [t]) @ ts" by simp
  then show ?case unfolding push_types.simps using ih o by (simp only: set_append Un_assoc)
qed

lemma own_types_keep_last:
  assumes "one_per_key res"
  shows "(let (r, ex) = push_types ts res [] in drop_indices r ex) = keep_last (res @ ts)"
proof -
  have "i \<notin> overridden (length res) (res @ ts) \<longleftrightarrow> i \<in> last_indices (res @ ts)" if "i < length (res @ ts)" for i
  proof -
    have "type_key (res ! i) \<noteq> type_key (res ! j)" if "i < j" "j < length res" for j
      using assms that by (metis (no_types, lifting) distinct_conv_nth length_map nat_neq_iff nth_map order.strict_trans)
    then have "\<not> (i < j \<and> j < length res \<and> type_key ((res @ ts) ! i) = type_key ((res @ ts) ! j))" for j
      by (auto simp: nth_append)
    then show ?thesis unfolding overridden_def last_indices_def by (auto simp: not_less) (metis not_le)+
  qed
  then have m: "i < length (res @ ts) \<Longrightarrow> (i \<in> - overridden (length res) (res @ ts)) = (i \<in> last_indices (res @ ts))" for i
    by blast
  have "nths (res @ ts) (- overridden (length res) (res @ ts)) = nths (res @ ts) (last_indices (res @ ts))"
    unfolding nths_def by (intro arg_cong [where f = "map fst"] filter_cong refl m) (auto simp: in_set_zip)
  then show ?thesis
    using push_types_spec [of ts res "[]"] by (simp add: split_def drop_indices_nths keep_last_nths)
qed

lemma compileList_keep_last: "one_per_key res \<Longrightarrow> compileList s b res = keep_last (res @ declared s b)"
proof (induction s b res rule: compileList.induct)
  case (1 inc imp ex b res)
  have "foldl (\<lambda>r s. compileList s b r) (keep_last r) ss = keep_last (r @ concat (map (\<lambda>s. declared s b) ss))"
    if "set ss \<subseteq> set inc" for r ss
    using that
  proof (induction ss arbitrary: r)
    case (Cons s ss)
    have "compileList s b (keep_last r) = keep_last (r @ declared s b)"
      using 1(1) [of s "keep_last r"] Cons.prems keep_last_distinct by (simp add: keep_last_idem)
    then show ?case using Cons by simp
  qed simp
  from this [of inc res] 1(2)
  have f: "foldl (\<lambda>r s. compileList s b r) res inc = keep_last (res @ concat (map (\<lambda>s. declared s b) inc))"
    by (simp add: keep_last_id)
  have "compileList (Schema inc imp ex) b res =
      (let (r, e) = push_types (if b then imp else ex) (keep_last (res @ concat (map (\<lambda>s. declared s b) inc))) [] in drop_indices r e)"
    by (simp only: compileList.simps f Let_def)
  also have "\<dots> = keep_last (keep_last (res @ concat (map (\<lambda>s. declared s b) inc)) @ (if b then imp else ex))"
    by (rule own_types_keep_last [OF keep_last_distinct])
  finally show ?case by (simp only: keep_last_idem append_assoc declared.simps)
qed

text \<open>C22: compiling a schema gives the declared types in the order of their declaration, included schemas
  first, with only the last one of each tag and kind, so that a tag and a kind name at most one type.\<close>

theorem compileSchema_last_declared:
  "compiledImplicit (compileSchema s) = keep_last (declared s True) \<and>
   compiledExplicit (compileSchema s) = keep_last (declared s False) \<and>
   distinct (map type_key (compiledImplicit (compileSchema s))) \<and>
   distinct (map type_key (compiledExplicit (compileSchema s)))"
  by (simp add: compileSchema_def Let_def compileList_keep_last keep_last_distinct)

section \<open>The predefined schemas\<close>

lemma type_keys:
  "type_key type_null = (yaml_tag ''null'', Scalar)" "type_key type_bool = (yaml_tag ''bool'', Scalar)"
  "type_key type_int = (yaml_tag ''int'', Scalar)" "type_key type_float = (yaml_tag ''float'', Scalar)"
  "type_key type_timestamp = (yaml_tag ''timestamp'', Scalar)" "type_key type_merge = (yaml_tag ''merge'', Scalar)"
  "type_key type_str = (yaml_tag ''str'', Scalar)" "type_key type_seq = (yaml_tag ''seq'', Sequence)"
  "type_key type_map = (yaml_tag ''map'', Mapping)" "type_key type_binary = (yaml_tag ''binary'', Scalar)"
  "type_key type_omap = (yaml_tag ''omap'', Sequence)" "type_key type_pairs = (yaml_tag ''pairs'', Sequence)"
  "type_key type_set = (yaml_tag ''set'', Mapping)" "type_key type_undefined = (yaml_tag ''js/undefined'', Scalar)"
  "type_key type_regexp = (yaml_tag ''js/regexp'', Scalar)" "type_key (type_function e f) = (yaml_tag ''js/function'', Scalar)"
  by (simp_all add: type_key_def plain_type_def type_null_def type_bool_def type_int_def type_float_def
      type_timestamp_def type_merge_def type_str_def type_seq_def type_map_def type_binary_def type_omap_def
      type_pairs_def type_set_def type_undefined_def type_regexp_def type_function_def)

lemma js_inj: "js s = js t \<longleftrightarrow> s = t"
proof -
  have "(word_of_nat (of_char a) :: code_unit) = word_of_nat (of_char b) \<longleftrightarrow> a = b" for a b :: char
  proof -
    have "(of_char c :: nat) < 256" for c :: char by (rule nat_of_char_less_256)
    then have "unat (word_of_nat (of_char c) :: code_unit) = of_char c" for c :: char
      by (simp add: unsigned_of_nat take_bit_nat_eq_self less_trans [of _ 256 65536])
    then show ?thesis by (metis of_char_eq_iff)
  qed
  then show ?thesis unfolding js_def by (metis (no_types, lifting) inj_def map_injective)
qed

lemma yaml_tag_inj: "yaml_tag s = yaml_tag t \<longleftrightarrow> s = t"
  by (simp add: yaml_tag_def js_inj)

definition implicit_types :: "ytype list" where
  "implicit_types = [type_null, type_bool, type_int, type_float, type_timestamp, type_merge]"

definition safe_explicit_types :: "ytype list" where
  "safe_explicit_types = [type_str, type_seq, type_map, type_binary, type_omap, type_pairs, type_set]"

lemmas schema_defs = DEFAULT_FULL_SCHEMA_def DEFAULT_SAFE_SCHEMA_def CORE_SCHEMA_def JSON_SCHEMA_def FAILSAFE_SCHEMA_def

lemma compiled_lists:
  "compiledImplicit (compileSchema DEFAULT_SAFE_SCHEMA) = implicit_types"
  "compiledImplicit (compileSchema (DEFAULT_FULL_SCHEMA e f)) = implicit_types"
  "compiledExplicit (compileSchema DEFAULT_SAFE_SCHEMA) = safe_explicit_types"
  "compiledExplicit (compileSchema (DEFAULT_FULL_SCHEMA e f)) =
     safe_explicit_types @ [type_undefined, type_regexp, type_function e f]"
proof -
  have i: "one_per_key implicit_types" by (simp add: implicit_types_def type_keys yaml_tag_inj)
  have x: "one_per_key (safe_explicit_types @ [type_undefined, type_regexp, type_function e f])"
    by (simp add: safe_explicit_types_def type_keys yaml_tag_inj)
  then have s: "one_per_key safe_explicit_types" by simp
  note k = keep_last_id [OF i] keep_last_id [OF x] keep_last_id [OF s]
  show "compiledImplicit (compileSchema DEFAULT_SAFE_SCHEMA) = implicit_types"
    "compiledImplicit (compileSchema (DEFAULT_FULL_SCHEMA e f)) = implicit_types"
    "compiledExplicit (compileSchema DEFAULT_SAFE_SCHEMA) = safe_explicit_types"
    "compiledExplicit (compileSchema (DEFAULT_FULL_SCHEMA e f)) =
       safe_explicit_types @ [type_undefined, type_regexp, type_function e f]"
    using k by (simp_all add: compileSchema_def Let_def compileList_keep_last schema_defs implicit_types_def safe_explicit_types_def
        del: keep_last.simps compileList.simps)
qed

text \<open>A type that the table of a schema holds is one of its types.\<close>

lemma compileMap_mem: "compileMap imp ex k t = Some ty \<Longrightarrow> ty \<in> set (imp @ ex) \<and> ty_tag ty = t"
proof -
  have "foldl (\<lambda>r ty. if ty_tag ty = t \<and> p ty then Some ty else r) r0 ts = Some ty \<Longrightarrow>
      r0 = Some ty \<or> ty \<in> set ts \<and> ty_tag ty = t" for r0 ts and p :: "ytype \<Rightarrow> bool"
    by (induction ts arbitrary: r0) (fastforce split: if_splits)+
  from this [of "\<lambda>ty. k = None \<or> k = Some (ty_kind ty)" None "imp @ ex"]
  show "compileMap imp ex k t = Some ty \<Longrightarrow> ?thesis" by (simp add: compileMap_def)
qed

end
