(* ===== verification/Yaml_Top_Scalar.thy ===== *)
theory Yaml_Top_Scalar
  imports Yaml_Quote_Laws Yaml_Schema_Laws
begin

text \<open>
  A document that is one scalar: \<open>load\<close> runs the reader of that scalar and returns what it has read.
  The section at the end says what \<open>dump\<close> does with a string.
\<close>

section \<open>Nothing to skip\<close>

lemma scan_stay: "ahead st (x # xs) \<Longrightarrow> \<not> p (uint x) \<Longrightarrow> scan p st = st"
  by (simp add: ahead_def scan_def move_def)

lemma skip_blank_stay: "ahead st (x # xs) \<Longrightarrow> \<not> is_WHITE_SPACE (uint x) \<Longrightarrow> uint x \<noteq> 35 \<Longrightarrow> skip_blank b st = st"
  by (simp add: skip_blank_def scan_stay peek_Cons)

lemma skip_stay:
  assumes "ahead st (x # xs)" "\<not> is_WS_OR_EOL (uint x)" "uint x \<noteq> 35"
  shows "skipSeparationSpace b c st = Inr (0, st)"
proof -
  have "\<not> is_WHITE_SPACE (uint x)" "\<not> is_EOL (uint x)" using assms(2) by (auto simp: is_WS_OR_EOL_def is_WHITE_SPACE_def is_EOL_def)
  then have "skip_lines b 0 st = Inr (0, st)"
    using assms by (subst skip_lines.simps) (simp add: skip_blank_stay peek_Cons)
  then show ?thesis by (simp add: skipSeparationSpace_def)
qed

text \<open>The line feed at the end of the input.\<close>

definition next_line :: "lstate \<Rightarrow> lstate" where
  "next_line st = st\<lparr>position := position st + 1, line := line st + 1, lineStart := position st + 1, lineIndent := 0\<rparr>"

lemma skip_last_line:
  assumes "ahead st [10, 0]"
  shows "skipSeparationSpace b (- 1) st = Inr (1, next_line st)"
proof -
  have p: "peek st 0 = 10" using assms by (simp add: peek_Cons)
  have s1: "skip_blank b st = st" using assms by (simp add: skip_blank_stay is_WHITE_SPACE_def)
  have r: "readLineBreak st = Inr ((move 1 st)\<lparr>line := line st + 1, lineStart := position st + 1\<rparr>)"
    using p by (simp add: readLineBreak_def Let_def)
  let ?st2 = "(move 1 st)\<lparr>line := line st + 1, lineStart := position st + 1\<rparr>"
  have a: "ahead ?st2 [0]" using ahead_move1 [OF assms] by (simp add: ahead_def)
  have i: "skip_indent ?st2 = next_line st"
    using scan_stay [OF a, of "\<lambda>c. c = 32"] by (simp add: skip_indent_def Let_def next_line_def move_def)
  have "ahead (next_line st) [0]" using a by (simp add: ahead_def next_line_def move_def)
  then have e: "skip_lines b 1 (next_line st) = Inr (1, next_line st)"
    by (subst skip_lines.simps) (simp add: peek_Cons)
  have "skip_lines b 0 st = Inr (1, next_line st)"
    by (subst skip_lines.simps) (simp add: s1 p is_EOL_def r i e)
  then show ?thesis by (simp add: skipSeparationSpace_def)
qed

section \<open>Composing a scalar\<close>

text \<open>The characters that start none of the other kinds of node.\<close>

definition scalar_start :: "code_unit \<Rightarrow> bool" where
  "scalar_start x \<longleftrightarrow> \<not> is_WS_OR_EOL (uint x) \<and> uint x \<notin> {0, 33, 35, 37, 38, 42, 45, 58, 63, 91, 123, 65279}"

definition fresh :: "lstate \<Rightarrow> lstate" where
  "fresh st = st\<lparr>tag := None, anchor := None, kind := None, ndresult := YNull\<rparr>"

lemma fresh_simps [simp]: "position (fresh st) = position st" "input (fresh st) = input st" "line (fresh st) = line st"
  "lineStart (fresh st) = lineStart st" "ahead (fresh st) xs = ahead st xs" "peek (fresh st) k = peek st k"
  "tag (fresh st) = None" "anchor (fresh st) = None" "heap (fresh st) = heap st" "lineIndent (fresh st) = lineIndent st"
  "typeSchema (fresh st) = typeSchema st"
  by (simp_all add: fresh_def ahead_def peek_def)

lemma node_start_scalar:
  assumes "ahead st (x # xs)" "scalar_start x"
  shows "node_start i ctx False c st = Inr ((1, (ctx = CONTEXT_BLOCK_OUT \<or> ctx = CONTEXT_BLOCK_IN) \<and> c), fresh st)"
proof -
  have "peek (fresh st) 0 \<noteq> 33" "peek (fresh st) 0 \<noteq> 38" using assms by (auto simp: peek_Cons scalar_start_def)
  then have "or_else readTagProperty readAnchorProperty (fresh st) = Inr (False, fresh st)"
    by (simp add: or_else_def readTagProperty_def readAnchorProperty_def)
  then show ?thesis unfolding node_start_def Let_def fresh_def [symmetric] by (simp add: numeral_3_eq_3)
qed

lemma compose_flow_scalar:
  assumes "ahead st (x # xs)" "scalar_start x" "scalar_content i CONTEXT_FLOW_OUT (fresh st) = Inr (True, st1)"
    "resolve_node st1 = Inr st2"
  shows "composeNode (Suc n) i CONTEXT_FLOW_OUT False True st = Inr (True, st2)"
proof -
  have "peek (fresh st) 0 \<noteq> 91" "peek (fresh st) 0 \<noteq> 123" using assms(1,2) by (auto simp: peek_Cons scalar_start_def)
  then show ?thesis
    using assms(3,4)
    by (simp add: compose_step_def node_start_scalar [OF assms(1,2)] node_content_def or_else_def guarded_def readFlowCollection_def)
qed

text \<open>In block context a sequence and a mapping are tried first, and leave an empty array and an empty object behind.\<close>

definition tried :: "lstate \<Rightarrow> lstate" where
  "tried st = (fresh st)\<lparr>heap := heap st @ [YArr [], YObj []]\<rparr>"

lemma compose_block_scalar:
  assumes "ahead st (x # xs)" "scalar_start x"
    "composeNode n 0 CONTEXT_FLOW_OUT False True (tried st) = Inr (True, st2)"
    "line st2 \<noteq> line st \<or> (ahead st2 (y # ys) \<and> \<not> is_WHITE_SPACE (uint y) \<and> uint y \<noteq> 58)" "0 < n"
  shows "composeNode (Suc n) (- 1) CONTEXT_BLOCK_OUT False True st = Inr (True, st2\<lparr>tag := None, anchor := None\<rparr>)"
proof -
  let ?s1 = "(fresh st)\<lparr>heap := heap st @ [YArr []]\<rparr>"
  obtain m where n: "n = Suc m" using assms(5) by (cases n) auto
  have p: "peek (fresh st) 0 = uint x" using assms(1) by (simp add: peek_Cons)
  then have ps: "peek ?s1 0 = uint x" "peek (tried st) 0 = uint x" by (simp_all add: peek_def tried_def)
  have x: "uint x \<noteq> 45" "uint x \<noteq> 63" "uint x \<noteq> 58" "uint x \<noteq> 0" using assms(2) by (auto simp: scalar_start_def)
  have sq: "readBlockSequence n cn b (fresh st) = Inr (False, ?s1)" for cn b
    using ps(1) x(1) by (simp add: readBlockSequence_def new_cell_def set_anchor_def n fresh_def)
  have t: "set_anchor ((fresh st)\<lparr>heap := heap st @ [YArr [], YObj []]\<rparr>) v = tried st" for v
    by (simp add: set_anchor_def tried_def fresh_def)
  have "implicit_head (composeNode n) 0 (length (heap st) + 1) bmap_start (tried st) = Inr (NotMapping, st2)"
    using assms(3,4) scan_stay [of st2 y ys is_WHITE_SPACE]
    by (auto simp: implicit_head_def bmap_start_def peek_Cons tried_def)
  then have "mapping_head (composeNode n) 0 (length (heap st) + 1) bmap_start (tried st) = Inr (NotMapping, st2)"
    using ps(2) x by (simp add: mapping_head_def)
  then have mp: "readBlockMapping n (composeNode n) b 0 ?s1 = Inr (True, st2\<lparr>tag := None, anchor := None\<rparr>)" for b
    using ps(2) x by (simp add: readBlockMapping_def new_cell_def t n)
  show ?thesis
    by (simp add: compose_step_def node_start_scalar [OF assms(1,2)] node_content_def or_else_def guarded_def sq mp resolve_node_def)
qed

section \<open>A document with one scalar\<close>

lemma skip_space_stay:
  assumes "ahead st (x # xs)" "\<not> is_WS_OR_EOL (uint x)" "uint x \<noteq> 35"
  shows "skip_space c st = Inr st"
  using skip_stay [OF assms] by (simp add: skip_space_def)

text \<open>After the scalar the position is in front of the last line feed or behind it.\<close>

lemma readDocument_scalar:
  assumes "ahead st (x # xs)" "scalar_start x" "lineIndent st = 0" "\<not> legacy st" "0 < n"
    "composeNode n (- 1) CONTEXT_BLOCK_OUT False True (st\<lparr>version := None, checkLineBreaks := False, tagMap := [], anchorMap := []\<rparr>)
       = Inr (True, st2)"
    "checkLineBreaks st2 = False"
    "ahead st2 [10, 0] \<or> (ahead st2 [0] \<and> lineStart st2 = position st2)"
    "inputLength st2 = int (length (input st2)) - 1"
  obtains st3 where "readDocument n st = Inr st3" "documents st3 = documents st2 @ [ndresult st2]" "heap st3 = heap st2"
    "position st3 = inputLength st3"
proof -
  let ?st = "st\<lparr>version := None, checkLineBreaks := False, tagMap := [], anchorMap := []\<rparr>"
  obtain m where n: "n = Suc m" using assms(5) by (cases n) auto
  have a: "ahead ?st (x # xs)" using assms(1) by (simp add: ahead_def)
  have x: "\<not> is_WS_OR_EOL (uint x)" "uint x \<noteq> 35" "uint x \<noteq> 0" "uint x \<noteq> 37" "uint x \<noteq> 45"
    using assms(2) by (auto simp: scalar_start_def)
  have k: "skip_space c ?st = Inr ?st" for c by (rule skip_space_stay [OF a x(1,2)])
  have p: "peek ?st 0 = uint x" using a by (simp add: peek_Cons)
  have d: "directive_loop n False ?st = Inr (False, ?st)" using p x k by (simp add: n)
  have s: "document_start False ?st = Inr ?st" using p x by (simp add: document_start_def)
  define st5 where "st5 = (if ahead st2 [10, 0] then next_line st2 else st2)"
  have sk: "skip_space (- 1) st2 = Inr st5"
  proof (cases "ahead st2 [10, 0]")
    case True
    then show ?thesis using skip_last_line [OF True] by (simp add: skip_space_def st5_def)
  next
    case False
    then have "ahead st2 [0]" using assms(8) by simp
    then show ?thesis using False by (simp add: st5_def skip_space_stay is_WS_OR_EOL_def)
  qed
  have e: "ahead st5 [0]" "lineStart st5 = position st5" "input st5 = input st2" "checkLineBreaks st5 = False"
    "documents st5 = documents st2" "ndresult st5 = ndresult st2" "heap st5 = heap st2" "inputLength st5 = inputLength st2"
    using assms(7,8) ahead_move1 [of st2 10] by (auto simp: st5_def next_line_def ahead_def)
  have len: "position st5 = inputLength st5"
  proof -
    have "drop (nat (position st5)) (input st5) = [0]" "0 \<le> position st5" using e(1) by (auto simp: ahead_def)
    then have "length (input st5) - nat (position st5) = 1" using length_drop [of "nat (position st5)" "input st5"] by simp
    then have "int (length (input st2)) - position st5 = 1" using e(3) \<open>0 \<le> position st5\<close> by simp
    then show ?thesis using assms(9) e(8) by simp
  qed
  let ?st3 = "st5\<lparr>documents := documents st5 @ [ndresult st5]\<rparr>"
  have "peek ?st3 0 = 0" using e(1) by (simp add: peek_def ahead_def flip: peek_def) (simp add: peek_Cons ahead_def)
  then have "document_end (position st) st5 = Inr ?st3"
    using e(4) len by (simp add: document_end_def testDocumentSeparator_def)
  then have "readDocument n st = Inr ?st3"
    using assms(3,4,6) d k s sk by (simp add: readDocument_def Let_def)
  then show ?thesis using that e len by simp
qed

text \<open>The state in which the node of the only document is composed.\<close>

definition doc_state :: "load_env \<Rightarrow> jstr \<Rightarrow> lstate" where
  "doc_state env t = (loadState env t no_load_options)\<lparr>input := t @ [0]\<rparr>"

lemma doc_state_simps [simp]:
  "input (doc_state env t) = t @ [0]" "position (doc_state env t) = 0" "lineStart (doc_state env t) = 0"
  "lineIndent (doc_state env t) = 0" "line (doc_state env t) = 0" "inputLength (doc_state env t) = int (length t)"
  "heap (doc_state env t) = []" "documents (doc_state env t) = []" "legacy (doc_state env t) = False"
  "typeSchema (doc_state env t) = compileSchema (le_full env)" "anchor (doc_state env t) = None"
  by (simp_all add: doc_state_def loadState_def no_load_options_def)

lemma doc_state_reset: "(doc_state env t)\<lparr>version := None, checkLineBreaks := False, tagMap := [], anchorMap := []\<rparr> = doc_state env t"
  by (simp add: doc_state_def loadState_def no_load_options_def)

text \<open>
  \<open>load\<close> of a text that is one scalar and a line feed, in terms of the flow-context composition that
  reads it.
\<close>

lemma load_one_node:
  assumes "t = x # xs" "last t = 10" "xs \<noteq> []" "scalar_start x"
    "composeNode (2 * length t + 10) (- 1) CONTEXT_BLOCK_OUT False True (doc_state env t) = Inr (True, st2)"
    "input st2 = t @ [0]" "inputLength st2 = int (length t)" "documents st2 = []" "\<not> checkLineBreaks st2"
    "ahead st2 [10, 0] \<or> (ahead st2 [0] \<and> lineStart st2 = position st2)"
  shows "load env t no_load_options = Inr (ndresult st2, heap st2)"
proof -
  let ?st = "doc_state env t" and ?n = "2 * length t + 10"
  have a: "ahead ?st (x # xs @ [0])" using assms(1) by (simp add: ahead_def)
  have x: "x \<noteq> 65279" "uint x \<noteq> 32" using assms(4) by (auto simp: scalar_start_def is_WS_OR_EOL_def)
  have prep: "prepare_input t = t" using assms(1,2) x(1) by (simp add: prepare_input_def Let_def)
  have start: "load_start env t no_load_options = ?st"
    using scan_stay [OF a, of "\<lambda>c. c = 32"] x(2) by (simp add: load_start_def Let_def doc_state_def loadState_def)
  have "composeNode ?n (- 1) CONTEXT_BLOCK_OUT False True
      (?st\<lparr>version := None, checkLineBreaks := False, tagMap := [], anchorMap := []\<rparr>) = Inr (True, st2)"
    using assms(5) by (simp only: doc_state_reset)
  then obtain st3 where st3: "readDocument ?n ?st = Inr st3" "documents st3 = documents st2 @ [ndresult st2]"
    "heap st3 = heap st2" "position st3 = inputLength st3"
    by (rule readDocument_scalar [OF a assms(4), rotated 3]) (use assms(6-10) in auto)
  have "1 < length t" using assms(1,3) by (cases xs) simp_all
  then have "document_loop (Suc (Suc k)) ?n ?st = Inr st3" for k using st3(1,4) by simp
  from this [of "2 * length t + 8"] have "document_loop ?n ?n ?st = Inr st3" by (simp add: numeral_eq_Suc)
  then show ?thesis
    using st3(2,3) assms(8) by (simp add: load_def loadDocuments_def prep Let_def load_bound_def start)
qed

lemma load_one_scalar:
  assumes "t = x # xs" "last t = 10" "xs \<noteq> []" "scalar_start x"
    "composeNode (2 * length t + 9) 0 CONTEXT_FLOW_OUT False True (tried (doc_state env t)) = Inr (True, st2)"
    "input st2 = t @ [0]" "inputLength st2 = int (length t)" "documents st2 = []" "\<not> checkLineBreaks st2"
    "(ahead st2 [10, 0] \<and> line st2 = 0) \<or> (ahead st2 [0] \<and> lineStart st2 = position st2 \<and> line st2 \<noteq> 0)"
  shows "load env t no_load_options = Inr (ndresult st2, heap st2)"
proof -
  let ?st2 = "st2\<lparr>tag := None, anchor := None\<rparr>"
  have a: "ahead (doc_state env t) (x # xs @ [0])" using assms(1) by (simp add: ahead_def)
  have "composeNode (Suc (2 * length t + 9)) (- 1) CONTEXT_BLOCK_OUT False True (doc_state env t) = Inr (True, ?st2)"
    by (rule compose_block_scalar [OF a assms(4,5), of 10 "[0]"]) (use assms(10) in \<open>auto simp: is_WHITE_SPACE_def\<close>)
  then have "composeNode (2 * length t + 10) (- 1) CONTEXT_BLOCK_OUT False True (doc_state env t) = Inr (True, ?st2)"
    by (simp add: numeral_eq_Suc)
  from load_one_node [OF assms(1-4) this] assms(6-10) show ?thesis by (auto simp: ahead_def)
qed

section \<open>Dumping a string\<close>

text \<open>No type claims a string, which is written by \<open>writeScalar\<close> at level 0.\<close>

definition string_state :: "schema \<Rightarrow> dump_options \<Rightarrow> dstate" where
  "string_state full opts = \<lparr>d_schema = compileSchema full, d_indent = max 1 (or_number (o_indent opts) 2),
     d_skipInvalid = o_skipInvalid opts, d_flowLevel = (case o_flowLevel opts of None \<Rightarrow> - 1 | Some n \<Rightarrow> n), d_styleMap = [],
     d_sortKeys = o_sortKeys opts, d_lineWidth = or_number (o_lineWidth opts) 80, d_noRefs = o_noRefs opts,
     d_noCompatMode = o_noCompatMode opts, d_condenseFlow = o_condenseFlow opts, d_tag = None, d_dump = YStr [],
     d_duplicates = [], d_usedDuplicates = []\<rparr>"

lemma no_type_for_string:
  assumes "ty \<in> set (implicit_types @ safe_explicit_types @ [type_undefined, type_regexp, type_function e f])"
  shows "\<not> (case ty_predicate ty of None \<Rightarrow> False | Some p \<Rightarrow> p (YStr s))"
  using assms
  by (auto simp: implicit_types_def safe_explicit_types_def plain_type_def type_null_def type_bool_def type_int_def type_float_def
      type_timestamp_def type_merge_def type_str_def type_seq_def type_map_def type_binary_def type_omap_def
      type_pairs_def type_set_def type_undefined_def type_regexp_def type_function_def
      isNull_def isBoolean_def isInteger_def isFloat_def isDate_def isBinary_def isUndefined_def isRegExp_def isFunction_def)

lemma detect_none:
  assumes "\<And>ty. ty \<in> set tys \<Longrightarrow> \<not> (case ty_predicate ty of None \<Rightarrow> False | Some p \<Rightarrow> p v)"
  shows "detect_loop st v b tys = Inr (False, st)"
  using assms by (induction tys) auto

lemma dump_string:
  fixes e f
  defines "full \<equiv> DEFAULT_FULL_SCHEMA e f"
  assumes "o_schema opts = None" "o_styles opts = None"
    "writeScalar ((string_state full opts)\<lparr>d_dump := YStr s\<rparr>) s 0 False = Inr w"
  shows "dump full [] (YStr s) opts = Inr (w @ [10])"
proof -
  let ?st = "string_state full opts" and ?st1 = "(string_state full opts)\<lparr>d_dump := YStr s\<rparr>"
  have st: "dumpState full opts = Inr ?st"
    using assms(2,3) by (simp add: dumpState_def compileStyleMap_def string_state_def)
  have refs: "(if d_noRefs ?st then Inr ?st else getDuplicateReferences (depth_bound []) [] (YStr s) ?st) = Inr ?st"
    by (simp add: getDuplicateReferences_def depth_bound_def inspect_step_def numeral_2_eq_2) (simp add: string_state_def)
  have reset: "?st\<lparr>d_tag := None, d_dump := YStr s\<rparr> = ?st1" by (simp add: string_state_def)
  have det: "detectType ?st1 (YStr s) b = Inr (False, ?st1)" for b
    unfolding detectType_def
    by (rule detect_none, rule no_type_for_string [where e = e and f = f])
      (auto simp: string_state_def full_def compiled_lists split: if_splits)
  have "d_tag ?st1 = None" "d_duplicates ?st1 = []" "dump_text ?st1 = s" by (simp_all add: string_state_def dump_text_def)
  then have "writeNode (depth_bound []) [] ?st 0 (YStr s) True True False = Inr (True, set_dump ?st1 w)"
    using assms(4)
    by (simp add: depth_bound_def numeral_2_eq_2 write_node_step_def reset det write_body_def write_tagged_def explicit_tag_def set_dump_def)
  then show ?thesis by (simp add: dump_def st refs) (simp add: dump_text_def set_dump_def)
qed

end
