(* ===== verification/Yaml_String_Laws.thy ===== *)
theory Yaml_String_Laws
  imports Yaml_Top_Scalar
begin

text \<open>
  Dumping a string and loading the text: the styles that stay on one line.
\<close>

section \<open>Quoted scalars\<close>

lemma tried_simps [simp]: "position (tried st) = position st" "input (tried st) = input st" "line (tried st) = line st"
  "lineStart (tried st) = lineStart st" "ahead (tried st) xs = ahead st xs" "peek (tried st) k = peek st k"
  "tag (tried st) = None" "anchor (tried st) = None" "fresh (tried st) = tried st" "inputLength (tried st) = inputLength st"
  "documents (tried st) = documents st" "checkLineBreaks (tried st) = checkLineBreaks st" "lineIndent (tried st) = lineIndent st"
  "typeSchema (tried st) = typeSchema st" "heap (tried st) = heap st @ [YArr [], YObj []]"
  by (simp_all add: tried_def fresh_def ahead_def peek_def)

lemma doc_state_check [simp]: "checkLineBreaks (doc_state env t) = False"
  by (simp add: doc_state_def loadState_def)

text \<open>A quoted text and a line feed, read in flow context.\<close>

lemma load_quoted:
  assumes "q = 34 \<or> q = 39" "t = q # body @ [q, 10]"
    "or_else (readSingleQuotedScalar 0) (readDoubleQuotedScalar 0) (tried (doc_state env t)) =
       Inr (True, (tried (doc_state env t))\<lparr>kind := Some Scalar, ndresult := YStr s, position := int (length body) + 2\<rparr>)"
  shows "load env t no_load_options = Inr (YStr s, [YArr [], YObj []])"
proof -
  let ?st = "tried (doc_state env t)"
  let ?st2 = "?st\<lparr>kind := Some Scalar, ndresult := YStr s, position := int (length body) + 2\<rparr>"
  have a: "ahead ?st (q # body @ [q, 10, 0])" using assms(2) by (simp add: ahead_def)
  have q: "scalar_start q" using assms(1) by (auto simp: scalar_start_def is_WS_OR_EOL_def)
  have "scalar_content 0 CONTEXT_FLOW_OUT ?st = Inr (True, ?st2)"
    using assms(3) by (simp add: scalar_content_def or_else_def [of "guarded _ _"] guarded_def set_anchor_def)
  moreover have "resolve_node ?st2 = Inr ?st2" by (simp add: resolve_node_def)
  ultimately have "composeNode (Suc n) 0 CONTEXT_FLOW_OUT False True ?st = Inr (True, ?st2)" for n
    by (intro compose_flow_scalar [OF a q]) simp_all
  from this [of "2 * length t + 8"]
  have c: "composeNode (2 * length t + 9) 0 CONTEXT_FLOW_OUT False True ?st = Inr (True, ?st2)" by (simp add: numeral_eq_Suc)
  have e: "ahead ?st2 [10, 0]" using assms(2) by (simp add: ahead_def nat_add_distrib)
  have "load env t no_load_options = Inr (ndresult ?st2, heap ?st2)"
    by (rule load_one_scalar [OF assms(2) _ _ q c]) (use e in \<open>simp_all add: assms(2)\<close>)
  then show ?thesis by simp
qed

lemma load_single:
  assumes "list_all (\<lambda>c. isPrintable (uint c)) s"
  shows "load env (39 # double_quotes s @ [39, 10]) no_load_options = Inr (YStr s, [YArr [], YObj []])"
proof (rule load_quoted [of 39, OF _ refl])
  let ?st = "tried (doc_state env (39 # double_quotes s @ [39, 10]))"
  have "readSingleQuotedScalar 0 ?st = Inr (True, ?st\<lparr>kind := Some Scalar, ndresult := YStr s,
      position := position ?st + int (length (double_quotes s)) + 2\<rparr>)"
    by (rule single_quoted_reads [of _ s 10 "[0]"]) (use assms in \<open>simp_all add: ahead_def\<close>)
  then show "or_else (readSingleQuotedScalar 0) (readDoubleQuotedScalar 0) ?st =
      Inr (True, ?st\<lparr>kind := Some Scalar, ndresult := YStr s, position := int (length (double_quotes s)) + 2\<rparr>)"
    by (simp add: or_else_def)
qed simp

lemma load_double:
  assumes "escaped e s"
  shows "load env (34 # e @ [34, 10]) no_load_options = Inr (YStr s, [YArr [], YObj []])"
proof (rule load_quoted [of 34, OF _ refl])
  let ?st = "tried (doc_state env (34 # e @ [34, 10]))"
  have a: "ahead ?st (34 # e @ 34 # [10, 0])" by (simp add: ahead_def)
  have "readDoubleQuotedScalar 0 ?st = Inr (True, ?st\<lparr>kind := Some Scalar, ndresult := YStr s,
      position := position ?st + int (length e) + 2\<rparr>)"
    by (rule double_quoted_reads [OF assms a]) simp
  moreover have "readSingleQuotedScalar 0 ?st = Inr (False, ?st)"
    using peek_Cons [OF a] by (simp add: readSingleQuotedScalar_def)
  ultimately show "or_else (readSingleQuotedScalar 0) (readDoubleQuotedScalar 0) ?st =
      Inr (True, ?st\<lparr>kind := Some Scalar, ndresult := YStr s, position := int (length e) + 2\<rparr>)"
    by (simp add: or_else_def)
qed simp

section \<open>Plain scalars\<close>

text \<open>What a plain string looks like: no indicator anywhere, and no white space at the end.\<close>

definition plain_text :: "jstr \<Rightarrow> bool" where
  "plain_text s \<longleftrightarrow> s \<noteq> [] \<and> list_all (\<lambda>c. isPlainSafe (uint c)) s \<and> isPlainSafeFirst (uint (hd s)) \<and> \<not> isWhitespace (uint (last s))"

text \<open>Three dots in front of white space or at the end are a document separator.\<close>

definition separator_like :: "jstr \<Rightarrow> bool" where
  "separator_like s \<longleftrightarrow> take 3 s = js ''...'' \<and> (length s = 3 \<or> s ! 3 = 32)"

lemma plain_safe_facts:
  assumes "isPlainSafe (uint (c :: code_unit))"
  shows "uint c \<noteq> 0" "uint c \<noteq> - 1" "uint c \<noteq> 58" "uint c \<noteq> 35" "\<not> is_EOL (uint c)" "is_WHITE_SPACE (uint c) \<longleftrightarrow> c = 32"
  using assms by (auto simp: isPlainSafe_def isPrintable_def is_EOL_def is_WHITE_SPACE_def word_uint_eq_iff)

lemma plain_loop_reads:
  assumes "ahead st (cs @ [10, 0])" "list_all (\<lambda>c. isPlainSafe (uint c)) cs" "cs = [] \<or> last cs \<noteq> 32"
    "\<not> testDocumentSeparator st \<or> lineStart st < position st" "cs = [] \<longrightarrow> lineStart st < position st"
    "lineStart st \<le> position st"
  shows "plain_loop 0 False l a b False st =
    Inr (a, if cs = [] then b else position st + int (length cs), next_line (move (int (length cs)) st))"
  using assms
proof (induction cs arbitrary: st b)
  case Nil
  have "skipSeparationSpace False (- 1) st = Inr (1, next_line st)" using skip_last_line Nil(1) by simp
  moreover have "peek st 0 = 10" using Nil(1) by (simp add: peek_Cons)
  moreover have "peek (next_line st) 0 = 0"
    using ahead_move1 [of st 10 "[0]"] Nil(1) peek_Cons [of "next_line st" 0 "[]"] by (simp add: next_line_def ahead_def)
  then have "plain_loop 0 False m a b True (next_line st) = Inr (a, b, next_line st)" for m
    by (subst plain_loop.simps) (simp add: Let_def)
  ultimately show ?case using Nil(5)
    by (subst plain_loop.simps) (simp add: Let_def plain_stop_def is_EOL_def next_line_def is_FLOW_INDICATOR_def move_def)
next
  case (Cons c cs)
  have c: "isPlainSafe (uint c)" "list_all (\<lambda>c. isPlainSafe (uint c)) cs" using Cons.prems(2) by simp_all
  note f = plain_safe_facts [OF c(1)]
  have p: "peek st 0 = uint c" using Cons.prems(1) by (simp add: peek_Cons)
  have a: "ahead (move 1 st) (cs @ [10, 0])" using ahead_move1 [of st c] Cons.prems(1) by simp
  have "plain_loop 0 False l a b' False (move 1 st) =
      Inr (a, if cs = [] then b' else position (move 1 st) + int (length cs), next_line (move (int (length cs)) (move 1 st)))" for b'
    by (rule Cons.IH [OF a c(2)]) (use Cons.prems in auto)
  moreover have "\<not> plain_stop st False" using p f Cons.prems(4) by (auto simp: plain_stop_def Let_def)
  moreover have "cs = [] \<Longrightarrow> \<not> is_WHITE_SPACE (uint c)" using Cons.prems(3) f(6) by auto
  ultimately show ?case using p f
    by (subst plain_loop.simps) (auto simp: Let_def add.commute)
qed

lemma printable_clean: "list_all (\<lambda>c. isPrintable (uint c)) s \<Longrightarrow> \<not> PATTERN_NON_PRINTABLE s"
proof -
  assume p: "list_all (\<lambda>c. isPrintable (uint c)) s"
  have c: "isPrintable (uint c) \<Longrightarrow> \<not> control_unit c \<and> \<not> high_unit c \<and> \<not> low_unit c" for c
    by (auto simp: isPrintable_def control_unit_def high_unit_def low_unit_def Let_def)
  have "\<not> lone_surrogate s" using p by (induction s rule: lone_surrogate.induct) (auto dest: c)
  then show ?thesis using p c by (auto simp: PATTERN_NON_PRINTABLE_def list_all_iff list_ex_iff)
qed

lemma plain_first_facts:
  assumes "isPlainSafeFirst (uint (x :: code_unit))"
  shows "scalar_start x" "uint x \<notin> {124, 62, 39, 34, 37, 64, 96, 42}" "uint x \<noteq> 93" "uint x \<noteq> 125" "uint x \<noteq> 44"
  using assms by (auto simp: isPlainSafeFirst_def isPrintable_def isWhitespace_def scalar_start_def is_WS_OR_EOL_def)

lemma not_separator:
  assumes "ahead st (s @ [10, 0])" "plain_text s" "\<not> separator_like s"
  shows "\<not> testDocumentSeparator st"
proof
  assume "testDocumentSeparator st"
  then have d: "peek st 0 = 45 \<or> peek st 0 = 46" "peek st 1 = peek st 0" "peek st 2 = peek st 0"
    "peek st 3 = 0 \<or> is_WS_OR_EOL (peek st 3)" by (auto simp: testDocumentSeparator_def Let_def)
  obtain x xs where s: "s = x # xs" "isPlainSafeFirst (uint x)" using assms(2) by (cases s) (auto simp: plain_text_def)
  have p: "nat k < length s + 2 \<Longrightarrow> 0 \<le> k \<Longrightarrow> peek st k = uint ((s @ [10, 0]) ! nat k)" for k
    using peek_ahead [OF assms(1)] by simp
  have x: "uint x = 46" using d(1) p [of 0] s by (auto simp: isPlainSafeFirst_def)
  have "length s \<noteq> 1" "length s \<noteq> 2" using d(2,3) p [of 0] p [of 1] p [of 2] x s(1) by (auto simp: nth_append split: if_splits)
  then have l: "3 \<le> length s" using s(1) by (cases xs; cases "tl xs") auto
  then obtain y z ws where w: "s = x # y # z # ws" using s(1) by (cases xs; cases "tl xs") auto
  have "uint y = 46" "uint z = 46" using d(2,3) p [of 0] p [of 1] p [of 2] x w by simp_all
  then have t: "take 3 s = js ''...''" using x w by (simp add: js_def word_uint_eq_iff)
  show False
  proof (cases ws)
    case Nil
    then show ?thesis using assms(3) t w by (simp add: separator_like_def)
  next
    case (Cons v vs)
    have "isPlainSafe (uint v)" using assms(2) w Cons by (simp add: plain_text_def)
    then have "v = 32" using d(4) p [of 3] w Cons
      by (auto simp: is_WS_OR_EOL_def isPlainSafe_def isPrintable_def word_uint_eq_iff)
    then show ?thesis using assms(3) t w Cons by (simp add: separator_like_def)
  qed
qed

lemma resolve_heap: "ty \<in> set implicit_types \<Longrightarrow> ty_resolve ty h (YStr s) = ty_resolve ty [] (YStr s)"
  by (auto simp: implicit_types_def plain_type_def type_null_def type_bool_def type_int_def type_float_def type_timestamp_def type_merge_def)

text \<open>The plain reader in flow context, when neither quotes nor an alias are ahead.\<close>

lemma scalar_content_plain:
  assumes "readPlainScalar i False st = Inr (True, st2)" "tag st2 = None" "anchor st2 = None"
    "ahead st (x # xs)" "uint x \<notin> {39, 34, 42}"
  shows "scalar_content i CONTEXT_FLOW_OUT st = Inr (True, st2\<lparr>tag := Some (js ''?'')\<rparr>)"
proof -
  have "peek st 0 = uint x" by (rule peek_Cons [OF assms(4)])
  then have "readSingleQuotedScalar i st = Inr (False, st)" "readDoubleQuotedScalar i st = Inr (False, st)" "readAlias st = Inr (False, st)"
    using assms(5) by (auto simp: readSingleQuotedScalar_def readDoubleQuotedScalar_def readAlias_def)
  then show ?thesis
    using assms(1-3) by (simp add: scalar_content_def or_else_def guarded_def set_anchor_def)
qed

lemma load_plain:
  assumes "plain_text s" "\<not> separator_like s" "compiledImplicit (compileSchema (le_full env)) = implicit_types"
    "\<not> list_ex (\<lambda>ty. ty_resolve ty [] (YStr s)) implicit_types"
  shows "load env (s @ [10]) no_load_options = Inr (YStr s, [YArr [], YObj []])"
proof -
  let ?t = "s @ [10]" and ?st = "tried (doc_state env (s @ [10]))"
  obtain x xs where s: "s = x # xs" "isPlainSafeFirst (uint x)" using assms(1) by (cases s) (auto simp: plain_text_def)
  note x = plain_first_facts [OF s(2)]
  have "s \<noteq> []" using s(1) by simp
  have all: "list_all (\<lambda>c. isPlainSafe (uint c)) s" "last s \<noteq> 32" using assms(1) by (auto simp: plain_text_def isWhitespace_def)
  then have pr: "list_all (\<lambda>c. isPrintable (uint c)) s" by (auto simp: list_all_iff isPlainSafe_def)
  have a: "ahead ?st (s @ [10, 0])" by (simp add: ahead_def)
  then have ax: "ahead ?st (x # xs @ [10, 0])" using s(1) by simp
  have p: "peek ?st 0 = uint x" by (rule peek_Cons [OF ax])
  let ?st1 = "?st\<lparr>kind := Some Scalar, ndresult := YStr []\<rparr>"
  let ?st2 = "next_line (move (int (length s)) (?st\<lparr>kind := Some Scalar, ndresult := YStr s\<rparr>))"
  have sep: "\<not> testDocumentSeparator ?st" by (rule not_separator [OF a assms(1,2)])
  then have sep1: "\<not> testDocumentSeparator ?st1" by (simp add: testDocumentSeparator_def peek_def)
  have "plain_loop 0 False 0 0 0 False ?st1 = Inr (0, if s = [] then 0 else position ?st1 + int (length s), next_line (move (int (length s)) ?st1))"
    by (rule plain_loop_reads) (use a all sep1 s(1) in \<open>auto simp: ahead_def\<close>)
  moreover have "plain_start ?st False"
    using x p by (auto simp: plain_start_def Let_def scalar_start_def is_FLOW_INDICATOR_def)
  moreover have "captureSegment (next_line (move (int (length s)) ?st1)) 0 (int (length s)) False = Inr ?st2"
    using printable_clean [OF pr] \<open>s \<noteq> []\<close>
    by (simp add: captureSegment_def Let_def input_slice_def slice_str_def next_line_def add_result_def result_text_def move_def)
  ultimately have r: "readPlainScalar 0 False ?st = Inr (True, ?st2)"
    using s(1) by (simp add: readPlainScalar_def) (simp add: result_text_def next_line_def)
  let ?st3 = "?st2\<lparr>tag := Some (js ''?'')\<rparr>"
  have sc: "scalar_content 0 CONTEXT_FLOW_OUT (fresh ?st) = Inr (True, ?st3)"
    unfolding tried_simps(9) by (rule scalar_content_plain [OF r _ _ ax]) (use x(2) in \<open>auto simp: next_line_def move_def\<close>)
  have "find (\<lambda>ty. ty_resolve ty (heap ?st3) (YStr s)) implicit_types = None"
    unfolding find_None_iff using assms(4) resolve_heap by (metis list_ex_iff)
  then have "resolve_node ?st3 = Inr ?st3"
    using assms(3) by (simp add: resolve_node_def js_def next_line_def move_def)
  from compose_flow_scalar [OF ax x(1) sc this, of "2 * length ?t + 8"]
  have c: "composeNode (2 * length ?t + 9) 0 CONTEXT_FLOW_OUT False True ?st = Inr (True, ?st3)" by (simp add: numeral_eq_Suc)
  have e: "ahead ?st3 [0]" by (simp add: ahead_def next_line_def nat_add_distrib)
  have "load env ?t no_load_options = Inr (ndresult ?st3, heap ?st3)"
    by (rule load_one_scalar [of _ x "xs @ [10]", OF _ _ _ x(1) c]) (use e s(1) in \<open>simp_all add: next_line_def move_def\<close>)
  then show ?thesis by (simp add: next_line_def move_def)
qed

section \<open>The styles\<close>

text \<open>The style of a string at the top level; the empty string and the old booleans are quoted.\<close>

definition string_style :: "dstate \<Rightarrow> jstr \<Rightarrow> scalar_style" where
  "string_style st s =
     (if s = [] \<or> (\<not> d_noCompatMode st \<and> s \<in> set DEPRECATED_BOOLEANS_SYNTAX) then STYLE_SINGLE
      else chooseScalarStyle s (d_flowLevel st > - 1 \<and> 0 \<ge> d_flowLevel st) (d_indent st) (scalar_width st (d_indent st))
             (testImplicitResolving st))"

definition chosen_text :: "dstate \<Rightarrow> jstr \<Rightarrow> jstr yresult" where
  "chosen_text st s =
     (case string_style st s of
        STYLE_PLAIN \<Rightarrow> Inr s
      | STYLE_SINGLE \<Rightarrow> Inr ([39] @ double_quotes s @ [39])
      | STYLE_LITERAL \<Rightarrow> Inr (js ''|'' @ blockHeader s (d_indent st) @ dropEndingNewline (indentString s (d_indent st)))
      | STYLE_FOLDED \<Rightarrow> Inr (js ''>'' @ blockHeader s (d_indent st) @
          dropEndingNewline (indentString (foldString s (scalar_width st (d_indent st))) (d_indent st)))
      | STYLE_DOUBLE \<Rightarrow> rbind (escapeString s) (\<lambda>e. Inr ([34] @ e @ [34])))"

lemma old_booleans: "s \<in> set DEPRECATED_BOOLEANS_SYNTAX \<Longrightarrow> double_quotes s = s \<and> list_all (\<lambda>c. isPrintable (uint c)) s"
  by (auto simp: DEPRECATED_BOOLEANS_SYNTAX_def js_def isPrintable_def)

lemma writeScalar_top: "writeScalar st s 0 False = chosen_text st s"
  using old_booleans [of s] by (simp add: writeScalar_def chosen_text_def string_style_def Let_def js_def)

text \<open>What a style says about the characters.\<close>

lemma single_line_loop_spec:
  "single_line_loop s plain =
     (if list_all (\<lambda>c. isPrintable (uint c)) s then Some (plain \<and> list_all (\<lambda>c. isPlainSafe (uint c)) s) else None)"
  by (induction s arbitrary: plain) auto

lemma multi_line_loop_None:
  "multi_line_loop s w cs i lb fl prev plain = None \<longleftrightarrow> (\<exists>c \<in> set cs. c \<noteq> 10 \<and> \<not> isPrintable (uint c))"
proof (induction cs arbitrary: i lb fl prev plain)
  case (Cons c cs)
  then show ?case by (cases "c = 10"; cases "w = - 1") (auto simp: Let_def)
qed simp

lemma multi_line_loop_Some:
  "multi_line_loop s w cs i lb fl prev plain = Some (lb', fl', prev', plain') \<Longrightarrow>
     (lb' \<longleftrightarrow> lb \<or> 10 \<in> set cs) \<and> (plain' \<longleftrightarrow> plain \<and> list_all (\<lambda>c. isPlainSafe (uint c)) cs)"
proof (induction cs arbitrary: i lb fl prev plain)
  case (Cons c cs)
  show ?case
  proof (cases "c = 10")
    case True
    from Cons.prems True obtain fl1 prev1 where
      "multi_line_loop s w cs (i + 1) True fl1 prev1 (plain \<and> isPlainSafe (uint c)) = Some (lb', fl', prev', plain')"
      by (simp add: Let_def split: if_splits)
    from Cons.IH [OF this] True show ?thesis by simp
  next
    case False
    with Cons.prems have "multi_line_loop s w cs (i + 1) lb fl prev (plain \<and> isPlainSafe (uint c)) = Some (lb', fl', prev', plain')"
      by (simp add: Let_def split: if_splits)
    from Cons.IH [OF this] False show ?thesis by auto
  qed
qed simp

text \<open>The style when no line is too long and there is no line feed, and the other cases.\<close>

lemma choose_cases:
  fixes s b i w amb
  defines "style \<equiv> chooseScalarStyle s b i w amb"
    and "ok \<equiv> isPlainSafeFirst (code_at s 0) \<and> \<not> isWhitespace (code_at s (int (length s) - 1)) \<and> list_all (\<lambda>c. isPlainSafe (uint c)) s \<and> \<not> amb s"
  obtains "style = STYLE_DOUBLE"
  | "style = STYLE_PLAIN" "ok" | "style = STYLE_SINGLE" "list_all (\<lambda>c. isPrintable (uint c)) s"
  | "style = STYLE_LITERAL \<or> style = STYLE_FOLDED" "\<not> b" "list_all (\<lambda>c. c = 10 \<or> isPrintable (uint c)) s"
    "\<not> (i > 9 \<and> needIndentIndicator s)"
proof (cases b)
  case True
  then have "style = (if list_all (\<lambda>c. isPrintable (uint c)) s then (if ok then STYLE_PLAIN else STYLE_SINGLE) else STYLE_DOUBLE)"
    by (simp add: style_def ok_def chooseScalarStyle_def Let_def single_line_loop_spec conj_ac)
  then show ?thesis using that(1-3) by (metis (full_types))
next
  case False
  let ?m = "multi_line_loop s w s 0 False False (- 1) (isPlainSafeFirst (code_at s 0) \<and> \<not> isWhitespace (code_at s (int (length s) - 1)))"
  show ?thesis
  proof (cases ?m)
    case None
    then show ?thesis using that(1) False by (simp add: style_def chooseScalarStyle_def Let_def)
  next
    case (Some q)
    obtain lb fl prev plain where q: "q = (lb, fl, prev, plain)" by (cases q) auto
    note m = multi_line_loop_Some [OF Some [unfolded q]]
    have pr: "list_all (\<lambda>c. c = 10 \<or> isPrintable (uint c)) s"
    proof -
      have "?m \<noteq> None" using Some by simp
      then show ?thesis unfolding multi_line_loop_None list_all_iff by blast
    qed
    then have pr1: "\<not> lb \<Longrightarrow> list_all (\<lambda>c. isPrintable (uint c)) s" using m by (auto simp: list_all_iff)
    define fold where "fold = (fl \<or> (w \<noteq> - 1 \<and> foldable_line s w prev (int (length s))))"
    have st: "style = (if \<not> lb \<and> \<not> fold then (if plain \<and> \<not> amb s then STYLE_PLAIN else STYLE_SINGLE)
        else if i > 9 \<and> needIndentIndicator s then STYLE_DOUBLE else if fold then STYLE_FOLDED else STYLE_LITERAL)"
      using False Some q by (simp add: style_def chooseScalarStyle_def Let_def fold_def)
    have pl: "plain \<and> \<not> amb s \<longleftrightarrow> ok" using m by (auto simp: ok_def)
    show ?thesis using that pr pr1 False st unfolding pl by (metis (full_types))
  qed
qed

lemma plain_style:
  assumes "chooseScalarStyle s b i w amb = STYLE_PLAIN" "s \<noteq> []"
  shows "plain_text s" "\<not> amb s"
proof -
  have "isPlainSafeFirst (code_at s 0) \<and> \<not> isWhitespace (code_at s (int (length s) - 1)) \<and> list_all (\<lambda>c. isPlainSafe (uint c)) s \<and> \<not> amb s"
    by (rule choose_cases [of s b i w amb]) (use assms(1) in auto)
  moreover have "code_at s 0 = uint (hd s)" "code_at s (int (length s) - 1) = uint (last s)"
    using assms(2) by (simp_all add: code_at_def hd_conv_nth last_conv_nth nat_diff_distrib Suc_leI)
  ultimately show "plain_text s" "\<not> amb s" using assms(2) by (simp_all add: plain_text_def)
qed

lemma single_style: "chooseScalarStyle s b i w amb = STYLE_SINGLE \<Longrightarrow> list_all (\<lambda>c. isPrintable (uint c)) s"
  by (rule choose_cases [of s b i w amb]) auto

end
