(* ===== verification/Yaml_Block_Laws.thy ===== *)
theory Yaml_Block_Laws
  imports Yaml_String_Laws
begin

text \<open>
  Block scalars: the lines that the dumper writes for the literal and for the folded style, and what the
  loader makes of such lines.
\<close>

section \<open>Lines\<close>

text \<open>The lines of a text; a line feed at the end does not start another line.\<close>

function lines_of :: "jstr \<Rightarrow> jstr list" where
  "lines_of s = (if s = [] then [] else takeWhile (\<lambda>c. c \<noteq> 10) s # lines_of (tl (dropWhile (\<lambda>c. c \<noteq> 10) s)))"
  by pat_completeness auto
termination
proof (relation "measure length", goal_cases)
  case (2 s)
  then show ?case using length_dropWhile_le [of "\<lambda>c. c \<noteq> 10" s] by (cases s) auto
qed simp

declare lines_of.simps [simp del]

lemma takeWhile_line: "10 \<notin> set l \<Longrightarrow> takeWhile (\<lambda>c. c \<noteq> 10) (l @ 10 # q) = l" "10 \<notin> set l \<Longrightarrow> dropWhile (\<lambda>c. c \<noteq> 10) (l @ 10 # q) = 10 # q"
  by (induction l) auto

lemma no_line: "10 \<notin> set l \<Longrightarrow> takeWhile (\<lambda>c. c \<noteq> 10) l = l" "10 \<notin> set l \<Longrightarrow> dropWhile (\<lambda>c. c \<noteq> 10) l = []"
  by (induction l) auto

lemma last_no_line: "s \<noteq> [] \<Longrightarrow> 10 \<notin> set s \<Longrightarrow> last s \<noteq> 10"
  by (metis last_in_set)

lemma lines_of_Nil [simp]: "lines_of [] = []"
  by (subst lines_of.simps) simp

lemma lines_of_line: "10 \<notin> set l \<Longrightarrow> lines_of (l @ 10 # q) = l # lines_of q"
  by (subst lines_of.simps) (simp add: takeWhile_line)

lemma lines_of_last: "10 \<notin> set l \<Longrightarrow> l \<noteq> [] \<Longrightarrow> lines_of l = [l]"
  by (subst lines_of.simps) (simp add: no_line)

lemma lines_of_break [simp]: "lines_of (10 # q) = [] # lines_of q"
  using lines_of_line [of "[]" q] by simp

text \<open>A text is empty, its first line with a line feed and the rest, or its only line.\<close>

lemma line_cases [case_names Empty Line Last]:
  obtains "s = []" | l q where "s = l @ 10 # q" "10 \<notin> set l" | "s \<noteq> []" "10 \<notin> set s"
proof (cases "10 \<in> set s")
  case True
  then obtain l q where "s = l @ 10 # q" "10 \<notin> set l" by (metis split_list_first)
  then show ?thesis using that(2) by blast
qed (use that in blast)

lemma lines_induct [case_names Empty Line Last]:
  assumes "P []" "\<And>l q. 10 \<notin> set l \<Longrightarrow> P q \<Longrightarrow> P (l @ 10 # q)" "\<And>s. s \<noteq> [] \<Longrightarrow> 10 \<notin> set s \<Longrightarrow> P s"
  shows "P s"
proof (induction s rule: measure_induct_rule [of length])
  case (less s)
  show ?case by (rule line_cases [of s]) (use assms less in auto)
qed

text \<open>Every line with its line feed.\<close>

definition unlines :: "jstr list \<Rightarrow> jstr" where
  "unlines ls = concat (map (\<lambda>l. l @ [10]) ls)"

lemma unlines_simps [simp]: "unlines [] = []" "unlines (l # ls) = l @ 10 # unlines ls" "unlines (ls @ ms) = unlines ls @ unlines ms"
  by (simp_all add: unlines_def)

definition ends_line :: "jstr \<Rightarrow> bool" where
  "ends_line s \<longleftrightarrow> s \<noteq> [] \<and> last s = 10"

lemma unlines_lines: "unlines (lines_of s) = (if s = [] \<or> ends_line s then s else s @ [10])"
proof (induction s rule: lines_induct)
  case (Last s)
  then show ?case using last_no_line [of s] by (auto simp: lines_of_last ends_line_def)
qed (auto simp: lines_of_line ends_line_def)

lemma lines_no_break: "l \<in> set (lines_of s) \<Longrightarrow> 10 \<notin> set l \<and> set l \<subseteq> set s"
  by (induction s rule: lines_induct) (auto simp: lines_of_line lines_of_last)

section \<open>What the dumper writes\<close>

definition indented :: "jstr \<Rightarrow> jstr \<Rightarrow> jstr" where
  "indented ind l = (if l = [] then [] else ind @ l)"

lemma indent_loop_line: "10 \<notin> set l \<Longrightarrow> indent_loop ind (l @ 10 # q) = indented ind l @ 10 # indent_loop ind q"
  by (subst indent_loop.simps) (simp add: takeWhile_line indented_def Let_def)

lemma indent_loop_last: "10 \<notin> set l \<Longrightarrow> l \<noteq> [] \<Longrightarrow> indent_loop ind l = ind @ l"
  by (subst indent_loop.simps) (simp add: no_line)

lemma indent_loop_ends: "10 \<notin> set ind \<Longrightarrow> ends_line (indent_loop ind s) \<longleftrightarrow> ends_line s"
proof (induction s rule: lines_induct)
  case Empty
  show ?case by (subst indent_loop.simps) (simp add: ends_line_def)
next
  case (Line l q)
  have "indent_loop ind q = [] \<longleftrightarrow> q = []"
    by (rule line_cases [of q]) (auto simp: indent_loop_line indent_loop_last indent_loop.simps [of _ "[]"])
  then show ?case using Line by (auto simp: indent_loop_line ends_line_def)
next
  case (Last s)
  then show ?case using last_no_line [of s] by (auto simp: indent_loop_last ends_line_def)
qed

lemma indent_loop_text:
  "(if s = [] \<or> ends_line s then indent_loop ind s else indent_loop ind s @ [10]) = unlines (map (indented ind) (lines_of s))"
proof (induction s rule: lines_induct)
  case Empty
  show ?case by (subst indent_loop.simps) simp
next
  case (Line l q)
  then show ?case by (cases "q = []") (auto simp: indent_loop_line lines_of_line ends_line_def)
next
  case (Last s)
  then show ?case using last_no_line [of s] by (auto simp: indent_loop_last lines_of_last ends_line_def indented_def)
qed

lemma code_at_last: "s \<noteq> [] \<Longrightarrow> code_at s (int (length s) - 1) = uint (last s)"
  by (simp add: code_at_def last_conv_nth nat_diff_distrib Suc_leI)

lemma block_text_written:
  assumes "s \<noteq> []" "0 \<le> i"
  shows "dropEndingNewline (indentString s i) @ [10] = unlines (map (indented (replicate (nat i) 32)) (lines_of s))"
proof -
  let ?ind = "replicate (nat i) (32 :: code_unit)"
  have d: "dropEndingNewline t @ [10] = (if ends_line t then t else t @ [10])" for t
  proof (cases "t = []")
    case False
    then have "char_is t (int (length t) - 1) 10 \<longleftrightarrow> last t = 10" by (simp add: char_is_def code_at_last word_uint_eq_iff)
    moreover have "last t = 10 \<Longrightarrow> butlast t @ [10] = t" using append_butlast_last_id [OF False] by simp
    ultimately show ?thesis using False by (auto simp: dropEndingNewline_def ends_line_def)
  qed (simp add: dropEndingNewline_def char_is_def code_at_def ends_line_def)
  have "10 \<notin> set ?ind" by simp
  then show ?thesis
    using indent_loop_text [of s ?ind] assms
    by (simp add: d indentString_def repeat_str_def concat_singles indent_loop_ends)
qed

section \<open>What the loader reads\<close>

text \<open>
  The block scalar reader on the level of lines: the text so far, whether there was content, and the
  number of empty lines at the end.
\<close>

fun read_lines :: "bool \<Rightarrow> bool \<Rightarrow> nat \<Rightarrow> bool \<Rightarrow> jstr list \<Rightarrow> jstr \<times> bool \<times> nat" where
  "read_lines f d e m [] = ([], d, e)"
| "read_lines f d e m ([] # ls) = read_lines f d (Suc e) m ls"
| "read_lines f d e m ((c # l) # ls) =
     (let (r, d1, e1) = read_lines f True 0 (if f then is_WHITE_SPACE (uint c) else m) ls
      in (breaks_before f d m (int e) (uint c) @ (c # l) @ r, d1, e1))"

definition line_ok :: "jstr \<Rightarrow> bool" where
  "line_ok l \<longleftrightarrow> list_all (\<lambda>c. isPrintable (uint c)) l"

text \<open>The fields a reader of a scalar leaves alone.\<close>

definition same_rest :: "lstate \<Rightarrow> lstate \<Rightarrow> bool" where
  "same_rest st st' \<longleftrightarrow> input st' = input st \<and> inputLength st' = inputLength st \<and> documents st' = documents st \<and>
     checkLineBreaks st' = checkLineBreaks st \<and> heap st' = heap st \<and> tag st' = tag st \<and> anchor st' = anchor st"

lemma same_rest_trans: "same_rest a b \<Longrightarrow> same_rest b c \<Longrightarrow> same_rest a c"
  by (simp add: same_rest_def)

text \<open>The lines of a block as they stand in the input.\<close>

definition block_input :: "jstr \<Rightarrow> jstr list \<Rightarrow> jstr" where
  "block_input ind ls = unlines (map (indented ind) ls)"

lemma line_ok_facts: "line_ok l \<Longrightarrow> c \<in> set l \<Longrightarrow> \<not> is_EOL (uint c) \<and> uint c \<noteq> 0 \<and> uint c \<noteq> - 1"
  using printable_facts by (auto simp: line_ok_def list_all_iff)

lemma takeWhile_spaces: "c \<noteq> 32 \<Longrightarrow> takeWhile (\<lambda>c. c = 32) (replicate n 32 @ c # l) = replicate n 32"
  by (induction n) auto

text \<open>The indentation of an empty line, of the first line of text, and of a later one.\<close>

lemma text_indent_empty: "ahead st (10 # post) \<Longrightarrow> text_indent d t st = st\<lparr>lineIndent := 0\<rparr>"
  "ahead st (0 # post) \<Longrightarrow> text_indent d t st = st\<lparr>lineIndent := 0\<rparr>"
  by (auto simp: text_indent_def ahead_def move_def Let_def)

lemma text_indent_first:
  assumes "ahead st (replicate n 32 @ c # post)" "c \<noteq> 32"
  shows "text_indent False t st = (move (int n) st)\<lparr>lineIndent := int n\<rparr>"
proof -
  have "drop (nat (position st)) (input st) = replicate n 32 @ c # post" using assms(1) by (simp add: ahead_def)
  then show ?thesis by (simp add: text_indent_def Let_def takeWhile_spaces [OF assms(2)])
qed

lemma text_indent_later:
  assumes "ahead st (replicate n 32 @ post)"
  shows "text_indent True (int n) st = (move (int n) st)\<lparr>lineIndent := int n\<rparr>"
proof -
  have "n \<le> length (takeWhile (\<lambda>c. c = 32) (replicate n 32 @ post))" by (induction n) auto
  moreover have "drop (nat (position st)) (input st) = replicate n 32 @ post" using assms by (simp add: ahead_def)
  ultimately show ?thesis by (simp add: text_indent_def Let_def min_def)
qed

lemma readLineBreak_ahead:
  "ahead st (10 # post) \<Longrightarrow> readLineBreak st = Inr ((move 1 st)\<lparr>line := line st + 1, lineStart := position st + 1\<rparr>)"
  by (simp add: readLineBreak_def peek_Cons Let_def)

lemma scan_line:
  assumes "ahead st (l @ 10 # post)" "line_ok l"
  shows "scan (\<lambda>c. \<not> is_EOL c \<and> c \<noteq> 0) st = move (int (length l)) st"
proof -
  have "takeWhile (\<lambda>c. \<not> is_EOL (uint c) \<and> uint c \<noteq> 0) (l @ 10 # post) = l"
    using line_ok_facts [OF assms(2)] by (simp add: takeWhile_append2 is_EOL_def)
  then show ?thesis using assms(1) by (simp add: scan_def ahead_def)
qed

lemma capture_line:
  assumes "ahead st (l @ post)" "line_ok l" "l \<noteq> []" "ndresult st = YStr r"
  shows "captureSegment (move (int (length l)) st) (position st) (position (move (int (length l)) st)) False =
    Inr ((move (int (length l)) st)\<lparr>ndresult := YStr (r @ l)\<rparr>)"
proof -
  have "nat (position st + int (length l)) - nat (position st) = length l" using assms(1) by (simp add: ahead_def nat_add_distrib)
  then have "input_slice (move (int (length l)) st) (position st) (position st + int (length l)) = l"
    using assms(1) by (simp add: input_slice_def slice_str_def ahead_def)
  then show ?thesis
    using printable_clean assms(2-4) by (simp add: captureSegment_def line_ok_def add_result_def result_text_def Let_def)
qed

text \<open>What is written at the end, with and without content.\<close>

definition lines_text :: "bool \<Rightarrow> chomping \<Rightarrow> jstr \<times> bool \<times> nat \<Rightarrow> jstr" where
  "lines_text f chomp q =
     (let (r, d, e) = q in r @ (if d then breaks_after chomp d (int e) else breaks_before f d False (int e) 0))"

text \<open>The first line of text does not start with a space, so that its indentation is the one of the block.\<close>

fun first_flush :: "jstr list \<Rightarrow> bool" where
  "first_flush [] = True"
| "first_flush ([] # ls) = first_flush ls"
| "first_flush ((c # l) # ls) = (c \<noteq> 32)"

definition next_text :: "lstate \<Rightarrow> lstate" where
  "next_text st = (move 1 st)\<lparr>line := line st + 1, lineStart := position st + 1\<rparr>"

lemma next_text_simps [simp]: "input (next_text st) = input st" "position (next_text st) = position st + 1"
  "lineStart (next_text st) = position st + 1" "ndresult (next_text st) = ndresult st"
  by (simp_all add: next_text_def)

lemma ahead_next_text: "ahead st (10 # post) \<Longrightarrow> ahead (next_text st) post"
  using ahead_move1 [of st 10 post] by (simp add: ahead_def)

lemma same_rest_next: "same_rest st ((next_text st)\<lparr>lineIndent := k\<rparr>)" "same_rest st (st\<lparr>ndresult := v\<rparr>)" "same_rest st (move j st)"
  "same_rest st ((move j st)\<lparr>lineIndent := k\<rparr>)" "same_rest st (next_text st)"
  by (simp_all add: same_rest_def next_text_def move_def)

lemma block_loop_line_break:
  assumes "ahead st (10 # post)"
  shows "block_loop f chomp d t dr e m st =
    (let st1 = text_indent d t (next_text st); ch = peek st1 0;
         textIndent = (if \<not> d \<and> lineIndent st1 > t then lineIndent st1 else t)
     in if is_EOL ch then block_loop f chomp d textIndent dr (e + 1) m st1
        else if lineIndent st1 < textIndent then Inr (add_result st1 (breaks_after chomp dr e))
        else
          let st2 = add_result st1 (breaks_before f dr m e ch);
              st3 = scan (\<lambda>c. \<not> is_EOL c \<and> c \<noteq> 0) st2
          in case captureSegment st3 (position st2) (position st3) False of
               Inl e \<Rightarrow> Inl e
             | Inr st4 \<Rightarrow> block_loop f chomp True textIndent True 0 (if f then is_WHITE_SPACE ch else m) st4)"
  using readLineBreak_ahead [OF assms] peek_Cons [OF assms]
  by (subst block_loop.simps) (simp add: next_text_def Let_def)

lemma block_loop_end:
  assumes "ahead st [10, 0]" "ndresult st = YStr r" "0 < n" "d \<longrightarrow> t = int n" "\<not> d \<longrightarrow> t = 0 \<and> \<not> m"
  shows "\<exists>st'. block_loop f chomp d t d (int e) m st = Inr st' \<and> same_rest st st' \<and> ahead st' [0] \<and> lineStart st' = position st' \<and>
    ndresult st' = YStr (r @ (if d then breaks_after chomp d (int e) else breaks_before f d False (int e) 0))"
proof -
  let ?st1 = "(next_text st)\<lparr>lineIndent := 0\<rparr>"
  have a: "ahead (next_text st) [0]" by (rule ahead_next_text [OF assms(1)])
  then have i: "text_indent d t (next_text st) = ?st1" by (simp add: text_indent_empty)
  have a1: "ahead ?st1 [0]" using a by (simp add: ahead_def)
  then have p: "peek ?st1 0 = 0" by (simp add: peek_Cons)
  show ?thesis
  proof (cases d)
    case True
    then have "block_loop f chomp d t d (int e) m st = Inr (add_result ?st1 (breaks_after chomp d (int e)))"
      using assms(3,4) p i by (simp add: block_loop_line_break [OF assms(1)] Let_def is_EOL_def)
    then show ?thesis
      using True a1 assms(2) same_rest_next(1,2) [of st] by (auto simp: add_result_def result_text_def ahead_def same_rest_def)
  next
    case False
    let ?st2 = "add_result ?st1 (breaks_before f False False (int e) 0)"
    have a2: "ahead ?st2 [0]" using a1 by (simp add: ahead_def)
    have "scan (\<lambda>c. \<not> is_EOL c \<and> c \<noteq> 0) ?st2 = ?st2" by (rule scan_stay [OF a2]) simp
    moreover have "block_loop f chomp True 0 True 0 m2 ?st2 = Inr ?st2" for m2
      using peek_Cons [OF a2] by (subst block_loop.simps) simp
    ultimately have "block_loop f chomp d t d (int e) m st = Inr ?st2"
      using False assms(5) p i by (simp add: block_loop_line_break [OF assms(1)] Let_def is_EOL_def captureSegment_def)
    then show ?thesis
      using False a2 assms(2) same_rest_next(1,2) [of st] by (auto simp: add_result_def result_text_def same_rest_def)
  qed
qed

lemma block_loop_lines:
  assumes "ahead st (10 # block_input (replicate n 32) ls @ [0])" "\<forall>l \<in> set ls. line_ok l" "ndresult st = YStr r" "0 < n"
    "d \<longrightarrow> t = int n" "\<not> d \<longrightarrow> t = 0 \<and> \<not> m \<and> first_flush ls"
  shows "\<exists>st'. block_loop f chomp d t d (int e) m st = Inr st' \<and> same_rest st st' \<and> ahead st' [0] \<and> lineStart st' = position st' \<and>
    ndresult st' = YStr (r @ lines_text f chomp (read_lines f d e m ls))"
  using assms
proof (induction f d e m ls arbitrary: st r t rule: read_lines.induct)
  case (1 f d e m)
  from block_loop_end [of st r n d t m] 1 show ?case by (simp add: block_input_def lines_text_def)
next
  case (2 f d e m ls)
  let ?st1 = "(next_text st)\<lparr>lineIndent := 0\<rparr>"
  have a: "ahead (next_text st) (10 # block_input (replicate n 32) ls @ [0])"
    using ahead_next_text 2(2) by (simp add: block_input_def indented_def)
  then have i: "text_indent d t (next_text st) = ?st1" by (simp add: text_indent_empty)
  have a1: "ahead ?st1 (10 # block_input (replicate n 32) ls @ [0])" using a by (simp add: ahead_def)
  have ti: "(if \<not> d \<and> lineIndent ?st1 > t then lineIndent ?st1 else t) = t" using 2(6,7) by auto
  have "ahead st (10 # 10 # block_input (replicate n 32) ls @ [0])" using 2(2) by (simp add: block_input_def indented_def)
  moreover have "peek ?st1 0 = 10" using peek_Cons [OF a1] by simp
  ultimately have b: "block_loop f chomp d t d (int e) m st = block_loop f chomp d t d (int (Suc e)) m ?st1"
    using ti by (simp add: block_loop_line_break i Let_def is_EOL_def add.commute)
  have "\<exists>st'. block_loop f chomp d t d (int (Suc e)) m ?st1 = Inr st' \<and> same_rest ?st1 st' \<and> ahead st' [0] \<and>
      lineStart st' = position st' \<and> ndresult st' = YStr (r @ lines_text f chomp (read_lines f d (Suc e) m ls))"
    by (rule "2.IH" [OF a1]) (use 2 in simp_all)
  then show ?case using b same_rest_trans [OF same_rest_next(1)] by auto
next
  case (3 f d e m c l ls)
  let ?sp = "replicate n (32 :: code_unit)" and ?br = "breaks_before f d m (int e) (uint c)"
  let ?st1 = "(move (int n) (next_text st))\<lparr>lineIndent := int n\<rparr>"
  let ?m = "if f then is_WHITE_SPACE (uint c) else m"
  have a: "ahead (next_text st) (?sp @ (c # l) @ 10 # block_input ?sp ls @ [0])"
    using ahead_next_text 3(2) by (simp add: block_input_def indented_def)
  have i: "text_indent d t (next_text st) = ?st1"
    using 3(6,7) a text_indent_first [of "next_text st" n c] text_indent_later [of "next_text st" n] by (cases d) simp_all
  have a1: "ahead ?st1 ((c # l) @ 10 # block_input ?sp ls @ [0])"
    using ahead_move [OF a] by (simp add: ahead_def)
  have ok: "line_ok (c # l)" using 3(3) by simp
  have p: "peek ?st1 0 = uint c" "\<not> is_EOL (uint c)" using peek_Cons [of ?st1 c] a1 line_ok_facts [OF ok, of c] by simp_all
  let ?st2 = "add_result ?st1 ?br" and ?k = "int (length (c # l))"
  have a2: "ahead ?st2 ((c # l) @ 10 # block_input ?sp ls @ [0])" using a1 by (simp add: ahead_def)
  have r2: "ndresult ?st2 = YStr (r @ ?br)" using 3(4) by (simp add: add_result_def result_text_def)
  let ?st4 = "(move ?k ?st2)\<lparr>ndresult := YStr ((r @ ?br) @ c # l)\<rparr>"
  have cap: "captureSegment (move ?k ?st2) (position ?st2) (position (move ?k ?st2)) False = Inr ?st4"
    by (rule capture_line [OF a2 ok _ r2]) simp
  have sc: "scan (\<lambda>c. \<not> is_EOL c \<and> c \<noteq> 0) ?st2 = move ?k ?st2" by (rule scan_line [OF a2 ok])
  have st: "ahead st (10 # ?sp @ (c # l) @ 10 # block_input ?sp ls @ [0])" using 3(2) by (simp add: block_input_def indented_def)
  have li: "lineIndent ?st1 = int n" by simp
  have b: "block_loop f chomp d t d (int e) m st = block_loop f chomp True (int n) True (int 0) ?m ?st4"
    unfolding block_loop_line_break [OF st] i Let_def p li sc cap using 3(5-7) p(2) by auto
  have "\<exists>st'. block_loop f chomp True (int n) True (int 0) ?m ?st4 = Inr st' \<and> same_rest ?st4 st' \<and> ahead st' [0] \<and>
      lineStart st' = position st' \<and> ndresult st' = YStr (((r @ ?br) @ c # l) @ lines_text f chomp (read_lines f True 0 ?m ls))"
    by (rule "3.IH") (use ahead_move [OF a2] 3 in \<open>simp_all add: ahead_def\<close>)
  moreover have "same_rest st ?st4" by (simp add: same_rest_def add_result_def move_def next_text_def)
  moreover have "(?br @ (c # l)) @ lines_text f chomp (read_lines f True 0 ?m ls) = lines_text f chomp (read_lines f d e m ((c # l) # ls))"
    by (simp add: lines_text_def Let_def split: prod.splits)
  ultimately show ?case using b same_rest_trans by fastforce
qed

end
