(* ===== verification/Yaml_Fold_Laws.thy ===== *)
theory Yaml_Fold_Laws
  imports Yaml_Block_Laws
begin

text \<open>
  The text of a block scalar on the level of lines: a literal block gives back the lines it was made of,
  and the breaks that folding puts into a text are the ones that the loader takes out again.
\<close>

section \<open>Literal blocks\<close>

lemma breaks_before_literal: "breaks_before False d m (int e) c = (if d then [10] else []) @ replicate e 10"
  by (simp add: breaks_before_def repeat_str_def concat_singles nat_add_distrib)

lemma literal_breaks:
  "read_lines False d e m ls = (r, d1, e1) \<Longrightarrow>
     (if d then [10] else []) @ replicate e 10 @ unlines ls = r @ (if d1 then [10] else []) @ replicate e1 10"
proof (induction False d e m ls arbitrary: r d1 e1 rule: read_lines.induct)
  case (2 d e m ls)
  then show ?case by (simp add: replicate_app_Cons_same)
next
  case (3 d e m c l ls)
  then obtain r0 where r0: "read_lines False True 0 m ls = (r0, d1, e1)" "r = breaks_before False d m (int e) (uint c) @ (c # l) @ r0"
    by (simp add: Let_def split: prod.splits)
  from 3(1) r0(1) have "10 # unlines ls = r0 @ (if d1 then [10] else []) @ replicate e1 10" by simp
  then show ?case by (simp add: r0(2) breaks_before_literal)
qed simp

text \<open>The text that was read ends with a character of a line, if there was one.\<close>

lemma read_lines_end:
  "read_lines f d e m ls = (r, d1, e1) \<Longrightarrow> \<forall>l \<in> set ls. 10 \<notin> set l \<Longrightarrow>
     (r = [] \<and> d1 = d) \<or> (r \<noteq> [] \<and> last r \<noteq> 10 \<and> d1)"
proof (induction f d e m ls arbitrary: r d1 e1 rule: read_lines.induct)
  case (3 f d e m c l ls)
  then obtain r0 where r0: "read_lines f True 0 (if f then is_WHITE_SPACE (uint c) else m) ls = (r0, d1, e1)"
    "r = breaks_before f d m (int e) (uint c) @ (c # l) @ r0"
    by (simp add: Let_def split: prod.splits)
  from 3(1) r0(1) 3(3) have "(r0 = [] \<and> d1) \<or> (r0 \<noteq> [] \<and> last r0 \<noteq> 10 \<and> d1)" by fastforce
  moreover have "last (c # l) \<noteq> 10" using 3(3) last_no_line [of "c # l"] by simp
  ultimately show ?case by (auto simp: r0(2))
qed simp_all

text \<open>The chomping that the header of a string asks for.\<close>

definition chomp_of :: "jstr \<Rightarrow> chomping" where
  "chomp_of s =
     (if \<not> ends_line s then CHOMPING_STRIP
      else if ends_line (butlast s) \<or> s = [10] then CHOMPING_KEEP else CHOMPING_CLIP)"

lemma butlast_breaks: "butlast (r @ replicate (Suc e) x) = r @ replicate e x"
  by (simp add: butlast_append replicate_append_same [symmetric])

lemma last_breaks: "last (r @ replicate (Suc e) x) = x"
  by (simp add: replicate_append_same [symmetric])

lemma lines_text_chomp:
  assumes "read_lines False False 0 m (lines_of s) = (r, d, e)" "s \<noteq> []"
  shows "r @ (if d then breaks_after (chomp_of s) d (int e) else breaks_before f d False (int e) 0) = s"
proof -
  have u: "(if ends_line s then s else s @ [10]) = r @ (if d then [10] else []) @ replicate e 10"
    using literal_breaks [OF assms(1)] assms(2) by (simp add: unlines_lines)
  have r: "(r = [] \<and> \<not> d) \<or> (r \<noteq> [] \<and> last r \<noteq> 10 \<and> d)" using read_lines_end [OF assms(1)] lines_no_break by auto
  have z: "breaks_before f False False (int e) 0 = replicate e 10"
    by (auto simp: breaks_before_def repeat_str_def concat_singles is_WHITE_SPACE_def)
  show ?thesis
  proof (cases "ends_line s")
    case False
    then have s: "s @ [10] = r @ (if d then [10] else []) @ replicate e 10" using u by simp
    show ?thesis
    proof (cases d)
      case True
      then have s: "s @ [10] = r @ replicate (Suc e) 10" using s by simp
      have "s = r @ replicate e 10" using arg_cong [OF s, of butlast] by (simp only: butlast_breaks butlast_snoc)
      then show ?thesis using False True assms(2) by (cases e) (auto simp: chomp_of_def breaks_after_def ends_line_def last_breaks simp del: replicate_Suc)
    next
      case False': False
      then have s: "s @ [10] = replicate e 10" using s r by simp
      then obtain k where "e = Suc k" by (cases e) auto
      then have "s = replicate k 10" using arg_cong [OF s, of butlast] butlast_breaks [of "[]" k "10 :: code_unit"] by simp
      then show ?thesis using False assms(2) by (simp add: ends_line_def)
    qed
  next
    case True
    then have s: "s = r @ (if d then [10] else []) @ replicate e 10" using u by simp
    show ?thesis
    proof (cases d)
      case d: True
      then have s: "s = r @ replicate (Suc e) 10" using s by simp
      have b: "butlast s = r @ replicate e 10" unfolding s by (rule butlast_breaks)
      have "ends_line (butlast s) \<longleftrightarrow> e \<noteq> 0" unfolding b using r d by (cases e) (simp_all add: ends_line_def last_breaks del: replicate_Suc)
      then show ?thesis using True s r d
        by (auto simp: chomp_of_def breaks_after_def repeat_str_def concat_singles nat_add_distrib)
    next
      case False
      then show ?thesis using s r z by simp
    qed
  qed
qed

section \<open>Folded lines\<close>

text \<open>A line that does not start with a space is cut into pieces at single spaces.\<close>

definition piece :: "jstr \<Rightarrow> bool" where
  "piece p \<longleftrightarrow> p \<noteq> [] \<and> hd p \<noteq> 32"

definition spaced :: "jstr list \<Rightarrow> jstr" where
  "spaced ps = concat (map (\<lambda>p. p @ [32]) ps)"

definition break_point :: "jstr \<Rightarrow> int \<Rightarrow> bool" where
  "break_point row i \<longleftrightarrow> 0 \<le> i \<and> i + 1 < int (length row) \<and> row ! nat i = 32 \<and> row ! nat (i + 1) \<noteq> 32"

lemma break_points_eq: "break_points row = filter (break_point row) [0..int (length row) - 1]"
  unfolding break_points_def by (rule filter_cong) (auto simp: break_point_def code_at_def word_uint_eq_iff)

lemma sorted_break_points: "sorted_wrt (<) (break_points row)"
  unfolding break_points_eq by (rule sorted_wrt_filter) simp

text \<open>The state of the loop: the pieces so far, the begin of the next one, and the last break point.\<close>

definition fold_state :: "jstr \<Rightarrow> jstr list \<Rightarrow> int \<Rightarrow> int \<Rightarrow> jstr \<Rightarrow> bool" where
  "fold_state row ps start curr1 result \<longleftrightarrow> 0 \<le> start \<and> start < int (length row) \<and> row ! nat start \<noteq> 32 \<and>
     list_all piece ps \<and> take (nat start) row = spaced ps \<and> result = concat (map (\<lambda>p. 10 # p) ps) \<and>
     (curr1 > start \<longrightarrow> break_point row curr1)"

lemma next_piece:
  assumes "fold_state row ps start curr1 result" "break_point row end1" "start < end1"
  shows "fold_state row (ps @ [slice_str row start end1]) (end1 + 1) curr2 (result @ [10] @ slice_str row start end1)
    \<longleftrightarrow> (curr2 > end1 + 1 \<longrightarrow> break_point row curr2)"
proof -
  let ?p = "slice_str row start end1"
  have b: "0 \<le> start" "end1 + 1 < int (length row)" "row ! nat end1 = 32" "row ! nat (end1 + 1) \<noteq> 32" "row ! nat start \<noteq> 32"
    using assms(1,2) by (auto simp: fold_state_def break_point_def)
  have "nat start < nat end1" "nat start < length row" using b assms(3) by linarith+
  then have p: "piece ?p" using b(5) by (auto simp: piece_def slice_str_def hd_conv_nth simp del: nat_less_eq_zless zless_nat_conj)
  have "take (nat (end1 + 1)) row = take (nat end1) row @ [row ! nat end1]"
    using b assms(3) by (simp add: take_Suc_conv_app_nth nat_add_distrib)
  moreover have "take (nat end1) row = take (nat start) row @ ?p"
    using b assms(3) take_add [of "nat start" "nat end1 - nat start" row] by (simp add: slice_str_def)
  ultimately have "take (nat (end1 + 1)) row = spaced (ps @ [?p])" using assms(1) b(3) by (simp add: fold_state_def spaced_def)
  then show ?thesis using assms(1,3) b p by (simp add: fold_state_def)
qed

lemma foldLine_loop_pieces:
  assumes "fold_state row ps start curr1 result" "sorted_wrt (<) ms" "\<forall>i \<in> set ms. break_point row i \<and> start < i \<and> curr1 < i"
  shows "\<exists>ps1 start1 curr2 result1. foldLine_loop row width ms start curr1 result = (start1, curr2, result1) \<and>
    fold_state row ps1 start1 curr2 result1"
  using assms
proof (induction ms arbitrary: ps start curr1 result)
  case Nil
  then show ?case by auto
next
  case (Cons next1 ms)
  have n: "break_point row next1" "start < next1" "curr1 < next1" using Cons.prems(3) by auto
  show ?case
  proof (cases "next1 - start > width")
    case False
    have "fold_state row ps start next1 result" using Cons.prems(1) n(1) by (simp add: fold_state_def)
    from Cons.IH [OF this] False Cons.prems(2,3) show ?thesis by simp
  next
    case True
    define end1 where "end1 = (if curr1 > start then curr1 else next1)"
    have e: "break_point row end1" "start < end1" "end1 \<le> next1"
      using Cons.prems(1) n by (auto simp: end1_def fold_state_def)
    have "fold_state row (ps @ [slice_str row start end1]) (end1 + 1) next1 (result @ [10] @ slice_str row start end1)"
      using next_piece [OF Cons.prems(1) e(1,2)] n(1) by simp
    moreover have "end1 + 1 < i" if "i \<in> set ms" for i
    proof -
      have "next1 < i" "break_point row i" using that Cons.prems(2,3) by auto
      then have "end1 + 1 \<noteq> i" using e(1) by (auto simp: break_point_def)
      then show ?thesis using e(3) \<open>next1 < i\<close> by simp
    qed
    ultimately have "\<exists>ps1 start1 curr2 result1.
        foldLine_loop row width ms (end1 + 1) next1 (result @ [10] @ slice_str row start end1) = (start1, curr2, result1) \<and>
        fold_state row ps1 start1 curr2 result1"
      using Cons.prems(2,3) by (intro Cons.IH) auto
    then show ?thesis using True by (simp add: end1_def Let_def)
  qed
qed

lemma foldLine_pieces:
  assumes "row \<noteq> []" "hd row \<noteq> 32"
  shows "\<exists>ps q. foldLine row width = unlines ps @ q \<and> row = spaced ps @ q \<and> list_all piece ps \<and> piece q"
proof -
  have bps: "\<forall>i \<in> set (break_points row). break_point row i \<and> 0 < i \<and> 0 < i"
  proof
    fix i
    assume "i \<in> set (break_points row)"
    then have i: "break_point row i" by (simp add: break_points_eq)
    then have "i \<noteq> 0" using assms by (auto simp: break_point_def hd_conv_nth)
    with i show "break_point row i \<and> 0 < i \<and> 0 < i" by (simp add: break_point_def)
  qed
  have "fold_state row [] 0 0 []" using assms by (simp add: fold_state_def spaced_def hd_conv_nth)
  from foldLine_loop_pieces [OF this sorted_break_points bps, of width] obtain ps start curr1 result where
    l: "foldLine_loop row width (break_points row) 0 0 [] = (start, curr1, result)" and f: "fold_state row ps start curr1 result"
    by blast
  have first: "code_at row 0 \<noteq> 32" using assms by (simp add: code_at_def hd_conv_nth word_uint_eq_iff)
  have "concat (map (\<lambda>p. 10 # p) xs) @ [10] = 10 # unlines xs" for xs
    by (induction xs) (auto simp: unlines_def)
  then have tl: "drop 1 (concat (map (\<lambda>p. 10 # p) xs) @ [10] @ q) = unlines xs @ q" for xs q
    by (metis append.assoc append_Cons drop_Suc_Cons drop0 One_nat_def)
  have rest: "fold_state row xs st cu re \<Longrightarrow> row = spaced xs @ slice_str row st (int (length row)) \<and>
      piece (slice_str row st (int (length row))) \<and> list_all piece xs" for xs st cu re
    using append_take_drop_id [of "nat st" row] by (auto simp: fold_state_def slice_str_def piece_def hd_drop_conv_nth)
  show ?thesis
  proof (cases "int (length row) - start > width \<and> curr1 > start")
    case True
    then have c: "break_point row curr1" "start < curr1" using f by (auto simp: fold_state_def)
    let ?p = "slice_str row start curr1"
    have "0 \<le> start" using f by (simp add: fold_state_def)
    then have "fold_state row (ps @ [?p]) (curr1 + 1) 0 (result @ [10] @ ?p)" using next_piece [OF f c] c(2) by simp
    note r = rest [OF this]
    have "foldLine row width = unlines (ps @ [?p]) @ slice_str row (curr1 + 1) (int (length row))"
      using assms first l True f tl [of "ps @ [?p]"] by (simp add: foldLine_def fold_state_def)
    with r show ?thesis by blast
  next
    case False
    have "foldLine row width = unlines ps @ slice_str row start (int (length row))"
      using assms first l False f tl [of ps] by (auto simp: foldLine_def fold_state_def)
    with rest [OF f] show ?thesis by blast
  qed
qed

lemma foldLine_start: "foldLine row width = [] \<longleftrightarrow> row = []" "row \<noteq> [] \<Longrightarrow> hd (foldLine row width) = hd row"
proof -
  have "(foldLine row width = [] \<longleftrightarrow> row = []) \<and> (row \<noteq> [] \<longrightarrow> hd (foldLine row width) = hd row)"
  proof (cases "row = [] \<or> hd row = 32")
    case True
    then have "foldLine row width = row" by (auto simp: foldLine_def code_at_def hd_conv_nth)
    then show ?thesis by simp
  next
    case False
    then obtain ps q where p: "foldLine row width = unlines ps @ q" "row = spaced ps @ q" "list_all piece ps" "piece q"
      using foldLine_pieces by blast
    then show ?thesis by (cases ps) (auto simp: piece_def spaced_def)
  qed
  then show "foldLine row width = [] \<longleftrightarrow> row = []" "row \<noteq> [] \<Longrightarrow> hd (foldLine row width) = hd row" by simp_all
qed

lemma foldLine_set: "set (foldLine row width) \<subseteq> insert 10 (set row)"
proof (cases "row = [] \<or> hd row = 32")
  case True
  then have "foldLine row width = row" by (auto simp: foldLine_def code_at_def hd_conv_nth)
  then show ?thesis by auto
next
  case False
  then obtain ps q where "foldLine row width = unlines ps @ q" "row = spaced ps @ q" using foldLine_pieces by blast
  then show ?thesis by (auto simp: unlines_def spaced_def)
qed

section \<open>Reading folded lines\<close>

lemma lines_of_unlines: "\<forall>p \<in> set ps. 10 \<notin> set p \<Longrightarrow> lines_of (unlines ps @ t) = ps @ lines_of t"
  by (induction ps) (auto simp: lines_of_line)

text \<open>What follows a line: nothing, or a line feed.\<close>

definition at_break :: "jstr \<Rightarrow> bool" where
  "at_break t \<longleftrightarrow> t = [] \<or> hd t = 10"

lemma lines_of_first: "row \<noteq> [] \<Longrightarrow> 10 \<notin> set row \<Longrightarrow> at_break t \<Longrightarrow> lines_of (row @ t) = row # lines_of (tl t)"
  by (cases t) (auto simp: at_break_def lines_of_line lines_of_last)

lemma lines_of_breaks: "lines_of (replicate k 10 @ t) = replicate k [] @ lines_of t"
  by (induction k) auto

lemma read_lines_empty: "read_lines f d e m (replicate k [] @ ls) = read_lines f d (e + k) m ls"
  by (induction k arbitrary: e) auto

definition put_front :: "jstr \<Rightarrow> jstr \<times> bool \<times> nat \<Rightarrow> jstr \<times> bool \<times> nat" where
  "put_front x q = (let (r, d, e) = q in (x @ r, d, e))"

lemma read_lines_Cons:
  "l \<noteq> [] \<Longrightarrow> read_lines f d e m (l # ls) =
     put_front (breaks_before f d m (int e) (uint (hd l)) @ l) (read_lines f True 0 (if f then is_WHITE_SPACE (uint (hd l)) else m) ls)"
  by (cases l) (simp_all add: put_front_def Let_def split: prod.splits)

lemma put_front_twice: "put_front x (put_front y q) = put_front (x @ y) q"
  by (simp add: put_front_def split: prod.splits)

lemma line_ok_white: "line_ok l \<Longrightarrow> l \<noteq> [] \<Longrightarrow> is_WHITE_SPACE (uint (hd l)) \<longleftrightarrow> hd l = 32"
  by (cases l) (auto simp: line_ok_def isPrintable_def is_WHITE_SPACE_def word_uint_eq_iff)

lemma read_more_pieces:
  assumes "list_all piece ps" "piece q" "line_ok (spaced ps @ q)"
  shows "read_lines True True 0 False ((ps @ [q]) @ ls) = put_front (32 # spaced ps @ q) (read_lines True True 0 False ls)"
  using assms
proof (induction ps)
  case Nil
  then show ?case using line_ok_white [of q] by (simp add: piece_def read_lines_Cons breaks_before_def spaced_def)
next
  case (Cons p ps)
  have p: "p \<noteq> []" "hd p \<noteq> 32" "line_ok p" using Cons.prems by (auto simp: piece_def line_ok_def spaced_def)
  have "read_lines True True 0 False ((ps @ [q]) @ ls) = put_front (32 # spaced ps @ q) (read_lines True True 0 False ls)"
    by (rule Cons.IH) (use Cons.prems in \<open>auto simp: line_ok_def spaced_def\<close>)
  then show ?case using p line_ok_white [of p]
    by (simp add: read_lines_Cons breaks_before_def put_front_twice) (simp add: spaced_def)
qed

lemma read_pieces:
  assumes "list_all piece ps" "piece q" "line_ok (spaced ps @ q)"
  shows "read_lines True d e m ((ps @ [q]) @ ls) =
    put_front (breaks_before True d m (int e) (uint (hd (spaced ps @ q))) @ spaced ps @ q) (read_lines True True 0 False ls)"
proof (cases ps)
  case Nil
  then show ?thesis using assms line_ok_white [of q] by (simp add: piece_def read_lines_Cons spaced_def)
next
  case (Cons p ps1)
  have p: "p \<noteq> []" "hd p \<noteq> 32" "line_ok p" using Cons assms by (auto simp: piece_def line_ok_def spaced_def)
  have "read_lines True True 0 False ((ps1 @ [q]) @ ls) = put_front (32 # spaced ps1 @ q) (read_lines True True 0 False ls)"
    by (rule read_more_pieces) (use Cons assms in \<open>auto simp: line_ok_def spaced_def\<close>)
  then show ?thesis using p line_ok_white [of p] Cons
    by (simp add: read_lines_Cons put_front_twice) (simp add: spaced_def)
qed

lemma read_folded_line:
  assumes "row \<noteq> []" "line_ok row" "10 \<notin> set row" "at_break t"
  shows "read_lines True d e m (lines_of (foldLine row width @ t)) =
    put_front (breaks_before True d m (int e) (uint (hd row)) @ row) (read_lines True True 0 (hd row = 32) (lines_of (tl t)))"
proof (cases "hd row = 32")
  case True
  then have "foldLine row width = row" using assms(1) by (auto simp: foldLine_def code_at_def hd_conv_nth)
  then show ?thesis using True line_ok_white [OF assms(2,1)] lines_of_first [OF assms(1,3,4)] read_lines_Cons [OF assms(1)] by simp
next
  case False
  then obtain ps q where p: "foldLine row width = unlines ps @ q" "row = spaced ps @ q" "list_all piece ps" "piece q"
    using foldLine_pieces assms(1) by blast
  have "\<forall>x \<in> set ps. 10 \<notin> set x" "10 \<notin> set q" using assms(3) p(2) by (auto simp: spaced_def split: if_splits)
  then have "lines_of (foldLine row width @ t) = (ps @ [q]) @ lines_of (tl t)"
    using p(1,4) assms(4) by (simp add: lines_of_unlines lines_of_first piece_def)
  then show ?thesis using read_pieces [OF p(3,4)] assms(2) p(2) False by simp
qed

text \<open>The literal reader on a line and what follows it.\<close>

lemma read_literal_line:
  assumes "row \<noteq> []" "10 \<notin> set row" "at_break t"
  shows "read_lines False d e m (lines_of (row @ t)) =
    put_front ((if d then [10] else []) @ replicate e 10 @ row) (read_lines False True 0 m (lines_of (tl t)))"
  using lines_of_first [OF assms] read_lines_Cons [OF assms(1)] by (simp add: breaks_before_literal)

section \<open>Folded texts\<close>

text \<open>A text that starts with line feeds: the line feeds, a line, and what follows it.\<close>

lemma break_split:
  assumes "s \<noteq> []" "hd s = 10"
  obtains k row t where "s = replicate (Suc k) 10 @ row @ t" "10 \<notin> set row" "at_break t" "row = [] \<longrightarrow> t = []"
    "takeWhile (\<lambda>c. c = 10) s = replicate (Suc k) 10" "dropWhile (\<lambda>c. c = 10) s = row @ t"
    "takeWhile (\<lambda>c. c \<noteq> 10) (row @ t) = row" "dropWhile (\<lambda>c. c \<noteq> 10) (row @ t) = t"
proof -
  let ?r = "dropWhile (\<lambda>c. c = 10) s"
  define row t where "row = takeWhile (\<lambda>c. c \<noteq> 10) ?r" and "t = dropWhile (\<lambda>c. c \<noteq> 10) ?r"
  have rt: "?r = row @ t" by (simp add: row_def t_def)
  have pre: "takeWhile (\<lambda>c. c = 10) s = replicate (Suc (length (takeWhile (\<lambda>c. c = 10) s) - 1)) 10"
  proof -
    have "takeWhile (\<lambda>c. c = 10) s \<noteq> []" using assms by (cases s) auto
    moreover have "\<forall>x \<in> set (takeWhile (\<lambda>c. c = 10) s). x = 10" using set_takeWhileD by fast
    ultimately show ?thesis by (simp add: replicate_length_same)
  qed
  show ?thesis
  proof (rule that [of "length (takeWhile (\<lambda>c. c = 10) s) - 1" row t])
    show "s = replicate (Suc (length (takeWhile (\<lambda>c. c = 10) s) - 1)) 10 @ row @ t"
      using takeWhile_dropWhile_id [of "\<lambda>c. c = 10" s] unfolding pre [symmetric] rt by simp
    show "10 \<notin> set row" using set_takeWhileD [of 10 "\<lambda>c. c \<noteq> 10" ?r] by (auto simp: row_def)
    show "at_break t" using hd_dropWhile [of "\<lambda>c. c \<noteq> 10" ?r] by (auto simp: at_break_def t_def)
    show "row = [] \<longrightarrow> t = []"
    proof (cases ?r)
      case (Cons x xs)
      then have "x \<noteq> 10" using hd_dropWhile [of "\<lambda>c. c = 10" s] by simp
      then show ?thesis by (simp add: row_def Cons)
    next
      case Nil
      then show ?thesis by (simp only: t_def dropWhile.simps simp_thms)
    qed
  qed (use pre rt in \<open>auto simp: row_def t_def\<close>)
qed

lemma foldString_loop_break: "at_break (foldString_loop s width p)" "foldString_loop s width p = [] \<longleftrightarrow> \<not> (s \<noteq> [] \<and> hd s = 10)"
proof -
  have "foldString_loop s width p = [] \<and> (s = [] \<or> hd s \<noteq> 10) \<or> (\<exists>x. foldString_loop s width p = 10 # x \<and> s \<noteq> [] \<and> hd s = 10)"
    by (subst (1 2) foldString_loop.simps, cases s) (auto simp: Let_def)
  then show "at_break (foldString_loop s width p)" "foldString_loop s width p = [] \<longleftrightarrow> \<not> (s \<noteq> [] \<and> hd s = 10)"
    by (auto simp: at_break_def)
qed

lemma foldString_loop_step:
  assumes "s = replicate (Suc k) 10 @ row @ t" "10 \<notin> set row" "at_break t" "row = [] \<longrightarrow> t = []"
    "takeWhile (\<lambda>c. c = 10) s = replicate (Suc k) 10" "dropWhile (\<lambda>c. c = 10) s = row @ t"
    "takeWhile (\<lambda>c. c \<noteq> 10) (row @ t) = row" "dropWhile (\<lambda>c. c \<noteq> 10) (row @ t) = t"
  shows "foldString_loop s width p =
    (if row = [] then replicate (Suc k) 10
     else replicate (if p \<or> hd row = 32 then Suc k else Suc (Suc k)) 10 @ foldLine row width @ foldString_loop t width (hd row = 32))"
proof -
  have c: "code_at row 0 = 32 \<longleftrightarrow> row \<noteq> [] \<and> hd row = 32" by (auto simp: code_at_def hd_conv_nth word_uint_eq_iff)
  have h: "s \<noteq> []" "hd s = 10" using assms(1) by simp_all
  show ?thesis
  proof (cases "row = []")
    case True
    have "foldLine [] width = []" "foldString_loop [] width q = []" for q
      using foldLine_start(1) foldString_loop_break(2) [of "[]"] by simp_all
    then show ?thesis using True h assms(4) by (subst foldString_loop.simps) (simp add: Let_def assms(5-8) del: replicate_Suc)
  next
    case False
    then show ?thesis using h c
      by (subst foldString_loop.simps) (simp add: Let_def assms(5-8) replicate_app_Cons_same)
  qed
qed

lemma read_folded_rest:
  assumes "at_break s" "list_all (\<lambda>c. c = 10 \<or> isPrintable (uint c)) s"
  shows "read_lines True True 0 p (lines_of (tl (foldString_loop s width p))) = read_lines False True 0 False (lines_of (tl s))"
  using assms
proof (induction s arbitrary: p rule: measure_induct_rule [of length])
  case (less s)
  show ?case
  proof (cases "s = []")
    case True
    then show ?thesis using foldString_loop_break(2) [of "[]"] by simp
  next
    case False
    then have "hd s = 10" using less.prems(1) by (simp add: at_break_def)
    with False obtain k row t where b: "s = replicate (Suc k) 10 @ row @ t" "10 \<notin> set row" "at_break t" "row = [] \<longrightarrow> t = []"
      "takeWhile (\<lambda>c. c = 10) s = replicate (Suc k) 10" "dropWhile (\<lambda>c. c = 10) s = row @ t"
      "takeWhile (\<lambda>c. c \<noteq> 10) (row @ t) = row" "dropWhile (\<lambda>c. c \<noteq> 10) (row @ t) = t"
      by (rule break_split)
    note step = foldString_loop_step [OF b, of width p]
    show ?thesis
    proof (cases "row = []")
      case True
      then show ?thesis using step b(1,4) lines_of_breaks [of k "[]"] read_lines_empty [of _ True 0 _ k "[]"] by simp
    next
      case row: False
      let ?m = "hd row = 32"
      let ?e = "if p \<or> ?m then k else Suc k"
      have ok: "line_ok row" "list_all (\<lambda>c. c = 10 \<or> isPrintable (uint c)) t"
        using less.prems(2) b(1,2) by (auto simp: line_ok_def list_all_iff dest: bspec)
      have w: "is_WHITE_SPACE (uint (hd row)) \<longleftrightarrow> ?m" by (rule line_ok_white [OF ok(1) row])
      have "length t < length s" using b(1) by simp
      note IH = less.IH [OF this b(3) ok(2), of ?m]
      have "tl (foldString_loop s width p) = replicate ?e 10 @ foldLine row width @ foldString_loop t width ?m"
        using step row by simp
      then have "read_lines True True 0 p (lines_of (tl (foldString_loop s width p))) =
          put_front (breaks_before True True p (int ?e) (uint (hd row)) @ row)
            (read_lines True True 0 ?m (lines_of (tl (foldString_loop t width ?m))))"
        using read_folded_line [OF row ok(1) b(2) foldString_loop_break(1)] by (simp add: lines_of_breaks read_lines_empty)
      moreover have "breaks_before True True p (int ?e) (uint (hd row)) = replicate (Suc k) 10"
        using w by (auto simp: breaks_before_def repeat_str_def concat_singles nat_add_distrib)
      moreover have "read_lines False True 0 False (lines_of (tl s)) =
          put_front (10 # replicate k 10 @ row) (read_lines False True 0 False (lines_of (tl t)))"
        using b(1) read_literal_line [OF row b(2,3), of True k False] by (simp add: lines_of_breaks read_lines_empty)
      ultimately show ?thesis using IH by simp
    qed
  qed
qed

text \<open>Folding is undone by reading.\<close>

lemma foldString_cases:
  assumes "s \<noteq> []"
  obtains "hd s = 10" "foldString s width = foldString_loop s width True"
  | row t where "s = row @ t" "row \<noteq> []" "10 \<notin> set row" "at_break t"
      "foldString s width = foldLine row width @ foldString_loop t width (hd row = 32)"
proof (cases "hd s = 10")
  case True
  then obtain x where "s = 10 # x" using assms by (cases s) auto
  then show ?thesis using that(1) foldLine_start(1) [of "[]"] by (simp add: foldString_def code_at_def)
next
  case False
  define row t where "row = takeWhile (\<lambda>c. c \<noteq> 10) s" and "t = dropWhile (\<lambda>c. c \<noteq> 10) s"
  obtain c cs where s: "s = c # cs" "c \<noteq> 10" using False assms by (cases s) auto
  have "s = row @ t" "row \<noteq> []" "hd row = hd s" using s by (auto simp: row_def t_def)
  moreover have "at_break t" using hd_dropWhile [of "\<lambda>c. c \<noteq> 10" s] by (auto simp: at_break_def t_def)
  moreover have "10 \<notin> set row" using set_takeWhileD [of 10 "\<lambda>c. c \<noteq> 10" s] by (auto simp: row_def)
  moreover have "foldString s width = foldLine row width @ foldString_loop t width (hd row = 32)"
    using s by (simp add: foldString_def code_at_def row_def t_def word_uint_eq_iff)
  ultimately show ?thesis using that(2) by blast
qed

lemma read_folded:
  assumes "s \<noteq> []" "list_all (\<lambda>c. c = 10 \<or> isPrintable (uint c)) s"
  shows "read_lines True False 0 False (lines_of (foldString s width)) = read_lines False False 0 False (lines_of s)"
proof (rule foldString_cases [OF assms(1), of width])
  fix row t
  assume s: "s = row @ t" "row \<noteq> []" "10 \<notin> set row" "at_break t"
    and f: "foldString s width = foldLine row width @ foldString_loop t width (hd row = 32)"
  have ok: "line_ok row" "list_all (\<lambda>c. c = 10 \<or> isPrintable (uint c)) t"
    using assms(2) s(1,3) by (auto simp: line_ok_def list_all_iff dest: bspec)
  have "breaks_before True False False 0 c = []" for c by (simp add: breaks_before_def repeat_str_def)
  then show ?thesis
    using read_folded_line [OF s(2) ok(1) s(3) foldString_loop_break(1), of False 0] read_literal_line [OF s(2-4), of False 0]
      read_folded_rest [OF s(4) ok(2)] f s(1) by simp
next
  assume h: "hd s = 10" and f: "foldString s width = foldString_loop s width True"
  from assms(1) h obtain k row t where b: "s = replicate (Suc k) 10 @ row @ t" "10 \<notin> set row" "at_break t" "row = [] \<longrightarrow> t = []"
    "takeWhile (\<lambda>c. c = 10) s = replicate (Suc k) 10" "dropWhile (\<lambda>c. c = 10) s = row @ t"
    "takeWhile (\<lambda>c. c \<noteq> 10) (row @ t) = row" "dropWhile (\<lambda>c. c \<noteq> 10) (row @ t) = t"
    by (rule break_split)
  note step = foldString_loop_step [OF b, of width True]
  show ?thesis
  proof (cases "row = []")
    case True
    then show ?thesis using step b(1,4) f lines_of_breaks [of "Suc k" "[]"] read_lines_empty [of _ False 0 False "Suc k" "[]"]
      by (simp del: replicate_Suc)
  next
    case row: False
    have ok: "line_ok row" "list_all (\<lambda>c. c = 10 \<or> isPrintable (uint c)) t"
      using assms(2) b(1,2) by (auto simp: line_ok_def list_all_iff dest: bspec)
    have "foldString s width = replicate (Suc k) 10 @ foldLine row width @ foldString_loop t width (hd row = 32)"
      using step row f by simp
    then have "read_lines True False 0 False (lines_of (foldString s width)) =
        put_front (breaks_before True False False (int (Suc k)) (uint (hd row)) @ row)
          (read_lines True True 0 (hd row = 32) (lines_of (tl (foldString_loop t width (hd row = 32)))))"
      using read_folded_line [OF row ok(1) b(2) foldString_loop_break(1)]
      by (simp add: lines_of_breaks read_lines_empty del: replicate_Suc)
    moreover have "breaks_before True False False (int (Suc k)) (uint (hd row)) = replicate (Suc k) 10"
      by (simp add: breaks_before_def repeat_str_def concat_singles nat_add_distrib)
    moreover have "read_lines False False 0 False (lines_of s) =
        put_front (replicate (Suc k) 10 @ row) (read_lines False True 0 False (lines_of (tl t)))"
      using b(1) read_literal_line [OF row b(2,3), of False "Suc k" False]
      by (simp add: lines_of_breaks read_lines_empty del: replicate_Suc)
    ultimately show ?thesis using read_folded_rest [OF b(3) ok(2)] by simp
  qed
qed

lemma folded_text:
  assumes "s \<noteq> []" "list_all (\<lambda>c. c = 10 \<or> isPrintable (uint c)) s"
  shows "lines_text True (chomp_of s) (read_lines True False 0 False (lines_of (foldString s width))) = s"
  using lines_text_chomp [of False s _ _ _ True] assms
  by (cases "read_lines False False 0 False (lines_of s)") (simp add: read_folded lines_text_def)

lemma literal_text: "s \<noteq> [] \<Longrightarrow> lines_text False (chomp_of s) (read_lines False False 0 False (lines_of s)) = s"
  using lines_text_chomp [of False s _ _ _ False]
  by (cases "read_lines False False 0 False (lines_of s)") (simp add: lines_text_def)

end
