(* ===== verification/Yaml_String_Round.thy ===== *)
theory Yaml_String_Round
  imports Yaml_Fold_Laws
begin

text \<open>
  The round trip of strings: a string that \<open>dump\<close> writes at the top level is the one that \<open>load\<close> reads,
  whatever style was chosen, with the two exceptions that the code has.
\<close>

section \<open>The lines of a block\<close>

lemma lines_of_Cons: "c \<noteq> 10 \<Longrightarrow> \<exists>l ls. lines_of (c # t) = (c # l) # ls"
  by (subst lines_of.simps) simp

lemma first_flush_lines: "first_flush (lines_of t) \<longleftrightarrow> \<not> needIndentIndicator t"
proof (induction t)
  case Nil
  show ?case by (simp add: needIndentIndicator_def)
next
  case (Cons c t)
  show ?case
  proof (cases "c = 10")
    case True
    then show ?thesis using Cons by (simp add: needIndentIndicator_def)
  next
    case False
    then obtain l ls where "lines_of (c # t) = (c # l) # ls" using lines_of_Cons by blast
    then show ?thesis using False by (simp add: needIndentIndicator_def)
  qed
qed

lemma needIndent_breaks: "needIndentIndicator (replicate k 10 @ t) \<longleftrightarrow> needIndentIndicator t"
  by (induction k) (simp_all add: needIndentIndicator_def)

lemma needIndent_hd: "t \<noteq> [] \<Longrightarrow> hd t \<noteq> 10 \<Longrightarrow> needIndentIndicator t \<longleftrightarrow> hd t = 32"
  by (cases t) (simp_all add: needIndentIndicator_def)

lemma needIndent_line: "row \<noteq> [] \<Longrightarrow> 10 \<notin> set row \<Longrightarrow> needIndentIndicator (row @ t) \<longleftrightarrow> hd row = 32"
  by (subst needIndent_hd) (cases row; auto)+

lemma needIndent_foldLine: "row \<noteq> [] \<Longrightarrow> 10 \<notin> set row \<Longrightarrow> needIndentIndicator (foldLine row width @ t) \<longleftrightarrow> hd row = 32"
  using foldLine_start [of row width] by (subst needIndent_hd) (cases row; auto)+

lemma foldString_indent:
  assumes "s \<noteq> []"
  shows "needIndentIndicator (foldString s width) \<longleftrightarrow> needIndentIndicator s" "foldString s width \<noteq> []"
proof -
  have "(needIndentIndicator (foldString s width) \<longleftrightarrow> needIndentIndicator s) \<and> foldString s width \<noteq> []"
  proof (rule foldString_cases [OF assms, of width])
    assume h: "hd s = 10" and f: "foldString s width = foldString_loop s width True"
    from assms h obtain k row t where b: "s = replicate (Suc k) 10 @ row @ t" "10 \<notin> set row" "at_break t" "row = [] \<longrightarrow> t = []"
      "takeWhile (\<lambda>c. c = 10) s = replicate (Suc k) 10" "dropWhile (\<lambda>c. c = 10) s = row @ t"
      "takeWhile (\<lambda>c. c \<noteq> 10) (row @ t) = row" "dropWhile (\<lambda>c. c \<noteq> 10) (row @ t) = t"
      by (rule break_split)
    show ?thesis
    proof (cases "row = []")
      case True
      then show ?thesis using foldString_loop_step [OF b, of width True] f b(1,4) by (simp del: replicate_Suc)
    next
      case False
      have "needIndentIndicator s \<longleftrightarrow> hd row = 32"
        unfolding b(1) by (simp only: needIndent_breaks needIndent_line [OF False b(2)])
      then show ?thesis
        using foldString_loop_step [OF b, of width True] f False needIndent_breaks [of "Suc k"] needIndent_foldLine [OF False b(2)] by simp
    qed
  qed (use foldLine_start(1) in \<open>auto simp: needIndent_line needIndent_foldLine\<close>)
  then show "needIndentIndicator (foldString s width) \<longleftrightarrow> needIndentIndicator s" "foldString s width \<noteq> []" by simp_all
qed

lemma foldString_loop_set: "set (foldString_loop s width p) \<subseteq> insert 10 (set s)"
proof (induction s width p rule: foldString_loop.induct)
  case (1 s width p)
  show ?case
  proof (cases "s = [] \<or> hd s \<noteq> 10")
    case True
    then show ?thesis by (subst foldString_loop.simps) simp
  next
    case False
    let ?r = "dropWhile (\<lambda>c. c = 10) s"
    have "set (takeWhile (\<lambda>c. c = 10) s) \<subseteq> set s" "set ?r \<subseteq> set s" "set (takeWhile (\<lambda>c. c \<noteq> 10) ?r) \<subseteq> set s"
      "set (dropWhile (\<lambda>c. c \<noteq> 10) ?r) \<subseteq> set s"
      by (auto dest!: set_takeWhileD set_dropWhileD)
    then show ?thesis
      using 1 [OF False refl refl refl refl] False foldLine_set [of "takeWhile (\<lambda>c. c \<noteq> 10) ?r" width]
      by (subst foldString_loop.simps) (auto simp: Let_def)
  qed
qed

lemma foldString_set: "set (foldString s width) \<subseteq> insert 10 (set s)"
proof -
  have "set (takeWhile (\<lambda>c. c \<noteq> 10) s) \<subseteq> set s" "set (dropWhile (\<lambda>c. c \<noteq> 10) s) \<subseteq> set s"
    by (auto dest: set_takeWhileD set_dropWhileD)
  then show ?thesis unfolding foldString_def set_append using foldLine_set foldString_loop_set by fast
qed

lemma lines_ok:
  assumes "list_all (\<lambda>c. c = 10 \<or> isPrintable (uint c)) t"
  shows "\<forall>l \<in> set (lines_of t). line_ok l"
proof
  fix l
  assume "l \<in> set (lines_of t)"
  then have "10 \<notin> set l" "set l \<subseteq> set t" using lines_no_break by blast+
  then show "line_ok l" using assms by (auto simp: line_ok_def list_all_iff)
qed

section \<open>The header\<close>

fun chomp_mark :: "chomping \<Rightarrow> jstr" where
  "chomp_mark CHOMPING_KEEP = [43]"
| "chomp_mark CHOMPING_CLIP = []"
| "chomp_mark CHOMPING_STRIP = [45]"

lemma blockHeader_mark:
  assumes "s \<noteq> []" "\<not> needIndentIndicator s"
  shows "blockHeader s i = chomp_mark (chomp_of s) @ [10]"
proof -
  have l: "char_is s (int (length s) - 1) 10 \<longleftrightarrow> ends_line s"
    using assms(1) by (simp add: char_is_def code_at_last ends_line_def word_uint_eq_iff)
  have "char_is s (int (length s) - 2) 10 \<longleftrightarrow> ends_line (butlast s)"
  proof (cases "butlast s = []")
    case True
    then have "length s = 1" using assms(1) by (cases s) (auto split: if_splits)
    then show ?thesis using True by (simp add: char_is_def code_at_def ends_line_def)
  next
    case False
    have n: "2 \<le> length s" using False assms(1) by (cases s; cases "tl s") auto
    then have "nat (int (length s) - 2) = length s - 2" by simp
    then have "s ! nat (int (length s) - 2) = last (butlast s)"
      using n False by (simp add: last_conv_nth nth_butlast numeral_2_eq_2)
    then show ?thesis using False n by (simp add: char_is_def code_at_def ends_line_def word_uint_eq_iff)
  qed
  then show ?thesis using l assms(2) by (auto simp: blockHeader_def Let_def chomp_of_def js_def)
qed

lemma header_loop_mark:
  assumes "ahead st (x # chomp_mark c @ 10 # post)"
  shows "header_loop i CHOMPING_CLIP i False st = Inr (c, i, False, move (int (length (chomp_mark c)) + 1) st)"
proof -
  have stop: "header_loop i b i False st1 = Inr (b, i, False, move 1 st1)" if "ahead (move 1 st1) (10 # post)" for b st1
    using peek_Cons [OF that] by (subst header_loop.simps) (simp add: Let_def fromDecimalCode_def)
  have a: "ahead (move 1 st) (chomp_mark c @ 10 # post)" by (rule ahead_move1 [OF assms])
  show ?thesis
  proof (cases c)
    case CHOMPING_CLIP
    then show ?thesis using stop a by simp
  next
    case CHOMPING_STRIP
    then have "ahead (move 1 (move 1 st)) (10 # post)" using ahead_move1 [OF a [unfolded CHOMPING_STRIP chomp_mark.simps append_Cons]] by simp
    from stop [OF this] show ?thesis using a CHOMPING_STRIP
      by (subst header_loop.simps) (simp add: Let_def peek_Cons)
  next
    case CHOMPING_KEEP
    then have "ahead (move 1 (move 1 st)) (10 # post)" using ahead_move1 [OF a [unfolded CHOMPING_KEEP chomp_mark.simps append_Cons]] by simp
    from stop [OF this] show ?thesis using a CHOMPING_KEEP
      by (subst header_loop.simps) (simp add: Let_def peek_Cons)
  qed
qed

section \<open>Loading a block\<close>

lemma readBlockScalar_lines:
  assumes "ahead st (x # chomp_mark c @ 10 # block_input (replicate n 32) ls @ [0])" "x = 124 \<or> x = 62" "\<forall>l \<in> set ls. line_ok l"
    "0 < n" "first_flush ls"
  shows "\<exists>st'. readBlockScalar 0 st = Inr (True, st') \<and> same_rest st st' \<and> ahead st' [0] \<and> lineStart st' = position st' \<and>
    ndresult st' = YStr (lines_text (x = 62) c (read_lines (x = 62) False 0 False ls))"
proof -
  let ?st = "st\<lparr>kind := Some Scalar, ndresult := YStr []\<rparr>"
  let ?st1 = "move (int (length (chomp_mark c)) + 1) ?st"
  have p: "peek st 0 = uint x" by (rule peek_Cons [OF assms(1)])
  have a: "ahead ?st (x # chomp_mark c @ 10 # block_input (replicate n 32) ls @ [0])" using assms(1) by (simp add: ahead_def)
  then have a1: "ahead ?st1 (10 # block_input (replicate n 32) ls @ [0])"
    using ahead_move [of ?st "x # chomp_mark c"] by (simp add: add.commute)
  then have sk: "skip_header ?st1 = ?st1" using peek_Cons [OF a1] by (simp add: skip_header_def is_WHITE_SPACE_def)
  have "\<exists>st'. block_loop (x = 62) c False 0 False (int 0) False ?st1 = Inr st' \<and> same_rest ?st1 st' \<and> ahead st' [0] \<and>
      lineStart st' = position st' \<and> ndresult st' = YStr ([] @ lines_text (x = 62) c (read_lines (x = 62) False 0 False ls))"
    by (rule block_loop_lines [OF a1 assms(3)]) (use assms(4,5) in simp_all)
  then obtain st' where st': "block_loop (x = 62) c False 0 False 0 False ?st1 = Inr st'" "same_rest ?st1 st'" "ahead st' [0]"
    "lineStart st' = position st'" "ndresult st' = YStr (lines_text (x = 62) c (read_lines (x = 62) False 0 False ls))" by auto
  have "readBlockScalar 0 st = Inr (True, st')"
    using assms(2) p st'(1) sk header_loop_mark [OF a, of 0] by (auto simp: readBlockScalar_def)
  moreover have "same_rest st st'" using st'(2) by (simp add: same_rest_def move_def)
  ultimately show ?thesis using st'(3-5) by blast
qed

lemma compose_top_block:
  assumes "ahead st (x # xs)" "x = 124 \<or> x = 62" "readBlockScalar 0 (tried st) = Inr (True, st2)" "tag st2 = None" "anchor st2 = None"
    "0 < n"
  shows "composeNode (Suc n) (- 1) CONTEXT_BLOCK_OUT False True st = Inr (True, st2)"
proof -
  let ?s1 = "(fresh st)\<lparr>heap := heap st @ [YArr []]\<rparr>"
  obtain m where n: "n = Suc m" using assms(6) by (cases n) auto
  have x: "scalar_start x" "uint x \<notin> {45, 63, 58, 0, 39, 34, 42, 91, 123}" using assms(2) by (auto simp: scalar_start_def is_WS_OR_EOL_def)
  have p: "peek st 0 = uint x" using assms(1) by (simp add: peek_Cons)
  then have ps: "peek ?s1 0 = uint x" by (simp add: peek_def fresh_def)
  have "scalar_content 0 CONTEXT_FLOW_OUT (tried st) = Inr (False, tried st)"
    using p x(2) assms(2)
    by (auto simp: scalar_content_def or_else_def guarded_def readSingleQuotedScalar_def readDoubleQuotedScalar_def readAlias_def
        readPlainScalar_def plain_start_def Let_def set_anchor_def)
  then have flow: "composeNode n 0 CONTEXT_FLOW_OUT False True (tried st) = Inr (False, tried st)"
    using p x(2) assms(1)
    by (simp add: n compose_step_def node_start_scalar [OF _ x(1), of _ xs] node_content_def or_else_def guarded_def
        readFlowCollection_def resolve_node_def)
  have sq: "readBlockSequence n cn b (fresh st) = Inr (False, ?s1)" for cn b
    using ps x(2) by (simp add: readBlockSequence_def new_cell_def set_anchor_def n fresh_def)
  have t: "set_anchor ((fresh st)\<lparr>heap := heap st @ [YArr [], YObj []]\<rparr>) v = tried st" for v
    by (simp add: set_anchor_def tried_def fresh_def)
  have "mapping_head (composeNode n) 0 (length (heap st) + 1) bmap_start (tried st) = Inr (Leave, tried st)"
    using p x(2) flow by (simp add: mapping_head_def implicit_head_def)
  then have mp: "readBlockMapping n (composeNode n) b 0 ?s1 = Inr (False, tried st)" for b
    using p x(2) by (simp add: readBlockMapping_def new_cell_def t n mapping_end_def bmap_start_def)
  have "scalar_content 0 CONTEXT_BLOCK_OUT (tried st) = Inr (True, st2)"
    using assms(3-5) by (simp add: scalar_content_def or_else_def guarded_def set_anchor_def)
  then show ?thesis
    using p x(2) assms(4,5)
    by (simp add: compose_step_def node_start_scalar [OF assms(1) x(1)] node_content_def or_else_def guarded_def sq mp
        readFlowCollection_def resolve_node_def)
qed

lemma load_block:
  assumes "x = 124 \<or> x = 62" "t \<noteq> []" "list_all (\<lambda>c. c = 10 \<or> isPrintable (uint c)) t" "\<not> needIndentIndicator t" "0 < i"
  shows "load env (x # chomp_mark c @ 10 # dropEndingNewline (indentString t i) @ [10]) no_load_options =
    Inr (YStr (lines_text (x = 62) c (read_lines (x = 62) False 0 False (lines_of t))), [YArr [], YObj []])"
proof -
  let ?ind = "replicate (nat i) (32 :: code_unit)"
  let ?t = "x # chomp_mark c @ 10 # dropEndingNewline (indentString t i) @ [10]"
  let ?st = "doc_state env ?t"
  have w: "dropEndingNewline (indentString t i) @ [10] = block_input ?ind (lines_of t)"
    using block_text_written [OF assms(2)] assms(5) by (simp add: block_input_def)
  have a: "ahead ?st (?t @ [0])" by (simp add: ahead_def)
  have "ahead (tried ?st) (x # chomp_mark c @ 10 # block_input ?ind (lines_of t) @ [0])"
    unfolding w [symmetric] using a by simp
  then have "\<exists>st'. readBlockScalar 0 (tried ?st) = Inr (True, st') \<and> same_rest (tried ?st) st' \<and> ahead st' [0] \<and> lineStart st' = position st' \<and>
      ndresult st' = YStr (lines_text (x = 62) c (read_lines (x = 62) False 0 False (lines_of t)))"
    by (rule readBlockScalar_lines [OF _ assms(1) lines_ok [OF assms(3)]]) (use assms(4,5) in \<open>simp_all add: first_flush_lines\<close>)
  then obtain st' where st': "readBlockScalar 0 (tried ?st) = Inr (True, st')" "same_rest (tried ?st) st'" "ahead st' [0]"
    "lineStart st' = position st'" "ndresult st' = YStr (lines_text (x = 62) c (read_lines (x = 62) False 0 False (lines_of t)))" by blast
  have f: "input st' = ?t @ [0]" "inputLength st' = int (length ?t)" "documents st' = []" "\<not> checkLineBreaks st'" "tag st' = None"
    "anchor st' = None" "heap st' = [YArr [], YObj []]" using st'(2) by (auto simp: same_rest_def)
  have ax: "ahead ?st (x # tl ?t @ [0])" using a by simp
  have "composeNode (Suc (2 * length ?t + 9)) (- 1) CONTEXT_BLOCK_OUT False True ?st = Inr (True, st')"
    by (rule compose_top_block [OF ax assms(1) st'(1) f(5,6)]) simp
  then have c: "composeNode (2 * length ?t + 10) (- 1) CONTEXT_BLOCK_OUT False True ?st = Inr (True, st')"
    by (simp add: numeral_eq_Suc)
  have x: "scalar_start x" using assms(1) by (auto simp: scalar_start_def is_WS_OR_EOL_def)
  have "load env ?t no_load_options = Inr (ndresult st', heap st')"
    by (rule load_one_node [OF refl _ _ x c f(1-4)]) (use st'(3,4) in simp_all)
  then show ?thesis using st'(5) f(7) by simp
qed

section \<open>The round trip\<close>

lemma block_style:
  assumes "string_style st s = STYLE_LITERAL \<or> string_style st s = STYLE_FOLDED"
  shows "s \<noteq> []" "list_all (\<lambda>c. c = 10 \<or> isPrintable (uint c)) s"
proof -
  let ?style = "chooseScalarStyle s (d_flowLevel st > - 1 \<and> 0 \<ge> d_flowLevel st) (d_indent st) (scalar_width st (d_indent st))
    (testImplicitResolving st)"
  have c: "s \<noteq> []" "?style = STYLE_LITERAL \<or> ?style = STYLE_FOLDED" using assms by (auto simp: string_style_def split: if_splits)
  show "s \<noteq> []" by (rule c(1))
  show "list_all (\<lambda>c. c = 10 \<or> isPrintable (uint c)) s"
    by (rule choose_cases [of s "d_flowLevel st > - 1 \<and> 0 \<ge> d_flowLevel st" "d_indent st" "scalar_width st (d_indent st)" "testImplicitResolving st"])
      (use c(2) in auto)
qed

text \<open>What \<open>writeScalar\<close> writes for a string is read back.\<close>

lemma chosen_text_reads:
  assumes "compiledImplicit (compileSchema (le_full env)) = implicit_types" "compiledImplicit (d_schema st) = implicit_types"
    "0 < d_indent st" "string_style st s = STYLE_PLAIN \<longrightarrow> \<not> separator_like s"
    "needIndentIndicator s \<longrightarrow> string_style st s \<notin> {STYLE_LITERAL, STYLE_FOLDED}"
  shows "\<exists>t. chosen_text st s = Inr t \<and> load env (t @ [10]) no_load_options = Inr (YStr s, [YArr [], YObj []])"
proof (cases "string_style st s")
  case STYLE_PLAIN
  have s: "s \<noteq> []" "chooseScalarStyle s (d_flowLevel st > - 1 \<and> 0 \<ge> d_flowLevel st) (d_indent st) (scalar_width st (d_indent st))
      (testImplicitResolving st) = STYLE_PLAIN" using STYLE_PLAIN by (auto simp: string_style_def split: if_splits)
  note p = plain_style [OF s(2,1)]
  have "\<not> list_ex (\<lambda>ty. ty_resolve ty [] (YStr s)) implicit_types" using p(2) assms(2) by (simp add: testImplicitResolving_def)
  from load_plain [OF p(1) _ assms(1) this] show ?thesis using STYLE_PLAIN assms(4) by (simp add: chosen_text_def)
next
  case STYLE_SINGLE
  have "list_all (\<lambda>c. isPrintable (uint c)) s"
    using STYLE_SINGLE old_booleans [of s] single_style by (auto simp: string_style_def split: if_splits)
  from load_single [OF this] show ?thesis using STYLE_SINGLE by (simp add: chosen_text_def)
next
  case STYLE_DOUBLE
  obtain e where "escapeString s = Inr e" "escaped e s" using escapeString_escaped by blast
  then show ?thesis using STYLE_DOUBLE load_double by (simp add: chosen_text_def)
next
  case STYLE_LITERAL
  have s: "s \<noteq> []" "list_all (\<lambda>c. c = 10 \<or> isPrintable (uint c)) s"
    using STYLE_LITERAL block_style by blast+
  have n: "\<not> needIndentIndicator s" using STYLE_LITERAL assms(5) by auto
  show ?thesis using load_block [of 124 s "d_indent st" env "chomp_of s"] STYLE_LITERAL s n assms(3) literal_text [OF s(1)] blockHeader_mark [OF s(1) n]
    by (simp add: chosen_text_def js_def)
next
  case STYLE_FOLDED
  let ?f = "foldString s (scalar_width st (d_indent st))"
  have s: "s \<noteq> []" "list_all (\<lambda>c. c = 10 \<or> isPrintable (uint c)) s"
    using STYLE_FOLDED block_style by blast+
  have n: "\<not> needIndentIndicator s" using STYLE_FOLDED assms(5) by auto
  have "list_all (\<lambda>c. c = 10 \<or> isPrintable (uint c)) ?f" using foldString_set [of s "scalar_width st (d_indent st)"] s(2) by (auto simp: list_all_iff)
  then show ?thesis using load_block [of 62 ?f "d_indent st" env "chomp_of s"] foldString_indent [OF s(1)] STYLE_FOLDED n assms(3)
      folded_text [OF s] blockHeader_mark [OF s(1) n]
    by (simp add: chosen_text_def js_def)
qed

lemma string_state_dump: "string_style ((string_state full opts)\<lparr>d_dump := v\<rparr>) s = string_style (string_state full opts) s"
  by (simp add: string_style_def scalar_width_def testImplicitResolving_def [abs_def])

text \<open>C1: whatever the options of the dumper, except a schema or styles of one's own, a string is written as a text from which
  the loader reads the same string: plain, in single or double quotes, as a literal block or as a folded block.  There are two
  exceptions.  A plain string that begins with three dots and a space, or is three dots, is read as the end of a document.  In
  a block with an indentation indicator (its first line of text starts with a space) the loader counts the indentation from
  one column less than the dumper.\<close>

theorem load_dump_string:
  fixes e f
  defines "full \<equiv> DEFAULT_FULL_SCHEMA e f"
  assumes "o_schema opts = None" "o_styles opts = None" "le_full env = full"
    "string_style (string_state full opts) s = STYLE_PLAIN \<longrightarrow> \<not> separator_like s"
    "needIndentIndicator s \<longrightarrow> string_style (string_state full opts) s \<notin> {STYLE_LITERAL, STYLE_FOLDED}"
  shows "\<exists>t h. dump full [] (YStr s) opts = Inr t \<and> load env t no_load_options = Inr (YStr s, h)"
proof -
  let ?st = "(string_state full opts)\<lparr>d_dump := YStr s\<rparr>"
  have "\<exists>t. chosen_text ?st s = Inr t \<and> load env (t @ [10]) no_load_options = Inr (YStr s, [YArr [], YObj []])"
    by (rule chosen_text_reads)
      (use assms(4-6) in \<open>simp_all only: string_state_dump full_def compiled_lists\<close>, simp_all add: string_state_def compiled_lists)
  then obtain t where "writeScalar ?st s 0 False = Inr t" "load env (t @ [10]) no_load_options = Inr (YStr s, [YArr [], YObj []])"
    by (auto simp: writeScalar_top)
  then show ?thesis using dump_string [OF assms(2,3), where e = e and f = f] by (auto simp: full_def)
qed

theorem load_dump_string_witness:
  "\<exists>t h. dump (DEFAULT_FULL_SCHEMA (\<lambda>_. None) (\<lambda>_ _. [])) [] (YStr [97, 10, 98]) no_options = Inr t \<and> load plain_env t no_load_options = Inr (YStr [97, 10, 98], h)"
proof -
  have "string_style (string_state full no_options) [97, 10, 98] = STYLE_LITERAL" for full
    by (simp add: string_style_def string_state_def no_options_def or_number_def chooseScalarStyle_def Let_def scalar_width_def isPrintable_def
        isPlainSafe_def foldable_line_def code_at_def DEPRECATED_BOOLEANS_SYNTAX_def js_def)
  moreover have "\<not> needIndentIndicator [97, 10, 98]" by (simp add: needIndentIndicator_def)
  ultimately show ?thesis
    using load_dump_string [of no_options plain_env "\<lambda>_. None" "\<lambda>_ _. []" "[97, 10, 98]"] by (simp add: no_options_def plain_env_def)
qed

end
