(* ===== verification/Yaml_Reader_Laws.thy ===== *)
theory Yaml_Reader_Laws
  imports Yaml_Document
begin

text \<open>
  The scanner and the readers of scalars end on every input, stay inside the input and do not go
  back: every step leaves a state that is placed in the text, and the only error that does not occur is
  the one for a loop without end.
\<close>

section \<open>Results without endless loops\<close>

definition ends :: "('a \<Rightarrow> bool) \<Rightarrow> 'a yresult \<Rightarrow> bool" where
  "ends P r \<longleftrightarrow> (case r of Inl e \<Rightarrow> e \<noteq> NoFuel | Inr x \<Rightarrow> P x)"

named_theorems ends_rules \<open>results of readers\<close>

lemma ends_simps [simp]: "ends P (Inr x) \<longleftrightarrow> P x" "ends P (Inl e) \<longleftrightarrow> e \<noteq> NoFuel"
  by (simp_all add: ends_def)

lemma ends_throw [simp]: "ends P (throwError st m)" "ends P (throwErrorWith st s)"
  by (simp_all add: throwError_def throwErrorWith_def generateError_def)

lemma ends_rbind [ends_rules]: "ends P (rbind r f) \<longleftrightarrow> ends (\<lambda>x. ends P (f x)) r"
  by (cases r) simp_all

lemma ends_case [ends_rules]: "ends P (case r of Inl e \<Rightarrow> Inl e | Inr x \<Rightarrow> f x) \<longleftrightarrow> ends (\<lambda>x. ends P (f x)) r"
  by (cases r) simp_all

lemma ends_if [ends_rules]: "ends P (if b then x else y) \<longleftrightarrow> (if b then ends P x else ends P y)"
  by simp

lemma ends_mono: "ends P r \<Longrightarrow> (\<And>x. P x \<Longrightarrow> Q x) \<Longrightarrow> ends Q r"
  by (cases r) simp_all

lemma ends_Inr: "ends P r \<Longrightarrow> r = Inr x \<Longrightarrow> P x"
  by simp

section \<open>Places in the text\<close>

text \<open>The text ends with a line break and the character 0.\<close>

definition text_ok :: "jstr \<Rightarrow> bool" where
  "text_ok t \<longleftrightarrow> 2 \<le> length t \<and> last t = 0 \<and> (t ! (length t - 2) = 10 \<or> t ! (length t - 2) = 13)"

definition placed :: "lstate \<Rightarrow> bool" where
  "placed st \<longleftrightarrow> text_ok (input st) \<and> inputLength st = int (length (input st)) - 1 \<and> 0 \<le> position st \<and>
     position st < int (length (input st)) \<and> lineStart st \<le> position st \<and> 0 \<le> lineIndent st \<and>
     (position st = lineStart st \<longrightarrow> lineIndent st = 0)"

text \<open>What the scanner and the readers of scalars leave alone; the result may become a string.\<close>

definition same_store :: "lstate \<Rightarrow> lstate \<Rightarrow> bool" where
  "same_store st st' \<longleftrightarrow> input st' = input st \<and> typeSchema st' = typeSchema st \<and> documents st' = documents st \<and>
     heap st' = heap st \<and> anchorMap st' = anchorMap st \<and> tag st' = tag st \<and> anchor st' = anchor st \<and>
     (ndresult st' = ndresult st \<or> (\<exists>s. ndresult st' = YStr s))"

definition steps :: "lstate \<Rightarrow> lstate \<Rightarrow> bool" where
  "steps st st' \<longleftrightarrow> placed st' \<and> same_store st st' \<and> position st \<le> position st'"

lemma same_store_refl [simp]: "same_store st st"
  by (simp add: same_store_def)

lemma same_store_trans: "same_store a b \<Longrightarrow> same_store b c \<Longrightarrow> same_store a c"
  by (auto simp: same_store_def)

lemma steps_refl: "placed st \<Longrightarrow> steps st st"
  by (simp add: steps_def)

lemma steps_trans: "steps a b \<Longrightarrow> steps b c \<Longrightarrow> steps a c"
  using same_store_trans [of a b c] by (auto simp: steps_def)

lemma steps_placed: "steps st st' \<Longrightarrow> placed st'"
  by (simp add: steps_def)

lemma steps_le: "steps st st' \<Longrightarrow> position st \<le> position st'"
  by (simp add: steps_def)

lemma placed_peek: "placed st \<Longrightarrow> peek st 0 = uint (input st ! nat (position st))"
  by (simp add: placed_def peek_def code_at_def)

lemma placed_not_end [simp]: "placed st \<Longrightarrow> peek st 0 \<noteq> - 1"
proof -
  assume "placed st"
  then have "0 \<le> peek st 0" by (simp add: placed_peek)
  then show ?thesis by linarith
qed

text \<open>At a character other than 0 there is another character behind.\<close>

lemma not_last: "placed st \<Longrightarrow> peek st 0 \<noteq> 0 \<Longrightarrow> position st + 1 < int (length (input st))"
proof (rule ccontr)
  assume p: "placed st" "peek st 0 \<noteq> 0" "\<not> position st + 1 < int (length (input st))"
  then have "nat (position st) = length (input st) - 1" "input st \<noteq> []" by (auto simp: placed_def)
  then have "input st ! nat (position st) = 0" using p(1) by (simp add: placed_def text_ok_def last_conv_nth)
  then show False using p(1,2) by (simp add: placed_peek)
qed

lemma not_last2: "placed st \<Longrightarrow> peek st 0 \<noteq> 0 \<Longrightarrow> \<not> is_EOL (peek st 0) \<Longrightarrow> position st + 2 < int (length (input st))"
proof (rule ccontr)
  assume p: "placed st" "peek st 0 \<noteq> 0" "\<not> is_EOL (peek st 0)" "\<not> position st + 2 < int (length (input st))"
  then have "nat (position st) = length (input st) - 2" using not_last [OF p(1,2)] by (auto simp: placed_def)
  then show False using p(1,3) by (auto simp: placed_peek is_EOL_def placed_def text_ok_def)
qed

lemma steps_forward:
  assumes "placed st" "0 < k" "position st + k < int (length (input st))"
  shows "steps st (move k st)"
  using assms by (auto simp: steps_def placed_def same_store_def move_def)

lemma steps_move1: "placed st \<Longrightarrow> peek st 0 \<noteq> 0 \<Longrightarrow> steps st (move 1 st)"
  using not_last steps_forward by simp

text \<open>A scan that stops at 0 stays inside.\<close>

lemma takeWhile_shorter: "x \<in> set t \<Longrightarrow> \<not> P x \<Longrightarrow> length (takeWhile P t) < length t"
  by (induction t) auto

lemma scan_length:
  assumes "placed st" "\<not> p 0"
  shows "length (takeWhile (\<lambda>c. p (uint c)) (drop (nat (position st)) (input st))) < length (input st) - nat (position st)"
proof -
  let ?t = "drop (nat (position st)) (input st)"
  have t: "?t \<noteq> []" "last ?t = 0" using assms(1) by (auto simp: placed_def text_ok_def)
  then have "0 \<in> set ?t" by (metis last_in_set)
  then have "length (takeWhile (\<lambda>c. p (uint c)) ?t) < length ?t" by (rule takeWhile_shorter) (simp add: assms(2))
  then show ?thesis by simp
qed

lemma scan_steps: "placed st \<Longrightarrow> \<not> p 0 \<Longrightarrow> steps st (scan p st)"
proof -
  assume a: "placed st" "\<not> p 0"
  let ?n = "length (takeWhile (\<lambda>c. p (uint c)) (drop (nat (position st)) (input st)))"
  have "?n < length (input st) - nat (position st)" using scan_length [where p = p, OF a(1)] a(2) by blast
  then have "position st + int ?n < int (length (input st))" using a(1) by (simp add: placed_def)
  then show ?thesis using steps_forward [OF a(1), of "int ?n"] steps_refl [OF a(1)]
    by (cases "?n = 0") (simp_all add: scan_def move_def)
qed

lemma scan_stop: "placed st \<Longrightarrow> \<not> p 0 \<Longrightarrow> \<not> p (peek (scan p st) 0)"
proof -
  assume a: "placed st" "\<not> p 0"
  let ?t = "drop (nat (position st)) (input st)"
  let ?n = "length (takeWhile (\<lambda>c. p (uint c)) ?t)"
  have n: "?n < length ?t" using scan_length [where p = p, OF a(1)] a(2) by simp
  then have "\<not> p (uint (?t ! ?n))" by (rule nth_length_takeWhile)
  moreover have "?t ! ?n = input st ! nat (position (scan p st))"
    using n a(1) by (simp add: scan_def nat_add_distrib placed_def)
  ultimately show ?thesis using placed_peek [OF steps_placed [OF scan_steps [where p = p, OF a(1) a(2)]]] by simp
qed

section \<open>Separation space\<close>

lemma skip_blank_steps: "placed st \<Longrightarrow> steps st (skip_blank b st)"
proof -
  assume st: "placed st"
  let ?st1 = "scan is_WHITE_SPACE st"
  have s1: "steps st ?st1" by (rule scan_steps [OF st]) (simp add: is_WHITE_SPACE_def)
  show ?thesis
  proof (cases "b \<and> peek ?st1 0 = 35")
    case True
    then have m: "steps ?st1 (move 1 ?st1)" using steps_move1 [OF steps_placed [OF s1]] by simp
    have "steps (move 1 ?st1) (scan (\<lambda>c. c \<noteq> 10 \<and> c \<noteq> 13 \<and> c \<noteq> 0) (move 1 ?st1))"
      by (rule scan_steps [OF steps_placed [OF m]]) simp
    from steps_trans [OF steps_trans [OF s1 m] this] show ?thesis using True by (simp add: skip_blank_def Let_def)
  next
    case False
    then have "skip_blank b st = ?st1" unfolding skip_blank_def Let_def by (simp only: if_False)
    then show ?thesis using s1 by simp
  qed
qed

text \<open>A line break and the indentation of the next line, the latter as the scanner or as a block scalar reads it.\<close>

lemma readLineBreak_next:
  assumes "readLineBreak st = Inr st1" "placed st"
  shows "text_ok (input st1)" "inputLength st1 = int (length (input st1)) - 1" "0 \<le> position st1"
    "position st1 < int (length (input st1))" "lineStart st1 = position st1" "same_store st st1" "position st < position st1"
    "input st1 = input st" "lineIndent st1 = lineIndent st"
proof -
  obtain k where k: "k = 1 \<or> (k = 2 \<and> peek st 0 = 13 \<and> peek st 1 = 10)" "peek st 0 = 10 \<or> peek st 0 = 13"
    "st1 = (move k st)\<lparr>line := line (move k st) + 1, lineStart := position (move k st)\<rparr>"
    using assms(1) by (auto simp: readLineBreak_def Let_def throwError_def split: if_splits)
  have n: "peek st 0 \<noteq> 0" using k(2) by auto
  have "k = 2 \<Longrightarrow> position st + 2 < int (length (input st))"
  proof -
    assume "k = 2"
    then have "peek (move 1 st) 0 = 10" using k(1) by (simp add: peek_def)
    then show ?thesis using not_last [OF steps_placed [OF steps_move1 [OF assms(2) n]]] by simp
  qed
  then have "position st + k < int (length (input st))" "0 < k" using k(1) not_last [OF assms(2) n] by auto
  then show "text_ok (input st1)" "inputLength st1 = int (length (input st1)) - 1" "0 \<le> position st1"
    "position st1 < int (length (input st1))" "lineStart st1 = position st1" "same_store st st1" "position st < position st1"
    "input st1 = input st" "lineIndent st1 = lineIndent st"
    using assms(2) k(3) by (auto simp: placed_def same_store_def move_def)
qed

lemma readLineBreak_ends: "ends (\<lambda>st1. True) (readLineBreak st)"
  by (auto simp: readLineBreak_def Let_def throwError_def generateError_def)

definition indented_by :: "lstate \<Rightarrow> nat \<Rightarrow> lstate" where
  "indented_by st n = (move (int n) st)\<lparr>lineIndent := int n\<rparr>"

lemma indented_steps:
  assumes "readLineBreak st = Inr st1" "placed st" "n \<le> length (takeWhile (\<lambda>c. c = 32) (drop (nat (position st1)) (input st1)))"
  shows "steps st (indented_by st1 n)" "position st < position (indented_by st1 n)"
proof -
  note r = readLineBreak_next [OF assms(1,2)]
  let ?t = "drop (nat (position st1)) (input st1)"
  have "?t \<noteq> []" "last ?t = 0" using r(1,3,4) by (auto simp: text_ok_def)
  then have "0 \<in> set ?t" by (metis last_in_set)
  then have "length (takeWhile (\<lambda>c. c = 32) ?t) < length ?t" by (rule takeWhile_shorter) simp
  then have "position st1 + int n < int (length (input st1))" using assms(3) r(3) by simp
  then show "steps st (indented_by st1 n)" "position st < position (indented_by st1 n)"
    using r by (auto simp: steps_def placed_def indented_by_def same_store_def move_def)
qed

lemma skip_indent_indented:
  "skip_indent st = indented_by st (length (takeWhile (\<lambda>c. c = 32) (drop (nat (position st)) (input st))))"
proof -
  have "(\<lambda>c. uint c = 32) = (\<lambda>c :: code_unit. c = 32)" by (auto simp: word_uint_eq_iff)
  then show ?thesis by (simp add: skip_indent_def indented_by_def Let_def scan_def)
qed

lemma text_indent_indented:
  "\<exists>n \<le> length (takeWhile (\<lambda>c. c = 32) (drop (nat (position st)) (input st))). text_indent d t st = indented_by st n"
proof -
  let ?n = "length (takeWhile (\<lambda>c. c = 32) (drop (nat (position st)) (input st)))"
  let ?k = "if d then max 0 (min (int ?n) t) else int ?n"
  have "int (nat ?k) = ?k" "nat ?k \<le> ?n" by auto
  then show ?thesis by (intro exI [of _ "nat ?k"]) (simp add: text_indent_def indented_by_def Let_def)
qed

text \<open>Fields that have nothing to do with the place.\<close>

lemma placed_update [simp]:
  "placed (st\<lparr>kind := k\<rparr>) = placed st" "placed (st\<lparr>ndresult := v\<rparr>) = placed st" "placed (st\<lparr>tag := t\<rparr>) = placed st"
  "placed (st\<lparr>anchor := a\<rparr>) = placed st" "placed (st\<lparr>heap := h\<rparr>) = placed st" "placed (st\<lparr>anchorMap := am\<rparr>) = placed st"
  "placed (st\<lparr>documents := ds\<rparr>) = placed st" "placed (st\<lparr>warnings := ws\<rparr>) = placed st" "placed (st\<lparr>tagMap := tm\<rparr>) = placed st"
  "placed (st\<lparr>version := ver\<rparr>) = placed st" "placed (st\<lparr>checkLineBreaks := c\<rparr>) = placed st"
  by (simp_all add: placed_def)

lemma peek_update [simp]:
  "peek (st\<lparr>kind := k\<rparr>) i = peek st i" "peek (st\<lparr>ndresult := v\<rparr>) i = peek st i" "peek (st\<lparr>tag := t\<rparr>) i = peek st i"
  "peek (st\<lparr>anchor := a\<rparr>) i = peek st i" "peek (st\<lparr>heap := h\<rparr>) i = peek st i" "peek (st\<lparr>anchorMap := am\<rparr>) i = peek st i"
  "peek (st\<lparr>warnings := ws\<rparr>) i = peek st i"
  by (simp_all add: peek_def)

lemma steps_warning [simp]: "steps st (throwWarning st' m) = steps st st'" "peek (throwWarning st' m) i = peek st' i"
  by (simp_all add: steps_def same_store_def throwWarning_def)

lemma skip_lines_ends:
  "placed st \<Longrightarrow> ends (\<lambda>(n, st'). steps st st' \<and> \<not> is_EOL (peek st' 0)) (skip_lines b k st)"
proof (induction b k st rule: skip_lines.induct)
  case (1 b k st)
  let ?st1 = "skip_blank b st"
  have s1: "steps st ?st1" by (rule skip_blank_steps [OF 1(2)])
  show ?case
  proof (cases "is_EOL (peek ?st1 0) \<and> peek st 0 \<noteq> 0")
    case False
    then show ?thesis using s1 steps_refl [OF 1(2)] by (subst skip_lines.simps) (auto simp: Let_def is_EOL_def)
  next
    case True
    show ?thesis
    proof (cases "readLineBreak ?st1")
      case (Inl e)
      then show ?thesis using True readLineBreak_ends [of ?st1] by (subst skip_lines.simps) (simp add: Let_def)
    next
      case (Inr st2)
      have s2: "steps ?st1 (skip_indent st2)"
        unfolding skip_indent_indented by (rule indented_steps(1) [OF Inr steps_placed [OF s1]]) simp
      have "ends (\<lambda>(n, st'). steps (skip_indent st2) st' \<and> \<not> is_EOL (peek st' 0)) (skip_lines b (k + 1) (skip_indent st2))"
        using 1(1) [OF refl _ _ Inr steps_placed [OF s2]] True by simp
      then have "ends (\<lambda>(n, st'). steps st st' \<and> \<not> is_EOL (peek st' 0)) (skip_lines b (k + 1) (skip_indent st2))"
        by (rule ends_mono) (use steps_trans [OF steps_trans [OF s1 s2]] in auto)
      then show ?thesis using True Inr by (subst skip_lines.simps) (simp add: Let_def)
    qed
  qed
qed

lemma skipSeparationSpace_ends:
  "placed st \<Longrightarrow> ends (\<lambda>(n, st'). steps st st' \<and> \<not> is_EOL (peek st' 0)) (skipSeparationSpace b c st)"
  unfolding skipSeparationSpace_def ends_rbind by (rule ends_mono [OF skip_lines_ends]) auto

lemma skip_space_ends: "placed st \<Longrightarrow> ends (steps st) (skip_space c st)"
  unfolding skip_space_def ends_rbind by (rule ends_mono [OF skipSeparationSpace_ends]) auto

section \<open>Text of a scalar\<close>

definition retext :: "lstate \<Rightarrow> lstate \<Rightarrow> bool" where
  "retext st st' \<longleftrightarrow> (\<exists>v. st' = st\<lparr>ndresult := v\<rparr> \<and> (v = ndresult st \<or> (\<exists>s. v = YStr s)))"

lemma retext_refl [simp]: "retext st st"
  unfolding retext_def by (rule exI [of _ "ndresult st"]) simp

lemma retext_text [simp]: "retext st (st\<lparr>ndresult := YStr s\<rparr>)" "retext st (add_result st t)"
  unfolding retext_def add_result_def by blast+

lemma retext_folded [simp]: "retext st (writeFoldedLines st n)"
  by (simp add: writeFoldedLines_def)

lemma retext_trans: "retext a b \<Longrightarrow> retext b c \<Longrightarrow> retext a c"
proof -
  assume "retext a b" "retext b c"
  then obtain v w where "b = a\<lparr>ndresult := v\<rparr>" "v = ndresult a \<or> (\<exists>s. v = YStr s)" "c = b\<lparr>ndresult := w\<rparr>"
    "w = ndresult b \<or> (\<exists>s. w = YStr s)" unfolding retext_def by blast
  then have "c = a\<lparr>ndresult := w\<rparr>" "w = ndresult a \<or> (\<exists>s. w = YStr s)" by auto
  then show "retext a c" unfolding retext_def by blast
qed

lemma retext_facts:
  assumes "retext st st'"
  shows "position st' = position st" "line st' = line st" "lineStart st' = lineStart st" "lineIndent st' = lineIndent st"
    "input st' = input st" "placed st' = placed st" "peek st' k = peek st k" "same_store st st'" "steps st0 st \<Longrightarrow> steps st0 st'"
proof -
  from assms obtain v where v: "st' = st\<lparr>ndresult := v\<rparr>" "v = ndresult st \<or> (\<exists>s. v = YStr s)" unfolding retext_def by blast
  show p: "position st' = position st" "placed st' = placed st" "same_store st st'"
    "line st' = line st" "lineStart st' = lineStart st" "lineIndent st' = lineIndent st"
    "input st' = input st" "peek st' k = peek st k"
    using v(2) unfolding v(1) by (simp_all add: same_store_def)
  show "steps st0 st \<Longrightarrow> steps st0 st'" using same_store_trans [OF _ p(3)] p(1,2) unfolding steps_def by metis
qed

lemma captureSegment_ends: "ends (retext st) (captureSegment st a b j)"
  by (auto simp: captureSegment_def Let_def)

section \<open>Plain scalars\<close>

text \<open>
  The loop of \<open>readPlainScalar\<close>, begun at \<open>p0\<close>: the end of the captured text lies behind the begin, and on the
  current line unless a line break is pending.
\<close>

definition plain_inv :: "int \<Rightarrow> int \<Rightarrow> bool \<Rightarrow> lstate \<Rightarrow> bool" where
  "plain_inv p0 ce pending st \<longleftrightarrow> placed st \<and> 0 \<le> p0 \<and> p0 \<le> ce \<and> ce \<le> position st \<and> (pending \<longrightarrow> \<not> is_EOL (peek st 0)) \<and>
     (\<not> pending \<longrightarrow> lineStart st \<le> ce \<and> (ce = lineStart st \<longrightarrow> lineIndent st = 0))"

lemma plain_loop_ends:
  "plain_inv p0 ce pending st \<Longrightarrow>
     ends (\<lambda>q. placed (snd (snd q)) \<and> same_store st (snd (snd q)) \<and> p0 \<le> position (snd (snd q))) (plain_loop i w l cs ce pending st)"
proof (induction i w l cs ce pending st rule: plain_loop.induct)
  case (1 i w l cs ce pending st)
  let ?P = "\<lambda>s q. placed (snd (snd q)) \<and> same_store s (snd (snd q)) \<and> p0 \<le> position (snd (snd q))"
  have st: "placed st" "p0 \<le> ce" "ce \<le> position st" using 1(3) by (auto simp: plain_inv_def)
  have here: "?P st (cs, ce, st)" using st by simp
  let ?ch = "peek st 0"
  consider (stop) "?ch = 0 \<or> plain_stop st w" | (eol) "?ch \<noteq> 0" "\<not> plain_stop st w" "is_EOL ?ch" | (char) "?ch \<noteq> 0" "\<not> plain_stop st w" "\<not> is_EOL ?ch"
    by blast
  then show ?case
  proof cases
    case stop
    then show ?thesis using here st by (subst plain_loop.simps) (auto simp: Let_def)
  next
    case eol
    then have np: "\<not> pending" "lineStart st \<le> ce" "ce = lineStart st \<longrightarrow> lineIndent st = 0" using 1(3) by (auto simp: plain_inv_def)
    have "ends (\<lambda>x. ends (?P st) (case x of (n, st1) \<Rightarrow>
        if lineIndent st1 \<ge> i then plain_loop i w (line st) cs ce True st1
        else Inr (cs, ce, st1\<lparr>position := ce, line := line st, lineStart := lineStart st, lineIndent := lineIndent st\<rparr>)))
        (skipSeparationSpace False (- 1) st)"
    proof (cases "skipSeparationSpace False (- 1) st")
      case (Inl e)
      then show ?thesis using skipSeparationSpace_ends [OF st(1), of False "- 1"] by simp
    next
      case (Inr x)
      obtain n st1 where x: "x = (n, st1)" by (cases x)
      have s: "steps st st1" "\<not> is_EOL (peek st1 0)" using skipSeparationSpace_ends [OF st(1), of False "- 1"] Inr x by simp_all
      have "same_store st st1" using s(1) by (simp add: steps_def)
      have inv: "plain_inv p0 ce True st1" using s 1(3) steps_le [OF s(1)] steps_placed [OF s(1)] by (simp add: plain_inv_def)
      have "ends (?P st1) (plain_loop i w (line st) cs ce True st1)" if "lineIndent st1 \<ge> i"
        by (rule 1(1) [OF refl _ _ _ _ Inr x [symmetric] that inv]) (use eol st in simp_all)
      then have "ends (?P st) (plain_loop i w (line st) cs ce True st1)" if "lineIndent st1 \<ge> i"
        by (rule ends_mono) (use that \<open>same_store st st1\<close> same_store_trans in blast)+
      moreover have "?P st (cs, ce, st1\<lparr>position := ce, line := line st, lineStart := lineStart st, lineIndent := lineIndent st\<rparr>)"
        using 1(3) np s(1) by (auto simp: plain_inv_def placed_def steps_def same_store_def)
      ultimately show ?thesis using Inr x by simp
    qed
    then show ?thesis using eol st by (subst plain_loop.simps) (simp add: Let_def ends_rules)
  next
    case char
    let ?r = "if pending then rbind (captureSegment st cs ce False) (\<lambda>st1. Inr (position st, position st, writeFoldedLines st1 (line st1 - l)))
      else Inr (cs, ce, st)"
    let ?cont = "\<lambda>x. case x of (start1, end1, st2) \<Rightarrow>
      plain_loop i w l start1 (if is_WHITE_SPACE ?ch then end1 else position st2 + 1) False (move 1 st2)"
    have "ends (\<lambda>x. ends (?P st) (?cont x)) ?r"
    proof (cases ?r)
      case (Inl e)
      then show ?thesis using captureSegment_ends [of st cs ce False] by (auto simp: rbind_def split: if_splits sum.splits)
    next
      case (Inr x)
      obtain start1 end1 st2 where x: "x = (start1, end1, st2)" by (cases x) auto
      have r: "retext st st2 \<and> end1 = (if pending then position st else ce)"
      proof (cases pending)
        case True
        then obtain st1 where "captureSegment st cs ce False = Inr st1" "st2 = writeFoldedLines st1 (line st1 - l)" "end1 = position st"
          using Inr x by (auto simp: rbind_Inr_iff)
        then show ?thesis using True ends_Inr [OF captureSegment_ends] retext_trans [OF _ retext_folded] by simp
      next
        case False
        then show ?thesis using Inr x by simp
      qed
      note f = retext_facts [OF conjunct1 [OF r]]
      have s: "steps st2 (move 1 st2)" using steps_move1 [of st2] st(1) f(6,7) char(1) by simp
      have pl: "placed (move 1 st2)" "same_store st (move 1 st2)"
        using s same_store_trans [OF f(8)] by (auto simp: steps_def)
      have inv: "plain_inv p0 (if is_WHITE_SPACE ?ch then end1 else position st2 + 1) False (move 1 st2)"
        using 1(3) pl(1) r f char by (auto simp: plain_inv_def placed_def move_def)
      have "ends (?P (move 1 st2)) (?cont x)"
        unfolding x prod.case by (rule 1(2) [OF refl _ _ _ _ Inr x [symmetric] refl inv]) (use char st in simp_all)
      then have "ends (?P st) (?cont x)" by (rule ends_mono) (use pl(2) same_store_trans in blast)
      then show ?thesis using Inr by simp
    qed
    then show ?thesis using char st by (subst plain_loop.simps) (simp only: Let_def ends_rules if_False simp_thms placed_not_end)
  qed
qed

lemma ends_steps: "steps st st1 \<Longrightarrow> ends (\<lambda>q. steps st1 (snd q)) r \<Longrightarrow> ends (\<lambda>q. steps st (snd q)) r"
  by (erule ends_mono) (rule steps_trans)

lemma steps_update [simp]: "steps st (st'\<lparr>kind := k\<rparr>) = steps st st'"
  by (simp add: steps_def same_store_def)

lemma readPlainScalar_ends: "placed st \<Longrightarrow> ends (\<lambda>q. steps st (snd q)) (readPlainScalar i w st)"
proof (cases "plain_start st w")
  case False
  assume "placed st"
  then show ?thesis using False by (simp add: readPlainScalar_def steps_refl)
next
  case True
  assume st: "placed st"
  let ?st1 = "st\<lparr>kind := Some Scalar, ndresult := YStr []\<rparr>"
  have "plain_inv (position st) (position st) False ?st1" using st by (auto simp: plain_inv_def placed_def)
  from plain_loop_ends [OF this] have l: "ends (\<lambda>q. steps st (snd (snd q))) (plain_loop i w 0 (position st) (position st) False ?st1)"
    by (rule ends_mono) (auto simp: steps_def same_store_def)
  have c: "ends (\<lambda>q. steps st (snd q)) (rbind (captureSegment st2 a b False) (\<lambda>st3.
      if result_text st3 \<noteq> [] then Inr (True, st3) else Inr (False, st3\<lparr>kind := kind st, ndresult := ndresult st\<rparr>)))"
    if s: "steps st st2" for a b st2
    unfolding ends_rbind
  proof (rule ends_mono [OF captureSegment_ends])
    fix st3
    assume "retext st2 st3"
    from retext_facts(9) [OF this s] have "steps st st3" .
    moreover from this have "steps st (st3\<lparr>kind := kind st, ndresult := ndresult st\<rparr>)" by (auto simp: steps_def same_store_def)
    ultimately show "ends (\<lambda>q. steps st (snd q))
        (if result_text st3 \<noteq> [] then Inr (True, st3) else Inr (False, st3\<lparr>kind := kind st, ndresult := ndresult st\<rparr>))" by simp
  qed
  have "readPlainScalar i w st = rbind (plain_loop i w 0 (position st) (position st) False ?st1) (\<lambda>(cs, ce, st2).
      rbind (captureSegment st2 cs ce False) (\<lambda>st3.
        if result_text st3 \<noteq> [] then Inr (True, st3) else Inr (False, st3\<lparr>kind := kind st, ndresult := ndresult st\<rparr>)))"
    using True by (simp add: readPlainScalar_def)
  then show ?thesis unfolding ends_rbind by (simp only: ends_rbind) (rule ends_mono [OF l], use c in \<open>auto simp: ends_rbind\<close>)
qed

section \<open>Quoted scalars\<close>

lemma ends_capture:
  assumes "\<And>st1. retext st st1 \<Longrightarrow> captureSegment st a b j = Inr st1 \<Longrightarrow> ends P (f st1)"
  shows "ends (\<lambda>st1. ends P (f st1)) (captureSegment st a b j)"
  using captureSegment_ends [of st a b j] assms by (cases "captureSegment st a b j") simp_all

lemma ends_space:
  assumes "placed st" "\<And>n st1. steps st st1 \<Longrightarrow> skipSeparationSpace c k st = Inr (n, st1) \<Longrightarrow> ends P (f (n, st1))"
  shows "ends (\<lambda>q. ends P (f q)) (skipSeparationSpace c k st)"
  using skipSeparationSpace_ends [OF assms(1), of c k] assms(2) by (cases "skipSeparationSpace c k st") auto

text \<open>A line break inside quotes.\<close>

lemma break_ends:
  assumes "placed st"
    "\<And>st1 n st2. captureSegment st a b True = Inr st1 \<Longrightarrow> skipSeparationSpace False i st1 = Inr (n, st2) \<Longrightarrow>
       placed (writeFoldedLines st2 n) \<Longrightarrow> ends (\<lambda>q. steps (writeFoldedLines st2 n) (snd q)) (g n st2)"
  shows "ends (\<lambda>q. steps st (snd q)) (case captureSegment st a b True of Inl e \<Rightarrow> Inl e | Inr st1 \<Rightarrow>
    (case skipSeparationSpace False i st1 of Inl e \<Rightarrow> Inl e | Inr (n, st2) \<Rightarrow> g n st2))"
  unfolding ends_case
proof (rule ends_capture)
  fix st1
  assume r: "retext st st1" and c: "captureSegment st a b True = Inr st1"
  have p1: "placed st1" "steps st st1" using retext_facts(6,9) [OF r] assms(1) steps_refl by simp_all
  have "ends (\<lambda>q. steps st (snd q)) (g n st2)" if s: "steps st1 st2" "skipSeparationSpace False i st1 = Inr (n, st2)" for n st2
  proof -
    have s2: "steps st (writeFoldedLines st2 n)" using retext_facts(9) [OF retext_folded] steps_trans [OF p1(2) s(1)] by blast
    from assms(2) [OF c s(2) steps_placed [OF s2]] show ?thesis by (rule ends_steps [OF s2])
  qed
  then show "ends (\<lambda>q. ends (\<lambda>q. steps st (snd q)) (case q of (n, st2) \<Rightarrow> g n st2)) (skipSeparationSpace False i st1)"
    by (intro ends_space [OF p1(1)]) simp
qed

lemma single_loop_ends: "placed st \<Longrightarrow> ends (\<lambda>q. steps st (snd q)) (single_loop i a b st)"
proof (induction i a b st rule: single_loop.induct)
  case (1 i a b st)
  let ?ch = "peek st 0"
  consider "?ch = 0" | (quote) "?ch = 39" | (eol) "is_EOL ?ch"
    | (sep) "position st = lineStart st \<and> testDocumentSeparator st" "?ch \<noteq> 0" "?ch \<noteq> 39" "\<not> is_EOL ?ch"
    | (char) "?ch \<noteq> 0" "?ch \<noteq> 39" "\<not> is_EOL ?ch" "\<not> (position st = lineStart st \<and> testDocumentSeparator st)" by blast
  then show ?case
  proof cases
    case 1
    then show ?thesis by (subst single_loop.simps) simp
  next
    case quote
    have eq: "single_loop i a b st = (case captureSegment st a (position st) True of Inl e \<Rightarrow> Inl e | Inr st1 \<Rightarrow>
        if peek st1 1 = 39 then single_loop i (position st1 + 1) (position st1 + 2) (move 2 st1) else Inr (True, move 1 st1))"
      using quote by (subst single_loop.simps) (simp add: Let_def)
    show ?thesis unfolding eq ends_case
    proof (rule ends_capture)
      fix st1
      assume r: "retext st st1" and c: "captureSegment st a (position st) True = Inr st1"
      note f = retext_facts [OF r]
      have p1: "placed st1" "peek st1 0 \<noteq> 0" "\<not> is_EOL (peek st1 0)" using f(6,7) "1.prems" quote by (simp_all add: is_EOL_def)
      have m: "steps st (move 1 st1)" "steps st (move 2 st1)"
        using steps_trans [OF f(9) [OF steps_refl [OF "1.prems"]]] steps_move1 [OF p1(1,2)] steps_forward [OF p1(1), of 2] not_last2 [OF p1] by simp_all
      have "ends (\<lambda>q. steps (move 2 st1) (snd q)) (single_loop i (position st1 + 1) (position st1 + 2) (move 2 st1))" if "peek st1 1 = 39"
        by (rule "1.IH"(1) [OF refl _ _ _ c that steps_placed [OF m(2)]]) (use quote "1.prems" in simp_all)
      from ends_steps [OF m(2) this] m(1)
      show "ends (\<lambda>q. steps st (snd q)) (if peek st1 1 = 39 then single_loop i (position st1 + 1) (position st1 + 2) (move 2 st1) else Inr (True, move 1 st1))"
        by (cases "peek st1 1 = 39") simp_all
    qed
  next
    case eol
    have eq: "single_loop i a b st = (case captureSegment st a b True of Inl e \<Rightarrow> Inl e | Inr st1 \<Rightarrow>
        (case skipSeparationSpace False i st1 of Inl e \<Rightarrow> Inl e
         | Inr (n, st2) \<Rightarrow> single_loop i (position st2) (position st2) (writeFoldedLines st2 n)))"
      using eol by (subst single_loop.simps) (auto simp: Let_def is_EOL_def)
    show ?thesis unfolding eq
      by (rule break_ends [OF "1.prems"], rule "1.IH"(2) [OF refl]) (use eol "1.prems" in \<open>auto simp: is_EOL_def\<close>)
  next
    case sep
    then show ?thesis using "1.prems" by (subst single_loop.simps) (simp add: Let_def)
  next
    case char
    have m: "steps st (move 1 st)" by (rule steps_move1 [OF "1.prems" char(1)])
    have "ends (\<lambda>q. steps (move 1 st) (snd q)) (single_loop i a (position st + 1) (move 1 st))"
      by (rule "1.IH"(3) [OF refl _ _ _ _ _ steps_placed [OF m]]) (use char "1.prems" in simp_all)
    then have "ends (\<lambda>q. steps st (snd q)) (single_loop i a (position st + 1) (move 1 st))" by (rule ends_steps [OF m])
    then show ?thesis using char "1.prems" by (subst single_loop.simps) (auto simp: Let_def)
  qed
qed

text \<open>Escapes.\<close>

lemma hex_digits_ends:
  "placed st \<Longrightarrow> peek st 0 \<noteq> 0 \<Longrightarrow> ends (\<lambda>q. steps st (snd q) \<and> peek (snd q) 0 \<noteq> 0) (hex_digits n r st)"
proof (induction n arbitrary: r st)
  case 0
  then show ?case by (simp add: steps_refl)
next
  case (Suc n)
  have m: "steps st (move 1 st)" by (rule steps_move1 [OF Suc.prems])
  show ?case
  proof (cases "fromHexCode (peek (move 1 st) 0) \<ge> 0")
    case True
    moreover have "fromHexCode 0 = - 1" by code_simp
    ultimately have "peek (move 1 st) 0 \<noteq> 0" by auto
    from Suc.IH [OF steps_placed [OF m] this] have "ends (\<lambda>q. steps st (snd q) \<and> peek (snd q) 0 \<noteq> 0) (hex_digits n r1 (move 1 st))" for r1
      by (rule ends_mono) (use steps_trans [OF m] in blast)
    then show ?thesis using True by (simp add: Let_def)
  qed (simp add: Let_def)
qed

lemma read_escape_ends:
  assumes "placed st"
  shows "ends (steps st) (read_escape i st)"
proof -
  let ?ch = "peek st 0"
  have sp: "ends (steps st) (rbind (skipSeparationSpace False i st) (\<lambda>(n, st1). Inr st1))"
    unfolding ends_rbind by (rule ends_mono [OF skipSeparationSpace_ends [OF assms]]) auto
  have sm: "steps st (move 1 (add_result st (simpleEscapeSequence ?ch)))" if "simpleEscapeSequence ?ch \<noteq> []"
  proof -
    have "?ch \<noteq> 0" using that by (auto simp: simpleEscapeSequence_def)
    then have "steps (add_result st (simpleEscapeSequence ?ch)) (move 1 (add_result st (simpleEscapeSequence ?ch)))"
      using retext_facts(6,7) [OF retext_text(2)] assms by (intro steps_move1) simp_all
    then show ?thesis using steps_trans [OF retext_facts(9) [OF retext_text(2) steps_refl [OF assms]]] by blast
  qed
  have hx: "ends (steps st) (rbind (hex_digits (escapedHexLen ?ch) 0 st) (\<lambda>(hexResult, st1).
      Inr (move 1 (add_result st1 (charFromCodepoint hexResult)))))" if "escapedHexLen ?ch > 0"
  proof -
    have "?ch \<noteq> 0" using that by (auto simp: escapedHexLen_def)
    then show ?thesis unfolding ends_rbind
    proof (rule ends_mono [OF hex_digits_ends [OF assms]])
      fix q :: "int \<times> lstate"
      assume q: "steps st (snd q) \<and> peek (snd q) 0 \<noteq> 0"
      let ?st2 = "add_result (snd q) (charFromCodepoint (fst q))"
      have "steps st ?st2" "peek ?st2 0 \<noteq> 0" using q retext_facts(7,9) [OF retext_text(2)] by simp_all
      then have "steps st (move 1 ?st2)" using steps_trans [OF _ steps_move1 [OF steps_placed]] by blast
      then show "ends (steps st) (case q of (hexResult, st1) \<Rightarrow> Inr (move 1 (add_result st1 (charFromCodepoint hexResult))))"
        by (cases q) simp
    qed
  qed
  show ?thesis using sp sm hx by (simp add: read_escape_def Let_def)
qed

lemma double_loop_ends: "placed st \<Longrightarrow> ends (\<lambda>q. steps st (snd q)) (double_loop i a b st)"
proof (induction i a b st rule: double_loop.induct)
  case (1 i a b st)
  let ?ch = "peek st 0"
  consider "?ch = 0" | (quote) "?ch = 34" | (escape) "?ch = 92" | (eol) "is_EOL ?ch"
    | (sep) "position st = lineStart st \<and> testDocumentSeparator st" "?ch \<noteq> 0" "?ch \<noteq> 34" "?ch \<noteq> 92" "\<not> is_EOL ?ch"
    | (char) "?ch \<noteq> 0" "?ch \<noteq> 34" "?ch \<noteq> 92" "\<not> is_EOL ?ch" "\<not> (position st = lineStart st \<and> testDocumentSeparator st)" by blast
  then show ?case
  proof cases
    case 1
    then show ?thesis by (subst double_loop.simps) simp
  next
    case quote
    have eq: "double_loop i a b st = rbind (captureSegment st a (position st) True) (\<lambda>st1. Inr (True, move 1 st1))"
      using quote by (subst double_loop.simps) (simp add: Let_def)
    show ?thesis unfolding eq ends_rbind
    proof (rule ends_capture)
      fix st1
      assume r: "retext st st1"
      have "steps st1 (move 1 st1)" using retext_facts(6,7) [OF r] "1.prems" quote by (intro steps_move1) simp_all
      then show "ends (\<lambda>q. steps st (snd q)) (Inr (True, move 1 st1))"
        using steps_trans [OF retext_facts(9) [OF r steps_refl [OF "1.prems"]]] by simp
    qed
  next
    case escape
    have eq: "double_loop i a b st = (case captureSegment st a (position st) True of Inl e \<Rightarrow> Inl e | Inr st1 \<Rightarrow>
        (case read_escape i (move 1 st1) of Inl e \<Rightarrow> Inl e | Inr st2 \<Rightarrow> double_loop i (position st2) (position st2) st2))"
      using escape by (subst double_loop.simps) (simp add: Let_def)
    show ?thesis unfolding eq ends_case
    proof (rule ends_capture)
      fix st1
      assume r: "retext st st1" and c: "captureSegment st a (position st) True = Inr st1"
      have "steps st1 (move 1 st1)" using retext_facts(6,7) [OF r] "1.prems" escape by (intro steps_move1) simp_all
      then have m: "steps st (move 1 st1)" using steps_trans [OF retext_facts(9) [OF r steps_refl [OF "1.prems"]]] by blast
      note e = read_escape_ends [OF steps_placed [OF m], of i]
      show "ends (\<lambda>st2. ends (\<lambda>q. steps st (snd q)) (double_loop i (position st2) (position st2) st2)) (read_escape i (move 1 st1))"
      proof (cases "read_escape i (move 1 st1)")
        case (Inl x)
        then show ?thesis using e by simp
      next
        case (Inr st2)
        have s2: "steps st st2" using e Inr steps_trans [OF m] by simp
        have "ends (\<lambda>q. steps st2 (snd q)) (double_loop i (position st2) (position st2) st2)"
          by (rule "1.IH"(1) [OF refl _ _ _ _ c Inr steps_placed [OF s2]]) (use escape "1.prems" in simp_all)
        from ends_steps [OF s2 this] show ?thesis using Inr by simp
      qed
    qed
  next
    case eol
    have eq: "double_loop i a b st = (case captureSegment st a b True of Inl e \<Rightarrow> Inl e | Inr st1 \<Rightarrow>
        (case skipSeparationSpace False i st1 of Inl e \<Rightarrow> Inl e
         | Inr (n, st2) \<Rightarrow> double_loop i (position st2) (position st2) (writeFoldedLines st2 n)))"
      using eol by (subst double_loop.simps) (auto simp: Let_def is_EOL_def)
    show ?thesis unfolding eq
      by (rule break_ends [OF "1.prems"], rule "1.IH"(2) [OF refl]) (use eol "1.prems" in \<open>auto simp: is_EOL_def\<close>)
  next
    case sep
    then show ?thesis using "1.prems" by (subst double_loop.simps) (simp add: Let_def)
  next
    case char
    have m: "steps st (move 1 st)" by (rule steps_move1 [OF "1.prems" char(1)])
    have "ends (\<lambda>q. steps (move 1 st) (snd q)) (double_loop i a (position st + 1) (move 1 st))"
      by (rule "1.IH"(3) [OF refl _ _ _ _ _ _ steps_placed [OF m]]) (use char "1.prems" in simp_all)
    then have "ends (\<lambda>q. steps st (snd q)) (double_loop i a (position st + 1) (move 1 st))" by (rule ends_steps [OF m])
    then show ?thesis using char "1.prems" by (subst double_loop.simps) (auto simp: Let_def)
  qed
qed

lemma quoted_start: "placed st \<Longrightarrow> peek st 0 \<noteq> 0 \<Longrightarrow> steps st (move 1 (st\<lparr>kind := Some Scalar, ndresult := YStr []\<rparr>))"
  using not_last [of st] by (auto simp: steps_def placed_def same_store_def move_def)

lemma quoted_ends:
  "placed st \<Longrightarrow> ends (\<lambda>q. steps st (snd q)) (readSingleQuotedScalar i st)"
  "placed st \<Longrightarrow> ends (\<lambda>q. steps st (snd q)) (readDoubleQuotedScalar i st)"
  using steps_refl [of st] ends_steps [OF quoted_start single_loop_ends [OF steps_placed [OF quoted_start]]]
    ends_steps [OF quoted_start double_loop_ends [OF steps_placed [OF quoted_start]]]
  by (auto simp: readSingleQuotedScalar_def readDoubleQuotedScalar_def Let_def)

section \<open>Block scalars\<close>

lemma header_loop_ends:
  "placed st \<Longrightarrow> peek st 0 \<noteq> 0 \<Longrightarrow> ends (\<lambda>q. steps st (snd (snd (snd q)))) (header_loop i c t d st)"
proof (induction i c t d st rule: header_loop.induct)
  case (1 i c t d st0)
  let ?st = "move 1 st0" and ?P = "\<lambda>s q. steps s (snd (snd (snd q)))"
  have m: "steps st0 ?st" by (rule steps_move1 [OF 1(3,4)])
  have up: "ends (?P ?st) r \<Longrightarrow> ends (?P st0) r" for r by (erule ends_mono) (rule steps_trans [OF m])
  have a: "ends (?P st0) (header_loop i (if peek ?st 0 = 43 then CHOMPING_KEEP else CHOMPING_STRIP) t d ?st)"
    if "peek ?st 0 = 43 \<or> peek ?st 0 = 45" "c = CHOMPING_CLIP"
    by (rule up, rule 1(1) [OF refl refl refl that steps_placed [OF m]]) (use that in auto)
  have b: "ends (?P st0) (header_loop i c (i + fromDecimalCode (peek ?st 0) - 1) True ?st)"
    if "\<not> (peek ?st 0 = 43 \<or> peek ?st 0 = 45)" "fromDecimalCode (peek ?st 0) \<ge> 0" "fromDecimalCode (peek ?st 0) \<noteq> 0" "\<not> d"
    by (rule up, rule 1(2) [OF refl refl refl that(1,2,3) _ steps_placed [OF m]]) (use that in \<open>auto simp: fromDecimalCode_def split: if_splits\<close>)
  show ?case using a b m by (subst header_loop.simps) (auto simp: Let_def)
qed

lemma skip_header_steps: "placed st \<Longrightarrow> steps st (skip_header st)"
proof -
  assume st: "placed st"
  let ?st1 = "scan is_WHITE_SPACE st"
  have s1: "steps st ?st1" by (rule scan_steps [OF st]) (simp add: is_WHITE_SPACE_def)
  have "steps st (scan (\<lambda>c. \<not> is_EOL c \<and> c \<noteq> 0) (move 1 ?st1))" if "peek ?st1 0 = 35"
  proof -
    have m: "steps st (move 1 ?st1)" using steps_trans [OF s1 steps_move1 [OF steps_placed [OF s1]]] that by simp
    show ?thesis by (rule steps_trans [OF m scan_steps [OF steps_placed [OF m]]]) simp
  qed
  then show ?thesis using s1 steps_refl [OF st] by (simp add: skip_header_def Let_def)
qed

lemma block_loop_ends: "placed st \<Longrightarrow> ends (steps st) (block_loop f c d t dr e m st)"
proof (induction f c d t dr e m st rule: block_loop.induct)
  case (1 f c d t0 dr e m st)
  show ?case
  proof (cases "peek st 0 = 0")
    case True
    then show ?thesis using "1.prems" by (subst block_loop.simps) (simp add: steps_refl)
  next
    case False
    show ?thesis
    proof (cases "readLineBreak st")
      case (Inl x)
      then show ?thesis using False readLineBreak_ends [of st] by (subst block_loop.simps) simp
    next
      case (Inr st0)
      let ?st1 = "text_indent d t0 st0"
      let ?ch = "peek ?st1 0"
      let ?t = "if \<not> d \<and> lineIndent ?st1 > t0 then lineIndent ?st1 else t0"
      obtain n where n: "n \<le> length (takeWhile (\<lambda>c. c = 32) (drop (nat (position st0)) (input st0)))" "?st1 = indented_by st0 n"
        using text_indent_indented by blast
      have s1: "steps st ?st1" unfolding n(2) by (rule indented_steps(1) [OF Inr "1.prems" n(1)])
      have up: "steps st s \<Longrightarrow> ends (steps s) r \<Longrightarrow> ends (steps st) r" for s r by (erule ends_mono) (rule steps_trans)
      have a: "ends (steps st) (block_loop f c d ?t dr (e + 1) m ?st1)" if "is_EOL ?ch"
        by (rule up [OF s1], rule "1.IH"(1) [OF False Inr refl refl refl that steps_placed [OF s1]])
      have b: "steps st (add_result ?st1 s)" for s by (rule retext_facts(9) [OF retext_text(2) s1])
      let ?st2 = "add_result ?st1 (breaks_before f dr m e ?ch)"
      let ?st3 = "scan (\<lambda>c. \<not> is_EOL c \<and> c \<noteq> 0) ?st2"
      have s3: "steps st ?st3" by (rule steps_trans [OF b scan_steps [OF steps_placed [OF b]]]) simp
      have g: "ends (steps st) (case captureSegment ?st3 (position ?st2) (position ?st3) False of Inl e \<Rightarrow> Inl e
          | Inr st4 \<Rightarrow> block_loop f c True ?t True 0 (if f then is_WHITE_SPACE ?ch else m) st4)"
        if "\<not> is_EOL ?ch" "\<not> lineIndent ?st1 < ?t"
        unfolding ends_case
      proof (rule ends_capture)
        fix st4
        assume r: "retext ?st3 st4" and cp: "captureSegment ?st3 (position ?st2) (position ?st3) False = Inr st4"
        have s4: "steps st st4" by (rule retext_facts(9) [OF r s3])
        show "ends (steps st) (block_loop f c True ?t True 0 (if f then is_WHITE_SPACE ?ch else m) st4)"
          by (rule up [OF s4], rule "1.IH"(2) [OF False Inr refl refl refl that(1,2) refl refl cp steps_placed [OF s4]])
      qed
      show ?thesis unfolding block_loop.simps [of f c d t0 dr e m st] Inr sum.case Let_def if_not_P [OF False]
        using a b g by (cases "is_EOL ?ch"; cases "lineIndent ?st1 < ?t") (simp_all del: ends_rules only: if_True if_False simp_thms ends_simps)
    qed
  qed
qed

lemma readBlockScalar_ends: "placed st \<Longrightarrow> ends (\<lambda>q. steps st (snd q)) (readBlockScalar i st)"
proof -
  assume st: "placed st"
  show ?thesis
  proof (cases "peek st 0 = 124 \<or> peek st 0 = 62")
    case False
    then show ?thesis using st by (simp add: readBlockScalar_def steps_refl)
  next
    case True
    let ?st = "st\<lparr>kind := Some Scalar, ndresult := YStr []\<rparr>"
    have st1: "steps st ?st" using st by (auto simp: steps_def same_store_def)
    have h: "ends (\<lambda>q. steps ?st (snd (snd (snd q)))) (header_loop i CHOMPING_CLIP i False ?st)"
      by (rule header_loop_ends) (use st True in auto)
    have b: "ends (\<lambda>q. steps st (snd q)) (rbind (block_loop f c d t False 0 False (skip_header st2)) (\<lambda>st3. Inr (True, st3)))"
      if "steps ?st st2" for f c d t st2
    proof -
      have s: "steps st (skip_header st2)" using steps_trans [OF steps_trans [OF st1 that] skip_header_steps [OF steps_placed [OF that]]] .
      show ?thesis unfolding ends_rbind
        by (rule ends_mono [OF block_loop_ends [OF steps_placed [OF s]]]) (use steps_trans [OF s] in simp)
    qed
    have "ends (\<lambda>q. steps st (snd q)) (rbind (header_loop i CHOMPING_CLIP i False ?st) (\<lambda>(c, t, d, st2).
        rbind (block_loop (peek st 0 = 62) c d t False 0 False (skip_header st2)) (\<lambda>st3. Inr (True, st3))))"
      unfolding ends_rbind [of _ "header_loop i CHOMPING_CLIP i False ?st"]
      by (rule ends_mono [OF h]) (use b in auto)
    then show ?thesis using True by (auto simp: readBlockScalar_def Let_def)
  qed
qed

end
