(* ===== verification/Yaml_Heap_Laws.thy ===== *)
theory Yaml_Heap_Laws
  imports Yaml_Reader_Laws
begin

text \<open>
  What the loader keeps of a property of values, for any property that strings, numbers, \<open>null\<close> and
  references to existing cells have and that the constructors of the types keep.  The property may
  depend on the heap, as far as it holds on in a larger heap.
\<close>

section \<open>Heaps\<close>

fun cell_ok :: "(yheap \<Rightarrow> yval \<Rightarrow> bool) \<Rightarrow> yheap \<Rightarrow> ycell \<Rightarrow> bool" where
  "cell_ok ok h (YArr vs) = list_all (ok h) vs"
| "cell_ok ok h (YObj ps) = (distinct (map fst ps) \<and> list_all (\<lambda>p. ok h (snd p)) ps)"

definition heap_ok :: "(yheap \<Rightarrow> yval \<Rightarrow> bool) \<Rightarrow> yheap \<Rightarrow> bool" where
  "heap_ok ok h \<longleftrightarrow> list_all (cell_ok ok h) h"

text \<open>The values of a state: on the heap, in the result, behind the anchors and in the documents.\<close>

definition sound :: "(yheap \<Rightarrow> yval \<Rightarrow> bool) \<Rightarrow> ytype set \<Rightarrow> lstate \<Rightarrow> bool" where
  "sound ok types st \<longleftrightarrow> heap_ok ok (heap st) \<and> ok (heap st) (ndresult st) \<and> list_all (\<lambda>p. ok (heap st) (snd p)) (anchorMap st) \<and>
     list_all (ok (heap st)) (documents st) \<and> set (compiledImplicit (typeSchema st)) \<subseteq> types \<and>
     (\<forall>k t ty. compiledTypeMap (typeSchema st) k t = Some ty \<longrightarrow> ty \<in> types)"

definition goes :: "(yheap \<Rightarrow> yval \<Rightarrow> bool) \<Rightarrow> ytype set \<Rightarrow> lstate \<Rightarrow> lstate \<Rightarrow> bool" where
  "goes ok types st st' \<longleftrightarrow> placed st' \<and> sound ok types st' \<and> input st' = input st \<and> position st \<le> position st' \<and>
     length (heap st) \<le> length (heap st')"

lemma goes_trans: "goes ok types a b \<Longrightarrow> goes ok types b c \<Longrightarrow> goes ok types a c"
  by (simp add: goes_def)

lemma goes_refl: "placed st \<Longrightarrow> sound ok types st \<Longrightarrow> goes ok types st st"
  by (simp add: goes_def)

lemma goes_sound: "goes ok types st st' \<Longrightarrow> sound ok types st'"
  and goes_placed: "goes ok types st st' \<Longrightarrow> placed st'"
  and goes_heap: "goes ok types st st' \<Longrightarrow> length (heap st) \<le> length (heap st')"
  by (simp_all add: goes_def)

text \<open>A change of the store that stays at its place.\<close>

definition stores :: "(yheap \<Rightarrow> yval \<Rightarrow> bool) \<Rightarrow> ytype set \<Rightarrow> lstate \<Rightarrow> lstate \<Rightarrow> bool" where
  "stores ok types st st' \<longleftrightarrow> goes ok types st st' \<and> position st' = position st"

lemma stores_trans: "stores ok types a b \<Longrightarrow> stores ok types b c \<Longrightarrow> stores ok types a c"
  using goes_trans [of ok types a b c] by (simp add: stores_def)

lemma goes_left: "goes ok types st st' \<Longrightarrow> left_over st' \<le> left_over st"
  unfolding goes_def left_over_def by (intro nat_mono) auto

lemma sound_update [simp]:
  "sound ok types (st\<lparr>kind := k\<rparr>) = sound ok types st" "sound ok types (st\<lparr>tag := t\<rparr>) = sound ok types st"
  "sound ok types (st\<lparr>anchor := a\<rparr>) = sound ok types st" "sound ok types (st\<lparr>warnings := w\<rparr>) = sound ok types st"
  "sound ok types (st\<lparr>position := p\<rparr>) = sound ok types st" "sound ok types (st\<lparr>tagMap := tm\<rparr>) = sound ok types st"
  "sound ok types (st\<lparr>version := v\<rparr>) = sound ok types st" "sound ok types (st\<lparr>checkLineBreaks := c\<rparr>) = sound ok types st"
  "sound ok types (st\<lparr>line := l\<rparr>) = sound ok types st" "sound ok types (st\<lparr>lineStart := s\<rparr>) = sound ok types st"
  "sound ok types (move i st) = sound ok types st"
  by (simp_all add: sound_def move_def)

lemma goes_update [simp]:
  "goes ok types st (st'\<lparr>kind := k\<rparr>) = goes ok types st st'" "goes ok types st (st'\<lparr>tag := t\<rparr>) = goes ok types st st'"
  "goes ok types st (st'\<lparr>anchor := a\<rparr>) = goes ok types st st'" "goes ok types st (st'\<lparr>tagMap := tm\<rparr>) = goes ok types st st'"
  "goes ok types st (st'\<lparr>version := v\<rparr>) = goes ok types st st'" "goes ok types st (st'\<lparr>checkLineBreaks := c\<rparr>) = goes ok types st st'"
  "goes ok types st (throwWarning st' m) = goes ok types st st'"
  by (simp_all add: goes_def throwWarning_def)

section \<open>String conversion ends\<close>

lemma join_strings_ends: "(\<And>v. v \<in> set vs \<Longrightarrow> ends (\<lambda>_. True) (f v)) \<Longrightarrow> ends (\<lambda>_. True) (join_strings f vs)"
proof (induction vs)
  case (Cons v vs)
  have "ends (\<lambda>_. True) (if v = YNull \<or> v = YUndef then Inr [] else f v)" using Cons.prems [of v] by simp
  moreover have "ends (\<lambda>_. True) (join_strings f vs)" by (rule Cons.IH) (use Cons.prems in simp)
  ultimately show ?case by (auto simp: ends_def rbind_def split: sum.splits)
qed simp

lemma js_String_ends:
  assumes "distinct stack" "\<forall>a \<in> set stack. a < length h" "length h - length stack < n"
  shows "ends (\<lambda>_. True) (js_String n host h stack v)"
  using assms
proof (induction n arbitrary: stack v)
  case (Suc n)
  show ?case
  proof (cases "\<exists>a. v = YRef a \<and> class_of h v = C_Array \<and> a \<notin> set stack")
    case False
    then show ?thesis by (auto split: yval.splits option.splits)
  next
    case True
    then obtain a where a: "v = YRef a" "class_of h v = C_Array" "a \<notin> set stack" by blast
    then have "a < length h" by (simp split: if_splits)
    then have st: "distinct (a # stack)" "\<forall>x \<in> set (a # stack). x < length h" using Suc.prems a(3) by auto
    then have "card (set (a # stack)) \<le> card {..<length h}" by (intro card_mono) auto
    then have "length (a # stack) \<le> length h" using distinct_card [OF st(1)] by simp
    then have "length h - length (a # stack) < n" using Suc.prems(3) by simp
    from Suc.IH [OF st this] have "ends (\<lambda>_. True) (join_strings (js_String n host h (a # stack)) (elements_of h v))"
      by (rule join_strings_ends)
    then show ?thesis using a by (simp add: ends_rbind)
  qed
qed simp

lemma key_string_ends: "ends (\<lambda>_. True) (key_string st v)"
  unfolding key_string_def by (rule js_String_ends) simp_all

section \<open>The contract\<close>

text \<open>Association lists under \<open>set_prop\<close>.\<close>

lemma set_alist_values: "set (set_alist ps k v) \<subseteq> insert (k, v) (set ps)"
  by (induction ps k v rule: set_alist.induct) auto

lemma set_prop_distinct: "distinct (map fst ps) \<Longrightarrow> distinct (map fst (set_prop ps k v))"
  by (simp add: set_prop_def set_alist_distinct)

lemma set_prop_values: "set (set_prop ps k v) \<subseteq> insert (k, v) (set ps)"
  using set_alist_values [of ps k v] by (auto simp: set_prop_def)

lemma set_prop_all: "list_all P ps \<Longrightarrow> P (k, v) \<Longrightarrow> list_all P (set_prop ps k v)"
  using set_prop_values [of ps k v] by (auto simp: list_all_iff)

text \<open>The values that the loader meets.\<close>

locale value_base =
  fixes ok :: "yheap \<Rightarrow> yval \<Rightarrow> bool"
  assumes ok_mono: "ok h v \<Longrightarrow> length h \<le> length h' \<Longrightarrow> ok h' v"
    and ok_str: "ok h (YStr s)"
    and ok_null: "ok h YNull"
    and ok_undef: "ok h YUndef"
    and ok_bool: "ok h (YBool b)"
    and ok_num: "ok h (YNum x)"
    and ok_bytes: "ok h (YBytes bs)"
    and ok_date: "ok h (YDate t)"
    and ok_ref: "a < length h \<Longrightarrow> ok h (YRef a)"
begin

lemmas ok_atoms = ok_str ok_null ok_undef ok_bool ok_num ok_bytes ok_date

lemma all_mono: "list_all (ok h) vs \<Longrightarrow> length h \<le> length h' \<Longrightarrow> list_all (ok h') vs"
  using ok_mono by (auto simp: list_all_iff)

lemma pairs_mono: "list_all (\<lambda>p. ok h (snd p)) ps \<Longrightarrow> length h \<le> length h' \<Longrightarrow> list_all (\<lambda>p. ok h' (snd p)) ps"
  using ok_mono by (auto simp: list_all_iff)

lemma cell_mono: "cell_ok ok h c \<Longrightarrow> length h \<le> length h' \<Longrightarrow> cell_ok ok h' c"
  using all_mono pairs_mono by (cases c) auto

lemma heap_update: "heap_ok ok h \<Longrightarrow> cell_ok ok h c \<Longrightarrow> heap_ok ok (h[a := c])"
  using cell_mono [of h _ "h[a := c]"] set_update_subset_insert [of h a c] by (auto simp: heap_ok_def list_all_iff)

lemma heap_append: "heap_ok ok h \<Longrightarrow> cell_ok ok h c \<Longrightarrow> heap_ok ok (h @ [c])"
  using cell_mono [of h _ "h @ [c]"] by (auto simp: heap_ok_def list_all_iff)

lemma elements_ok: "heap_ok ok h \<Longrightarrow> list_all (ok h) (elements_of h v)"
  by (cases v) (auto simp: heap_ok_def list_all_length split: ycell.splits dest!: spec)

lemma props_ok: "heap_ok ok h \<Longrightarrow> cell_ok ok h (YObj (props_of h v))"
proof (cases v)
  case (YRef a)
  assume h: "heap_ok ok h"
  show ?thesis
  proof (cases "a < length h")
    case True
    then have "cell_ok ok h (h ! a)" using h by (simp add: heap_ok_def list_all_length)
    then show ?thesis using True YRef by (auto split: ycell.splits)
  qed (simp add: YRef)
qed simp_all

lemma entries_ok: "heap_ok ok h \<Longrightarrow> list_all (\<lambda>p. ok h (snd p)) (own_entries h v)"
proof -
  assume h: "heap_ok ok h"
  have z: "list_all (\<lambda>p. ok h (snd p)) (zip ks vs)" if "list_all (ok h) vs" for ks vs
    using that by (auto simp: list_all_iff dest: set_zip_rightD)
  have g: "ok h (get_prop (props_of h v) k)" for k
    using props_ok [OF h, of v] ok_undef by (auto simp: get_prop_def list_all_iff split: option.splits dest: map_of_SomeD)
  show ?thesis
  proof (cases v)
    case (YRef a)
    then show ?thesis
      using z [OF elements_ok [OF h, of v]] g by (auto simp: own_entries_def list_all_iff simp del: elements_of.simps class_of.simps props_of.simps)
  next
    case (YBytes bs)
    have "list_all (ok h) (map (\<lambda>b. YNum (Fin (of_int (uint b)))) bs)" using ok_num by (simp add: list_all_iff)
    from z [OF this] show ?thesis by (simp add: own_entries_def YBytes)
  qed (simp_all add: own_entries_def)
qed

end

text \<open>\<open>types\<close> are the types of the schema, whose constructors keep the property and only let the heap grow.\<close>

definition constructs :: "(yheap \<Rightarrow> yval \<Rightarrow> bool) \<Rightarrow> ytype \<Rightarrow> bool" where
  "constructs ok ty \<longleftrightarrow> (\<forall>h v w h'. heap_ok ok h \<longrightarrow> ok h v \<longrightarrow> ty_construct ty h v = Inr (w, h') \<longrightarrow>
     heap_ok ok h' \<and> ok h' w \<and> length h \<le> length h')"

locale value_law = value_base +
  fixes types :: "ytype set"
  assumes ok_construct: "ty \<in> types \<Longrightarrow> constructs ok ty"
begin

lemma scanned: "steps st st' \<Longrightarrow> sound ok types st \<Longrightarrow> goes ok types st st'"
  using ok_str by (auto simp: steps_def same_store_def goes_def sound_def)

lemma new_cell_goes:
  assumes "placed st" "sound ok types st" "cell_ok ok (heap st) c" "new_cell st c = (a, st')"
  shows "goes ok types st st'" "a < length (heap st')" "tag st' = tag st" "anchor st' = anchor st" "position st' = position st"
proof -
  let ?h = "heap st @ [c]"
  have st': "st' = st\<lparr>heap := ?h\<rparr>" "a = length (heap st)" using assms(4) by (auto simp: new_cell_def)
  have "length (heap st) \<le> length ?h" by simp
  then show "goes ok types st st'"
    using assms(1,2) heap_append [OF _ assms(3)] ok_mono [of "heap st" _ ?h] all_mono [of "heap st" _ ?h] pairs_mono [of "heap st" _ ?h]
    by (auto simp: goes_def sound_def st')
qed (use assms(4) in \<open>auto simp: new_cell_def\<close>)

lemma put_goes:
  assumes "placed st" "sound ok types st" "cell_ok ok (heap st) c"
  shows "goes ok types st (st\<lparr>heap := (heap st)[a := c]\<rparr>)"
proof -
  let ?h = "(heap st)[a := c]"
  have "length (heap st) \<le> length ?h" by simp
  then show ?thesis
    using assms(1,2) heap_update [OF _ assms(3)] ok_mono [of "heap st" _ ?h] all_mono [of "heap st" _ ?h] pairs_mono [of "heap st" _ ?h]
    by (auto simp: goes_def sound_def)
qed

lemma push_goes: "placed st \<Longrightarrow> sound ok types st \<Longrightarrow> ok (heap st) v \<Longrightarrow> goes ok types st (push_array st a v)"
  unfolding push_array_def by (rule put_goes) (use elements_ok in \<open>simp_all add: sound_def del: elements_of.simps\<close>)

lemma set_anchor_goes:
  "placed st \<Longrightarrow> sound ok types st \<Longrightarrow> ok (heap st) v \<Longrightarrow> goes ok types st (set_anchor st v)"
  using set_prop_all [of "\<lambda>p. ok (heap st) (snd p)" "anchorMap st"]
  by (auto simp: set_anchor_def goes_def sound_def split: option.splits)

lemma result_goes:
  "goes ok types st st' \<Longrightarrow> ok (heap st') v \<Longrightarrow> goes ok types st (st'\<lparr>ndresult := v\<rparr>)"
  by (simp add: goes_def sound_def)

section \<open>Mappings\<close>

lemma merge_loop_ok:
  "list_all (\<lambda>p. ok h (snd p)) kvs \<Longrightarrow> cell_ok ok h (YObj dest) \<Longrightarrow> cell_ok ok h (YObj (fst (merge_loop kvs dest ks)))"
  by (induction kvs arbitrary: dest ks) (simp_all add: set_prop_distinct set_prop_all)

lemma mergeMappings_stores:
  assumes "placed st" "sound ok types st"
  shows "ends (\<lambda>q. stores ok types st (snd q)) (mergeMappings a v ks st)"
proof (cases "isObject v")
  case True
  have h: "heap_ok ok (heap st)" using assms(2) by (simp add: sound_def)
  obtain dest ks1 where m: "merge_loop (own_entries (heap st) v) (object_at (heap st) a) ks = (dest, ks1)" by fastforce
  have "cell_ok ok (heap st) (YObj dest)"
    using merge_loop_ok [OF entries_ok [OF h] props_ok [OF h], of v "YRef a" ks] m by (simp add: object_at_def)
  from put_goes [OF assms this] show ?thesis using True m by (simp add: mergeMappings_def put_object_def stores_def)
qed (simp add: mergeMappings_def)

lemma merge_all_stores:
  "placed st \<Longrightarrow> sound ok types st \<Longrightarrow> ends (\<lambda>q. stores ok types st (snd q)) (merge_all a vs ks st)"
proof (induction vs arbitrary: ks st)
  case (Cons v vs)
  have "ends (\<lambda>q. stores ok types st (snd q)) (case x of (ks1, st1) \<Rightarrow> merge_all a vs ks1 st1)" if "stores ok types st (snd x)" for x
  proof -
    have "goes ok types st (snd x)" using that by (simp add: stores_def)
    from ends_mono [OF Cons.IH [OF goes_placed [OF this] goes_sound [OF this]] stores_trans [OF that]] show ?thesis by (cases x) simp
  qed
  then show ?case using ends_mono [OF mergeMappings_stores [OF Cons.prems]] by (simp add: ends_rbind)
qed (simp add: goes_refl stores_def)

text \<open>A pair stored in a mapping: the position does not change.\<close>

lemma storeMappingPair_stores:
  assumes "placed st" "sound ok types st" "ok (heap st) v"
  shows "ends (\<lambda>((a, ks), st'). stores ok types st st' \<and> (r = None \<longrightarrow> a < length (heap st'))) (storeMappingPair r ov kt kn v l p st)"
proof -
  let ?P = "\<lambda>((a, ks), st'). stores ok types st st' \<and> (r = None \<longrightarrow> a < length (heap st'))"
  obtain a st1 where c: "(case r of None \<Rightarrow> new_cell st (YObj []) | Some a \<Rightarrow> (a, st)) = (a, st1)" by fastforce
  have g: "stores ok types st st1 \<and> (r = None \<longrightarrow> a < length (heap st1))"
    using c new_cell_goes(1,2,5) [OF assms(1,2), of "YObj []"] goes_refl [OF assms(1,2)] by (cases r) (auto simp: stores_def)
  have up: "stores ok types st1 st2 \<Longrightarrow> ?P ((a, ks), st2)" for ks st2
    using g stores_trans [of ok types st st1 st2] goes_heap [of ok types st1 st2] by (auto simp: stores_def)
  have s1: "placed st1" "sound ok types st1" "heap_ok ok (heap st1)" "ok (heap st1) v"
    using g assms(3) ok_mono by (auto simp: stores_def goes_def sound_def)
  have m: "ends ?P (rbind (if b then merge_all a vs ov st1 else mergeMappings a v ov st1) (\<lambda>(ks, st2). Inr ((a, ks), st2)))" for b vs
    unfolding ends_rbind using ends_mono [OF merge_all_stores [OF s1(1,2)]] ends_mono [OF mergeMappings_stores [OF s1(1,2)]] up by (auto split: prod.splits)
  have c2: "cell_ok ok (heap st1) (YObj (set_prop (object_at (heap st1) a) k v))" for k
    using props_ok [OF s1(3), of "YRef a"] s1(4) by (simp add: object_at_def set_prop_distinct set_prop_all del: props_of.simps)
  have p: "?P ((a, ks), put_object st1 a (set_prop (object_at (heap st1) a) k v))" for ks k
    unfolding put_object_def by (rule up) (use put_goes [OF s1(1,2) c2] in \<open>simp add: stores_def\<close>)
  show ?thesis unfolding storeMappingPair_def ends_rbind
    by (rule ends_mono [OF key_string_ends]) (use m p c in \<open>auto simp: Let_def\<close>)
qed

end

end
