(* ===== verification/Yaml_Compose_Laws.thy ===== *)
theory Yaml_Compose_Laws
  imports Yaml_Heap_Laws
begin

text \<open>
  Tags, anchors, aliases and collections under the contract of \<open>value_law\<close>: each reader ends when the
  composer of the parts does, and keeps the values of the state.
\<close>

section \<open>Tags and anchors\<close>

lemma tag_loop_ends: "placed st \<Longrightarrow> ends (\<lambda>q. steps st (snd (snd (snd q)))) (tag_loop b h s st)"
proof (induction b h s st rule: tag_loop.induct)
  case (1 b h s st)
  let ?P = "\<lambda>st q. steps st (snd (snd (snd q)))"
  show ?case
  proof (cases "peek st 0 = 0 \<or> is_WS_OR_EOL (peek st 0)")
    case True
    then show ?thesis using "1.prems" by (subst tag_loop.simps) (auto simp: Let_def steps_refl)
  next
    case False
    then have n: "peek st 0 \<noteq> 0" "\<not> is_WS_OR_EOL (peek st 0)" by simp_all
    have m: "steps st (move 1 st)" by (rule steps_move1 [OF "1.prems" n(1)])
    have up: "ends (?P (move 1 st)) r \<Longrightarrow> ends (?P st) r" for r by (erule ends_mono) (rule steps_trans [OF m])
    let ?h = "input_slice st (s - 1) (position st + 1)"
    have a: "ends (?P st) (tag_loop True ?h (position st + 1) (move 1 st))" if "peek st 0 = 33" "\<not> b" "rx_match PATTERN_TAG_HANDLE ?h"
      by (rule up, rule "1.IH"(1) [OF refl _ _ _ _ refl _ steps_placed [OF m]]) (use that n "1.prems" in auto)
    have c: "ends (?P st) (tag_loop b h s (move 1 st))" if "peek st 0 \<noteq> 33"
      by (rule up, rule "1.IH"(2) [OF refl _ _ _ steps_placed [OF m]]) (use that n "1.prems" in auto)
    show ?thesis using a c n "1.prems" by (subst tag_loop.simps) (simp add: Let_def)
  qed
qed

lemma read_tag_name_ends:
  assumes "placed st" "v \<Longrightarrow> position st + 1 < int (length (input st))"
  shows "ends (\<lambda>q. steps st (snd (snd q))) (read_tag_name v b h st)"
proof (cases v)
  case True
  have m: "steps st (move 1 st)" by (rule steps_forward) (use assms True in simp_all)
  let ?st1 = "scan (\<lambda>c. c \<noteq> 0 \<and> c \<noteq> 62) (move 1 st)"
  have s: "steps st ?st1" by (rule steps_trans [OF m scan_steps [OF steps_placed [OF m]]]) simp
  have "steps st (move 1 ?st1)" if "position ?st1 < inputLength ?st1"
    by (rule steps_trans [OF s steps_forward]) (use steps_placed [OF s] that in \<open>auto simp: placed_def\<close>)
  then show ?thesis using True by (simp add: read_tag_name_def Let_def)
next
  case False
  show ?thesis unfolding read_tag_name_def Let_def if_not_P [OF False] ends_rbind
    by (rule ends_mono [OF tag_loop_ends [OF assms(1)]]) auto
qed

text \<open>A tag or an anchor is read only when there is none yet.\<close>

definition property_read :: "lstate \<Rightarrow> bool \<times> lstate \<Rightarrow> bool" where
  "property_read st q \<longleftrightarrow> (\<exists>st1 t a. steps st st1 \<and> snd q = st1\<lparr>tag := t, anchor := a\<rparr> \<and>
     (if fst q then (tag st = None \<and> t \<noteq> None \<and> a = anchor st) \<or> (anchor st = None \<and> a \<noteq> None \<and> t = tag st)
      else t = tag st \<and> a = anchor st))"

lemma property_none: "placed st \<Longrightarrow> property_read st (False, st)"
  unfolding property_read_def by (rule exI [of _ st]) (auto simp: steps_refl)

lemma property_tag: "steps st st1 \<Longrightarrow> tag st = None \<Longrightarrow> property_read st (True, st1\<lparr>tag := Some t\<rparr>)"
  unfolding property_read_def by (rule exI [of _ st1], rule exI [of _ "Some t"], rule exI [of _ "anchor st1"]) (auto simp: steps_def same_store_def)

lemma property_anchor: "steps st st1 \<Longrightarrow> anchor st = None \<Longrightarrow> property_read st (True, st1\<lparr>anchor := Some a\<rparr>)"
  unfolding property_read_def by (rule exI [of _ st1], rule exI [of _ "tag st1"], rule exI [of _ "Some a"]) (auto simp: steps_def same_store_def)

lemma readTagProperty_ends:
  assumes st: "placed st"
  shows "ends (property_read st) (readTagProperty st)"
proof (cases "peek st 0 = 33 \<and> tag st = None")
  case False
  then show ?thesis using property_none [OF st] by (auto simp: readTagProperty_def)
next
  case True
  let ?v = "peek st 1 = 60" and ?n = "peek st 1 = 33"
  let ?st1 = "move (if ?v \<or> ?n then 2 else 1) st"
  have m: "steps st (move 1 st)" using steps_move1 [OF st] True by simp
  have k: "position st + 3 < int (length (input st))" if "?v \<or> ?n"
  proof -
    have "peek (move 1 st) 0 = peek st 1" by (simp add: peek_def)
    then show ?thesis using not_last2 [OF steps_placed [OF m]] that by (auto simp: is_EOL_def)
  qed
  have s1: "steps st ?st1" using m steps_forward [OF st, of 2] k by auto
  have r: "ends (\<lambda>q. steps st (snd (snd q))) (read_tag_name ?v ?n h ?st1)" for h
    by (rule ends_mono [OF read_tag_name_ends [OF steps_placed [OF s1]]]) (use k steps_trans [OF s1] in auto)
  have c: "\<not> peek st 0 \<noteq> 33" "\<not> tag st \<noteq> None" using True by simp_all
  show ?thesis unfolding readTagProperty_def Let_def if_not_P [OF c(1)] if_not_P [OF c(2)] ends_rbind
  proof (rule ends_mono [OF r])
    fix q :: "jstr \<times> jstr \<times> lstate"
    assume q: "steps st (snd (snd q))"
    obtain handle name st2 where "q = (handle, name, st2)" by (cases q) auto
    then show "ends (property_read st) (case q of (handle, name, st2) \<Rightarrow>
        if name \<noteq> [] \<and> \<not> rx_match PATTERN_TAG_URI name then throwErrorWith st2 (js ''tag name cannot contain such characters: '' @ name)
        else if ?v then Inr (True, st2\<lparr>tag := Some name\<rparr>)
        else case map_of (tagMap st2) handle of
          None \<Rightarrow> if handle = js ''!'' then Inr (True, st2\<lparr>tag := Some (js ''!'' @ name)\<rparr>)
            else if handle = js ''!!'' then Inr (True, st2\<lparr>tag := Some (js ''tag:yaml.org,2002:'' @ name)\<rparr>)
            else throwErrorWith st2 (js ''undeclared tag handle \"'' @ handle @ js ''\"'')
        | Some prefix \<Rightarrow> Inr (True, st2\<lparr>tag := Some (prefix @ name)\<rparr>))"
      using property_tag [OF q] True by (simp split: option.splits)
  qed
qed

lemma readAnchorProperty_ends:
  assumes st: "placed st"
  shows "ends (property_read st) (readAnchorProperty st)"
proof (cases "peek st 0 = 38 \<and> anchor st = None")
  case False
  then show ?thesis using property_none [OF st] by (auto simp: readAnchorProperty_def)
next
  case True
  have m: "steps st (move 1 st)" using steps_move1 [OF st] True by simp
  have "steps st (scan name_char (move 1 st))"
    by (rule steps_trans [OF m scan_steps [OF steps_placed [OF m]]]) (simp add: name_char_def)
  then show ?thesis using True property_anchor by (simp add: readAnchorProperty_def Let_def)
qed

lemma property_first: "property_read st (False, st1) \<Longrightarrow> property_read st1 q \<Longrightarrow> property_read st q"
proof -
  assume a: "property_read st (False, st1)" "property_read st1 q"
  then have s: "steps st st1" "tag st1 = tag st" "anchor st1 = anchor st" by (auto simp: property_read_def steps_def same_store_def)
  from a(2) obtain st2 t x where "steps st1 st2" "snd q = st2\<lparr>tag := t, anchor := x\<rparr>"
    "if fst q then (tag st = None \<and> t \<noteq> None \<and> x = anchor st) \<or> (anchor st = None \<and> x \<noteq> None \<and> t = tag st) else t = tag st \<and> x = anchor st"
    unfolding property_read_def s by blast
  then show ?thesis unfolding property_read_def using steps_trans [OF s(1)] by blast
qed

lemma property_ends: "placed st \<Longrightarrow> ends (property_read st) (or_else readTagProperty readAnchorProperty st)"
  unfolding or_else_def ends_rbind
proof (rule ends_mono [OF readTagProperty_ends])
  fix q
  assume "placed st" and q: "property_read st q"
  show "ends (property_read st) (case q of (ok, st1) \<Rightarrow> if ok then Inr (True, st1) else readAnchorProperty st1)"
  proof (cases "fst q")
    case True
    then show ?thesis using q by (cases q) simp
  next
    case False
    then have f: "property_read st (False, snd q)" using q by (cases q) simp
    then have "placed (snd q)" by (auto simp: property_read_def steps_def)
    from ends_mono [OF readAnchorProperty_ends [OF this] property_first [OF f]] False show ?thesis by (cases q) simp
  qed
qed

section \<open>Bounds on depth\<close>

text \<open>
  The composer of the parts, given the bound \<open>n\<close>: twice the rest of the input, and one more level for a node in
  block context, which tries the first key of a mapping at its own place.
\<close>

definition block_context :: "node_context \<Rightarrow> bool" where
  "block_context ctx \<longleftrightarrow> ctx = CONTEXT_BLOCK_OUT \<or> ctx = CONTEXT_BLOCK_IN"

definition composes :: "(yheap \<Rightarrow> yval \<Rightarrow> bool) \<Rightarrow> ytype set \<Rightarrow> composer \<Rightarrow> nat \<Rightarrow> bool" where
  "composes ok types cn n \<longleftrightarrow> (\<forall>i ctx s c st. placed st \<longrightarrow> sound ok types st \<longrightarrow> 2 * left_over st + (if block_context ctx then 2 else 1) \<le> n \<longrightarrow>
     ends (\<lambda>q. goes ok types st (snd q)) (cn i ctx s c st))"

lemma left_over_pos: "placed st \<Longrightarrow> 0 < left_over st"
  by (simp add: placed_def left_over_def)

context value_law
begin

lemma ends_goes: "goes ok types st st1 \<Longrightarrow> ends (\<lambda>q. goes ok types st1 (snd q)) r \<Longrightarrow> ends (\<lambda>q. goes ok types st (snd q)) r"
  by (erule ends_mono) (rule goes_trans)

lemma bind_pair: "ends (\<lambda>q. goes ok types st (snd q)) r \<Longrightarrow> (\<And>x st1. goes ok types st st1 \<Longrightarrow> ends P (f (x, st1))) \<Longrightarrow> ends P (rbind r f)"
  unfolding ends_rbind by (erule ends_mono) (metis prod.collapse)

lemma bind_state: "ends (goes ok types st) r \<Longrightarrow> (\<And>st1. goes ok types st st1 \<Longrightarrow> ends P (f st1)) \<Longrightarrow> ends P (rbind r f)"
  unfolding ends_rbind by (erule ends_mono)

lemma space_goes: "goes ok types st0 st \<Longrightarrow> ends (\<lambda>q. goes ok types st0 (snd q)) (skipSeparationSpace b c st)"
proof -
  assume g: "goes ok types st0 st"
  show ?thesis
    by (rule ends_mono [OF skipSeparationSpace_ends [OF goes_placed [OF g]]]) (use goes_trans [OF g] scanned goes_sound [OF g] in auto)
qed

lemma skip_space_goes: "goes ok types st0 st \<Longrightarrow> ends (goes ok types st0) (skip_space c st)"
proof -
  assume g: "goes ok types st0 st"
  show ?thesis
    by (rule ends_mono [OF skip_space_ends [OF goes_placed [OF g]]]) (use goes_trans [OF g] scanned goes_sound [OF g] in auto)
qed

lemma move_goes: "goes ok types st0 st \<Longrightarrow> peek st 0 \<noteq> 0 \<Longrightarrow> goes ok types st0 (move 1 st)"
  using goes_trans scanned [OF steps_move1] goes_placed goes_sound by blast

lemma composed:
  assumes "composes ok types cn n" "goes ok types st0 st" "2 * left_over st + (if block_context ctx then 2 else 1) \<le> n"
  shows "ends (\<lambda>q. goes ok types st0 (snd q)) (cn i ctx s c st)"
  using assms goes_placed [OF assms(2)] goes_sound [OF assms(2)] ends_goes [OF assms(2)] unfolding composes_def by blast

lemma property_goes: "property_read st q \<Longrightarrow> sound ok types st \<Longrightarrow> goes ok types st (snd q)"
  using scanned by (auto simp: property_read_def)

lemma property_loop_goes:
  assumes "goes ok types st0 st" "(if tag st = None then 1 else 0) + (if anchor st = None then 1 else 0) < k" "ab \<longrightarrow> b"
  shows "ends (\<lambda>q. goes ok types st0 (snd q) \<and> (snd (snd (fst q)) \<longrightarrow> b)) (property_loop k i b status nl ab st)"
  using assms
proof (induction k arbitrary: status nl ab st)
  case (Suc k)
  let ?count = "\<lambda>st. (if tag st = None then 1 else 0) + (if anchor st = None then 1 else 0 :: nat)"
  show ?case unfolding property_loop.simps(2) ends_rbind [of _ "or_else _ _ _"]
  proof (rule ends_mono [OF property_ends [OF goes_placed [OF Suc.prems(1)]]])
    fix q
    assume q: "property_read st q"
    obtain okq st1 where q1: "q = (okq, st1)" by (cases q)
    have g1: "goes ok types st0 st1" using goes_trans [OF Suc.prems(1) property_goes [OF q goes_sound [OF Suc.prems(1)]]] q1 by simp
    have step: "ends (\<lambda>q. goes ok types st0 (snd q) \<and> (snd (snd (fst q)) \<longrightarrow> b)) (property_loop k i b status' nl' ab' st2)"
      if "okq" "steps st1 st2" "ab' \<longrightarrow> b" for status' nl' ab' st2
    proof (rule Suc.IH)
      show "goes ok types st0 st2" using goes_trans [OF g1 scanned [OF that(2) goes_sound [OF g1]]] .
      have "?count st1 < ?count st" using q q1 that(1) by (auto simp: property_read_def)
      moreover have "?count st2 = ?count st1" using that(2) by (simp add: steps_def same_store_def)
      ultimately show "?count st2 < k" using Suc.prems(2) by simp
    qed (rule that(3))
    show "ends (\<lambda>q. goes ok types st0 (snd q) \<and> (snd (snd (fst q)) \<longrightarrow> b)) (case q of (ok, st1) \<Rightarrow> if \<not> ok then Inr ((status, nl, ab), st1)
      else rbind (skipSeparationSpace True (- 1) st1) (\<lambda>(n, st2).
        if n \<noteq> 0 then property_loop k i b (indent_status st2 i) True b st2 else property_loop k i b status nl False st2))"
    proof (cases okq)
      case True
      have "ends (\<lambda>q. goes ok types st0 (snd q) \<and> (snd (snd (fst q)) \<longrightarrow> b)) (rbind (skipSeparationSpace True (- 1) st1) (\<lambda>(n, st2).
        if n \<noteq> 0 then property_loop k i b (indent_status st2 i) True b st2 else property_loop k i b status nl False st2))"
        unfolding ends_rbind by (rule ends_space [OF goes_placed [OF g1]]) (use step [OF True] in simp)
      then show ?thesis using True q1 by simp
    qed (use Suc.prems(3) in \<open>simp add: q1 g1\<close>)
  qed
qed simp

lemma node_start_goes:
  assumes "placed st" "sound ok types st"
  shows "ends (\<lambda>q. goes ok types st (snd q) \<and> (snd (fst q) \<longrightarrow> block_context ctx)) (node_start i ctx s c st)"
proof -
  let ?st = "st\<lparr>tag := None, anchor := None, kind := None, ndresult := YNull\<rparr>" and ?b = "ctx = CONTEXT_BLOCK_OUT \<or> ctx = CONTEXT_BLOCK_IN"
  have g: "goes ok types st ?st" using assms ok_null by (simp add: goes_def sound_def)
  have p: "ends (\<lambda>q. goes ok types st (snd q) \<and> (snd (snd (fst q)) \<longrightarrow> ?b)) (property_loop 3 i ?b status nl ?b st1)"
    if "goes ok types st st1" for status nl st1
    by (rule property_loop_goes [OF that]) simp_all
  have t: "ends (\<lambda>q. goes ok types st (snd q) \<and> (snd (snd (fst q)) \<longrightarrow> ?b)) (if status = (1 :: int) then property_loop 3 i ?b status nl ?b st1 else Inr ((status, nl, ?b), st1))"
    if "goes ok types st st1" for status nl st1 using p [OF that] that by simp
  have h: "ends (\<lambda>q. goes ok types st (snd q)) (if s then rbind (skipSeparationSpace True (- 1) ?st) (\<lambda>(n, st1).
      Inr ((if n \<noteq> 0 then indent_status st1 i else 1, n \<noteq> 0), st1)) else Inr ((1, False), ?st))"
    using g by (cases s) (auto intro!: bind_pair [OF space_goes [OF g]])
  show ?thesis unfolding node_start_def Let_def
  proof (rule bind_pair [OF h], goal_cases)
    case (1 x st1)
    obtain status nl where x: "x = (status, nl)" by (cases x)
    show ?case unfolding x prod.case ends_rbind by (rule ends_mono [OF t [OF 1]]) (auto simp: block_context_def split: prod.splits)
  qed
qed

lemma readAlias_goes:
  assumes "goes ok types st0 st"
  shows "ends (\<lambda>q. goes ok types st0 (snd q)) (readAlias st)"
proof (cases "peek st 0 = 42")
  case False
  then show ?thesis using assms by (simp add: readAlias_def)
next
  case True
  let ?st2 = "scan name_char (move 1 st)"
  have g1: "goes ok types st0 (move 1 st)" by (rule move_goes [OF assms]) (simp add: True)
  have "steps (move 1 st) ?st2" by (rule scan_steps [OF goes_placed [OF g1]]) (simp add: name_char_def)
  then have g2: "goes ok types st0 ?st2" using goes_trans [OF g1 scanned [OF _ goes_sound [OF g1]]] by blast
  have "ok (heap ?st2) v" if "map_of (anchorMap ?st2) k = Some v" for k v
    using goes_sound [OF g2] map_of_SomeD [OF that] by (auto simp: sound_def list_all_iff)
  then have "ends (\<lambda>q. goes ok types st0 (snd q)) (rbind (skipSeparationSpace True (- 1) (?st2\<lparr>ndresult := v\<rparr>)) (\<lambda>(n, st3). Inr (True, st3)))"
    if "map_of (anchorMap ?st2) k = Some v" for k v
    by (rule bind_pair [OF space_goes [OF result_goes [OF g2]]]) (use that in simp_all)
  then show ?thesis using True by (simp add: readAlias_def Let_def split: option.splits yval.splits)
qed

section \<open>Flow collections\<close>

text \<open>Sequences of reads, each with the state in front of it.\<close>

lemma bind_space:
  assumes "placed s" "sound ok types s" "\<And>s1. goes ok types s s1 \<Longrightarrow> ends P (f s1)"
  shows "ends P (rbind (skip_space c s) f)"
  by (rule bind_state [OF skip_space_goes [OF goes_refl [OF assms(1,2)]]], rule assms(3))

lemma bind_sep:
  assumes "placed s" "sound ok types s" "\<And>n s1. goes ok types s s1 \<Longrightarrow> ends P (f (n, s1))"
  shows "ends P (rbind (skipSeparationSpace b c s) f)"
  by (rule bind_pair [OF space_goes [OF goes_refl [OF assms(1,2)]]], rule assms(3))

lemma bind_cn:
  assumes "composes ok types cn n" "placed s" "sound ok types s" "2 * left_over s + (if block_context ctx then 2 else 1) \<le> n"
    "\<And>x s1. goes ok types s s1 \<Longrightarrow> ends P (f (x, s1))"
  shows "ends P (rbind (cn i ctx a b s) f)"
  by (rule bind_pair [OF composed [OF assms(1) goes_refl [OF assms(2,3)] assms(4)]], rule assms(5))

lemma result_ok: "sound ok types st1 \<Longrightarrow> goes ok types st1 st2 \<Longrightarrow> ok (heap st2) (ndresult st1)"
  using goes_heap [of ok types st1 st2] ok_mono by (auto simp: sound_def)

lemma flow_entry_goes:
  assumes cn: "composes ok types cn n" and st: "placed st" "sound ok types st" and n: "2 * left_over st + 1 \<le> n"
  shows "ends (\<lambda>(p, kt, kn, vn, st'). goes ok types st st' \<and> ok (heap st') kn \<and> ok (heap st') vn) (flow_entry cn i st)"
proof -
  let ?e = "peek st 0 = 63 \<and> is_WS_OR_EOL (peek st 1)"
  have refl: "goes ok types st st" by (rule goes_refl [OF st])
  have a: "ends (goes ok types st) (if ?e then skip_space i (move 1 st) else Inr st)"
    using refl skip_space_goes [OF move_goes [OF refl]] by simp
  have fits: "2 * left_over s + (if block_context CONTEXT_FLOW_IN then 2 else 1) \<le> n" if "goes ok types st s" for s
    using goes_left [OF that] n by (simp add: block_context_def)
  show ?thesis unfolding flow_entry_def Let_def
  proof (rule bind_state [OF a], goal_cases)
    case g1: (1 st1)
    show ?case
    proof (rule bind_cn [OF cn goes_placed [OF g1] goes_sound [OF g1] fits [OF g1]], unfold prod.case, goal_cases)
      case g2: (1 x st2)
      note s2 = goes_placed [OF g2] goes_sound [OF g2] and t2 = goes_trans [OF g1 g2]
      show ?case
      proof (rule bind_space [OF s2], goal_cases)
        case g3: (1 st3)
        note t3 = goes_trans [OF t2 g3]
        show ?case
        proof (cases "(?e \<or> line st3 = line st1) \<and> peek st3 0 = 58")
          case True
          have m: "goes ok types st2 (move 1 st3)" by (rule move_goes [OF g3]) (simp add: True)
          have "ends (\<lambda>(p, kt, kn, vn, st'). goes ok types st st' \<and> ok (heap st') kn \<and> ok (heap st') vn)
              (rbind (skip_space i (move 1 st3)) (\<lambda>st4. rbind (cn i CONTEXT_FLOW_IN False True st4) (\<lambda>(ok2, st5).
                Inr (True, tag st2, ndresult st2, ndresult st5, st5))))"
          proof (rule bind_space [OF goes_placed [OF m] goes_sound [OF m]], goal_cases)
            case g4: (1 st4)
            have t4: "goes ok types st st4" using goes_trans [OF goes_trans [OF t2 m] g4] .
            show ?case
            proof (rule bind_cn [OF cn goes_placed [OF g4] goes_sound [OF g4] fits [OF t4]], unfold prod.case, goal_cases)
              case g5: (1 y st5)
              show ?case
                using goes_trans [OF t4 g5] result_ok [OF s2(2) goes_trans [OF goes_trans [OF m g4] g5]] goes_sound [OF g5]
                by (simp add: sound_def)
            qed
          qed
          then show ?thesis using True by simp
        next
          case False
          then show ?thesis using t3 result_ok [OF s2(2) g3] ok_null by auto
        qed
      qed
    qed
  qed
qed

lemma bind_store:
  assumes "placed s" "sound ok types s" "ok (heap s) v"
    "\<And>a ks s1. stores ok types s s1 \<Longrightarrow> (r = None \<Longrightarrow> a < length (heap s1)) \<Longrightarrow> ends P (f ((a, ks), s1))"
  shows "ends P (rbind (storeMappingPair r ov kt kn v l p s) f)"
  unfolding ends_rbind by (rule ends_mono [OF storeMappingPair_stores [OF assms(1-3)]]) (use assms(4) in auto)

lemma flow_store_goes:
  assumes "placed st" "sound ok types st" "ok (heap st) kn" "ok (heap st) vn"
  shows "ends (\<lambda>q. goes ok types st (snd q)) (flow_store isMapping a ov isPair kt kn vn st)"
proof -
  have m: "ends (\<lambda>q. goes ok types st (snd q)) (rbind (storeMappingPair (Some a) ov kt kn vn 0 0 st) (\<lambda>((b, ks), st1). Inr (ks, st1)))"
    by (rule bind_store [OF assms(1,2,4)]) (simp add: stores_def)
  have p: "ends (\<lambda>q. goes ok types st (snd q)) (rbind (storeMappingPair None ov kt kn vn 0 0 st) (\<lambda>((b, ks), st1). Inr (ks, push_array st1 a (YRef b))))"
  proof (rule bind_store [OF assms(1,2,4)], goal_cases)
    case (1 b ks st1)
    then have g: "goes ok types st st1" by (simp add: stores_def)
    show ?case using goes_trans [OF g push_goes [OF goes_placed [OF g] goes_sound [OF g] ok_ref]] 1(2) by simp
  qed
  show ?thesis using m p push_goes [OF assms(1-3)] by (simp add: flow_store_def)
qed

lemma flow_loop_goes:
  assumes cn: "composes ok types cn n"
  shows "placed st \<Longrightarrow> sound ok types st \<Longrightarrow> a < length (heap st) \<Longrightarrow> 2 * left_over st + 1 \<le> n \<Longrightarrow>
    (if readNext then left_over st < k else 0 < k) \<Longrightarrow>
    ends (\<lambda>q. goes ok types st (snd q)) (flow_loop k cn i isMapping a t0 a0 readNext ov st)"
proof (induction k arbitrary: readNext ov st)
  case (Suc k)
  show ?case
  proof (cases "peek st 0 = 0")
    case True
    then show ?thesis by simp
  next
    case False
    show ?thesis unfolding flow_loop.simps if_not_P [OF False]
    proof (rule bind_space [OF Suc.prems(1,2)], goal_cases)
      case g1: (1 st1)
      note s1 = goes_placed [OF g1] goes_sound [OF g1] and h1 = goes_heap [OF g1]
      have close: "goes ok types st ((move 1 st1)\<lparr>tag := t0, anchor := a0, kind := Some k0, ndresult := YRef a\<rparr>)"
        if "peek st1 0 \<noteq> 0" for k0
        by (rule result_goes) (use move_goes [OF g1 that] ok_ref Suc.prems(3) h1 in \<open>simp_all add: move_def\<close>)
      consider "peek st1 0 = (if isMapping then 125 else 93)" | "peek st1 0 \<noteq> (if isMapping then 125 else 93)" "\<not> readNext"
        | (entry) "peek st1 0 \<noteq> (if isMapping then 125 else 93)" "readNext" by blast
      then show ?case
      proof cases
        case 1
        then have "peek st1 0 \<noteq> 0" by (simp split: if_splits)
        from close [OF this] 1 show ?thesis by simp
      next
        case 2
        then show ?thesis by simp
      next
        case entry
        have n1: "2 * left_over st1 + 1 \<le> n" "left_over st1 \<le> k" using goes_left [OF g1] Suc.prems(4,5) entry(2) by simp_all
        have "ends (\<lambda>q. goes ok types st (snd q)) (rbind (flow_entry cn i st1) (\<lambda>(isPair, keyTag, keyNode, valueNode, st2).
            rbind (flow_store isMapping a ov isPair keyTag keyNode valueNode st2) (\<lambda>(ks, st3).
            rbind (skip_space i st3) (\<lambda>st4.
              if peek st4 0 = 44 then flow_loop k cn i isMapping a t0 a0 True ks (move 1 st4)
              else flow_loop k cn i isMapping a t0 a0 False ks st4))))"
          unfolding ends_rbind [of _ "flow_entry cn i st1"]
        proof (rule ends_mono [OF flow_entry_goes [OF cn s1 n1(1)]], unfold split_def, goal_cases)
          case (1 e)
          let ?st2 = "snd (snd (snd (snd e)))"
          from 1 have g2: "goes ok types st1 ?st2" and o: "ok (heap ?st2) (fst (snd (snd e)))" "ok (heap ?st2) (fst (snd (snd (snd e))))" by simp_all
          show ?case
          proof (rule bind_pair [OF flow_store_goes [OF goes_placed [OF g2] goes_sound [OF g2] o]], goal_cases)
            case g3: (1 ks st3)
            show ?case unfolding snd_conv fst_conv
            proof (rule bind_space [OF goes_placed [OF g3] goes_sound [OF g3]], goal_cases)
              case g4: (1 st4)
              have t4: "goes ok types st1 st4" using goes_trans [OF goes_trans [OF g2 g3] g4] .
              note t = goes_trans [OF g1 t4] and l4 = goes_left [OF t4]
              have again: "ends (\<lambda>q. goes ok types st (snd q)) (flow_loop k cn i isMapping a t0 a0 r ks s)"
                if "goes ok types st4 s" "if r then left_over s < k else 0 < k" for r s
              proof -
                have ts: "goes ok types st s" by (rule goes_trans [OF t that(1)])
                have "a < length (heap s)" "2 * left_over s + 1 \<le> n"
                  using goes_heap [OF ts] goes_left [OF ts] Suc.prems(3,4) by simp_all
                from ends_goes [OF ts Suc.IH [OF goes_placed [OF ts] goes_sound [OF ts] this that(2)]] show ?thesis .
              qed
              have k: "0 < k" using left_over_pos [OF s1(1)] n1(2) by simp
              show ?case
              proof (cases "peek st4 0 = 44")
                case True
                have m: "goes ok types st4 (move 1 st4)" by (rule move_goes [OF goes_refl [OF goes_placed [OF t] goes_sound [OF t]]]) (simp add: True)
                have "left_over (move 1 st4) < left_over st4" by (rule left_over_move) (simp_all add: True)
                then have "left_over (move 1 st4) < k" using l4 n1(2) by simp
                with again [OF m, of True] True show ?thesis by simp
              next
                case False
                with again [OF goes_refl [OF goes_placed [OF t] goes_sound [OF t]], of False] k show ?thesis by simp
              qed
            qed
          qed
        qed
        then show ?thesis using entry by simp
      qed
    qed
  qed
qed (simp split: if_splits)

lemma readFlowCollection_goes:
  assumes "composes ok types cn n" "placed st" "sound ok types st" "2 * left_over st \<le> n"
  shows "ends (\<lambda>q. goes ok types st (snd q)) (readFlowCollection n cn i st)"
proof (cases "peek st 0 = 91 \<or> peek st 0 = 123")
  case False
  then show ?thesis using goes_refl [OF assms(2,3)] by (simp add: readFlowCollection_def)
next
  case True
  let ?c = "if peek st 0 = 123 then YObj [] else YArr []"
  obtain a st1 where c: "new_cell st ?c = (a, st1)" by fastforce
  note g1 = new_cell_goes [OF assms(2,3) _ c]
  have c0: "cell_ok ok (heap st) ?c" by simp
  let ?st2 = "set_anchor st1 (YRef a)"
  have g2: "goes ok types st ?st2"
    using goes_trans [OF g1(1) set_anchor_goes [OF goes_placed [OF g1(1)] goes_sound [OF g1(1)] ok_ref [OF g1(2)]]] c0 by blast
  have f: "position ?st2 = position st" "input ?st2 = input st" "heap ?st2 = heap st1"
    using c by (auto simp: set_anchor_def new_cell_def split: option.splits)
  then have p: "peek ?st2 0 \<noteq> 0" using True by (auto simp: peek_def)
  have g3: "goes ok types st (move 1 ?st2)" by (rule move_goes [OF g2 p])
  have l: "left_over (move 1 ?st2) < left_over st"
    using left_over_move [of ?st2 1] placed_not_end [OF goes_placed [OF g2]] f by (simp add: left_over_def)
  have "ends (\<lambda>q. goes ok types (move 1 ?st2) (snd q)) (flow_loop n cn i (peek st 0 = 123) a (tag st) (anchor st) True [] (move 1 ?st2))"
    by (rule flow_loop_goes [OF assms(1) goes_placed [OF g3] goes_sound [OF g3]]) (use l assms(4) g1(2) c0 f in \<open>auto simp: move_def\<close>)
  from ends_goes [OF g3 this] show ?thesis using True c by (auto simp: readFlowCollection_def)
qed

end

end
