(* ===== verification/Yaml_Node_Laws.thy ===== *)
theory Yaml_Node_Laws
  imports Yaml_Compose_Laws
begin

text \<open>
  Block collections and the composition of a node under the contract of \<open>value_law\<close>.
\<close>

section \<open>Block sequences\<close>

context value_law
begin

lemma sequence_loop_goes:
  assumes cn: "composes ok types cn n"
  shows "placed st \<Longrightarrow> sound ok types st \<Longrightarrow> 2 * left_over st \<le> n \<Longrightarrow> left_over st < k \<Longrightarrow>
    ends (\<lambda>q. goes ok types st (snd q)) (sequence_loop k cn i a detected st)"
proof (induction k arbitrary: detected st)
  case (Suc k)
  show ?case
  proof (cases "peek st 0 \<noteq> 45 \<or> \<not> is_WS_OR_EOL (peek st 1)")
    case True
    then show ?thesis using goes_refl [OF Suc.prems(1,2)] by simp
  next
    case False
    have m: "goes ok types st (move 1 st)" by (rule move_goes [OF goes_refl [OF Suc.prems(1,2)]]) (use False in simp)
    have lm: "left_over (move 1 st) < left_over st" by (rule left_over_move) (use False in simp_all)
    have again: "ends (\<lambda>q. goes ok types st (snd q)) (sequence_loop k cn i a True s)" if "goes ok types (move 1 st) s" for s
    proof -
      have ts: "goes ok types st s" by (rule goes_trans [OF m that])
      have "2 * left_over s \<le> n" "left_over s < k" using goes_left [OF that] lm Suc.prems(3,4) by simp_all
      from ends_goes [OF ts Suc.IH [OF goes_placed [OF ts] goes_sound [OF ts] this]] show ?thesis .
    qed
    show ?thesis unfolding sequence_loop.simps if_not_P [OF False]
    proof (rule bind_sep [OF goes_placed [OF m] goes_sound [OF m]], unfold prod.case, goal_cases)
      case g1: (1 b st1)
      note s1 = goes_placed [OF g1] goes_sound [OF g1]
      have e: "goes ok types (move 1 st) (push_array st1 a YNull)" by (rule goes_trans [OF g1 push_goes [OF s1 ok_null]])
      have fits: "2 * left_over st1 + (if block_context CONTEXT_BLOCK_IN then 2 else 1) \<le> n"
        using goes_left [OF g1] lm Suc.prems(3) by (simp add: block_context_def)
      have "ends (\<lambda>q. goes ok types st (snd q)) (rbind (cn i CONTEXT_BLOCK_IN False True st1) (\<lambda>(okx, st2).
          rbind (skip_space (- 1) (push_array st2 a (ndresult st2))) (\<lambda>st3.
            if (line st3 = line st1 \<or> lineIndent st3 > i) \<and> peek st3 0 \<noteq> 0 then throwError st3 ''bad indentation of a sequence entry''
            else if lineIndent st3 < i then Inr (True, st3) else sequence_loop k cn i a True st3)))"
      proof (rule bind_cn [OF cn s1 fits], unfold prod.case, goal_cases)
        case g2: (1 x st2)
        have p: "goes ok types st2 (push_array st2 a (ndresult st2))"
          by (rule push_goes [OF goes_placed [OF g2] goes_sound [OF g2]]) (use goes_sound [OF g2] in \<open>simp add: sound_def\<close>)
        show ?case
        proof (rule bind_space [OF goes_placed [OF p] goes_sound [OF p]], goal_cases)
          case g3: (1 st3)
          have t: "goes ok types (move 1 st) st3" using goes_trans [OF goes_trans [OF goes_trans [OF g1 g2] p] g3] .
          show ?case using again [OF t] goes_trans [OF m t] by auto
        qed
      qed
      then show ?case using again [OF e] by simp
    qed
  qed
qed simp

lemma readBlockSequence_goes:
  assumes "composes ok types cn n" "placed st" "sound ok types st" "2 * left_over st \<le> n"
  shows "ends (\<lambda>q. goes ok types st (snd q)) (readBlockSequence n cn i st)"
proof -
  obtain a st1 where c: "new_cell st (YArr []) = (a, st1)" by fastforce
  have c0: "cell_ok ok (heap st) (YArr [])" by simp
  note g1 = new_cell_goes [OF assms(2,3) c0 c]
  let ?st2 = "set_anchor st1 (YRef a)"
  have g2: "goes ok types st ?st2" "goes ok types st1 ?st2"
    using goes_trans [OF g1(1)] set_anchor_goes [OF goes_placed [OF g1(1)] goes_sound [OF g1(1)] ok_ref [OF g1(2)]] by blast+
  have n: "2 * left_over ?st2 \<le> n" "left_over ?st2 < n"
    using goes_left [OF g2(1)] assms(4) left_over_pos [OF goes_placed [OF g2(1)]] by simp_all
  show ?thesis unfolding readBlockSequence_def c prod.case Let_def
  proof (rule bind_pair [OF sequence_loop_goes [OF assms(1) goes_placed [OF g2(1)] goes_sound [OF g2(1)] n]], unfold prod.case, goal_cases)
    case g3: (1 detected st3)
    have t: "goes ok types st st3" by (rule goes_trans [OF g2(1) g3])
    have "a < length (heap st3)" using goes_heap [OF g2(2)] goes_heap [OF g3] g1(2) by simp
    then have "goes ok types st (st3\<lparr>tag := tag st, anchor := anchor st, kind := Some Sequence, ndresult := YRef a\<rparr>)"
      by (intro result_goes) (use t ok_ref in simp_all)
    then show ?case using t by simp
  qed
qed

section \<open>Block mappings\<close>

definition bmap_ok :: "lstate \<Rightarrow> bmap \<Rightarrow> bool" where
  "bmap_ok st b \<longleftrightarrow> ok (heap st) (b_keyNode b) \<and> ok (heap st) (b_valueNode b)"

lemma bmap_mono: "bmap_ok st b \<Longrightarrow> goes ok types st st1 \<Longrightarrow> bmap_ok st1 b"
  using ok_mono goes_heap by (auto simp: bmap_ok_def)

lemma bind_pair_store:
  assumes "placed s" "sound ok types s" "ok (heap s) v" "bmap_ok s b"
    "\<And>b1 s1. stores ok types s s1 \<Longrightarrow> bmap_ok s1 b1 \<Longrightarrow> b_atExplicitKey b1 = b_atExplicitKey b \<Longrightarrow> ends P (f (b1, s1))"
  shows "ends P (rbind (if c then store_pair a v l p b s else Inr (b, s)) f)"
proof (cases c)
  case True
  have "ends P (rbind (store_pair a v l p b s) f)"
    unfolding store_pair_def ends_rbind [where r = "rbind _ _"]
  proof (rule bind_store [OF assms(1-3)], goal_cases)
    case (1 a1 ks s1)
    then show ?case using assms(5) [OF 1(1)] ok_null by (simp add: bmap_ok_def)
  qed
  then show ?thesis using True by simp
qed (use assms(4) goes_refl [OF assms(1,2)] in \<open>simp add: assms(5) stores_def\<close>)

lemma stores_goes: "stores ok types st st1 \<Longrightarrow> goes ok types st st1"
  by (simp add: stores_def)

lemma stores_peek: "stores ok types st st1 \<Longrightarrow> peek st1 k = peek st k"
  by (simp add: stores_def goes_def peek_def)

text \<open>What the head of an entry leaves: with an entry the position has moved.\<close>

definition head_ok :: "lstate \<Rightarrow> head \<times> lstate \<Rightarrow> bool" where
  "head_ok st q \<longleftrightarrow> goes ok types st (snd q) \<and> (\<forall>b. fst q = Entry b \<longrightarrow> bmap_ok (snd q) b \<and> position st < position (snd q))"

lemma explicit_head_goes:
  assumes "placed st" "sound ok types st" "bmap_ok st b" "peek st 0 \<noteq> 0"
  shows "ends (head_ok st) (explicit_head a b st)"
proof -
  have mv: "goes ok types st (move 1 s) \<and> position st < position (move 1 s)" if "stores ok types st s" for s
    using move_goes [OF stores_goes [OF that]] stores_peek [OF that] assms(4) that by (simp add: stores_def)
  have e: "ends (head_ok st) (rbind (if c then store_pair a YNull 0 0 b st else Inr (b, st)) (\<lambda>(b1, st1).
      Inr (Entry (b1\<lparr>b_detected := True, b_atExplicitKey := True, b_allowCompact := True\<rparr>), move 1 st1)))" for c
    by (rule bind_pair_store [OF assms(1,2) ok_null assms(3)]) (use mv in \<open>auto simp: head_ok_def bmap_ok_def move_def\<close>)
  have n: "head_ok st (Entry (b\<lparr>b_atExplicitKey := False, b_allowCompact := True\<rparr>), move 1 st)"
    using mv [of st] goes_refl [OF assms(1,2)] assms(3) by (simp add: head_ok_def stores_def bmap_ok_def move_def)
  show ?thesis using e n by (simp add: explicit_head_def)
qed

lemma implicit_head_goes:
  assumes cn: "composes ok types cn n" and st: "placed st" "sound ok types st" "bmap_ok st b" and n: "2 * left_over st + 1 \<le> n"
  shows "ends (head_ok st) (implicit_head cn i a b st)"
  unfolding implicit_head_def
proof (rule bind_cn [OF cn st(1,2)], use n in \<open>simp add: block_context_def\<close>, unfold prod.case, goal_cases)
  case g1: (1 okx st1)
  note s1 = goes_placed [OF g1] goes_sound [OF g1]
  let ?st2 = "scan is_WHITE_SPACE st1"
  have g2: "goes ok types st1 ?st2" by (rule scanned [OF scan_steps [OF s1(1)] s1(2)]) (simp add: is_WHITE_SPACE_def)
  have g3: "goes ok types st1 (move 1 ?st2)" "position st < position (move 1 ?st2)" if "peek ?st2 0 = 58"
  proof -
    show "goes ok types st1 (move 1 ?st2)" by (rule move_goes [OF g2]) (simp add: that)
    show "position st < position (move 1 ?st2)" using goes_trans [OF g1 g2] by (simp add: goes_def)
  qed
  have pair: "ends (head_ok st) (rbind (if c then store_pair a YNull 0 0 b (move 1 ?st2) else Inr (b, move 1 ?st2)) (\<lambda>(b1, st4).
      Inr (Entry (b1\<lparr>b_detected := True, b_atExplicitKey := False, b_allowCompact := False, b_keyTag := tag st4, b_keyNode := ndresult st4\<rparr>), st4)))"
    if "peek ?st2 0 = 58" for c
  proof -
    note g = g3 [OF that]
    have b3: "bmap_ok (move 1 ?st2) b" using bmap_mono [OF bmap_mono [OF st(3) g1] g(1)] .
    show ?thesis
    proof (rule bind_pair_store [OF goes_placed [OF g(1)] goes_sound [OF g(1)] ok_null b3], unfold prod.case, goal_cases)
      case (1 b1 st4)
      have "goes ok types st st4" using goes_trans [OF goes_trans [OF g1 g(1)] stores_goes [OF 1(1)]] .
      moreover have "position st < position st4" using 1(1) g(2) by (simp add: stores_def)
      moreover have "ok (heap st4) (ndresult st4)" using goes_sound [OF stores_goes [OF 1(1)]] by (simp add: sound_def)
      ultimately show ?case using 1(2) by (simp add: head_ok_def bmap_ok_def)
    qed
  qed
  have "head_ok st (Leave, st1)" "head_ok st (NotMapping, st1)" "head_ok st (NotMapping, ?st2)"
    using g1 goes_trans [OF g1 g2] by (simp_all add: head_ok_def)
  then show ?case using pair by (simp add: Let_def)
qed

lemma mapping_head_goes:
  assumes "composes ok types cn n" "placed st" "sound ok types st" "bmap_ok st b" "2 * left_over st + 1 \<le> n"
  shows "ends (head_ok st) (mapping_head cn i a b st)"
proof -
  have "ends (head_ok st) (explicit_head a b st)" if "peek st 0 = 63 \<or> peek st 0 = 58"
    by (rule explicit_head_goes [OF assms(2-4)]) (use that in auto)
  then show ?thesis using implicit_head_goes [OF assms] by (simp add: mapping_head_def)
qed

lemma mapping_value_goes:
  assumes cn: "composes ok types cn n" and st: "placed st" "sound ok types st" "bmap_ok st b" and n: "2 * left_over st + 2 \<le> n"
  shows "ends (\<lambda>q. goes ok types st (snd q) \<and> bmap_ok (snd q) (fst q)) (mapping_value cn i a l p b st)"
proof (cases "line st = l \<or> lineIndent st > i")
  case False
  then show ?thesis using goes_refl [OF st(1,2)] st(3) by (simp add: mapping_value_def)
next
  case True
  show ?thesis unfolding mapping_value_def if_P [OF True]
  proof (rule bind_cn [OF cn st(1,2)], use n in \<open>simp add: block_context_def\<close>, unfold prod.case Let_def, goal_cases)
    case g1: (1 okx st1)
    note s1 = goes_placed [OF g1] goes_sound [OF g1]
    let ?b = "if \<not> okx then b else if b_atExplicitKey b then b\<lparr>b_keyNode := ndresult st1\<rparr> else b\<lparr>b_valueNode := ndresult st1\<rparr>"
    have b1: "bmap_ok st1 ?b" using bmap_mono [OF st(3) g1] s1(2) by (simp add: bmap_ok_def sound_def)
    then have v: "ok (heap st1) (b_valueNode ?b)" by (simp add: bmap_ok_def)
    have "ends (\<lambda>q. goes ok types st (snd q) \<and> bmap_ok (snd q) (fst q))
        (rbind (if \<not> b_atExplicitKey ?b then store_pair a (b_valueNode ?b) l p ?b st1 else Inr (?b, st1))
          (\<lambda>(b2, st2). rbind (skip_space (- 1) st2) (\<lambda>st3. Inr (b2, st3))))"
    proof (rule bind_pair_store [OF s1 v b1], unfold prod.case, goal_cases)
      case (1 b2 st2)
      note g2 = stores_goes [OF 1(1)]
      show ?case
        by (rule bind_space [OF goes_placed [OF g2] goes_sound [OF g2]]) (use goes_trans [OF goes_trans [OF g1 g2]] bmap_mono [OF 1(2)] in simp)
    qed
    then show ?case by (cases "b_atExplicitKey ?b") (simp_all only: if_True if_False not_True_eq_False not_False_eq_True)
  qed
qed

lemma mapping_end_goes:
  assumes "placed st" "sound ok types st" "bmap_ok st b" "a < length (heap st)"
  shows "ends (\<lambda>q. goes ok types st (snd q)) (mapping_end a t0 a0 b st)"
  unfolding mapping_end_def
proof (rule bind_pair_store [OF assms(1,2) ok_null assms(3)], unfold prod.case, goal_cases)
  case (1 b1 st1)
  note g = stores_goes [OF 1(1)]
  have "goes ok types st (st1\<lparr>tag := t0, anchor := a0, kind := Some Mapping, ndresult := YRef a\<rparr>)"
    by (rule result_goes) (use g ok_ref assms(4) goes_heap [OF g] in simp_all)
  then show ?case using g by simp
qed

lemma mapping_loop_goes:
  assumes cn: "composes ok types cn n"
  shows "placed st \<Longrightarrow> sound ok types st \<Longrightarrow> bmap_ok st b \<Longrightarrow> a < length (heap st) \<Longrightarrow> 2 * left_over st + 1 \<le> n \<Longrightarrow> left_over st < k \<Longrightarrow>
    ends (\<lambda>q. goes ok types st (snd q)) (mapping_loop k cn i j a t0 a0 b st)"
proof (induction k arbitrary: b st)
  case (Suc k)
  have last: "ends (\<lambda>q. goes ok types st (snd q)) (mapping_end a t0 a0 b1 s)" if "goes ok types st s" "bmap_ok s b1" for b1 s
    by (rule ends_goes [OF that(1) mapping_end_goes [OF goes_placed [OF that(1)] goes_sound [OF that(1)] that(2)]])
      (use Suc.prems(4) goes_heap [OF that(1)] in simp)
  show ?case
  proof (cases "peek st 0 = 0")
    case True
    then show ?thesis using last [OF goes_refl [OF Suc.prems(1,2)] Suc.prems(3)] by simp
  next
    case False
    show ?thesis unfolding mapping_loop.simps if_not_P [OF False] ends_rbind [where r = "mapping_head _ _ _ _ _"]
    proof (rule ends_mono [OF mapping_head_goes [OF cn Suc.prems(1-3,5)]], unfold split_def, goal_cases)
      case (1 q)
      obtain h st1 where q: "q = (h, st1)" by (cases q)
      have g1: "goes ok types st st1" using 1 q by (simp add: head_ok_def)
      show ?case
      proof (cases h)
        case (Entry b1)
        have b1: "bmap_ok st1 b1" and p: "position st < position st1" using 1 q Entry by (auto simp: head_ok_def)
        have l: "left_over st1 < left_over st" using g1 p Suc.prems(1) by (simp add: left_over_def goes_def placed_def)
        have "ends (\<lambda>q. goes ok types st (snd q)) (rbind (mapping_value cn i a (line st) (position st) b1 st1) (\<lambda>q.
            if lineIndent (snd q) > i \<and> peek (snd q) 0 \<noteq> 0 then throwError (snd q) ''bad indentation of a mapping entry''
            else if lineIndent (snd q) < i then mapping_end a t0 a0 (fst q) (snd q)
            else mapping_loop k cn i j a t0 a0 (fst q) (snd q)))"
          unfolding ends_rbind
        proof (rule ends_mono [OF mapping_value_goes [OF cn goes_placed [OF g1] goes_sound [OF g1] b1]], use l Suc.prems(5) in simp, goal_cases)
          case (1 r)
          then have g2: "goes ok types st1 (snd r)" and b2: "bmap_ok (snd r) (fst r)" by simp_all
          note t = goes_trans [OF g1 g2]
          have "ends (\<lambda>q. goes ok types (snd r) (snd q)) (mapping_loop k cn i j a t0 a0 (fst r) (snd r))"
            by (rule Suc.IH [OF goes_placed [OF t] goes_sound [OF t] b2])
              (use goes_heap [OF t] goes_left [OF g2] l Suc.prems(4-6) in simp_all)
          from ends_goes [OF t this] last [OF t b2] show ?case by auto
        qed
        then show ?thesis using Entry q by simp
      next
        case Leave
        then show ?thesis using last [OF g1 bmap_mono [OF Suc.prems(3) g1]] q by simp
      next
        case NotMapping
        then show ?thesis using g1 q by simp
      qed
    qed
  qed
qed simp

lemma readBlockMapping_goes:
  assumes "composes ok types cn n" "placed st" "sound ok types st" "2 * left_over st + 1 \<le> n"
  shows "ends (\<lambda>q. goes ok types st (snd q)) (readBlockMapping n cn i j st)"
proof -
  obtain a st1 where c: "new_cell st (YObj []) = (a, st1)" by fastforce
  have c0: "cell_ok ok (heap st) (YObj [])" by simp
  note g1 = new_cell_goes [OF assms(2,3) c0 c]
  let ?st2 = "set_anchor st1 (YRef a)"
  have g2: "goes ok types st1 ?st2"
    by (rule set_anchor_goes [OF goes_placed [OF g1(1)] goes_sound [OF g1(1)] ok_ref [OF g1(2)]])
  note t = goes_trans [OF g1(1) g2]
  have "ends (\<lambda>q. goes ok types ?st2 (snd q)) (mapping_loop n cn i j a (tag st) (anchor st) bmap_start ?st2)"
    by (rule mapping_loop_goes [OF assms(1) goes_placed [OF t] goes_sound [OF t]])
      (use goes_heap [OF g2] g1(2) goes_left [OF t] assms(4) ok_null in \<open>simp_all add: bmap_ok_def bmap_start_def\<close>)
  from ends_goes [OF t this] show ?thesis by (simp add: readBlockMapping_def c)
qed

section \<open>Nodes\<close>

lemma or_else_goes:
  assumes "ends (\<lambda>q. goes ok types st (snd q)) (r1 st)"
    "\<And>st1. goes ok types st st1 \<Longrightarrow> ends (\<lambda>q. goes ok types st (snd q)) (r2 st1)"
  shows "ends (\<lambda>q. goes ok types st (snd q)) (or_else r1 r2 st)"
  unfolding or_else_def by (rule bind_pair [OF assms(1)]) (use assms(2) in simp)

lemma scalar_goes:
  assumes "ends (\<lambda>q. steps st (snd q)) r" "goes ok types st0 st"
  shows "ends (\<lambda>q. goes ok types st0 (snd q)) r"
  by (rule ends_mono [OF assms(1)]) (use goes_trans [OF assms(2)] scanned goes_sound [OF assms(2)] in blast)

lemma guarded_goes:
  "goes ok types st0 st \<Longrightarrow> (b \<Longrightarrow> ends (\<lambda>q. goes ok types st0 (snd q)) (r st)) \<Longrightarrow> ends (\<lambda>q. goes ok types st0 (snd q)) (guarded b r st)"
  by (simp add: guarded_def)

lemma scalar_content_goes:
  assumes st: "placed st" "sound ok types st"
  shows "ends (\<lambda>q. goes ok types st (snd q)) (scalar_content i ctx st)"
proof -
  have refl: "goes ok types st st" by (rule goes_refl [OF st])
  let ?b = "ctx = CONTEXT_BLOCK_OUT \<or> ctx = CONTEXT_BLOCK_IN"
  have d: "ends (\<lambda>q. goes ok types st (snd q)) (readDoubleQuotedScalar i s)" if "goes ok types st s" for s
    by (rule scalar_goes [OF quoted_ends(2) [OF goes_placed [OF that]] that])
  have q: "ends (\<lambda>q. goes ok types st (snd q)) (or_else (readSingleQuotedScalar i) (readDoubleQuotedScalar i) s)" if "goes ok types st s" for s
    unfolding or_else_def by (rule bind_pair [OF scalar_goes [OF quoted_ends(1) [OF goes_placed [OF that]] that]]) (use d in simp)
  have b: "ends (\<lambda>q. goes ok types st (snd q)) (guarded ?b (readBlockScalar i) st)"
    by (rule guarded_goes [OF refl], rule scalar_goes [OF readBlockScalar_ends [OF st(1)] refl])
  have p: "ends (\<lambda>q. goes ok types st (snd q)) (rbind (readPlainScalar i w s) (\<lambda>(isPlain, st3).
      Inr (isPlain, if isPlain \<and> tag st3 = None then st3\<lparr>tag := Some (js ''?'')\<rparr> else st3)))" if "goes ok types st s" for w s
    by (rule bind_pair [OF scalar_goes [OF readPlainScalar_ends [OF goes_placed [OF that]] that]]) simp
  have a: "ends (\<lambda>q. goes ok types st (snd q)) (if okx then Inr (True, s)
      else rbind (readAlias s) (\<lambda>(isAlias, st2).
        if isAlias then (if tag st2 \<noteq> None \<or> anchor st2 \<noteq> None then throwError st2 ''alias node should not have any properties'' else Inr (True, st2))
        else rbind (readPlainScalar i (ctx = CONTEXT_FLOW_IN) st2) (\<lambda>(isPlain, st3).
          Inr (isPlain, if isPlain \<and> tag st3 = None then st3\<lparr>tag := Some (js ''?'')\<rparr> else st3))))"
    if "goes ok types st s" for okx s
    using that p by (cases okx) (auto intro!: bind_pair [OF readAlias_goes [OF that]])
  show ?thesis unfolding scalar_content_def
  proof (rule bind_pair [OF or_else_goes [where ?r1.0 = "guarded ?b (readBlockScalar i)", OF b q]], assumption, unfold prod.case, goal_cases)
    case (1 okx st1)
    show ?case
    proof (rule bind_pair [OF a [OF 1]], unfold prod.case, goal_cases)
      case (1 hasContent st4)
      show ?case using goes_trans [OF 1 set_anchor_goes [OF goes_placed [OF 1] goes_sound [OF 1]]] goes_sound [OF 1]
        by (simp add: sound_def)
    qed
  qed
qed

lemma node_content_goes:
  assumes cn: "composes ok types cn n" and st: "placed st" "sound ok types st" and n: "2 * left_over st \<le> n"
    and m: "allowBlock \<Longrightarrow> 2 * left_over st + 1 \<le> n"
  shows "ends (\<lambda>q. goes ok types st (snd q)) (node_content n cn i ctx status allowBlock st)"
proof -
  have refl: "goes ok types st st" by (rule goes_refl [OF st])
  let ?f = "if ctx = CONTEXT_FLOW_IN \<or> ctx = CONTEXT_FLOW_OUT then i else i + 1" and ?p = "position st - lineStart st"
  have sq: "ends (\<lambda>q. goes ok types st (snd q)) (readBlockSequence n cn k st)" for k by (rule readBlockSequence_goes [OF cn st n])
  have mp: "ends (\<lambda>q. goes ok types st (snd q)) (readBlockMapping n cn k j s)" if "goes ok types st s" allowBlock for k j s
    by (rule ends_goes [OF that(1) readBlockMapping_goes [OF cn goes_placed [OF that(1)] goes_sound [OF that(1)]]])
      (use goes_left [OF that(1)] m [OF that(2)] in simp)
  have fl: "ends (\<lambda>q. goes ok types st (snd q)) (readFlowCollection n cn k s)" if "goes ok types st s" for k s
    by (rule ends_goes [OF that readFlowCollection_goes [OF cn goes_placed [OF that] goes_sound [OF that]]])
      (use goes_left [OF that] n in simp)
  have bl: "ends (\<lambda>q. goes ok types st (snd q)) (guarded allowBlock (or_else (readBlockSequence n cn ?p) (readBlockMapping n cn ?p ?f)) st)"
    by (rule guarded_goes [OF refl], rule or_else_goes [where ?r1.0 = "readBlockSequence n cn ?p", OF sq], rule mp)
  have c: "ends (\<lambda>q. goes ok types st (snd q)) (or_else (guarded allowBlock (or_else (readBlockSequence n cn ?p) (readBlockMapping n cn ?p ?f)))
      (readFlowCollection n cn ?f) st)"
    by (rule or_else_goes, rule bl, rule fl)
  have one: "ends (\<lambda>q. goes ok types st (snd q)) (rbind (or_else (guarded allowBlock (or_else (readBlockSequence n cn ?p) (readBlockMapping n cn ?p ?f)))
      (readFlowCollection n cn ?f) st) (\<lambda>(okx, st1). if okx then Inr (True, st1) else scalar_content ?f ctx st1))"
    by (rule bind_pair [OF c]) (use ends_goes [OF _ scalar_content_goes] goes_placed goes_sound in auto)
  have "ends (\<lambda>q. goes ok types st (snd q)) (guarded allowBlock (readBlockSequence n cn ?p) st)"
    by (rule guarded_goes [OF refl]) (rule sq)
  then show ?thesis using one refl unfolding node_content_def Let_def by (cases "status = 1") simp_all
qed

lemma construct_node_goes:
  assumes "goes ok types st0 st" "ty \<in> types"
  shows "ends (goes ok types st0) (construct_node ty st)"
proof (cases "ty_construct ty (heap st) (ndresult st)")
  case (Inr q)
  obtain v h where q: "q = (v, h)" by (cases q)
  have "heap_ok ok h" "ok h v" "length (heap st) \<le> length h"
    using ok_construct [OF assms(2)] Inr q goes_sound [OF assms(1)] unfolding constructs_def sound_def by blast+
  then have g: "goes ok types st (st\<lparr>ndresult := v, heap := h\<rparr>)"
    using goes_sound [OF assms(1)] goes_placed [OF assms(1)] all_mono [of "heap st" _ h] pairs_mono [of "heap st" _ h]
    by (auto simp: goes_def sound_def)
  have "ok (heap (st\<lparr>ndresult := v, heap := h\<rparr>)) v" using \<open>ok h v\<close> by simp
  from goes_trans [OF goes_trans [OF assms(1) g] set_anchor_goes [OF goes_placed [OF g] goes_sound [OF g] this]]
  show ?thesis using Inr q by (simp add: construct_node_def)
qed (simp add: construct_node_def)

lemma resolve_node_goes:
  assumes "goes ok types st0 st"
  shows "ends (goes ok types st0) (resolve_node st)"
proof -
  have i: "ty \<in> types" if "find p (compiledImplicit (typeSchema st)) = Some ty" for p ty
    using that goes_sound [OF assms] by (auto simp: find_Some_iff sound_def)
  have x: "ty \<in> types" if "compiledTypeMap (typeSchema st) k t = Some ty" for k t ty
    using that goes_sound [OF assms] by (auto simp: sound_def)
  have c: "ends (goes ok types st0) (rbind (construct_node ty st) (\<lambda>st1. Inr (st1\<lparr>tag := t\<rparr>)))" if "ty \<in> types" for ty t
    by (rule bind_state [OF construct_node_goes]) (use assms that goes_refl goes_placed goes_sound goes_trans in auto)
  show ?thesis using assms i x c construct_node_goes [OF assms]
    by (auto simp: resolve_node_def split: option.splits)
qed

text \<open>The composer ends and keeps the values, with the bound that goes with the rest of the input.\<close>

lemma compose_step_goes:
  assumes cn: "composes ok types cn n" and st: "placed st" "sound ok types st"
    and n: "2 * left_over st + (if block_context ctx then 2 else 1) \<le> Suc n"
  shows "ends (\<lambda>q. goes ok types st (snd q)) (compose_step n cn i ctx s c st)"
  unfolding compose_step_def ends_rbind [where r = "node_start _ _ _ _ _"]
proof (rule ends_mono [OF node_start_goes [OF st]], unfold split_def, goal_cases)
  case (1 q)
  let ?st1 = "snd q"
  from 1 have g1: "goes ok types st ?st1" and b: "snd (fst q) \<longrightarrow> block_context ctx" by simp_all
  note s1 = goes_placed [OF g1] goes_sound [OF g1]
  have c: "ends (\<lambda>q. goes ok types ?st1 (snd q)) (node_content n cn i ctx status (snd (fst q)) ?st1)" for status
    by (rule node_content_goes [OF cn s1]) (use goes_left [OF g1] n b in \<open>auto split: if_splits\<close>)
  have h: "ends (\<lambda>q. goes ok types st (snd q)) (if k then node_content n cn i ctx status (snd (fst q)) ?st1 else Inr (False, ?st1))" for k status
    using ends_goes [OF g1 c] g1 by simp
  show ?case
  proof (rule bind_pair [OF h], goal_cases)
    case (1 x st2)
    show ?case unfolding fst_conv snd_conv by (rule bind_state [OF resolve_node_goes [OF 1]]) simp
  qed
qed

lemma composeNode_goes: "composes ok types (composeNode n) n"
proof (induction n)
  case (Suc n)
  then show ?case using compose_step_goes by (simp add: composes_def)
qed (simp add: composes_def)

end

end
