(* ===== verification/Yaml_Load_Total.thy ===== *)
theory Yaml_Load_Total
  imports Yaml_Node_Laws Yaml_Schema_Laws
begin

text \<open>
  Documents and the load functions under the contract of \<open>value_law\<close>: on every input the loader returns
  or throws, and what it returns keeps the property.
\<close>

section \<open>Directives\<close>

lemma directive_args_ends:
  "placed st \<Longrightarrow> ends (\<lambda>q. steps st (snd q) \<and> lineIndent (snd q) = lineIndent st) (directive_args args st)"
proof (induction args st rule: directive_args.induct)
  case (1 args st)
  let ?P = "\<lambda>st q. steps st (snd q) \<and> lineIndent (snd q) = lineIndent st"
  let ?st1 = "scan is_WHITE_SPACE st"
  let ?ch = "peek ?st1 0"
  let ?st2 = "scan (\<lambda>c. c \<noteq> 0 \<and> \<not> is_WS_OR_EOL c) (move 1 ?st1)"
  have s1: "steps st ?st1" by (rule scan_steps [OF "1.prems"]) (simp add: is_WHITE_SPACE_def)
  have nz: "?ch \<noteq> - 1" by (rule placed_not_end [OF steps_placed [OF s1]])
  have m: "steps st (move 1 ?st1)" if "?ch \<noteq> 0" by (rule steps_trans [OF s1 steps_move1 [OF steps_placed [OF s1] that]])
  have sc: "steps st (scan p (move 1 ?st1))" if "?ch \<noteq> 0" "\<not> p 0" for p
    by (rule steps_trans [OF m [OF that(1)] scan_steps [where p = p, OF steps_placed [OF m [OF that(1)]] that(2)]])
  have li: "lineIndent (scan p (move 1 ?st1)) = lineIndent st" for p by (simp add: move_def)
  have cm: "steps st (scan (\<lambda>c. c \<noteq> 0 \<and> \<not> is_EOL c) (move 1 ?st1))" if "?ch = 35" by (rule sc) (use that in simp_all)
  have again: "ends (?P st) (directive_args (args @ [input_slice ?st2 (position ?st1) (position ?st2)]) ?st2)"
    if c: "peek st 0 \<noteq> 0" "?ch \<noteq> 35" "\<not> is_EOL ?ch" "?ch \<noteq> 0"
  proof -
    have s2: "steps st ?st2" by (rule sc [OF c(4)]) simp
    have "ends (?P ?st2) (directive_args (args @ [input_slice ?st2 (position ?st1) (position ?st2)]) ?st2)"
      by (rule "1.IH" [OF c(1) refl refl nz c(2-4) refl steps_placed [OF s2]])
    then show ?thesis by (rule ends_mono) (use steps_trans [OF s2] li in auto)
  qed
  show ?case using steps_refl [OF "1.prems"] s1 cm again nz
    by (subst directive_args.simps) (auto simp: Let_def move_def)
qed

lemma three_dashes: "placed st \<Longrightarrow> peek st 2 = 45 \<or> peek st 2 = 46 \<Longrightarrow> peek st 0 \<noteq> 0 \<Longrightarrow> peek st 1 \<noteq> 0 \<Longrightarrow> steps st (move 3 st)"
proof -
  assume a: "placed st" "peek st 2 = 45 \<or> peek st 2 = 46" "peek st 0 \<noteq> 0" "peek st 1 \<noteq> 0"
  have s1: "steps st (move 1 st)" by (rule steps_move1 [OF a(1,3)])
  have p: "peek (move 1 st) 0 = peek st 1" "peek (move 1 (move 1 st)) 0 = peek st 2" by (simp_all add: peek_def add.commute)
  have s2: "steps st (move 1 (move 1 st))" by (rule steps_trans [OF s1 steps_move1 [OF steps_placed [OF s1]]]) (use a(4) p in simp)
  have "steps st (move 1 (move 1 (move 1 st)))" by (rule steps_trans [OF s2 steps_move1 [OF steps_placed [OF s2]]]) (use a(2) p in auto)
  moreover have "move 1 (move 1 (move 1 st)) = move 3 st" by (simp add: move_def)
  ultimately show ?thesis by simp
qed

lemma scan_here: "placed st \<Longrightarrow> \<not> p (peek st 0) \<Longrightarrow> scan p st = st"
proof -
  assume a: "placed st" "\<not> p (peek st 0)"
  have "nat (position st) < length (input st)" using a(1) by (simp add: placed_def nat_less_iff)
  then have "drop (nat (position st)) (input st) = (input st ! nat (position st)) # drop (Suc (nat (position st))) (input st)"
    by (rule Cons_nth_drop_Suc [symmetric])
  then show ?thesis using a by (simp add: scan_def move_def placed_peek)
qed

lemma skip_space_here: "placed st \<Longrightarrow> \<not> is_WS_OR_EOL (peek st 0) \<Longrightarrow> peek st 0 \<noteq> 35 \<Longrightarrow> skip_space c st = Inr st"
proof -
  assume a: "placed st" "\<not> is_WS_OR_EOL (peek st 0)" "peek st 0 \<noteq> 35"
  have "scan is_WHITE_SPACE st = st" by (rule scan_here [OF a(1)]) (use a(2) in \<open>auto simp: is_WHITE_SPACE_def is_WS_OR_EOL_def\<close>)
  then have b: "skip_blank True st = st" using a(3) by (simp add: skip_blank_def)
  have "skip_lines True 0 st = Inr (0, st)"
    using a(2) b by (subst skip_lines.simps) (auto simp: Let_def is_EOL_def is_WS_OR_EOL_def)
  then show ?thesis by (simp add: skip_space_def skipSeparationSpace_def)
qed

text \<open>In front of the three dashes of the next document.\<close>

definition at_dashes :: "lstate \<Rightarrow> bool" where
  "at_dashes st \<longleftrightarrow> position st = lineStart st \<and> peek st 0 = 45 \<and> peek st 1 = 45 \<and> peek st 2 = 45"

context value_law
begin

lemma goes_version [simp]:
  "goes ok types st (st'\<lparr>version := v, checkLineBreaks := c\<rparr>) = goes ok types st st'"
  by (simp add: goes_def)

lemma handleYamlDirective_goes: "goes ok types st0 st \<Longrightarrow> ends (goes ok types st0) (handleYamlDirective st args)"
  by (auto simp: handleYamlDirective_def Let_def split: list.splits option.splits)

lemma handleTagDirective_goes: "goes ok types st0 st \<Longrightarrow> ends (goes ok types st0) (handleTagDirective st args)"
  by (auto simp: handleTagDirective_def split: list.splits)

lemma read_directive_goes:
  assumes st: "placed st" "sound ok types st" and l: "lineIndent st = 0" "peek st 0 \<noteq> 0"
  shows "ends (\<lambda>st'. goes ok types st st' \<and> position st < position st') (read_directive st)"
proof -
  let ?st1 = "move 1 st"
  let ?st2 = "scan (\<lambda>c. c \<noteq> 0 \<and> \<not> is_WS_OR_EOL c) ?st1"
  let ?name = "input_slice ?st2 (position ?st1) (position ?st2)"
  have s1: "steps st ?st1" by (rule steps_move1 [OF st(1) l(2)])
  have s2: "steps ?st1 ?st2" by (rule scan_steps [OF steps_placed [OF s1]]) simp
  have l2: "lineIndent ?st2 = 0" using l(1) by (simp add: move_def)
  let ?P = "\<lambda>st'. goes ok types st st' \<and> position st < position st'"
  have "ends ?P (rbind (directive_args [] ?st2) (\<lambda>(args, st3).
      rbind (if peek st3 0 \<noteq> 0 then readLineBreak st3 else Inr st3) (\<lambda>st4.
        if ?name = js ''YAML'' then handleYamlDirective st4 args
        else if ?name = js ''TAG'' then handleTagDirective st4 args
        else Inr (throwWarning st4 (js ''unknown document directive \"'' @ ?name @ js ''\"'')))))"
    unfolding ends_rbind [where r = "directive_args _ _"]
  proof (rule ends_mono [OF directive_args_ends [OF steps_placed [OF s2]]], unfold split_def, goal_cases)
    case (1 q)
    let ?st3 = "snd q"
    have s3: "steps ?st1 ?st3" "lineIndent ?st3 = 0" using 1 l2 steps_trans [OF s2] by auto
    have g3: "goes ok types ?st1 ?st3" by (rule scanned [OF s3(1)]) (use st(2) in simp)
    have r: "ends (goes ok types ?st1) (if peek ?st3 0 \<noteq> 0 then readLineBreak ?st3 else Inr ?st3)"
    proof (cases "readLineBreak ?st3")
      case (Inl e)
      then show ?thesis using readLineBreak_ends [of ?st3] g3 by simp
    next
      case (Inr st4)
      note n = readLineBreak_next [OF Inr steps_placed [OF s3(1)]]
      have "steps ?st3 st4" using n s3(2) by (simp add: steps_def placed_def)
      from goes_trans [OF g3 scanned [OF this goes_sound [OF g3]]] show ?thesis using Inr g3 by simp
    qed
    have up: "goes ok types ?st1 s \<Longrightarrow> ?P s" for s
      using goes_trans [OF scanned [OF s1 st(2)], of s] by (simp add: goes_def)
    show ?case
    proof (rule bind_state [OF r], goal_cases)
      case (1 st4)
      show ?case using ends_mono [OF handleYamlDirective_goes [OF 1] up] ends_mono [OF handleTagDirective_goes [OF 1] up] up [of "throwWarning st4 _"] 1
        by simp
    qed
  qed
  then show ?thesis by (simp add: read_directive_def Let_def)
qed

lemma directive_loop_goes:
  "placed st \<Longrightarrow> sound ok types st \<Longrightarrow> left_over st < k \<Longrightarrow> ends (\<lambda>q. goes ok types st (snd q)) (directive_loop k b st)"
proof (induction k arbitrary: b st)
  case (Suc k)
  show ?case
  proof (cases "peek st 0 = 0")
    case True
    then show ?thesis using goes_refl [OF Suc.prems(1,2)] by simp
  next
    case False
    show ?thesis unfolding directive_loop.simps if_not_P [OF False]
    proof (rule bind_space [OF Suc.prems(1,2)], goal_cases)
      case g1: (1 st1)
      note s1 = goes_placed [OF g1] goes_sound [OF g1]
      show ?case
      proof (cases "lineIndent st1 > 0 \<or> peek st1 0 \<noteq> 37")
        case True
        then show ?thesis using g1 by simp
      next
        case False
        then have l: "lineIndent st1 = 0" "peek st1 0 \<noteq> 0" using s1(1) by (simp_all add: placed_def)
        have "ends (\<lambda>q. goes ok types st (snd q)) (rbind (read_directive st1) (\<lambda>st2. directive_loop k True st2))"
          unfolding ends_rbind
        proof (rule ends_mono [OF read_directive_goes [OF s1 l]], goal_cases)
          case (1 st2)
          then have g2: "goes ok types st1 st2" "position st1 < position st2" by simp_all
          have "left_over st2 < left_over st1" using g2 s1(1) by (simp add: left_over_def goes_def placed_def)
          then have "left_over st2 < k" using goes_left [OF g1] Suc.prems(3) by simp
          from ends_goes [OF goes_trans [OF g1 g2(1)] Suc.IH [OF goes_placed [OF g2(1)] goes_sound [OF g2(1)] this]] show ?case .
        qed
        then show ?thesis using False by simp
      qed
    qed
  qed
qed simp

section \<open>Documents\<close>

lemma document_start_goes:
  assumes "placed st" "sound ok types st"
  shows "ends (\<lambda>st'. goes ok types st st' \<and> (at_dashes st \<longrightarrow> position st < position st')) (document_start b st)"
proof (cases "lineIndent st = 0 \<and> peek st 0 = 45 \<and> peek st 1 = 45 \<and> peek st 2 = 45")
  case True
  have m: "steps st (move 3 st)" by (rule three_dashes [OF assms(1)]) (use True in simp_all)
  have "ends (goes ok types (move 3 st)) (skip_space (- 1) (move 3 st))"
    by (rule skip_space_goes [OF goes_refl [OF steps_placed [OF m]]]) (use assms(2) in simp)
  then have "ends (\<lambda>st'. goes ok types st st' \<and> position st < position st') (skip_space (- 1) (move 3 st))"
    by (rule ends_mono) (use goes_trans [OF scanned [OF m assms(2)]] in \<open>auto simp: goes_def\<close>)
  then have "ends (\<lambda>st'. goes ok types st st' \<and> (at_dashes st \<longrightarrow> position st < position st')) (skip_space (- 1) (move 3 st))"
    by (rule ends_mono) simp
  then show ?thesis using True by (simp add: document_start_def)
next
  case False
  have "\<not> at_dashes st" using False assms(1) by (auto simp: at_dashes_def placed_def)
  then show ?thesis using False goes_refl [OF assms] by (auto simp: document_start_def)
qed

lemma documents_goes:
  "goes ok types st0 st \<Longrightarrow> goes ok types st0 (st\<lparr>documents := documents st @ [ndresult st]\<rparr>)"
  by (simp add: goes_def sound_def)

lemma document_end_goes:
  assumes g: "goes ok types st0 st"
  shows "ends (\<lambda>st'. goes ok types st0 st' \<and> (position st < position st' \<or> inputLength st' - 1 \<le> position st' \<or> at_dashes st')) (document_end d st)"
proof -
  let ?st1 = "if checkLineBreaks st \<and> PATTERN_NON_ASCII_LINE_BREAKS (input_slice st d (position st))
    then throwWarning st (js ''non-ASCII line breaks are interpreted as content'') else st"
  let ?st = "?st1\<lparr>documents := documents ?st1 @ [ndresult ?st1]\<rparr>"
  have g1: "goes ok types st0 ?st" by (rule documents_goes) (use g in simp)
  have p: "position ?st = position st" by simp
  note s1 = goes_placed [OF g1] goes_sound [OF g1]
  have dots: "ends (\<lambda>st'. goes ok types st0 st' \<and> position st < position st') (skip_space (- 1) (move 3 ?st))"
    if "testDocumentSeparator ?st" "peek ?st 0 = 46"
  proof -
    have m: "steps ?st (move 3 ?st)" by (rule three_dashes [OF s1(1)]) (use that in \<open>auto simp: testDocumentSeparator_def Let_def\<close>)
    have "ends (goes ok types (move 3 ?st)) (skip_space (- 1) (move 3 ?st))"
      by (rule skip_space_goes [OF goes_refl [OF steps_placed [OF m]]]) (use s1(2) in simp)
    then show ?thesis
      by (rule ends_mono) (use goes_trans [OF goes_trans [OF g1 scanned [OF m s1(2)]]] p in \<open>auto simp: goes_def\<close>)
  qed
  have dash: "at_dashes ?st" if "position ?st = lineStart ?st" "testDocumentSeparator ?st" "peek ?st 0 \<noteq> 46"
    using that by (auto simp: at_dashes_def testDocumentSeparator_def Let_def)
  let ?P = "\<lambda>st'. goes ok types st0 st' \<and> (position st < position st' \<or> inputLength st' - 1 \<le> position st' \<or> at_dashes st')"
  have "document_end d st = (if position ?st = lineStart ?st \<and> testDocumentSeparator ?st then
      (if peek ?st 0 = 46 then skip_space (- 1) (move 3 ?st) else Inr ?st)
    else if position ?st < inputLength ?st - 1 then throwError ?st ''end of the stream or a document separator is expected'' else Inr ?st)"
    by (simp add: document_end_def Let_def)
  moreover have "ends ?P (skip_space (- 1) (move 3 ?st))" if "testDocumentSeparator ?st" "peek ?st 0 = 46"
    by (rule ends_mono [OF dots [OF that]]) simp
  moreover have "ends ?P (Inr ?st)" if "position ?st = lineStart ?st" "testDocumentSeparator ?st" "peek ?st 0 \<noteq> 46"
    using dash [OF that] g1 by simp
  moreover have "ends ?P (Inr ?st)" if "\<not> position ?st < inputLength ?st - 1" using that g1 by simp
  ultimately show ?thesis
    by (cases "position ?st = lineStart ?st \<and> testDocumentSeparator ?st"; cases "peek ?st 0 = 46"; cases "position ?st < inputLength ?st - 1")
      (simp_all only: if_True if_False simp_thms ends_throw)
qed

text \<open>
  A document moves on, ends the input, or stops in front of the next one; from there the next document
  moves on.
\<close>

lemma readDocument_goes:
  assumes st: "placed st" "sound ok types st" and n: "2 * left_over st + 2 \<le> n"
  shows "ends (\<lambda>st'. goes ok types st st' \<and>
    (position st < position st' \<or> inputLength st' - 1 \<le> position st' \<or> (at_dashes st' \<and> \<not> at_dashes st))) (readDocument n st)"
proof -
  let ?st = "st\<lparr>version := None, checkLineBreaks := legacy st, tagMap := [], anchorMap := []\<rparr>"
  have g0: "goes ok types st ?st" using st by (simp add: goes_def sound_def)
  note s0 = goes_placed [OF g0] goes_sound [OF g0]
  have d0: "at_dashes ?st = at_dashes st" by (simp add: at_dashes_def peek_def)
  have dl: "ends (\<lambda>q. goes ok types ?st (snd q) \<and> (at_dashes st \<longrightarrow> snd q = ?st)) (directive_loop n False ?st)"
  proof (cases "at_dashes st")
    case True
    obtain m where m: "n = Suc m" using n by (cases n) auto
    have p: "peek ?st 0 = 45" using True by (auto simp: at_dashes_def peek_def)
    then have "skip_space (- 1) ?st = Inr ?st" by (intro skip_space_here [OF s0(1)]) (simp_all add: is_WS_OR_EOL_def)
    then show ?thesis using p goes_refl [OF s0] by (simp add: m)
  next
    case False
    have "left_over ?st < n" using n by (simp add: left_over_def)
    from ends_mono [OF directive_loop_goes [OF s0 this]] False show ?thesis by simp
  qed
  let ?P = "\<lambda>st'. goes ok types st st' \<and> (position st < position st' \<or> inputLength st' - 1 \<le> position st' \<or> (at_dashes st' \<and> \<not> at_dashes st))"
  show ?thesis unfolding readDocument_def Let_def ends_rbind [where r = "directive_loop _ _ _"]
  proof (rule ends_mono [OF dl], unfold split_def, goal_cases)
    case (1 q)
    then have g1: "goes ok types ?st (snd q)" and e1: "at_dashes st \<longrightarrow> snd q = ?st" by simp_all
    have sp: "ends (\<lambda>st2. goes ok types (snd q) st2 \<and> (at_dashes st \<longrightarrow> st2 = ?st)) (skip_space (- 1) (snd q))"
    proof (cases "at_dashes st")
      case True
      have "skip_space (- 1) ?st = Inr ?st"
        by (rule skip_space_here [OF s0(1)]) (use True in \<open>auto simp: is_WS_OR_EOL_def at_dashes_def peek_def\<close>)
      then show ?thesis using True e1 goes_refl [OF s0] by simp
    next
      case False
      from ends_mono [OF skip_space_goes [OF goes_refl [OF goes_placed [OF g1] goes_sound [OF g1]]]] False show ?thesis by simp
    qed
    show ?case unfolding ends_rbind [where r = "skip_space _ (snd q)"]
    proof (rule ends_mono [OF sp], goal_cases)
      case (1 st2)
      then have g2: "goes ok types (snd q) st2" and e2: "at_dashes st \<longrightarrow> st2 = ?st" by simp_all
      have t2: "goes ok types st st2" using goes_trans [OF goes_trans [OF g0 g1] g2] .
      show ?case unfolding ends_rbind [where r = "document_start _ _"]
      proof (rule ends_mono [OF document_start_goes [OF goes_placed [OF t2] goes_sound [OF t2]]], goal_cases)
        case (1 st3)
        then have g3: "goes ok types st2 st3" and m3: "at_dashes st2 \<longrightarrow> position st2 < position st3" by simp_all
        note t3 = goes_trans [OF t2 g3]
        have dash: "at_dashes st \<Longrightarrow> position st < position st3" using m3 e2 d0 by simp
        show ?case
        proof (rule bind_cn [OF composeNode_goes goes_placed [OF t3] goes_sound [OF t3]], use goes_left [OF t3] n in \<open>simp add: block_context_def\<close>, unfold snd_conv, goal_cases)
          case g4: (1 x st4)
          show ?case
          proof (rule bind_space [OF goes_placed [OF g4] goes_sound [OF g4]], goal_cases)
            case g5: (1 st5)
            have t5: "goes ok types st3 st5" by (rule goes_trans [OF g4 g5])
            have p5: "position st3 \<le> position st5" "position st \<le> position st5" using t5 goes_trans [OF t3 t5] by (simp_all add: goes_def)
            show ?case
            proof (rule ends_mono [OF document_end_goes [OF goes_refl [OF goes_placed [OF t5] goes_sound [OF t5]]]], goal_cases)
              case (1 st6)
              then have "position st5 \<le> position st6" by (simp add: goes_def)
              then show ?case using 1 p5 dash goes_trans [OF goes_trans [OF t3 t5], of st6] by auto
            qed
          qed
        qed
      qed
    qed
  qed
qed

lemma document_loop_goes:
  "placed st \<Longrightarrow> sound ok types st \<Longrightarrow> 2 * left_over st + 2 \<le> n \<Longrightarrow> 2 * left_over st + (if at_dashes st then 1 else 2) \<le> k \<Longrightarrow>
    ends (goes ok types st) (document_loop k n st)"
proof (induction k arbitrary: st)
  case (Suc k)
  show ?case
  proof (cases "position st < inputLength st - 1")
    case True
    have "ends (goes ok types st) (rbind (readDocument n st) (document_loop k n))"
      unfolding ends_rbind
    proof (rule ends_mono [OF readDocument_goes [OF Suc.prems(1-3)]], goal_cases)
      case (1 st1)
      then have g: "goes ok types st st1" by simp
      note s1 = goes_placed [OF g] goes_sound [OF g]
      have n: "2 * left_over st1 + 2 \<le> n" using goes_left [OF g] Suc.prems(3) by simp
      consider (move) "position st < position st1" | (stop) "inputLength st1 - 1 \<le> position st1" | (dash) "at_dashes st1" "\<not> at_dashes st" using 1 by blast
      then show ?case
      proof cases
        case move
        then have "left_over st1 < left_over st" using g Suc.prems(1) by (simp add: left_over_def goes_def placed_def)
        then have "2 * left_over st1 + (if at_dashes st1 then 1 else 2) \<le> k" using Suc.prems(4) by (simp split: if_splits)
        from ends_mono [OF Suc.IH [OF s1 n this] goes_trans [OF g]] show ?thesis .
      next
        case stop
        then have "document_loop (Suc m) n st1 = Inr st1" for m by simp
        moreover have "0 < k" using Suc.prems(4) left_over_pos [OF Suc.prems(1)] by (simp split: if_splits)
        ultimately show ?thesis using g by (cases k) simp_all
      next
        case dash
        then have "2 * left_over st1 + (if at_dashes st1 then 1 else 2) \<le> k" using goes_left [OF g] Suc.prems(4) by simp
        from ends_mono [OF Suc.IH [OF s1 n this] goes_trans [OF g]] show ?thesis .
      qed
    qed
    then show ?thesis using True by simp
  next
    case False
    then show ?thesis using goes_refl [OF Suc.prems(1,2)] by simp
  qed
qed (simp split: if_splits)

end

section \<open>Loading\<close>

definition schema_in :: "ytype set \<Rightarrow> schema \<Rightarrow> bool" where
  "schema_in types s \<longleftrightarrow> set (compiledImplicit (compileSchema s)) \<subseteq> types \<and> set (compiledExplicit (compileSchema s)) \<subseteq> types"

lemma prepare_input_end: "s \<noteq> [] \<Longrightarrow> prepare_input s \<noteq> [] \<and> (last (prepare_input s) = 10 \<or> last (prepare_input s) = 13)"
proof -
  assume s: "s \<noteq> []"
  define s1 where "s1 = (if last s \<noteq> 10 \<and> last s \<noteq> 13 then s @ [10] else s)"
  have e: "s1 \<noteq> []" "last s1 = 10 \<or> last s1 = 13" using s by (auto simp: s1_def)
  have p: "prepare_input s = (if hd s1 = 65279 then tl s1 else s1)" using s by (simp add: prepare_input_def s1_def Let_def)
  show ?thesis
  proof (cases "hd s1 = 65279")
    case True
    then have "tl s1 \<noteq> []" using e by (cases s1) auto
    then show ?thesis using True e p by (simp add: last_tl)
  qed (use e p in simp)
qed

lemma load_start_placed:
  assumes "s \<noteq> []" "last s = 10 \<or> last s = 13"
  shows "placed (load_start env s opts)"
proof -
  let ?st = "(loadState env s opts)\<lparr>input := s @ [0]\<rparr>"
  have t: "text_ok (s @ [0])" using assms by (auto simp: text_ok_def last_conv_nth nth_append Suc_le_eq)
  have p: "placed ?st" using t by (simp add: placed_def loadState_def)
  have "steps ?st (scan (\<lambda>c. c = 32) ?st)" by (rule scan_steps [OF p]) simp
  then have "placed (scan (\<lambda>c. c = 32) ?st)" by (rule steps_placed)
  then show ?thesis by (auto simp: load_start_def Let_def placed_def loadState_def)
qed

context value_law
begin

lemma compiled_types: "schema_in types s \<Longrightarrow> compiledTypeMap (compileSchema s) k t = Some ty \<Longrightarrow> ty \<in> types"
  using compileMap_mem [of "compileList s True []" "compileList s False []" k t ty]
  by (auto simp: schema_in_def compileSchema_def Let_def)

lemma load_start_sound:
  assumes "schema_in types (case lo_schema opts of Some (Some sch) \<Rightarrow> sch | _ \<Rightarrow> le_full env)"
  shows "sound ok types (load_start env s opts)"
  using assms compiled_types [OF assms] ok_undef
  by (auto simp: load_start_def Let_def loadState_def sound_def heap_ok_def scan_def move_def schema_in_def)

lemma loadDocuments_goes:
  assumes "schema_in types (case lo_schema opts of Some (Some sch) \<Rightarrow> sch | _ \<Rightarrow> le_full env)"
  shows "ends (\<lambda>st. heap_ok ok (heap st) \<and> list_all (ok (heap st)) (documents st)) (loadDocuments env s opts)"
proof -
  let ?s = "prepare_input s"
  let ?st = "load_start env ?s opts"
  note snd = load_start_sound [OF assms, of ?s]
  show ?thesis
  proof (cases "s = []")
    case True
    have "\<not> position ?st < inputLength ?st - 1"
      using True by (simp add: prepare_input_def load_start_def Let_def loadState_def scan_def move_def)
    then have "document_loop k n ?st = Inr ?st" if "k \<noteq> 0" for k n using that by (cases k) simp_all
    then have "loadDocuments env s opts = Inr ?st" by (simp add: loadDocuments_def load_bound_def)
    then show ?thesis using snd by (simp add: sound_def)
  next
    case False
    have p: "placed ?st" using load_start_placed prepare_input_end [OF False] by blast
    have "input ?st = ?s @ [0]" by (simp add: load_start_def Let_def loadState_def)
    then have "left_over ?st \<le> Suc (length ?s)" using p by (simp add: left_over_def placed_def nat_le_iff)
    then have n: "2 * left_over ?st + 2 \<le> load_bound ?s" by (simp add: load_bound_def)
    then have "2 * left_over ?st + (if at_dashes ?st then 1 else 2) \<le> load_bound ?s" by simp
    from document_loop_goes [OF p snd n this] show ?thesis
      unfolding loadDocuments_def Let_def by (rule ends_mono) (auto simp: goes_def sound_def)
  qed
qed

lemma load_goes:
  assumes "schema_in types (case lo_schema opts of Some (Some sch) \<Rightarrow> sch | _ \<Rightarrow> le_full env)"
  shows "ends (\<lambda>(v, h). heap_ok ok h \<and> ok h v) (load env s opts)"
  unfolding load_def ends_rbind
  by (rule ends_mono [OF loadDocuments_goes [OF assms]]) (use ok_undef in \<open>auto split: list.splits\<close>)

end

end
