(* ===== verification/Yaml_Load_Laws.thy ===== *)
theory Yaml_Load_Laws
  imports Yaml_Load_Total Yaml_String_Laws
begin

text \<open>
  What loading guarantees on every input: it ends, the heap it leaves is closed, every object has
  each key once, and with the safe schema no function and no regular expression comes out.
\<close>

section \<open>The constructors\<close>

context value_base
begin

lemma get_prop_ok: "heap_ok ok h \<Longrightarrow> ok h (get_prop (props_of h v) k)"
  using props_ok [of h v] ok_undef by (auto simp: get_prop_def list_all_iff split: option.splits dest: map_of_SomeD)

lemma pair_cells_ok:
  assumes "heap_ok ok h0"
  shows "heap_ok ok h \<Longrightarrow> length h0 \<le> length h \<Longrightarrow> pair_cells h0 ps h = (rs, h') \<Longrightarrow>
    heap_ok ok h' \<and> list_all (ok h') rs \<and> length h \<le> length h'"
proof (induction ps arbitrary: h rs)
  case (Cons p ps)
  let ?ps = "props_of h0 p"
  let ?k = "case object_keys ?ps of [] \<Rightarrow> YUndef | key # _ \<Rightarrow> YStr key"
  let ?v = "case object_keys ?ps of [] \<Rightarrow> YUndef | key # _ \<Rightarrow> get_prop ?ps key"
  let ?h1 = "h @ [YArr [?k, ?v]]"
  obtain rs1 where r: "pair_cells h0 ps ?h1 = (rs1, h')" "rs = YRef (length h) # rs1"
    using Cons.prems(3) by (auto simp: Let_def alloc_cell_def split: prod.splits)
  have "ok h ?k" "ok h ?v" using ok_undef ok_str ok_mono [OF get_prop_ok [OF assms] Cons.prems(2)] by (auto split: list.splits)
  then have "heap_ok ok ?h1" by (intro heap_append [OF Cons.prems(1)]) simp
  from Cons.IH [OF this _ r(1)] Cons.prems(2) have "heap_ok ok h'" "list_all (ok h') rs1" "length ?h1 \<le> length h'" by simp_all
  then show ?case using ok_ref r(2) by simp
qed simp

lemma alloc_ok: "heap_ok ok h \<Longrightarrow> cell_ok ok h c \<Longrightarrow> alloc_cell h c = (w, h') \<Longrightarrow> heap_ok ok h' \<and> ok h' w \<and> length h \<le> length h'"
  using heap_append ok_ref by (auto simp: alloc_cell_def)

lemma or_empty_ok:
  assumes "\<And>h. cell_ok ok h c" "ty_construct ty = or_empty c"
  shows "constructs ok ty"
  unfolding constructs_def assms(2)
proof (intro allI impI, goal_cases)
  case (1 h v w h')
  then show ?case using alloc_ok [OF 1(1) assms(1), of w h'] by (cases "v = YNull") (simp_all add: or_empty_def)
qed

lemma on_string_ok: "(\<And>h s. ok h (f s)) \<Longrightarrow> ty_construct ty = on_string f \<Longrightarrow> constructs ok ty"
  by (auto simp: constructs_def on_string_def)

lemma on_string_err_ok: "(\<And>h s w. f s = Inr w \<Longrightarrow> ok h w) \<Longrightarrow> ty_construct ty = on_string_err f \<Longrightarrow> constructs ok ty"
  by (auto simp: constructs_def on_string_err_def map_sum_def split: sum.splits)

lemma pairs_construct: "constructs ok type_pairs"
  unfolding constructs_def
proof (intro allI impI, goal_cases)
  case (1 h v w h')
  show ?case
  proof (cases "v = YNull")
    case True
    then show ?thesis using 1(1,3) alloc_ok [of h "YArr []" w h'] by (simp add: type_pairs_def constructYamlPairs_def)
  next
    case False
    obtain rs h1 where p: "pair_cells h (elements_of h v) h = (rs, h1)" by fastforce
    note k = pair_cells_ok [OF 1(1) 1(1) order_refl p]
    have "alloc_cell h1 (YArr rs) = (w, h')" using 1(3) False p by (simp add: type_pairs_def constructYamlPairs_def)
    then show ?thesis using alloc_ok [of h1 "YArr rs" w h'] k by simp
  qed
qed

lemma safe_construct:
  assumes "ty \<in> set (implicit_types @ safe_explicit_types)"
  shows "constructs ok ty"
proof -
  have c: "constructs ok type_null" "constructs ok type_merge" "constructs ok type_str"
    using ok_null ok_str by (auto simp: constructs_def type_null_def type_merge_def type_str_def plain_type_def constructYamlNull_def)
  have e: "constructs ok type_seq" "constructs ok type_map" "constructs ok type_omap" "constructs ok type_set"
    by (rule or_empty_ok; simp add: type_seq_def type_map_def type_omap_def type_set_def)+
  have o: "constructs ok type_bool" "constructs ok type_int" "constructs ok type_float" "constructs ok type_binary"
    using on_string_ok [of "\<lambda>s. YBool (constructYamlBoolean s)"] on_string_ok [of "\<lambda>s. YNum (constructYamlInteger s)"]
      on_string_ok [of "\<lambda>s. YNum (constructYamlFloat s)"] on_string_ok [of "\<lambda>s. YBytes (constructYamlBinary s)"]
    by (simp_all add: type_bool_def type_int_def type_float_def type_binary_def ok_bool ok_num ok_bytes)
  have d: "constructs ok type_timestamp"
    by (rule on_string_err_ok [where f = "\<lambda>s. map_sum id YDate (constructYamlTimestamp s)"])
      (auto simp: type_timestamp_def ok_date map_sum_def split: sum.splits)
  show ?thesis using assms c e o d pairs_construct by (auto simp: implicit_types_def safe_explicit_types_def)
qed

end

section \<open>No code from the safe schema\<close>

definition is_code :: "yval \<Rightarrow> bool" where
  "is_code v \<longleftrightarrow> (case v of YRegExp s f \<Rightarrow> True | YFun ps b \<Rightarrow> True | _ \<Rightarrow> False)"

interpretation no_code_base: value_base "\<lambda>h v. \<not> is_code v"
  by unfold_locales (simp_all add: is_code_def)

interpretation no_code: value_law "\<lambda>h v. \<not> is_code v" "set (implicit_types @ safe_explicit_types)"
  by unfold_locales (rule no_code_base.safe_construct)

lemma safe_schema_in: "schema_in (set (implicit_types @ safe_explicit_types)) DEFAULT_SAFE_SCHEMA"
  by (auto simp: schema_in_def compiled_lists)

text \<open>C2: whatever the input, what \<open>safeLoad\<close> returns without a schema of one's own holds no code: neither the value nor
  anything in the arrays and objects that were built is a function or a regular expression, and every object has each of its keys once.\<close>

theorem safeLoad_no_code:
  assumes "lo_schema opts = None" "safeLoad env s opts = Inr (v, h)"
  shows "\<not> is_code v \<and> heap_ok (\<lambda>h v. \<not> is_code v) h"
proof -
  have "ends (\<lambda>(v, h). heap_ok (\<lambda>h v. \<not> is_code v) h \<and> \<not> is_code v) (safeLoad env s opts)"
    unfolding safeLoad_def by (rule no_code.load_goes) (use safe_schema_in in \<open>simp add: safe_options_def assms(1)\<close>)
  then show ?thesis using assms(2) by simp
qed

text \<open>The safe schema as an option and as the schema of the environment.\<close>

lemma safeLoad_env: "safeLoad env s no_load_options = load (env\<lparr>le_full := DEFAULT_SAFE_SCHEMA\<rparr>) s no_load_options"
  by (simp add: safeLoad_def load_def loadDocuments_def load_start_def loadState_def safe_options_def no_load_options_def Let_def)

theorem safeLoad_no_code_witness:
  "safeLoad plain_env [39, 97, 39, 10] no_load_options = Inr (YStr [97], [YArr [], YObj []]) \<and>
   \<not> is_code (YStr [97]) \<and> heap_ok (\<lambda>h v. \<not> is_code v) [YArr [], YObj []]"
proof -
  have "safeLoad plain_env [39, 97, 39, 10] no_load_options = Inr (YStr [97], [YArr [], YObj []])"
    using load_single [of "[97]"] by (simp add: safeLoad_env isPrintable_def double_quotes_def)
  moreover have "lo_schema no_load_options = None" by (simp add: no_load_options_def)
  ultimately show ?thesis using safeLoad_no_code [of no_load_options plain_env] by blast
qed

section \<open>Closed heaps\<close>

definition defined_at :: "yheap \<Rightarrow> yval \<Rightarrow> bool" where
  "defined_at h v \<longleftrightarrow> (case v of YRef a \<Rightarrow> a < length h | _ \<Rightarrow> True)"

interpretation closed_base: value_base defined_at
  by unfold_locales (auto simp: defined_at_def split: yval.splits)

text \<open>The types of the full schema, with any parser and printer of JavaScript.\<close>

definition full_types :: "ytype set" where
  "full_types = {ty. ty \<in> set (implicit_types @ safe_explicit_types @ [type_undefined, type_regexp]) \<or> (\<exists>e f. ty = type_function e f)}"

lemma full_construct: "ty \<in> full_types \<Longrightarrow> constructs defined_at ty"
proof -
  have "constructs defined_at type_undefined" by (auto simp: constructs_def type_undefined_def plain_type_def defined_at_def)
  moreover have "constructs defined_at type_regexp"
    by (rule closed_base.on_string_err_ok [where f = constructJavascriptRegExp])
      (auto simp: type_regexp_def constructJavascriptRegExp_def defined_at_def Let_def split: if_splits option.splits)
  moreover have "constructs defined_at (type_function e f)" for e f
    by (rule closed_base.on_string_err_ok [where f = "constructJavascriptFunction e"])
      (auto simp: type_function_def constructJavascriptFunction_def defined_at_def Let_def split: if_splits option.splits prod.splits)
  ultimately show "ty \<in> full_types \<Longrightarrow> constructs defined_at ty"
    using closed_base.safe_construct by (auto simp: full_types_def)
qed

interpretation closed: value_law defined_at full_types
  by unfold_locales (rule full_construct)

lemma full_schema_in: "schema_in full_types DEFAULT_SAFE_SCHEMA" "schema_in full_types (DEFAULT_FULL_SCHEMA e f)"
  by (auto simp: schema_in_def compiled_lists full_types_def)

text \<open>The schema that goes with the options, when it is one of the two default ones.\<close>

definition default_schema :: "load_env \<Rightarrow> load_options \<Rightarrow> bool" where
  "default_schema env opts \<longleftrightarrow> (\<exists>e f. le_full env = DEFAULT_FULL_SCHEMA e f) \<and>
     (lo_schema opts = None \<or> lo_schema opts = Some (Some DEFAULT_SAFE_SCHEMA))"

lemma default_schema_in:
  "default_schema env opts \<Longrightarrow> schema_in full_types (case lo_schema opts of Some (Some sch) \<Rightarrow> sch | _ \<Rightarrow> le_full env)"
  using full_schema_in by (auto simp: default_schema_def)

text \<open>C3: whatever the input, loading ends: \<open>load\<close> and \<open>loadAll\<close> return or throw, and the bound on depth and rounds that goes
  with the length of the input is never reached.  One case counts as an ending although the model stops there: the text of a key that
  is an object whose \<open>toString\<close> is a function of the document.\<close>

theorem load_terminates:
  assumes "default_schema env opts"
  shows "load env s opts \<noteq> Inl NoFuel \<and> loadAll env s b opts \<noteq> Inl NoFuel"
  using closed.load_goes [OF default_schema_in [OF assms], of s] closed.loadDocuments_goes [OF default_schema_in [OF assms], of s]
  by (auto simp: loadAll_def rbind_def ends_def split: sum.splits)

lemma plain_default: "default_schema plain_env no_load_options"
  by (auto simp: default_schema_def plain_env_def no_load_options_def)

theorem load_terminates_witness:
  "load plain_env (js ''{a: [b, *c'') no_load_options \<noteq> Inl NoFuel \<and> loadAll plain_env (js ''{a: [b, *c'') True no_load_options \<noteq> Inl NoFuel"
  by (rule load_terminates [OF plain_default])

text \<open>The documents that \<open>loadAll\<close> returns, and everything in the arrays and objects it has built, refer to arrays and
  objects that exist, and no object has a key twice.\<close>

theorem loadAll_closed:
  assumes "default_schema env opts" "loadAll env s b opts = Inr (b', ds, h)"
  shows "heap_ok defined_at h \<and> list_all (defined_at h) ds"
  using closed.loadDocuments_goes [OF default_schema_in [OF assms(1)], of s] assms(2)
  by (auto simp: loadAll_def rbind_Inr_iff)

text \<open>A single document is also the only one that \<open>loadAll\<close> returns.\<close>

lemma load_loadAll:
  assumes "load env s opts = Inr (v, h)" "v \<noteq> YUndef"
  shows "loadAll env s b opts = Inr (b, [v], h)"
proof -
  obtain st where st: "loadDocuments env s opts = Inr st" "documents st = [v]" "heap st = h"
  proof (cases "loadDocuments env s opts")
    case (Inr st)
    with assms that [of st] show thesis
      by (cases "documents st"; cases "tl (documents st)") (auto simp: load_def)
  qed (use assms in \<open>simp add: load_def\<close>)
  then show ?thesis by (simp add: loadAll_def)
qed

theorem loadAll_closed_witness:
  "loadAll plain_env [39, 97, 39, 10] True no_load_options = Inr (True, [YStr [97]], [YArr [], YObj []]) \<and>
   heap_ok defined_at [YArr [], YObj []] \<and> list_all (defined_at [YArr [], YObj []]) [YStr [97]]"
proof -
  have "load plain_env [39, 97, 39, 10] no_load_options = Inr (YStr [97], [YArr [], YObj []])"
    using load_single [of "[97]" plain_env] by (simp add: isPrintable_def double_quotes_def)
  then have "loadAll plain_env [39, 97, 39, 10] True no_load_options = Inr (True, [YStr [97]], [YArr [], YObj []])"
    by (rule load_loadAll) simp
  with loadAll_closed [OF plain_default this] show ?thesis by blast
qed

end
