(* ===== verification/Debounce.thy ===== *)
theory Debounce
  imports Js_Prelude "HOL-Library.Sublist"
begin

text \<open>
  The function \<open>debounce\<close> of lodash, with which the application delays the resolution of parts of a
  specification: the variables of the closure as a record, one definition per inner function, and the
  timers of the host that it sets and clears.  Times are milliseconds.  The function that is delayed is a
  parameter: it returns a value or throws, and does not call the delayed function itself.
\<close>

section \<open>Arguments and variables\<close>

record deb_config =
  wait :: int
  leading :: bool
  maxing :: bool
  maxWait :: int
  trailing :: bool

text \<open>The object with the options: a field that is \<open>None\<close> is not \<open>in\<close> it, flags are taken as booleans.\<close>

record deb_options =
  opt_leading :: "bool option"
  opt_maxWait :: "jsnum option"
  opt_trailing :: "bool option"

text \<open>\<open>toNumber(x) || 0\<close> on numbers and the undefined value.\<close>

fun number_or_0 :: "jsnum \<Rightarrow> int" where
  "number_or_0 (Num n) = n"
| "number_or_0 _ = 0"

definition debounce_config :: "jsnum \<Rightarrow> deb_options option \<Rightarrow> deb_config" where
  "debounce_config w options =
     (let wait = number_or_0 w in
      case options of
        None \<Rightarrow> \<lparr>wait = wait, leading = False, maxing = False, maxWait = 0, trailing = True\<rparr>
      | Some os \<Rightarrow>
          \<lparr>wait = wait,
           leading = (opt_leading os = Some True),
           maxing = (opt_maxWait os \<noteq> None),
           maxWait = (case opt_maxWait os of None \<Rightarrow> 0 | Some m \<Rightarrow> max (number_or_0 m) wait),
           trailing = (case opt_trailing os of None \<Rightarrow> True | Some b \<Rightarrow> b)\<rparr>)"

text \<open>
  The variables of the closure, and what the host keeps: the pending timers with the time at which they
  are due, and, to speak of the behaviour, the calls of the function and of the delayed function so far.
\<close>

record ('a, 'r) deb =
  lastArgs :: "'a option"
  last_result :: "'r option"
  timerId :: "nat option"
  lastCallTime :: "int option"
  lastInvokeTime :: int
  timers :: "(nat \<times> int) list"
  nextTimer :: nat
  calls :: "(int \<times> 'a) list"
  invoked :: "(int \<times> 'a option) list"

definition deb_init :: "('a, 'r) deb" where
  "deb_init = \<lparr>lastArgs = None, last_result = None, timerId = None, lastCallTime = None, lastInvokeTime = 0,
     timers = [], nextTimer = 1, calls = [], invoked = []\<rparr>"

text \<open>What a call gives: the error that the function throws, or its result (\<open>None\<close> is \<open>undefined\<close>).\<close>

type_synonym ('e, 'a, 'r) deb_run = "('e + 'r option) \<times> ('a, 'r) deb"

section \<open>The timers of the host\<close>

definition setTimeout :: "int \<Rightarrow> int \<Rightarrow> ('a, 'r) deb \<Rightarrow> ('a, 'r) deb" where
  "setTimeout time delay s =
     s\<lparr>timerId := Some (nextTimer s), timers := timers s @ [(nextTimer s, time + max 0 delay)],
       nextTimer := nextTimer s + 1\<rparr>"

definition clearTimeout :: "nat \<Rightarrow> ('a, 'r) deb \<Rightarrow> ('a, 'r) deb" where
  "clearTimeout i s = s\<lparr>timers := filter (\<lambda>(j, d). j \<noteq> i) (timers s)\<rparr>"

section \<open>The inner functions\<close>

text \<open>The receiver is kept and passed on together with the arguments.\<close>

definition invokeFunc :: "('a option \<Rightarrow> 'e + 'r) \<Rightarrow> int \<Rightarrow> ('a, 'r) deb \<Rightarrow> ('e, 'a, 'r) deb_run" where
  "invokeFunc func time s =
     (let args = lastArgs s;
          s' = s\<lparr>lastArgs := None, lastInvokeTime := time, invoked := invoked s @ [(time, args)]\<rparr>
      in case func args of
           Inl e \<Rightarrow> (Inl e, s')
         | Inr r \<Rightarrow> (Inr (Some r), s'\<lparr>last_result := Some r\<rparr>))"

definition leadingEdge :: "deb_config \<Rightarrow> ('a option \<Rightarrow> 'e + 'r) \<Rightarrow> int \<Rightarrow> ('a, 'r) deb \<Rightarrow> ('e, 'a, 'r) deb_run" where
  "leadingEdge c func time s =
     (let s' = setTimeout time (wait c) (s\<lparr>lastInvokeTime := time\<rparr>)
      in if leading c then invokeFunc func time s' else (Inr (last_result s'), s'))"

text \<open>\<open>time - undefined\<close> is not a number, so the comparisons below are false then.\<close>

definition remainingWait :: "deb_config \<Rightarrow> int \<Rightarrow> ('a, 'r) deb \<Rightarrow> int" where
  "remainingWait c time s =
     (case lastCallTime s of
        None \<Rightarrow> 0
      | Some t \<Rightarrow>
          (let timeWaiting = wait c - (time - t)
           in if maxing c then min timeWaiting (maxWait c - (time - lastInvokeTime s)) else timeWaiting))"

definition shouldInvoke :: "deb_config \<Rightarrow> int \<Rightarrow> ('a, 'r) deb \<Rightarrow> bool" where
  "shouldInvoke c time s \<longleftrightarrow>
     (case lastCallTime s of
        None \<Rightarrow> True
      | Some t \<Rightarrow> time - t \<ge> wait c \<or> time - t < 0 \<or> maxing c \<and> time - lastInvokeTime s \<ge> maxWait c)"

definition trailingEdge :: "deb_config \<Rightarrow> ('a option \<Rightarrow> 'e + 'r) \<Rightarrow> int \<Rightarrow> ('a, 'r) deb \<Rightarrow> ('e, 'a, 'r) deb_run" where
  "trailingEdge c func time s =
     (let s' = s\<lparr>timerId := None\<rparr>
      in if trailing c \<and> lastArgs s' \<noteq> None then invokeFunc func time s'
         else (Inr (last_result s'), s'\<lparr>lastArgs := None\<rparr>))"

definition timerExpired :: "deb_config \<Rightarrow> ('a option \<Rightarrow> 'e + 'r) \<Rightarrow> int \<Rightarrow> ('a, 'r) deb \<Rightarrow> ('e, 'a, 'r) deb_run" where
  "timerExpired c func time s =
     (if shouldInvoke c time s then trailingEdge c func time s
      else (Inr None, setTimeout time (remainingWait c time s) s))"

definition cancel :: "('a, 'r) deb \<Rightarrow> ('a, 'r) deb" where
  "cancel s =
     (let s' = (case timerId s of None \<Rightarrow> s | Some i \<Rightarrow> clearTimeout i s)
      in s'\<lparr>lastInvokeTime := 0, lastArgs := None, lastCallTime := None, timerId := None\<rparr>)"

definition flush :: "deb_config \<Rightarrow> ('a option \<Rightarrow> 'e + 'r) \<Rightarrow> int \<Rightarrow> ('a, 'r) deb \<Rightarrow> ('e, 'a, 'r) deb_run" where
  "flush c func time s = (if timerId s = None then (Inr (last_result s), s) else trailingEdge c func time s)"

definition debounced :: "deb_config \<Rightarrow> ('a option \<Rightarrow> 'e + 'r) \<Rightarrow> int \<Rightarrow> 'a \<Rightarrow> ('a, 'r) deb \<Rightarrow> ('e, 'a, 'r) deb_run" where
  "debounced c func time args s =
     (let isInvoking = shouldInvoke c time s;
          s' = s\<lparr>lastArgs := Some args, lastCallTime := Some time, calls := calls s @ [(time, args)]\<rparr>
      in if isInvoking \<and> timerId s' = None then leadingEdge c func time s'
         else if isInvoking \<and> maxing c then invokeFunc func time (setTimeout time (wait c) s')
         else if timerId s' = None then (let s'' = setTimeout time (wait c) s' in (Inr (last_result s''), s''))
         else (Inr (last_result s'), s'))"

section \<open>Executions\<close>

datatype 'a deb_event = Call 'a | Fire nat | Cancel | Flush

text \<open>A timer is no longer pending when its function runs.\<close>

fun handle :: "deb_config \<Rightarrow> ('a option \<Rightarrow> 'e + 'r) \<Rightarrow> int \<Rightarrow> 'a deb_event \<Rightarrow> ('a, 'r) deb \<Rightarrow> ('e, 'a, 'r) deb_run" where
  "handle c func time (Call args) s = debounced c func time args s"
| "handle c func time (Fire i) s = timerExpired c func time (clearTimeout i s)"
| "handle c func time Cancel s = (Inr None, cancel s)"
| "handle c func time Flush s = flush c func time s"

text \<open>The host runs the function of a timer only while it is pending.\<close>

fun enabled :: "'a deb_event \<Rightarrow> ('a, 'r) deb \<Rightarrow> bool" where
  "enabled (Fire i) s \<longleftrightarrow> i \<in> fst ` set (timers s)"
| "enabled _ s \<longleftrightarrow> True"

inductive deb_reach :: "deb_config \<Rightarrow> ('a option \<Rightarrow> 'e + 'r) \<Rightarrow> ('a, 'r) deb \<Rightarrow> bool" for c func where
  start: "deb_reach c func deb_init"
| event: "deb_reach c func s \<Longrightarrow> enabled ev s \<Longrightarrow> deb_reach c func (snd (handle c func time ev s))"

text \<open>
  An execution with a clock that does not go back, in which every event satisfies the condition \<open>ok\<close> in the
  state it finds: the index is the time of the last event.
\<close>

inductive deb_run :: "deb_config \<Rightarrow> ('a option \<Rightarrow> 'e + 'r) \<Rightarrow> (int \<Rightarrow> 'a deb_event \<Rightarrow> ('a, 'r) deb \<Rightarrow> bool) \<Rightarrow> int \<Rightarrow> ('a, 'r) deb \<Rightarrow> bool"
  for c func ok where
  start: "deb_run c func ok time deb_init"
| event: "deb_run c func ok time s \<Longrightarrow> time \<le> time' \<Longrightarrow> enabled ev s \<Longrightarrow> ok time' ev s \<Longrightarrow>
    deb_run c func ok time' (snd (handle c func time' ev s))"

text \<open>The host runs a timer at most \<open>lag\<close> after it is due, and nobody cancels.\<close>

definition in_time :: "int \<Rightarrow> int \<Rightarrow> ('a, 'r) deb \<Rightarrow> bool" where
  "in_time lag time s \<longleftrightarrow> list_all (\<lambda>(i, due). time \<le> due + lag) (timers s)"

definition prompt :: "int \<Rightarrow> int \<Rightarrow> 'a deb_event \<Rightarrow> ('a, 'r) deb \<Rightarrow> bool" where
  "prompt lag time ev s \<longleftrightarrow> ev \<noteq> Cancel \<and> in_time lag time s"

text \<open>The same executions, computed from a list of events with their times.\<close>

fun deb_exec :: "deb_config \<Rightarrow> ('a option \<Rightarrow> 'e + 'r) \<Rightarrow> (int \<times> 'a deb_event) list \<Rightarrow> ('a, 'r) deb \<Rightarrow> ('a, 'r) deb" where
  "deb_exec c func [] s = s"
| "deb_exec c func ((time, ev) # evs) s = deb_exec c func evs (snd (handle c func time ev s))"

fun allowed :: "deb_config \<Rightarrow> ('a option \<Rightarrow> 'e + 'r) \<Rightarrow> (int \<Rightarrow> 'a deb_event \<Rightarrow> ('a, 'r) deb \<Rightarrow> bool) \<Rightarrow> int \<Rightarrow>
    (int \<times> 'a deb_event) list \<Rightarrow> ('a, 'r) deb \<Rightarrow> bool" where
  "allowed c func ok time [] s \<longleftrightarrow> True"
| "allowed c func ok time ((time', ev) # evs) s \<longleftrightarrow> time \<le> time' \<and> enabled ev s \<and> ok time' ev s \<and>
     allowed c func ok time' evs (snd (handle c func time' ev s))"

lemma deb_exec_run:
  "deb_run c func ok time s \<Longrightarrow> allowed c func ok time evs s \<Longrightarrow> deb_run c func ok (last (time # map fst evs)) (deb_exec c func evs s)"
proof (induction c func evs s arbitrary: time rule: deb_exec.induct)
  case (2 c func time' ev evs s)
  then have "deb_run c func ok time' (snd (handle c func time' ev s))" by (auto intro: deb_run.event)
  then show ?case using 2 by simp
qed simp

lemma deb_run_reach: "deb_run c func ok time s \<Longrightarrow> deb_reach c func s"
  by (induction rule: deb_run.induct) (auto intro: deb_reach.intros)

end
