(* ===== verification/Debounce_Laws.thy ===== *)
theory Debounce_Laws
  imports Debounce
begin

text \<open>
  What the delayed function promises: calls of the function are answered at most once and in their order,
  only after a pause, and in time when the host runs its timers in time.
\<close>

section \<open>Effect of the inner functions\<close>

lemma snd_invokeFunc:
  "snd (invokeFunc func time s) =
     s\<lparr>lastArgs := None, lastInvokeTime := time, invoked := invoked s @ [(time, lastArgs s)],
       last_result := (case func (lastArgs s) of Inl e \<Rightarrow> last_result s | Inr r \<Rightarrow> Some r)\<rparr>"
  by (cases "func (lastArgs s)") (simp_all add: invokeFunc_def)

lemmas deb_simps = snd_invokeFunc leadingEdge_def trailingEdge_def timerExpired_def debounced_def flush_def cancel_def
  setTimeout_def clearTimeout_def Let_def if_distrib [of snd] split_beta

section \<open>Calls are answered at most once and in order\<close>

definition answered :: "('a, 'r) deb \<Rightarrow> bool" where
  "answered s \<longleftrightarrow> subseq (map snd (invoked s) @ (if lastArgs s = None then [] else [lastArgs s])) (map (Some \<circ> snd) (calls s)) \<and>
     (lastArgs s \<noteq> None \<longrightarrow> timerId s \<noteq> None)"

lemma subseq_first: "subseq (xs @ ys) zs \<Longrightarrow> subseq xs zs"
  using list_emb_append_mono [of "(=)" xs xs "[]" ys] by (auto intro: subseq_order.order_trans)

lemma answered_facts:
  assumes "answered s"
  shows "subseq (map snd (invoked s)) (map (Some \<circ> snd) (calls s))"
    "subseq (map snd (invoked s) @ [Some a]) (map (Some \<circ> snd) (calls s) @ [Some a])"
  using assms subseq_first unfolding answered_def by (auto simp: list_emb_append_mono)

lemma answered_handle:
  assumes "answered s"
  shows "answered (snd (handle c func time ev s))"
  using assms answered_facts [OF assms]
  by (cases ev) (auto simp: answered_def deb_simps split: if_splits option.splits)

text \<open>C25: each call of the delayed function is handed over at most once, with its own arguments, and in the order of the
  calls, whatever the clock shows and whatever is flushed or cancelled.\<close>

theorem debounce_at_most_once:
  assumes "deb_reach c func s"
  shows "subseq (map snd (invoked s)) (map (Some \<circ> snd) (calls s))"
proof -
  from assms have "answered s"
    by induction (simp_all add: answered_handle, simp add: answered_def deb_init_def)
  then show ?thesis by (rule answered_facts)
qed

section \<open>Pauses and deadlines\<close>

text \<open>The current timer is due at the given time at the latest.\<close>

definition due_by :: "('a, 'r) deb \<Rightarrow> int \<Rightarrow> bool" where
  "due_by s b \<longleftrightarrow> (\<exists>i d. timerId s = Some i \<and> (i, d) \<in> set (timers s) \<and> d \<le> b)"

lemma due_by_setTimeout: "time + max 0 delay \<le> b \<Longrightarrow> due_by (setTimeout time delay s) b"
  by (auto simp: due_by_def setTimeout_def)

lemma due_by_clear: "due_by s b \<Longrightarrow> timerId s \<noteq> Some j \<Longrightarrow> due_by (clearTimeout j s) b"
  by (auto simp: due_by_def clearTimeout_def)

lemma due_by_update [simp]:
  "due_by (s\<lparr>lastArgs := a\<rparr>) b = due_by s b" "due_by (s\<lparr>lastCallTime := t\<rparr>) b = due_by s b"
  "due_by (s\<lparr>calls := cs\<rparr>) b = due_by s b" "due_by (s\<lparr>lastInvokeTime := t'\<rparr>) b = due_by s b"
  "due_by (s\<lparr>invoked := is\<rparr>) b = due_by s b" "due_by (s\<lparr>last_result := r\<rparr>) b = due_by s b"
  "\<not> due_by (s\<lparr>timerId := None\<rparr>) b"
  by (simp_all add: due_by_def)

lemma due_by_mono: "due_by s b \<Longrightarrow> b \<le> b' \<Longrightarrow> due_by s b'"
  by (force simp: due_by_def)

lemma timer_simps [simp]:
  "timerId (clearTimeout i s) = timerId s" "lastArgs (clearTimeout i s) = lastArgs s" "calls (clearTimeout i s) = calls s"
  "lastCallTime (clearTimeout i s) = lastCallTime s" "lastInvokeTime (clearTimeout i s) = lastInvokeTime s"
  "invoked (clearTimeout i s) = invoked s" "last_result (clearTimeout i s) = last_result s"
  "timerId (setTimeout t d s) = Some (nextTimer s)" "lastArgs (setTimeout t d s) = lastArgs s" "calls (setTimeout t d s) = calls s"
  "lastCallTime (setTimeout t d s) = lastCallTime s" "lastInvokeTime (setTimeout t d s) = lastInvokeTime s"
  "invoked (setTimeout t d s) = invoked s" "last_result (setTimeout t d s) = last_result s"
  by (simp_all add: clearTimeout_def setTimeout_def)

lemmas edge_simps = snd_invokeFunc leadingEdge_def trailingEdge_def timerExpired_def debounced_def flush_def cancel_def
  Let_def if_distrib [of snd]

text \<open>
  A pending call is the last one, and its timer is due when the pause is over; the times of the calls do
  not go back.
\<close>

definition pending_last :: "('a, 'r) deb \<Rightarrow> bool" where
  "pending_last s \<longleftrightarrow> (lastArgs s \<noteq> None \<longrightarrow> timerId s \<noteq> None \<and> lastArgs s = Some (snd (last (calls s)))) \<and>
     (lastCallTime s \<noteq> None \<longrightarrow> calls s \<noteq> [] \<and> lastCallTime s = Some (fst (last (calls s))))"

definition past_calls :: "int \<Rightarrow> ('a, 'r) deb \<Rightarrow> bool" where
  "past_calls time s \<longleftrightarrow> sorted (map fst (calls s)) \<and> list_all (\<lambda>(t, a). t \<le> time) (calls s) \<and>
     (lastCallTime s \<noteq> None \<longrightarrow> lastInvokeTime s \<le> time)"

definition timed :: "deb_config \<Rightarrow> ('a, 'r) deb \<Rightarrow> bool" where
  "timed c s \<longleftrightarrow> (timerId s \<noteq> None \<longrightarrow> (\<exists>t. lastCallTime s = Some t \<and> due_by s (t + wait c)))"

definition waiting :: "deb_config \<Rightarrow> int \<Rightarrow> ('a, 'r) deb \<Rightarrow> bool" where
  "waiting c time s \<longleftrightarrow> pending_last s \<and> past_calls time s \<and> timed c s"

lemma waiting_init: "waiting c time deb_init"
  by (simp add: waiting_def pending_last_def past_calls_def timed_def deb_init_def)

lemma pending_last_handle: "pending_last s \<Longrightarrow> pending_last (snd (handle c func time ev s))"
  by (cases ev) (auto simp: pending_last_def edge_simps split: option.splits)

lemma past_calls_handle:
  assumes "past_calls time s" "time \<le> time'" "timed c s"
  shows "past_calls time' (snd (handle c func time' ev s))"
proof -
  have "t \<le> time'" if "(t, a) \<in> set (calls s)" for t a using assms that by (force simp: past_calls_def list_all_iff)
  moreover have "lastCallTime s \<noteq> None \<Longrightarrow> lastInvokeTime s \<le> time'" using assms by (auto simp: past_calls_def)
  moreover have "timerId s \<noteq> None \<Longrightarrow> lastCallTime s \<noteq> None" using assms by (auto simp: timed_def)
  moreover have "sorted (map fst (calls s))" using assms by (simp add: past_calls_def)
  ultimately show ?thesis
    by (cases ev) (auto simp: past_calls_def edge_simps sorted_append list_all_iff shouldInvoke_def split: option.splits)
qed

lemma remaining_due:
  assumes "\<not> shouldInvoke c time s" "lastCallTime s = Some t"
  shows "time + max 0 (remainingWait c time s) \<le> t + wait c"
    "maxing c \<Longrightarrow> time + max 0 (remainingWait c time s) \<le> lastInvokeTime s + maxWait c"
  using assms by (auto simp: shouldInvoke_def remainingWait_def Let_def)

lemma not_should: "\<not> shouldInvoke c time s \<Longrightarrow> \<exists>t. lastCallTime s = Some t"
  by (auto simp: shouldInvoke_def split: option.splits)

lemma timed_call:
  assumes "timed c s" "past_calls time s" "pending_last s" "time \<le> time'" "0 \<le> wait c"
  shows "timed c (snd (debounced c func time' a s))"
proof -
  have *: "due_by (setTimeout time' (wait c) s') (time' + wait c)" for s' :: "('a, 'b) deb"
    using assms(5) by (intro due_by_setTimeout) simp
  have "due_by s (time' + wait c)" if "timerId s \<noteq> None"
  proof -
    from that assms(1) obtain t where t: "lastCallTime s = Some t" "due_by s (t + wait c)" by (auto simp: timed_def)
    then have "t \<le> time" using assms(2,3) by (auto simp: past_calls_def pending_last_def list_all_iff dest!: last_in_set)
    then show ?thesis using t assms(4) by (auto elim: due_by_mono)
  qed
  then show ?thesis using * by (auto simp: timed_def edge_simps)
qed

lemma timed_expired:
  assumes "timed c s"
  shows "timed c (snd (timerExpired c func time (clearTimeout i s)))"
proof (cases "shouldInvoke c time (clearTimeout i s)")
  case False
  with not_should obtain t where t: "lastCallTime (clearTimeout i s) = Some t" by blast
  show ?thesis using False t remaining_due(1) [OF False t] by (auto simp: timed_def edge_simps intro: due_by_setTimeout)
qed (auto simp: timed_def edge_simps)

lemma waiting_handle:
  assumes "waiting c time s" "time \<le> time'" "0 \<le> wait c"
  shows "waiting c time' (snd (handle c func time' ev s))"
proof -
  have "timed c (snd (handle c func time' ev s))"
  proof (cases ev)
    case (Call a)
    then show ?thesis using timed_call [of c s time time'] assms by (simp add: waiting_def)
  next
    case (Fire i)
    then show ?thesis using timed_expired [of c s] assms by (simp add: waiting_def)
  qed (use assms in \<open>auto simp: waiting_def timed_def edge_simps\<close>)
  then show ?thesis using assms by (auto simp: waiting_def pending_last_handle past_calls_handle)
qed

lemma last_call_times:
  assumes "waiting c time s" "calls s \<noteq> []"
  shows "fst (last (calls s)) \<le> time" "(t, a) \<in> set (calls s) \<Longrightarrow> t \<le> fst (last (calls s))"
proof -
  obtain cs u b where "calls s = cs @ [(u, b)]" using assms(2) by (cases "calls s" rule: rev_cases) auto
  then show "fst (last (calls s)) \<le> time" "(t, a) \<in> set (calls s) \<Longrightarrow> t \<le> fst (last (calls s))"
    using assms(1) by (auto simp: waiting_def past_calls_def sorted_append)
qed

lemma pending_call:
  assumes "waiting c time s" "lastArgs s \<noteq> None"
  obtains u where "lastCallTime s = Some u" "due_by s (u + wait c)" "calls s \<noteq> []" "u = fst (last (calls s))"
proof -
  have "timerId s \<noteq> None" using assms by (auto simp: waiting_def pending_last_def)
  with assms(1) obtain u where u: "lastCallTime s = Some u" "due_by s (u + wait c)" by (auto simp: waiting_def timed_def)
  then show thesis using assms(1) that [of u] by (auto simp: waiting_def pending_last_def)
qed

lemma run_waiting:
  assumes "deb_run c func ok time s" "0 \<le> wait c"
  shows "waiting c time s"
  using assms by induction (auto simp: waiting_init waiting_handle)

text \<open>A call has been answered in time, or it is pending and the timer will be due in time.\<close>

definition served :: "deb_config \<Rightarrow> int \<Rightarrow> ('a, 'r) deb \<Rightarrow> int \<Rightarrow> bool" where
  "served c lag s t \<longleftrightarrow> (\<exists>(u, x) \<in> set (invoked s). t \<le> u \<and> u \<le> t + maxWait c + lag) \<or>
     lastArgs s \<noteq> None \<and> due_by s (t + maxWait c) \<and> lastInvokeTime s \<le> t"

lemma due_in_time: "due_by s b \<Longrightarrow> in_time lag time s \<Longrightarrow> time \<le> b + lag"
  by (force simp: due_by_def in_time_def list_all_iff)

lemma invoked_grows: "set (invoked s) \<subseteq> set (invoked (snd (handle c func time ev s)))"
  by (cases ev) (auto simp: edge_simps split: option.splits)

text \<open>While a call is pending, an event answers it or leaves it pending, unless it is cancelled.\<close>

lemma pending_step:
  assumes "lastArgs s \<noteq> None" "timerId s \<noteq> None" "trailing c" "ev \<noteq> Cancel" "due_by s b" "maxing c" "lastInvokeTime s + maxWait c \<le> b"
  shows "(\<exists>x. (time, x) \<in> set (invoked (snd (handle c func time ev s)))) \<or>
    lastArgs (snd (handle c func time ev s)) \<noteq> None \<and> due_by (snd (handle c func time ev s)) b \<and>
    lastInvokeTime (snd (handle c func time ev s)) = lastInvokeTime s"
proof (cases ev)
  case (Fire i)
  let ?s = "clearTimeout i s"
  show ?thesis
  proof (cases "shouldInvoke c time ?s")
    case False
    then obtain t where t: "lastCallTime ?s = Some t" using not_should by blast
    from remaining_due(2) [OF False t] assms(6,7) have "time + max 0 (remainingWait c time ?s) \<le> b" by simp
    then show ?thesis using False Fire assms by (auto simp: edge_simps intro: due_by_setTimeout)
  qed (use Fire assms in \<open>auto simp: edge_simps\<close>)
qed (use assms in \<open>auto simp: edge_simps\<close>)

lemma served_handle:
  assumes "served c lag s t" "pending_last s" "prompt lag time ev s" "trailing c" "maxing c" "t \<le> time"
  shows "served c lag (snd (handle c func time ev s)) t"
proof (cases "\<exists>(u, x) \<in> set (invoked s). t \<le> u \<and> u \<le> t + maxWait c + lag")
  case True
  then show ?thesis using invoked_grows [of s c func time ev] unfolding served_def by blast
next
  case False
  then have p: "lastArgs s \<noteq> None" "due_by s (t + maxWait c)" "lastInvokeTime s \<le> t"
    using assms(1) by (auto simp: served_def)
  then have "time \<le> t + maxWait c + lag" using due_in_time assms(3) by (auto simp: prompt_def)
  then show ?thesis
    using pending_step [of s c ev "t + maxWait c" time func] p assms unfolding served_def pending_last_def prompt_def by force
qed

lemma served_call:
  assumes "waiting c time s" "time \<le> time'" "0 \<le> wait c" "wait c \<le> maxWait c" "0 \<le> lag"
  shows "served c lag (snd (debounced c func time' a s)) time'"
proof -
  let ?s = "snd (debounced c func time' a s)"
  have w: "waiting c time' ?s" using waiting_handle [OF assms(1-3), of func "Call a"] by simp
  have "(\<exists>x. (time', x) \<in> set (invoked ?s)) \<or> lastArgs ?s \<noteq> None"
    by (auto simp: edge_simps)
  moreover have "lastCallTime ?s = Some time'" by (auto simp: edge_simps)
  ultimately show ?thesis using w assms
    by (auto simp: served_def waiting_def past_calls_def pending_last_def timed_def elim: due_by_mono)
qed

lemma maxWait_answers:
  assumes "deb_run c func (prompt lag) time s" "trailing c" "maxing c" "0 \<le> wait c" "wait c \<le> maxWait c" "0 \<le> lag"
    and "in_time lag now s" "(t, a) \<in> set (calls s)" "t + maxWait c + lag < now"
  shows "\<exists>(u, x) \<in> set (invoked s). t \<le> u \<and> u \<le> t + maxWait c + lag"
proof -
  have "\<forall>(t, a) \<in> set (calls s). served c lag s t"
    using assms(1)
  proof induction
    case (event time s time' ev)
    have w: "waiting c time s" using run_waiting event.hyps(1) assms(4) .
    have old: "served c lag (snd (handle c func time' ev s)) t" if "(t, a) \<in> set (calls s)" for t a
      using served_handle [of c lag s t time' ev func] event that w assms
      by (force simp: waiting_def past_calls_def list_all_iff)
    show ?case
    proof (cases ev)
      case (Call b)
      have "calls (snd (handle c func time' ev s)) = calls s @ [(time', b)]" using Call by (simp add: edge_simps)
      then show ?thesis using old served_call [OF w event.hyps(2)] assms Call by auto
    next
      case (Fire i)
      then show ?thesis using old by (auto simp: edge_simps split: if_splits)
    next
      case Cancel
      then show ?thesis using event by (simp add: prompt_def)
    next
      case Flush
      then show ?thesis using old by (auto simp: edge_simps split: if_splits)
    qed
  qed (simp add: deb_init_def)
  then show ?thesis using assms(7-9) due_in_time [of s "t + maxWait c" lag now] by (auto simp: served_def)
qed

text \<open>C11: with the option \<open>maxWait\<close>, and when the host runs timers at most \<open>lag\<close> after they are due, every call is followed
  within \<open>max maxWait wait + lag\<close> by a call of the function, however many other calls come in between.\<close>

theorem debounce_maxWait:
  assumes "opt_maxWait os = Some m" "opt_trailing os \<noteq> Some False" "0 \<le> w" "0 \<le> lag"
    and "deb_run (debounce_config (Num w) (Some os)) func (prompt lag) time s" "in_time lag now s"
    and "(t, a) \<in> set (calls s)" "t + max (number_or_0 m) w + lag < now"
  shows "\<exists>(u, x) \<in> set (invoked s). t \<le> u \<and> u \<le> t + max (number_or_0 m) w + lag"
  using maxWait_answers [OF assms(5), of now t a] assms by (auto simp: debounce_config_def Let_def split: option.splits)

section \<open>The last call\<close>

definition delivered :: "deb_config \<Rightarrow> int \<Rightarrow> ('a, 'r) deb \<Rightarrow> bool" where
  "delivered c lag s \<longleftrightarrow> (calls s \<noteq> [] \<and> lastArgs s = None \<longrightarrow>
     (\<exists>is u. invoked s = is @ [(u, Some (snd (last (calls s))))] \<and>
        fst (last (calls s)) \<le> u \<and> u \<le> fst (last (calls s)) + wait c + lag)) \<and>
     (calls s \<noteq> [] \<longrightarrow> lastCallTime s \<noteq> None)"

lemma delivered_handle:
  assumes "delivered c lag s" "waiting c time s" "time \<le> time'" "prompt lag time' ev s" "trailing c" "0 \<le> wait c" "0 \<le> lag"
  shows "delivered c lag (snd (handle c func time' ev s))"
proof -
  have pend: "fst (last (calls s)) \<le> time'" "time' \<le> fst (last (calls s)) + wait c + lag" if "lastArgs s \<noteq> None"
  proof -
    from pending_call [OF assms(2) that] obtain u where u: "lastCallTime s = Some u" "due_by s (u + wait c)"
      and last: "calls s \<noteq> []" "u = fst (last (calls s))" .
    then show "fst (last (calls s)) \<le> time'"
      using assms(3) last_call_times(1) [OF assms(2) last(1)] by simp
    show "time' \<le> fst (last (calls s)) + wait c + lag" using due_in_time u(2) assms(4) last(2) by (auto simp: prompt_def)
  qed
  have "lastArgs s \<noteq> None \<longrightarrow> lastArgs s = Some (snd (last (calls s)))"
    using assms(2) by (auto simp: waiting_def pending_last_def)
  then show ?thesis using assms(1,4-7) pend
    by (cases ev) (auto simp: delivered_def prompt_def edge_simps)
qed

text \<open>C10: when the calls pause for \<open>wait\<close> and the host runs timers at most \<open>lag\<close> after they are due, the function has been
  called with the arguments of the last call, and nothing has been handed over after that.\<close>

theorem debounce_last_call:
  assumes "deb_run c func (prompt lag) time s" "trailing c" "0 \<le> wait c" "0 \<le> lag"
    and "in_time lag now s" "calls s \<noteq> []" "fst (last (calls s)) + wait c + lag < now"
  shows "invoked s \<noteq> [] \<and> snd (last (invoked s)) = Some (snd (last (calls s))) \<and>
     fst (last (calls s)) \<le> fst (last (invoked s)) \<and> fst (last (invoked s)) \<le> fst (last (calls s)) + wait c + lag"
proof -
  have w: "waiting c time s" using run_waiting assms(1,3) .
  have d: "delivered c lag s" using assms(1)
  proof induction
    case (event time s time' ev)
    then show ?case using delivered_handle [OF _ run_waiting [OF event.hyps(1) assms(3)]] assms by blast
  qed (simp add: delivered_def deb_init_def)
  have "lastArgs s = None"
  proof (rule ccontr)
    assume "lastArgs s \<noteq> None"
    from pending_call [OF w this] obtain t where "due_by s (t + wait c)" "t = fst (last (calls s))" .
    then show False using due_in_time [of s "t + wait c" lag now] assms by simp
  qed
  with d show ?thesis using assms(6) by (auto simp: delivered_def)
qed

section \<open>The pause\<close>

definition paused :: "deb_config \<Rightarrow> int \<Rightarrow> ('a, 'r) deb \<Rightarrow> bool" where
  "paused c time s \<longleftrightarrow> (\<forall>(u, x) \<in> set (invoked s). u \<le> time \<and> (\<forall>(t, a) \<in> set (calls s). t < u \<longrightarrow> t + wait c \<le> u))"

lemma paused_handle:
  assumes "paused c time s" "waiting c time s" "time \<le> time'" "\<not> leading c" "\<not> maxing c" "ev \<noteq> Flush"
  shows "paused c time' (snd (handle c func time' ev s))"
proof -
  have old: "u \<le> time'" "(t, a) \<in> set (calls s) \<Longrightarrow> t < u \<Longrightarrow> t + wait c \<le> u" if "(u, x) \<in> set (invoked s)" for u x t a
    using assms(1,3) that by (force simp: paused_def)+
  have pause: "t + wait c \<le> time'"
    if "lastArgs s \<noteq> None" "shouldInvoke c time' (clearTimeout i s)" "(t, a) \<in> set (calls s)" for t a i
  proof -
    from pending_call [OF assms(2) that(1)] obtain u where u: "lastCallTime s = Some u" "calls s \<noteq> []" "u = fst (last (calls s))" .
    have "t \<le> u" "u \<le> time'" using last_call_times [OF assms(2) u(2)] that(3) u(3) assms(3) by auto
    then show ?thesis using that(2) u(1) assms(5) by (auto simp: shouldInvoke_def)
  qed
  have *: "paused c time' s'" if "calls s' = calls s \<or> calls s' = calls s @ [(time', b)]" "invoked s' = invoked s" for s' b
  proof -
    have "t + wait c \<le> u" if "(u, x) \<in> set (invoked s)" "(t, a) \<in> set (calls s')" "t < u" for u x t a
      using old(1) [OF that(1)] old(2) [OF that(1) _ that(3)] that(2,3) \<open>calls s' = calls s \<or> _\<close> by auto
    then show ?thesis using old(1) that(2) by (force simp: paused_def)
  qed
  show ?thesis
  proof (cases ev)
    case (Call b)
    show ?thesis by (rule * [of _ b]) (use Call assms(4,5) in \<open>auto simp: edge_simps\<close>)
  next
    case (Fire i)
    show ?thesis
    proof (cases "lastArgs s \<noteq> None \<and> shouldInvoke c time' (clearTimeout i s) \<and> trailing c")
      case True
      then have "invoked (snd (handle c func time' ev s)) = invoked s @ [(time', lastArgs s)]"
        "calls (snd (handle c func time' ev s)) = calls s" using Fire by (simp_all add: edge_simps)
      moreover have "t + wait c \<le> time'" if "(t, a) \<in> set (calls s)" for t a using pause [of i t a] True that by blast
      ultimately show ?thesis using old(1) old(2) by (fastforce simp: paused_def)
    qed (rule *, use Fire in \<open>auto simp: edge_simps\<close>)
  next
    case Cancel
    show ?thesis by (rule *) (use Cancel in \<open>auto simp: edge_simps split: option.splits\<close>)
  qed (use assms(6) in simp)
qed

text \<open>C26: without \<open>leading\<close> and \<open>maxWait\<close>, and unless it is flushed, the function is only called when for \<open>wait\<close>
  milliseconds nobody has called the delayed function.\<close>

theorem debounce_pause:
  assumes "deb_run c func (\<lambda>time ev s. ev \<noteq> Flush) time s" "\<not> leading c" "\<not> maxing c" "0 \<le> wait c"
    and "(u, x) \<in> set (invoked s)" "(t, a) \<in> set (calls s)" "t < u"
  shows "t + wait c \<le> u"
proof -
  have "paused c time s" using assms(1)
  proof induction
    case (event time s time' ev)
    then show ?case using paused_handle [OF _ run_waiting [OF event.hyps(1) assms(4)]] assms by blast
  qed (simp add: paused_def deb_init_def)
  then show ?thesis using assms(5-7) by (auto simp: paused_def)
qed

section \<open>An execution\<close>

text \<open>Two calls, the timer of the first, which starts another one for the rest of the pause, and the answer.\<close>

definition plain_deb :: deb_config where
  "plain_deb = debounce_config (Num 100) None"

definition seven :: "nat option \<Rightarrow> unit + nat" where
  "seven x = Inr 7"

definition two_calls :: "(int \<times> nat deb_event) list" where
  "two_calls = [(10, Call 1), (60, Call 2), (112, Fire 1), (165, Fire 2)]"

definition after_two :: "(nat, nat) deb" where
  "after_two = deb_exec plain_deb seven two_calls deb_init"

lemma after_two_run:
  "deb_run plain_deb seven (prompt 5) 165 after_two"
  "deb_run plain_deb seven (\<lambda>time ev s. ev \<noteq> Flush) 165 after_two"
proof -
  have "allowed plain_deb seven (prompt 5) 0 two_calls deb_init" by code_simp
  from deb_exec_run [OF deb_run.start this] show "deb_run plain_deb seven (prompt 5) 165 after_two"
    by (simp add: after_two_def two_calls_def)
  have "allowed plain_deb seven (\<lambda>time ev s. ev \<noteq> Flush) 0 two_calls deb_init" by code_simp
  from deb_exec_run [OF deb_run.start this] show "deb_run plain_deb seven (\<lambda>time ev s. ev \<noteq> Flush) 165 after_two"
    by (simp add: after_two_def two_calls_def)
qed

lemma after_two_state: "calls after_two = [(10, 1), (60, 2)]" "invoked after_two = [(165, Some 2)]" "timers after_two = []"
  unfolding after_two_def by code_simp+

lemma plain_deb_simps: "trailing plain_deb" "wait plain_deb = 100" "\<not> leading plain_deb" "\<not> maxing plain_deb"
  by (simp_all add: plain_deb_def debounce_config_def)

theorem debounce_at_most_once_witness:
  "subseq (map snd (invoked after_two)) (map (Some \<circ> snd) (calls after_two)) \<and> calls after_two = [(10, 1), (60, 2)]"
  using debounce_at_most_once [OF deb_run_reach [OF after_two_run(1)]] after_two_state by blast

theorem debounce_last_call_witness:
  "snd (last (invoked after_two)) = Some 2 \<and> fst (last (invoked after_two)) \<le> 60 + 100 + 5"
  using debounce_last_call [OF after_two_run(1), of 166] by (simp add: after_two_state plain_deb_simps in_time_def)

theorem debounce_pause_witness: "(165, Some 2) \<in> set (invoked after_two) \<and> (60, 2) \<in> set (calls after_two) \<and> (60::int) + 100 \<le> 165"
  using debounce_pause [OF after_two_run(2), of 165 "Some 2" 60 2] by (simp add: after_two_state plain_deb_simps)

definition max_options :: deb_options where
  "max_options = \<lparr>opt_leading = None, opt_maxWait = Some (Num 120), opt_trailing = None\<rparr>"

definition three_calls :: "(int \<times> nat deb_event) list" where
  "three_calls = [(10, Call 1), (60, Call 2), (112, Fire 1), (120, Call 3), (135, Fire 2)]"

definition after_three :: "(nat, nat) deb" where
  "after_three = deb_exec (debounce_config (Num 100) (Some max_options)) seven three_calls deb_init"

theorem debounce_maxWait_witness:
  "calls after_three = [(10, 1), (60, 2), (120, 3)] \<and> (\<exists>(u, x) \<in> set (invoked after_three). 10 \<le> u \<and> u \<le> 10 + 120 + 5)"
proof -
  have "allowed (debounce_config (Num 100) (Some max_options)) seven (prompt 5) 0 three_calls deb_init" by code_simp
  from deb_exec_run [OF deb_run.start this]
  have r: "deb_run (debounce_config (Num 100) (Some max_options)) seven (prompt 5) 135 after_three"
    by (simp add: after_three_def three_calls_def)
  have s: "calls after_three = [(10, 1), (60, 2), (120, 3)]" "timers after_three = []"
    unfolding after_three_def by code_simp+
  show ?thesis using debounce_maxWait [OF _ _ _ _ r, of "Num 120" 136 10 1] s by (simp add: max_options_def in_time_def)
qed

end
