(* ===== verification/Promise.thy ===== *)
theory Promise
  imports Js_Prelude
begin

text \<open>
  The promises of core-js, on which the requests and the resolution of specifications run in browsers
  without promises of their own.  The fields of a promise are a record, \<open>$resolve\<close>, \<open>$reject\<close>, \<open>notify\<close>,
  \<open>then\<close> and the functions of the constructor are definitions on a world of promises and queued jobs, and a
  step relation runs the jobs.

  Code of the application is a parameter: a function has a name, and its body is a program that reads
  values, calls the functions of promises and ends with a value or an error.  Functions may name each
  other and themselves, so an application may keep the queue busy for ever.  Subclasses of \<open>Promise\<close> and
  the domains of Node are not modelled.
\<close>

section \<open>Values, functions and programs\<close>

text \<open>\<open>Obj\<close> is an object that is no promise and may have a method \<open>then\<close>; \<open>Arr\<close> is the array that \<open>all\<close> fills.\<close>

datatype ('v, 'o) pval =
    Undefined
  | Val 'v
  | TypeErr string
  | Prom nat
  | Obj 'o
  | Arr "('v, 'o) pval list"

text \<open>The object that a resolving function is bound to: a promise or a wrapper \<open>{_w, _d}\<close>.\<close>

datatype target = OfPromise nat | OfWrapper nat

text \<open>
  Functions that react to a promise: one of the application, a resolving function, the closures of \<open>all\<close>
  and of \<open>finally\<close>.
\<close>

datatype ('v, 'o, 'f) handler =
    User 'f
  | ResolveFn target
  | RejectFn target
  | AllElement nat nat
  | FinallyOk 'f
  | FinallyFail 'f
  | Returner "('v, 'o) pval"
  | Thrower "('v, 'o) pval"

text \<open>\<open>ok\<close> and \<open>fail\<close> are \<open>None\<close> where the code has \<open>true\<close> and \<open>false\<close>; \<open>resolve\<close> and \<open>reject\<close> are bound to \<open>rpromise\<close>.\<close>

record ('v, 'o, 'f) reaction =
  ok :: "('v, 'o, 'f) handler option"
  fail :: "('v, 'o, 'f) handler option"
  rpromise :: nat

datatype ('v, 'o, 'f) action =
    Resolve target "('v, 'o) pval"
  | Reject target "('v, 'o) pval"
  | Then nat "'f option" "'f option"
  | Finally nat "'f option"
  | PromiseResolve "('v, 'o) pval"
  | PromiseReject "('v, 'o) pval"
  | PromiseAll "('v, 'o) pval list"
  | PromiseRace "('v, 'o) pval list"

datatype ('v, 'o, 'f) prog =
    Return "('v, 'o) pval"
  | Throw "('v, 'o) pval"
  | Do "('v, 'o, 'f) action" "('v, 'o) pval \<Rightarrow> ('v, 'o, 'f) prog"
  | NewPromise "nat \<Rightarrow> ('v, 'o, 'f) prog" "nat \<Rightarrow> ('v, 'o, 'f) prog"

text \<open>
  The application: the body of a function, and what reading \<open>then\<close> of an object gives: an error of the
  getter, nothing that can be called, or a function that is called with two resolving functions.  The last
  two are what the host has for promises whose rejection nobody handles.
\<close>

record ('v, 'o, 'f) app =
  code :: "'f \<Rightarrow> ('v, 'o) pval \<Rightarrow> ('v, 'o, 'f) prog"
  thenOf :: "'o \<Rightarrow> ('v, 'o) pval + (target \<Rightarrow> ('v, 'o, 'f) prog) option"
  onunhandledrejection :: "nat \<Rightarrow> ('v, 'o, 'f) prog"
  onrejectionhandled :: "nat \<Rightarrow> ('v, 'o, 'f) prog"

section \<open>Promises and jobs\<close>

datatype pstate = Pending | Fulfilled | Rejected

text \<open>The fields \<open>_c\<close>, \<open>_a\<close>, \<open>_s\<close>, \<open>_d\<close>, \<open>_v\<close>, \<open>_h\<close> and \<open>_n\<close>.\<close>

record ('v, 'o, 'f) promise =
  p_c :: "('v, 'o, 'f) reaction list"
  p_a :: "('v, 'o, 'f) reaction list option"
  p_s :: pstate
  p_d :: bool
  p_v :: "('v, 'o) pval"
  p_h :: nat
  p_n :: bool

record wrapper =
  w_w :: nat
  w_d :: bool

datatype ('v, 'o) job = NotifyJob nat bool | ThenJob nat "('v, 'o) pval"

datatype ptask = UnhandledTask nat | HandledTask nat

datatype report = UnhandledRejection nat | RejectionHandled nat

text \<open>The variables of the closure of \<open>all\<close>, and its capability.\<close>

record ('v, 'o) all_state =
  vals :: "('v, 'o) pval list"
  remaining :: int
  alreadyCalled :: "bool list"
  capability :: nat

text \<open>The loop of \<open>notify\<close>: its promise, \<open>isReject\<close>, \<open>value\<close>, \<open>ok\<close> and \<open>i\<close>.\<close>

record ('v, 'o) loop =
  l_promise :: nat
  l_isReject :: bool
  l_value :: "('v, 'o) pval"
  l_ok :: bool
  l_i :: nat

text \<open>
  Promises, wrappers and closures are numbered as they are made.  \<open>registered\<close> and \<open>ran\<close> record, to speak
  of the behaviour, which reactions have been attached and which have been run, in order: a promise and
  the promise that \<open>then\<close> returned for the reaction.
\<close>

record ('v, 'o, 'f) world =
  promise :: "nat \<Rightarrow> ('v, 'o, 'f) promise"
  promises :: nat
  wrapper :: "nat \<Rightarrow> wrapper"
  wrappers :: nat
  alls :: "('v, 'o) all_state list"
  microtasks :: "('v, 'o) job list"
  running :: "('v, 'o) loop option"
  tasks :: "ptask list"
  reports :: "report list"
  registered :: "(nat \<times> nat) list"
  ran :: "(nat \<times> nat) list"

text \<open>\<open>Internal\<close>\<close>

definition Internal :: "('v, 'o, 'f) promise" where
  "Internal = \<lparr>p_c = [], p_a = None, p_s = Pending, p_d = False, p_v = Undefined, p_h = 0, p_n = False\<rparr>"

definition empty_world :: "('v, 'o, 'f) world" where
  "empty_world = \<lparr>promise = (\<lambda>p. Internal), promises = 0, wrapper = (\<lambda>k. \<lparr>w_w = 0, w_d = True\<rparr>), wrappers = 0, alls = [],
     microtasks = [], running = None, tasks = [], reports = [], registered = [], ran = []\<rparr>"

definition upd :: "nat \<Rightarrow> (('v, 'o, 'f) promise \<Rightarrow> ('v, 'o, 'f) promise) \<Rightarrow> ('v, 'o, 'f) world \<Rightarrow> ('v, 'o, 'f) world" where
  "upd p f w = w\<lparr>promise := (promise w)(p := f (promise w p))\<rparr>"

definition new_promise :: "('v, 'o, 'f) world \<Rightarrow> nat \<times> ('v, 'o, 'f) world" where
  "new_promise w = (promises w, w\<lparr>promise := (promise w)(promises w := Internal), promises := promises w + 1\<rparr>)"

definition microtask :: "('v, 'o) job \<Rightarrow> ('v, 'o, 'f) world \<Rightarrow> ('v, 'o, 'f) world" where
  "microtask j w = w\<lparr>microtasks := microtasks w @ [j]\<rparr>"

definition task :: "ptask \<Rightarrow> ('v, 'o, 'f) world \<Rightarrow> ('v, 'o, 'f) world" where
  "task t w = w\<lparr>tasks := tasks w @ [t]\<rparr>"

section \<open>Resolving functions\<close>

text \<open>What \<open>isThenable\<close> gives: an error of a getter, \<open>false\<close>, the method of promises, or another function.\<close>

datatype ('v, 'o, 'f) thenable =
    GetterError "('v, 'o) pval"
  | NoThen
  | PromiseThen nat
  | OtherThen "target \<Rightarrow> ('v, 'o, 'f) prog"

fun isThenable :: "('v, 'o, 'f) app \<Rightarrow> ('v, 'o) pval \<Rightarrow> ('v, 'o, 'f) thenable" where
  "isThenable e (Prom q) = PromiseThen q"
| "isThenable e (Obj x) = (case thenOf e x of Inl err \<Rightarrow> GetterError err | Inr None \<Rightarrow> NoThen | Inr (Some body) \<Rightarrow> OtherThen body)"
| "isThenable e _ = NoThen"

text \<open>
  The job of \<open>notify\<close> runs the reactions in \<open>_c\<close>, to which \<open>then\<close> may add while it runs.
\<close>

definition notify :: "nat \<Rightarrow> bool \<Rightarrow> ('v, 'o, 'f) world \<Rightarrow> ('v, 'o, 'f) world" where
  "notify p isReject w =
     (if p_n (promise w p) then w else microtask (NotifyJob p isReject) (upd p (\<lambda>r. r\<lparr>p_n := True\<rparr>) w))"

text \<open>A number that belongs to no object is not a value of the program; nothing is done for it.\<close>

fun is_done :: "target \<Rightarrow> ('v, 'o, 'f) world \<Rightarrow> bool" where
  "is_done (OfPromise p) w \<longleftrightarrow> promises w \<le> p \<or> p_d (promise w p)"
| "is_done (OfWrapper k) w \<longleftrightarrow> wrappers w \<le> k \<or> w_d (wrapper w k)"

fun set_done :: "target \<Rightarrow> ('v, 'o, 'f) world \<Rightarrow> ('v, 'o, 'f) world" where
  "set_done (OfPromise p) w = upd p (\<lambda>r. r\<lparr>p_d := True\<rparr>) w"
| "set_done (OfWrapper k) w = w\<lparr>wrapper := (wrapper w)(k := (wrapper w k)\<lparr>w_d := True\<rparr>)\<rparr>"

text \<open>\<open>promise._w || promise\<close>\<close>

fun promise_of :: "target \<Rightarrow> ('v, 'o, 'f) world \<Rightarrow> nat" where
  "promise_of (OfPromise p) w = p"
| "promise_of (OfWrapper k) w = w_w (wrapper w k)"

text \<open>\<open>$reject\<close> after its guard, which is also \<open>$reject\<close> on a fresh wrapper.\<close>

definition reject_promise :: "nat \<Rightarrow> ('v, 'o) pval \<Rightarrow> ('v, 'o, 'f) world \<Rightarrow> ('v, 'o, 'f) world" where
  "reject_promise p value w =
     notify p True (upd p (\<lambda>r. r\<lparr>p_v := value, p_s := Rejected, p_a := (case p_a r of None \<Rightarrow> Some (p_c r) | Some a \<Rightarrow> Some a)\<rparr>) w)"

definition reject :: "target \<Rightarrow> ('v, 'o) pval \<Rightarrow> ('v, 'o, 'f) world \<Rightarrow> ('v, 'o, 'f) world" where
  "reject t value w = (if is_done t w then w else reject_promise (promise_of t w) value (set_done t w))"

definition fulfil_promise :: "nat \<Rightarrow> ('v, 'o) pval \<Rightarrow> ('v, 'o, 'f) world \<Rightarrow> ('v, 'o, 'f) world" where
  "fulfil_promise p value w = notify p False (upd p (\<lambda>r. r\<lparr>p_v := value, p_s := Fulfilled\<rparr>) w)"

definition resolve :: "('v, 'o, 'f) app \<Rightarrow> target \<Rightarrow> ('v, 'o) pval \<Rightarrow> ('v, 'o, 'f) world \<Rightarrow> ('v, 'o, 'f) world" where
  "resolve e t value w =
     (if is_done t w then w
      else let w' = set_done t w; p = promise_of t w in
        if value = Prom p then reject_promise p (TypeErr ''Promise can't be resolved itself'') w'
        else case isThenable e value of
               GetterError err \<Rightarrow> reject_promise p err w'
             | NoThen \<Rightarrow> fulfil_promise p value w'
             | _ \<Rightarrow> microtask (ThenJob p value) w')"

section \<open>The methods and functions of \<open>Promise\<close>\<close>

definition promise_then :: "nat \<Rightarrow> ('v, 'o, 'f) handler option \<Rightarrow> ('v, 'o, 'f) handler option \<Rightarrow> ('v, 'o, 'f) world \<Rightarrow> nat \<times> ('v, 'o, 'f) world" where
  "promise_then p onFulfilled onRejected w =
     (if promises w \<le> p then (p, w)
      else let (q, w1) = new_promise w;
          r = \<lparr>ok = onFulfilled, fail = onRejected, rpromise = q\<rparr>;
          w2 = upd p (\<lambda>x. x\<lparr>p_c := p_c x @ [r], p_a := map_option (\<lambda>a. a @ [r]) (p_a x)\<rparr>) w1;
          w3 = w2\<lparr>registered := registered w2 @ [(p, q)]\<rparr>
      in (q, if p_s (promise w3 p) \<noteq> Pending then notify p False w3 else w3))"

definition promiseResolve :: "('v, 'o, 'f) app \<Rightarrow> ('v, 'o) pval \<Rightarrow> ('v, 'o, 'f) world \<Rightarrow> nat \<times> ('v, 'o, 'f) world" where
  "promiseResolve e x w =
     (case x of
        Prom p \<Rightarrow> (p, w)
      | _ \<Rightarrow> (let (q, w1) = new_promise w in (q, resolve e (OfPromise q) x w1)))"

definition promise_reject :: "('v, 'o) pval \<Rightarrow> ('v, 'o, 'f) world \<Rightarrow> nat \<times> ('v, 'o, 'f) world" where
  "promise_reject x w = (let (q, w1) = new_promise w in (q, reject (OfPromise q) x w1))"

definition set_all :: "nat \<Rightarrow> ('v, 'o) all_state \<Rightarrow> ('v, 'o, 'f) world \<Rightarrow> ('v, 'o, 'f) world" where
  "set_all k a w = w\<lparr>alls := (alls w)[k := a]\<rparr>"

text \<open>\<open>--remaining || resolve(values)\<close>\<close>

definition all_count :: "('v, 'o, 'f) app \<Rightarrow> nat \<Rightarrow> ('v, 'o, 'f) world \<Rightarrow> ('v, 'o, 'f) world" where
  "all_count e k w =
     (let a = alls w ! k; w' = set_all k (a\<lparr>remaining := remaining a - 1\<rparr>) w
      in if remaining a - 1 \<noteq> 0 then w' else resolve e (OfPromise (capability a)) (Arr (vals a)) w')"

definition all_element :: "('v, 'o, 'f) app \<Rightarrow> nat \<Rightarrow> nat \<Rightarrow> ('v, 'o) pval \<Rightarrow> ('v, 'o, 'f) world \<Rightarrow> ('v, 'o, 'f) world" where
  "all_element e k i value w =
     (if k < length (alls w) \<and> i < length (vals (alls w ! k)) \<and> \<not> alreadyCalled (alls w ! k) ! i
      then let a = alls w ! k
           in all_count e k (set_all k (a\<lparr>alreadyCalled := (alreadyCalled a)[i := True], vals := (vals a)[i := value]\<rparr>) w)
      else w)"

fun all_loop :: "('v, 'o, 'f) app \<Rightarrow> nat \<Rightarrow> ('v, 'o) pval list \<Rightarrow> ('v, 'o, 'f) world \<Rightarrow> ('v, 'o, 'f) world" where
  "all_loop e k [] w = w"
| "all_loop e k (x # xs) w =
     (let a = alls w ! k;
          w1 = set_all k (a\<lparr>vals := vals a @ [Undefined], remaining := remaining a + 1, alreadyCalled := alreadyCalled a @ [False]\<rparr>) w;
          (p, w2) = promiseResolve e x w1;
          (q, w3) = promise_then p (Some (AllElement k (length (vals a)))) (Some (RejectFn (OfPromise (capability a)))) w2
      in all_loop e k xs w3)"

definition promise_all :: "('v, 'o, 'f) app \<Rightarrow> ('v, 'o) pval list \<Rightarrow> ('v, 'o, 'f) world \<Rightarrow> nat \<times> ('v, 'o, 'f) world" where
  "promise_all e xs w =
     (let (c, w1) = new_promise w;
          k = length (alls w1);
          w2 = w1\<lparr>alls := alls w1 @ [\<lparr>vals = [], remaining = 1, alreadyCalled = [], capability = c\<rparr>]\<rparr>
      in (c, all_count e k (all_loop e k xs w2)))"

fun race_loop :: "('v, 'o, 'f) app \<Rightarrow> nat \<Rightarrow> ('v, 'o) pval list \<Rightarrow> ('v, 'o, 'f) world \<Rightarrow> ('v, 'o, 'f) world" where
  "race_loop e c [] w = w"
| "race_loop e c (x # xs) w =
     (let (p, w1) = promiseResolve e x w;
          (q, w2) = promise_then p (Some (ResolveFn (OfPromise c))) (Some (RejectFn (OfPromise c))) w1
      in race_loop e c xs w2)"

definition promise_race :: "('v, 'o, 'f) app \<Rightarrow> ('v, 'o) pval list \<Rightarrow> ('v, 'o, 'f) world \<Rightarrow> nat \<times> ('v, 'o, 'f) world" where
  "promise_race e xs w = (let (c, w1) = new_promise w in (c, race_loop e c xs w1))"

definition promise_finally :: "nat \<Rightarrow> 'f option \<Rightarrow> ('v, 'o, 'f) world \<Rightarrow> nat \<times> ('v, 'o, 'f) world" where
  "promise_finally p onFinally w = promise_then p (map_option FinallyOk onFinally) (map_option FinallyFail onFinally) w"

section \<open>Running programs\<close>

fun act :: "('v, 'o, 'f) app \<Rightarrow> ('v, 'o, 'f) action \<Rightarrow> ('v, 'o, 'f) world \<Rightarrow> ('v, 'o) pval \<times> ('v, 'o, 'f) world" where
  "act e (Resolve t v) w = (Undefined, resolve e t v w)"
| "act e (Reject t v) w = (Undefined, reject t v w)"
| "act e (Then p f g) w = map_prod Prom id (promise_then p (map_option User f) (map_option User g) w)"
| "act e (Finally p f) w = map_prod Prom id (promise_finally p f w)"
| "act e (PromiseResolve v) w = map_prod Prom id (promiseResolve e v w)"
| "act e (PromiseReject v) w = map_prod Prom id (promise_reject v w)"
| "act e (PromiseAll vs) w = map_prod Prom id (promise_all e vs w)"
| "act e (PromiseRace vs) w = map_prod Prom id (promise_race e vs w)"

text \<open>\<open>new Promise(executor)\<close> is the case \<open>NewPromise\<close>: an error of the executor rejects the promise.\<close>

primrec run :: "('v, 'o, 'f) app \<Rightarrow> ('v, 'o, 'f) prog \<Rightarrow> ('v, 'o, 'f) world \<Rightarrow> (('v, 'o) pval + ('v, 'o) pval) \<times> ('v, 'o, 'f) world" where
  "run e (Return v) w = (Inr v, w)"
| "run e (Throw v) w = (Inl v, w)"
| "run e (Do a k) w = (case act e a w of (v, w') \<Rightarrow> run e (k v) w')"
| "run e (NewPromise executor k) w =
     (case new_promise w of (p, w1) \<Rightarrow>
        (case run e (executor p) w1 of (r, w2) \<Rightarrow>
           run e (k p) (case r of Inl err \<Rightarrow> reject (OfPromise p) err w2 | Inr v \<Rightarrow> w2)))"

text \<open>The call of a handler.  \<open>finally\<close> calls its function without arguments.\<close>

fun finally_call :: "('v, 'o, 'f) app \<Rightarrow> 'f \<Rightarrow> ('v, 'o, 'f) handler \<Rightarrow> ('v, 'o, 'f) world \<Rightarrow> (('v, 'o) pval + ('v, 'o) pval) \<times> ('v, 'o, 'f) world" where
  "finally_call e f h w =
     (case run e (code e f Undefined) w of
        (Inl err, w1) \<Rightarrow> (Inl err, w1)
      | (Inr v, w1) \<Rightarrow> (let (p, w2) = promiseResolve e v w1; (q, w3) = promise_then p (Some h) None w2 in (Inr (Prom q), w3)))"

fun call_handler :: "('v, 'o, 'f) app \<Rightarrow> ('v, 'o, 'f) handler \<Rightarrow> ('v, 'o) pval \<Rightarrow> ('v, 'o, 'f) world \<Rightarrow> (('v, 'o) pval + ('v, 'o) pval) \<times> ('v, 'o, 'f) world" where
  "call_handler e (User f) v w = run e (code e f v) w"
| "call_handler e (ResolveFn t) v w = (Inr Undefined, resolve e t v w)"
| "call_handler e (RejectFn t) v w = (Inr Undefined, reject t v w)"
| "call_handler e (AllElement k i) v w = (Inr Undefined, all_element e k i v w)"
| "call_handler e (FinallyOk f) v w = finally_call e f (Returner v) w"
| "call_handler e (FinallyFail f) v w = finally_call e f (Thrower v) w"
| "call_handler e (Returner x) v w = (Inr x, w)"
| "call_handler e (Thrower x) v w = (Inl x, w)"

section \<open>The job of \<open>notify\<close>\<close>

text \<open>\<open>then.call(result, resolve, reject)\<close> and the errors it may throw.\<close>

definition call_then :: "('v, 'o, 'f) app \<Rightarrow> ('v, 'o, 'f) thenable \<Rightarrow> target \<Rightarrow> ('v, 'o, 'f) world \<Rightarrow> ('v, 'o, 'f) world" where
  "call_then e th t w =
     (case th of
        PromiseThen q \<Rightarrow> snd (promise_then q (Some (ResolveFn t)) (Some (RejectFn t)) w)
      | OtherThen body \<Rightarrow> (case run e (body t) w of (Inl err, w') \<Rightarrow> reject t err w' | (Inr v, w') \<Rightarrow> w')
      | _ \<Rightarrow> w)"

definition settle_reaction :: "('v, 'o, 'f) app \<Rightarrow> nat \<Rightarrow> ('v, 'o) pval \<Rightarrow> ('v, 'o, 'f) world \<Rightarrow> ('v, 'o, 'f) world" where
  "settle_reaction e q result w =
     (if result = Prom q then reject (OfPromise q) (TypeErr ''Promise-chain cycle'') w
      else case isThenable e result of
             GetterError err \<Rightarrow> reject (OfPromise q) err w
           | NoThen \<Rightarrow> resolve e (OfPromise q) result w
           | th \<Rightarrow> call_then e th (OfPromise q) w)"

text \<open>\<open>if (!ok) { if (promise._h == 2) onHandleUnhandled(promise); promise._h = 1 }\<close>\<close>

definition mark_handled :: "nat \<Rightarrow> bool \<Rightarrow> ('v, 'o, 'f) world \<Rightarrow> ('v, 'o, 'f) world" where
  "mark_handled p isOk w =
     (if isOk then w
      else upd p (\<lambda>r. r\<lparr>p_h := 1\<rparr>) (if p_h (promise w p) = 2 then task (HandledTask p) w else w))"

definition run_reaction :: "('v, 'o, 'f) app \<Rightarrow> nat \<Rightarrow> ('v, 'o) pval \<Rightarrow> bool \<Rightarrow> ('v, 'o, 'f) reaction \<Rightarrow> ('v, 'o, 'f) world \<Rightarrow> ('v, 'o, 'f) world" where
  "run_reaction e p value isOk r w =
     (let q = rpromise r in
      if isOk \<and> ok r = None then settle_reaction e q value w
      else case (if isOk then ok r else fail r) of
             None \<Rightarrow> reject (OfPromise q) value w
           | Some h \<Rightarrow>
               (case call_handler e h value (mark_handled p isOk w) of
                  (Inl err, w') \<Rightarrow> reject (OfPromise q) err w'
                | (Inr result, w') \<Rightarrow> settle_reaction e q result w'))"

definition isUnhandled :: "('v, 'o, 'f) promise \<Rightarrow> bool" where
  "isUnhandled r \<longleftrightarrow> p_h r \<noteq> 1 \<and> (case p_a r of None \<Rightarrow> p_c r | Some a \<Rightarrow> a) = []"

text \<open>One round of the loop, and what follows it.\<close>

definition loop_round :: "('v, 'o, 'f) app \<Rightarrow> ('v, 'o) loop \<Rightarrow> ('v, 'o, 'f) world \<Rightarrow> ('v, 'o, 'f) world" where
  "loop_round e l w =
     (let p = l_promise l; r = p_c (promise w p) ! l_i l;
          w1 = w\<lparr>running := Some (l\<lparr>l_i := l_i l + 1\<rparr>), ran := ran w @ [(p, rpromise r)]\<rparr>
      in run_reaction e p (l_value l) (l_ok l) r w1)"

definition loop_end :: "('v, 'o) loop \<Rightarrow> ('v, 'o, 'f) world \<Rightarrow> ('v, 'o, 'f) world" where
  "loop_end l w =
     (let p = l_promise l; w1 = upd p (\<lambda>r. r\<lparr>p_c := [], p_n := False\<rparr>) (w\<lparr>running := None\<rparr>)
      in if l_isReject l \<and> p_h (promise w p) = 0 then task (UnhandledTask p) w1 else w1)"

fun start_job :: "('v, 'o, 'f) app \<Rightarrow> ('v, 'o) job \<Rightarrow> ('v, 'o, 'f) world \<Rightarrow> ('v, 'o, 'f) world" where
  "start_job e (NotifyJob p isReject) w =
     w\<lparr>running := Some \<lparr>l_promise = p, l_isReject = isReject, l_value = p_v (promise w p), l_ok = (p_s (promise w p) = Fulfilled), l_i = 0\<rparr>\<rparr>"
| "start_job e (ThenJob p value) w =
     (let k = wrappers w;
          w1 = w\<lparr>wrapper := (wrapper w)(k := \<lparr>w_w = p, w_d = False\<rparr>), wrappers := k + 1\<rparr>
      in call_then e (isThenable e value) (OfWrapper k) w1)"

text \<open>\<open>onUnhandled\<close> and \<open>onHandleUnhandled\<close> in a browser; an error of the handler is caught or reported by the host.\<close>

fun run_task :: "('v, 'o, 'f) app \<Rightarrow> ptask \<Rightarrow> ('v, 'o, 'f) world \<Rightarrow> ('v, 'o, 'f) world" where
  "run_task e (UnhandledTask p) w =
     (let w1 = (if isUnhandled (promise w p)
                then let w' = snd (run e (onunhandledrejection e p) (w\<lparr>reports := reports w @ [UnhandledRejection p]\<rparr>))
                     in upd p (\<lambda>r. r\<lparr>p_h := (if isUnhandled r then 2 else 1)\<rparr>) w'
                else w)
      in upd p (\<lambda>r. r\<lparr>p_a := None\<rparr>) w1)"
| "run_task e (HandledTask p) w = snd (run e (onrejectionhandled e p) (w\<lparr>reports := reports w @ [RejectionHandled p]\<rparr>))"

section \<open>Steps\<close>

text \<open>
  A round of the loop in progress comes first.  Otherwise the next job, a task, or code that the host starts may run: where
  \<open>microtask\<close> has to fall back on tasks of the host, other events come before the jobs that are waiting.
\<close>

inductive step :: "('v, 'o, 'f) app \<Rightarrow> ('v, 'o, 'f) world \<Rightarrow> ('v, 'o, 'f) world \<Rightarrow> bool" for e where
  round: "running w = Some l \<Longrightarrow> l_i l < length (p_c (promise w (l_promise l))) \<Longrightarrow> step e w (loop_round e l w)"
| round_end: "running w = Some l \<Longrightarrow> length (p_c (promise w (l_promise l))) \<le> l_i l \<Longrightarrow> step e w (loop_end l w)"
| job: "running w = None \<Longrightarrow> microtasks w = j # rest \<Longrightarrow> step e w (start_job e j (w\<lparr>microtasks := rest\<rparr>))"
| task: "running w = None \<Longrightarrow> tasks w = t # ts \<Longrightarrow> step e w (run_task e t (w\<lparr>tasks := ts\<rparr>))"
| user: "running w = None \<Longrightarrow> step e w (snd (run e pr w))"

inductive reachable :: "('v, 'o, 'f) app \<Rightarrow> ('v, 'o, 'f) world \<Rightarrow> bool" for e where
  start: "reachable e empty_world"
| more: "reachable e w \<Longrightarrow> step e w w' \<Longrightarrow> reachable e w'"

text \<open>The jobs alone, as \<open>flush\<close> runs them: one step, or none when no job is left, and \<open>n\<close> steps.\<close>

definition job_step :: "('v, 'o, 'f) app \<Rightarrow> ('v, 'o, 'f) world \<Rightarrow> ('v, 'o, 'f) world" where
  "job_step e w =
     (case running w of
        Some l \<Rightarrow> if l_i l < length (p_c (promise w (l_promise l))) then loop_round e l w else loop_end l w
      | None \<Rightarrow> (case microtasks w of [] \<Rightarrow> w | j # rest \<Rightarrow> start_job e j (w\<lparr>microtasks := rest\<rparr>)))"

primrec flush :: "('v, 'o, 'f) app \<Rightarrow> nat \<Rightarrow> ('v, 'o, 'f) world \<Rightarrow> ('v, 'o, 'f) world" where
  "flush e 0 w = w"
| "flush e (Suc n) w = flush e n (job_step e w)"

end
