(* ===== verification/Promise_Laws.thy ===== *)
theory Promise_Laws
  imports Promise
begin

text \<open>
  Invariants of the promises in every state that the application and the queue of jobs can reach: a promise
  is settled once, and the reactions attached to it are run once each, in the order they were attached.
\<close>

section \<open>The invariant\<close>

text \<open>How many jobs will run, or are running, the reactions of a promise, and how many functions or jobs may still settle it.\<close>

fun notifies :: "nat \<Rightarrow> ('v, 'o) job \<Rightarrow> bool" where
  "notifies p (NotifyJob q b) = (q = p)"
| "notifies p (ThenJob q v) = False"

fun adopts :: "nat \<Rightarrow> ('v, 'o) job \<Rightarrow> bool" where
  "adopts p (ThenJob q v) = (q = p)"
| "adopts p (NotifyJob q b) = False"

definition at_work :: "nat \<Rightarrow> ('v, 'o) loop option \<Rightarrow> nat" where
  "at_work p l = (case l of None \<Rightarrow> 0 | Some x \<Rightarrow> of_bool (l_promise x = p))"

definition notifiers :: "('v, 'o, 'f) world \<Rightarrow> nat \<Rightarrow> nat" where
  "notifiers w p = length (filter (notifies p) (microtasks w)) + at_work p (running w)"

definition open_wrappers :: "('v, 'o, 'f) world \<Rightarrow> nat \<Rightarrow> nat set" where
  "open_wrappers w p = {k. k < wrappers w \<and> \<not> w_d (wrapper w k) \<and> w_w (wrapper w k) = p}"

definition owners :: "('v, 'o, 'f) world \<Rightarrow> nat \<Rightarrow> nat" where
  "owners w p = card (open_wrappers w p) + length (filter (adopts p) (microtasks w))"

lemma finite_open [simp]: "finite (open_wrappers w p)"
  by (rule finite_subset [of _ "{..<wrappers w}"]) (auto simp: open_wrappers_def)

text \<open>The reactions in \<open>_c\<close> that have not been run.\<close>

definition unrun :: "('v, 'o, 'f) world \<Rightarrow> nat \<Rightarrow> ('v, 'o, 'f) reaction list" where
  "unrun w p = drop (case running w of Some l \<Rightarrow> if l_promise l = p then l_i l else 0 | None \<Rightarrow> 0) (p_c (promise w p))"

definition of_promise :: "nat \<Rightarrow> (nat \<times> nat) list \<Rightarrow> nat list" where
  "of_promise p xs = map snd (filter (\<lambda>(q, r). q = p) xs)"

definition promise_ok :: "('v, 'o, 'f) world \<Rightarrow> nat \<Rightarrow> bool" where
  "promise_ok w p \<longleftrightarrow>
     (let r = promise w p in
      notifiers w p = of_bool (p_n r) \<and> owners w p \<le> 1 \<and>
      (p_n r \<longrightarrow> p_s r \<noteq> Pending) \<and> (p_s r \<noteq> Pending \<longrightarrow> p_d r \<and> owners w p = 0) \<and> (\<not> p_d r \<longrightarrow> owners w p = 0) \<and>
      (p_s r \<noteq> Pending \<and> p_c r \<noteq> [] \<longrightarrow> p_n r) \<and>
      of_promise p (registered w) = of_promise p (ran w) @ map rpromise (unrun w p) \<and>
      (promises w \<le> p \<longrightarrow> p_c r = [] \<and> p_s r = Pending \<and> \<not> p_d r \<and> owners w p = 0))"

definition loop_ok :: "('v, 'o, 'f) world \<Rightarrow> bool" where
  "loop_ok w \<longleftrightarrow> (case running w of None \<Rightarrow> True | Some l \<Rightarrow> l_i l \<le> length (p_c (promise w (l_promise l))))"

definition world_ok :: "('v, 'o, 'f) world \<Rightarrow> bool" where
  "world_ok w \<longleftrightarrow> loop_ok w \<and> (\<forall>p. promise_ok w p)"

text \<open>Settled promises stay as they are, and the loop is not touched.\<close>

definition keeps :: "('v, 'o, 'f) world \<Rightarrow> ('v, 'o, 'f) world \<Rightarrow> bool" where
  "keeps w w' \<longleftrightarrow> promises w \<le> promises w' \<and>
     (\<forall>p. p_s (promise w p) \<noteq> Pending \<longrightarrow> p_s (promise w' p) = p_s (promise w p) \<and> p_v (promise w' p) = p_v (promise w p))"

definition good :: "('v, 'o, 'f) world \<Rightarrow> ('v, 'o, 'f) world \<Rightarrow> bool" where
  "good w w' \<longleftrightarrow> (world_ok w \<longrightarrow> world_ok w' \<and> keeps w w' \<and> running w' = running w)"

lemma good_refl [simp]: "good w w"
  by (simp add: good_def keeps_def)

lemma good_trans: "good w w' \<Longrightarrow> good w' w'' \<Longrightarrow> good w w''"
  by (auto simp: good_def keeps_def)

lemma keeps_trans: "keeps w w' \<Longrightarrow> keeps w' w'' \<Longrightarrow> keeps w w''"
  by (auto simp: keeps_def)

lemma world_ok_empty: "world_ok empty_world"
  by (simp add: world_ok_def promise_ok_def loop_ok_def empty_world_def notifiers_def at_work_def owners_def open_wrappers_def
      of_promise_def unrun_def Internal_def Let_def)

text \<open>Fields that the invariant does not mention.\<close>

lemma good_frame:
  assumes "\<And>p. p_c (promise w' p) = p_c (promise w p) \<and> p_s (promise w' p) = p_s (promise w p) \<and> p_d (promise w' p) = p_d (promise w p) \<and>
      p_v (promise w' p) = p_v (promise w p) \<and> p_n (promise w' p) = p_n (promise w p)"
    and "promises w' = promises w" "wrapper w' = wrapper w" "wrappers w' = wrappers w" "microtasks w' = microtasks w"
      "running w' = running w" "registered w' = registered w" "ran w' = ran w"
  shows "good w w'"
  using assms
  by (auto simp: good_def world_ok_def loop_ok_def promise_ok_def keeps_def notifiers_def owners_def open_wrappers_def unrun_def Let_def
      split: option.splits)

section \<open>Settling\<close>

text \<open>A pending promise that its resolving functions have given up and that nothing else will settle.\<close>

definition claimed :: "('v, 'o, 'f) world \<Rightarrow> nat \<Rightarrow> bool" where
  "claimed w p \<longleftrightarrow> world_ok w \<and> p < promises w \<and> p_s (promise w p) = Pending \<and> p_d (promise w p) \<and> owners w p = 0"

lemma world_okD: "world_ok w \<Longrightarrow> promise_ok w p"
  by (simp add: world_ok_def)

lemma upd_simps [simp]:
  "promises (upd p f w) = promises w" "wrapper (upd p f w) = wrapper w" "wrappers (upd p f w) = wrappers w"
  "microtasks (upd p f w) = microtasks w" "running (upd p f w) = running w" "registered (upd p f w) = registered w"
  "ran (upd p f w) = ran w" "promise (upd p f w) q = (if q = p then f (promise w p) else promise w q)"
  "notifiers (upd p f w) q = notifiers w q" "owners (upd p f w) q = owners w q" "open_wrappers (upd p f w) q = open_wrappers w q"
  by (simp_all add: upd_def notifiers_def owners_def open_wrappers_def)

lemma set_done_promise:
  assumes "world_ok w" "\<not> is_done (OfPromise p) w"
  shows "claimed (set_done (OfPromise p) w) p" "keeps w (set_done (OfPromise p) w)" "running (set_done (OfPromise p) w) = running w"
proof -
  have p: "p < promises w" "\<not> p_d (promise w p)" using assms(2) by auto
  have "p_s (promise w p) = Pending" "owners w p = 0"
    using world_okD [OF assms(1), of p] p by (auto simp: promise_ok_def Let_def)
  moreover have "world_ok (set_done (OfPromise p) w)"
    using assms(1) p calculation by (auto simp: world_ok_def loop_ok_def promise_ok_def Let_def unrun_def split: option.splits)
  ultimately show "claimed (set_done (OfPromise p) w) p" using p by (simp add: claimed_def)
qed (auto simp: keeps_def)

lemma wrapper_simps [simp]:
  "promise (w\<lparr>wrapper := f\<rparr>) = promise w" "notifiers (w\<lparr>wrapper := f\<rparr>) p = notifiers w p" "unrun (w\<lparr>wrapper := f\<rparr>) p = unrun w p"
  by (simp_all add: notifiers_def unrun_def)

lemma owners_close:
  assumes "k \<in> open_wrappers w p"
  shows "owners w q = owners (set_done (OfWrapper k) w) q + of_bool (q = p)"
proof -
  have "open_wrappers w q = (if q = p then insert k (open_wrappers (set_done (OfWrapper k) w) q) else open_wrappers (set_done (OfWrapper k) w) q)"
    using assms by (auto simp: open_wrappers_def)
  moreover have "k \<notin> open_wrappers (set_done (OfWrapper k) w) q" by (simp add: open_wrappers_def)
  ultimately show ?thesis by (auto simp: owners_def)
qed

lemma set_done_wrapper:
  assumes "world_ok w" "\<not> is_done (OfWrapper k) w"
  shows "claimed (set_done (OfWrapper k) w) (w_w (wrapper w k))" "keeps w (set_done (OfWrapper k) w)"
    "running (set_done (OfWrapper k) w) = running w"
proof -
  let ?p = "w_w (wrapper w k)" and ?w = "set_done (OfWrapper k) w"
  have "k \<in> open_wrappers w ?p" using assms(2) by (auto simp: open_wrappers_def)
  note own = owners_close [OF this]
  have ok: "promise_ok w p" for p using world_okD [OF assms(1)] .
  have o: "owners w ?p = 1" using ok [of ?p] own [of ?p] by (auto simp: promise_ok_def Let_def)
  then have p: "?p < promises w" "p_s (promise w ?p) = Pending" "p_d (promise w ?p)" "owners ?w ?p = 0"
    using ok [of ?p] own [of ?p] by (auto simp: promise_ok_def Let_def not_le [symmetric])
  have "promise_ok ?w q" for q
    using ok [of q] own [of q] p by (cases "q = ?p") (auto simp: promise_ok_def Let_def)
  then have "world_ok ?w" using assms(1) by (auto simp: world_ok_def loop_ok_def split: option.splits)
  then show "claimed ?w ?p" using p by (simp add: claimed_def)
qed (auto simp: keeps_def)

lemma set_done_claims:
  assumes "world_ok w" "\<not> is_done t w"
  shows "claimed (set_done t w) (promise_of t w)" "keeps w (set_done t w)" "running (set_done t w) = running w"
  using assms set_done_promise set_done_wrapper by (cases t; fastforce)+

lemma microtask_simps [simp]:
  "promise (microtask j w) = promise w" "promises (microtask j w) = promises w" "wrapper (microtask j w) = wrapper w"
  "wrappers (microtask j w) = wrappers w" "running (microtask j w) = running w" "registered (microtask j w) = registered w"
  "ran (microtask j w) = ran w" "open_wrappers (microtask j w) p = open_wrappers w p" "unrun (microtask j w) p = unrun w p"
  "notifiers (microtask j w) p = notifiers w p + of_bool (notifies p j)" "owners (microtask j w) p = owners w p + of_bool (adopts p j)"
  by (simp_all add: microtask_def notifiers_def owners_def open_wrappers_def unrun_def)

text \<open>Writing value and state and notifying, as \<open>$resolve\<close> and \<open>$reject\<close> end.\<close>

lemma settle_good:
  assumes "claimed w p" "\<And>r. p_c (f r) = p_c r \<and> p_d (f r) = p_d r \<and> p_n (f r) = p_n r \<and> p_s (f r) \<noteq> Pending"
  shows "world_ok (notify p b (upd p f w))" "keeps w (notify p b (upd p f w))" "running (notify p b (upd p f w)) = running w"
proof -
  have c: "world_ok w" "p < promises w" "p_s (promise w p) = Pending" "p_d (promise w p)" "owners w p = 0"
    using assms(1) by (auto simp: claimed_def)
  have n: "\<not> p_n (promise w p)" using world_okD [OF c(1), of p] c(3) by (auto simp: promise_ok_def Let_def)
  let ?w = "notify p b (upd p f w)"
  have "promise_ok ?w q" for q
    using world_okD [OF c(1), of q] c(2-5) n assms(2)
    by (auto simp: notify_def promise_ok_def Let_def unrun_def)
  then show "world_ok ?w" using c(1) n assms(2) by (auto simp: world_ok_def loop_ok_def notify_def split: option.splits)
  show "keeps w ?w" "running ?w = running w" using c(3) n assms(2) by (auto simp: keeps_def notify_def)
qed

lemma good_reject_promise: "claimed w p \<Longrightarrow> world_ok (reject_promise p v w) \<and> keeps w (reject_promise p v w) \<and> running (reject_promise p v w) = running w"
  unfolding reject_promise_def by (intro conjI settle_good) simp_all

lemma good_fulfil_promise: "claimed w p \<Longrightarrow> world_ok (fulfil_promise p v w) \<and> keeps w (fulfil_promise p v w) \<and> running (fulfil_promise p v w) = running w"
  unfolding fulfil_promise_def by (intro conjI settle_good) simp_all

lemma good_adopt:
  assumes "claimed w p"
  shows "world_ok (microtask (ThenJob p v) w) \<and> keeps w (microtask (ThenJob p v) w) \<and> running (microtask (ThenJob p v) w) = running w"
proof -
  have "promise_ok (microtask (ThenJob p v) w) q" for q
    using assms world_okD [of w q] by (auto simp: claimed_def promise_ok_def Let_def)
  then show ?thesis using assms by (auto simp: claimed_def world_ok_def loop_ok_def keeps_def split: option.splits)
qed

lemma good_after_done:
  assumes "\<And>w. claimed w (promise_of t w0) \<Longrightarrow> world_ok (f w) \<and> keeps w (f w) \<and> running (f w) = running w"
  shows "\<not> is_done t w0 \<Longrightarrow> good w0 (f (set_done t w0))"
  using assms [of "set_done t w0"] set_done_claims [of w0 t] by (auto simp: good_def keeps_def)

lemma good_reject: "good w (reject t v w)"
proof (cases "is_done t w")
  case False
  show ?thesis using good_after_done [OF good_reject_promise False] False by (simp add: reject_def)
qed (simp add: reject_def)

lemma good_resolve: "good w (resolve e t v w)"
proof (cases "is_done t w")
  case False
  show ?thesis
    using good_after_done [OF good_reject_promise False] good_after_done [OF good_fulfil_promise False]
      good_after_done [OF good_adopt False] False
    by (auto simp: resolve_def Let_def split: thenable.splits)
qed (simp add: resolve_def)

section \<open>Operations\<close>

lemma good_new_promise: "good w (snd (new_promise w))"
proof (unfold good_def, intro impI)
  assume ok: "world_ok w"
  then have new: "p_c (promise w (promises w)) = []" "p_s (promise w (promises w)) = Pending" "\<not> p_d (promise w (promises w))"
    "\<not> p_n (promise w (promises w))"
    by (auto simp: world_ok_def promise_ok_def Let_def)
  have "promise_ok (snd (new_promise w)) p" for p
    using world_okD [OF ok, of p] new
    by (auto simp: promise_ok_def new_promise_def Let_def notifiers_def owners_def open_wrappers_def unrun_def Internal_def)
  then show "world_ok (snd (new_promise w)) \<and> keeps w (snd (new_promise w)) \<and> running (snd (new_promise w)) = running w"
    using ok new by (auto simp: world_ok_def loop_ok_def keeps_def new_promise_def split: option.splits)
qed

lemma of_promise_snoc [simp]: "of_promise p (xs @ [(q, r)]) = of_promise p xs @ (if q = p then [r] else [])"
  by (simp add: of_promise_def)

text \<open>Attaching a reaction, before the promise is notified.\<close>

definition attach :: "nat \<Rightarrow> ('v, 'o, 'f) reaction \<Rightarrow> ('v, 'o, 'f) world \<Rightarrow> ('v, 'o, 'f) world" where
  "attach p r w = (upd p (\<lambda>x. x\<lparr>p_c := p_c x @ [r], p_a := map_option (\<lambda>a. a @ [r]) (p_a x)\<rparr>) w)\<lparr>registered := registered w @ [(p, rpromise r)]\<rparr>"

lemma attach_simps [simp]:
  "promises (attach p r w) = promises w" "running (attach p r w) = running w" "ran (attach p r w) = ran w"
  "registered (attach p r w) = registered w @ [(p, rpromise r)]"
  "notifiers (attach p r w) q = notifiers w q" "owners (attach p r w) q = owners w q"
  "promise (attach p r w) q = (if q = p then (promise w p)\<lparr>p_c := p_c (promise w p) @ [r], p_a := map_option (\<lambda>a. a @ [r]) (p_a (promise w p))\<rparr> else promise w q)"
  by (simp_all add: attach_def notifiers_def owners_def open_wrappers_def)

lemma unrun_attach:
  assumes "loop_ok w"
  shows "unrun (attach p r w) q = unrun w q @ (if q = p then [r] else [])"
  using assms by (auto simp: unrun_def loop_ok_def split: option.splits)

lemma good_attach:
  assumes "p < promises w"
  shows "good w (if p_s (promise (attach p r w) p) \<noteq> Pending then notify p False (attach p r w) else attach p r w)" (is "good w ?w")
proof (unfold good_def, intro impI)
  assume ok: "world_ok w"
  then have l: "loop_ok w" by (simp add: world_ok_def)
  have u: "unrun ?w q = unrun (attach p r w) q" for q
    by (auto simp: notify_def unrun_def)
  have "promise_ok ?w q" for q
    using world_okD [OF ok, of q] assms unrun_attach [OF l, of p r q] u [of q]
    by (cases "q = p") (auto simp: promise_ok_def Let_def notify_def)
  then show "world_ok ?w \<and> keeps w ?w \<and> running ?w = running w"
    using l by (auto simp: world_ok_def loop_ok_def keeps_def notify_def split: option.splits)
qed

lemma promise_then_attach:
  "p < promises w \<Longrightarrow> snd (promise_then p f g w) =
     (let w' = attach p \<lparr>ok = f, fail = g, rpromise = promises w\<rparr> (snd (new_promise w))
      in if p_s (promise w' p) \<noteq> Pending then notify p False w' else w')"
  by (simp add: promise_then_def new_promise_def attach_def Let_def)

lemma good_then: "good w (snd (promise_then p f g w))"
proof (cases "promises w \<le> p")
  case False
  let ?w = "snd (new_promise w)" and ?r = "\<lparr>ok = f, fail = g, rpromise = promises w\<rparr>"
  have "p < promises ?w" using False by (simp add: new_promise_def)
  from good_attach [OF this, of ?r] have "good ?w (snd (promise_then p f g w))"
    using False by (simp only: promise_then_attach not_le Let_def)
  with good_new_promise show ?thesis by (rule good_trans)
qed (simp add: promise_then_def)

lemma good_promiseResolve: "good w (snd (promiseResolve e x w))"
  using good_trans [OF good_new_promise good_resolve, of w e "OfPromise (promises w)" x]
  by (cases x) (simp_all add: promiseResolve_def new_promise_def)

lemma good_promise_reject: "good w (snd (promise_reject x w))"
  using good_trans [OF good_new_promise good_reject, of w "OfPromise (promises w)" x]
  by (simp add: promise_reject_def new_promise_def)

lemma good_set_all: "good w (set_all k a w)"
  by (rule good_frame) (simp_all add: set_all_def)

lemma good_all_count: "good w (all_count e k w)"
  using good_trans [OF good_set_all good_resolve] good_set_all by (auto simp: all_count_def Let_def)

lemma good_all_element: "good w (all_element e k i v w)"
  using good_trans [OF good_set_all good_all_count] by (auto simp: all_element_def Let_def)

lemma good_all_loop: "good w (all_loop e k xs w)"
proof (induction xs arbitrary: w)
  case (Cons x xs)
  have "\<exists>w'. good w w' \<and> all_loop e k (x # xs) w = all_loop e k xs w'"
    by (simp add: Let_def split_beta) (blast intro: good_trans [OF good_trans [OF good_set_all good_promiseResolve] good_then])
  then show ?case using Cons good_trans by metis
qed simp

lemma good_race_loop: "good w (race_loop e c xs w)"
proof (induction xs arbitrary: w)
  case (Cons x xs)
  have "\<exists>w'. good w w' \<and> race_loop e c (x # xs) w = race_loop e c xs w'"
    by (simp add: split_beta) (blast intro: good_trans [OF good_promiseResolve good_then])
  then show ?case using Cons good_trans by metis
qed simp

lemma good_promise_all: "good w (snd (promise_all e xs w))"
proof -
  let ?w = "snd (new_promise w)"
  have "good ?w (?w\<lparr>alls := as\<rparr>)" for as by (rule good_frame) simp_all
  from good_trans [OF good_trans [OF good_new_promise this] good_trans [OF good_all_loop good_all_count]]
  show ?thesis by (simp add: promise_all_def new_promise_def Let_def)
qed

lemma good_promise_race: "good w (snd (promise_race e xs w))"
  using good_trans [OF good_new_promise good_race_loop, of w e "promises w" xs] by (simp add: promise_race_def new_promise_def)

lemmas good_rules = good_resolve good_reject good_then good_promiseResolve good_promise_reject good_promise_all good_promise_race

lemma good_act: "good w (snd (act e a w))"
  by (cases a) (simp_all add: good_rules promise_finally_def)

lemma good_run: "good w (snd (run e pr w))"
proof (induction pr arbitrary: w)
  case (Do a k)
  have "good (snd (act e a w)) (snd (run e (k (fst (act e a w))) (snd (act e a w))))" by (rule Do [OF rangeI])
  from good_trans [OF good_act this] show ?case by (simp add: split_beta)
next
  case (NewPromise ex k)
  let ?w1 = "snd (new_promise w)" and ?p = "fst (new_promise w)"
  let ?w2 = "snd (run e (ex ?p) ?w1)" and ?r = "fst (run e (ex ?p) ?w1)"
  let ?w3 = "case ?r of Inl err \<Rightarrow> reject (OfPromise ?p) err ?w2 | Inr v \<Rightarrow> ?w2"
  have "good w ?w2" using good_trans [OF good_new_promise NewPromise(1) [OF rangeI]] .
  moreover have "good ?w2 ?w3" using good_reject by (cases ?r) simp_all
  ultimately have "good w ?w3" by (rule good_trans)
  moreover have "good ?w3 (snd (run e (k ?p) ?w3))" by (rule NewPromise(2) [OF rangeI])
  ultimately have "good w (snd (run e (k ?p) ?w3))" by (rule good_trans)
  then show ?case by (simp add: split_beta)
qed simp_all

lemma good_finally_call: "good w (snd (finally_call e f h w))"
proof (cases "run e (code e f Undefined) w")
  case (Pair r w1)
  then have w1: "good w w1" using good_run [of w e "code e f Undefined"] by simp
  show ?thesis
  proof (cases r)
    case (Inr v)
    have "good w1 (snd (promise_then (fst (promiseResolve e v w1)) (Some h) None (snd (promiseResolve e v w1))))"
      by (rule good_trans [OF good_promiseResolve good_then])
    with w1 show ?thesis using Pair Inr by (auto simp: split_beta intro: good_trans)
  qed (use Pair w1 in simp)
qed

lemma good_call_handler: "good w (snd (call_handler e h v w))"
  by (cases h) (simp_all add: good_rules good_run good_all_element good_finally_call del: finally_call.simps)

lemma good_call_then: "good w (call_then e th t w)"
proof (cases th)
  case (OtherThen body)
  obtain r w1 where r: "run e (body t) w = (r, w1)" by fastforce
  then have "good w w1" using good_run [of w e "body t"] by simp
  then show ?thesis using OtherThen r good_reject [of w1 t] by (cases r) (auto simp: call_then_def intro: good_trans)
qed (simp_all add: call_then_def good_then)

lemma good_settle_reaction: "good w (settle_reaction e q v w)"
  by (auto simp: settle_reaction_def good_rules good_call_then split: thenable.splits)

text \<open>Handlers, reports and tasks do not concern the invariant.\<close>

lemma good_upd:
  assumes "\<And>r. p_c (f r) = p_c r \<and> p_s (f r) = p_s r \<and> p_d (f r) = p_d r \<and> p_v (f r) = p_v r \<and> p_n (f r) = p_n r"
  shows "good w (upd p f w)"
  by (rule good_frame) (use assms in auto)

lemma good_tasks: "good w (w\<lparr>tasks := ts\<rparr>)" "good w (w\<lparr>reports := rs\<rparr>)"
  by (rule good_frame; simp)+

lemma good_mark_handled:
  fixes w :: "('v, 'o, 'f) world"
  shows "good w (mark_handled p b w)"
proof -
  have h: "good w (upd p (\<lambda>r. r\<lparr>p_h := 1\<rparr>) w)" for w :: "('v, 'o, 'f) world" by (rule good_upd) simp
  show ?thesis using h good_trans [OF good_tasks(1) h] by (simp add: mark_handled_def task_def)
qed

lemma good_run_reaction: "good w (run_reaction e p v isOk r w)"
proof -
  have "good w (case call_handler e h v (mark_handled p isOk w) of
      (Inl err, w') \<Rightarrow> reject (OfPromise (rpromise r)) err w' | (Inr result, w') \<Rightarrow> settle_reaction e (rpromise r) result w')" for h
  proof -
    obtain x w1 where x: "call_handler e h v (mark_handled p isOk w) = (x, w1)" by fastforce
    have "good (mark_handled p isOk w) w1" using good_call_handler [of "mark_handled p isOk w" e h v] x by simp
    with good_mark_handled have "good w w1" by (rule good_trans)
    then show ?thesis using x good_reject [of w1] good_settle_reaction [of w1] by (cases x) (auto intro: good_trans)
  qed
  then show ?thesis by (auto simp: run_reaction_def Let_def good_settle_reaction good_reject split: option.splits)
qed

section \<open>Steps\<close>

lemma notified_exists:
  assumes "world_ok w" "notifiers w p \<noteq> 0"
  shows "p < promises w" "p_n (promise w p)" "p_s (promise w p) \<noteq> Pending"
proof -
  have "p_n (promise w p)" "p_s (promise w p) \<noteq> Pending"
    using world_okD [OF assms(1), of p] assms(2) by (auto simp: promise_ok_def Let_def)
  moreover have "\<not> promises w \<le> p"
    using world_okD [OF assms(1), of p] calculation(1) by (auto simp: promise_ok_def Let_def)
  ultimately show "p < promises w" "p_n (promise w p)" "p_s (promise w p) \<noteq> Pending" by auto
qed

lemma running_exists:
  assumes "world_ok w" "running w = Some l"
  shows "notifiers w (l_promise l) \<noteq> 0"
  using assms(2) by (simp add: notifiers_def at_work_def)

lemma ok_round:
  assumes "world_ok w" "running w = Some l" "l_i l < length (p_c (promise w (l_promise l)))"
  shows "world_ok (loop_round e l w) \<and> keeps w (loop_round e l w)"
proof -
  let ?p = "l_promise l"
  let ?w = "w\<lparr>running := Some (l\<lparr>l_i := l_i l + 1\<rparr>), ran := ran w @ [(?p, rpromise (p_c (promise w ?p) ! l_i l))]\<rparr>"
  have u: "unrun w ?p = p_c (promise w ?p) ! l_i l # unrun ?w ?p"
    using assms(2,3) by (simp add: unrun_def Cons_nth_drop_Suc)
  have v: "q \<noteq> ?p \<Longrightarrow> unrun ?w q = unrun w q" for q using assms(2) by (simp add: unrun_def)
  have "promise_ok ?w q" for q
    using world_okD [OF assms(1), of q] u v [of q] assms(2)
    by (cases "q = ?p") (auto simp: promise_ok_def Let_def notifiers_def owners_def open_wrappers_def at_work_def)
  then have ok: "world_ok ?w" using assms by (simp add: world_ok_def loop_ok_def)
  have "good ?w (loop_round e l w)" by (simp add: loop_round_def Let_def good_run_reaction)
  with ok have "world_ok (loop_round e l w) \<and> keeps ?w (loop_round e l w)"
    by (simp add: good_def)
  then show ?thesis by (simp add: keeps_def)
qed

lemma ok_round_end:
  assumes "world_ok w" "running w = Some l" "length (p_c (promise w (l_promise l))) \<le> l_i l"
  shows "world_ok (loop_end l w) \<and> keeps w (loop_end l w)"
proof -
  let ?p = "l_promise l"
  let ?w = "upd ?p (\<lambda>r. r\<lparr>p_c := [], p_n := False\<rparr>) (w\<lparr>running := None\<rparr>)"
  have n: "p_n (promise w ?p)" "?p < promises w" using notified_exists running_exists assms(1,2) by blast+
  have "promise_ok ?w q" for q
    using world_okD [OF assms(1), of q] n assms(2,3)
    by (cases "q = ?p") (auto simp: promise_ok_def Let_def notifiers_def owners_def open_wrappers_def at_work_def unrun_def)
  then have ok: "world_ok ?w" by (simp add: world_ok_def loop_ok_def)
  have "good ?w (loop_end l w)" by (simp add: loop_end_def Let_def task_def good_tasks)
  moreover have "keeps w ?w" by (auto simp: keeps_def)
  ultimately show ?thesis using ok keeps_trans by (auto simp: good_def)
qed

lemma ok_job_start:
  assumes "world_ok w" "running w = None" "microtasks w = j # rest"
  shows "world_ok (start_job e j (w\<lparr>microtasks := rest\<rparr>)) \<and> keeps w (start_job e j (w\<lparr>microtasks := rest\<rparr>))"
proof (cases j)
  case (NotifyJob p b)
  let ?w = "start_job e j (w\<lparr>microtasks := rest\<rparr>)"
  have "promise_ok ?w q" for q
    using world_okD [OF assms(1), of q] NotifyJob assms(2,3)
    by (auto simp: promise_ok_def Let_def notifiers_def owners_def open_wrappers_def at_work_def unrun_def)
  then show ?thesis using NotifyJob by (simp add: world_ok_def loop_ok_def keeps_def)
next
  case (ThenJob p v)
  let ?w = "w\<lparr>microtasks := rest, wrapper := (wrapper w)(wrappers w := \<lparr>w_w = p, w_d = False\<rparr>), wrappers := wrappers w + 1\<rparr>"
  have "open_wrappers ?w q = open_wrappers w q \<union> (if q = p then {wrappers w} else {})" for q
    by (auto simp: open_wrappers_def less_Suc_eq)
  moreover have "wrappers w \<notin> open_wrappers w q" for q by (simp add: open_wrappers_def)
  ultimately have own: "owners ?w q = owners w q" for q using ThenJob assms(3) by (simp add: owners_def)
  have "promise_ok ?w q" for q
    using world_okD [OF assms(1), of q] own [of q] ThenJob assms(2,3)
    by (simp add: promise_ok_def Let_def notifiers_def unrun_def)
  then have "world_ok ?w" using assms(2) by (simp add: world_ok_def loop_ok_def)
  then show ?thesis using good_call_then [of ?w e "isThenable e v" "OfWrapper (wrappers w)"] ThenJob
    by (simp add: good_def keeps_def Let_def)
qed

lemma good_run_task:
  fixes w :: "('v, 'o, 'f) world"
  shows "good w (run_task e t w)"
proof (cases t)
  case (UnhandledTask p)
  have a: "good w (upd p (\<lambda>r. r\<lparr>p_a := None\<rparr>) w)" for w :: "('v, 'o, 'f) world" by (rule good_upd) simp
  have h: "good w (upd p (\<lambda>r. r\<lparr>p_h := h r\<rparr>) w)" for w :: "('v, 'o, 'f) world" and h by (rule good_upd) simp
  show ?thesis
  proof (cases "isUnhandled (promise w p)")
    case True
    then show ?thesis using UnhandledTask good_trans [OF good_trans [OF good_tasks(2) good_run] good_trans [OF h a]]
      by (simp add: Let_def)
  qed (use UnhandledTask a in simp)
next
  case (HandledTask p)
  then show ?thesis using good_trans [OF good_tasks(2) good_run] by simp
qed

lemma step_ok:
  assumes "step e w w'" "world_ok w"
  shows "world_ok w' \<and> keeps w w'"
  using assms
proof cases
  case (task t ts)
  then show ?thesis using good_trans [OF good_tasks(1) good_run_task, of w e t ts] assms(2) by (simp add: good_def)
next
  case (user pr)
  then show ?thesis using good_run [of w e pr] assms(2) by (simp add: good_def)
qed (use ok_round ok_round_end ok_job_start in blast)+

inductive steps :: "('v, 'o, 'f) app \<Rightarrow> ('v, 'o, 'f) world \<Rightarrow> ('v, 'o, 'f) world \<Rightarrow> bool" for e where
  none: "steps e w w"
| one: "step e w w' \<Longrightarrow> steps e w' w'' \<Longrightarrow> steps e w w''"

lemma steps_ok: "steps e w w' \<Longrightarrow> world_ok w \<Longrightarrow> world_ok w' \<and> keeps w w'"
  by (induction rule: steps.induct) (auto simp: keeps_def dest: step_ok intro: keeps_trans)

lemma reachable_ok: "reachable e w \<Longrightarrow> world_ok w"
  by (induction rule: reachable.induct) (auto simp: world_ok_empty dest: step_ok)

section \<open>Properties\<close>

text \<open>C4: a promise that is fulfilled or rejected stays so, with the same value, whatever the application and the queue of jobs do
  afterwards.\<close>

theorem promise_settles_once:
  assumes "reachable e w" "steps e w w'" "p_s (promise w p) \<noteq> Pending"
  shows "p_s (promise w' p) = p_s (promise w p) \<and> p_v (promise w' p) = p_v (promise w p)"
  using steps_ok [OF assms(2) reachable_ok [OF assms(1)]] assms(3) by (simp add: keeps_def)

text \<open>C24: the reactions of a promise are run in the order in which \<open>then\<close> attached them, each at most once; when no job is left,
  all reactions of a settled promise have been run.\<close>

theorem promise_reactions_in_order:
  assumes "reachable e w"
  shows "\<exists>rest. of_promise p (registered w) = of_promise p (ran w) @ rest \<and>
    (running w = None \<and> microtasks w = [] \<and> p_s (promise w p) \<noteq> Pending \<longrightarrow> rest = [])"
proof -
  have ok: "promise_ok w p" using reachable_ok [OF assms] by (rule world_okD)
  have "unrun w p = []" if "running w = None" "microtasks w = []" "p_s (promise w p) \<noteq> Pending"
  proof -
    have "notifiers w p = 0" using that by (simp add: notifiers_def at_work_def)
    then show ?thesis using ok that by (auto simp: promise_ok_def Let_def unrun_def)
  qed
  then show ?thesis using ok by (auto simp: promise_ok_def Let_def)
qed

end
