(* ===== verification/Promise_Chain.thy ===== *)
theory Promise_Chain
  imports Promise_Laws
begin

text \<open>
  Chains of \<open>then\<close>: the promise at the end is settled, with the value or the error that the functions give
  when they are applied one after the other.
\<close>

section \<open>The specification\<close>

type_synonym ('v, 'o) outcome = "('v, 'o) pval + ('v, 'o) pval"

text \<open>A stage with its two functions: one takes a value, the other an error, and a missing one hands over what comes.\<close>

fun stage :: "('f \<Rightarrow> ('v, 'o) pval \<Rightarrow> ('v, 'o) outcome) \<Rightarrow> ('v, 'o) outcome \<Rightarrow> 'f option \<times> 'f option \<Rightarrow> ('v, 'o) outcome" where
  "stage fn (Inr v) (f, g) = (case f of None \<Rightarrow> Inr v | Some x \<Rightarrow> fn x v)"
| "stage fn (Inl v) (f, g) = (case g of None \<Rightarrow> Inl v | Some x \<Rightarrow> fn x v)"

definition settled :: "('v, 'o, 'f) world \<Rightarrow> nat \<Rightarrow> ('v, 'o) outcome \<Rightarrow> bool" where
  "settled w p out \<longleftrightarrow> (case out of Inr v \<Rightarrow> p_s (promise w p) = Fulfilled \<and> p_v (promise w p) = v
                        | Inl v \<Rightarrow> p_s (promise w p) = Rejected \<and> p_v (promise w p) = v)"

text \<open>Functions without effects on promises that return or throw plain values.\<close>

definition plain :: "('v, 'o, 'f) app \<Rightarrow> ('v, 'o) outcome \<Rightarrow> bool" where
  "plain e out \<longleftrightarrow> (case out of Inl v \<Rightarrow> isThenable e v = NoThen | Inr v \<Rightarrow> isThenable e v = NoThen)"

definition computes :: "('v, 'o, 'f) app \<Rightarrow> ('f \<Rightarrow> ('v, 'o) pval \<Rightarrow> ('v, 'o) outcome) \<Rightarrow> bool" where
  "computes e fn \<longleftrightarrow> (\<forall>f v. code e f v = (case fn f v of Inl x \<Rightarrow> Throw x | Inr x \<Rightarrow> Return x) \<and> plain e (fn f v))"

lemma plain_stage: "computes e fn \<Longrightarrow> plain e out \<Longrightarrow> plain e (stage fn out h)"
  by (cases h; cases out) (auto simp: computes_def split: option.splits)

text \<open>The program \<open>p.then(f1, g1).then(f2, g2) \<dots>\<close>\<close>

fun chain :: "nat \<Rightarrow> ('f option \<times> 'f option) list \<Rightarrow> (nat \<Rightarrow> ('v, 'o, 'f) prog) \<Rightarrow> ('v, 'o, 'f) prog" where
  "chain p [] k = k p"
| "chain p ((f, g) # hs) k = Do (Then p f g) (\<lambda>v. case v of Prom q \<Rightarrow> chain q hs k | _ \<Rightarrow> Return Undefined)"

text \<open>A new promise, a chain on it, and then its resolution or rejection; the program returns the last promise.\<close>

definition chain_program :: "('f option \<times> 'f option) list \<Rightarrow> ('v, 'o) outcome \<Rightarrow> ('v, 'o, 'f) prog" where
  "chain_program hs out =
     NewPromise (\<lambda>p. Return Undefined)
       (\<lambda>p. chain p hs (\<lambda>q. Do (case out of Inr v \<Rightarrow> Resolve (OfPromise p) v | Inl v \<Rightarrow> Reject (OfPromise p) v)
                              (\<lambda>v. Return (Prom q))))"

section \<open>The chain in memory\<close>

fun linked :: "('v, 'o, 'f) world \<Rightarrow> nat \<Rightarrow> ('f option \<times> 'f option) list \<Rightarrow> bool" where
  "linked w p [] \<longleftrightarrow> p < promises w \<and> promise w p = Internal"
| "linked w p ((f, g) # hs) \<longleftrightarrow> p < promises w \<and>
     promise w p = Internal\<lparr>p_c := [\<lparr>ok = map_option User f, fail = map_option User g, rpromise = Suc p\<rparr>]\<rparr> \<and> linked w (Suc p) hs"

lemma linked_frame:
  "linked w p hs \<Longrightarrow> (\<And>q. p \<le> q \<Longrightarrow> promise w' q = promise w q) \<Longrightarrow> promises w' = promises w \<Longrightarrow> linked w' p hs"
  by (induction hs arbitrary: p) (auto simp: split_paired_all)

lemma chain_builds:
  assumes "promises w = Suc p" "promise w p = Internal"
  shows "\<exists>w'. run e (chain p hs k) w = run e (k (p + length hs)) w' \<and> linked w' p hs \<and> promises w' = Suc (p + length hs) \<and>
    (\<forall>q < p. promise w' q = promise w q) \<and> running w' = running w \<and> microtasks w' = microtasks w"
  using assms
proof (induction hs arbitrary: p w)
  case (Cons h hs)
  obtain f g where h: "h = (f, g)" by fastforce
  let ?r = "\<lparr>ok = map_option User f, fail = map_option User g, rpromise = Suc p\<rparr>"
  let ?w = "attach p ?r (snd (new_promise w))"
  have t: "promise_then p (map_option User f) (map_option User g) w = (Suc p, ?w)"
    using Cons.prems by (simp add: promise_then_def new_promise_def attach_def Let_def Internal_def)
  have "promises ?w = Suc (Suc p)" "promise ?w (Suc p) = Internal" using Cons.prems by (simp_all add: new_promise_def)
  from Cons.IH [OF this] obtain w' where w': "run e (chain (Suc p) hs k) ?w = run e (k (Suc p + length hs)) w'"
    "linked w' (Suc p) hs" "promises w' = Suc (Suc p + length hs)" "\<forall>q < Suc p. promise w' q = promise ?w q"
    "running w' = running ?w" "microtasks w' = microtasks ?w" by blast
  have "promise w' p = Internal\<lparr>p_c := [?r]\<rparr>" using w'(4) Cons.prems by (simp add: new_promise_def Internal_def)
  moreover have "microtasks ?w = microtasks w" by (simp add: attach_def new_promise_def)
  moreover have "promise ?w q = promise w q" if "q < p" for q using that Cons.prems by (simp add: new_promise_def)
  ultimately show ?case using w' h t Cons.prems
    by (intro exI [of _ w']) (auto simp: new_promise_def)
qed auto

section \<open>One stage\<close>

text \<open>A settled promise whose job is the only one, with the reactions \<open>c\<close>.\<close>

definition about_to_run :: "('v, 'o, 'f) world \<Rightarrow> nat \<Rightarrow> ('v, 'o) outcome \<Rightarrow> ('v, 'o, 'f) reaction list \<Rightarrow> bool" where
  "about_to_run w p out c \<longleftrightarrow> running w = None \<and> (\<exists>b. microtasks w = [NotifyJob p b]) \<and> p < promises w \<and> settled w p out \<and>
     p_c (promise w p) = c"

text \<open>Settling a fresh promise with reactions.\<close>

definition settle_plain :: "('v, 'o, 'f) app \<Rightarrow> nat \<Rightarrow> ('v, 'o) outcome \<Rightarrow> ('v, 'o, 'f) world \<Rightarrow> ('v, 'o, 'f) world" where
  "settle_plain e q out w = (case out of Inr v \<Rightarrow> resolve e (OfPromise q) v w | Inl v \<Rightarrow> reject (OfPromise q) v w)"

lemma settle_plain_effect:
  assumes "plain e out" "q < promises w" "promise w q = Internal\<lparr>p_c := c\<rparr>"
  shows "microtasks (settle_plain e q out w) = microtasks w @ [NotifyJob q (isl out)]" "running (settle_plain e q out w) = running w"
    "promises (settle_plain e q out w) = promises w" "settled (settle_plain e q out w) q out"
    "p_c (promise (settle_plain e q out w) q) = c" "j \<noteq> q \<Longrightarrow> promise (settle_plain e q out w) j = promise w j"
proof -
  have "v \<noteq> Prom q" if "out = Inr v" for v using assms(1) that by (auto simp: plain_def)
  then show "microtasks (settle_plain e q out w) = microtasks w @ [NotifyJob q (isl out)]" "running (settle_plain e q out w) = running w"
    "promises (settle_plain e q out w) = promises w" "settled (settle_plain e q out w) q out"
    "p_c (promise (settle_plain e q out w) q) = c" "j \<noteq> q \<Longrightarrow> promise (settle_plain e q out w) j = promise w j"
    using assms
    by (cases out; simp add: settle_plain_def plain_def resolve_def fulfil_promise_def reject_def reject_promise_def notify_def
        settled_def Internal_def Let_def microtask_def upd_def)+
qed

text \<open>What a reaction does: the outcome of its stage settles its promise.\<close>

lemma run_reaction_stage:
  assumes "computes e fn" "plain e out" "p \<noteq> q" "out = (if isOk then Inr v else Inl v)"
  shows "run_reaction e p v isOk \<lparr>ok = map_option User f, fail = map_option User g, rpromise = q\<rparr> w =
    settle_plain e q (stage fn out (f, g)) (if \<not> isOk \<and> g \<noteq> None then mark_handled p isOk w else w)"
proof -
  have r: "settle_reaction e q x w' = resolve e (OfPromise q) x w'" if "isThenable e x = NoThen" for x w'
    using that by (auto simp: settle_reaction_def)
  have c: "code e h x = (case fn h x of Inl y \<Rightarrow> Throw y | Inr y \<Rightarrow> Return y)" "plain e (fn h x)" for h x
    using assms(1) by (auto simp: computes_def)
  show ?thesis
    using assms(2,4) c(2) [of "the f" v] c(2) [of "the g" v]
    by (cases isOk; cases f; cases g; cases "fn (the f) v"; cases "fn (the g) v")
      (simp_all add: run_reaction_def settle_plain_def plain_def c(1) r mark_handled_def)
qed

lemma mark_handled_frame:
  "promises (mark_handled p b w) = promises w" "microtasks (mark_handled p b w) = microtasks w" "running (mark_handled p b w) = running w"
  "j \<noteq> p \<Longrightarrow> promise (mark_handled p b w) j = promise w j" "p_c (promise (mark_handled p b w) j) = p_c (promise w j)"
  by (auto simp: mark_handled_def task_def upd_def)

lemma loop_end_effect:
  "running (loop_end l w) = None" "microtasks (loop_end l w) = microtasks w" "promises (loop_end l w) = promises w"
  "j \<noteq> l_promise l \<Longrightarrow> promise (loop_end l w) j = promise w j"
  "p_s (promise (loop_end l w) j) = p_s (promise w j)" "p_v (promise (loop_end l w) j) = p_v (promise w j)"
  by (simp_all add: loop_end_def Let_def task_def)

lemma settled_loop_end: "settled (loop_end l w) j out = settled w j out"
  by (cases out) (simp_all add: settled_def loop_end_effect)

lemma one_stage:
  assumes "computes e fn" "plain e out"
    and "about_to_run w p out [\<lparr>ok = map_option User f, fail = map_option User g, rpromise = Suc p\<rparr>]"
    and "promise w (Suc p) = Internal\<lparr>p_c := c\<rparr>" "Suc p < promises w"
  defines "w' \<equiv> flush e 3 w"
  shows "about_to_run w' (Suc p) (stage fn out (f, g)) c" "promises w' = promises w" "\<forall>j > Suc p. promise w' j = promise w j"
proof -
  let ?r = "\<lparr>ok = map_option User f, fail = map_option User g, rpromise = Suc p\<rparr>" and ?q = "Suc p"
  from assms(3) obtain b where w: "running w = None" "microtasks w = [NotifyJob p b]" "p < promises w" "settled w p out"
    "p_c (promise w p) = [?r]" by (auto simp: about_to_run_def)
  define l where "l = \<lparr>l_promise = p, l_isReject = b, l_value = p_v (promise w p), l_ok = (p_s (promise w p) = Fulfilled), l_i = 0::nat\<rparr>"
  define w1 where "w1 = start_job e (NotifyJob p b) (w\<lparr>microtasks := []\<rparr>)"
  have w1: "running w1 = Some l" "microtasks w1 = []" "promise w1 = promise w" "promises w1 = promises w"
    by (simp_all add: w1_def l_def)
  have s1: "job_step e w = w1" by (simp add: w1_def job_step_def w)
  define w2 where "w2 = w1\<lparr>running := Some (l\<lparr>l_i := 1\<rparr>), ran := ran w1 @ [(p, ?q)]\<rparr>"
  define w3 where "w3 = (if \<not> l_ok l \<and> g \<noteq> None then mark_handled p (l_ok l) w2 else w2)"
  define w4 where "w4 = settle_plain e ?q (stage fn out (f, g)) w3"
  have out: "out = (if l_ok l then Inr (l_value l) else Inl (l_value l))"
    using w(4) by (auto simp: settled_def l_def split: sum.splits)
  have "loop_round e l w1 = w4"
    using run_reaction_stage [OF assms(1,2) _ out, of p ?q f g w2] w(5) w1
    by (simp add: loop_round_def w2_def w3_def w4_def l_def Let_def)
  then have s2: "job_step e w1 = w4" using w(5) w1 by (simp add: l_def job_step_def)
  have w3: "promises w3 = promises w" "microtasks w3 = []" "running w3 = Some (l\<lparr>l_i := 1\<rparr>)" "j \<noteq> p \<Longrightarrow> promise w3 j = promise w j"
    "p_c (promise w3 j) = p_c (promise w j)" for j
    using w1 by (simp_all add: w3_def w2_def mark_handled_frame)
  have "plain e (stage fn out (f, g))" "?q < promises w3" "promise w3 ?q = Internal\<lparr>p_c := c\<rparr>"
    using plain_stage assms w3 by auto
  note w4 = settle_plain_effect [OF this, folded w4_def]
  define w5 where "w5 = loop_end (l\<lparr>l_i := 1\<rparr>) w4"
  have "p_c (promise w4 p) = [?r]" using w4(6) [of p] w3(5) [of p] w(5) by simp
  then have s3: "job_step e w4 = w5" using w3 w4 by (simp add: w5_def l_def job_step_def)
  have "w' = w5" by (simp add: w'_def eval_nat_numeral s1 s2 s3)
  moreover have "about_to_run w5 ?q (stage fn out (f, g)) c" "promises w5 = promises w" "\<forall>j > ?q. promise w5 j = promise w j"
    using w3 w4 assms(5) by (simp_all add: w5_def loop_end_effect settled_loop_end l_def about_to_run_def)
  ultimately show "about_to_run w' (Suc p) (stage fn out (f, g)) c" "promises w' = promises w" "\<forall>j > Suc p. promise w' j = promise w j"
    by simp_all
qed

section \<open>The whole chain\<close>

lemma flush_add: "flush e (m + n) w = flush e n (flush e m w)"
  by (induction m arbitrary: w) simp_all

lemma flush_idle: "running w = None \<Longrightarrow> microtasks w = [] \<Longrightarrow> flush e n w = w"
  by (induction n) (simp_all add: job_step_def)

lemma last_stage:
  assumes "about_to_run w p out []"
  shows "running (flush e 2 w) = None \<and> microtasks (flush e 2 w) = [] \<and> settled (flush e 2 w) p out"
proof -
  from assms obtain b where w: "running w = None" "microtasks w = [NotifyJob p b]" "settled w p out" "p_c (promise w p) = []"
    by (auto simp: about_to_run_def)
  define l where "l = \<lparr>l_promise = p, l_isReject = b, l_value = p_v (promise w p), l_ok = (p_s (promise w p) = Fulfilled), l_i = 0::nat\<rparr>"
  define w1 where "w1 = start_job e (NotifyJob p b) (w\<lparr>microtasks := []\<rparr>)"
  have s1: "job_step e w = w1" by (simp add: w1_def job_step_def w)
  have w1: "running w1 = Some l" "microtasks w1 = []" "promise w1 = promise w" by (simp_all add: w1_def l_def)
  have s2: "job_step e w1 = loop_end l w1" using w w1 by (simp add: l_def job_step_def)
  have "running (loop_end l w1) = None \<and> microtasks (loop_end l w1) = [] \<and> settled (loop_end l w1) p out"
    using w w1 by (simp add: loop_end_effect settled_loop_end) (simp add: settled_def split: sum.splits)
  then show ?thesis by (simp add: eval_nat_numeral s1 s2)
qed

lemma chain_runs:
  assumes "computes e fn" "plain e out" "about_to_run w p out c" "c = p_c (promise w p)"
    and "linked w' p hs" "c = p_c (promise w' p)" "\<forall>j > p. promise w j = promise w' j" "promises w = promises w'"
  shows "let w'' = flush e (3 * length hs + 2) w in
    running w'' = None \<and> microtasks w'' = [] \<and> settled w'' (p + length hs) (foldl (stage fn) out hs)"
  using assms(2-)
proof (induction hs arbitrary: p out w w' c)
  case Nil
  then show ?case using last_stage [of w p out e] by (simp add: Internal_def Let_def eval_nat_numeral)
next
  case (Cons h hs)
  obtain f g where h: "h = (f, g)" by fastforce
  have nxt: "linked w' (Suc p) hs" "promise w (Suc p) = promise w' (Suc p)" using Cons.prems h by auto
  obtain c' where c': "promise w' (Suc p) = Internal\<lparr>p_c := c'\<rparr>" "Suc p < promises w'"
    using nxt(1) by (cases hs) (auto simp: Internal_def split_paired_all)
  have "about_to_run w p out [\<lparr>ok = map_option User f, fail = map_option User g, rpromise = Suc p\<rparr>]"
    using Cons.prems h by (simp add: Internal_def)
  note v = one_stage [OF assms(1) Cons.prems(1) this, of c']
  let ?v = "flush e 3 w"
  have v: "about_to_run ?v (Suc p) (stage fn out (f, g)) c'" "promises ?v = promises w" "\<forall>j > Suc p. promise ?v j = promise w j"
    using v c' nxt(2) Cons.prems(7) by simp_all
  have "let w'' = flush e (3 * length hs + 2) ?v in
      running w'' = None \<and> microtasks w'' = [] \<and> settled w'' (Suc p + length hs) (foldl (stage fn) (stage fn out (f, g)) hs)"
    by (rule Cons.IH [of _ ?v _ c' w']) (use v nxt(1) c' Cons.prems plain_stage assms(1) in \<open>auto simp: about_to_run_def Internal_def\<close>)
  moreover have "3 * length (h # hs) + 2 = 3 + (3 * length hs + 2)" by simp
  ultimately show ?case by (simp only: flush_add h list.size foldl.simps add_Suc_right add_Suc Let_def add_0_right)
qed

text \<open>C6: when code of the application makes a promise, chains any number of \<open>then\<close> on it and resolves or rejects it, then the jobs
  alone, which \<open>flush\<close> runs, settle the last promise: after three steps for each \<open>then\<close> and two more no job is left, and the last
  promise has what the functions give one after the other.  A value goes to the next function for values, an error to the
  next function for errors.\<close>

theorem chain_settles:
  assumes "computes e fn" "plain e out" "running w = None" "microtasks w = []" "3 * length hs + 2 \<le> n"
  defines "w' \<equiv> flush e n (snd (run e (chain_program hs out) w))"
  shows "fst (run e (chain_program hs out) w) = Inr (Prom (promises w + length hs)) \<and>
    running w' = None \<and> microtasks w' = [] \<and> settled w' (promises w + length hs) (foldl (stage fn) out hs)"
proof -
  let ?p = "promises w" and ?w = "snd (new_promise w)"
  define k where "k = (\<lambda>q. Do (case out of Inr v \<Rightarrow> Resolve (OfPromise ?p) v | Inl v \<Rightarrow> Reject (OfPromise ?p) v) (\<lambda>v. Return (Prom q) :: ('a, 'b, 'c) prog))"
  have "promises ?w = Suc ?p" "promise ?w ?p = Internal" by (simp_all add: new_promise_def)
  from chain_builds [OF this, of e hs k] obtain v where v: "run e (chain ?p hs k) ?w = run e (k (?p + length hs)) v"
    "linked v ?p hs" "promises v = Suc (?p + length hs)" "running v = None" "microtasks v = []"
    using assms(3,4) by (auto simp: new_promise_def)
  obtain c where c: "promise v ?p = Internal\<lparr>p_c := c\<rparr>" "?p < promises v"
    using v(2) by (cases hs) (auto simp: Internal_def split_paired_all)
  let ?v = "settle_plain e ?p out v"
  have r: "run e (chain_program hs out) w = (Inr (Prom (?p + length hs)), ?v)"
    using v(1) by (cases out) (simp_all add: chain_program_def new_promise_def k_def settle_plain_def)
  note eff = settle_plain_effect [OF assms(2) c(2,1)]
  have "about_to_run ?v ?p out c" using eff v(4,5) c(2) by (simp add: about_to_run_def)
  then have e: "let u = flush e (3 * length hs + 2) ?v in running u = None \<and> microtasks u = [] \<and> settled u (?p + length hs) (foldl (stage fn) out hs)"
    by (rule chain_runs [OF assms(1,2) _ _ v(2)]) (use eff c in \<open>simp_all add: Internal_def\<close>)
  obtain m where m: "n = 3 * length hs + 2 + m" using assms(5) by (auto simp: le_iff_add)
  have "w' = flush e (3 * length hs + 2) ?v" using e by (simp only: w'_def r snd_conv m flush_add flush_idle Let_def)
  then show ?thesis using e by (simp add: r Let_def)
qed

section \<open>An application\<close>

text \<open>Functions on numbers: one adds one, one throws what it gets, one handles an error.\<close>

datatype sample_fn = AddOne | Fail | Handle

fun sample_call :: "sample_fn \<Rightarrow> (nat, unit) pval \<Rightarrow> (nat, unit) outcome" where
  "sample_call AddOne (Val n) = Inr (Val (n + 1))"
| "sample_call AddOne _ = Inr Undefined"
| "sample_call Fail (Val n) = Inl (Val n)"
| "sample_call Fail _ = Inl Undefined"
| "sample_call Handle v = Inr (Val 100)"

definition sample_app :: "(nat, unit, sample_fn) app" where
  "sample_app = \<lparr>code = (\<lambda>f v. case sample_call f v of Inl x \<Rightarrow> Throw x | Inr x \<Rightarrow> Return x), thenOf = (\<lambda>x. Inr None),
     onunhandledrejection = (\<lambda>p. Return Undefined), onrejectionhandled = (\<lambda>p. Return Undefined)\<rparr>"

lemma sample_computes: "computes sample_app sample_call"
proof -
  have "plain sample_app (sample_call f v)" for f v
    by (induction f v rule: sample_call.induct) (simp_all add: plain_def)
  then show ?thesis by (simp add: computes_def sample_app_def)
qed

theorem chain_settles_witness:
  "let w' = flush sample_app 14 (snd (run sample_app (chain_program [(Some AddOne, None), (Some Fail, None), (Some AddOne, None), (Some AddOne, Some Handle)] (Inr (Val 5))) empty_world)) in
     running w' = None \<and> microtasks w' = [] \<and> p_s (promise w' 4) = Fulfilled \<and> p_v (promise w' 4) = Val 100"
  using chain_settles [OF sample_computes, of "Inr (Val 5)" empty_world
      "[(Some AddOne, None), (Some Fail, None), (Some AddOne, None), (Some AddOne, Some Handle)]" 14]
  by (simp add: plain_def empty_world_def settled_def eval_nat_numeral Let_def del: flush.simps)

text \<open>A promise that is resolved twice.\<close>

definition twice :: "(nat, unit, sample_fn) prog" where
  "twice = NewPromise (\<lambda>p. Do (Resolve (OfPromise p) (Val 1)) (\<lambda>v. Do (Reject (OfPromise p) (Val 2)) (\<lambda>v. Return Undefined)))
     (\<lambda>p. Do (Then p (Some AddOne) None) (\<lambda>v. Return (Prom p)))"

definition after_once :: "(nat, unit, sample_fn) world" where
  "after_once = snd (run sample_app twice empty_world)"

lemma after_once_reachable: "reachable sample_app after_once"
  unfolding after_once_def by (rule reachable.more [OF reachable.start step.user]) (simp_all add: empty_world_def)

lemma after_once_state: "p_s (promise after_once 0) = Fulfilled" "p_v (promise after_once 0) = Val 1" "running after_once = None"
  "microtasks after_once = [NotifyJob 0 False]" "of_promise 0 (registered after_once) = [1]"
  by (simp_all add: after_once_def twice_def new_promise_def resolve_def reject_def fulfil_promise_def notify_def promise_then_def
      empty_world_def Internal_def upd_def microtask_def Let_def of_promise_def)

theorem promise_settles_once_witness:
  "\<exists>w'. steps sample_app after_once w' \<and> w' \<noteq> after_once \<and> p_s (promise w' 0) = Fulfilled \<and> p_v (promise w' 0) = Val 1"
proof -
  let ?w = "start_job sample_app (NotifyJob 0 False) (after_once\<lparr>microtasks := []\<rparr>)"
  have s: "steps sample_app after_once ?w"
    by (intro steps.one [OF step.job steps.none]) (simp_all add: after_once_state)
  have "microtasks ?w \<noteq> microtasks after_once" by (simp add: after_once_state)
  moreover have "p_s (promise ?w 0) = Fulfilled \<and> p_v (promise ?w 0) = Val 1"
    using promise_settles_once [OF after_once_reachable s, of 0] by (simp add: after_once_state)
  ultimately show ?thesis using s by metis
qed

theorem promise_reactions_in_order_witness:
  "\<exists>rest. of_promise 0 (registered after_once) = of_promise 0 (ran after_once) @ rest \<and> of_promise 0 (registered after_once) = [1]"
  using promise_reactions_in_order [OF after_once_reachable, of 0] after_once_state by blast

end
