(* ===== verification/Web_Url.thy ===== *)
theory Web_Url
  imports Buffer_Ops
begin

text \<open>
  How the application writes and reads text that goes into addresses and requests: search strings, forms,
  the user names and passwords of basic authentication, and addresses from a specification that become
  links.  The functions of the language that the code calls come first.
\<close>

section \<open>Functions of the language\<close>

text \<open>\<open>encodeURIComponent\<close>: letters, digits and the marks stay, any other character becomes the bytes of its UTF-8 form.\<close>

definition uri_unreserved :: "code_unit \<Rightarrow> bool" where
  "uri_unreserved c \<longleftrightarrow> (let n = uint c in
     48 \<le> n \<and> n \<le> 57 \<or> 65 \<le> n \<and> n \<le> 90 \<or> 97 \<le> n \<and> n \<le> 122 \<or> c \<in> set (js ''-_.!~*()'') \<or> n = 39)"

definition upper_hex :: "int \<Rightarrow> code_unit" where
  "upper_hex d = word_of_int (if d < 10 then 48 + d else 55 + d)"

definition percent_byte :: "int \<Rightarrow> jstr" where
  "percent_byte b = [37, upper_hex (b div 16), upper_hex (b mod 16)]"

definition percent :: "int \<Rightarrow> jstr" where
  "percent cp = concat (map percent_byte (utf8_sequence cp))"

definition uri_error :: js_error where
  "uri_error = PlainError ''URI malformed''"

fun encodeURIComponent :: "jstr \<Rightarrow> jstr result" where
  "encodeURIComponent [] = Inr []"
| "encodeURIComponent (c # cs) =
     (if uri_unreserved c then prepend [c] (encodeURIComponent cs)
      else if uint c < 55296 \<or> 57343 < uint c then prepend (percent (uint c)) (encodeURIComponent cs)
      else if 56319 < uint c then Inl uri_error
      else case cs of
             [] \<Rightarrow> Inl uri_error
           | d # ds \<Rightarrow>
               if 56320 \<le> uint d \<and> uint d \<le> 57343
               then prepend (percent ((uint c - 55296) * 1024 + (uint d - 56320) + 65536)) (encodeURIComponent ds)
               else Inl uri_error)"

text \<open>\<open>decodeURIComponent\<close>: bytes written with percent signs are decoded as UTF-8, strictly.\<close>

fun read_octets :: "nat \<Rightarrow> jstr \<Rightarrow> (byte list \<times> jstr) option" where
  "read_octets 0 s = Some ([], s)"
| "read_octets (Suc n) (p # a # b # s) =
     (if p = 37 then
        (case (hex_value a, hex_value b) of
           (Some x, Some y) \<Rightarrow> map_option (\<lambda>(bs, s'). (word_of_int (x * 16 + y) # bs, s')) (read_octets n s)
         | _ \<Rightarrow> None)
      else None)"
| "read_octets (Suc n) _ = None"

lemma read_octets_length: "read_octets n s = Some (bs, s') \<Longrightarrow> length s = length s' + 3 * n"
  by (induction n s arbitrary: bs s' rule: read_octets.induct) (auto split: if_splits option.splits)

definition octet_count :: "int \<Rightarrow> nat" where
  "octet_count b = (if b < 128 then 1 else if b < 192 then 0 else if b < 224 then 2 else if b < 240 then 3 else if b < 248 then 4 else 0)"

definition read_escape :: "jstr \<Rightarrow> (int list \<times> jstr) option" where
  "read_escape s =
     (case read_octets 1 s of
        Some ([b], s1) \<Rightarrow>
          (let n = octet_count (uint b) in
           if n = 0 then None
           else case read_octets n s of
                  None \<Rightarrow> None
                | Some (bs, s') \<Rightarrow> map_option (\<lambda>cp. (utf16 cp, s')) (decode_sequence bs 0 (int n)))
      | _ \<Rightarrow> None)"

lemma read_escape_length: "read_escape s = Some (us, s') \<Longrightarrow> length s' < length s"
  by (auto simp: read_escape_def Let_def split: option.splits list.splits prod.splits if_splits dest!: read_octets_length)

function decodeURIComponent :: "jstr \<Rightarrow> jstr result" where
  "decodeURIComponent [] = Inr []"
| "decodeURIComponent (c # cs) =
     (if c \<noteq> 37 then prepend [c] (decodeURIComponent cs)
      else case read_escape (c # cs) of
             None \<Rightarrow> Inl uri_error
           | Some (us, s) \<Rightarrow> prepend (fromCharCodes us) (decodeURIComponent s))"
  by pat_completeness auto
termination
  by (relation "measure length") (auto dest: read_escape_length)

text \<open>\<open>split\<close> and \<open>join\<close> with one character.\<close>

fun split_at :: "code_unit \<Rightarrow> jstr \<Rightarrow> jstr list" where
  "split_at d [] = [[]]"
| "split_at d (c # cs) =
     (if c = d then [] # split_at d cs else case split_at d cs of [] \<Rightarrow> [[c]] | x # xs \<Rightarrow> (c # x) # xs)"

fun join_with :: "jstr \<Rightarrow> jstr list \<Rightarrow> jstr" where
  "join_with d [] = []"
| "join_with d [x] = x"
| "join_with d (x # y # xs) = x @ d @ join_with d (y # xs)"

text \<open>A call for each element, until one throws.\<close>

fun map_result :: "('a \<Rightarrow> 'b result) \<Rightarrow> 'a list \<Rightarrow> 'b list result" where
  "map_result f [] = Inr []"
| "map_result f (x # xs) = (case f x of Inl e \<Rightarrow> Inl e | Inr y \<Rightarrow> prepend [y] (map_result f xs))"

section \<open>Search strings and forms\<close>

text \<open>An object whose values are strings: keys with their values, in the order of \<open>Object.keys\<close>.\<close>

type_synonym fields = "(jstr \<times> jstr) list"

text \<open>\<open>map[key] = value\<close>; the key \<open>__proto__\<close> makes no property.\<close>

fun put_field :: "fields \<Rightarrow> jstr \<Rightarrow> jstr \<Rightarrow> fields" where
  "put_field [] k v = [(k, v)]"
| "put_field ((k', v') # fs) k v = (if k' = k then (k, v) # fs else (k', v') # put_field fs k v)"

definition set_field :: "fields \<Rightarrow> jstr \<Rightarrow> jstr \<Rightarrow> fields" where
  "set_field fs k v = (if k = js ''__proto__'' then fs else put_field fs k v)"

text \<open>\<open>map[decodeURIComponent(i[0])] = i[1] && decodeURIComponent(i[1]) || ""\<close>\<close>

definition search_param :: "jstr \<Rightarrow> (jstr \<times> jstr) result" where
  "search_param param =
     (let i = split_at 61 param in
      case decodeURIComponent (hd i) of
        Inl e \<Rightarrow> Inl e
      | Inr k \<Rightarrow>
          (if length i < 2 \<or> i ! 1 = [] then Inr (k, [])
           else case decodeURIComponent (i ! 1) of Inl e \<Rightarrow> Inl e | Inr v \<Rightarrow> Inr (k, v)))"

text \<open>\<open>search\<close> is \<open>location.search\<close>.\<close>

definition parseSearch :: "jstr \<Rightarrow> fields result" where
  "parseSearch search =
     (if search = [] then Inr []
      else case map_result search_param (split_at 38 (drop 1 search)) of
             Inl e \<Rightarrow> Inl e
           | Inr ps \<Rightarrow> Inr (foldl (\<lambda>fs (k, v). set_field fs k v) [] ps))"

definition serialize_field :: "jstr \<times> jstr \<Rightarrow> jstr result" where
  "serialize_field f =
     (case encodeURIComponent (fst f) of
        Inl e \<Rightarrow> Inl e
      | Inr k \<Rightarrow> (case encodeURIComponent (snd f) of Inl e \<Rightarrow> Inl e | Inr v \<Rightarrow> Inr (k @ 61 # v)))"

definition serializeSearch :: "fields \<Rightarrow> jstr result" where
  "serializeSearch searchMap = map_sum id (join_with [38]) (map_result serialize_field searchMap)"

text \<open>\<open>replace(/%20/g, "+")\<close>\<close>

fun spaces_to_plus :: "jstr \<Rightarrow> jstr" where
  "spaces_to_plus (a # b # c # s) = (if a = 37 \<and> b = 50 \<and> c = 48 then 43 # spaces_to_plus s else a # spaces_to_plus (b # c # s))"
| "spaces_to_plus s = s"

text \<open>The values of a form are strings or \<open>undefined\<close>.\<close>

definition form_field :: "jstr \<times> jstr \<Rightarrow> jstr result" where
  "form_field f = map_sum id (\<lambda>v. fst f @ 61 # spaces_to_plus v) (encodeURIComponent (snd f))"

definition buildFormData :: "(jstr \<times> jstr option) list \<Rightarrow> jstr result" where
  "buildFormData data =
     map_sum id (join_with [38]) (map_result form_field [(k, v). (k, Some v) \<leftarrow> data, v \<noteq> []])"

section \<open>Basic authentication\<close>

text \<open>\<open>btoa\<close> on a string.\<close>

definition btoa :: "mem \<Rightarrow> jstr \<Rightarrow> jstr result" where
  "btoa m str =
     (case Buffer m (VStr str) (VStr (js ''utf-8'')) VNone of
        Inl e \<Rightarrow> Inl e
      | Inr (b, m') \<Rightarrow> toString (contents m' b) (Some (Some (js ''base64''), None, None)))"

section \<open>Addresses\<close>

definition not_control :: "code_unit \<Rightarrow> bool" where
  "not_control c \<longleftrightarrow> 32 \<le> uint c \<and> uint c \<le> 126"

definition isRelativeUrl :: "jstr \<Rightarrow> bool" where
  "isRelativeUrl url \<longleftrightarrow> url \<noteq> [] \<and> (hd url = 46 \<or> hd url = 47)"

text \<open>\<open>match(/^([^:]+):/gm)\<close> on text in one line: the characters before the first colon, with the colon.\<close>

definition url_scheme :: "jstr \<Rightarrow> jstr option" where
  "url_scheme url =
     (let s = takeWhile (\<lambda>c. c \<noteq> 58) url
      in if s = [] \<or> length s = length url then None else Some (s @ [58]))"

text \<open>\<open>/^(%20|\s)*(javascript|data)/im\<close> on such text.\<close>

function skip_spaces :: "jstr \<Rightarrow> jstr" where
  "skip_spaces s =
     (if s \<noteq> [] \<and> js_space (hd s) then skip_spaces (tl s)
      else if take 3 s = js ''%20'' then skip_spaces (drop 3 s) else s)"
  by pat_completeness auto
termination
proof (relation "measure length")
  fix s :: jstr
  show "\<not> (s \<noteq> [] \<and> js_space (hd s)) \<Longrightarrow> take 3 s = js ''%20'' \<Longrightarrow> (drop 3 s, s) \<in> measure length"
    by (cases s) (auto simp: js_def)
qed auto

declare skip_spaces.simps [simp del]

definition starts_with :: "jstr \<Rightarrow> jstr \<Rightarrow> bool" where
  "starts_with p s \<longleftrightarrow> take (length p) s = p"

definition invalidProtocol :: "jstr \<Rightarrow> bool" where
  "invalidProtocol s \<longleftrightarrow>
     starts_with (js ''javascript'') (toLowerCase (skip_spaces s)) \<or> starts_with (js ''data'') (toLowerCase (skip_spaces s))"

definition about_blank :: jstr where
  "about_blank = js ''about:blank''"

definition sanitizeUrl :: "jstr \<Rightarrow> jstr" where
  "sanitizeUrl url =
     (let sanitizedUrl = filter not_control url in
      if isRelativeUrl sanitizedUrl then sanitizedUrl
      else case url_scheme sanitizedUrl of
             None \<Rightarrow> about_blank
           | Some urlScheme \<Rightarrow> if invalidProtocol urlScheme then about_blank else sanitizedUrl)"

text \<open>\<open>sanitizeUrl\<close> of the utilities: \<open>None\<close> is a value that is no string.\<close>

definition utils_sanitizeUrl :: "jstr option \<Rightarrow> jstr" where
  "utils_sanitizeUrl url = (case url of None \<Rightarrow> [] | Some u \<Rightarrow> if u = [] then [] else sanitizeUrl u)"

end
