(* ===== verification/Web_Url_Laws.thy ===== *)
theory Web_Url_Laws
  imports Web_Url Codec_Laws
begin

text \<open>
  Search strings and forms are read back as they were written, basic authentication gives the server the
  user name and the password, and no link runs code.
\<close>

section \<open>Percent encoding\<close>

lemma hex_value_upper: "0 \<le> d \<Longrightarrow> d < 16 \<Longrightarrow> hex_value (upper_hex d) = Some d"
proof -
  assume "0 \<le> d" "d < 16"
  then have "uint (upper_hex d) = (if d < 10 then 48 + d else 55 + d)" by (simp add: upper_hex_def uint_unit)
  then show ?thesis using \<open>0 \<le> d\<close> \<open>d < 16\<close> by (auto simp: hex_value_def)
qed

lemma read_octets_percent:
  assumes "list_all (\<lambda>b. 0 \<le> b \<and> b < 256) bs"
  shows "read_octets (length bs) (concat (map percent_byte bs) @ s) = Some (map word_of_int bs, s)"
  using assms
proof (induction bs)
  case (Cons b bs)
  then have "0 \<le> b div 16" "b div 16 < 16" "0 \<le> b mod 16" "b mod 16 < 16" "b div 16 * 16 + b mod 16 = b" by auto
  with Cons show ?case by (simp add: percent_byte_def hex_value_upper)
qed simp

lemma utf8_sequence_range: "is_scalar cp \<Longrightarrow> list_all (\<lambda>b. 0 \<le> b \<and> b < 256) (utf8_sequence cp)"
  using utf8_sequence_bytes by (auto simp: is_scalar_def list_all_iff)

lemma octet_count_utf8:
  assumes "is_scalar cp"
  shows "octet_count (hd (utf8_sequence cp)) = length (utf8_sequence cp)"
proof -
  have cp: "0 \<le> cp" "cp < 1114112" using assms by (auto simp: is_scalar_def)
  have "cp < 2048 \<Longrightarrow> cp div 64 < 32" "cp < 65536 \<Longrightarrow> cp div 4096 < 16" "cp div 262144 < 8"
    "0 \<le> cp div 64" "0 \<le> cp div 4096" "0 \<le> cp div 262144" using cp by auto
  then show ?thesis using cp by (auto simp: utf8_sequence_arith [OF cp] octet_count_def)
qed

lemma read_escape_percent:
  assumes "is_scalar cp"
  shows "read_escape (percent cp @ s) = Some (utf16 cp, s)"
proof -
  let ?bs = "utf8_sequence cp"
  obtain b bs where b: "?bs = b # bs" by (cases ?bs) simp_all
  note all = utf8_sequence_range [OF assms]
  have "read_octets (length ?bs) (percent cp @ s) = Some (map word_of_int ?bs, s)"
    unfolding percent_def by (rule read_octets_percent [OF all])
  moreover have "read_octets 1 (percent cp @ s) = Some ([word_of_int b], concat (map percent_byte bs) @ s)"
    using read_octets_percent [of "[b]" "concat (map percent_byte bs) @ s"] all b by (simp add: percent_def)
  moreover have "uint (word_of_int b :: byte) = b" using all b by (simp add: uint_word_of_int)
  moreover have "octet_count b = length ?bs" using octet_count_utf8 [OF assms] b by simp
  moreover have "decode_sequence (map word_of_int ?bs) 0 (int (length ?bs)) = Some cp"
    using decode_encoded [OF assms refl, of "[]" "int (length ?bs)" "[]"] by simp
  ultimately show ?thesis using b by (simp add: read_escape_def Let_def)
qed

lemma percent_head: "\<exists>s. percent cp = 37 # s"
  by (cases "utf8_sequence cp") (simp_all add: percent_def percent_byte_def)

lemma decode_percent:
  assumes "is_scalar cp"
  shows "decodeURIComponent (percent cp @ s) = prepend (fromCharCodes (utf16 cp)) (decodeURIComponent s)"
proof -
  obtain t where "percent cp = 37 # t" using percent_head by blast
  then show ?thesis using read_escape_percent [OF assms, of s] by simp
qed

lemma prepend_prepend [simp]: "prepend xs (prepend ys r) = prepend (xs @ ys) r"
  by (cases r) simp_all

lemma prepend_eq_Inr: "prepend xs r = Inr ys \<longleftrightarrow> (\<exists>zs. r = Inr zs \<and> ys = xs @ zs)"
  by (cases r) auto

text \<open>What \<open>encodeURIComponent\<close> does with the first character.\<close>

lemma encode_cases:
  assumes "encodeURIComponent (c # cs) = Inr t"
  obtains (plain) t' where "uri_unreserved c" "encodeURIComponent cs = Inr t'" "t = c # t'"
    | (coded) cp cs' t' where "is_scalar cp" "c # cs = fromCharCodes (utf16 cp) @ cs'" "encodeURIComponent cs' = Inr t'" "t = percent cp @ t'"
      "cp = 32 \<longleftrightarrow> c = 32" "length cs' \<le> length cs"
proof (cases "uri_unreserved c")
  case True
  then show thesis using assms plain by (auto simp: prepend_eq_Inr)
next
  case False
  show thesis
  proof (cases "uint c < 55296 \<or> 57343 < uint c")
    case True
    have c: "0 \<le> uint c" "uint c < 65536" using uint_bounded [of c] by simp_all
    have "uint c < 1114112" using c by linarith
    then have "is_scalar (uint c)" using True c(1) by (auto simp: is_scalar_def)
    moreover have "fromCharCodes (utf16 (uint c)) = [c]" using c by (simp add: utf16_def)
    moreover obtain t' where "encodeURIComponent cs = Inr t'" "t = percent (uint c) @ t'"
      using assms False True by (auto simp: prepend_eq_Inr)
    moreover have "uint c = 32 \<longleftrightarrow> c = 32" by (simp add: word_uint_eq_iff)
    ultimately show thesis using coded [of "uint c" cs] by simp
  next
    case surrogate: False
    then obtain d ds where d: "cs = d # ds" "uint c \<le> 56319" "56320 \<le> uint d" "uint d \<le> 57343"
      using assms False by (auto split: if_splits list.splits)
    let ?cp = "(uint c - 55296) * 1024 + (uint d - 56320) + 65536"
    obtain t' where t: "encodeURIComponent ds = Inr t'" "t = percent ?cp @ t'"
      using assms False surrogate d by (auto simp: prepend_eq_Inr)
    have "is_scalar ?cp" using surrogate d by (auto simp: is_scalar_def)
    moreover have "fromCharCodes (utf16 ?cp) = [c, d]"
    proof -
      have "(a * 1024 + b) div 1024 = a" "(a * 1024 + b) mod 1024 = b" if "0 \<le> b" "b < 1024" for a b :: int using that by simp_all
      from this [of "uint d - 56320" "uint c - 55296"] d have "utf16 ?cp = [uint c, uint d]"
        using surrogate unfolding utf16_def by (simp only: add_diff_cancel_right') simp
      then show ?thesis by simp
    qed
    moreover have "c \<noteq> 32" using surrogate by auto
    ultimately show thesis using coded [of ?cp ds t'] t d surrogate by simp
  qed
qed

lemma decode_encode_append:
  "encodeURIComponent s = Inr t \<Longrightarrow> decodeURIComponent (t @ u) = prepend s (decodeURIComponent u)"
proof (induction "length s" arbitrary: s t rule: less_induct)
  case less
  show ?case
  proof (cases s)
    case Nil
    then show ?thesis using less.prems by (cases "decodeURIComponent u") simp_all
  next
    case (Cons c cs)
    from less.prems Cons have "encodeURIComponent (c # cs) = Inr t" by simp
    then show ?thesis
    proof (cases rule: encode_cases)
      case (plain t')
      then have "c \<noteq> 37" by (auto simp: uri_unreserved_def js_def)
      then show ?thesis using plain less.hyps [of cs t'] Cons by simp
    next
      case (coded cp cs' t')
      then show ?thesis using decode_percent [OF coded(1), of "t' @ u"] less.hyps [of cs' t'] Cons by simp
    qed
  qed
qed

lemma decode_encode: "encodeURIComponent s = Inr t \<Longrightarrow> decodeURIComponent t = Inr s"
  using decode_encode_append [of s t "[]"] by simp

text \<open>The characters of encoded text.\<close>

definition uri_char :: "code_unit \<Rightarrow> bool" where
  "uri_char c \<longleftrightarrow> uri_unreserved c \<or> c = 37"

lemma upper_hex_unreserved: "0 \<le> d \<Longrightarrow> d < 16 \<Longrightarrow> uri_unreserved (upper_hex d)"
proof -
  assume d: "0 \<le> d" "d < 16"
  then have "uint (upper_hex d) = (if d < 10 then 48 + d else 55 + d)" by (simp add: upper_hex_def uint_unit)
  then show ?thesis using d by (auto simp: uri_unreserved_def Let_def)
qed

lemma percent_chars: "is_scalar cp \<Longrightarrow> list_all uri_char (percent cp)"
proof -
  assume cp: "is_scalar cp"
  have "list_all uri_char (percent_byte b)" if "0 \<le> b" "b < 256" for b
    using that upper_hex_unreserved [of "b div 16"] upper_hex_unreserved [of "b mod 16"] by (auto simp: percent_byte_def uri_char_def)
  then show ?thesis using utf8_sequence_range [OF cp] by (auto simp: percent_def list_all_iff)
qed

lemma encode_chars: "encodeURIComponent s = Inr t \<Longrightarrow> list_all uri_char t"
proof (induction "length s" arbitrary: s t rule: less_induct)
  case less
  show ?case
  proof (cases s)
    case (Cons c cs)
    from less.prems Cons have "encodeURIComponent (c # cs) = Inr t" by simp
    then show ?thesis
    proof (cases rule: encode_cases)
      case (plain t')
      then show ?thesis using less.hyps [of cs t'] Cons by (simp add: uri_char_def)
    next
      case (coded cp cs' t')
      then show ?thesis using less.hyps [of cs' t'] percent_chars Cons by simp
    qed
  qed (use less.prems in simp)
qed

lemma uri_char_not: "\<not> uri_char 38" "\<not> uri_char 61" "\<not> uri_char 43"
  by (simp_all add: uri_char_def uri_unreserved_def js_def)

section \<open>Search strings\<close>

lemma split_at_none: "d \<notin> set s \<Longrightarrow> split_at d s = [s]"
  by (induction s) auto

lemma split_at_append: "d \<notin> set s \<Longrightarrow> split_at d (s @ d # t) = s # split_at d t"
  by (induction s) auto

lemma split_join: "xs \<noteq> [] \<Longrightarrow> list_all (\<lambda>x. d \<notin> set x) xs \<Longrightarrow> split_at d (join_with [d] xs) = xs"
  by (induction "[d]" xs rule: join_with.induct) (auto simp: split_at_none split_at_append)

lemma map_result_Inr_iff: "map_result f xs = Inr ys \<longleftrightarrow> list_all2 (\<lambda>x y. f x = Inr y) xs ys"
  by (induction xs arbitrary: ys) (auto simp: list_all2_Cons1 prepend_eq_Inr split: sum.splits)

lemma search_param_field:
  assumes "serialize_field f = Inr s"
  shows "search_param s = Inr f" "38 \<notin> set s"
proof -
  obtain k v where kv: "encodeURIComponent (fst f) = Inr k" "encodeURIComponent (snd f) = Inr v" "s = k @ 61 # v"
    using assms by (auto simp: serialize_field_def split: sum.splits)
  have "61 \<notin> set k" "61 \<notin> set v" "38 \<notin> set k" "38 \<notin> set v"
    using encode_chars [OF kv(1)] encode_chars [OF kv(2)] uri_char_not by (auto simp: list_all_iff)
  then have "split_at 61 s = [k, v]" "38 \<notin> set s" using kv(3) by (simp_all add: split_at_append split_at_none)
  moreover have "v = [] \<Longrightarrow> snd f = []" using decode_encode [OF kv(2)] by simp
  ultimately show "search_param s = Inr f" "38 \<notin> set s"
    using decode_encode [OF kv(1)] decode_encode [OF kv(2)] by (cases f; simp add: search_param_def Let_def)+
qed

lemma put_field_new: "k \<notin> fst ` set fs \<Longrightarrow> put_field fs k v = fs @ [(k, v)]"
  by (induction fs) auto

lemma foldl_set_field:
  assumes "distinct (map fst (fs @ gs))" "js ''__proto__'' \<notin> fst ` set gs"
  shows "foldl (\<lambda>fs (k, v). set_field fs k v) fs gs = fs @ gs"
  using assms by (induction gs arbitrary: fs) (auto simp: set_field_def put_field_new)

text \<open>C19: a map that \<open>serializeSearch\<close> writes into the address is what \<open>parseSearch\<close> reads from it: the same keys with the same
  values, in the same order, whatever characters they have.\<close>

theorem search_round_trip:
  assumes "serializeSearch searchMap = Inr s" "distinct (map fst searchMap)" "js ''__proto__'' \<notin> fst ` set searchMap"
  shows "parseSearch (if s = [] then [] else 63 # s) = Inr searchMap"
proof -
  obtain ss where ss: "list_all2 (\<lambda>f t. serialize_field f = Inr t) searchMap ss" "s = join_with [38] ss"
    using assms(1) by (auto simp: serializeSearch_def map_result_Inr_iff [symmetric] map_sum_def split: sum.splits)
  show ?thesis
  proof (cases "s = []")
    case True
    have "searchMap = []"
    proof (rule ccontr)
      assume "searchMap \<noteq> []"
      then obtain f fs t ts where "searchMap = f # fs" "ss = t # ts" "serialize_field f = Inr t" using ss(1) by (cases searchMap; cases ss) auto
      moreover have "t \<noteq> []" using calculation(3) by (auto simp: serialize_field_def split: sum.splits)
      ultimately show False using True ss(2) by (cases ts) auto
    qed
    then show ?thesis using True by (simp add: parseSearch_def)
  next
    case False
    then have "ss \<noteq> []" using ss(2) by auto
    moreover have "list_all (\<lambda>x. 38 \<notin> set x) ss" using ss(1) search_param_field(2) by (induction rule: list_all2_induct) auto
    ultimately have "split_at 38 s = ss" using ss(2) split_join by simp
    moreover have "map_result search_param ss = Inr searchMap"
      using ss(1) search_param_field(1) by (simp add: map_result_Inr_iff list_all2_conv_all_nth)
    ultimately show ?thesis using False foldl_set_field [of "[]" searchMap] assms(2,3) by (simp add: parseSearch_def)
  qed
qed

theorem search_round_trip_witness:
  "\<exists>s. serializeSearch [(js ''url'', js ''http://x/?a=1&b''), ([8364, 32], [])] = Inr s \<and>
     parseSearch (63 # s) = Inr [(js ''url'', js ''http://x/?a=1&b''), ([8364, 32], [])]"
proof -
  have "serializeSearch [(js ''url'', js ''http://x/?a=1&b''), ([8364, 32], [])] = Inr (js ''url=http%3A%2F%2Fx%2F%3Fa%3D1%26b&%E2%82%AC%20='')"
    by code_simp
  moreover from search_round_trip [OF this] have "parseSearch (63 # js ''url=http%3A%2F%2Fx%2F%3Fa%3D1%26b&%E2%82%AC%20='') =
      Inr [(js ''url'', js ''http://x/?a=1&b''), ([8364, 32], [])]" by (simp add: js_def)
  ultimately show ?thesis by blast
qed

section \<open>Forms\<close>

text \<open>How a server reads a form: a plus sign is a space, and names and values are decoded.\<close>

definition plus_to_spaces :: "jstr \<Rightarrow> jstr" where
  "plus_to_spaces = map (\<lambda>c. if c = 43 then 32 else c)"

definition parse_form :: "jstr \<Rightarrow> fields result" where
  "parse_form body = (if body = [] then Inr [] else map_result (search_param \<circ> plus_to_spaces) (split_at 38 body))"

lemma spaces_to_plus_skip: "c \<noteq> 37 \<Longrightarrow> spaces_to_plus (c # s) = c # spaces_to_plus s"
  by (cases s; cases "tl s") auto

lemma spaces_byte:
  assumes "0 \<le> b" "b < 256"
  shows "spaces_to_plus (percent_byte b @ s) = (if b = 32 then [43] else percent_byte b) @ spaces_to_plus s"
proof -
  have d: "0 \<le> b div 16" "b div 16 < 16" "0 \<le> b mod 16" "b mod 16 < 16" "b div 16 * 16 + b mod 16 = b" using assms by auto
  have no: "upper_hex (b div 16) \<noteq> 37" "upper_hex (b mod 16) \<noteq> 37"
    using upper_hex_unreserved d by (auto simp: uri_unreserved_def js_def dest: arg_cong [of _ _ uri_unreserved])
  have "upper_hex (b div 16) = 50 \<and> upper_hex (b mod 16) = 48 \<longleftrightarrow> b = 32"
  proof
    assume "upper_hex (b div 16) = 50 \<and> upper_hex (b mod 16) = 48"
    then have "hex_value (50 :: code_unit) = Some (b div 16)" "hex_value (48 :: code_unit) = Some (b mod 16)"
      using hex_value_upper d by metis+
    then show "b = 32" using d(5) by (simp add: hex_value_def)
  qed (simp add: upper_hex_def)
  then show ?thesis using no by (auto simp: percent_byte_def spaces_to_plus_skip)
qed

lemma spaces_bytes:
  "list_all (\<lambda>b. 0 \<le> b \<and> b < 256 \<and> b \<noteq> 32) bs \<Longrightarrow>
    spaces_to_plus (concat (map percent_byte bs) @ s) = concat (map percent_byte bs) @ spaces_to_plus s"
  by (induction bs) (auto simp: spaces_byte)

lemma spaces_percent:
  assumes "is_scalar cp"
  shows "spaces_to_plus (percent cp @ s) = (if cp = 32 then [43] else percent cp) @ spaces_to_plus s"
proof (cases "cp = 32")
  case True
  then show ?thesis using spaces_byte [of 32 s] by (simp add: percent_def utf8_sequence_def)
next
  case False
  have cp: "0 \<le> cp" "cp < 1114112" using assms by (auto simp: is_scalar_def)
  have "32 \<notin> set (utf8_sequence cp)"
  proof
    assume "32 \<in> set (utf8_sequence cp)"
    moreover have "0 \<le> cp div 64" "0 \<le> cp div 4096" "0 \<le> cp div 262144" "0 \<le> x mod 64" for x :: int using cp by auto
    ultimately show False using False by (auto simp: utf8_sequence_arith [OF cp] split: if_splits)
  qed
  then show ?thesis using spaces_bytes [of "utf8_sequence cp" s] utf8_sequence_range [OF assms] False
    by (auto simp: percent_def list_all_iff)
qed

lemma plus_to_spaces_uri: "list_all uri_char s \<Longrightarrow> plus_to_spaces s = s"
  using uri_char_not by (auto simp: plus_to_spaces_def list_all_iff intro!: map_idI)

lemma decode_form_value:
  "encodeURIComponent s = Inr t \<Longrightarrow> decodeURIComponent (plus_to_spaces (spaces_to_plus t)) = Inr s \<and>
     set (spaces_to_plus t) \<inter> {38, 61} = {}"
proof (induction "length s" arbitrary: s t rule: less_induct)
  case less
  show ?case
  proof (cases s)
    case Nil
    then show ?thesis using less.prems by (simp add: plus_to_spaces_def)
  next
    case (Cons c cs)
    from less.prems Cons have "encodeURIComponent (c # cs) = Inr t" by simp
    then show ?thesis
    proof (cases rule: encode_cases)
      case (plain t')
      have c: "c \<noteq> 37" "c \<noteq> 43" "c \<noteq> 38" "c \<noteq> 61" using plain(1) by (auto simp: uri_unreserved_def js_def)
      then show ?thesis using plain less.hyps [of cs t'] Cons by (simp add: spaces_to_plus_skip plus_to_spaces_def)
    next
      case (coded cp cs' t')
      have ih: "decodeURIComponent (plus_to_spaces (spaces_to_plus t')) = Inr cs'" "set (spaces_to_plus t') \<inter> {38, 61} = {}"
        using less.hyps [of cs' t'] coded Cons by simp_all
      have p: "list_all uri_char (percent cp)" using percent_chars coded(1) by simp
      have "set (percent cp) \<inter> {38, 61} = {}" using p uri_char_not by (auto simp: list_all_iff)
      moreover have "plus_to_spaces (percent cp @ u) = percent cp @ plus_to_spaces u" for u
        using plus_to_spaces_uri [OF p] by (simp add: plus_to_spaces_def)
      ultimately show ?thesis using coded ih Cons decode_percent [OF coded(1)] spaces_percent [OF coded(1), of t']
        by (cases "cp = 32") (auto simp: plus_to_spaces_def utf16_def)
    qed
  qed
qed

lemma decode_plain: "list_all uri_unreserved s \<Longrightarrow> decodeURIComponent s = Inr s"
  by (induction s) (auto simp: uri_unreserved_def js_def)

lemma form_field_ne: "form_field f = Inr t \<Longrightarrow> t \<noteq> []"
  by (cases "encodeURIComponent (snd f)") (auto simp: form_field_def)

lemma form_field_read:
  assumes "form_field f = Inr s" "list_all uri_unreserved (fst f)"
  shows "search_param (plus_to_spaces s) = Inr f" "38 \<notin> set s"
proof -
  obtain t where t: "encodeURIComponent (snd f) = Inr t" "s = fst f @ 61 # spaces_to_plus t"
    using assms(1) by (auto simp: form_field_def map_sum_def split: sum.splits)
  have name: "61 \<notin> set (fst f)" "38 \<notin> set (fst f)" "plus_to_spaces (fst f) = fst f"
    using assms(2) uri_char_not plus_to_spaces_uri [of "fst f"] by (auto simp: list_all_iff uri_char_def)
  note v = decode_form_value [OF t(1)]
  then show "38 \<notin> set s" using t(2) name by auto
  have "61 \<notin> set (plus_to_spaces (spaces_to_plus t))" using v by (auto simp: plus_to_spaces_def split: if_splits)
  moreover have "plus_to_spaces s = fst f @ 61 # plus_to_spaces (spaces_to_plus t)" using t(2) name(3) by (simp add: plus_to_spaces_def)
  ultimately have "split_at 61 (plus_to_spaces s) = [fst f, plus_to_spaces (spaces_to_plus t)]"
    using name by (simp add: split_at_append split_at_none)
  moreover have "plus_to_spaces (spaces_to_plus t) = [] \<Longrightarrow> snd f = []" using v by auto
  ultimately show "search_param (plus_to_spaces s) = Inr f"
    using v decode_plain [OF assms(2)] by (cases f; simp add: search_param_def Let_def)
qed

lemma form_round:
  assumes "map_result form_field fs = Inr ss" "list_all (\<lambda>f. list_all uri_unreserved (fst f)) fs"
  shows "parse_form (join_with [38] ss) = Inr fs"
proof -
  have ss: "list_all2 (\<lambda>f t. form_field f = Inr t) fs ss" using assms(1) by (simp add: map_result_Inr_iff)
  show ?thesis
  proof (cases "ss = []")
    case True
    then show ?thesis using ss by (simp add: parse_form_def)
  next
    case False
    have "list_all (\<lambda>x. 38 \<notin> set x) ss" "list_all2 (\<lambda>t f. search_param (plus_to_spaces t) = Inr f) ss fs"
      using ss assms(2) form_field_read by (induction rule: list_all2_induct) auto
    moreover have "join_with [38] ss \<noteq> []"
    proof -
      obtain t ts where t: "ss = t # ts" using False by (cases ss) auto
      then have "t \<noteq> []" using ss form_field_ne by (auto simp: list_all2_Cons2)
      then show ?thesis using t by (cases ts) auto
    qed
    ultimately show ?thesis using False split_join by (simp add: parse_form_def map_result_Inr_iff)
  qed
qed

lemma form_read:
  assumes "buildFormData data = Inr body" "list_all (\<lambda>(k, v). list_all uri_unreserved k) data"
  shows "parse_form body = Inr [(k, v). (k, Some v) \<leftarrow> data, v \<noteq> []]"
proof -
  let ?fs = "[(k, v). (k, Some v) \<leftarrow> data, v \<noteq> []]"
  obtain ss where "map_result form_field ?fs = Inr ss" "body = join_with [38] ss"
    using assms(1) by (auto simp: buildFormData_def map_sum_def split: sum.splits)
  moreover have "list_all (\<lambda>f. list_all uri_unreserved (fst f)) ?fs"
    using assms(2) by (fastforce simp: list_all_iff split: option.splits if_splits)
  ultimately show ?thesis using form_round by simp
qed

text \<open>A server that reads the form that \<open>buildFormData\<close> writes finds exactly the fields with a value, in order and unchanged.\<close>

theorem form_data_read:
  assumes "buildFormData data = Inr body" "list_all (\<lambda>(k, v). list_all uri_unreserved k) data"
  shows "parse_form body = Inr [(k, v). (k, Some v) \<leftarrow> data, v \<noteq> []]"
  using assms by (rule form_read)

theorem form_data_read_witness:
  "\<exists>body. buildFormData [(js ''grant_type'', Some (js ''password'')), (js ''scope'', Some (js ''a b+c'')), (js ''x'', None)] = Inr body \<and>
     parse_form body = Inr [(js ''grant_type'', js ''password''), (js ''scope'', js ''a b+c'')]"
proof -
  let ?d = "[(js ''grant_type'', Some (js ''password'')), (js ''scope'', Some (js ''a b+c'')), (js ''x'', None)]"
  have b: "buildFormData ?d = Inr (js ''grant_type=password&scope=a+b%2Bc'')" by code_simp
  have "list_all (\<lambda>(k, v :: jstr option). list_all uri_unreserved k) ?d" by code_simp
  from form_data_read [OF b this] b show ?thesis by (simp add: js_def)
qed

section \<open>Basic authentication\<close>

text \<open>The text that stands for the UTF-8 form of the argument.\<close>

lemma btoa_bytes:
  assumes "represents Utf8 s bs" "length bs \<le> 2147483647"
  shows "btoa m s = Inr (fromByteArray bs)"
proof -
  have "encoding_switch (js ''utf-8'') = Some Utf8" "js ''utf-8'' \<noteq> []" by code_simp+
  from fromString_round [OF assms this, of m] obtain b m' where b: "fromString m s (Some (js ''utf-8'')) = Inr (b, m')" "contents m' b = bs"
    by blast
  have e: "encoding_switch (js ''base64'') = Some Base64_enc" "js ''base64'' \<noteq> []" by code_simp+
  have "toString bs (Some (Some (js ''base64''), None, None)) = Inr (fromByteArray bs)"
  proof (cases "bs = []")
    case True
    then show ?thesis by (simp add: toString_def to_int32_def fromByteArray_sextets pad_count_def)
  next
    case False
    then show ?thesis using toString_all [OF e False assms(2)] by (simp add: slice_text_def base64Slice_def)
  qed
  then show ?thesis using b by (simp add: btoa_def Buffer_def buffer_from_def val_string_def)
qed

section \<open>Links\<close>

text \<open>
  An address of the two schemes that the code knows as dangerous, as a browser reads it: after leading blanks and without
  tabs and line breaks, its scheme is \<open>javascript\<close> or \<open>data\<close> in any case.
\<close>

definition script_or_data :: "jstr \<Rightarrow> bool" where
  "script_or_data url \<longleftrightarrow>
     (let s = dropWhile (\<lambda>c. uint c \<le> 32) (filter (\<lambda>c. c \<notin> {9, 10, 13}) url)
      in 58 \<in> set s \<and> toLowerCase (takeWhile (\<lambda>c. c \<noteq> 58) s) \<in> {js ''javascript'', js ''data''})"

lemma printable_filter: "list_all not_control r \<Longrightarrow> filter (\<lambda>c. c \<notin> {9, 10, 13}) r = r"
  by (auto simp: filter_id_conv list_all_iff not_control_def)

lemma skip_spaces_blank: "list_all js_space sp \<Longrightarrow> skip_spaces (sp @ s) = skip_spaces s"
  by (induction sp) (simp_all add: skip_spaces.simps [of "_ # _"])

lemma lower_eq_letter:
  assumes "toLowerCase (c # s) = x # t" "x = 106 \<or> x = 100"
  shows "\<not> js_space c" "c \<noteq> 37" "c \<noteq> 46" "c \<noteq> 47"
  using assms by (auto simp: toLowerCase_def lower_unit_def js_space_def split: if_splits)

lemma code_scheme_head:
  assumes "toLowerCase s \<in> {js ''javascript'', js ''data''}"
  obtains c t where "s = c # t" "\<not> js_space c" "c \<noteq> 37" "c \<noteq> 46" "c \<noteq> 47"
proof (cases s)
  case Nil
  then show thesis using assms by (simp add: toLowerCase_def js_def)
next
  case (Cons c t)
  then obtain x u where "toLowerCase (c # t) = x # u" "x = 106 \<or> x = 100" using assms by (auto simp: js_def)
  from lower_eq_letter [OF this] Cons that show thesis by blast
qed

lemma invalid_of_code:
  assumes "list_all js_space sp" "toLowerCase s \<in> {js ''javascript'', js ''data''}"
  shows "invalidProtocol (sp @ s @ [58])"
proof -
  obtain c t where c: "s = c # t" "\<not> js_space c" "c \<noteq> 37" using code_scheme_head [OF assms(2)] by blast
  have "skip_spaces (s @ [58]) = s @ [58]" using c by (simp add: skip_spaces.simps [of "c # t @ [58]"] js_def)
  then have "skip_spaces (sp @ s @ [58]) = s @ [58]" using skip_spaces_blank [OF assms(1)] by simp
  moreover have "toLowerCase (s @ [58]) = toLowerCase s @ [58]" by (simp add: toLowerCase_def lower_unit_def)
  ultimately show ?thesis using assms(2) by (auto simp: invalidProtocol_def starts_with_def)
qed

lemma takeWhile_less: "x \<in> set s \<Longrightarrow> \<not> P x \<Longrightarrow> length (takeWhile P s) < length s"
  by (induction s) auto

lemma code_needs_scheme:
  assumes "list_all not_control r" "script_or_data r"
  shows "\<not> isRelativeUrl r" "\<exists>scheme. url_scheme r = Some scheme \<and> invalidProtocol scheme"
proof -
  define sp where "sp = takeWhile (\<lambda>c. uint c \<le> 32) r"
  define s where "s = dropWhile (\<lambda>c. uint c \<le> 32) r"
  have r: "r = sp @ s" by (simp add: sp_def s_def)
  have code: "58 \<in> set s" "toLowerCase (takeWhile (\<lambda>c. c \<noteq> 58) s) \<in> {js ''javascript'', js ''data''}"
    using assms printable_filter by (auto simp: script_or_data_def s_def Let_def)
  obtain c t where c: "takeWhile (\<lambda>c. c \<noteq> 58) s = c # t" "c \<noteq> 46" "c \<noteq> 47" using code_scheme_head [OF code(2)] by blast
  then have hd: "hd s = c" "s \<noteq> []" by (cases s; auto split: if_splits)+
  have "uint c = 32" if "c \<in> set sp" for c
    using that assms(1) by (auto simp: sp_def list_all_iff not_control_def dest!: set_takeWhileD)
  then have sp: "list_all js_space sp" "list_all (\<lambda>c. c \<noteq> 58 \<and> c \<noteq> 46 \<and> c \<noteq> 47) sp"
    by (fastforce simp: list_all_iff js_space_def)+
  show "\<not> isRelativeUrl r" using sp(2) hd c unfolding r isRelativeUrl_def by (cases sp) auto
  have tw: "takeWhile (\<lambda>c. c \<noteq> 58) r = sp @ takeWhile (\<lambda>c. c \<noteq> 58) s" unfolding r using sp(2) by (simp add: list_all_iff)
  have "length (takeWhile (\<lambda>c. c \<noteq> 58) s) < length s" by (rule takeWhile_less [OF code(1)]) simp
  moreover have "length r = length sp + length s" unfolding r by simp
  ultimately have "url_scheme r = Some (sp @ takeWhile (\<lambda>c. c \<noteq> 58) s @ [58])"
    unfolding url_scheme_def tw Let_def using c(1) by simp
  then show "\<exists>scheme. url_scheme r = Some scheme \<and> invalidProtocol scheme" using invalid_of_code [OF sp(1) code(2)] by blast
qed

lemma sanitizeUrl_blank: "sanitizeUrl about_blank = about_blank" "list_all not_control about_blank" "\<not> script_or_data about_blank"
  by code_simp+

lemma sanitizeUrl_cases:
  obtains "sanitizeUrl url = about_blank"
  | "list_all not_control (sanitizeUrl url)" "isRelativeUrl (sanitizeUrl url)"
  | scheme where "list_all not_control (sanitizeUrl url)" "\<not> isRelativeUrl (sanitizeUrl url)"
      "url_scheme (sanitizeUrl url) = Some scheme" "\<not> invalidProtocol scheme"
proof -
  let ?u = "filter not_control url"
  have p: "list_all not_control ?u" by (simp add: list_all_iff)
  show thesis
  proof (cases "isRelativeUrl ?u")
    case True
    then show thesis using that(2) p by (simp add: sanitizeUrl_def Let_def)
  next
    case False
    show thesis
    proof (cases "url_scheme ?u")
      case None
      then show thesis using that(1) False by (simp add: sanitizeUrl_def Let_def)
    next
      case (Some scheme)
      then show thesis using that(1) that(3) False p
        by (cases "invalidProtocol scheme") (simp_all add: sanitizeUrl_def Let_def)
    qed
  qed
qed

text \<open>
  An address that has nothing to clean: printable, and relative or with a scheme of letters, digits, \<open>+\<close>, \<open>-\<close> and \<open>.\<close>
  that does not begin with one of the two names.
\<close>

definition letter :: "code_unit \<Rightarrow> bool" where
  "letter c \<longleftrightarrow> 65 \<le> uint c \<and> uint c \<le> 90 \<or> 97 \<le> uint c \<and> uint c \<le> 122"

definition harmless :: "jstr \<Rightarrow> bool" where
  "harmless u \<longleftrightarrow> list_all not_control u \<and>
     (isRelativeUrl u \<or>
      (\<exists>p s. u = p @ 58 # s \<and> p \<noteq> [] \<and> letter (hd p) \<and> list_all (\<lambda>c. letter c \<or> 48 \<le> uint c \<and> uint c \<le> 57 \<or> c \<in> {43, 45, 46}) p \<and>
        \<not> starts_with (js ''javascript'') (toLowerCase p) \<and> \<not> starts_with (js ''data'') (toLowerCase p)))"

lemma starts_with_snoc: "c \<notin> set q \<Longrightarrow> starts_with q (l @ [c]) \<longleftrightarrow> starts_with q l"
proof -
  assume c: "c \<notin> set q"
  show ?thesis
  proof (cases "length q \<le> length l")
    case False
    then have "take (length q) (l @ [c]) = l @ [c]" "take (length q) l = l" by simp_all
    then show ?thesis using c False by (auto simp: starts_with_def)
  qed (simp add: starts_with_def)
qed

lemma split_first:
  assumes "d \<notin> set s"
  shows "takeWhile (\<lambda>c. c \<noteq> d) (s @ d # t) = s" "dropWhile (\<lambda>c. c \<noteq> d) (s @ d # t) = d # t"
  using assms by (induction s) auto

lemma harmless_kept:
  assumes "harmless u"
  shows "sanitizeUrl u = u"
proof -
  have f: "filter not_control u = u" using assms by (simp add: harmless_def list_all_iff filter_id_conv)
  show ?thesis
  proof (cases "isRelativeUrl u")
    case False
    then obtain p s where u: "u = p @ 58 # s" "p \<noteq> []" "letter (hd p)" "list_all (\<lambda>c. letter c \<or> 48 \<le> uint c \<and> uint c \<le> 57 \<or> c \<in> {43, 45, 46}) p"
      "\<not> starts_with (js ''javascript'') (toLowerCase p)" "\<not> starts_with (js ''data'') (toLowerCase p)"
      using assms by (auto simp: harmless_def)
    have "58 \<notin> set p" using u(4) by (auto simp: list_all_iff letter_def)
    then have "takeWhile (\<lambda>c. c \<noteq> 58) u = p" unfolding u(1) by (rule split_first)
    then have "url_scheme u = Some (p @ [58])" using u(1,2) by (simp add: url_scheme_def Let_def)
    moreover have "\<not> js_space (hd p)" "hd p \<noteq> 37" using u(3) by (auto simp: letter_def js_space_def)
    then have "skip_spaces (p @ [58]) = p @ [58]" using u(2) by (cases p) (simp_all add: skip_spaces.simps [of "_ # _ @ [58]"] js_def)
    moreover have "toLowerCase (p @ [58]) = toLowerCase p @ [58]" by (simp add: toLowerCase_def lower_unit_def)
    moreover have "58 \<notin> set (js ''javascript'')" "58 \<notin> set (js ''data'')" by (simp_all add: js_def)
    ultimately show ?thesis using f False u(5,6) by (simp add: sanitizeUrl_def invalidProtocol_def starts_with_snoc Let_def)
  qed (simp add: sanitizeUrl_def f Let_def)
qed

text \<open>C7: an address of the specification that becomes a link has only printable characters and, whatever blanks, control characters
  and capital letters it had, is not one with the scheme \<open>javascript\<close> or \<open>data\<close>; cleaning it again changes nothing, and an
  address that is printable and relative, or that has a scheme with another name, is kept as it is.\<close>

theorem link_no_script_or_data:
  "\<not> script_or_data (utils_sanitizeUrl url) \<and> list_all not_control (utils_sanitizeUrl url) \<and>
   utils_sanitizeUrl (Some (utils_sanitizeUrl url)) = utils_sanitizeUrl url \<and>
   (\<forall>u. url = Some u \<and> harmless u \<longrightarrow> utils_sanitizeUrl url = u)"
proof (cases "url = None \<or> url = Some []")
  case True
  then show ?thesis by (auto simp: utils_sanitizeUrl_def script_or_data_def)
next
  case False
  then obtain u where "url = Some u" "u \<noteq> []" by auto
  then have "utils_sanitizeUrl url = sanitizeUrl u" by (simp add: utils_sanitizeUrl_def)
  moreover have "\<not> script_or_data (sanitizeUrl u) \<and> list_all not_control (sanitizeUrl u) \<and> sanitizeUrl (sanitizeUrl u) = sanitizeUrl u"
  proof (cases u rule: sanitizeUrl_cases)
    case 1
    then show ?thesis using sanitizeUrl_blank by simp
  next
    case 2
    then show ?thesis using code_needs_scheme(1) by (auto simp: sanitizeUrl_def [of "sanitizeUrl u"] list_all_iff filter_id_conv Let_def)
  next
    case (3 scheme)
    then show ?thesis using code_needs_scheme(2)
      by (fastforce simp: sanitizeUrl_def [of "sanitizeUrl u"] list_all_iff filter_id_conv Let_def)
  qed
  ultimately show ?thesis using harmless_kept \<open>url = Some u\<close> by (simp add: utils_sanitizeUrl_def)
qed

theorem link_no_script_or_data_witness:
  "utils_sanitizeUrl (Some (js ''https://a.b/c'')) = js ''https://a.b/c''"
proof -
  have "js ''https://a.b/c'' = js ''https'' @ 58 # js ''//a.b/c''" by (simp add: js_def)
  moreover have "js ''https'' \<noteq> []" "letter (hd (js ''https''))" "list_all not_control (js ''https://a.b/c'')"
    "list_all (\<lambda>c. letter c \<or> 48 \<le> uint c \<and> uint c \<le> 57 \<or> c \<in> {43, 45, 46}) (js ''https'')"
    "\<not> starts_with (js ''javascript'') (toLowerCase (js ''https''))" "\<not> starts_with (js ''data'') (toLowerCase (js ''https''))"
    by code_simp+
  ultimately have "harmless (js ''https://a.b/c'')" unfolding harmless_def by blast
  then show ?thesis using link_no_script_or_data [of "Some (js ''https://a.b/c'')"] by simp
qed

end
