(* ===== verification/Web_Auth.thy ===== *)
theory Web_Auth
  imports Web_Url_Laws
begin

text \<open>
  The requests with which the application asks an authorization server for a token: user name and password,
  the credentials of the application, and an authorization code, sent in a form or in the header of basic
  authentication.  The server is specified by how it reads them.
\<close>

section \<open>The actions\<close>

text \<open>The object \<open>auth\<close>; \<open>None\<close> is \<open>undefined\<close>, and \<open>tokenUrl\<close> is \<open>schema.get("tokenUrl")\<close>.\<close>

record auth =
  auth_name :: jstr
  username :: "jstr option"
  password :: "jstr option"
  passwordType :: "jstr option"
  clientId :: "jstr option"
  clientSecret :: "jstr option"
  scopes :: "jstr list"
  auth_code :: "jstr option"
  tokenUrl :: jstr

text \<open>The argument of \<open>authorizeRequest\<close>.\<close>

record auth_request =
  body :: jstr
  url :: jstr
  req_name :: jstr
  headers :: fields
  query :: fields

text \<open>A value in the sum with a string.\<close>

definition text_of :: "jstr option \<Rightarrow> jstr" where
  "text_of v = (case v of None \<Rightarrow> js ''undefined'' | Some s \<Rightarrow> s)"

definition truthy :: "jstr option \<Rightarrow> bool" where
  "truthy v \<longleftrightarrow> v \<noteq> None \<and> v \<noteq> Some []"

text \<open>\<open>"Basic " + btoa(user + ":" + secret)\<close>\<close>

definition basic :: "mem \<Rightarrow> jstr option \<Rightarrow> jstr option \<Rightarrow> jstr result" where
  "basic m user secret = map_sum id ((@) (js ''Basic '')) (btoa m (text_of user @ 58 # text_of secret))"

definition auth_request :: "auth \<Rightarrow> (jstr \<times> jstr option) list \<Rightarrow> fields \<Rightarrow> fields \<Rightarrow> auth_request result" where
  "auth_request a form hs q =
     map_sum id (\<lambda>b. \<lparr>body = b, url = tokenUrl a, req_name = auth_name a, headers = hs, query = q\<rparr>) (buildFormData form)"

definition with_header :: "jstr result \<Rightarrow> (fields \<Rightarrow> 'a result) \<Rightarrow> 'a result" where
  "with_header h k = (case h of Inl e \<Rightarrow> Inl e | Inr v \<Rightarrow> k [(js ''Authorization'', v)])"

definition scope_field :: "auth \<Rightarrow> jstr \<times> jstr option" where
  "scope_field a = (js ''scope'', Some (join_with [32] (scopes a)))"

definition authorizePassword :: "mem \<Rightarrow> auth \<Rightarrow> auth_request result" where
  "authorizePassword m a =
     (let form = [(js ''grant_type'', Some (js ''password'')), scope_field a];
          form' = form @ [(js ''username'', username a), (js ''password'', password a)]
      in if passwordType a = Some (js ''basic'')
         then with_header (basic m (username a) (password a)) (\<lambda>hs. auth_request a form hs [])
         else if passwordType a = Some (js ''query'')
         then auth_request a form' []
                ((if truthy (clientId a) then [(js ''client_id'', text_of (clientId a))] else []) @
                 (if truthy (clientSecret a) then [(js ''client_secret'', text_of (clientSecret a))] else []))
         else with_header (basic m (clientId a) (clientSecret a)) (\<lambda>hs. auth_request a form' hs []))"

definition authorizeApplication :: "mem \<Rightarrow> auth \<Rightarrow> auth_request result" where
  "authorizeApplication m a =
     with_header (basic m (clientId a) (clientSecret a)) (\<lambda>hs.
       auth_request a [(js ''grant_type'', Some (js ''client_credentials'')), scope_field a] hs [])"

definition authorizeAccessCodeWithFormParams :: "auth \<Rightarrow> jstr option \<Rightarrow> auth_request result" where
  "authorizeAccessCodeWithFormParams a redirectUrl =
     auth_request a [(js ''grant_type'', Some (js ''authorization_code'')), (js ''code'', auth_code a), (js ''client_id'', clientId a),
       (js ''client_secret'', clientSecret a), (js ''redirect_uri'', redirectUrl)] [] []"

definition authorizeAccessCodeWithBasicAuthentication :: "mem \<Rightarrow> auth \<Rightarrow> jstr option \<Rightarrow> auth_request result" where
  "authorizeAccessCodeWithBasicAuthentication m a redirectUrl =
     with_header (basic m (clientId a) (clientSecret a)) (\<lambda>hs.
       auth_request a [(js ''grant_type'', Some (js ''authorization_code'')), (js ''code'', auth_code a), (js ''client_id'', clientId a),
         (js ''redirect_uri'', redirectUrl)] hs [])"

section \<open>The server\<close>

text \<open>The user and the secret in a header of basic authentication: the text before and after the first colon.\<close>

definition credentials :: "jstr \<Rightarrow> (jstr \<times> jstr) option" where
  "credentials h =
     (if take 6 h = js ''Basic '' then
        (case base64ToBytes (drop 6 h) of
           Inl e \<Rightarrow> None
         | Inr bs \<Rightarrow> (let t = utf8Slice bs 0 (int (length bs))
                     in Some (takeWhile (\<lambda>c. c \<noteq> 58) t, drop 1 (dropWhile (\<lambda>c. c \<noteq> 58) t))))
      else None)"

definition server_reads :: "auth_request \<Rightarrow> fields \<Rightarrow> (jstr \<times> jstr) option \<Rightarrow> bool" where
  "server_reads r form cred \<longleftrightarrow> parse_form (body r) = Inr form \<and>
     (case cred of None \<Rightarrow> headers r = [] | Some c \<Rightarrow> map fst (headers r) = [js ''Authorization''] \<and> credentials (snd (hd (headers r))) = Some c)"

text \<open>Text without lone surrogates, short enough for a buffer.\<close>

definition text_ok :: "jstr \<Rightarrow> bool" where
  "text_ok s \<longleftrightarrow> (\<exists>bs. represents Utf8 s bs \<and> length bs \<le> 2147483647)"

definition present :: "(jstr \<times> jstr option) list \<Rightarrow> fields" where
  "present form = [(k, v). (k, Some v) \<leftarrow> form, v \<noteq> []]"

section \<open>What the server reads\<close>

lemma encode_scalar:
  assumes "is_scalar cp" "encodeURIComponent s = Inr t"
  shows "\<exists>t'. encodeURIComponent (fromCharCodes (utf16 cp) @ s) = Inr t'"
proof (cases "cp < 65536")
  case True
  then have "uint (word_of_int cp :: code_unit) = cp" using assms(1) by (intro uint_unit) (auto simp: is_scalar_def)
  then show ?thesis using True assms by (auto simp: utf16_def is_scalar_def)
next
  case False
  let ?c = "55296 + (cp - 65536) div 1024" and ?d = "56320 + (cp - 65536) mod 1024"
  have r: "0 \<le> (cp - 65536) div 1024" "(cp - 65536) div 1024 < 1024" "0 \<le> (cp - 65536) mod 1024" "(cp - 65536) mod 1024 < 1024"
    using False assms(1) by (auto simp: is_scalar_def)
  then have u: "uint (word_of_int ?c :: code_unit) = ?c" "uint (word_of_int ?d :: code_unit) = ?d"
    by (intro uint_unit; linarith)+
  have "\<not> uri_unreserved (word_of_int ?c)" using r u by (auto simp: uri_unreserved_def js_def Let_def word_uint_eq_iff)
  then show ?thesis using False assms(2) r u by (simp add: utf16_def)
qed

lemma encode_ok:
  assumes "text_ok s"
  shows "\<exists>t. encodeURIComponent s = Inr t"
proof -
  have "\<forall>cp \<in> set cps. is_scalar cp \<Longrightarrow> \<exists>t. encodeURIComponent (utf16_string cps) = Inr t" for cps
  proof (induction cps)
    case (Cons cp cps)
    then obtain t where "encodeURIComponent (utf16_string cps) = Inr t" by auto
    from encode_scalar [OF _ this, of cp] Cons.prems show ?case by auto
  qed simp
  then show ?thesis using assms by (auto simp: text_ok_def represents_def)
qed

lemma form_ok:
  assumes "list_all (\<lambda>(k, v). list_all uri_unreserved k \<and> (case v of None \<Rightarrow> True | Some s \<Rightarrow> text_ok s)) form"
  shows "\<exists>b. buildFormData form = Inr b \<and> parse_form b = Inr (present form)"
proof -
  have "\<exists>ss. map_result form_field fs = Inr ss" if "list_all (\<lambda>(k, v). text_ok v) fs" for fs
    using that
  proof (induction fs)
    case (Cons f fs)
    from Cons obtain ss where "map_result form_field fs = Inr ss" by auto
    moreover obtain t where "encodeURIComponent (snd f) = Inr t" using Cons.prems encode_ok [of "snd f"] by (cases f) auto
    ultimately show ?case by (simp add: form_field_def [of f])
  qed simp
  moreover have "list_all (\<lambda>(k, v). text_ok v) (present form)"
    using assms by (fastforce simp: present_def list_all_iff split: option.splits if_splits)
  ultimately obtain ss where "map_result form_field (present form) = Inr ss" by blast
  then have "buildFormData form = Inr (join_with [38] ss)" by (simp add: buildFormData_def present_def)
  moreover have "list_all (\<lambda>(k, v). list_all uri_unreserved k) form" using assms by (auto simp: list_all_iff)
  ultimately show ?thesis using form_read [of form] by (auto simp: present_def)
qed

lemma basic_credentials:
  assumes "text_ok (text_of u @ 58 # text_of p)" "58 \<notin> set (text_of u)"
  shows "\<exists>h. basic m u p = Inr h \<and> credentials h = Some (text_of u, text_of p)"
proof -
  let ?t = "text_of u @ 58 # text_of p"
  obtain bs where bs: "represents Utf8 ?t bs" "length bs \<le> 2147483647" using assms(1) by (auto simp: text_ok_def)
  have "utf8Slice bs 0 (int (length bs)) = ?t" using utf8_codec.text_law [OF bs] .
  then have "credentials (js ''Basic '' @ fromByteArray bs) = Some (text_of u, text_of p)"
    using split_first [OF assms(2), of "text_of p"] by (simp add: credentials_def base64ToBytes_encoded js_def Let_def)
  then show ?thesis using btoa_bytes [OF bs] by (simp add: basic_def)
qed

lemma request_read:
  assumes "list_all (\<lambda>(k, v). list_all uri_unreserved k \<and> (case v of None \<Rightarrow> True | Some s \<Rightarrow> text_ok s)) form"
  shows "\<exists>r. auth_request a form hs q = Inr r \<and> parse_form (body r) = Inr (present form) \<and> headers r = hs \<and> query r = q \<and> url r = tokenUrl a"
  using form_ok [OF assms] by (auto simp: auth_request_def)

lemma basic_request_read:
  assumes "list_all (\<lambda>(k, v). list_all uri_unreserved k \<and> (case v of None \<Rightarrow> True | Some s \<Rightarrow> text_ok s)) form"
    and "text_ok (text_of u @ 58 # text_of p)" "58 \<notin> set (text_of u)"
  shows "\<exists>r. with_header (basic m u p) (\<lambda>hs. auth_request a form hs []) = Inr r \<and> url r = tokenUrl a \<and> server_reads r (present form) (Some (text_of u, text_of p)) \<and>
    query r = []"
proof -
  obtain h where h: "basic m u p = Inr h" "credentials h = Some (text_of u, text_of p)" using basic_credentials [OF assms(2,3)] by blast
  from request_read [OF assms(1), of a "[(js ''Authorization'', h)]" "[]"] h show ?thesis
    by (auto simp: with_header_def server_reads_def)
qed

text \<open>The texts of an authorization that are sent.\<close>

definition auth_ok :: "auth \<Rightarrow> bool" where
  "auth_ok a \<longleftrightarrow> text_ok (join_with [32] (scopes a)) \<and> list_all (\<lambda>v. text_ok (text_of v)) [username a, password a, clientId a, clientSecret a] \<and>
     list_all (\<lambda>(u, p). text_ok (text_of u @ 58 # text_of p) \<and> 58 \<notin> set (text_of u)) [(username a, password a), (clientId a, clientSecret a)]"

lemma ascii_text_ok:
  assumes "list_all (\<lambda>c. uint c < 128) s" "length s \<le> 2147483647"
  shows "text_ok s"
proof -
  have "utf16_string (map uint s) = s" "utf8_bytes (map uint s) = map uint s"
    using assms(1) by (induction s) (auto simp: utf16_def utf8_sequence_def)
  moreover have "\<forall>cp \<in> set (map uint s). is_scalar cp" using assms(1) by (auto simp: list_all_iff is_scalar_def)
  ultimately have "represents Utf8 s (map (word_of_int \<circ> uint) s)"
    unfolding represents_def encoding.case by (intro exI [of _ "map uint s"]) simp
  then show ?thesis using assms(2) unfolding text_ok_def by (intro exI [of _ "map (word_of_int \<circ> uint) s"]) simp
qed

lemma name_chars:
  "list_all uri_unreserved (js ''grant_type'')" "list_all uri_unreserved (js ''scope'')" "list_all uri_unreserved (js ''username'')"
  "list_all uri_unreserved (js ''password'')"
  by code_simp+

lemma grant_ok: "text_ok (js ''password'')"
  by (rule ascii_text_ok) (simp_all add: js_def)

lemma option_text_ok: "text_ok (text_of v) \<Longrightarrow> (case v of None \<Rightarrow> True | Some s \<Rightarrow> text_ok s)"
  by (cases v) (simp_all add: text_of_def)

lemma present_client:
  "present [(js ''client_id'', clientId a), (js ''client_secret'', clientSecret a)] =
   (if truthy (clientId a) then [(js ''client_id'', text_of (clientId a))] else []) @
   (if truthy (clientSecret a) then [(js ''client_secret'', text_of (clientSecret a))] else [])"
  by (cases "clientId a"; cases "clientSecret a") (simp_all add: present_def truthy_def text_of_def)

text \<open>C18: the request of the password flow reaches the token address as it is meant, for texts without lone surrogates and for a user name
  and an application name without a colon.  With the type \<open>basic\<close> the user name and the password are what the server reads from
  the header, and they are not in the form.  Otherwise they are fields of the form, and the credentials of the application are
  what the server reads from the header; with the type \<open>query\<close> there is no header, and the query has the name and the
  secret of the application, each one under its own key when it is given and not empty, and nothing else.\<close>

theorem password_request_read:
  assumes "auth_ok a"
  shows "\<exists>r. authorizePassword m a = Inr r \<and> url r = tokenUrl a \<and>
    (let form = [(js ''grant_type'', Some (js ''password'')), scope_field a];
         form' = form @ [(js ''username'', username a), (js ''password'', password a)]
     in if passwordType a = Some (js ''basic'')
        then server_reads r (present form) (Some (text_of (username a), text_of (password a))) \<and> query r = []
        else if passwordType a = Some (js ''query'') then server_reads r (present form') None \<and>
          query r = present [(js ''client_id'', clientId a), (js ''client_secret'', clientSecret a)]
        else server_reads r (present form') (Some (text_of (clientId a), text_of (clientSecret a))) \<and> query r = [])"
proof -
  let ?f = "[(js ''grant_type'', Some (js ''password'')), scope_field a]"
  let ?g = "?f @ [(js ''username'', username a), (js ''password'', password a)]"
  have ok: "text_ok (text_of (username a))" "text_ok (text_of (password a))" "text_ok (join_with [32] (scopes a))"
    using assms by (auto simp: auth_ok_def)
  have f: "list_all (\<lambda>(k, v). list_all uri_unreserved k \<and> (case v of None \<Rightarrow> True | Some s \<Rightarrow> text_ok s)) ?f"
    using ok(3) name_chars grant_ok by (simp add: scope_field_def)
  have g: "list_all (\<lambda>(k, v). list_all uri_unreserved k \<and> (case v of None \<Rightarrow> True | Some s \<Rightarrow> text_ok s)) ?g"
    using f option_text_ok [OF ok(1)] option_text_ok [OF ok(2)] name_chars by simp
  have user: "text_ok (text_of (username a) @ 58 # text_of (password a))" "58 \<notin> set (text_of (username a))"
    and client: "text_ok (text_of (clientId a) @ 58 # text_of (clientSecret a))" "58 \<notin> set (text_of (clientId a))"
    using assms by (auto simp: auth_ok_def)
  consider "passwordType a = Some (js ''basic'')" | "passwordType a = Some (js ''query'')" "passwordType a \<noteq> Some (js ''basic'')"
    | "passwordType a \<noteq> Some (js ''query'')" "passwordType a \<noteq> Some (js ''basic'')" by blast
  then show ?thesis
  proof cases
    case 1
    then show ?thesis using basic_request_read [OF f user, of m a] by (simp add: authorizePassword_def Let_def)
  next
    case 2
    then show ?thesis using request_read [OF g, of a "[]"] present_client [of a] by (auto simp: authorizePassword_def Let_def server_reads_def)
  next
    case 3
    then show ?thesis using basic_request_read [OF g client, of m a] by (simp add: authorizePassword_def Let_def)
  qed
qed

text \<open>An authorization whose password has a colon and the separators of forms.\<close>

definition sample_auth :: auth where
  "sample_auth = \<lparr>auth_name = js ''oauth'', username = Some (js ''ann''), password = Some (js ''p:w &=''), passwordType = Some (js ''basic''),
     clientId = Some (js ''app''), clientSecret = None, scopes = [js ''read'', js ''write''], auth_code = None, tokenUrl = js ''/token''\<rparr>"

lemma sample_auth_ok: "auth_ok sample_auth"
proof -
  have "text_ok (js s)" if "list_all (\<lambda>c. uint c < 128) (js s)" "length s < 100" for s
    using ascii_text_ok [of "js s"] that by (simp add: length_js)
  from this [of "''read write''"] this [of "''ann''"] this [of "''p:w &=''"] this [of "''app''"] this [of "''undefined''"]
    this [of "''ann:p:w &=''"] this [of "''app:undefined''"]
  show ?thesis by (simp add: auth_ok_def sample_auth_def text_of_def js_def)
qed

theorem password_request_read_witness:
  "(\<exists>r. authorizePassword \<lparr>arrays = [], next_id = 0\<rparr> sample_auth = Inr r \<and>
     server_reads r [(js ''grant_type'', js ''password''), (js ''scope'', js ''read write'')] (Some (js ''ann'', js ''p:w &=''))) \<and>
   (\<exists>r. authorizePassword \<lparr>arrays = [], next_id = 0\<rparr> (sample_auth\<lparr>passwordType := Some (js ''query'')\<rparr>) = Inr r \<and>
     query r = [(js ''client_id'', js ''app'')])"
proof
  have p: "present [(js ''grant_type'', Some (js ''password'')), scope_field sample_auth] =
      [(js ''grant_type'', js ''password''), (js ''scope'', js ''read write'')]" by code_simp
  have "passwordType sample_auth = Some (js ''basic'')" "text_of (username sample_auth) = js ''ann''" "text_of (password sample_auth) = js ''p:w &=''"
    by (simp_all add: sample_auth_def text_of_def)
  then show "\<exists>r. authorizePassword \<lparr>arrays = [], next_id = 0\<rparr> sample_auth = Inr r \<and>
     server_reads r [(js ''grant_type'', js ''password''), (js ''scope'', js ''read write'')] (Some (js ''ann'', js ''p:w &=''))"
    using password_request_read [OF sample_auth_ok, of "\<lparr>arrays = [], next_id = 0\<rparr>"] p by (auto simp: Let_def)
  let ?a = "sample_auth\<lparr>passwordType := Some (js ''query'')\<rparr>"
  have "present [(js ''client_id'', clientId ?a), (js ''client_secret'', clientSecret ?a)] = [(js ''client_id'', js ''app'')]" by code_simp
  moreover have "auth_ok ?a" "passwordType ?a = Some (js ''query'')" "js ''query'' \<noteq> js ''basic''"
    using sample_auth_ok by (simp_all add: auth_ok_def js_def)
  ultimately show "\<exists>r. authorizePassword \<lparr>arrays = [], next_id = 0\<rparr> ?a = Inr r \<and> query r = [(js ''client_id'', js ''app'')]"
    using password_request_read [of ?a "\<lparr>arrays = [], next_id = 0\<rparr>"] by (auto simp: Let_def)
qed

end
