(* ===== verification/Schema_Sample.thy ===== *)
theory Schema_Sample
  imports Js_Value Web_Url
begin

text \<open>
  The examples that the application shows for the schemas of a specification: \<open>sampleFromSchema\<close> and the
  functions it calls.  Values are trees, as the parser of the specification builds them once references are
  resolved; a schema that contains itself has no such tree, and the code does not end on it.  The current
  time and the text of values that are no strings are parameters.
\<close>

section \<open>Values\<close>

datatype jv =
    JUndef
  | JNull
  | JBool bool
  | JNum dbl
  | JStr jstr
  | JArr "jv list"
  | JObj "(jstr \<times> jv) list"

fun truthy_jv :: "jv \<Rightarrow> bool" where
  "truthy_jv JUndef = False"
| "truthy_jv JNull = False"
| "truthy_jv (JBool b) = b"
| "truthy_jv (JNum n) = (n \<noteq> Fin 0 \<and> n \<noteq> NegZero \<and> n \<noteq> NotANumber)"
| "truthy_jv (JStr s) = (s \<noteq> [])"
| "truthy_jv (JArr vs) = True"
| "truthy_jv (JObj ps) = True"

text \<open>\<open>value.key\<close> for keys that strings, numbers and arrays do not have.\<close>

fun prop_of :: "jv \<Rightarrow> string \<Rightarrow> jv" where
  "prop_of (JObj ps) k = (case map_of ps (js k) of None \<Rightarrow> JUndef | Some v \<Rightarrow> v)"
| "prop_of _ k = JUndef"

text \<open>Keys and values in the order of \<open>for \<dots> in\<close>; the keys of an array are its indices.\<close>

fun decimal_text :: "nat \<Rightarrow> jstr" where
  "decimal_text n = (if n < 10 then [word_of_nat (48 + n)] else decimal_text (n div 10) @ [word_of_nat (48 + n mod 10)])"

declare decimal_text.simps [simp del]

definition key_order :: "(jstr \<times> jv) list \<Rightarrow> (jstr \<times> jv) list" where
  "key_order ps = sort_key (decimal_value \<circ> fst) (filter (is_index_key \<circ> fst) ps) @ filter (\<lambda>p. \<not> is_index_key (fst p)) ps"

fun entries :: "jv \<Rightarrow> (jstr \<times> jv) list" where
  "entries (JObj ps) = key_order ps"
| "entries (JArr vs) = zip (map decimal_text [0..<length vs]) vs"
| "entries _ = []"

section \<open>The utilities\<close>

fun isObject :: "jv \<Rightarrow> bool" where
  "isObject (JArr vs) = True"
| "isObject (JObj ps) = True"
| "isObject _ = False"

definition objectify :: "jv \<Rightarrow> jv" where
  "objectify thing = (if \<not> isObject thing then JObj [] else thing)"

fun normalizeArray :: "jv \<Rightarrow> jv list" where
  "normalizeArray (JArr vs) = vs"
| "normalizeArray v = [v]"

text \<open>\<open>Array.isArray\<close>, with the elements.\<close>

fun array_of :: "jv \<Rightarrow> jv list option" where
  "array_of (JArr vs) = Some vs"
| "array_of v = None"

text \<open>\<open>Object.assign({}, input)\<close> does not copy a key \<open>__proto__\<close> as a property.\<close>

fun deeplyStripKey :: "jstr \<Rightarrow> (jv \<Rightarrow> bool) \<Rightarrow> jv \<Rightarrow> jv" where
  "deeplyStripKey keyToStrip predicate (JObj ps) =
     (if keyToStrip = [] then JObj ps
      else JObj (map (\<lambda>(k, v). (k, deeplyStripKey keyToStrip predicate v))
             (filter (\<lambda>(k, v). k \<noteq> js ''__proto__'' \<and> \<not> (k = keyToStrip \<and> predicate v)) ps)))"
| "deeplyStripKey keyToStrip predicate v = v"

text \<open>\<open>typeof val === "string" && val.indexOf("#") > -1\<close>\<close>

fun is_reference :: "jv \<Rightarrow> bool" where
  "is_reference (JStr s) = (35 \<in> set s)"
| "is_reference _ = False"

section \<open>Samples\<close>

record sample_env =
  iso_now :: jstr
  text_of_value :: "jv \<Rightarrow> jstr"

record sample_config =
  includeReadOnly :: bool
  includeWriteOnly :: bool

text \<open>A string in the sum with another one, or as a key.\<close>

fun to_text :: "sample_env \<Rightarrow> jv \<Rightarrow> jstr" where
  "to_text env (JStr s) = s"
| "to_text env JUndef = js ''undefined''"
| "to_text env v = text_of_value env v"

text \<open>The table \<open>primitives\<close>: a key that it does not have may still be a method that it inherits.\<close>

definition object_methods :: "jstr list" where
  "object_methods = map js [''constructor'', ''hasOwnProperty'', ''isPrototypeOf'', ''propertyIsEnumerable'', ''toLocaleString'', ''toString'',
     ''valueOf'', ''__defineGetter__'', ''__defineSetter__'', ''__lookupGetter__'', ''__lookupSetter__'']"

definition primitives :: "sample_env \<Rightarrow> jv \<Rightarrow> jstr \<Rightarrow> jv option" where
  "primitives env schema key =
     (if key = js ''string'' then Some (JStr (js ''string''))
      else if key = js ''string_email'' then Some (JStr (js ''user@example.com''))
      else if key = js ''string_date-time'' then Some (JStr (iso_now env))
      else if key \<in> set (map js [''number'', ''number_float'', ''integer'']) then Some (JNum (Fin 0))
      else if key = js ''boolean'' then
        Some (JBool (case prop_of schema ''default'' of JBool b \<Rightarrow> b | _ \<Rightarrow> True))
      else None)"

text \<open>A type named like an inherited method calls that method; this is outside of the model and an error in it.\<close>

definition primitive :: "sample_env \<Rightarrow> jv \<Rightarrow> jv result" where
  "primitive env schema =
     (let type = to_text env (prop_of schema ''type''); format = to_text env (prop_of schema ''format'') in
      case primitives env schema (type @ js ''_'' @ format) of
        Some v \<Rightarrow> Inr v
      | None \<Rightarrow>
          (if type @ js ''_'' @ format \<in> set object_methods \<or> type \<in> set object_methods then Inl (PlainError ''inherited method'')
           else case primitives env schema type of
                  Some v \<Rightarrow> Inr v
                | None \<Rightarrow> Inr (JStr (js ''Unknown Type: '' @ type))))"

definition kept :: "sample_config \<Rightarrow> jstr \<times> jv \<Rightarrow> bool" where
  "kept c p \<longleftrightarrow> \<not> (truthy_jv (snd p) \<and>
     (truthy_jv (prop_of (snd p) ''deprecated'') \<or> truthy_jv (prop_of (snd p) ''readOnly'') \<and> \<not> includeReadOnly c \<or>
      truthy_jv (prop_of (snd p) ''writeOnly'') \<and> \<not> includeWriteOnly c))"

text \<open>The type, or the one that \<open>properties\<close> or \<open>items\<close> stand for.\<close>

definition schema_type :: "jv \<Rightarrow> jv option" where
  "schema_type o' =
     (if truthy_jv (prop_of o' ''type'') then Some (prop_of o' ''type'')
      else if truthy_jv (prop_of o' ''properties'') then Some (JStr (js ''object''))
      else if truthy_jv (prop_of o' ''items'') then Some (JStr (js ''array''))
      else None)"

definition put_all :: "(jstr \<times> jv) list \<Rightarrow> (jstr \<times> jv) list \<Rightarrow> (jstr \<times> jv) list" where
  "put_all obj kvs = foldl (\<lambda>o' (k, v). set_prop o' k v) obj kvs"

definition extra_keys :: "jstr list" where
  "extra_keys = map js [''additionalProp1'', ''additionalProp2'', ''additionalProp3'']"

lemma map_result_cong [fundef_cong]:
  "xs = ys \<Longrightarrow> (\<And>x. x \<in> set ys \<Longrightarrow> f x = g x) \<Longrightarrow> map_result f xs = map_result g ys"
proof (induction ys arbitrary: xs)
  case (Cons y ys)
  then show ?case by (auto split: sum.splits)
qed simp

lemma size_entry: "(k, v) \<in> set ps \<Longrightarrow> size v + 1 < size (JObj ps)"
  by (induction ps) auto

lemma size_element: "v \<in> set vs \<Longrightarrow> size v < size (JArr vs)"
  by (induction vs) auto

lemma size_array: "array_of a = Some vs \<Longrightarrow> v \<in> set vs \<Longrightarrow> size v < size a \<and> a \<noteq> JUndef"
  by (cases a) (auto dest: size_element)

lemma size_prop: "prop_of s k \<noteq> JUndef \<Longrightarrow> size (prop_of s k) + 1 < size s"
  by (cases "(s, k)" rule: prop_of.cases) (auto split: option.splits dest!: map_of_SomeD size_entry)

lemma set_key_order [simp]: "set (key_order ps) = set ps"
  by (auto simp: key_order_def)

lemma size_entries: "(k, v) \<in> set (entries s) \<Longrightarrow> size v < size s"
proof (cases s)
  case (JArr vs)
  assume "(k, v) \<in> set (entries s)"
  then have "v \<in> set vs" using JArr by (auto dest: set_zip_rightD)
  then show ?thesis using JArr size_element by blast
qed (auto dest: size_entry)

lemma objectify_prop: "prop_of (objectify s) k = prop_of s k"
  by (cases s) (simp_all add: objectify_def)

lemma size_objectify: "size (objectify s) \<le> size s + 1"
  by (cases s) (simp_all add: objectify_def)

lemma entries_objectify: "entries (objectify s) = entries s"
  by (cases s) (simp_all add: objectify_def key_order_def)

function sampleFromSchema :: "sample_env \<Rightarrow> sample_config \<Rightarrow> jv \<Rightarrow> jv result" where
  "sampleFromSchema env c schema =
     (let s = objectify schema; example = prop_of s ''example''; properties = prop_of s ''properties'';
          additionalProperties = prop_of s ''additionalProperties''; items = prop_of s ''items'' in
      if example \<noteq> JUndef then Inr (deeplyStripKey (js ''$$ref'') is_reference example)
      else case schema_type s of
        None \<Rightarrow> Inr JUndef
      | Some type \<Rightarrow>
          if type = JStr (js ''object'') then
            (case map_result (\<lambda>(k, p). map_sum id (Pair k) (sampleFromSchema env c p)) (filter (kept c) (entries (objectify properties))) of
               Inl e \<Rightarrow> Inl e
             | Inr kvs \<Rightarrow>
                 if additionalProperties = JBool True
                 then Inr (JObj (set_prop (put_all [] kvs) (js ''additionalProp1'') (JObj [])))
                 else if truthy_jv additionalProperties then
                   (case sampleFromSchema env c (objectify additionalProperties) of
                      Inl e \<Rightarrow> Inl e
                    | Inr v \<Rightarrow> Inr (JObj (put_all (put_all [] kvs) (map (\<lambda>k. (k, v)) extra_keys))))
                 else Inr (JObj (put_all [] kvs)))
          else if type = JStr (js ''array'') then
            (if items = JUndef \<or> items = JNull then Inl (TypeError ''Cannot read property anyOf'')
             else case array_of (prop_of items ''anyOf'') of
               Some vs \<Rightarrow> map_sum id JArr (map_result (sampleFromSchema env c) vs)
             | None \<Rightarrow>
                 (case array_of (prop_of items ''oneOf'') of
                    Some vs \<Rightarrow> map_sum id JArr (map_result (sampleFromSchema env c) vs)
                  | None \<Rightarrow> map_sum id (\<lambda>v. JArr [v]) (sampleFromSchema env c items)))
          else if truthy_jv (prop_of schema ''enum'') then
            (if truthy_jv (prop_of schema ''default'') then Inr (prop_of schema ''default'')
             else Inr (case normalizeArray (prop_of schema ''enum'') of [] \<Rightarrow> JUndef | v # vs \<Rightarrow> v))
          else if type = JStr (js ''file'') then Inr JUndef
          else primitive env s)"
  by pat_completeness auto
termination
proof (relation "measure (\<lambda>(env, c, s). size s)", goal_cases)
  case 1
  show ?case by simp
next
  case (2 env c schema s example properties additionalProperties items type x k p)
  then have "size p < size properties" using size_entries by (auto simp: entries_objectify)
  moreover from this have "properties \<noteq> JUndef" by auto
  ultimately show ?case using 2 size_prop [of schema "''properties''"] by (simp add: objectify_prop)
next
  case (3 env c schema s example properties additionalProperties items type kvs)
  then have "additionalProperties \<noteq> JUndef" by auto
  then show ?case using 3 size_prop [of schema "''additionalProperties''"] size_objectify [of additionalProperties] by (simp add: objectify_prop)
next
  case (4 env c schema s example properties additionalProperties items type)
  then show ?case using size_prop [of schema "''items''"] by (simp add: objectify_prop)
next
  case (5 env c schema s example properties additionalProperties items type vs v)
  then have "size v < size (prop_of items ''oneOf'')" "prop_of items ''oneOf'' \<noteq> JUndef" using size_array by blast+
  then show ?case using 5 size_prop [of items "''oneOf''"] size_prop [of schema "''items''"] by (simp add: objectify_prop)
next
  case (6 env c schema s example properties additionalProperties items type vs v)
  then have "size v < size (prop_of items ''anyOf'')" "prop_of items ''anyOf'' \<noteq> JUndef" using size_array by blast+
  then show ?case using 6 size_prop [of items "''anyOf''"] size_prop [of schema "''items''"] by (simp add: objectify_prop)
qed

declare sampleFromSchema.simps [simp del]

end
