(* ===== verification/Schema_Sample_Laws.thy ===== *)
theory Schema_Sample_Laws
  imports Schema_Sample "HOL-Library.Multiset"
begin

text \<open>
  A sample shows what its schema describes.  The specification \<open>fits\<close> says which value that is, for the keywords that the code reads,
  and is written without looking at the code.  Keywords that restrict values further (\<open>minimum\<close>, \<open>maximum\<close>, \<open>pattern\<close>, \<open>format\<close>
  and the like) have no part in it: the code does not read them.
\<close>

section \<open>The specification\<close>

fun fields_of :: "jv \<Rightarrow> (jstr \<times> jv) list" where
  "fields_of (JObj ps) = ps"
| "fields_of v = []"

text \<open>The type of a schema is the one it states, or an object or an array when it has properties or items.  Without a type nothing is shown.\<close>

definition stated_type :: "jv \<Rightarrow> jv" where
  "stated_type s =
     (if prop_of s ''type'' \<noteq> JUndef then prop_of s ''type''
      else if prop_of s ''properties'' \<noteq> JUndef then JStr (js ''object'')
      else if prop_of s ''items'' \<noteq> JUndef then JStr (js ''array'') else JUndef)"

fun type_matches :: "jv \<Rightarrow> jv \<Rightarrow> bool" where
  "type_matches (JStr t) v =
     (if t = js ''string'' then (\<exists>s. v = JStr s)
      else if t = js ''number'' then (\<exists>n. v = JNum n)
      else if t = js ''integer'' then (\<exists>i :: int. v = JNum (Fin (of_int i)))
      else if t = js ''boolean'' then (\<exists>b. v = JBool b)
      else if t = js ''object'' then (\<exists>ps. v = JObj ps)
      else if t = js ''array'' then (\<exists>vs. v = JArr vs)
      else False)"
| "type_matches JUndef v = (v = JUndef)"
| "type_matches _ v = False"

text \<open>The properties that are to be shown, the names for additional ones, and the alternatives for the elements of an array.\<close>

definition wanted :: "sample_config \<Rightarrow> jv \<Rightarrow> bool" where
  "wanted c p \<longleftrightarrow> \<not> truthy_jv (prop_of p ''deprecated'') \<and> (truthy_jv (prop_of p ''readOnly'') \<longrightarrow> includeReadOnly c) \<and>
     (truthy_jv (prop_of p ''writeOnly'') \<longrightarrow> includeWriteOnly c)"

definition additional_names :: "jv \<Rightarrow> jstr list" where
  "additional_names s =
     (case prop_of s ''additionalProperties'' of
        JBool b \<Rightarrow> if b then [js ''additionalProp1''] else []
      | JObj a \<Rightarrow> [js ''additionalProp1'', js ''additionalProp2'', js ''additionalProp3'']
      | _ \<Rightarrow> [])"

definition alternatives_of :: "jv \<Rightarrow> jv list option" where
  "alternatives_of i = (case array_of (prop_of i ''anyOf'') of Some ps \<Rightarrow> Some ps | None \<Rightarrow> array_of (prop_of i ''oneOf''))"

text \<open>
  An object has exactly the properties that are to be shown and the additional ones, each with a value that fits; an array has
  one element for each alternative, or one element.
\<close>

lemma size_zip: "(p, w) \<in> set (zip ps ws) \<Longrightarrow> size w < size (JArr ws)"
  using size_element set_zip_rightD by metis

function fits :: "sample_config \<Rightarrow> jv \<Rightarrow> jv \<Rightarrow> bool" where
  "fits c s v \<longleftrightarrow>
     type_matches (stated_type s) v \<and>
     (case array_of (prop_of s ''enum'') of None \<Rightarrow> True | Some es \<Rightarrow> v \<in> set es) \<and>
     (case v of
        JObj kvs \<Rightarrow>
          distinct (map fst kvs) \<and>
          fst ` set kvs = {k. \<exists>p. (k, p) \<in> set (fields_of (prop_of s ''properties'')) \<and> wanted c p} \<union> set (additional_names s) \<and>
          list_all (\<lambda>(k, w).
            case map_of (fields_of (prop_of s ''properties'')) k of
              Some p \<Rightarrow> fits c p w
            | None \<Rightarrow> (case prop_of s ''additionalProperties'' of JObj a \<Rightarrow> fits c (JObj a) w | _ \<Rightarrow> w = JObj [])) kvs
      | JArr ws \<Rightarrow>
          (case alternatives_of (prop_of s ''items'') of
             Some ps \<Rightarrow> length ws = length ps \<and> list_all (\<lambda>(p, w). fits c p w) (zip ps ws)
           | None \<Rightarrow> length ws = 1 \<and> list_all (fits c (prop_of s ''items'')) ws)
      | _ \<Rightarrow> True)"
  by pat_completeness auto
termination
  by (relation "measure (\<lambda>(c, s, v). size v)") (auto dest: size_entry size_element size_zip)

declare fits.simps [simp del]

section \<open>Schemas\<close>

text \<open>The values of an enumeration have the type, and the default is one of them.\<close>

definition enum_ok :: "jv \<Rightarrow> bool" where
  "enum_ok s \<longleftrightarrow> prop_of s ''enum'' = JUndef \<or>
     (\<exists>es. prop_of s ''enum'' = JArr es \<and> es \<noteq> [] \<and> list_all (type_matches (prop_of s ''type'')) es \<and>
        (truthy_jv (prop_of s ''default'') \<longrightarrow> prop_of s ''default'' \<in> set es))"

definition scalar_types :: "jstr list" where
  "scalar_types = map js [''string'', ''number'', ''integer'', ''boolean'']"

text \<open>
  The schemas for which the application makes up a sample, without examples of their author: scalars,
  objects whose properties and additional properties are such schemas, arrays of them, and schemas that
  allow anything.  The names \<open>additionalProp1\<close> to \<open>additionalProp3\<close> and \<open>__proto__\<close> are not in use.
\<close>

inductive sampled :: "jv \<Rightarrow> bool" where
  scalar: "prop_of s ''example'' = JUndef \<Longrightarrow> prop_of s ''type'' = JStr t \<Longrightarrow> t \<in> set scalar_types \<Longrightarrow> enum_ok s \<Longrightarrow> sampled s"
| object: "prop_of s ''example'' = JUndef \<Longrightarrow> prop_of s ''type'' = JStr (js ''object'') \<or> prop_of s ''type'' = JUndef \<and> ps \<noteq> [] \<Longrightarrow>
    prop_of s ''enum'' = JUndef \<Longrightarrow> prop_of s ''properties'' = (if ps = [] then JUndef else JObj ps) \<Longrightarrow>
    distinct (map fst ps) \<Longrightarrow> js ''__proto__'' \<notin> fst ` set ps \<Longrightarrow> (\<forall>(k, p) \<in> set ps. sampled p) \<Longrightarrow>
    prop_of s ''additionalProperties'' = a \<Longrightarrow> a \<in> {JUndef, JBool True, JBool False} \<or> (\<exists>qs. a = JObj qs) \<and> sampled a \<Longrightarrow>
    (truthy_jv a \<longrightarrow> set extra_keys \<inter> fst ` set ps = {}) \<Longrightarrow> sampled s"
| array: "prop_of s ''example'' = JUndef \<Longrightarrow> prop_of s ''type'' = JStr (js ''array'') \<Longrightarrow> prop_of s ''enum'' = JUndef \<Longrightarrow>
    prop_of s ''items'' = JObj is \<Longrightarrow> array_of (prop_of (JObj is) ''anyOf'') = None \<Longrightarrow> array_of (prop_of (JObj is) ''oneOf'') = None \<Longrightarrow>
    sampled (JObj is) \<Longrightarrow> sampled s"
| alternatives: "prop_of s ''example'' = JUndef \<Longrightarrow> prop_of s ''type'' = JStr (js ''array'') \<Longrightarrow> prop_of s ''enum'' = JUndef \<Longrightarrow>
    prop_of s ''items'' = JObj is \<Longrightarrow>
    array_of (prop_of (JObj is) ''anyOf'') = Some ps \<or>
      array_of (prop_of (JObj is) ''anyOf'') = None \<and> array_of (prop_of (JObj is) ''oneOf'') = Some ps \<Longrightarrow>
    (\<forall>p \<in> set ps. sampled p) \<Longrightarrow> sampled s"
| anything: "prop_of s ''example'' = JUndef \<Longrightarrow> prop_of s ''type'' = JUndef \<Longrightarrow> prop_of s ''enum'' = JUndef \<Longrightarrow>
    prop_of s ''properties'' = JUndef \<Longrightarrow> prop_of s ''items'' = JUndef \<Longrightarrow> sampled s"

section \<open>Scalars\<close>

text \<open>Names of types are different texts.\<close>

lemma js_eq_iff: "js a = js b \<longleftrightarrow> a = b"
  using inj_char_unit by (auto simp: js_def inj_map_eq_map)

lemma scalar_cases:
  assumes "t \<in> set scalar_types"
  obtains "t = js ''string''" | "t = js ''number''" | "t = js ''integer''" | "t = js ''boolean''"
  using assms by (auto simp: scalar_types_def)

lemma scalar_types_not: "t \<in> set scalar_types \<Longrightarrow> t \<noteq> js ''object'' \<and> t \<noteq> js ''array'' \<and> t \<noteq> js ''file'' \<and> t \<noteq> [] \<and> t \<notin> set object_methods"
proof -
  assume "t \<in> set scalar_types"
  then obtain x where "t = js x" "x \<in> {''string'', ''number'', ''integer'', ''boolean''}" by (auto simp: scalar_types_def)
  moreover have "js x = [] \<longleftrightarrow> x = []" for x by (simp add: js_def)
  ultimately show ?thesis by (auto simp: js_eq_iff object_methods_def)
qed

lemma matches_simps [simp]:
  "type_matches (JStr (js ''string'')) v \<longleftrightarrow> (\<exists>s. v = JStr s)" "type_matches (JStr (js ''number'')) v \<longleftrightarrow> (\<exists>n. v = JNum n)"
  "type_matches (JStr (js ''integer'')) v \<longleftrightarrow> (\<exists>i :: int. v = JNum (Fin (of_int i)))"
  "type_matches (JStr (js ''boolean'')) v \<longleftrightarrow> (\<exists>b. v = JBool b)" "type_matches (JStr (js ''object'')) v \<longleftrightarrow> (\<exists>ps. v = JObj ps)"
  "type_matches (JStr (js ''array'')) v \<longleftrightarrow> (\<exists>vs. v = JArr vs)"
  by (simp_all add: js_eq_iff)

declare type_matches.simps(1) [simp del]

lemma primitives_key:
  assumes "primitives env s key = Some v"
  shows "(\<exists>t. v = JStr t) \<and> take 6 key = js ''string'' \<or>
    v = JNum (Fin 0) \<and> key \<in> {js ''number'', js ''number_float'', js ''integer''} \<or> (\<exists>b. v = JBool b) \<and> key = js ''boolean''"
proof -
  have "take 6 (js x) = js (take 6 x)" for x by (simp add: js_def take_map)
  then have p: "take 6 (js ''string'') = js ''string''" "take 6 (js ''string_email'') = js ''string''" "take 6 (js ''string_date-time'') = js ''string''"
    by simp_all
  show ?thesis
  proof (cases "key \<in> {js ''string'', js ''string_email'', js ''string_date-time''}")
    case True
    then have "\<exists>t. v = JStr t" using assms by (auto simp: primitives_def split: if_splits)
    then show ?thesis using True p by auto
  next
    case False
    then show ?thesis using False assms unfolding primitives_def by (auto split: if_splits)
  qed
qed

text \<open>No entry of the table for a type with a format is one for another type.\<close>

lemma format_keys:
  "js ''string'' @ js ''_'' @ f \<noteq> js ''number''" "js ''string'' @ js ''_'' @ f \<noteq> js ''number_float''"
  "js ''string'' @ js ''_'' @ f \<noteq> js ''integer''" "js ''string'' @ js ''_'' @ f \<noteq> js ''boolean''"
  "take 6 (js ''number'' @ js ''_'' @ f) \<noteq> js ''string''" "js ''number'' @ js ''_'' @ f \<noteq> js ''boolean''"
  "take 6 (js ''integer'' @ js ''_'' @ f) \<noteq> js ''string''" "js ''integer'' @ js ''_'' @ f \<noteq> js ''boolean''"
  "js ''integer'' @ js ''_'' @ f \<noteq> js ''number''" "js ''integer'' @ js ''_'' @ f \<noteq> js ''number_float''"
  "take 6 (js ''boolean'' @ js ''_'' @ f) \<noteq> js ''string''" "js ''boolean'' @ js ''_'' @ f \<noteq> js ''number''"
  "js ''boolean'' @ js ''_'' @ f \<noteq> js ''number_float''" "js ''boolean'' @ js ''_'' @ f \<noteq> js ''integer''"
  by (simp_all add: js_def)

lemma primitives_format:
  assumes "t \<in> set scalar_types" "primitives env s (t @ js ''_'' @ f) = Some v"
  shows "type_matches (JStr t) v"
proof -
  have int0: "\<exists>i :: int. (0 :: rat) = of_int i" by (intro exI [of _ 0]) simp
  note k = primitives_key [OF assms(2)] format_keys [of f]
  from assms(1) show ?thesis
  proof (cases rule: scalar_cases)
    case 1
    show ?thesis using k unfolding 1 matches_simps by blast
  next
    case 2
    show ?thesis using k unfolding 2 matches_simps by blast
  next
    case 3
    have "v = JNum (Fin 0)" using k unfolding 3 by blast
    then show ?thesis using int0 unfolding 3 matches_simps by simp
  next
    case 4
    show ?thesis using k unfolding 4 matches_simps by blast
  qed
qed

lemma format_not_inherited:
  assumes "t \<in> set scalar_types"
  shows "t @ js ''_'' @ f \<notin> set object_methods"
  using assms by (cases rule: scalar_cases) (simp_all add: object_methods_def js_def)

lemma primitives_type:
  assumes "t \<in> set scalar_types"
  shows "\<exists>v. primitives env s t = Some v \<and> type_matches (JStr t) v"
proof -
  have int0: "\<exists>i :: int. (0 :: rat) = of_int i" by (intro exI [of _ 0]) simp
  from assms show ?thesis by (cases rule: scalar_cases) (auto simp: primitives_def js_eq_iff int0 split: jv.splits)
qed

lemma primitive_scalar:
  assumes "prop_of s ''type'' = JStr t" "t \<in> set scalar_types"
  shows "\<exists>v. primitive env s = Inr v \<and> type_matches (JStr t) v"
proof (cases "primitives env s (t @ js ''_'' @ to_text env (prop_of s ''format''))")
  case None
  obtain v where "primitives env s t = Some v" "type_matches (JStr t) v" using primitives_type [OF assms(2)] by blast
  then show ?thesis using None assms(1) scalar_types_not [OF assms(2)] format_not_inherited [OF assms(2)] by (simp add: primitive_def Let_def)
next
  case (Some v)
  then show ?thesis using primitives_format [OF assms(2) Some] assms(1) by (simp add: primitive_def Let_def)
qed

lemma sample_scalar:
  assumes "prop_of s ''example'' = JUndef" "prop_of s ''type'' = JStr t" "t \<in> set scalar_types" "enum_ok s"
  shows "\<exists>v. sampleFromSchema env c s = Inr v \<and> type_matches (JStr t) v \<and>
    (case array_of (prop_of s ''enum'') of None \<Rightarrow> True | Some es \<Rightarrow> v \<in> set es)"
proof -
  have t: "schema_type (objectify s) = Some (JStr t)" using assms(2) scalar_types_not [OF assms(3)] by (simp add: schema_type_def objectify_prop)
  have o: "primitive env (objectify s) = primitive env s" using assms(2) by (cases s) (simp_all add: objectify_def)
  show ?thesis
  proof (cases "prop_of s ''enum'' = JUndef")
    case True
    then show ?thesis using primitive_scalar [OF assms(2,3), of env] assms t o scalar_types_not [OF assms(3)]
      by (simp add: sampleFromSchema.simps [of env c s] Let_def objectify_prop)
  next
    case False
    then obtain e es where es: "prop_of s ''enum'' = JArr (e # es)" "list_all (type_matches (JStr t)) (e # es)"
      "truthy_jv (prop_of s ''default'') \<longrightarrow> prop_of s ''default'' \<in> set (e # es)"
      using assms(2,4) by (auto simp: enum_ok_def neq_Nil_conv)
    then show ?thesis using assms t scalar_types_not [OF assms(3)]
      by (auto simp: sampleFromSchema.simps [of env c s] Let_def objectify_prop list_all_iff)
  qed
qed

section \<open>Objects and arrays\<close>

lemma map_result_all:
  assumes "\<And>x. x \<in> set xs \<Longrightarrow> \<exists>y. f x = Inr y \<and> P x y"
  shows "\<exists>ys. map_result f xs = Inr ys \<and> list_all2 P xs ys"
  using assms
proof (induction xs)
  case (Cons x xs)
  then obtain y ys where "f x = Inr y" "P x y" "map_result f xs = Inr ys" "list_all2 P xs ys" by (metis list.set_intros)
  then show ?case by simp
qed simp

lemma set_alist_new: "k \<notin> fst ` set ps \<Longrightarrow> set_alist ps k v = ps @ [(k, v)]"
  by (induction ps) auto

lemma put_all_new:
  "distinct (map fst (obj @ kvs)) \<Longrightarrow> js ''__proto__'' \<notin> fst ` set kvs \<Longrightarrow> put_all obj kvs = obj @ kvs"
proof (induction kvs arbitrary: obj)
  case (Cons kv kvs)
  obtain k v where kv: "kv = (k, v)" by fastforce
  have "put_all obj (kv # kvs) = put_all (obj @ [(k, v)]) kvs"
    using Cons.prems kv by (auto simp: put_all_def set_prop_def set_alist_new)
  then show ?case using Cons kv by simp
qed (simp add: put_all_def)

lemma distinct_key_order: "distinct (map fst ps) \<Longrightarrow> distinct (map fst (key_order ps))"
proof -
  assume d: "distinct (map fst ps)"
  have "mset (key_order ps) = mset ps"
    by (simp add: key_order_def)
  then have "mset (map fst (key_order ps)) = mset (map fst ps)" by simp
  then show ?thesis using d by (metis distinct_count_atmost_1 set_mset_mset)
qed

text \<open>The pairs of a sample of an object, for the properties that are kept.\<close>

lemma kept_wanted: "kept c (k, p) = wanted c p"
proof -
  have "prop_of p x = JUndef" if "\<not> truthy_jv p" for x using that by (cases p) simp_all
  then show ?thesis by (cases "truthy_jv p") (auto simp: kept_def wanted_def)
qed

definition shown_names :: "sample_config \<Rightarrow> (jstr \<times> jv) list \<Rightarrow> jstr set" where
  "shown_names c ps = {k. \<exists>p. (k, p) \<in> set ps \<and> wanted c p}"

lemma sample_properties:
  assumes "distinct (map fst ps)" "js ''__proto__'' \<notin> fst ` set ps" "\<forall>(k, p) \<in> set ps. \<exists>v. sampleFromSchema env c p = Inr v \<and> fits c p v"
  shows "\<exists>kvs. map_result (\<lambda>(k, p). map_sum id (Pair k) (sampleFromSchema env c p)) (filter (kept c) (key_order ps)) = Inr kvs \<and>
    put_all [] kvs = kvs \<and> fst ` set kvs = shown_names c ps \<and> distinct (map fst kvs) \<and>
    (\<forall>(k, v) \<in> set kvs. \<exists>p. map_of ps k = Some p \<and> fits c p v)"
proof -
  let ?xs = "filter (kept c) (key_order ps)"
  let ?P = "\<lambda>(k, p) (k', v). k' = k \<and> map_of ps k = Some p \<and> fits c p v"
  let ?f = "\<lambda>(k, p). map_sum id (Pair k) (sampleFromSchema env c p)"
  have "\<exists>y. ?f x = Inr y \<and> ?P x y" if "x \<in> set ?xs" for x
  proof -
    have "x \<in> set ps" using that by simp
    then obtain k p where x: "x = (k, p)" "(k, p) \<in> set ps" by (metis surj_pair)
    then obtain v where "sampleFromSchema env c p = Inr v" "fits c p v" using assms(3) by fastforce
    then show ?thesis using x map_of_is_SomeI [OF assms(1)] by auto
  qed
  from map_result_all [of ?xs ?f ?P, OF this] obtain kvs where kvs: "map_result (\<lambda>(k, p). map_sum id (Pair k) (sampleFromSchema env c p)) ?xs = Inr kvs"
    "list_all2 ?P ?xs kvs" by blast
  have keys: "map fst kvs = map fst ?xs" using kvs(2) by (auto simp: list_all2_conv_all_nth intro!: nth_equalityI)
  have d: "distinct (map fst kvs)" using keys distinct_map_filter [OF distinct_key_order [OF assms(1)]] by simp
  have names: "fst ` set kvs = shown_names c ps"
  proof -
    have "fst ` set kvs = fst ` {x \<in> set ps. kept c x}" using arg_cong [OF keys, of set] by simp
    also have "\<dots> = shown_names c ps" by (auto simp: shown_names_def kept_wanted image_iff)
    finally show ?thesis .
  qed
  then have sub: "fst ` set kvs \<subseteq> fst ` set ps" by (force simp: shown_names_def)
  have "\<exists>p. map_of ps k = Some p \<and> fits c p v" if "(k, v) \<in> set kvs" for k v
    using kvs(2) that by (auto simp: list_all2_conv_all_nth in_set_conv_nth)
  moreover have "put_all [] kvs = kvs" using d sub put_all_new [of "[]" kvs] assms(2) by auto
  ultimately show ?thesis using kvs(1) d names by blast
qed

text \<open>What the specification says of the pairs of an object.\<close>

definition pair_fits :: "sample_config \<Rightarrow> jv \<Rightarrow> jstr \<times> jv \<Rightarrow> bool" where
  "pair_fits c s = (\<lambda>(k, w). case map_of (fields_of (prop_of s ''properties'')) k of
     Some p \<Rightarrow> fits c p w
   | None \<Rightarrow> (case prop_of s ''additionalProperties'' of JObj a \<Rightarrow> fits c (JObj a) w | _ \<Rightarrow> w = JObj []))"

lemma fits_object:
  "stated_type s = JStr (js ''object'') \<Longrightarrow> prop_of s ''enum'' = JUndef \<Longrightarrow> fits c s (JObj kvs) \<longleftrightarrow>
     distinct (map fst kvs) \<and> fst ` set kvs = shown_names c (fields_of (prop_of s ''properties'')) \<union> set (additional_names s) \<and> list_all (pair_fits c s) kvs"
  by (simp add: fits.simps [of c s "JObj kvs"] pair_fits_def shown_names_def)

lemma extra_keys_facts: "distinct extra_keys" "js ''__proto__'' \<notin> set extra_keys" "js ''additionalProp1'' \<in> set extra_keys"
  by (simp_all add: extra_keys_def js_eq_iff)

lemma sample_object:
  assumes s: "prop_of s ''example'' = JUndef" "prop_of s ''type'' = JStr (js ''object'') \<or> prop_of s ''type'' = JUndef \<and> ps \<noteq> []"
      "prop_of s ''enum'' = JUndef" "prop_of s ''properties'' = (if ps = [] then JUndef else JObj ps)"
    and ps: "distinct (map fst ps)" "js ''__proto__'' \<notin> fst ` set ps" "\<forall>(k, p) \<in> set ps. \<exists>v. sampleFromSchema env c p = Inr v \<and> fits c p v"
    and a: "prop_of s ''additionalProperties'' = a"
      "a \<in> {JUndef, JBool True, JBool False} \<or> (\<exists>qs. a = JObj qs) \<and> (\<exists>v. sampleFromSchema env c a = Inr v \<and> fits c a v)"
      "truthy_jv a \<longrightarrow> set extra_keys \<inter> fst ` set ps = {}"
  shows "\<exists>v. sampleFromSchema env c s = Inr v \<and> fits c s v"
proof -
  obtain kvs where kvs: "map_result (\<lambda>(k, p). map_sum id (Pair k) (sampleFromSchema env c p)) (filter (kept c) (key_order ps)) = Inr kvs"
    "put_all [] kvs = kvs" "fst ` set kvs = shown_names c ps" "distinct (map fst kvs)" "\<forall>(k, v) \<in> set kvs. \<exists>p. map_of ps k = Some p \<and> fits c p v"
    using sample_properties [OF ps] by blast
  have sub: "fst ` set kvs \<subseteq> fst ` set ps" using kvs(3) by (force simp: shown_names_def)
  have st: "schema_type (objectify s) = Some (JStr (js ''object''))" "stated_type s = JStr (js ''object'')"
    using s(2,4) by (auto simp: schema_type_def stated_type_def objectify_prop js_def)
  have ents: "entries (objectify (prop_of s ''properties'')) = key_order ps" using s(4) by (simp add: objectify_def key_order_def)
  have fields: "fields_of (prop_of s ''properties'') = ps" using s(4) by simp
  have old: "list_all (pair_fits c s) kvs" using kvs(5) fields by (auto simp: list_all_iff pair_fits_def)
  have v: "fits c s (JObj qs) \<longleftrightarrow> distinct (map fst qs) \<and> fst ` set qs = shown_names c ps \<union> set (additional_names s) \<and> list_all (pair_fits c s) qs" for qs
    using fits_object [OF st(2) s(3), of c qs] fields by simp
  have new: "pair_fits c s (k, w) \<longleftrightarrow> (case a of JObj a \<Rightarrow> fits c (JObj a) w | _ \<Rightarrow> w = JObj [])"
    if "truthy_jv a" "k \<in> set extra_keys" for k w
  proof -
    have "map_of ps k = None" using that a(3) by (auto simp: map_of_eq_None_iff)
    then show ?thesis using fields a(1) by (simp add: pair_fits_def)
  qed
  have put: "put_all kvs xs = kvs @ xs \<and> distinct (map fst (kvs @ xs))"
    if "truthy_jv a" "map fst xs = ks" "distinct ks" "set ks \<subseteq> set extra_keys" for xs ks
  proof -
    have xs: "fst ` set xs \<subseteq> set extra_keys" "distinct (map fst xs)" using that set_map [of fst xs] by simp_all
    then have "fst ` set kvs \<inter> fst ` set xs = {}" using a(3) that(1) sub by blast
    then have "distinct (map fst (kvs @ xs))" using xs(2) kvs(4) by simp
    moreover have "js ''__proto__'' \<notin> fst ` set xs" using xs(1) extra_keys_facts(2) by blast
    ultimately show ?thesis using put_all_new by blast
  qed
  consider "\<not> truthy_jv a" | "a = JBool True" | qs w where "a = JObj qs" "sampleFromSchema env c a = Inr w" "fits c a w" using a(2) by auto
  then show ?thesis
  proof cases
    case 1
    then have "sampleFromSchema env c s = Inr (JObj kvs)" "additional_names s = []"
      using s(1) st kvs(1,2) ents a(1,2) by (auto simp: sampleFromSchema.simps [of env c s] Let_def objectify_prop additional_names_def)
    then show ?thesis using old v kvs(3,4) by simp
  next
    case 2
    let ?x = "(js ''additionalProp1'', JObj [])"
    have p: "put_all kvs [?x] = kvs @ [?x]" "distinct (map fst (kvs @ [?x]))" using put [of "[?x]"] 2 extra_keys_facts(3) by simp_all
    have "sampleFromSchema env c s = Inr (JObj (kvs @ [?x]))"
      using s(1) st kvs(1,2) ents a(1) 2 p(1)
      by (simp add: sampleFromSchema.simps [of env c s] Let_def objectify_prop put_all_def)
    moreover have "pair_fits c s ?x" using new [of "js ''additionalProp1''" "JObj []"] 2 extra_keys_facts(3) by simp
    moreover have "additional_names s = [js ''additionalProp1'']" using a(1) 2 by (simp add: additional_names_def)
    ultimately show ?thesis using old p(2) kvs(3) v [of "kvs @ [?x]"] by simp
  next
    case 3
    let ?xs = "map (\<lambda>k. (k, w)) extra_keys"
    have p: "put_all kvs ?xs = kvs @ ?xs" "distinct (map fst (kvs @ ?xs))" using put [of ?xs extra_keys] 3(1) extra_keys_facts(1) by (simp_all add: comp_def)
    then have "sampleFromSchema env c s = Inr (JObj (kvs @ ?xs))"
      using s(1) st kvs(1,2) ents a(1) 3 by (simp add: sampleFromSchema.simps [of env c s] Let_def objectify_prop objectify_def [of "JObj qs"])
    moreover have "list_all (pair_fits c s) ?xs" using new 3(1,3) by (auto simp: list_all_iff)
    moreover have "fst ` set ?xs = set extra_keys" "additional_names s = extra_keys" using a(1) 3(1) by (force simp: additional_names_def extra_keys_def)+
    ultimately show ?thesis using old p(2) kvs(3) v [of "kvs @ ?xs"] by (simp add: image_Un)
  qed
qed

text \<open>An array with one element, and one with an element for every alternative.\<close>

lemma sample_array:
  assumes "prop_of s ''example'' = JUndef" "prop_of s ''type'' = JStr (js ''array'')" "prop_of s ''enum'' = JUndef"
    "prop_of s ''items'' = JObj is" "array_of (prop_of (JObj is) ''anyOf'') = None" "array_of (prop_of (JObj is) ''oneOf'') = None"
    "sampleFromSchema env c (JObj is) = Inr v" "fits c (JObj is) v"
  shows "\<exists>v. sampleFromSchema env c s = Inr v \<and> fits c s v"
proof -
  have st: "schema_type (objectify s) = Some (JStr (js ''array''))" using assms(2) by (simp add: schema_type_def objectify_prop js_def)
  have "sampleFromSchema env c s = Inr (JArr [v])"
    using assms st by (simp add: sampleFromSchema.simps [of env c s] Let_def objectify_prop js_eq_iff del: prop_of.simps)
  moreover have "fits c s (JArr [v])" using assms by (simp add: fits.simps [of c s "JArr [v]"] stated_type_def alternatives_of_def del: prop_of.simps)
  ultimately show ?thesis by blast
qed

lemma sample_alternatives:
  assumes s: "prop_of s ''example'' = JUndef" "prop_of s ''type'' = JStr (js ''array'')" "prop_of s ''enum'' = JUndef" "prop_of s ''items'' = JObj is"
    and ps: "array_of (prop_of (JObj is) ''anyOf'') = Some ps \<or>
      array_of (prop_of (JObj is) ''anyOf'') = None \<and> array_of (prop_of (JObj is) ''oneOf'') = Some ps"
      "\<forall>p \<in> set ps. \<exists>v. sampleFromSchema env c p = Inr v \<and> fits c p v"
  shows "\<exists>v. sampleFromSchema env c s = Inr v \<and> fits c s v"
proof -
  have st: "schema_type (objectify s) = Some (JStr (js ''array''))" using s(2) by (simp add: schema_type_def objectify_prop js_def)
  obtain vs where vs: "map_result (sampleFromSchema env c) ps = Inr vs" "list_all2 (fits c) ps vs"
    using map_result_all [of ps "sampleFromSchema env c" "fits c"] ps(2) by blast
  have "sampleFromSchema env c s = Inr (JArr vs)"
    using s st ps(1) vs(1) by (auto simp: sampleFromSchema.simps [of env c s] Let_def objectify_prop js_eq_iff simp del: prop_of.simps)
  moreover have "alternatives_of (prop_of s ''items'') = Some ps" using s(4) ps(1) by (auto simp: alternatives_of_def)
  then have "fits c s (JArr vs)" using s vs(2)
    by (auto simp: fits.simps [of c s "JArr vs"] stated_type_def list_all2_iff list_all_iff simp del: prop_of.simps)
  ultimately show ?thesis by blast
qed

lemma sample_anything:
  assumes "prop_of s ''example'' = JUndef" "prop_of s ''type'' = JUndef" "prop_of s ''enum'' = JUndef"
    "prop_of s ''properties'' = JUndef" "prop_of s ''items'' = JUndef"
  shows "sampleFromSchema env c s = Inr JUndef \<and> fits c s JUndef"
  using assms by (simp add: sampleFromSchema.simps [of env c s] Let_def objectify_prop schema_type_def stated_type_def fits.simps [of c s JUndef])

text \<open>C5: for every schema of these forms, at any depth and for every configuration, \<open>sampleFromSchema\<close> ends without an error
  in a value that fits the schema: of its type and in its enumeration; an object with exactly the properties that are
  neither deprecated nor left out by the configuration, and the additional ones, each with a value that fits its own
  schema; an array with one element that fits the items, or one for each alternative.  Limits such as \<open>minimum\<close> or
  \<open>pattern\<close> are not part of this.\<close>

theorem sample_fits_schema:
  assumes "sampled s"
  shows "\<exists>v. sampleFromSchema env c s = Inr v \<and> fits c s v"
  using assms
proof (induction rule: sampled.induct)
  case (scalar s t)
  then obtain v where v: "sampleFromSchema env c s = Inr v" "type_matches (JStr t) v"
    "case array_of (prop_of s ''enum'') of None \<Rightarrow> True | Some es \<Rightarrow> v \<in> set es"
    using sample_scalar by blast
  have "\<not> (\<exists>ps. v = JObj ps) \<and> \<not> (\<exists>vs. v = JArr vs)" using scalar(3) v(2) by (cases rule: scalar_cases) auto
  then have "fits c s v" using v(2,3) scalar(2) unfolding fits.simps [of c s v] by (auto simp: stated_type_def split: jv.split)
  then show ?case using v(1) by blast
next
  case (object s ps a)
  show ?case using object by (intro sample_object [of s ps env c a]) blast+
next
  case (array s "is")
  then show ?case using sample_array by blast
next
  case (alternatives s "is" ps)
  then show ?case using sample_alternatives by blast
next
  case (anything s)
  then show ?case using sample_anything by blast
qed

text \<open>An object with an enumeration, an array of alternatives and additional booleans.\<close>

definition typed :: "string \<Rightarrow> (string \<times> jv) list \<Rightarrow> jv" where
  "typed t ps = JObj ((js ''type'', JStr (js t)) # map (\<lambda>(k, v). (js k, v)) ps)"

definition pet_schema :: jv where
  "pet_schema = typed ''object''
     [(''properties'', JObj [(js ''status'', typed ''string'' [(''enum'', JArr [JStr (js ''sold''), JStr (js ''new'')])]),
        (js ''codes'', typed ''array'' [(''items'', JObj [(js ''anyOf'', JArr [typed ''integer'' [], typed ''string'' [(''format'', JStr (js ''email''))]])])])]),
      (''additionalProperties'', typed ''boolean'' [])]"

definition sample_clock :: sample_env where
  "sample_clock = \<lparr>iso_now = js ''2020-01-01T00:00:00.000Z'', text_of_value = (\<lambda>v. [])\<rparr>"

lemma typed_prop:
  "prop_of (typed t ps) ''type'' = JStr (js t)"
  "k \<noteq> ''type'' \<Longrightarrow> prop_of (typed t ps) k = (case map_of ps k of None \<Rightarrow> JUndef | Some v \<Rightarrow> v)"
proof -
  have "map_of (map (\<lambda>(k, v). (js k, v)) ps) (js k) = map_of ps k" for k by (induction ps) (auto simp: js_eq_iff)
  then show "k \<noteq> ''type'' \<Longrightarrow> prop_of (typed t ps) k = (case map_of ps k of None \<Rightarrow> JUndef | Some v \<Rightarrow> v)"
    by (simp add: typed_def js_eq_iff)
qed (simp add: typed_def)

lemma typed_scalar: "t \<in> {''string'', ''number'', ''integer'', ''boolean''} \<Longrightarrow> ps = [] \<or> ps = [(''format'', f)] \<Longrightarrow> sampled (typed t ps)"
  by (rule sampled.scalar [of _ "js t"]) (auto simp: typed_prop scalar_types_def enum_ok_def)

lemma pet_sampled: "sampled pet_schema"
proof -
  have st: "sampled (typed ''string'' [(''enum'', JArr [JStr (js ''sold''), JStr (js ''new'')])])"
    by (rule sampled.scalar [of _ "js ''string''"]) (auto simp: typed_prop scalar_types_def enum_ok_def)
  have alt: "sampled (typed ''integer'' [])" "sampled (typed ''string'' [(''format'', JStr (js ''email''))])"
    by (rule typed_scalar; simp)+
  let ?is = "[(js ''anyOf'', JArr [typed ''integer'' [], typed ''string'' [(''format'', JStr (js ''email''))]])]"
  have arr: "sampled (typed ''array'' [(''items'', JObj ?is)])"
    by (rule sampled.alternatives [of _ ?is "[typed ''integer'' [], typed ''string'' [(''format'', JStr (js ''email''))]]"])
      (simp_all add: typed_prop alt)
  have add: "sampled (typed ''boolean'' [])" by (rule typed_scalar) simp_all
  have obj: "\<exists>qs. typed ''boolean'' [] = JObj qs" by (simp add: typed_def)
  let ?ps = "[(js ''status'', typed ''string'' [(''enum'', JArr [JStr (js ''sold''), JStr (js ''new'')])]),
    (js ''codes'', typed ''array'' [(''items'', JObj ?is)])]"
  show ?thesis
    unfolding pet_schema_def
    by (rule sampled.object [of _ ?ps, OF _ _ _ _ _ _ _ refl]) (simp_all add: typed_prop st arr add obj js_eq_iff extra_keys_def)
qed

theorem sample_fits_schema_witness:
  "sampled pet_schema \<and> (\<exists>v. sampleFromSchema sample_clock \<lparr>includeReadOnly = False, includeWriteOnly = False\<rparr> pet_schema = Inr v \<and>
     fits \<lparr>includeReadOnly = False, includeWriteOnly = False\<rparr> pet_schema v)"
  using sample_fits_schema [OF pet_sampled] pet_sampled by blast

end
