(* ===== verification/Cache.thy ===== *)
theory Cache
  imports Yaml_Loader
begin

text \<open>
  The caches of lodash: \<open>Hash\<close> for keys that name a property, \<open>ListCache\<close> for other keys, \<open>MapCache\<close> on top of
  them, \<open>SetCache\<close>, \<open>Stack\<close>, and \<open>memoize\<close> with its variant of bounded size, through which the application
  computes the classes of its components and the paths of properties once.  What the host offers,
  \<open>Object.create\<close> and \<open>Map\<close>, is a parameter, as the code asks for it.
\<close>

section \<open>Keys and values\<close>

text \<open>Symbols, objects and functions have an identity.\<close>

datatype key = KUndef | KNull | KBool bool | KNum dbl | KStr jstr | KSym nat | KObj nat

text \<open>A cached value; \<open>HASH_UNDEFINED\<close> is the string that stands for \<open>undefined\<close>.\<close>

datatype 'v cval = Undefined | HASH_UNDEFINED | Cached 'v

record host =
  nativeCreate :: bool
  nativeMap :: bool

text \<open>\<open>===\<close> on numbers and on values.\<close>

fun num_equal :: "dbl \<Rightarrow> dbl \<Rightarrow> bool" where
  "num_equal NotANumber y \<longleftrightarrow> False"
| "num_equal NegZero y \<longleftrightarrow> y = NegZero \<or> y = Fin 0"
| "num_equal x NegZero \<longleftrightarrow> x = Fin 0"
| "num_equal x y \<longleftrightarrow> x = y"

fun strict_equal :: "key \<Rightarrow> key \<Rightarrow> bool" where
  "strict_equal (KNum x) (KNum y) = num_equal x y"
| "strict_equal x y = (x = y)"

definition eq :: "key \<Rightarrow> key \<Rightarrow> bool" where
  "eq v other \<longleftrightarrow> strict_equal v other \<or> \<not> strict_equal v v \<and> \<not> strict_equal other other"

text \<open>The name of the property \<open>data[key]\<close>; objects and \<open>undefined\<close> are no keys of a \<open>Hash\<close>.\<close>

datatype prop_name = PText jstr | PSym nat

fun prop_key :: "key \<Rightarrow> prop_name" where
  "prop_key KUndef = PText (js ''undefined'')"
| "prop_key KNull = PText (js ''null'')"
| "prop_key (KBool b) = PText (if b then js ''true'' else js ''false'')"
| "prop_key (KNum x) = PText (number_text x)"
| "prop_key (KStr s) = PText s"
| "prop_key (KSym n) = PSym n"
| "prop_key (KObj n) = PText (js ''[object Object]'')"

section \<open>\<open>Hash\<close>\<close>

record 'v hash =
  h_data :: "(prop_name \<times> 'v cval) list"
  h_size :: int

definition hashClear :: "'v hash" where
  "hashClear = \<lparr>h_data = [], h_size = 0\<rparr>"

text \<open>\<open>data[key]\<close> for an own property, and the assignment; a plain object has no own property \<open>__proto__\<close>.\<close>

definition own :: "(prop_name \<times> 'v cval) list \<Rightarrow> key \<Rightarrow> 'v cval" where
  "own data k = (case map_of data (prop_key k) of None \<Rightarrow> Undefined | Some v \<Rightarrow> v)"

fun assign :: "(prop_name \<times> 'v cval) list \<Rightarrow> prop_name \<Rightarrow> 'v cval \<Rightarrow> (prop_name \<times> 'v cval) list" where
  "assign [] p v = [(p, v)]"
| "assign ((q, w) # ps) p v = (if q = p then (q, v) # ps else (q, w) # assign ps p v)"

definition put_own :: "host \<Rightarrow> (prop_name \<times> 'v cval) list \<Rightarrow> key \<Rightarrow> 'v cval \<Rightarrow> (prop_name \<times> 'v cval) list" where
  "put_own h data k v = (if \<not> nativeCreate h \<and> prop_key k = PText (js ''__proto__'') then data else assign data (prop_key k) v)"

definition hashHas :: "host \<Rightarrow> 'v hash \<Rightarrow> key \<Rightarrow> bool" where
  "hashHas h c k = (if nativeCreate h then own (h_data c) k \<noteq> Undefined else map_of (h_data c) (prop_key k) \<noteq> None)"

definition hashGet :: "host \<Rightarrow> 'v hash \<Rightarrow> key \<Rightarrow> 'v cval" where
  "hashGet h c k =
     (if nativeCreate h then (if own (h_data c) k = HASH_UNDEFINED then Undefined else own (h_data c) k)
      else if map_of (h_data c) (prop_key k) \<noteq> None then own (h_data c) k else Undefined)"

definition hashSet :: "host \<Rightarrow> 'v hash \<Rightarrow> key \<Rightarrow> 'v cval \<Rightarrow> 'v hash" where
  "hashSet h c k v =
     \<lparr>h_data = put_own h (h_data c) k (if nativeCreate h \<and> v = Undefined then HASH_UNDEFINED else v),
      h_size = h_size c + (if hashHas h c k then 0 else 1)\<rparr>"

definition hashDelete :: "host \<Rightarrow> 'v hash \<Rightarrow> key \<Rightarrow> bool \<times> 'v hash" where
  "hashDelete h c k =
     (if hashHas h c k
      then (True, \<lparr>h_data = filter (\<lambda>p. fst p \<noteq> prop_key k) (h_data c), h_size = h_size c - 1\<rparr>)
      else (False, c))"

text \<open>\<open>new Hash(entries)\<close>\<close>

definition Hash :: "host \<Rightarrow> (key \<times> 'v cval) list \<Rightarrow> 'v hash" where
  "Hash h entries = foldl (\<lambda>c (k, v). hashSet h c k v) hashClear entries"

section \<open>\<open>ListCache\<close>\<close>

record 'v list_cache =
  l_data :: "(key \<times> 'v cval) list"
  l_size :: int

definition listCacheClear :: "'v list_cache" where
  "listCacheClear = \<lparr>l_data = [], l_size = 0\<rparr>"

text \<open>\<open>while (length--)\<close>\<close>

fun assoc_loop :: "(key \<times> 'v) list \<Rightarrow> key \<Rightarrow> nat \<Rightarrow> int" where
  "assoc_loop array k 0 = - 1"
| "assoc_loop array k (Suc n) = (if eq (fst (array ! n)) k then int n else assoc_loop array k n)"

definition assocIndexOf :: "(key \<times> 'v) list \<Rightarrow> key \<Rightarrow> int" where
  "assocIndexOf array k = assoc_loop array k (length array)"

definition listCacheGet :: "'v list_cache \<Rightarrow> key \<Rightarrow> 'v cval" where
  "listCacheGet c k =
     (let index = assocIndexOf (l_data c) k in if index < 0 then Undefined else snd (l_data c ! nat index))"

definition listCacheHas :: "'v list_cache \<Rightarrow> key \<Rightarrow> bool" where
  "listCacheHas c k \<longleftrightarrow> assocIndexOf (l_data c) k > - 1"

definition listCacheSet :: "'v list_cache \<Rightarrow> key \<Rightarrow> 'v cval \<Rightarrow> 'v list_cache" where
  "listCacheSet c k v =
     (let index = assocIndexOf (l_data c) k in
      if index < 0 then \<lparr>l_data = l_data c @ [(k, v)], l_size = l_size c + 1\<rparr>
      else c\<lparr>l_data := (l_data c)[nat index := (fst (l_data c ! nat index), v)]\<rparr>)"

definition listCacheDelete :: "'v list_cache \<Rightarrow> key \<Rightarrow> bool \<times> 'v list_cache" where
  "listCacheDelete c k =
     (let data = l_data c; index = assocIndexOf data k in
      if index < 0 then (False, c)
      else (True, \<lparr>l_data = (if index = int (length data) - 1 then butlast data else take (nat index) data @ drop (Suc (nat index)) data),
             l_size = l_size c - 1\<rparr>))"

text \<open>\<open>new ListCache(entries)\<close>\<close>

definition ListCache :: "(key \<times> 'v cval) list \<Rightarrow> 'v list_cache" where
  "ListCache entries = foldl (\<lambda>c (k, v). listCacheSet c k v) listCacheClear entries"

section \<open>The \<open>Map\<close> of the host, or a \<open>ListCache\<close> in its place\<close>

text \<open>A native map compares keys as \<open>eq\<close> does and keeps a zero without its sign.\<close>

datatype 'v any_map = Native "(key \<times> 'v cval) list" | Listed "'v list_cache"

fun plain_zero :: "key \<Rightarrow> key" where
  "plain_zero (KNum NegZero) = KNum (Fin 0)"
| "plain_zero k = k"

fun native_set :: "(key \<times> 'v cval) list \<Rightarrow> key \<Rightarrow> 'v cval \<Rightarrow> (key \<times> 'v cval) list" where
  "native_set [] k v = [(plain_zero k, v)]"
| "native_set ((k', v') # es) k v = (if eq k' k then (k', v) # es else (k', v') # native_set es k v)"

fun map_get :: "'v any_map \<Rightarrow> key \<Rightarrow> 'v cval" where
  "map_get (Native es) k = (case find (\<lambda>e. eq (fst e) k) es of None \<Rightarrow> Undefined | Some e \<Rightarrow> snd e)"
| "map_get (Listed c) k = listCacheGet c k"

fun map_has :: "'v any_map \<Rightarrow> key \<Rightarrow> bool" where
  "map_has (Native es) k = list_ex (\<lambda>e. eq (fst e) k) es"
| "map_has (Listed c) k = listCacheHas c k"

fun map_set :: "'v any_map \<Rightarrow> key \<Rightarrow> 'v cval \<Rightarrow> 'v any_map" where
  "map_set (Native es) k v = Native (native_set es k v)"
| "map_set (Listed c) k v = Listed (listCacheSet c k v)"

fun map_delete :: "'v any_map \<Rightarrow> key \<Rightarrow> bool \<times> 'v any_map" where
  "map_delete (Native es) k = (list_ex (\<lambda>e. eq (fst e) k) es, Native (filter (\<lambda>e. \<not> eq (fst e) k) es))"
| "map_delete (Listed c) k = (let (r, c') = listCacheDelete c k in (r, Listed c'))"

fun map_size :: "'v any_map \<Rightarrow> int" where
  "map_size (Native es) = int (length es)"
| "map_size (Listed c) = l_size c"

definition new_map :: "host \<Rightarrow> 'v any_map" where
  "new_map h = (if nativeMap h then Native [] else Listed listCacheClear)"

section \<open>\<open>MapCache\<close>\<close>

record 'v map_cache =
  m_size :: int
  m_hash :: "'v hash"
  m_map :: "'v any_map"
  m_string :: "'v hash"

definition mapCacheClear :: "host \<Rightarrow> 'v map_cache" where
  "mapCacheClear h = \<lparr>m_size = 0, m_hash = hashClear, m_map = new_map h, m_string = hashClear\<rparr>"

fun isKeyable :: "key \<Rightarrow> bool" where
  "isKeyable (KStr s) = (s \<noteq> js ''__proto__'')"
| "isKeyable (KNum x) = True"
| "isKeyable (KSym n) = True"
| "isKeyable (KBool b) = True"
| "isKeyable KNull = True"
| "isKeyable _ = False"

datatype map_data = HashData | StringData | MapData

definition getMapData :: "key \<Rightarrow> map_data" where
  "getMapData k = (if isKeyable k then (case k of KStr s \<Rightarrow> StringData | _ \<Rightarrow> HashData) else MapData)"

definition mapCacheGet :: "host \<Rightarrow> 'v map_cache \<Rightarrow> key \<Rightarrow> 'v cval" where
  "mapCacheGet h c k =
     (case getMapData k of HashData \<Rightarrow> hashGet h (m_hash c) k | StringData \<Rightarrow> hashGet h (m_string c) k | MapData \<Rightarrow> map_get (m_map c) k)"

definition mapCacheHas :: "host \<Rightarrow> 'v map_cache \<Rightarrow> key \<Rightarrow> bool" where
  "mapCacheHas h c k =
     (case getMapData k of HashData \<Rightarrow> hashHas h (m_hash c) k | StringData \<Rightarrow> hashHas h (m_string c) k | MapData \<Rightarrow> map_has (m_map c) k)"

definition mapCacheSet :: "host \<Rightarrow> 'v map_cache \<Rightarrow> key \<Rightarrow> 'v cval \<Rightarrow> 'v map_cache" where
  "mapCacheSet h c k v =
     (case getMapData k of
        HashData \<Rightarrow>
          let data = hashSet h (m_hash c) k v
          in c\<lparr>m_hash := data, m_size := m_size c + (if h_size data = h_size (m_hash c) then 0 else 1)\<rparr>
      | StringData \<Rightarrow>
          let data = hashSet h (m_string c) k v
          in c\<lparr>m_string := data, m_size := m_size c + (if h_size data = h_size (m_string c) then 0 else 1)\<rparr>
      | MapData \<Rightarrow>
          let data = map_set (m_map c) k v
          in c\<lparr>m_map := data, m_size := m_size c + (if map_size data = map_size (m_map c) then 0 else 1)\<rparr>)"

definition mapCacheDelete :: "host \<Rightarrow> 'v map_cache \<Rightarrow> key \<Rightarrow> bool \<times> 'v map_cache" where
  "mapCacheDelete h c k =
     (case getMapData k of
        HashData \<Rightarrow>
          let (result, data) = hashDelete h (m_hash c) k in (result, c\<lparr>m_hash := data, m_size := m_size c - (if result then 1 else 0)\<rparr>)
      | StringData \<Rightarrow>
          let (result, data) = hashDelete h (m_string c) k in (result, c\<lparr>m_string := data, m_size := m_size c - (if result then 1 else 0)\<rparr>)
      | MapData \<Rightarrow>
          let (result, data) = map_delete (m_map c) k in (result, c\<lparr>m_map := data, m_size := m_size c - (if result then 1 else 0)\<rparr>))"

definition MapCache :: "host \<Rightarrow> (key \<times> 'v cval) list \<Rightarrow> 'v map_cache" where
  "MapCache h entries = foldl (\<lambda>c (k, v). mapCacheSet h c k v) (mapCacheClear h) entries"

section \<open>\<open>SetCache\<close> and \<open>Stack\<close>\<close>

definition setCacheAdd :: "host \<Rightarrow> 'v map_cache \<Rightarrow> key \<Rightarrow> 'v map_cache" where
  "setCacheAdd h c k = mapCacheSet h c k HASH_UNDEFINED"

definition setCacheHas :: "host \<Rightarrow> 'v map_cache \<Rightarrow> key \<Rightarrow> bool" where
  "setCacheHas h c k = mapCacheHas h c k"

definition SetCache :: "host \<Rightarrow> key list \<Rightarrow> 'v map_cache" where
  "SetCache h ks = foldl (setCacheAdd h) (mapCacheClear h) ks"

datatype 'v stack_data = SmallStack "'v list_cache" | LargeStack "'v map_cache"

record 'v stack =
  s_data :: "'v stack_data"
  s_size :: int

definition Stack :: "(key \<times> 'v cval) list \<Rightarrow> 'v stack" where
  "Stack entries = (let data = ListCache entries in \<lparr>s_data = SmallStack data, s_size = l_size data\<rparr>)"

definition stackClear :: "'v stack" where
  "stackClear = \<lparr>s_data = SmallStack listCacheClear, s_size = 0\<rparr>"

definition stackGet :: "host \<Rightarrow> 'v stack \<Rightarrow> key \<Rightarrow> 'v cval" where
  "stackGet h s k = (case s_data s of SmallStack c \<Rightarrow> listCacheGet c k | LargeStack c \<Rightarrow> mapCacheGet h c k)"

definition stackHas :: "host \<Rightarrow> 'v stack \<Rightarrow> key \<Rightarrow> bool" where
  "stackHas h s k = (case s_data s of SmallStack c \<Rightarrow> listCacheHas c k | LargeStack c \<Rightarrow> mapCacheHas h c k)"

definition stackDelete :: "host \<Rightarrow> 'v stack \<Rightarrow> key \<Rightarrow> bool \<times> 'v stack" where
  "stackDelete h s k =
     (case s_data s of
        SmallStack c \<Rightarrow> let (r, c') = listCacheDelete c k in (r, \<lparr>s_data = SmallStack c', s_size = l_size c'\<rparr>)
      | LargeStack c \<Rightarrow> let (r, c') = mapCacheDelete h c k in (r, \<lparr>s_data = LargeStack c', s_size = m_size c'\<rparr>))"

definition LARGE_ARRAY_SIZE :: nat where
  "LARGE_ARRAY_SIZE = 200"

text \<open>A small stack takes a pair without looking for the key.\<close>

definition stackSet :: "host \<Rightarrow> 'v stack \<Rightarrow> key \<Rightarrow> 'v cval \<Rightarrow> 'v stack" where
  "stackSet h s k v =
     (let large = (\<lambda>c. let c' = mapCacheSet h c k v in \<lparr>s_data = LargeStack c', s_size = m_size c'\<rparr>) in
      case s_data s of
        SmallStack c \<Rightarrow>
          if \<not> nativeMap h \<or> length (l_data c) < LARGE_ARRAY_SIZE - 1
          then \<lparr>s_data = SmallStack \<lparr>l_data = l_data c @ [(k, v)], l_size = l_size c + 1\<rparr>, s_size = l_size c + 1\<rparr>
          else large (MapCache h (l_data c))
      | LargeStack c \<Rightarrow> large c)"

section \<open>\<open>memoize\<close>\<close>

text \<open>
  The cache of a memoized function, and the calls that have reached the function.  The function is a
  parameter that returns or throws, so the check that it is a function passes; the resolver makes the key and may
  change the cache.
\<close>

record ('a, 'v) memo =
  cache :: "'v map_cache"
  calls :: "'a list"

definition memoize :: "host \<Rightarrow> ('a, 'v) memo" where
  "memoize h = \<lparr>cache = mapCacheClear h, calls = []\<rparr>"

definition memoized ::
  "host \<Rightarrow> ('a \<Rightarrow> 'v map_cache \<Rightarrow> key \<times> 'v map_cache) \<Rightarrow> ('a \<Rightarrow> 'e + 'v cval) \<Rightarrow> ('a, 'v) memo \<Rightarrow> 'a \<Rightarrow> ('e + 'v cval) \<times> ('a, 'v) memo" where
  "memoized h resolver func s args =
     (let (k, c) = resolver args (cache s) in
      if mapCacheHas h c k then (Inr (mapCacheGet h c k), s\<lparr>cache := c\<rparr>)
      else case func args of
             Inl e \<Rightarrow> (Inl e, s\<lparr>cache := c, calls := calls s @ [args]\<rparr>)
           | Inr result \<Rightarrow> (Inr result, s\<lparr>cache := mapCacheSet h c k result, calls := calls s @ [args]\<rparr>))"

text \<open>The key is what the resolver returns, or the first argument.\<close>

definition plain_key :: "('a \<Rightarrow> key) \<Rightarrow> 'a \<Rightarrow> 'v map_cache \<Rightarrow> key \<times> 'v map_cache" where
  "plain_key f args c = (f args, c)"

definition MAX_MEMOIZE_SIZE :: int where
  "MAX_MEMOIZE_SIZE = 500"

definition capped_key :: "host \<Rightarrow> ('a \<Rightarrow> key) \<Rightarrow> 'a \<Rightarrow> 'v map_cache \<Rightarrow> key \<times> 'v map_cache" where
  "capped_key h f args c = (f args, if m_size c = MAX_MEMOIZE_SIZE then mapCacheClear h else c)"

definition memoizeCapped :: "host \<Rightarrow> ('a \<Rightarrow> key) \<Rightarrow> ('a \<Rightarrow> 'e + 'v cval) \<Rightarrow> ('a, 'v) memo \<Rightarrow> 'a \<Rightarrow> ('e + 'v cval) \<times> ('a, 'v) memo" where
  "memoizeCapped h f = memoized h (capped_key h f)"

fun run_calls :: "(('a, 'v) memo \<Rightarrow> 'a \<Rightarrow> ('e + 'v cval) \<times> ('a, 'v) memo) \<Rightarrow> ('a, 'v) memo \<Rightarrow> 'a list \<Rightarrow> ('e + 'v cval) list \<times> ('a, 'v) memo" where
  "run_calls f s [] = ([], s)"
| "run_calls f s (a # as) = (let (r, s') = f s a; (rs, s'') = run_calls f s' as in (r # rs, s''))"

end
