(* ===== verification/Cache_Laws.thy ===== *)
theory Cache_Laws
  imports Cache Yaml_Int_Laws
begin

text \<open>
  The caches implement finite maps: a locale states what a map from keys promises, and \<open>Hash\<close>, \<open>ListCache\<close>, the
  map of the host and \<open>MapCache\<close> are interpretations.  Memoized functions return what the function returns.
\<close>

section \<open>Maps from keys\<close>

text \<open>The string that stands for \<open>undefined\<close> is not told from it.\<close>

definition tidy :: "'v cval \<Rightarrow> 'v cval" where
  "tidy v = (if v = HASH_UNDEFINED then Undefined else v)"

lemma tidy_simps [simp]: "tidy (tidy v) = tidy v" "tidy Undefined = Undefined" "tidy HASH_UNDEFINED = Undefined" "tidy (Cached x) = Cached x"
  by (simp_all add: tidy_def)

definition or_undefined :: "'v cval option \<Rightarrow> 'v cval" where
  "or_undefined r = (case r of None \<Rightarrow> Undefined | Some v \<Rightarrow> v)"

lemma or_undefined_simps [simp]: "or_undefined None = Undefined" "or_undefined (Some v) = v"
  by (simp_all add: or_undefined_def)

datatype 'v op = Get key | Has key | Put key "'v cval" | Delete key | Clear | Size

datatype 'v answer = Val "'v cval" | Flag bool | Num int | Done

text \<open>One operation on a container with the given functions, and on a finite map from classes of keys.\<close>

fun step_with ::
  "'c \<Rightarrow> ('c \<Rightarrow> key \<Rightarrow> 'v cval) \<Rightarrow> ('c \<Rightarrow> key \<Rightarrow> bool) \<Rightarrow> ('c \<Rightarrow> key \<Rightarrow> 'v cval \<Rightarrow> 'c) \<Rightarrow> ('c \<Rightarrow> key \<Rightarrow> bool \<times> 'c) \<Rightarrow> ('c \<Rightarrow> int)
     \<Rightarrow> 'v op \<Rightarrow> 'c \<Rightarrow> 'v answer \<times> 'c" where
  "step_with new get has put del size_of (Get k) c = (Val (get c k), c)"
| "step_with new get has put del size_of (Has k) c = (Flag (has c k), c)"
| "step_with new get has put del size_of (Put k v) c = (Done, put c k v)"
| "step_with new get has put del size_of (Delete k) c = (let (r, c') = del c k in (Flag r, c'))"
| "step_with new get has put del size_of Clear c = (Done, new)"
| "step_with new get has put del size_of Size c = (Num (size_of c), c)"

fun spec_step :: "(key \<Rightarrow> 'k) \<Rightarrow> 'v op \<Rightarrow> ('k \<rightharpoonup> 'v cval) \<Rightarrow> 'v answer \<times> ('k \<rightharpoonup> 'v cval)" where
  "spec_step cls (Get k) m = (Val (or_undefined (m (cls k))), m)"
| "spec_step cls (Has k) m = (Flag (m (cls k) \<noteq> None), m)"
| "spec_step cls (Put k v) m = (Done, m(cls k \<mapsto> tidy v))"
| "spec_step cls (Delete k) m = (Flag (m (cls k) \<noteq> None), m(cls k := None))"
| "spec_step cls Clear m = (Done, Map.empty)"
| "spec_step cls Size m = (Num (int (card (dom m))), m)"

fun run_ops :: "('o \<Rightarrow> 's \<Rightarrow> 'a \<times> 's) \<Rightarrow> 'o list \<Rightarrow> 's \<Rightarrow> 'a list" where
  "run_ops f [] s = []"
| "run_ops f (x # xs) s = fst (f x s) # run_ops f xs (snd (f x s))"

fun tidy_answer :: "'v answer \<Rightarrow> 'v answer" where
  "tidy_answer (Val v) = Val (tidy v)"
| "tidy_answer a = a"

fun op_key :: "'v op \<Rightarrow> key option" where
  "op_key (Get k) = Some k"
| "op_key (Has k) = Some k"
| "op_key (Put k v) = Some k"
| "op_key (Delete k) = Some k"
| "op_key _ = None"

definition op_ok :: "(key \<Rightarrow> bool) \<Rightarrow> 'v op \<Rightarrow> bool" where
  "op_ok ok x \<longleftrightarrow> (case op_key x of None \<Rightarrow> True | Some k \<Rightarrow> ok k)"

locale key_map =
  fixes new :: 'c
    and get :: "'c \<Rightarrow> key \<Rightarrow> 'v cval"
    and has :: "'c \<Rightarrow> key \<Rightarrow> bool"
    and set_key :: "'c \<Rightarrow> key \<Rightarrow> 'v cval \<Rightarrow> 'c"
    and del :: "'c \<Rightarrow> key \<Rightarrow> bool \<times> 'c"
    and size_of :: "'c \<Rightarrow> int"
    and ok :: "key \<Rightarrow> bool"
    and cls :: "key \<Rightarrow> 'k"
    and amap :: "'c \<Rightarrow> 'k \<rightharpoonup> 'v cval"
    and good :: "'c \<Rightarrow> bool"
  assumes new_law: "good new \<and> amap new = Map.empty"
    and get_law: "good c \<Longrightarrow> ok k \<Longrightarrow> tidy (get c k) = or_undefined (amap c (cls k))"
    and has_law: "good c \<Longrightarrow> ok k \<Longrightarrow> has c k \<longleftrightarrow> amap c (cls k) \<noteq> None"
    and set_law: "good c \<Longrightarrow> ok k \<Longrightarrow> good (set_key c k v) \<and> amap (set_key c k v) = (amap c)(cls k \<mapsto> tidy v)"
    and del_law: "good c \<Longrightarrow> ok k \<Longrightarrow>
      fst (del c k) = has c k \<and> good (snd (del c k)) \<and> amap (snd (del c k)) = (amap c)(cls k := None)"
    and size_law: "good c \<Longrightarrow> finite (dom (amap c)) \<and> size_of c = int (card (dom (amap c)))"
begin

lemma size_set:
  assumes "good c" "ok k"
  shows "size_of (set_key c k v) = size_of c + (if has c k then 0 else 1)"
proof -
  have "size_of (set_key c k v) = int (card (insert (cls k) (dom (amap c))))"
    using set_law [OF assms, of v] size_law [of "set_key c k v"] by simp
  also have "\<dots> = size_of c + (if has c k then 0 else 1)"
    using size_law [OF assms(1)] has_law [OF assms] by (auto simp: insert_absorb card_insert_disjoint domIff)
  finally show ?thesis .
qed

lemma size_del:
  assumes "good c" "ok k"
  shows "size_of (snd (del c k)) = size_of c - (if has c k then 1 else 0)"
proof -
  have d: "size_of (snd (del c k)) = int (card (dom (amap c) - {cls k}))"
    using del_law [OF assms] size_law [of "snd (del c k)"] by simp
  show ?thesis
  proof (cases "has c k")
    case True
    then have "cls k \<in> dom (amap c)" using has_law [OF assms] by auto
    then have "card (dom (amap c)) = Suc (card (dom (amap c) - {cls k}))" using size_law [OF assms(1)] by (metis card_Suc_Diff1)
    then show ?thesis using d True size_law [OF assms(1)] by simp
  next
    case False
    then have "dom (amap c) - {cls k} = dom (amap c)" using has_law [OF assms] by auto
    then show ?thesis using d False size_law [OF assms(1)] by simp
  qed
qed

lemma step_refines:
  assumes "good c" "op_ok ok x"
  shows "tidy_answer (fst (step_with new get has set_key del size_of x c)) = fst (spec_step cls x (amap c)) \<and>
    good (snd (step_with new get has set_key del size_of x c)) \<and>
    amap (snd (step_with new get has set_key del size_of x c)) = snd (spec_step cls x (amap c))"
proof (cases x)
  case (Delete k)
  then show ?thesis using assms del_law [of c k] has_law [of c k] by (auto simp: op_ok_def split: prod.split)
qed (use assms new_law get_law has_law set_law size_law in \<open>auto simp: op_ok_def\<close>)

lemma run_refines:
  assumes "good c" "list_all (op_ok ok) xs"
  shows "map tidy_answer (run_ops (step_with new get has set_key del size_of) xs c) = run_ops (spec_step cls) xs (amap c)"
  using assms
proof (induction xs arbitrary: c)
  case (Cons x xs)
  then show ?case using step_refines [of c x] by simp
qed simp

end

section \<open>\<open>Hash\<close>\<close>

definition hash_map :: "'v hash \<Rightarrow> prop_name \<rightharpoonup> 'v cval" where
  "hash_map c = map_option tidy \<circ> map_of (h_data c)"

definition hash_good :: "host \<Rightarrow> 'v hash \<Rightarrow> bool" where
  "hash_good h c \<longleftrightarrow> distinct (map fst (h_data c)) \<and> h_size c = int (length (h_data c)) \<and>
     (nativeCreate h \<longrightarrow> Undefined \<notin> snd ` set (h_data c))"

definition hash_key :: "key \<Rightarrow> bool" where
  "hash_key k \<longleftrightarrow> prop_key k \<noteq> PText (js ''__proto__'')"

lemma map_of_assign: "map_of (assign ps p v) = (map_of ps)(p \<mapsto> v)"
  by (induction ps p v rule: assign.induct) auto

lemma assign_facts:
  "fst ` set (assign ps p v) = insert p (fst ` set ps)" "snd ` set (assign ps p v) \<subseteq> insert v (snd ` set ps)"
  "length (assign ps p v) = (if p \<in> fst ` set ps then length ps else Suc (length ps))"
  by (induction ps p v rule: assign.induct) auto

lemma distinct_assign: "distinct (map fst ps) \<Longrightarrow> distinct (map fst (assign ps p v))"
  by (induction ps p v rule: assign.induct) (auto simp: assign_facts(1))

lemma hash_has_iff:
  assumes "hash_good h c"
  shows "hashHas h c k \<longleftrightarrow> prop_key k \<in> fst ` set (h_data c)"
proof -
  have "nativeCreate h \<Longrightarrow> map_of (h_data c) (prop_key k) \<noteq> Some Undefined"
    using assms unfolding hash_good_def by (metis map_of_SomeD snd_conv image_eqI)
  moreover have "map_of (h_data c) (prop_key k) \<noteq> None \<longleftrightarrow> prop_key k \<in> fst ` set (h_data c)" by (simp add: map_of_eq_None_iff)
  ultimately show ?thesis by (cases "map_of (h_data c) (prop_key k)") (simp_all add: hashHas_def own_def)
qed

lemma map_of_without: "map_of (filter (\<lambda>p. fst p \<noteq> k) ps) = (map_of ps)(k := None)"
  by (induction ps) (auto simp: fun_eq_iff)

lemma card_map_of: "distinct (map fst ps) \<Longrightarrow> card (dom (map_of ps)) = length ps"
  by (metis distinct_card dom_map_of_conv_image_fst length_map list.set_map)

lemma dom_map_option [simp]: "dom (map_option f \<circ> m) = dom m"
  by (auto simp: domIff)

lemma hash_set_good:
  assumes "hash_good h c" "hash_key k"
  shows "hash_good h (hashSet h c k v) \<and> hash_map (hashSet h c k v) = (hash_map c)(prop_key k \<mapsto> tidy v)"
proof -
  let ?v = "if nativeCreate h \<and> v = Undefined then HASH_UNDEFINED else v"
  have d: "h_data (hashSet h c k v) = assign (h_data c) (prop_key k) ?v" using assms(2) by (simp add: hashSet_def put_own_def hash_key_def)
  have s: "h_size (hashSet h c k v) = int (length (assign (h_data c) (prop_key k) ?v))"
    using assms(1) hash_has_iff [OF assms(1), of k] by (simp add: hashSet_def hash_good_def assign_facts(3))
  have "Undefined \<notin> snd ` set (assign (h_data c) (prop_key k) ?v)" if "nativeCreate h"
  proof -
    have "Undefined \<notin> insert ?v (snd ` set (h_data c))" using assms(1) that by (simp add: hash_good_def)
    then show ?thesis using assign_facts(2) by blast
  qed
  then have "hash_good h (hashSet h c k v)" using d s assms(1) by (simp add: hash_good_def distinct_assign)
  moreover have "tidy ?v = tidy v" by simp
  then have "hash_map (hashSet h c k v) = (hash_map c)(prop_key k \<mapsto> tidy v)" by (auto simp: hash_map_def d map_of_assign fun_eq_iff)
  ultimately show ?thesis by blast
qed

lemma hash_delete_good:
  assumes "hash_good h c"
  shows "fst (hashDelete h c k) = hashHas h c k \<and> hash_good h (snd (hashDelete h c k)) \<and>
    hash_map (snd (hashDelete h c k)) = (hash_map c)(prop_key k := None)"
proof (cases "hashHas h c k")
  case True
  let ?r = "filter (\<lambda>p. fst p \<noteq> prop_key k) (h_data c)"
  have m: "map_of ?r = (map_of (h_data c))(prop_key k := None)"
    by (rule map_of_without)
  have dist: "distinct (map fst ?r)" using assms by (auto simp: hash_good_def distinct_map_filter)
  have "prop_key k \<in> dom (map_of (h_data c))" using True hash_has_iff [OF assms] by (simp add: dom_map_of_conv_image_fst)
  then have "card (dom (map_of (h_data c))) = Suc (card (dom (map_of ?r)))"
    using card_Suc_Diff1 [OF finite_dom_map_of [of "h_data c"]] m by simp
  then have "length (h_data c) = Suc (length ?r)"
    using card_map_of [OF dist] card_map_of [of "h_data c"] assms by (simp add: hash_good_def)
  then show ?thesis using True assms dist m by (auto simp: hashDelete_def hash_good_def hash_map_def fun_eq_iff)
next
  case False
  then have "map_of (h_data c) (prop_key k) = None" using hash_has_iff [OF assms] by (simp add: map_of_eq_None_iff)
  then show ?thesis using False assms by (auto simp: hashDelete_def hash_map_def fun_eq_iff)
qed

interpretation hash: key_map hashClear "hashGet h" "hashHas h" "hashSet h" "hashDelete h" h_size hash_key prop_key hash_map "hash_good h" for h
proof (unfold_locales, goal_cases)
  case 1
  show ?case by (simp add: hashClear_def hash_good_def hash_map_def fun_eq_iff)
next
  case (2 c k)
  then show ?case by (auto simp: hashGet_def own_def hash_map_def split: option.split)
next
  case (3 c k)
  then show ?case using hash_has_iff [OF 3(1), of k] by (auto simp: hash_map_def map_of_eq_None_iff)
next
  case (4 c k v)
  then show ?case by (rule hash_set_good)
next
  case (5 c k)
  then show ?case using hash_delete_good by blast
next
  case (6 c)
  then show ?case by (simp add: hash_good_def hash_map_def finite_dom_map_of card_map_of)
qed

section \<open>\<open>ListCache\<close> and the map of the host\<close>

lemma eq_iff: "eq k k' \<longleftrightarrow> plain_zero k = plain_zero k'"
proof -
  have n: "num_equal x y \<or> \<not> num_equal x x \<and> \<not> num_equal y y \<longleftrightarrow> plain_zero (KNum x) = plain_zero (KNum y)" for x y
    by (cases x; cases y) auto
  show ?thesis
  proof (cases "\<exists>x y. k = KNum x \<and> k' = KNum y")
    case True
    then obtain x y where "k = KNum x" "k' = KNum y" by blast
    then show ?thesis using n [of x y] by (simp add: eq_def)
  next
    case False
    then have "strict_equal k k' \<longleftrightarrow> k = k'" by (cases k; cases k') auto
    moreover have "plain_zero k = plain_zero k' \<longleftrightarrow> k = k'"
      using False by (cases k rule: plain_zero.cases; cases k' rule: plain_zero.cases) auto
    moreover have "strict_equal k k \<or> strict_equal k' k'" using False by (cases k; cases k') auto
    ultimately show ?thesis by (auto simp: eq_def)
  qed
qed

lemma plain_zero_idem [simp]: "plain_zero (plain_zero k) = plain_zero k"
  by (cases k rule: plain_zero.cases) simp_all

text \<open>The pairs with the keys that stand for their classes.\<close>

definition classed :: "(key \<times> 'v) list \<Rightarrow> (key \<times> 'v) list" where
  "classed ps = map (\<lambda>p. (plain_zero (fst p), snd p)) ps"

lemma classed_simps [simp]:
  "classed [] = []" "classed (p # ps) = (plain_zero (fst p), snd p) # classed ps" "classed (ps @ qs) = classed ps @ classed qs"
  "length (classed ps) = length ps" "fst ` set (classed ps) = (plain_zero \<circ> fst) ` set ps" "map fst (classed ps) = map (plain_zero \<circ> fst) ps"
  by (simp_all add: classed_def image_image)

definition list_map :: "(key \<times> 'v cval) list \<Rightarrow> key \<rightharpoonup> 'v cval" where
  "list_map ps = map_option tidy \<circ> map_of (classed ps)"

definition list_good :: "(key \<times> 'v cval) list \<Rightarrow> bool" where
  "list_good ps \<longleftrightarrow> distinct (map fst (classed ps))"

lemma tidy_upd:
  "map_option tidy \<circ> m(k := None) = (map_option tidy \<circ> m)(k := None)" "map_option tidy \<circ> m(k \<mapsto> v) = (map_option tidy \<circ> m)(k \<mapsto> tidy v)"
  by (simp_all add: fun_eq_iff)

lemma assoc_loop_cases:
  "assoc_loop ps k n = - 1 \<and> (\<forall>i < n. \<not> eq (fst (ps ! i)) k) \<or>
   (\<exists>i < n. assoc_loop ps k n = int i \<and> eq (fst (ps ! i)) k)"
  by (induction ps k n rule: assoc_loop.induct) (auto simp: less_Suc_eq)

lemma assocIndexOf_cases:
  obtains (none) "assocIndexOf ps k = - 1" "plain_zero k \<notin> fst ` set (classed ps)" "map_of (classed ps) (plain_zero k) = None"
  | (at) i where "assocIndexOf ps k = int i" "i < length ps" "plain_zero (fst (ps ! i)) = plain_zero k"
proof -
  consider "assocIndexOf ps k = - 1" "\<forall>i < length ps. \<not> eq (fst (ps ! i)) k"
    | i where "i < length ps" "assocIndexOf ps k = int i" "eq (fst (ps ! i)) k"
    using assoc_loop_cases [of ps k "length ps"] by (auto simp: assocIndexOf_def)
  then show thesis
  proof cases
    case 1
    have "plain_zero k \<notin> fst ` set (classed ps)" using 1(2) by (auto simp: eq_iff in_set_conv_nth) (metis fst_conv)
    then show thesis using none 1(1) by (metis map_of_eq_None_iff)
  next
    case 2
    then show thesis using at by (simp add: eq_iff)
  qed
qed

lemma map_of_at: "distinct (map fst ps) \<Longrightarrow> i < length ps \<Longrightarrow> map_of ps (fst (ps ! i)) = Some (snd (ps ! i))"
  by (metis map_of_is_SomeI nth_mem prod.collapse)

lemma map_of_replace:
  "distinct (map fst ps) \<Longrightarrow> i < length ps \<Longrightarrow> map_of (ps[i := (fst (ps ! i), v)]) = (map_of ps)(fst (ps ! i) \<mapsto> v)"
proof (induction ps arbitrary: i)
  case (Cons p ps)
  show ?case
  proof (cases i)
    case (Suc j)
    then have "fst (ps ! j) \<in> fst ` set ps" using Cons.prems by simp
    moreover have "fst p \<notin> fst ` set ps" using Cons.prems by simp
    ultimately have "fst (ps ! j) \<noteq> fst p" by metis
    then show ?thesis using Cons Suc by (auto simp: fun_eq_iff)
  qed (auto simp: fun_eq_iff)
qed simp

lemma map_fst_replace: "i < length ps \<Longrightarrow> map fst (ps[i := (fst (ps ! i), v)]) = map fst ps"
  by (simp add: map_update list_update_same_conv)

lemma map_of_remove:
  "distinct (map fst ps) \<Longrightarrow> i < length ps \<Longrightarrow> map_of (take i ps @ drop (Suc i) ps) = (map_of ps)(fst (ps ! i) := None)"
proof (induction ps arbitrary: i)
  case (Cons p ps)
  show ?case
  proof (cases i)
    case 0
    have "map_of ps (fst p) = None" using Cons.prems(1) by (simp add: map_of_eq_None_iff)
    then show ?thesis using 0 by (auto simp: fun_eq_iff)
  next
    case (Suc j)
    then have "map_of (take j ps @ drop (Suc j) ps) = (map_of ps)(fst (ps ! j) := None)" using Cons.IH [of j] Cons.prems by (simp add: fun_upd_def)
    moreover have "fst (ps ! j) \<in> fst ` set ps" using Cons.prems Suc by simp
    moreover have "fst p \<notin> fst ` set ps" using Cons.prems by simp
    ultimately have "map_of (take j ps @ drop (Suc j) ps) = (map_of ps)(fst (ps ! j) := None)" "fst p \<noteq> fst (ps ! j)" by metis+
    then show ?thesis using Suc by (auto simp: fun_eq_iff)
  qed
qed simp

lemma classed_at: "i < length ps \<Longrightarrow> classed ps ! i = (plain_zero (fst (ps ! i)), snd (ps ! i))"
  by (simp add: classed_def)

lemma classed_replace: "i < length ps \<Longrightarrow> classed (ps[i := (fst (ps ! i), v)]) = (classed ps)[i := (fst (classed ps ! i), v)]"
  by (simp add: classed_def map_update)

lemma distinct_remove: "distinct xs \<Longrightarrow> distinct (take i xs @ drop (Suc i) xs)"
  using set_take_disj_set_drop_if_distinct [of xs i "Suc i"] by (simp add: distinct_take distinct_drop)

definition cache_good :: "'v list_cache \<Rightarrow> bool" where
  "cache_good c \<longleftrightarrow> list_good (l_data c) \<and> l_size c = int (length (l_data c))"

lemma removed_eq: "i < length xs \<Longrightarrow> (if int i = int (length xs) - 1 then butlast xs else take i xs @ drop (Suc i) xs) = take i xs @ drop (Suc i) xs"
proof -
  assume "i < length xs"
  moreover have "int i = int (length xs) - 1 \<Longrightarrow> i = length xs - 1" by linarith
  ultimately show ?thesis by (auto simp: butlast_conv_take)
qed

lemma list_delete_good:
  assumes "cache_good c"
  shows "fst (listCacheDelete c k) = listCacheHas c k \<and> cache_good (snd (listCacheDelete c k)) \<and>
    list_map (l_data (snd (listCacheDelete c k))) = (list_map (l_data c))(plain_zero k := None)"
proof (cases rule: assocIndexOf_cases [of "l_data c" k])
  case none
  then show ?thesis using assms by (auto simp: listCacheDelete_def listCacheHas_def list_map_def fun_eq_iff Let_def)
next
  case (at i)
  let ?r = "take i (l_data c) @ drop (Suc i) (l_data c)"
  have c: "classed ?r = take i (classed (l_data c)) @ drop (Suc i) (classed (l_data c))" by (simp add: classed_def take_map drop_map)
  have d: "distinct (map fst (classed (l_data c)))" using assms by (simp add: cache_good_def list_good_def del: classed_simps)
  have "distinct (map fst (classed ?r))" using distinct_remove [OF d, of i] unfolding c by (simp add: take_map drop_map del: classed_simps)
  moreover have "map_of (classed ?r) = (map_of (classed (l_data c)))(plain_zero k := None)"
    using map_of_remove [OF d, of i] at(2,3) unfolding c by (simp add: classed_at)
  moreover have "l_size c - 1 = int (length ?r)" using assms at(2) by (simp add: cache_good_def)
  moreover have "listCacheDelete c k = (True, \<lparr>l_data = ?r, l_size = l_size c - 1\<rparr>)"
    unfolding listCacheDelete_def Let_def at(1) nat_int using removed_eq [OF at(2)] by (simp del: if_split)
  moreover have "listCacheHas c k" using at(1) by (simp add: listCacheHas_def)
  ultimately show ?thesis by (simp add: cache_good_def list_good_def list_map_def tidy_upd del: classed_simps length_append)
qed

lemma list_set_good:
  assumes "cache_good c"
  shows "cache_good (listCacheSet c k v) \<and> list_map (l_data (listCacheSet c k v)) = (list_map (l_data c))(plain_zero k \<mapsto> tidy v)"
proof (cases rule: assocIndexOf_cases [of "l_data c" k])
  case none
  then show ?thesis using assms
    by (auto simp: listCacheSet_def list_map_def cache_good_def list_good_def fun_eq_iff map_add_def split: option.split)
next
  case (at i)
  have d: "distinct (map fst (classed (l_data c)))" using assms by (simp add: cache_good_def list_good_def del: classed_simps)
  have "map fst ((classed (l_data c))[i := (fst (classed (l_data c) ! i), v)]) = map fst (classed (l_data c))"
    using at(2) by (intro map_fst_replace) simp
  moreover have "map_of ((classed (l_data c))[i := (fst (classed (l_data c) ! i), v)]) = (map_of (classed (l_data c)))(plain_zero k \<mapsto> v)"
    using map_of_replace [OF d, of i v] at(2,3) by (simp add: classed_at)
  moreover have "l_data (listCacheSet c k v) = (l_data c)[i := (fst (l_data c ! i), v)]" "l_size (listCacheSet c k v) = l_size c"
    using at(1) by (simp_all add: listCacheSet_def)
  ultimately have "distinct (map fst (classed (l_data (listCacheSet c k v))))" "l_size (listCacheSet c k v) = int (length (l_data (listCacheSet c k v)))"
    "map_of (classed (l_data (listCacheSet c k v))) = (map_of (classed (l_data c)))(plain_zero k \<mapsto> v)"
    using d assms at(2) by (simp_all add: classed_replace cache_good_def del: classed_simps(6))
  then show ?thesis by (auto simp: list_map_def cache_good_def list_good_def fun_eq_iff simp del: classed_simps(6))
qed

interpretation list_cache: key_map listCacheClear listCacheGet listCacheHas listCacheSet listCacheDelete l_size "\<lambda>k. True" plain_zero
  "\<lambda>c. list_map (l_data c)" cache_good
proof (unfold_locales, goal_cases)
  case 1
  show ?case by (simp add: listCacheClear_def cache_good_def list_good_def list_map_def fun_eq_iff)
next
  case (2 c k)
  have d: "distinct (map fst (classed (l_data c)))" using 2 by (simp add: cache_good_def list_good_def del: classed_simps)
  show ?case
  proof (cases rule: assocIndexOf_cases [of "l_data c" k])
    case none
    then show ?thesis by (simp add: listCacheGet_def list_map_def)
  next
    case (at i)
    then show ?thesis using map_of_at [OF d, of i] by (simp add: listCacheGet_def list_map_def classed_at)
  qed
next
  case (3 c k)
  have d: "distinct (map fst (classed (l_data c)))" using 3 by (simp add: cache_good_def list_good_def del: classed_simps)
  show ?case
  proof (cases rule: assocIndexOf_cases [of "l_data c" k])
    case none
    then show ?thesis by (simp add: listCacheHas_def list_map_def)
  next
    case (at i)
    then show ?thesis using map_of_at [OF d, of i] by (simp add: listCacheHas_def list_map_def classed_at)
  qed
next
  case (4 c k v)
  then show ?case using list_set_good by blast
next
  case (5 c k)
  then show ?case using list_delete_good by blast
next
  case (6 c)
  then have "distinct (map fst (classed (l_data c)))" by (simp add: cache_good_def list_good_def del: classed_simps)
  then show ?case using 6 card_map_of [of "classed (l_data c)"] by (simp add: cache_good_def list_map_def finite_dom_map_of)
qed

lemma native_set_classed: "map_of (classed (native_set ps k v)) = (map_of (classed ps))(plain_zero k \<mapsto> v)"
  by (induction ps k v rule: native_set.induct) (auto simp: eq_iff fun_eq_iff)

lemma native_set_keys: "(plain_zero \<circ> fst) ` set (native_set ps k v) = insert (plain_zero k) ((plain_zero \<circ> fst) ` set ps)"
  by (induction ps k v rule: native_set.induct) (auto simp: eq_iff)

lemma native_set_good: "list_good ps \<Longrightarrow> list_good (native_set ps k v)"
proof (induction ps k v rule: native_set.induct)
  case (2 k' v' ps k v)
  show ?case
  proof (cases "eq k' k")
    case False
    then have "plain_zero k' \<notin> (plain_zero \<circ> fst) ` set (native_set ps k v)" using 2(2) unfolding native_set_keys by (simp add: eq_iff list_good_def)
    then show ?thesis using 2 False by (simp add: list_good_def)
  qed (use 2 in \<open>simp add: list_good_def\<close>)
qed (simp add: list_good_def)

lemma native_find:
  "(case find (\<lambda>e. eq (fst e) k) ps of None \<Rightarrow> Undefined | Some e \<Rightarrow> snd e) = or_undefined (map_of (classed ps) (plain_zero k))"
  "list_ex (\<lambda>e. eq (fst e) k) ps \<longleftrightarrow> map_of (classed ps) (plain_zero k) \<noteq> None"
  by (induction ps) (auto simp: eq_iff)

lemma native_filter: "classed (filter (\<lambda>e. \<not> eq (fst e) k) ps) = filter (\<lambda>p. fst p \<noteq> plain_zero k) (classed ps)"
  by (induction ps) (auto simp: eq_iff)

fun any_list :: "'v any_map \<Rightarrow> (key \<times> 'v cval) list" where
  "any_list (Native ps) = ps"
| "any_list (Listed c) = l_data c"

fun any_good :: "'v any_map \<Rightarrow> bool" where
  "any_good (Native ps) = list_good ps"
| "any_good (Listed c) = cache_good c"

interpretation any_map: key_map "new_map h" map_get map_has map_set map_delete map_size "\<lambda>k. True" plain_zero "\<lambda>m. list_map (any_list m)" any_good for h
proof (unfold_locales, goal_cases)
  case 1
  show ?case using list_cache.new_law by (auto simp: new_map_def list_good_def list_map_def fun_eq_iff)
next
  case (2 m k)
  have "tidy (or_undefined r) = or_undefined (map_option tidy r)" for r :: "'v cval option" by (cases r) simp_all
  then show ?case using 2 list_cache.get_law by (cases m) (auto simp: native_find(1) list_map_def)
next
  case (3 m k)
  then show ?case using list_cache.has_law by (cases m) (auto simp: native_find(2) list_map_def)
next
  case (4 m k v)
  show ?case
  proof (cases m)
    case (Native ps)
    then show ?thesis using 4 by (simp add: native_set_good native_set_classed list_map_def tidy_upd)
  next
    case (Listed c)
    then show ?thesis using 4 list_cache.set_law [of c k v] by simp
  qed
next
  case (5 m k)
  show ?case
  proof (cases m)
    case (Native ps)
    have "list_good (filter (\<lambda>e. \<not> eq (fst e) k) ps)"
      using 5 Native by (auto simp: list_good_def native_filter distinct_map_filter simp del: classed_simps(6))
    then show ?thesis using Native by (auto simp: native_filter map_of_without list_map_def fun_eq_iff)
  next
    case (Listed c)
    then show ?thesis using 5 list_cache.del_law [of c k] by (auto split: prod.split)
  qed
next
  case (6 m)
  show ?case
  proof (cases m)
    case (Native ps)
    then show ?thesis using 6 card_map_of [of "classed ps"] by (simp add: list_good_def list_map_def finite_dom_map_of)
  next
    case (Listed c)
    then show ?thesis using 6 list_cache.size_law [of c] by simp
  qed
qed

section \<open>\<open>MapCache\<close>\<close>

datatype key_class = HashClass prop_name | StringClass prop_name | MapClass key

definition kclass :: "key \<Rightarrow> key_class" where
  "kclass k = (case getMapData k of HashData \<Rightarrow> HashClass (prop_key k) | StringData \<Rightarrow> StringClass (prop_key k) | MapData \<Rightarrow> MapClass (plain_zero k))"

fun cache_map :: "'v map_cache \<Rightarrow> key_class \<rightharpoonup> 'v cval" where
  "cache_map c (HashClass p) = hash_map (m_hash c) p"
| "cache_map c (StringClass p) = hash_map (m_string c) p"
| "cache_map c (MapClass k) = list_map (any_list (m_map c)) k"

definition map_cache_good :: "host \<Rightarrow> 'v map_cache \<Rightarrow> bool" where
  "map_cache_good h c \<longleftrightarrow> hash_good h (m_hash c) \<and> hash_good h (m_string c) \<and> any_good (m_map c) \<and>
     m_size c = h_size (m_hash c) + h_size (m_string c) + map_size (m_map c)"

text \<open>The text of a number begins with a digit, a sign or one of two letters, so it is not \<open>__proto__\<close> and no other name.\<close>

definition number_head :: "jstr \<Rightarrow> bool" where
  "number_head s \<longleftrightarrow> s \<noteq> [] \<and> (hd s = 45 \<or> hd s = 73 \<or> hd s = 78 \<or> 48 \<le> uint (hd s) \<and> uint (hd s) \<le> 57)"

lemma radix_head:
  obtains c cs where "radix_digits 10 n = c # cs" "48 \<le> uint c" "uint c \<le> 57"
proof -
  have "list_all (digit_ok 10) (radix_digits 10 n)" "radix_digits 10 n \<noteq> []" using radix_all [of 10 n] by simp_all
  then obtain c cs where "radix_digits 10 n = c # cs" "digit_ok 10 c" by (cases "radix_digits 10 n") auto
  then show thesis using that by (auto simp: digit_ok_def isDecCode_def)
qed

lemma layout_head: "number_head (number_layout (radix_digits 10 m) n)"
proof -
  obtain c cs where "radix_digits 10 m = c # cs" "48 \<le> uint c" "uint c \<le> 57" by (rule radix_head)
  moreover have "number_head (c # s)" if "48 \<le> uint c" "uint c \<le> 57" for s using that by (simp add: number_head_def)
  moreover have "0 < n \<Longrightarrow> take (nat n) (c # cs) = c # take (nat n - 1) cs" by (cases "nat n") auto
  ultimately show ?thesis by (auto simp: number_layout_def Let_def number_head_def js_def)
qed

lemma number_text_head: "number_head (number_text x)"
proof (cases x)
  case (Fin r)
  have "number_head (js ''0'')" "number_head (45 # s)" for s by (simp_all add: number_head_def js_def)
  then show ?thesis using Fin layout_head by (auto simp: number_string_def Let_def split: prod.split)
qed (simp_all add: number_head_def js_def)

lemma data_keys: "getMapData k = HashData \<Longrightarrow> hash_key k" "getMapData k = StringData \<Longrightarrow> hash_key k"
proof -
  have "number_text x \<noteq> js ''__proto__''" for x using number_text_head [of x] by (auto simp: number_head_def js_def)
  then show "getMapData k = HashData \<Longrightarrow> hash_key k" by (cases k) (auto simp: getMapData_def hash_key_def js_def split: if_splits)
  show "getMapData k = StringData \<Longrightarrow> hash_key k" by (cases k) (auto simp: getMapData_def hash_key_def split: if_splits)
qed

lemma map_cache_set_good:
  assumes "map_cache_good h c"
  shows "map_cache_good h (mapCacheSet h c k v) \<and> cache_map (mapCacheSet h c k v) = (cache_map c)(kclass k \<mapsto> tidy v)"
proof (cases "getMapData k")
  case HashData
  note k = data_keys(1) [OF HashData]
  have g: "hash_good h (m_hash c)" using assms by (simp add: map_cache_good_def)
  have "cache_map (mapCacheSet h c k v) q = ((cache_map c)(kclass k \<mapsto> tidy v)) q" for q
    using hash.set_law [OF g k, of v] HashData by (cases q) (auto simp: mapCacheSet_def kclass_def Let_def)
  then show ?thesis using assms HashData hash.set_law [OF g k, of v] hash.size_set [OF g k, of v]
    by (auto simp: mapCacheSet_def map_cache_good_def Let_def)
next
  case StringData
  note k = data_keys(2) [OF StringData]
  have g: "hash_good h (m_string c)" using assms by (simp add: map_cache_good_def)
  have "cache_map (mapCacheSet h c k v) q = ((cache_map c)(kclass k \<mapsto> tidy v)) q" for q
    using hash.set_law [OF g k, of v] StringData by (cases q) (auto simp: mapCacheSet_def kclass_def Let_def)
  then show ?thesis using assms StringData hash.set_law [OF g k, of v] hash.size_set [OF g k, of v]
    by (auto simp: mapCacheSet_def map_cache_good_def Let_def)
next
  case MapData
  have g: "any_good (m_map c)" using assms by (simp add: map_cache_good_def)
  have "cache_map (mapCacheSet h c k v) q = ((cache_map c)(kclass k \<mapsto> tidy v)) q" for q
    using any_map.set_law [OF g TrueI, of k v] MapData by (cases q) (auto simp: mapCacheSet_def kclass_def Let_def)
  then show ?thesis using assms MapData any_map.set_law [OF g TrueI, of k v] any_map.size_set [OF g TrueI, of k v]
    by (auto simp: mapCacheSet_def map_cache_good_def Let_def)
qed

lemma map_cache_delete_good:
  assumes "map_cache_good h c"
  shows "fst (mapCacheDelete h c k) = mapCacheHas h c k \<and> map_cache_good h (snd (mapCacheDelete h c k)) \<and>
    cache_map (snd (mapCacheDelete h c k)) = (cache_map c)(kclass k := None)"
proof (cases "getMapData k")
  case HashData
  note k = data_keys(1) [OF HashData]
  have g: "hash_good h (m_hash c)" using assms by (simp add: map_cache_good_def)
  obtain r d where d: "hashDelete h (m_hash c) k = (r, d)" by fastforce
  have "cache_map (snd (mapCacheDelete h c k)) q = ((cache_map c)(kclass k := None)) q" for q
    using hash.del_law [OF g k] HashData d by (cases q) (auto simp: mapCacheDelete_def kclass_def)
  then show ?thesis using assms HashData d hash.del_law [OF g k] hash.size_del [OF g k]
    by (auto simp: mapCacheDelete_def mapCacheHas_def map_cache_good_def)
next
  case StringData
  note k = data_keys(2) [OF StringData]
  have g: "hash_good h (m_string c)" using assms by (simp add: map_cache_good_def)
  obtain r d where d: "hashDelete h (m_string c) k = (r, d)" by fastforce
  have "cache_map (snd (mapCacheDelete h c k)) q = ((cache_map c)(kclass k := None)) q" for q
    using hash.del_law [OF g k] StringData d by (cases q) (auto simp: mapCacheDelete_def kclass_def)
  then show ?thesis using assms StringData d hash.del_law [OF g k] hash.size_del [OF g k]
    by (auto simp: mapCacheDelete_def mapCacheHas_def map_cache_good_def)
next
  case MapData
  have g: "any_good (m_map c)" using assms by (simp add: map_cache_good_def)
  obtain r d where d: "map_delete (m_map c) k = (r, d)" by fastforce
  have "cache_map (snd (mapCacheDelete h c k)) q = ((cache_map c)(kclass k := None)) q" for q
    using any_map.del_law [OF g TrueI, of k] MapData d by (cases q) (auto simp: mapCacheDelete_def kclass_def)
  then show ?thesis using assms MapData d any_map.del_law [OF g TrueI, of k] any_map.size_del [OF g TrueI, of k]
    by (auto simp: mapCacheDelete_def mapCacheHas_def map_cache_good_def)
qed

lemma dom_cache_map:
  "dom (cache_map c) = HashClass ` dom (hash_map (m_hash c)) \<union> StringClass ` dom (hash_map (m_string c)) \<union> MapClass ` dom (list_map (any_list (m_map c)))"
  (is "_ = ?r")
proof -
  have "cache_map c q \<noteq> None \<longleftrightarrow> q \<in> ?r" for q by (cases q) (auto simp: domIff)
  then show ?thesis by (intro set_eqI) (metis domIff)
qed

interpretation map_cache: key_map "mapCacheClear h" "mapCacheGet h" "mapCacheHas h" "mapCacheSet h" "mapCacheDelete h" m_size
  "\<lambda>k. True" kclass cache_map "map_cache_good h" for h
proof (unfold_locales, goal_cases)
  case 1
  have "cache_map (mapCacheClear h) q = None" for q
    by (cases q) (simp_all add: mapCacheClear_def hashClear_def hash_map_def new_map_def listCacheClear_def list_map_def)
  moreover have "map_size (new_map h) = 0" by (simp add: new_map_def listCacheClear_def)
  moreover have "hash_good h hashClear" "any_good (new_map h)"
    by (simp_all add: hash_good_def hashClear_def new_map_def list_good_def cache_good_def listCacheClear_def)
  ultimately show ?case by (auto simp: mapCacheClear_def map_cache_good_def hashClear_def fun_eq_iff)
next
  case (2 c k)
  then show ?case using hash.get_law [of h "m_hash c" k] hash.get_law [of h "m_string c" k] any_map.get_law [of "m_map c" k] data_keys [of k]
    by (cases "getMapData k") (simp_all add: mapCacheGet_def kclass_def map_cache_good_def)
next
  case (3 c k)
  then show ?case using hash.has_law [of h "m_hash c" k] hash.has_law [of h "m_string c" k] any_map.has_law [of "m_map c" k] data_keys [of k]
    by (cases "getMapData k") (simp_all add: mapCacheHas_def kclass_def map_cache_good_def)
next
  case (4 c k v)
  then show ?case using map_cache_set_good by blast
next
  case (5 c k)
  then show ?case using map_cache_delete_good by blast
next
  case (6 c)
  then have f: "finite (dom (hash_map (m_hash c)))" "finite (dom (hash_map (m_string c)))" "finite (dom (list_map (any_list (m_map c))))"
    "h_size (m_hash c) = int (card (dom (hash_map (m_hash c))))" "h_size (m_string c) = int (card (dom (hash_map (m_string c))))"
    "map_size (m_map c) = int (card (dom (list_map (any_list (m_map c)))))"
    using hash.size_law [of h "m_hash c"] hash.size_law [of h "m_string c"] any_map.size_law [of "m_map c"] by (simp_all add: map_cache_good_def)
  have inj: "inj_on HashClass X" "inj_on StringClass Y" "inj_on MapClass Z" for X Y Z by (auto simp: inj_on_def)
  let ?A = "HashClass ` dom (hash_map (m_hash c))" and ?B = "StringClass ` dom (hash_map (m_string c))"
    and ?C = "MapClass ` dom (list_map (any_list (m_map c)))"
  have "?A \<inter> ?B = {}" "(?A \<union> ?B) \<inter> ?C = {}" by auto
  then have "card (dom (cache_map c)) = card ?A + card ?B + card ?C"
    unfolding dom_cache_map using f(1-3) by (simp only: card_Un_disjoint finite_imageI finite_Un simp_thms)
  then have "card (dom (cache_map c)) = card (dom (hash_map (m_hash c))) + card (dom (hash_map (m_string c))) + card (dom (list_map (any_list (m_map c))))"
    by (simp only: card_image inj)
  then show ?case using 6 f by (auto simp: map_cache_good_def dom_cache_map)
qed

end
