(* ===== verification/Memo_Laws.thy ===== *)
theory Memo_Laws
  imports Cache_Laws
begin

text \<open>
  \<open>MapCache\<close> is a map whose keys are compared as \<open>eq\<close> does, and memoized functions return what their function
  returns.  Keys that are numbers are told apart by their texts, as the language guarantees for numbers.
\<close>

section \<open>Keys\<close>

definition texts_differ :: "key list \<Rightarrow> bool" where
  "texts_differ ks \<longleftrightarrow> list_all (\<lambda>k. list_all (\<lambda>k'. case (k, k') of
     (KNum x, KNum y) \<Rightarrow> number_text x = number_text y \<longrightarrow> plain_zero k = plain_zero k' | _ \<Rightarrow> True) ks) ks"

lemma kclass_zero: "kclass (plain_zero k) = kclass k"
proof -
  have "number_string 0 = js ''0''" by (simp add: number_string_def Let_def split: prod.split)
  then show ?thesis by (cases k rule: plain_zero.cases) (simp_all add: kclass_def getMapData_def)
qed

lemma kclass_iff:
  assumes "texts_differ ks" "k \<in> set ks" "k' \<in> set ks"
  shows "kclass k = kclass k' \<longleftrightarrow> plain_zero k = plain_zero k'"
proof
  assume e: "kclass k = kclass k'"
  have head: "number_text x \<noteq> js ''null''" "number_text x \<noteq> js ''true''" "number_text x \<noteq> js ''false''" for x
    using number_text_head [of x] by (auto simp: number_head_def js_def)
  have "case (k, k') of (KNum x, KNum y) \<Rightarrow> number_text x = number_text y \<longrightarrow> plain_zero k = plain_zero k' | _ \<Rightarrow> True"
    using assms unfolding texts_differ_def list_all_iff by blast
  then have num: "number_text x = number_text y \<Longrightarrow> plain_zero (KNum x) = plain_zero (KNum y)" if "k = KNum x" "k' = KNum y" for x y
    using that by simp
  have names: "js ''null'' \<noteq> js ''true''" "js ''null'' \<noteq> js ''false''" "js ''true'' \<noteq> js ''false''" by (simp_all add: js_def)
  show "plain_zero k = plain_zero k'"
  proof (cases "\<exists>x y. k = KNum x \<and> k' = KNum y")
    case True
    then obtain x y where "k = KNum x" "k' = KNum y" by blast
    then show ?thesis using num [of x y] e by (simp add: kclass_def getMapData_def)
  next
    case False
    then show ?thesis using e
      by (cases k; cases k')
        (auto simp: kclass_def getMapData_def head head [symmetric] names names [symmetric] split: if_splits)
  qed
next
  assume "plain_zero k = plain_zero k'"
  then show "kclass k = kclass k'" by (metis kclass_zero)
qed

lemma card_same_classes:
  assumes "\<And>x y. x \<in> K \<Longrightarrow> y \<in> K \<Longrightarrow> f x = f y \<longleftrightarrow> g x = g y"
  shows "card (f ` K) = card (g ` K)"
proof -
  let ?h = "\<lambda>y. g (inv_into K f y)"
  have h: "?h (f x) = g x" if "x \<in> K" for x
    using assms [of "inv_into K f (f x)" x] that by (simp add: inv_into_into f_inv_into_f)
  have "inj_on ?h (f ` K)" using h assms by (auto simp: inj_on_def)
  moreover have "?h ` f ` K = g ` K" using h by (force simp: image_iff)
  ultimately show ?thesis by (metis card_image)
qed

section \<open>Two maps with the same answers\<close>

definition same_map :: "key list \<Rightarrow> (key_class \<rightharpoonup> 'v cval) \<Rightarrow> (key \<rightharpoonup> 'v cval) \<Rightarrow> bool" where
  "same_map ks m m' \<longleftrightarrow> (\<forall>k \<in> set ks. m (kclass k) = m' (plain_zero k)) \<and>
     dom m \<subseteq> kclass ` set ks \<and> dom m' \<subseteq> plain_zero ` set ks"

lemma same_map_card:
  assumes "texts_differ ks" "same_map ks m m'"
  shows "card (dom m) = card (dom m')"
proof -
  let ?K = "{k \<in> set ks. m (kclass k) \<noteq> None}"
  have "dom m = kclass ` ?K" using assms(2) unfolding same_map_def by (auto simp: image_iff) blast
  moreover have "dom m' = plain_zero ` ?K"
  proof (intro set_eqI iffI)
    fix q
    assume q: "q \<in> dom m'"
    then obtain k where "k \<in> set ks" "q = plain_zero k" using assms(2) unfolding same_map_def by blast
    then show "q \<in> plain_zero ` ?K" using q assms(2) by (auto simp: same_map_def)
  qed (use assms(2) in \<open>auto simp: same_map_def\<close>)
  moreover have "card (kclass ` ?K) = card (plain_zero ` ?K)" using kclass_iff [OF assms(1)] by (intro card_same_classes) auto
  ultimately show ?thesis by simp
qed

lemma same_map_upd:
  assumes "texts_differ ks" "same_map ks m m'" "k \<in> set ks"
  shows "same_map ks (m(kclass k := r)) (m'(plain_zero k := r))"
  using assms kclass_iff [OF assms(1)] by (auto simp: same_map_def split: if_splits)

lemma same_map_step:
  assumes "texts_differ ks" "same_map ks m m'" "op_ok (\<lambda>k. k \<in> set ks) x"
  shows "fst (spec_step kclass x m) = fst (spec_step plain_zero x m') \<and> same_map ks (snd (spec_step kclass x m)) (snd (spec_step plain_zero x m'))"
  using assms(3) same_map_upd [OF assms(1,2)] same_map_card [OF assms(1,2)] assms(2)
  by (cases x) (auto simp: op_ok_def same_map_def)

lemma same_map_run:
  assumes "texts_differ ks" "same_map ks m m'" "list_all (op_ok (\<lambda>k. k \<in> set ks)) xs"
  shows "run_ops (spec_step kclass) xs m = run_ops (spec_step plain_zero) xs m'"
  using assms(2,3)
proof (induction xs arbitrary: m m')
  case (Cons x xs)
  then show ?case using same_map_step [OF assms(1), of m m' x] by simp
qed simp

section \<open>Values other than the string for \<open>undefined\<close>\<close>

definition clean_hash :: "host \<Rightarrow> 'v hash \<Rightarrow> bool" where
  "clean_hash h c \<longleftrightarrow> nativeCreate h \<or> HASH_UNDEFINED \<notin> snd ` set (h_data c)"

definition clean :: "host \<Rightarrow> 'v map_cache \<Rightarrow> bool" where
  "clean h c \<longleftrightarrow> clean_hash h (m_hash c) \<and> clean_hash h (m_string c) \<and> HASH_UNDEFINED \<notin> snd ` set (any_list (m_map c))"

lemma clean_new: "clean h (mapCacheClear h)"
  by (simp add: clean_def clean_hash_def mapCacheClear_def hashClear_def new_map_def listCacheClear_def)

lemma hashGet_clean: "clean_hash h c \<Longrightarrow> hashGet h c k \<noteq> HASH_UNDEFINED"
  by (auto simp: clean_hash_def hashGet_def own_def split: option.split) (metis image_eqI map_of_SomeD snd_conv)+

lemma map_get_clean:
  assumes "HASH_UNDEFINED \<notin> snd ` set (any_list m)"
  shows "map_get m k \<noteq> HASH_UNDEFINED"
proof (cases m)
  case (Native es)
  have "e \<in> set es" if "find (\<lambda>e. eq (fst e) k) es = Some e" for e using that by (metis find_Some_iff nth_mem)
  then show ?thesis using assms Native by (cases "find (\<lambda>e. eq (fst e) k) es") (auto simp: image_iff)
next
  case (Listed c)
  show ?thesis
  proof (cases rule: assocIndexOf_cases [of "l_data c" k])
    case (at i)
    then have "snd (l_data c ! i) \<in> snd ` set (l_data c)" by simp
    then have "snd (l_data c ! i) \<noteq> HASH_UNDEFINED" using assms Listed by (metis any_list.simps(2))
    then show ?thesis using Listed at by (simp add: listCacheGet_def)
  qed (simp add: Listed listCacheGet_def)
qed

lemma mapCacheGet_clean: "clean h c \<Longrightarrow> mapCacheGet h c k \<noteq> HASH_UNDEFINED"
  by (cases "getMapData k") (simp_all add: mapCacheGet_def clean_def hashGet_clean map_get_clean)

lemma hashSet_clean: "clean_hash h c \<Longrightarrow> v \<noteq> HASH_UNDEFINED \<Longrightarrow> clean_hash h (hashSet h c k v)"
  using assign_facts(2) [of "h_data c" "prop_key k" v] by (auto simp: clean_hash_def hashSet_def put_own_def)

lemma map_set_values: "snd ` set (any_list (map_set m k v)) \<subseteq> insert v (snd ` set (any_list m))"
proof (cases m)
  case (Native es)
  have "snd ` set (native_set es k v) \<subseteq> insert v (snd ` set es)" by (induction es k v rule: native_set.induct) auto
  then show ?thesis using Native by simp
next
  case (Listed c)
  have "snd ` set (xs[i := (a, v)]) \<subseteq> insert v (snd ` set xs)" for xs :: "(key \<times> 'a cval) list" and i a
    using set_update_subset_insert [of xs i "(a, v)"] by auto
  then show ?thesis using Listed by (simp add: listCacheSet_def Let_def)
qed

lemma mapCacheSet_clean: "clean h c \<Longrightarrow> v \<noteq> HASH_UNDEFINED \<Longrightarrow> clean h (mapCacheSet h c k v)"
  using map_set_values [of "m_map c" k v] by (cases "getMapData k") (auto simp: mapCacheSet_def clean_def Let_def hashSet_clean)

lemma map_delete_values: "set (any_list (snd (map_delete m k))) \<subseteq> set (any_list m)"
  by (cases m) (auto simp: listCacheDelete_def Let_def dest: in_set_butlastD in_set_takeD in_set_dropD split: prod.split)

lemma mapCacheDelete_clean: "clean h c \<Longrightarrow> clean h (snd (mapCacheDelete h c k))"
proof -
  assume c: "clean h c"
  have "clean_hash h d'" if "clean_hash h d" "hashDelete h d k = (r, d')" for d d' :: "'a hash" and r
    using that by (auto simp: clean_hash_def hashDelete_def split: if_splits)
  then show ?thesis using c map_delete_values [of "m_map c" k]
    by (cases "getMapData k") (auto simp: mapCacheDelete_def clean_def split: prod.split)
qed

section \<open>\<open>MapCache\<close> as a map\<close>

lemma cache_new [simp]: "map_cache_good h (mapCacheClear h)" "cache_map (mapCacheClear h) = Map.empty"
  using map_cache.new_law by blast+

definition cache_step :: "host \<Rightarrow> 'v op \<Rightarrow> 'v map_cache \<Rightarrow> 'v answer \<times> 'v map_cache" where
  "cache_step h = step_with (mapCacheClear h) (mapCacheGet h) (mapCacheHas h) (mapCacheSet h) (mapCacheDelete h) m_size"

definition plain_op :: "'v op \<Rightarrow> bool" where
  "plain_op x \<longleftrightarrow> (case x of Put k v \<Rightarrow> v \<noteq> HASH_UNDEFINED | _ \<Rightarrow> True)"

definition op_keys :: "'v op list \<Rightarrow> key list" where
  "op_keys xs = concat (map (\<lambda>x. case op_key x of None \<Rightarrow> [] | Some k \<Rightarrow> [k]) xs)"

lemma cache_step_clean:
  assumes "clean h c" "plain_op x"
  shows "tidy_answer (fst (cache_step h x c)) = fst (cache_step h x c) \<and> clean h (snd (cache_step h x c))"
proof (cases x)
  case (Get k)
  then show ?thesis using assms mapCacheGet_clean [OF assms(1), of k] by (simp add: cache_step_def tidy_def)
next
  case (Delete k)
  then show ?thesis using mapCacheDelete_clean [OF assms(1), of k] by (auto simp: cache_step_def split: prod.split)
qed (use assms in \<open>simp_all add: cache_step_def plain_op_def mapCacheSet_clean clean_new\<close>)

lemma cache_run_clean:
  assumes "clean h c" "list_all plain_op xs"
  shows "map tidy_answer (run_ops (cache_step h) xs c) = run_ops (cache_step h) xs c"
  using assms
proof (induction xs arbitrary: c)
  case (Cons x xs)
  then show ?case using cache_step_clean [of h c x] by simp
qed simp

text \<open>C12: whatever the host offers, every sequence of operations on a \<open>MapCache\<close> gives the answers of a finite map: a lookup
  returns the value stored last under a key that is the same by \<open>eq\<close>, \<open>has\<close> and \<open>delete\<close> say whether there is one, and the
  size is the number of keys.  \<open>NaN\<close>, the two zeros, \<open>"__proto__"\<close>, \<open>undefined\<close>, \<open>null\<close>, booleans, the strings that look like
  them, symbols and objects are keys; the value \<open>"__lodash_hash_undefined__"\<close> is excluded.\<close>

theorem cache_refines_map:
  assumes "list_all plain_op xs" "texts_differ (op_keys xs)"
  shows "run_ops (cache_step h) xs (mapCacheClear h) = run_ops (spec_step plain_zero) xs Map.empty"
proof -
  have "op_ok (\<lambda>k. k \<in> set (op_keys xs)) x" if "x \<in> set xs" for x
    using that by (auto simp: op_ok_def op_keys_def split: option.split intro!: bexI [of _ x])
  then have ok: "list_all (op_ok (\<lambda>k. k \<in> set (op_keys xs))) xs" by (simp add: list_all_iff)
  have t: "list_all (op_ok (\<lambda>k. True)) xs" by (simp add: list_all_iff op_ok_def split: option.split)
  have "run_ops (cache_step h) xs (mapCacheClear h) = map tidy_answer (run_ops (cache_step h) xs (mapCacheClear h))"
    using cache_run_clean [OF clean_new assms(1)] by simp
  also have "\<dots> = run_ops (spec_step kclass) xs Map.empty"
    using map_cache.run_refines [of h "mapCacheClear h" xs] t by (simp add: cache_step_def)
  also have "\<dots> = run_ops (spec_step plain_zero) xs Map.empty"
    by (rule same_map_run [OF assms(2) _ ok]) (simp add: same_map_def)
  finally show ?thesis .
qed

definition sample_ops :: "nat op list" where
  "sample_ops = [Put (KNum NegZero) (Cached 1), Put (KStr (js ''0'')) (Cached 2), Put (KStr (js ''__proto__'')) Undefined,
     Put (KNum NotANumber) (Cached 3), Get (KNum (Fin 0)), Get (KStr (js ''0'')), Has (KStr (js ''__proto__'')), Get (KNum NotANumber),
     Delete (KObj 1), Size]"

theorem cache_refines_map_witness:
  "run_ops (cache_step \<lparr>nativeCreate = True, nativeMap = False\<rparr>) sample_ops (mapCacheClear \<lparr>nativeCreate = True, nativeMap = False\<rparr>) =
     [Done, Done, Done, Done, Val (Cached 1), Val (Cached 2), Flag True, Val (Cached 3), Flag False, Num 4]"
proof -
  have n: "number_string 0 = js ''0''" by (simp add: number_string_def Let_def split: prod.split)
  have "texts_differ (op_keys sample_ops)" by (simp add: texts_differ_def op_keys_def sample_ops_def n js_def)
  moreover have "list_all plain_op sample_ops" by (simp add: plain_op_def sample_ops_def)
  moreover have "run_ops (spec_step plain_zero) sample_ops Map.empty =
      [Done, Done, Done, Done, Val (Cached 1), Val (Cached 2), Flag True, Val (Cached 3), Flag False, Num 4]"
    by (simp add: sample_ops_def js_def)
  ultimately show ?thesis using cache_refines_map [of sample_ops "\<lparr>nativeCreate = True, nativeMap = False\<rparr>"] by simp
qed

section \<open>\<open>memoize\<close>\<close>

text \<open>What the cache of a memoized function holds: results of the function.\<close>

definition memo_ok :: "host \<Rightarrow> ('a \<Rightarrow> key) \<Rightarrow> ('a \<Rightarrow> 'e + 'v cval) \<Rightarrow> 'a list \<Rightarrow> 'v map_cache \<Rightarrow> bool" where
  "memo_ok h kf func as c \<longleftrightarrow> map_cache_good h c \<and> clean h c \<and>
     (\<forall>a \<in> set as. \<forall>v. cache_map c (kclass (kf a)) = Some v \<longrightarrow> func a = Inr v)"

text \<open>The function depends on the key of its arguments only and does not return the string for \<open>undefined\<close>.\<close>

definition keyed :: "('a \<Rightarrow> key) \<Rightarrow> ('a \<Rightarrow> 'e + 'v cval) \<Rightarrow> 'a list \<Rightarrow> bool" where
  "keyed kf func as \<longleftrightarrow> texts_differ (map kf as) \<and>
     list_all (\<lambda>a. func a \<noteq> Inr HASH_UNDEFINED \<and> list_all (\<lambda>b. eq (kf a) (kf b) \<longrightarrow> func a = func b) as) as"

lemma memo_ok_new: "memo_ok h kf func as (mapCacheClear h)"
  by (simp add: memo_ok_def clean_new)

lemma memo_hit:
  assumes "memo_ok h kf func as c" "a \<in> set as" "mapCacheHas h c (kf a)"
  shows "func a = Inr (mapCacheGet h c (kf a))"
proof -
  have g: "map_cache_good h c" "clean h c" using assms(1) by (simp_all add: memo_ok_def)
  obtain v where v: "cache_map c (kclass (kf a)) = Some v" using map_cache.has_law [OF g(1) TrueI] assms(3) by blast
  then have "tidy (mapCacheGet h c (kf a)) = v" using map_cache.get_law [OF g(1) TrueI, of "kf a"] by simp
  then have "mapCacheGet h c (kf a) = v" using mapCacheGet_clean [OF g(2), of "kf a"] by (simp add: tidy_def)
  then show ?thesis using assms(1,2) v by (auto simp: memo_ok_def)
qed

lemma memo_miss:
  assumes "keyed kf func as" "memo_ok h kf func as c" "a \<in> set as" "func a = Inr v"
  shows "memo_ok h kf func as (mapCacheSet h c (kf a) v)"
proof -
  have g: "map_cache_good h c" "clean h c" using assms(2) by (simp_all add: memo_ok_def)
  have v: "v \<noteq> HASH_UNDEFINED" using assms(1,3,4) by (auto simp: keyed_def list_all_iff)
  have "func b = Inr v" if "b \<in> set as" "kclass (kf b) = kclass (kf a)" for b
  proof -
    have "plain_zero (kf a) = plain_zero (kf b)"
      using kclass_iff [of "map kf as" "kf a" "kf b"] assms(1,3) that by (simp add: keyed_def)
    then show ?thesis using assms(1,3,4) that(1) unfolding keyed_def list_all_iff eq_iff by metis
  qed
  then show ?thesis using assms(2) map_cache.set_law [OF g(1) TrueI, of "kf a" v] mapCacheSet_clean [OF g(2) v] v
    by (auto simp: memo_ok_def tidy_def)
qed

text \<open>A call with a resolver that leaves a cache with results.\<close>

lemma memoized_step:
  assumes "keyed kf func as" "a \<in> set as" "resolver a (cache s) = (kf a, c)" "memo_ok h kf func as c"
  shows "fst (memoized h resolver func s a) = func a \<and> memo_ok h kf func as (cache (snd (memoized h resolver func s a)))"
proof (cases "mapCacheHas h c (kf a)")
  case True
  then show ?thesis using memo_hit [OF assms(4,2)] assms(3,4) by (simp add: memoized_def)
next
  case False
  then show ?thesis using memo_miss [OF assms(1,4,2)] assms(3,4) by (simp add: memoized_def split: sum.split)
qed

lemma memoized_run:
  assumes "keyed kf func as" "set bs \<subseteq> set as" "memo_ok h kf func as (cache s)"
    and r: "\<And>a c. memo_ok h kf func as c \<Longrightarrow> fst (resolver a c) = kf a \<and> memo_ok h kf func as (snd (resolver a c))"
  shows "fst (run_calls (memoized h resolver func) s bs) = map func bs"
  using assms(2,3)
proof (induction bs arbitrary: s)
  case (Cons b bs)
  obtain c where c: "resolver b (cache s) = (kf b, c)" "memo_ok h kf func as c" using r [OF Cons.prems(2), of b] by (metis prod.collapse)
  obtain x s' where x: "memoized h resolver func s b = (x, s')" by fastforce
  have "x = func b" "memo_ok h kf func as (cache s')" 
    using memoized_step [OF assms(1), of b resolver s c h] c Cons.prems(1) x by auto
  then show ?case using Cons.IH [of s'] Cons.prems(1) x by (simp split: prod.split) (metis fst_conv)
qed simp

text \<open>The calls that returned, one per key that the cache holds.\<close>

definition returned :: "('a \<Rightarrow> 'e + 'v cval) \<Rightarrow> ('a, 'v) memo \<Rightarrow> 'a list" where
  "returned func s = filter (\<lambda>a. \<not> isl (func a)) (calls s)"

definition once :: "host \<Rightarrow> ('a \<Rightarrow> key) \<Rightarrow> ('a \<Rightarrow> 'e + 'v cval) \<Rightarrow> ('a, 'v) memo \<Rightarrow> bool" where
  "once h kf func s \<longleftrightarrow> map_cache_good h (cache s) \<and> distinct (map (plain_zero \<circ> kf) (returned func s)) \<and>
     (\<forall>a \<in> set (returned func s). cache_map (cache s) (kclass (kf a)) \<noteq> None)"

lemma once_step:
  assumes "once h kf func s"
  shows "once h kf func (snd (memoized h (plain_key kf) func s a))"
proof (cases "mapCacheHas h (cache s) (kf a)")
  case True
  then show ?thesis using assms by (simp add: memoized_def plain_key_def once_def returned_def)
next
  case False
  have g: "map_cache_good h (cache s)" using assms by (simp add: once_def)
  have new: "cache_map (cache s) (kclass (kf a)) = None" using False map_cache.has_law [OF g TrueI] by blast
  show ?thesis
  proof (cases "func a")
    case (Inl e)
    then show ?thesis using False assms by (simp add: memoized_def plain_key_def once_def returned_def)
  next
    case (Inr v)
    have "plain_zero (kf a) \<noteq> plain_zero (kf b)" if "b \<in> set (returned func s)" for b
      using that assms new unfolding once_def by (metis kclass_zero)
    then show ?thesis using False Inr assms map_cache.set_law [OF g TrueI, of "kf a" v]
      by (auto simp: memoized_def plain_key_def once_def returned_def)
  qed
qed

lemma once_run: "once h kf func s \<Longrightarrow> once h kf func (snd (run_calls (memoized h (plain_key kf) func) s as))"
proof (induction as arbitrary: s)
  case (Cons a as)
  then show ?case using Cons.IH [OF once_step [OF Cons.prems, of a]] by (simp split: prod.split) (metis snd_conv)
qed simp

text \<open>C13: a memoized function returns for every call what its function returns, as long as this depends only on the key, and it
  calls the function at most once for each key unless the call throws, which is passed on and tried again.\<close>

theorem memoize_transparent:
  assumes "keyed kf func as" "run_calls (memoized h (plain_key kf) func) (memoize h) as = (rs, s)"
  shows "rs = map func as \<and> distinct (map (plain_zero \<circ> kf) (filter (\<lambda>a. \<not> isl (func a)) (calls s)))"
proof -
  have "rs = map func as"
    using memoized_run [OF assms(1) subset_refl, of h "memoize h" "plain_key kf"] assms(2) by (simp add: memoize_def memo_ok_new plain_key_def)
  moreover have "once h kf func s"
    using once_run [of h kf func "memoize h" as] assms(2) by (simp add: once_def memoize_def returned_def)
  ultimately show ?thesis by (simp add: once_def returned_def)
qed

definition parity :: "key \<Rightarrow> nat + bool cval" where
  "parity k = (case k of KObj n \<Rightarrow> Inr (Cached (even n)) | KUndef \<Rightarrow> Inl 0 | _ \<Rightarrow> Inr Undefined)"

definition sample_keys :: "key list" where
  "sample_keys = [KObj 2, KUndef, KNum NegZero, KObj 2, KNum (Fin 0), KUndef]"

lemma sample_keyed: "keyed id parity sample_keys"
proof -
  have "number_string 0 = js ''0''" by (simp add: number_string_def Let_def split: prod.split)
  then show ?thesis by (simp add: keyed_def sample_keys_def parity_def texts_differ_def eq_iff)
qed

theorem memoize_transparent_witness:
  "\<exists>s. run_calls (memoized \<lparr>nativeCreate = False, nativeMap = True\<rparr> (plain_key id) parity) (memoize \<lparr>nativeCreate = False, nativeMap = True\<rparr>) sample_keys =
     ([Inr (Cached True), Inl 0, Inr Undefined, Inr (Cached True), Inr Undefined, Inl 0], s) \<and>
     distinct (map (plain_zero \<circ> id) (filter (\<lambda>a. \<not> isl (parity a)) (calls s)))"
proof -
  obtain rs s where r: "run_calls (memoized \<lparr>nativeCreate = False, nativeMap = True\<rparr> (plain_key id) parity)
    (memoize \<lparr>nativeCreate = False, nativeMap = True\<rparr>) sample_keys = (rs, s)" by fastforce
  have "map parity sample_keys = [Inr (Cached True), Inl 0, Inr Undefined, Inr (Cached True), Inr Undefined, Inl 0]"
    by (simp add: parity_def sample_keys_def)
  then show ?thesis using memoize_transparent [OF sample_keyed r] r by auto
qed

text \<open>The cache of a capped function.\<close>

lemma size_new [simp]: "m_size (mapCacheClear h) = 0"
  by (simp add: mapCacheClear_def)

lemma capped_step_size:
  assumes "map_cache_good h (cache s)" "m_size (cache s) \<le> MAX_MEMOIZE_SIZE"
  shows "map_cache_good h (cache (snd (memoizeCapped h kf func s a))) \<and> m_size (cache (snd (memoizeCapped h kf func s a))) \<le> MAX_MEMOIZE_SIZE"
proof -
  let ?c = "if m_size (cache s) = MAX_MEMOIZE_SIZE then mapCacheClear h else cache s"
  have c: "map_cache_good h ?c" "m_size ?c < MAX_MEMOIZE_SIZE" using assms by (auto simp: MAX_MEMOIZE_SIZE_def)
  then have "m_size (mapCacheSet h ?c k v) \<le> MAX_MEMOIZE_SIZE" for k v using map_cache.size_set [OF c(1) TrueI, of k v] by simp
  then show ?thesis using c map_cache.set_law [OF c(1) TrueI] by (auto simp: memoizeCapped_def memoized_def capped_key_def Let_def split: sum.split)
qed

lemma capped_run_size:
  "map_cache_good h (cache s) \<Longrightarrow> m_size (cache s) \<le> MAX_MEMOIZE_SIZE \<Longrightarrow>
   m_size (cache (snd (run_calls (memoizeCapped h kf func) s as))) \<le> MAX_MEMOIZE_SIZE"
proof (induction as arbitrary: s)
  case (Cons a as)
  obtain x s' where x: "memoizeCapped h kf func s a = (x, s')" by fastforce
  have "m_size (cache (snd (run_calls (memoizeCapped h kf func) s' as))) \<le> MAX_MEMOIZE_SIZE"
    using Cons.IH [of s'] capped_step_size [OF Cons.prems, of kf func a] x by simp
  then show ?case using x by (simp split: prod.split) (metis snd_conv)
qed simp

text \<open>C14: the cache of \<open>memoizeCapped\<close> never holds more than 500 keys, however many calls there are, and although it is
  thrown away when it is full every call still returns what the function returns.\<close>

theorem memoizeCapped_bounded:
  assumes "keyed kf func as" "run_calls (memoizeCapped h kf func) (memoize h) as = (rs, s)"
  shows "rs = map func as \<and> m_size (cache s) \<le> 500"
proof -
  have "rs = map func as"
    using memoized_run [OF assms(1) subset_refl, of h "memoize h" "capped_key h kf"] assms(2)
    by (simp add: memoize_def memo_ok_new capped_key_def memoizeCapped_def)
  moreover have "m_size (cache s) \<le> 500"
    using capped_run_size [of h "memoize h" kf func as] assms(2) by (simp add: memoize_def MAX_MEMOIZE_SIZE_def)
  ultimately show ?thesis by simp
qed

theorem memoizeCapped_bounded_witness:
  "\<exists>s. run_calls (memoizeCapped \<lparr>nativeCreate = True, nativeMap = True\<rparr> id parity) (memoize \<lparr>nativeCreate = True, nativeMap = True\<rparr>) sample_keys =
     ([Inr (Cached True), Inl 0, Inr Undefined, Inr (Cached True), Inr Undefined, Inl 0], s) \<and> m_size (cache s) \<le> 500"
proof -
  obtain rs s where r: "run_calls (memoizeCapped \<lparr>nativeCreate = True, nativeMap = True\<rparr> id parity)
    (memoize \<lparr>nativeCreate = True, nativeMap = True\<rparr>) sample_keys = (rs, s)" by fastforce
  have "map parity sample_keys = [Inr (Cached True), Inl 0, Inr Undefined, Inr (Cached True), Inr Undefined, Inl 0]"
    by (simp add: parity_def sample_keys_def)
  then show ?thesis using memoizeCapped_bounded [OF sample_keyed r] r by auto
qed

end
