(* ===== verification/Yaml_Create.thy ===== *)
theory Yaml_Create
  imports Yaml_Common Yaml_Schema_Laws
begin

text \<open>
  Types and schemas that a program makes itself: the constructors \<open>Type\<close> and \<open>Schema\<close> with their checks, and
  \<open>Schema.create\<close>.  A schema made from others finds the new types first and keeps everything else.
\<close>

section \<open>\<open>Type\<close>\<close>

text \<open>The object \<open>options\<close>: its keys, and the values under the known ones; \<open>None\<close> is a falsy value.
  The option \<open>instanceOf\<close>, which none of the types of the library has, is known but its value is not modelled.\<close>

record type_options =
  to_names :: "jstr list"
  to_kind :: "jstr option"
  to_resolve :: "(yheap \<Rightarrow> yval \<Rightarrow> bool) option"
  to_construct :: "(yheap \<Rightarrow> yval \<Rightarrow> (yval \<times> yheap) result) option"
  to_predicate :: "(yval \<Rightarrow> bool) option"
  to_represent :: "represent option"
  to_defaultStyle :: "jstr option"
  to_styleAliases :: "(jstr \<times> jstr list) list option"

definition TYPE_CONSTRUCTOR_OPTIONS :: "jstr list" where
  "TYPE_CONSTRUCTOR_OPTIONS = map js [''kind'', ''resolve'', ''construct'', ''instanceOf'', ''predicate'', ''represent'', ''defaultStyle'', ''styleAliases'']"

text \<open>\<open>YAML_NODE_KINDS.indexOf(kind)\<close>\<close>

definition node_kind :: "jstr option \<Rightarrow> ykind option" where
  "node_kind k =
     (if k = Some (js ''scalar'') then Some Scalar else if k = Some (js ''sequence'') then Some Sequence
      else if k = Some (js ''mapping'') then Some Mapping else None)"

definition new_type :: "jstr \<Rightarrow> type_options \<Rightarrow> ytype yresult" where
  "new_type tag options =
     (case find (\<lambda>name. name \<notin> set TYPE_CONSTRUCTOR_OPTIONS) (to_names options) of
        Some name \<Rightarrow> Inl (YAMLException (js ''Unknown option \"'' @ name @ js ''\" is met in definition of \"'' @ tag @ js ''\" YAML type.'') None)
      | None \<Rightarrow>
          (case node_kind (to_kind options) of
             None \<Rightarrow> Inl (YAMLException (js ''Unknown kind \"'' @ (case to_kind options of None \<Rightarrow> js ''null'' | Some k \<Rightarrow> k) @
                       js ''\" is specified for \"'' @ tag @ js ''\" YAML type.'') None)
           | Some k \<Rightarrow>
               Inr \<lparr>ty_tag = tag, ty_kind = k,
                  ty_resolve = (case to_resolve options of None \<Rightarrow> (\<lambda>h v. True) | Some f \<Rightarrow> f),
                  ty_construct = (case to_construct options of None \<Rightarrow> (\<lambda>h v. Inr (v, h)) | Some f \<Rightarrow> f),
                  ty_predicate = to_predicate options, ty_represent = to_represent options, ty_default = to_defaultStyle options,
                  ty_aliases = (case to_styleAliases options of None \<Rightarrow> [] | Some as \<Rightarrow> compileStyleAliases as)\<rparr>))"

lemma new_type_ok:
  "(\<exists>ty. new_type tag options = Inr ty) \<longleftrightarrow>
     set (to_names options) \<subseteq> set TYPE_CONSTRUCTOR_OPTIONS \<and> to_kind options \<in> Some ` set (map js [''scalar'', ''sequence'', ''mapping''])"
proof -
  have "find (\<lambda>name. name \<notin> set TYPE_CONSTRUCTOR_OPTIONS) (to_names options) = None \<longleftrightarrow> set (to_names options) \<subseteq> set TYPE_CONSTRUCTOR_OPTIONS"
    by (auto simp: find_None_iff)
  moreover have "node_kind (to_kind options) \<noteq> None \<longleftrightarrow> to_kind options \<in> Some ` set (map js [''scalar'', ''sequence'', ''mapping''])"
    by (auto simp: node_kind_def)
  moreover have "(\<exists>ty. new_type tag options = Inr ty) \<longleftrightarrow>
      find (\<lambda>name. name \<notin> set TYPE_CONSTRUCTOR_OPTIONS) (to_names options) = None \<and> node_kind (to_kind options) \<noteq> None"
    by (simp add: new_type_def split: option.split)
  ultimately show ?thesis by (simp only:)
qed

section \<open>\<open>Schema\<close> and \<open>Schema.create\<close>\<close>

text \<open>
  The constructor looks at a field \<open>loadKind\<close> of the implicit types, which no type has: the constructor of
  types calls it \<open>kind\<close>.
\<close>

definition loadKind :: "ytype \<Rightarrow> jstr option" where
  "loadKind ty = None"

record schema_definition =
  sd_include :: "schema list option"
  sd_implicit :: "ytype list option"
  sd_explicit :: "ytype list option"

definition or_empty_list :: "'a list option \<Rightarrow> 'a list" where
  "or_empty_list xs = (case xs of None \<Rightarrow> [] | Some ys \<Rightarrow> ys)"

definition new_schema :: "schema_definition \<Rightarrow> (schema \<times> compiled) yresult" where
  "new_schema d =
     (let s = Schema (or_empty_list (sd_include d)) (or_empty_list (sd_implicit d)) (or_empty_list (sd_explicit d)) in
      if list_ex (\<lambda>ty. loadKind ty \<noteq> None \<and> loadKind ty \<noteq> Some (js ''scalar'')) (or_empty_list (sd_implicit d))
      then Inl (YAMLException (js ''There is a non-scalar type in the implicit list of a schema. Implicit resolving of such types is not supported.'') None)
      else Inr (s, compileSchema s))"

text \<open>The arguments of \<open>create\<close>: \<open>null\<close> or \<open>undefined\<close>, a value, or an array.\<close>

datatype create_value = VSchema schema | VType ytype | VOther

datatype create_arg = ANothing | AOne create_value | AMany "create_value list"

definition toArray :: "create_arg \<Rightarrow> create_value list" where
  "toArray a = (case a of ANothing \<Rightarrow> [] | AOne v \<Rightarrow> [v] | AMany vs \<Rightarrow> vs)"

fun as_schema :: "create_value \<Rightarrow> schema option" where
  "as_schema (VSchema s) = Some s"
| "as_schema _ = None"

fun as_type :: "create_value \<Rightarrow> ytype option" where
  "as_type (VType ty) = Some ty"
| "as_type _ = None"

definition create_with :: "create_arg \<Rightarrow> create_arg \<Rightarrow> (schema \<times> compiled) yresult" where
  "create_with schemas types =
     (if \<not> list_all (\<lambda>v. as_schema v \<noteq> None) (toArray schemas)
      then Inl (YAMLException (js ''Specified list of super schemas (or a single Schema object) contains a non-Schema object.'') None)
      else if \<not> list_all (\<lambda>v. as_type v \<noteq> None) (toArray types)
      then Inl (YAMLException (js ''Specified list of YAML types (or a single Type object) contains a non-Type object.'') None)
      else new_schema \<lparr>sd_include = Some (map (the \<circ> as_schema) (toArray schemas)), sd_implicit = None,
             sd_explicit = Some (map (the \<circ> as_type) (toArray types))\<rparr>)"

definition schema_create :: "create_arg \<Rightarrow> create_arg list \<Rightarrow> (schema \<times> compiled) yresult" where
  "schema_create DEFAULT args =
     (case args of
        [types] \<Rightarrow> create_with DEFAULT types
      | [schemas, types] \<Rightarrow> create_with schemas types
      | _ \<Rightarrow> Inl (YAMLException (js ''Wrong number of arguments for Schema.create function'') None))"

section \<open>What a new schema finds\<close>

definition matches :: "ykind option \<Rightarrow> jstr \<Rightarrow> ytype \<Rightarrow> bool" where
  "matches k t ty \<longleftrightarrow> ty_tag ty = t \<and> (k = None \<or> k = Some (ty_kind ty))"

lemma matches_key: "type_key a = type_key b \<Longrightarrow> matches k t a = matches k t b"
  by (simp add: matches_def type_key_def)

definition or_else_find :: "'a option \<Rightarrow> 'a option \<Rightarrow> 'a option" where
  "or_else_find a b = (case a of None \<Rightarrow> b | Some x \<Rightarrow> Some x)"

lemma find_append: "find p (xs @ ys) = or_else_find (find p xs) (find p ys)"
  by (induction xs) (simp_all add: or_else_find_def)

lemma or_else_simps [simp]:
  "or_else_find None b = b" "or_else_find a None = a" "or_else_find (or_else_find a b) c = or_else_find a (or_else_find b c)"
  by (simp_all add: or_else_find_def split: option.splits)

lemma compileMap_find: "compileMap imp ex k t = find (matches k t) (rev (imp @ ex))"
proof -
  have "foldl (\<lambda>r ty. if p ty then Some ty else r) r0 ts = or_else_find (find p (rev ts)) r0" for p r0 and ts :: "ytype list"
    by (induction ts arbitrary: r0) (simp_all add: find_append or_else_find_def split: option.split)
  from this [of "matches k t" None "imp @ ex"] show ?thesis by (simp add: compileMap_def matches_def del: foldl_append rev_append)
qed

lemma find_keep_last: "find (matches k t) (rev (keep_last ts)) = find (matches k t) (rev ts)"
proof (induction ts)
  case (Cons ty ts)
  have "find (matches k t) (rev ts) \<noteq> None" if m: "matches k t ty" "type_key ty \<in> type_key ` set ts"
  proof -
    obtain ty' where "ty' \<in> set ts" "type_key ty' = type_key ty" using m(2) by auto
    then show ?thesis using m(1) matches_key [of ty' ty] unfolding find_None_iff by auto
  qed
  then show ?case using Cons by (auto simp: find_append or_else_find_def split: option.split)
qed simp

lemma compiled_parts: "compiledTypeMap (compileSchema s) = compileMap (keep_last (declared s True)) (keep_last (declared s False))"
  by (simp add: compileSchema_def Let_def compileList_keep_last)

lemma compiled_find:
  "compiledTypeMap (compileSchema s) k t = or_else_find (find (matches k t) (rev (declared s False))) (find (matches k t) (rev (declared s True)))"
  unfolding compiled_parts compileMap_find rev_append find_append find_keep_last ..

lemma created:
  "create_with x y =
     (if \<exists>v \<in> set (toArray x). as_schema v = None
      then Inl (YAMLException (js ''Specified list of super schemas (or a single Schema object) contains a non-Schema object.'') None)
      else if \<exists>v \<in> set (toArray y). as_type v = None
      then Inl (YAMLException (js ''Specified list of YAML types (or a single Type object) contains a non-Type object.'') None)
      else let s = Schema (map (the \<circ> as_schema) (toArray x)) [] (map (the \<circ> as_type) (toArray y)) in Inr (s, compileSchema s))"
  by (auto simp: create_with_def new_schema_def or_empty_list_def Let_def list_all_iff)

lemma extended:
  "compiledTypeMap (compileSchema (Schema ss [] ts)) k t =
     (case find (matches k t) (rev ts) of Some ty \<Rightarrow> Some ty | None \<Rightarrow> compiledTypeMap (compileSchema (Schema ss [] [])) k t)"
  by (cases "find (matches k t) (rev ts)") (simp_all add: compiled_find find_append or_else_find_def)

lemma extended_implicit: "compiledImplicit (compileSchema (Schema ss [] ts)) = compiledImplicit (compileSchema (Schema ss [] []))"
  by (simp add: compileSchema_def Let_def compileList_keep_last)

text \<open>C23: \<open>Schema.create\<close> is called with the types, or with the schemas to extend and the types, each of them one object or a list;
  without schemas the default schema is extended.  Another number of arguments, something among the schemas that is no
  schema, and otherwise something among the types that is no type are refused, each with its own message.  If all is well,
  the new schema finds, under every tag and kind and in the fallback, the type that comes last in the list, and the type that the
  included schemas find when there is none; what is resolved without a tag stays as it was.\<close>

theorem schema_create_extends:
  assumes "super = toArray (if length args = 1 then d else args ! 0)" "types = toArray (last args)"
  shows "(length args \<noteq> 1 \<and> length args \<noteq> 2 \<longrightarrow>
      schema_create d args = Inl (YAMLException (js ''Wrong number of arguments for Schema.create function'') None)) \<and>
    (length args = 1 \<or> length args = 2 \<longrightarrow>
      ((\<exists>v \<in> set super. as_schema v = None) \<longrightarrow> schema_create d args =
         Inl (YAMLException (js ''Specified list of super schemas (or a single Schema object) contains a non-Schema object.'') None)) \<and>
      (\<forall>ss. super = map VSchema ss \<and> (\<exists>v \<in> set types. as_type v = None) \<longrightarrow> schema_create d args =
         Inl (YAMLException (js ''Specified list of YAML types (or a single Type object) contains a non-Type object.'') None)) \<and>
      (\<forall>ss ts. super = map VSchema ss \<and> types = map VType ts \<longrightarrow>
         (\<exists>c. schema_create d args = Inr (Schema ss [] ts, c) \<and>
            (\<forall>k t. compiledTypeMap c k t =
               (case find (matches k t) (rev ts) of Some ty \<Rightarrow> Some ty | None \<Rightarrow> compiledTypeMap (compileSchema (Schema ss [] [])) k t)) \<and>
            compiledImplicit c = compiledImplicit (compileSchema (Schema ss [] [])))))"
proof -
  have ids: "map (the \<circ> as_schema) (map VSchema ss) = ss" "map (the \<circ> as_type) (map VType ts) = ts" for ss ts by (simp_all add: comp_def)
  have call: "schema_create d args =
      (if length args = 1 \<or> length args = 2 then create_with (if length args = 1 then d else args ! 0) (last args)
       else Inl (YAMLException (js ''Wrong number of arguments for Schema.create function'') None))"
    by (auto simp: schema_create_def split: list.split)
  have "create_with (if length args = 1 then d else args ! 0) (last args) = Inr (Schema ss [] ts, compileSchema (Schema ss [] ts))"
    if "super = map VSchema ss" "types = map VType ts" for ss ts
    unfolding created assms [symmetric] that ids by (simp add: Let_def)
  then show ?thesis unfolding call created assms [symmetric] using extended extended_implicit by auto
qed

text \<open>One type, not in a list, and one schema to extend.\<close>

definition sample_type :: ytype where
  "sample_type = \<lparr>ty_tag = js ''!point'', ty_kind = Sequence, ty_resolve = (\<lambda>h v. True), ty_construct = (\<lambda>h v. Inr (v, h)),
     ty_predicate = None, ty_represent = None, ty_default = None, ty_aliases = []\<rparr>"

theorem schema_create_extends_witness:
  "(\<exists>s c. schema_create ANothing [AOne (VSchema (Schema [] [] [])), AOne (VType sample_type)] = Inr (s, c) \<and>
      compiledTypeMap c (Some Sequence) (js ''!point'') = Some sample_type) \<and>
   schema_create ANothing [AOne VOther] =
     Inl (YAMLException (js ''Specified list of YAML types (or a single Type object) contains a non-Type object.'') None)"
proof
  let ?args = "[AOne (VSchema (Schema [] [] [])), AOne (VType sample_type)]"
  have "length ?args \<noteq> 1" "length ?args = 2" "toArray (?args ! 0) = map VSchema [Schema [] [] []]" "toArray (last ?args) = map VType [sample_type]"
    by (simp_all add: toArray_def)
  with schema_create_extends [of _ ?args ANothing, OF refl refl] obtain c where
    "schema_create ANothing ?args = Inr (Schema [Schema [] [] []] [] [sample_type], c)"
    "\<forall>k t. compiledTypeMap c k t = (case find (matches k t) (rev [sample_type]) of Some ty \<Rightarrow> Some ty
       | None \<Rightarrow> compiledTypeMap (compileSchema (Schema [Schema [] [] []] [] [])) k t)"
    by (simp only: if_False refl simp_thms) blast
  moreover have "matches (Some Sequence) (js ''!point'') sample_type" by (simp add: matches_def sample_type_def)
  ultimately show "\<exists>s c. schema_create ANothing ?args = Inr (s, c) \<and> compiledTypeMap c (Some Sequence) (js ''!point'') = Some sample_type"
    by simp
  show "schema_create ANothing [AOne VOther] =
      Inl (YAMLException (js ''Specified list of YAML types (or a single Type object) contains a non-Type object.'') None)"
    using schema_create_extends [of "[]" "[AOne VOther]" ANothing "[VOther]"] by (simp add: toArray_def)
qed

end
