(* ===== verification/Param_Validate.thy ===== *)
theory Param_Validate
  imports Yaml_Loader Buffer_Codec
begin

text \<open>
  The check of the values that a user enters for the parameters of an operation: \<open>validateParam\<close> and the
  validators that it calls.  Regular expressions of a specification, dates, JSON texts and the text of objects are
  parameters; a parameter of an operation is the record of the fields that the code reads.
\<close>

section \<open>Values\<close>

text \<open>\<open>VList\<close> is a list of the library Immutable, \<open>VArr\<close> an array.\<close>

datatype pvalue = VUndef | VNull | VBool bool | VNum dbl | VStr jstr | VFile nat | VObj nat | VArr "pvalue list" | VList "pvalue list"

record param_env =
  re_test :: "jstr \<Rightarrow> jstr \<Rightarrow> bool result"
  date_parses :: "jstr \<Rightarrow> bool"
  json_parses :: "jstr \<Rightarrow> bool"
  object_text :: "pvalue \<Rightarrow> jstr"
  list_length :: "pvalue list \<Rightarrow> dbl option"

fun number_truthy :: "dbl \<Rightarrow> bool" where
  "number_truthy (Fin x) = (x \<noteq> 0)"
| "number_truthy NegZero = False"
| "number_truthy NotANumber = False"
| "number_truthy _ = True"

fun truthy :: "pvalue \<Rightarrow> bool" where
  "truthy VUndef = False"
| "truthy VNull = False"
| "truthy (VBool b) = b"
| "truthy (VNum x) = number_truthy x"
| "truthy (VStr s) = (s \<noteq> [])"
| "truthy _ = True"

fun to_string :: "param_env \<Rightarrow> pvalue \<Rightarrow> jstr" where
  "to_string env VUndef = js ''undefined''"
| "to_string env VNull = js ''null''"
| "to_string env (VBool b) = js (if b then ''true'' else ''false'')"
| "to_string env (VNum x) = number_text x"
| "to_string env (VStr s) = s"
| "to_string env v = object_text env v"

text \<open>The number that a string stands for in a comparison.\<close>

definition rx_decimal :: rx where
  "rx_decimal = rx_seq [RAlt (rx_seq [rx_plus rx_dig, rx_opt (RSeq (rx_any ''.'') (RStar rx_dig))]) (rx_seq [rx_any ''.'', rx_plus rx_dig]), rx_exponent]"

definition unsigned_number :: "jstr \<Rightarrow> dbl" where
  "unsigned_number t =
     (if t = js ''Infinity'' then PosInf else if rx_match rx_decimal t then parseFloat t else NotANumber)"

definition prefixed_number :: "jstr \<Rightarrow> dbl option" where
  "prefixed_number t =
     (let digits = (\<lambda>r p. if drop 2 t \<noteq> [] \<and> list_all p (drop 2 t)
            then Some (case radix_prefix r None (drop 2 t) of None \<Rightarrow> NotANumber | Some n \<Rightarrow> round_double (of_int n)) else Some NotANumber) in
      if take 2 t = js ''0x'' \<or> take 2 t = js ''0X'' then digits 16 isHexCode
      else if take 2 t = js ''0o'' \<or> take 2 t = js ''0O'' then digits 8 isOctCode
      else if take 2 t = js ''0b'' \<or> take 2 t = js ''0B'' then digits 2 isBinCode
      else None)"

definition string_number :: "jstr \<Rightarrow> dbl" where
  "string_number s =
     (let t = stringtrim s in
      if t = [] then Fin 0
      else case prefixed_number t of
             Some x \<Rightarrow> x
           | None \<Rightarrow> if hd t = 45 then dbl_neg (unsigned_number (tl t)) else if hd t = 43 then unsigned_number (tl t) else unsigned_number t)"

fun to_number :: "param_env \<Rightarrow> pvalue \<Rightarrow> dbl" where
  "to_number env VUndef = NotANumber"
| "to_number env VNull = Fin 0"
| "to_number env (VBool b) = Fin (if b then 1 else 0)"
| "to_number env (VNum x) = x"
| "to_number env (VStr s) = string_number s"
| "to_number env v = string_number (object_text env v)"

text \<open>\<open>x < y\<close>\<close>

fun less_dbl :: "dbl \<Rightarrow> dbl \<Rightarrow> bool" where
  "less_dbl NotANumber y = False"
| "less_dbl x NotANumber = False"
| "less_dbl PosInf y = False"
| "less_dbl x NegInf = False"
| "less_dbl x PosInf = True"
| "less_dbl NegInf y = True"
| "less_dbl (Fin x) (Fin y) = (x < y)"
| "less_dbl (Fin x) NegZero = (x < 0)"
| "less_dbl NegZero (Fin y) = (0 < y)"
| "less_dbl NegZero NegZero = False"

text \<open>\<open>val.length\<close>; \<open>None\<close> is \<open>undefined\<close>.\<close>

fun length_of :: "param_env \<Rightarrow> pvalue \<Rightarrow> dbl option result" where
  "length_of env VUndef = Inl (TypeError ''Cannot read property length'')"
| "length_of env VNull = Inl (TypeError ''Cannot read property length'')"
| "length_of env (VStr s) = Inr (Some (Fin (of_nat (length s))))"
| "length_of env (VArr vs) = Inr (Some (Fin (of_nat (length vs))))"
| "length_of env (VList vs) = Inr (list_length env vs)"
| "length_of env v = Inr None"

section \<open>The validators\<close>

text \<open>A message, or nothing.\<close>

type_synonym message = "jstr option"

definition message_if :: "bool \<Rightarrow> string \<Rightarrow> message" where
  "message_if b s = (if b then Some (js s) else None)"

definition validateMaximum :: "param_env \<Rightarrow> pvalue \<Rightarrow> dbl \<Rightarrow> message" where
  "validateMaximum env val mx = message_if (less_dbl mx (to_number env val)) ''Value must be less than Maximum''"

definition validateMinimum :: "param_env \<Rightarrow> pvalue \<Rightarrow> dbl \<Rightarrow> message" where
  "validateMinimum env val mn = message_if (less_dbl (to_number env val) mn) ''Value must be greater than Minimum''"

definition rx_number :: rx where
  "rx_number = rx_seq [rx_opt (rx_any ''-''), rx_plus rx_dig, rx_opt (rx_seq [rx_opt (rx_any ''.''), rx_plus rx_dig])]"

definition rx_integer :: rx where
  "rx_integer = rx_seq [rx_opt (rx_any ''-''), rx_plus rx_dig]"

definition validateNumber :: "param_env \<Rightarrow> pvalue \<Rightarrow> message" where
  "validateNumber env val = message_if (\<not> rx_match rx_number (to_string env val)) ''Value must be a number''"

definition validateInteger :: "param_env \<Rightarrow> pvalue \<Rightarrow> message" where
  "validateInteger env val = message_if (\<not> rx_match rx_integer (to_string env val)) ''Value must be an integer''"

fun is_file :: "pvalue \<Rightarrow> bool" where
  "is_file (VFile n) = True"
| "is_file _ = False"

definition validateFile :: "pvalue \<Rightarrow> message" where
  "validateFile val = message_if (truthy val \<and> \<not> is_file val) ''Value must be a file''"

definition validateBoolean :: "pvalue \<Rightarrow> message" where
  "validateBoolean val =
     message_if (\<not> (val = VStr (js ''true'') \<or> val = VStr (js ''false'') \<or> val = VBool True \<or> val = VBool False)) ''Value must be a boolean''"

fun is_string :: "pvalue \<Rightarrow> bool" where
  "is_string (VStr s) = True"
| "is_string _ = False"

definition validateString :: "pvalue \<Rightarrow> message" where
  "validateString val = message_if (truthy val \<and> \<not> is_string val) ''Value must be a string''"

text \<open>\<open>Date.parse\<close> takes the text of its argument.\<close>

definition validateDateTime :: "param_env \<Rightarrow> pvalue \<Rightarrow> message" where
  "validateDateTime env val = message_if (\<not> date_parses env (to_string env val)) ''Value must be a DateTime''"

definition rx_times :: "nat \<Rightarrow> rx \<Rightarrow> rx" where
  "rx_times n r = rx_seq (replicate n r)"

definition rx_guid :: rx where
  "rx_guid =
     (let h = RChr (\<lambda>c. unit_digit c \<or> 97 \<le> uint c \<and> uint c \<le> 102); dash = rx_any ''-'' in
      rx_seq [rx_opt (rx_any ''{(''), rx_times 8 h, dash, rx_times 4 h, dash, rx_times 4 h, dash, rx_times 4 h, dash, rx_times 12 h, rx_opt (rx_any '')}'')])"

definition validateGuid :: "param_env \<Rightarrow> pvalue \<Rightarrow> message result" where
  "validateGuid env val =
     (if val = VUndef \<or> val = VNull then Inl (TypeError ''Cannot read property toString'')
      else Inr (message_if (\<not> rx_match rx_guid (toLowerCase (to_string env val))) ''Value must be a Guid''))"

definition validateMaxLength :: "param_env \<Rightarrow> pvalue \<Rightarrow> dbl \<Rightarrow> message result" where
  "validateMaxLength env val mx =
     map_sum id (\<lambda>l. message_if (case l of None \<Rightarrow> False | Some n \<Rightarrow> less_dbl mx n) ''Value must be less than MaxLength'') (length_of env val)"

definition validateMinLength :: "param_env \<Rightarrow> pvalue \<Rightarrow> dbl \<Rightarrow> message result" where
  "validateMinLength env val mn =
     map_sum id (\<lambda>l. message_if (case l of None \<Rightarrow> False | Some n \<Rightarrow> less_dbl n mn) ''Value must be greater than MinLength'') (length_of env val)"

definition validatePattern :: "param_env \<Rightarrow> pvalue \<Rightarrow> jstr \<Rightarrow> message result" where
  "validatePattern env val rxPattern =
     map_sum id (\<lambda>ok. if ok then None else Some (js ''Value must follow pattern '' @ rxPattern)) (re_test env rxPattern (to_string env val))"

section \<open>\<open>validateParam\<close>\<close>

text \<open>The fields of the details; \<open>None\<close> is \<open>undefined\<close>, and limits are numbers.\<close>

record details =
  d_type :: "jstr option"
  d_format :: "jstr option"
  d_maximum :: "dbl option"
  d_minimum :: "dbl option"
  d_maxLength :: "dbl option"
  d_minLength :: "dbl option"
  d_pattern :: "jstr option"
  d_itemType :: "jstr option"

record param =
  p_in :: "jstr option"
  p_value :: pvalue
  p_value_xml :: pvalue
  p_required :: bool
  p_schema :: "details option"
  p_details :: details

datatype param_error = Message jstr | ItemError nat jstr

text \<open>A limit that is present: \<open>limit || limit === 0\<close>, and \<open>limit\<close> alone.\<close>

definition limit_or_zero :: "dbl option \<Rightarrow> dbl option" where
  "limit_or_zero l = (case l of None \<Rightarrow> None | Some x \<Rightarrow> if x = NotANumber then None else Some x)"

definition limit_truthy :: "dbl option \<Rightarrow> dbl option" where
  "limit_truthy l = (case l of None \<Rightarrow> None | Some x \<Rightarrow> if number_truthy x then Some x else None)"

definition text_truthy :: "jstr option \<Rightarrow> bool" where
  "text_truthy t \<longleftrightarrow> t \<noteq> None \<and> t \<noteq> Some []"

definition zero :: "pvalue \<Rightarrow> bool" where
  "zero v \<longleftrightarrow> v = VNum (Fin 0) \<or> v = VNum NegZero"

definition passedAnyCheck :: "jstr \<Rightarrow> pvalue \<Rightarrow> bool \<Rightarrow> bool" where
  "passedAnyCheck type value oas3ObjectCheck \<longleftrightarrow>
     type = js ''string'' \<and> truthy value \<or>
     type = js ''array'' \<and> (case value of VArr vs \<Rightarrow> vs \<noteq> [] | VList vs \<Rightarrow> vs \<noteq> [] | _ \<Rightarrow> False) \<or>
     type = js ''file'' \<and> is_file value \<or>
     type = js ''boolean'' \<and> (truthy value \<or> value = VBool False) \<or>
     type = js ''number'' \<and> (truthy value \<or> zero value) \<or>
     type = js ''integer'' \<and> (truthy value \<or> zero value) \<or>
     oas3ObjectCheck"

text \<open>Whether a value is an object or the text of one; \<open>None\<close> is text that is no JSON.\<close>

definition objectCheck :: "param_env \<Rightarrow> bool \<Rightarrow> jstr \<Rightarrow> pvalue \<Rightarrow> bool option" where
  "objectCheck env isOAS3 type value =
     (if isOAS3 \<and> type = js ''object'' then
        (case value of
           VStr s \<Rightarrow> if json_parses env s then Some True else None
         | VUndef \<Rightarrow> Some False | VBool b \<Rightarrow> Some False | VNum x \<Rightarrow> Some False
         | _ \<Rightarrow> Some True)
      else Some False)"

text \<open>The errors of the limits, in the order of the code.\<close>

definition if_given :: "'a option \<Rightarrow> ('a \<Rightarrow> message result) \<Rightarrow> message result" where
  "if_given l f = (case l of None \<Rightarrow> Inr None | Some x \<Rightarrow> f x)"

fun collect :: "message result list \<Rightarrow> jstr list result" where
  "collect [] = Inr []"
| "collect (r # rs) =
     (case r of Inl e \<Rightarrow> Inl e
      | Inr m \<Rightarrow> map_sum id (\<lambda>ms. (case m of None \<Rightarrow> ms | Some t \<Rightarrow> t # ms)) (collect rs))"

definition limit_errors :: "param_env \<Rightarrow> details \<Rightarrow> pvalue \<Rightarrow> jstr list result" where
  "limit_errors env d value = collect
     [if_given (if text_truthy (d_pattern d) then d_pattern d else None) (validatePattern env value),
      if_given (limit_or_zero (d_maxLength d)) (validateMaxLength env value),
      if_given (limit_truthy (d_minLength d)) (validateMinLength env value),
      if_given (limit_or_zero (d_maximum d)) (\<lambda>x. Inr (validateMaximum env value x)),
      if_given (limit_or_zero (d_minimum d)) (\<lambda>x. Inr (validateMinimum env value x))]"

definition item_error :: "param_env \<Rightarrow> jstr option \<Rightarrow> pvalue \<Rightarrow> message" where
  "item_error env itemType item =
     (if itemType = Some (js ''number'') then validateNumber env item
      else if itemType = Some (js ''integer'') then validateInteger env item
      else if itemType = Some (js ''string'') then validateString item else None)"

definition item_errors :: "param_env \<Rightarrow> jstr option \<Rightarrow> pvalue list \<Rightarrow> param_error list" where
  "item_errors env itemType vs =
     concat (map (\<lambda>(i, v). case item_error env itemType v of None \<Rightarrow> [] | Some m \<Rightarrow> [ItemError i m]) (zip [0..<length vs] vs))"

definition messages :: "message \<Rightarrow> param_error list" where
  "messages m = (case m of None \<Rightarrow> [] | Some t \<Rightarrow> [Message t])"

definition type_errors :: "param_env \<Rightarrow> details \<Rightarrow> jstr \<Rightarrow> pvalue \<Rightarrow> param_error list result" where
  "type_errors env d type value =
     (if type = js ''string'' then
        (if d_format d = Some (js ''date-time'') then Inr (messages (validateDateTime env value))
         else if d_format d = Some (js ''uuid'') then map_sum id messages (validateGuid env value)
         else Inr (messages (validateString value)))
      else if type = js ''boolean'' then Inr (messages (validateBoolean value))
      else if type = js ''number'' then Inr (messages (validateNumber env value))
      else if type = js ''integer'' then Inr (messages (validateInteger env value))
      else if type = js ''array'' then (case value of VList vs \<Rightarrow> Inr (item_errors env (d_itemType d) vs) | _ \<Rightarrow> Inr [])
      else if type = js ''file'' then Inr (messages (validateFile value))
      else Inr [])"

definition validate_typed :: "param_env \<Rightarrow> bool \<Rightarrow> bool \<Rightarrow> details \<Rightarrow> jstr \<Rightarrow> pvalue \<Rightarrow> param_error list result" where
  "validate_typed env required isOAS3 d type value =
     (case objectCheck env isOAS3 type value of
        None \<Rightarrow> Inr [Message (js ''Parameter string value must be valid JSON'')]
      | Some oas3ObjectCheck \<Rightarrow>
          if required \<and> \<not> passedAnyCheck type value oas3ObjectCheck
          then Inr [Message (js ''Required field is not provided'')]
          else
            (case limit_errors env d value of
               Inl e \<Rightarrow> Inl e
             | Inr ms \<Rightarrow> map_sum id (\<lambda>es. map Message ms @ es) (type_errors env d type value)))"

definition param_value :: "param \<Rightarrow> bool \<Rightarrow> pvalue" where
  "param_value p isXml = (if isXml \<and> p_in p = Some (js ''body'') then p_value_xml p else p_value p)"

definition validateParam :: "param_env \<Rightarrow> param \<Rightarrow> bool \<Rightarrow> bool \<Rightarrow> param_error list result" where
  "validateParam env p isXml isOAS3 =
     (let value = param_value p isXml in
      case (if isOAS3 then p_schema p else Some (p_details p)) of
        None \<Rightarrow> Inr []
      | Some d \<Rightarrow>
          (case d_type d of
             None \<Rightarrow> Inr []
           | Some type \<Rightarrow>
               if type \<noteq> [] \<and> (p_required p \<or> truthy value)
               then validate_typed env (p_required p) isOAS3 d type value else Inr []))"

end
