(* ===== verification/Param_Validate_Laws.thy ===== *)
theory Param_Validate_Laws
  imports Param_Validate Codec_Laws Yaml_Int_Laws
begin

text \<open>
  Which values a user may enter for a parameter that is an integer: the integers between the
  limits, and nothing else.
\<close>

section \<open>Texts of integers\<close>

definition digits :: "jstr \<Rightarrow> bool" where
  "digits s \<longleftrightarrow> s \<noteq> [] \<and> list_all unit_digit s"

definition int_text :: "jstr \<Rightarrow> int \<Rightarrow> bool" where
  "int_text s i \<longleftrightarrow> digits s \<and> i = int (decimal_value s) \<or> (\<exists>t. s = 45 # t \<and> digits t \<and> i = - int (decimal_value t))"

lemma star_digits: "s \<in> rx_lang (RStar rx_dig) \<longleftrightarrow> list_all unit_digit s"
proof
  assume "list_all unit_digit s"
  then have "s = concat (map (\<lambda>c. [c]) s)" "set (map (\<lambda>c. [c]) s) \<subseteq> rx_lang rx_dig" by (auto simp: list_all_iff)
  then show "s \<in> rx_lang (RStar rx_dig)" by (simp only: rx_lang.simps mem_Collect_eq) blast
next
  assume "s \<in> rx_lang (RStar rx_dig)"
  then obtain ss where "s = concat ss" "\<forall>t \<in> set ss. \<exists>c. t = [c] \<and> unit_digit c" by auto
  then show "list_all unit_digit s" by (fastforce simp: list_all_iff)
qed

lemma seq_lang: "s \<in> rx_lang (RSeq a b) \<longleftrightarrow> (\<exists>t u. s = t @ u \<and> t \<in> rx_lang a \<and> u \<in> rx_lang b)"
  by auto

lemma seqI: "t \<in> rx_lang a \<Longrightarrow> u \<in> rx_lang b \<Longrightarrow> t @ u \<in> rx_lang (RSeq a b)"
  by auto

lemma plus_digits: "s \<in> rx_lang (rx_plus rx_dig) \<longleftrightarrow> digits s"
proof -
  have "s \<in> rx_lang (rx_plus rx_dig) \<longleftrightarrow> (\<exists>c t. s = c # t \<and> unit_digit c \<and> t \<in> rx_lang (RStar rx_dig))"
    unfolding seq_lang by (simp del: rx_lang.simps(6)) (metis append_Cons append_Nil)
  then show ?thesis unfolding star_digits by (cases s) (auto simp: digits_def)
qed

lemma minus_lang: "t \<in> rx_lang (rx_opt (rx_any ''-'')) \<longleftrightarrow> t = [] \<or> t = [45]"
  by (auto simp: unit_in_def js_def)

lemma integer_lang: "rx_match rx_integer s \<longleftrightarrow> (\<exists>i. int_text s i)"
proof -
  have "rx_match rx_integer s \<longleftrightarrow> (\<exists>t u. s = t @ u \<and> (t = [] \<or> t = [45]) \<and> u \<in> rx_lang (RSeq (rx_plus rx_dig) REps))"
    unfolding rx_match_lang rx_integer_def rx_seq.simps seq_lang [of s] minus_lang ..
  moreover have "u \<in> rx_lang (RSeq (rx_plus rx_dig) REps) \<longleftrightarrow> digits u" for u
    unfolding seq_lang [of u "rx_plus rx_dig"] plus_digits by simp
  moreover have "(\<exists>t u. s = t @ u \<and> (t = [] \<or> t = [45]) \<and> digits u) \<longleftrightarrow> digits s \<or> (\<exists>u. s = 45 # u \<and> digits u)"
    by (metis append_Cons append_Nil)
  ultimately show ?thesis by (auto simp: int_text_def)
qed

lemma digits_facts:
  assumes "digits s"
  shows "takeWhile unit_digit s = s" "dropWhile unit_digit s = []" "\<not> js_space c \<or> c \<notin> set s" "c \<in> set s \<Longrightarrow> c \<noteq> 45 \<and> c \<noteq> 43 \<and> c \<noteq> 120"
proof -
  show "takeWhile unit_digit s = s" "dropWhile unit_digit s = []" using assms by (auto simp: digits_def list_all_iff takeWhile_eq_all_conv dropWhile_eq_Nil_conv)
  show "\<not> js_space c \<or> c \<notin> set s" "c \<in> set s \<Longrightarrow> c \<noteq> 45 \<and> c \<noteq> 43 \<and> c \<noteq> 120"
    using assms by (fastforce simp: digits_def list_all_iff unit_digit_def js_space_def)+
qed

lemma unsigned_digits:
  assumes "digits s"
  shows "unsigned_number s = round_double (of_nat (decimal_value s))"
proof -
  have nil: "[] \<in> rx_lang REps" "[] \<in> rx_lang (rx_opt r)" for r by simp_all
  have "s @ [] @ [] \<in> rx_lang (rx_seq [rx_plus rx_dig, rx_opt (RSeq (rx_any ''.'') (RStar rx_dig))])"
    unfolding rx_seq.simps using assms by (intro seqI nil) (simp only: plus_digits)
  then have "s \<in> rx_lang (RAlt (rx_seq [rx_plus rx_dig, rx_opt (RSeq (rx_any ''.'') (RStar rx_dig))]) (rx_seq [rx_any ''.'', rx_plus rx_dig]))"
    unfolding rx_lang.simps(5) by simp
  then have "s @ [] @ [] \<in> rx_lang rx_decimal" unfolding rx_decimal_def rx_exponent_def rx_seq.simps by (intro seqI nil)
  then have "s \<in> rx_lang rx_decimal" by simp
  moreover have "s \<noteq> js ''Infinity''" using assms by (auto simp: digits_def unit_digit_def js_def)
  moreover have "parseFloat s = round_double (of_nat (decimal_value s))"
    unfolding parseFloat_def Let_def digits_facts(1,2) [OF assms] using assms by (simp add: strip_sign_def digits_def)
  ultimately show ?thesis by (simp add: unsigned_number_def rx_match_lang)
qed

text \<open>A number that compares as an integer does; \<open>-0\<close> is one that compares as 0.\<close>

definition compares_as :: "dbl \<Rightarrow> int \<Rightarrow> bool" where
  "compares_as x i \<longleftrightarrow> x = Fin (of_int i) \<or> i = 0 \<and> x = NegZero"

lemma compares_less:
  "compares_as x i \<Longrightarrow> less_dbl (Fin m) x \<longleftrightarrow> m < of_int i" "compares_as x i \<Longrightarrow> less_dbl x (Fin m) \<longleftrightarrow> of_int i < m"
  by (auto simp: compares_as_def)

lemma not_prefixed: "s \<noteq> [] \<Longrightarrow> (\<And>c. c \<in> set (tl s) \<Longrightarrow> unit_digit c) \<Longrightarrow> prefixed_number s = None"
proof -
  assume s: "s \<noteq> []" "\<And>c. c \<in> set (tl s) \<Longrightarrow> unit_digit c"
  have "take 2 s \<noteq> js [CHR ''0'', x]" if "x \<in> set ''xXoObB''" for x
  proof
    assume t: "take 2 s = js [CHR ''0'', x]"
    then obtain c cs where "s = 48 # c # cs" "c = word_of_nat (of_char x)" by (cases s; cases "tl s") (auto simp: js_def)
    then have "unit_digit (word_of_nat (of_char x))" using s(2) [of c] by simp
    then show False using that by (auto simp: unit_digit_def)
  qed
  then show ?thesis by (simp add: prefixed_number_def)
qed

lemma int_text_number:
  assumes "int_text s i" "round_double (of_int \<bar>i\<bar>) = Fin (of_int \<bar>i\<bar>)"
  shows "compares_as (string_number s) i"
proof -
  have neg: "compares_as (dbl_neg (Fin (of_int j))) (- j)" for j by (auto simp: compares_as_def)
  from assms(1) consider "digits s" "i = int (decimal_value s)" | t where "s = 45 # t" "digits t" "i = - int (decimal_value t)"
    by (auto simp: int_text_def)
  then show ?thesis
  proof cases
    case 1
    have "stringtrim s = s" using digits_facts(3) [OF 1(1)] by (intro stringtrim_none) blast
    moreover have "prefixed_number s = None" using 1(1) by (intro not_prefixed) (auto simp: digits_def list_all_iff dest: list.set_sel(2))
    moreover have "hd s \<noteq> 45" "hd s \<noteq> 43" "s \<noteq> []" using digits_facts(4) [OF 1(1)] 1(1) by (auto simp: digits_def)
    ultimately have "string_number s = round_double (of_nat (decimal_value s))" using unsigned_digits [OF 1(1)] by (simp add: string_number_def)
    then show ?thesis using assms(2) 1(2) by (simp add: compares_as_def)
  next
    case 2
    have "\<not> js_space 45" by (simp add: js_space_def)
    then have "stringtrim s = s" using digits_facts(3) [OF 2(2)] 2(1) by (intro stringtrim_none) auto
    moreover have "prefixed_number s = None" using 2(1,2) by (intro not_prefixed) (auto simp: digits_def list_all_iff)
    ultimately have "string_number s = dbl_neg (round_double (of_nat (decimal_value t)))"
      using unsigned_digits [OF 2(2)] 2(1) by (simp add: string_number_def)
    moreover have "round_double (of_nat (decimal_value t)) = Fin (of_int (int (decimal_value t)))" using assms(2) 2(3) by simp
    ultimately show ?thesis using neg [of "int (decimal_value t)"] 2(3) by simp
  qed
qed

lemma int_text_unique: "int_text s i \<Longrightarrow> int_text s j \<Longrightarrow> i = j"
proof -
  have "\<not> digits (45 # t)" for t by (simp add: digits_def unit_digit_def)
  then show "int_text s i \<Longrightarrow> int_text s j \<Longrightarrow> i = j" by (auto simp: int_text_def)
qed

section \<open>Parameters that are integers\<close>

lemma limit_simps: "limit_or_zero (map_option Fin m) = map_option Fin m" "limit_or_zero None = None" "limit_truthy None = None"
  by (cases m) (simp_all add: limit_or_zero_def limit_truthy_def)

text \<open>A value is there when it is neither missing nor empty; the number 0 is there, although it is false in a condition.\<close>

definition given :: "pvalue \<Rightarrow> bool" where
  "given v \<longleftrightarrow> truthy v \<or> zero v"

text \<open>The integer that a value stands for: the number itself, or the number that a decimal text denotes.\<close>

definition reads :: "pvalue \<Rightarrow> int \<Rightarrow> bool" where
  "reads v i \<longleftrightarrow> (case v of VStr s \<Rightarrow> int_text s i | VNum x \<Rightarrow> compares_as x i | _ \<Rightarrow> False)"

text \<open>Values other than files and lists; integers are those that a number holds, and finite numbers are whole.\<close>

definition entry :: "pvalue \<Rightarrow> bool" where
  "entry v \<longleftrightarrow>
     (case v of
        VStr s \<Rightarrow> \<forall>i. int_text s i \<longrightarrow> round_double (of_int \<bar>i\<bar>) = Fin (of_int \<bar>i\<bar>)
      | VNum (Fin x) \<Rightarrow> \<exists>i. x = of_int i \<and> \<bar>i\<bar> \<le> 2 ^ 53
      | VNum _ \<Rightarrow> True | VBool _ \<Rightarrow> True | VUndef \<Rightarrow> True | VNull \<Rightarrow> True | _ \<Rightarrow> False)"

lemma int_string_text: "\<exists>j. int_text (int_string 10 i) j"
proof -
  have "digits (radix_digits 10 k)" for k
    using radix_all(1,3) [of 10 k] by (auto simp: digits_def list_all_iff digit_ok_def isDecCode_def unit_digit_def)
  then show ?thesis by (auto simp: int_text_def int_string_def)
qed

lemma not_int_text: "\<not> int_text (js ''Infinity'') i" "\<not> int_text (js ''-Infinity'') i" "\<not> int_text (js ''true'') i"
  by (simp_all add: int_text_def digits_def unit_digit_def js_def)

lemma zero_text: "\<exists>i. int_text (js ''0'') i"
  using int_string_text [of 0] by (simp add: int_string_def radix_zero js_def)

text \<open>The pattern of the integers on the text of a value, and its number.\<close>

lemma entry_text: "entry v \<Longrightarrow> given v \<Longrightarrow> rx_match rx_integer (to_string env v) \<longleftrightarrow> (\<exists>i. reads v i)"
proof (cases v)
  case (VNum x)
  assume "entry v" "given v"
  with VNum show ?thesis
    using int_string_text zero_text not_int_text
    by (cases x) (auto simp: integer_lang reads_def entry_def given_def compares_as_def number_string_int zero_def)
qed (auto simp: integer_lang reads_def entry_def given_def zero_def not_int_text)

lemma entry_number: "entry v \<Longrightarrow> reads v i \<Longrightarrow> compares_as (to_number env v) i"
  by (cases v) (auto simp: reads_def entry_def int_text_number)

lemma reads_unique: "reads v i \<Longrightarrow> reads v j \<Longrightarrow> i = j"
  by (cases v) (auto simp: reads_def compares_as_def dest: int_text_unique)

definition between :: "rat option \<Rightarrow> rat option \<Rightarrow> int \<Rightarrow> bool" where
  "between mn mx i \<longleftrightarrow> (case mx of None \<Rightarrow> True | Some m \<Rightarrow> of_int i \<le> m) \<and> (case mn of None \<Rightarrow> True | Some m \<Rightarrow> m \<le> of_int i)"

text \<open>The messages for a value that is there: of the maximum, of the minimum and of the type.\<close>

definition integer_messages :: "param_env \<Rightarrow> rat option \<Rightarrow> rat option \<Rightarrow> pvalue \<Rightarrow> param_error list" where
  "integer_messages env mn mx v =
     messages (case mx of None \<Rightarrow> None | Some m \<Rightarrow> validateMaximum env v (Fin m)) @
     messages (case mn of None \<Rightarrow> None | Some m \<Rightarrow> validateMinimum env v (Fin m)) @ messages (validateInteger env v)"

lemma integer_messages_empty:
  assumes "entry v" "given v"
  shows "integer_messages env mn mx v = [] \<longleftrightarrow> (\<exists>i. reads v i \<and> between mn mx i)"
proof (cases "\<exists>i. reads v i")
  case True
  then obtain i where i: "reads v i" by blast
  then have ex: "(\<exists>j. reads v j \<and> P j) \<longleftrightarrow> P i" for P using reads_unique by blast
  have "rx_match rx_integer (to_string env v)" using entry_text [OF assms] True by simp
  then show ?thesis unfolding ex
    using compares_less [OF entry_number [OF assms(1) i, of env]]
    by (cases mx; cases mn) (auto simp: integer_messages_def between_def messages_def message_if_def validateMaximum_def
        validateMinimum_def validateInteger_def not_less)
next
  case False
  then show ?thesis using entry_text [OF assms, of env]
    by (simp add: integer_messages_def messages_def message_if_def validateInteger_def)
qed

lemma integer_messages_type:
  assumes "entry v" "given v"
  shows "Message (js ''Value must be an integer'') \<in> set (integer_messages env mn mx v) \<longleftrightarrow> \<not> (\<exists>i. reads v i)"
proof -
  have "js ''Value must be an integer'' \<noteq> js ''Value must be less than Maximum''" "js ''Value must be an integer'' \<noteq> js ''Value must be greater than Minimum''"
    by (simp_all add: js_def)
  then show ?thesis unfolding entry_text [OF assms, of env, symmetric]
    by (auto simp: integer_messages_def messages_def message_if_def validateMaximum_def validateMinimum_def validateInteger_def
        split: option.splits if_splits)
qed

lemma validate_integer:
  assumes "d_type d = Some (js ''integer'')" "d_pattern d = None" "d_maxLength d = None" "d_minLength d = None"
    "d_maximum d = map_option Fin mx" "d_minimum d = map_option Fin mn"
  shows "validate_typed env req isOAS3 d (js ''integer'') v =
    Inr (if req \<and> \<not> given v then [Message (js ''Required field is not provided'')] else integer_messages env mn mx v)"
proof -
  have names: "js ''integer'' \<noteq> js ''object''" "js ''integer'' \<noteq> js ''string''" "js ''integer'' \<noteq> js ''array''"
    "js ''integer'' \<noteq> js ''file''" "js ''integer'' \<noteq> js ''boolean''" "js ''integer'' \<noteq> js ''number''"
    by (simp_all add: js_def)
  have chk: "objectCheck env isOAS3 (js ''integer'') v = Some False" using names by (simp add: objectCheck_def)
  have pass: "passedAnyCheck (js ''integer'') v False \<longleftrightarrow> given v" using names by (simp add: passedAnyCheck_def given_def)
  have ty: "type_errors env d (js ''integer'') v = Inr (messages (validateInteger env v))"
    using names by (simp add: type_errors_def)
  let ?l = "\<lambda>m. case m of None \<Rightarrow> [] | Some t \<Rightarrow> [t]"
  have "limit_errors env d v = Inr (?l (case mx of None \<Rightarrow> None | Some m \<Rightarrow> validateMaximum env v (Fin m)) @
      ?l (case mn of None \<Rightarrow> None | Some m \<Rightarrow> validateMinimum env v (Fin m)))"
    using assms by (cases mx; cases mn)
      (simp_all add: limit_errors_def text_truthy_def if_given_def limit_simps limit_or_zero_def split: option.split)
  then show ?thesis
    using chk pass ty by (simp add: validate_typed_def integer_messages_def messages_def split: option.split)
qed

text \<open>C17: a parameter of type \<open>integer\<close> with a maximum and a minimum, in a specification of either version.  A value that is
  missing or empty (\<open>undefined\<close>, \<open>null\<close>, the empty text, \<open>false\<close> or \<open>NaN\<close>) is refused with the message of the required field
  when the parameter is required, and accepted when it is not.  The number 0 of a parameter that is not required
  is accepted without a look at the limits.  Every other value, a text, a truth value or a number, is accepted exactly when it
  is an integer between the limits or the decimal text of one, and the message that it must be an integer is given
  exactly when it is no integer and not the text of one.  Excluded are texts of integers that no number holds,
  fractions, integers above \<open>2 ^ 53\<close> given as a number, files and lists.\<close>

theorem integer_parameter:
  assumes "(if isOAS3 then p_schema p else Some (p_details p)) = Some d" "param_value p isXml = v" "entry v"
    "d_type d = Some (js ''integer'')" "d_pattern d = None" "d_maxLength d = None" "d_minLength d = None"
    "d_maximum d = map_option Fin mx" "d_minimum d = map_option Fin mn"
  shows "(\<not> given v \<longrightarrow> validateParam env p isXml isOAS3 =
      Inr (if p_required p then [Message (js ''Required field is not provided'')] else [])) \<and>
    (zero v \<and> \<not> p_required p \<longrightarrow> validateParam env p isXml isOAS3 = Inr []) \<and>
    (truthy v \<or> zero v \<and> p_required p \<longrightarrow>
      (\<exists>es. validateParam env p isXml isOAS3 = Inr es \<and>
        (es = [] \<longleftrightarrow> (\<exists>i. reads v i \<and> between mn mx i)) \<and>
        (Message (js ''Value must be an integer'') \<in> set es \<longleftrightarrow> \<not> (\<exists>i. reads v i))))"
proof -
  have "js ''integer'' \<noteq> []" by (simp add: js_def)
  moreover have "\<not> (zero v \<and> truthy v)" by (auto simp: zero_def)
  ultimately show ?thesis
    using assms(1-4) validate_integer [OF assms(4-9)] integer_messages_empty [OF assms(3), of env mn mx]
      integer_messages_type [OF assms(3), of env mn mx]
    by (auto simp: validateParam_def Let_def given_def)
qed

text \<open>A required parameter of version 3 between -20 and 5, for which the user has entered \<open>-12\<close>.\<close>

definition sample_details :: details where
  "sample_details = \<lparr>d_type = Some (js ''integer''), d_format = None, d_maximum = Some (Fin 5), d_minimum = Some (Fin (- 20)), d_maxLength = None,
     d_minLength = None, d_pattern = None, d_itemType = None\<rparr>"

definition sample_param :: param where
  "sample_param = \<lparr>p_in = Some (js ''query''), p_value = VStr (js ''-12''), p_value_xml = VUndef, p_required = True,
     p_schema = Some sample_details, p_details = sample_details\<rparr>"

definition no_host :: param_env where
  "no_host = \<lparr>re_test = (\<lambda>p s. Inr True), date_parses = (\<lambda>s. False), json_parses = (\<lambda>s. False), object_text = (\<lambda>v. []), list_length = (\<lambda>vs. None)\<rparr>"

definition sample_missing :: param where
  "sample_missing = sample_param\<lparr>p_value := VStr []\<rparr>"

definition sample_number :: param where
  "sample_number = sample_param\<lparr>p_value := VNum (Fin 7)\<rparr>"

theorem integer_parameter_witness:
  "validateParam no_host sample_param False True = Inr [] \<and>
   validateParam no_host sample_missing False True = Inr [Message (js ''Required field is not provided'')] \<and>
   validateParam no_host sample_number False True \<noteq> Inr []"
proof (intro conjI)
  note defs = sample_missing_def sample_number_def sample_param_def sample_details_def param_value_def
  have t: "int_text (js ''-12'') (- 12)" by (simp add: int_text_def digits_def unit_digit_def decimal_value_def js_def)
  have "\<bar>i\<bar> \<le> 2 ^ 53" if "int_text (js ''-12'') i" for i using int_text_unique [OF t that] by simp
  then have "round_double (of_int \<bar>i\<bar>) = Fin (of_int \<bar>i\<bar>)" if "int_text (js ''-12'') i" for i
    using that by (intro round_double_int) simp
  then have "entry (VStr (js ''-12''))" unfolding entry_def by simp
  from integer_parameter [OF _ _ this, of True sample_param sample_details False "Some 5" "Some (- 20)" no_host]
  show "validateParam no_host sample_param False True = Inr []"
    using t by (fastforce simp: defs js_def reads_def between_def)
  have "entry (VStr [])" by (simp add: entry_def int_text_def digits_def)
  from integer_parameter [OF _ _ this, of True sample_missing sample_details False "Some 5" "Some (- 20)" no_host]
  show "validateParam no_host sample_missing False True = Inr [Message (js ''Required field is not provided'')]"
    by (simp add: defs given_def zero_def)
  have "entry (VNum (Fin (of_int 7)))" unfolding entry_def by (simp del: of_int_numeral) (metis abs_numeral)?
  from integer_parameter [OF _ _ this, of True sample_number sample_details False "Some 5" "Some (- 20)" no_host]
  show "validateParam no_host sample_number False True \<noteq> Inr []"
    by (auto simp: defs reads_def between_def compares_as_def)
qed

end
