(* ===== verification/Plugin_System.thy ===== *)
theory Plugin_System
  imports Schema_Sample
begin

text \<open>
  The plugin system of the application: plugins are objects, functions that return plugins, or arrays of plugins, and
  \<open>register\<close> merges them into one system.  Objects are trees of values, as plugins are; the merge \<open>deepExtend\<close>
  is the code of the library in \<open>swagger-ui-bundle.js\<close>.  An operation that changes an object returns the changed one.
  Functions are names, and what a call of one does is a parameter.
  Where the code expects an object (\<open>components\<close>, \<open>wrapComponents\<close>, \<open>statePlugins\<close>, its namespaces and their
  \<open>wrapActions\<close>), a value of another kind has no properties; dates, regular expressions and buffers inside plugins are
  not modelled, nor are two plugins that share an object.
\<close>

section \<open>Values\<close>

datatype 'f pv = Undef | Null | Bool bool | Number dbl | Str jstr | Fun 'f | Arr "'f pv list" | Obj "(jstr \<times> 'f pv) list"

type_synonym 'f fields = "(jstr \<times> 'f pv) list"

fun truthy :: "'f pv \<Rightarrow> bool" where
  "truthy Undef = False"
| "truthy Null = False"
| "truthy (Bool b) = b"
| "truthy (Number x) = (x \<noteq> Fin 0 \<and> x \<noteq> NegZero \<and> x \<noteq> NotANumber)"
| "truthy (Str s) = (s \<noteq> [])"
| "truthy _ = True"

fun isObject :: "'f pv \<Rightarrow> bool" where
  "isObject (Arr vs) = True"
| "isObject (Obj ps) = True"
| "isObject _ = False"

text \<open>An own property of an object.\<close>

definition field :: "'f fields \<Rightarrow> jstr \<Rightarrow> 'f pv" where
  "field ps k = (case map_of ps k of None \<Rightarrow> Undef | Some v \<Rightarrow> v)"

fun get :: "'f pv \<Rightarrow> jstr \<Rightarrow> 'f pv" where
  "get (Obj ps) k = field ps k"
| "get _ k = Undef"

fun own_fields :: "'f pv \<Rightarrow> 'f fields" where
  "own_fields (Obj ps) = ps"
| "own_fields _ = []"

text \<open>The enumerable own properties, as \<open>Object.keys\<close> lists them.\<close>

fun own_entries :: "'f pv \<Rightarrow> 'f fields" where
  "own_entries (Obj ps) = ps"
| "own_entries (Arr vs) = zip (map decimal_text [0..<length vs]) vs"
| "own_entries _ = []"

section \<open>The utilities\<close>

definition objMap :: "('f pv \<Rightarrow> jstr \<Rightarrow> 'b) \<Rightarrow> 'f pv \<Rightarrow> (jstr \<times> 'b) list" where
  "objMap fn obj = foldl (\<lambda>newObj (k, v). set_prop newObj k (fn v k)) [] (own_entries obj)"

definition objReduce :: "('f pv \<Rightarrow> jstr \<Rightarrow> 'f pv) \<Rightarrow> 'f pv \<Rightarrow> 'f fields" where
  "objReduce fn obj =
     foldl (\<lambda>newObj (k, v). if isObject (fn v k) then foldl (\<lambda>o' (k', v'). set_prop o' k' v') newObj (own_entries (fn v k)) else newObj) [] (own_entries obj)"

text \<open>\<open>deepExtend(target, source)\<close> for objects, and the value that a field gets.\<close>

lemma size_obj_entry: "(k, v) \<in> set ps \<Longrightarrow> size v < size (Obj ps)"
  by (induction ps) auto

lemma size_arr_item: "v \<in> set vs \<Longrightarrow> size v < size (Arr vs)"
  by (induction vs) auto

function extend_fields :: "'f fields \<Rightarrow> 'f fields \<Rightarrow> 'f fields"
  and merge :: "'f pv \<Rightarrow> 'f pv \<Rightarrow> 'f pv" where
  "extend_fields a [] = a"
| "extend_fields a ((s, e) # u) = extend_fields (set_prop a s (merge (field a s) e)) u"
| "merge t (Arr vs) = Arr (map (merge Undef) vs)"
| "merge t (Obj es) = Obj (extend_fields (case t of Obj ts \<Rightarrow> ts | _ \<Rightarrow> []) es)"
| "merge t Undef = Undef"
| "merge t Null = Null"
| "merge t (Bool b) = Bool b"
| "merge t (Number x) = Number x"
| "merge t (Str x) = Str x"
| "merge t (Fun f) = Fun f"
  by pat_completeness auto
termination
  by (relation "measure (\<lambda>x. case x of Inl (a, u) \<Rightarrow> size (Obj u) | Inr (t, e) \<Rightarrow> Suc (size e))") (auto dest: size_arr_item)

section \<open>\<open>systemExtend\<close>\<close>

text \<open>The loop over \<open>src.wrapComponents\<close>: the components of the target and the wrappers that are left.\<close>

definition wrap_component :: "'f fields \<times> 'f fields \<Rightarrow> jstr \<times> 'f pv \<Rightarrow> 'f fields \<times> 'f fields" where
  "wrap_component s p =
     (let (components, left) = s; (k, wrapperFn) = p; ori = field components k in
      if truthy ori
      then (set_prop components k (case ori of Arr vs \<Rightarrow> Arr (vs @ [wrapperFn]) | _ \<Rightarrow> Arr [ori, wrapperFn]), delete_prop left k)
      else (components, left))"

text \<open>The target without components has none to wrap.\<close>

definition wrap_components :: "'f fields \<Rightarrow> 'f fields \<Rightarrow> 'f fields \<times> 'f fields" where
  "wrap_components dest src =
     (let wrappers = field src (js ''wrapComponents'') in
      if \<not> truthy wrappers then (dest, src)
      else
        let (components, left) = foldl wrap_component (own_fields (field dest (js ''components'')), own_fields wrappers) (own_fields wrappers);
            dest' = (case field dest (js ''components'') of Obj cs \<Rightarrow> set_prop dest (js ''components'') (Obj components) | _ \<Rightarrow> dest)
        in (dest', if left = [] then delete_prop src (js ''wrapComponents'') else set_prop src (js ''wrapComponents'') (Obj left)))"

definition as_list :: "'f pv \<Rightarrow> 'f pv list" where
  "as_list v = (case v of Arr vs \<Rightarrow> vs | _ \<Rightarrow> [v])"

text \<open>
  The wrappers of the actions of a namespace: those of the target become arrays, and where the source has
  wrappers for the same action they follow.  \<open>concat\<close> takes an array or a single value.
\<close>

definition join_wrappers :: "'f fields \<Rightarrow> 'f pv \<Rightarrow> 'f fields \<times> 'f fields" where
  "join_wrappers wrapActions srcWraps =
     (map (\<lambda>(name, w). (name, Arr (as_list w))) wrapActions,
      map (\<lambda>(name, w). (name, case map_of wrapActions name of
          None \<Rightarrow> w
        | Some old \<Rightarrow> if truthy w then Arr (as_list old @ as_list w) else w)) (own_fields srcWraps))"

definition namespace_step :: "'f fields \<times> 'f fields \<Rightarrow> jstr \<times> 'f pv \<Rightarrow> 'f fields \<times> 'f fields" where
  "namespace_step s p =
     (let (destPlugins, srcPlugins) = s; (namespace, obj) = p in
      case get obj (js ''wrapActions'') of
        Obj wraps \<Rightarrow>
          let srcNs = field srcPlugins namespace; (dw, sw) = join_wrappers wraps (get srcNs (js ''wrapActions''));
              destNs = (case obj of Obj ns \<Rightarrow> ns | _ \<Rightarrow> [])
          in (set_prop destPlugins namespace (Obj (set_prop destNs (js ''wrapActions'') (Obj dw))),
              (case (srcNs, get srcNs (js ''wrapActions'')) of
                 (Obj ns, Obj ws) \<Rightarrow> set_prop srcPlugins namespace (Obj (set_prop ns (js ''wrapActions'') (Obj sw)))
               | _ \<Rightarrow> srcPlugins))
      | _ \<Rightarrow> s)"

definition state_plugins :: "'f fields \<Rightarrow> 'f fields \<Rightarrow> 'f fields \<times> 'f fields" where
  "state_plugins dest src =
     (case field dest (js ''statePlugins'') of
        Obj dp \<Rightarrow>
          let sp = field src (js ''statePlugins''); (dp', sp') = foldl namespace_step (dp, own_fields sp) dp
          in (set_prop dest (js ''statePlugins'') (Obj dp'),
              (case sp of Obj _ \<Rightarrow> set_prop src (js ''statePlugins'') (Obj sp') | _ \<Rightarrow> src))
      | _ \<Rightarrow> (dest, src))"

text \<open>For objects; the changed source is \<open>snd\<close> of the result of the two loops.\<close>

definition prepared :: "'f fields \<Rightarrow> 'f fields \<Rightarrow> 'f fields \<times> 'f fields" where
  "prepared dest src = (let (d, s) = wrap_components dest src in state_plugins d s)"

text \<open>The target is an object: \<open>register\<close> passes the system, \<open>combinePlugins\<close> an object that it has made.\<close>

definition systemExtend :: "'f fields \<Rightarrow> 'f pv \<Rightarrow> 'f fields" where
  "systemExtend dest src = (case src of Obj s \<Rightarrow> (let (d', s') = prepared dest s in extend_fields d' s') | _ \<Rightarrow> dest)"

section \<open>Plugins\<close>

text \<open>
  \<open>call f\<close> is the result of a plugin that is a function.  A function may return a function without end; \<open>None\<close>
  says that the depth was not enough.
\<close>

fun option_list :: "'a option list \<Rightarrow> 'a list option" where
  "option_list [] = Some []"
| "option_list (None # xs) = None"
| "option_list (Some x # xs) = map_option (Cons x) (option_list xs)"

primrec combinePlugins :: "('f \<Rightarrow> 'f pv) \<Rightarrow> nat \<Rightarrow> 'f pv \<Rightarrow> 'f pv option" where
  "combinePlugins call 0 plugins = None"
| "combinePlugins call (Suc n) plugins =
     (case plugins of
        Fun f \<Rightarrow> combinePlugins call n (call f)
      | Arr vs \<Rightarrow> map_option (\<lambda>systems. Obj (foldl systemExtend [] systems)) (option_list (map (combinePlugins call n) vs))
      | Obj ps \<Rightarrow> Some (Obj ps)
      | _ \<Rightarrow> Some (Obj []))"

text \<open>
  \<open>callAfterLoad\<close>: the functions \<open>afterLoad\<close> that are called, in order, and whether the result is truthy.  For an
  array the result is the array of the results, which is truthy also when it is empty.
\<close>

primrec callAfterLoad :: "('f \<Rightarrow> 'f pv) \<Rightarrow> nat \<Rightarrow> 'f pv \<Rightarrow> bool \<Rightarrow> ('f list \<times> bool) option" where
  "callAfterLoad call 0 plugins hasLoaded = None"
| "callAfterLoad call (Suc n) plugins hasLoaded =
     (case plugins of
        Obj ps \<Rightarrow> Some (case field ps (js ''afterLoad'') of Fun f \<Rightarrow> ([f], True) | _ \<Rightarrow> ([], hasLoaded))
      | Fun f \<Rightarrow> callAfterLoad call n (call f) hasLoaded
      | Arr vs \<Rightarrow> map_option (\<lambda>rs. (concat (map fst rs), True)) (option_list (map (\<lambda>v. callAfterLoad call n v hasLoaded) vs))
      | _ \<Rightarrow> Some ([], hasLoaded))"

text \<open>What \<open>register\<close> does: the system that it leaves, and the order of rebuilds and calls.\<close>

datatype 'f event = Build | AfterLoad 'f

definition register :: "('f \<Rightarrow> 'f pv) \<Rightarrow> nat \<Rightarrow> 'f fields \<Rightarrow> 'f pv \<Rightarrow> bool \<Rightarrow> ('f fields \<times> 'f event list) option" where
  "register call n system plugins rebuild =
     (case combinePlugins call n plugins of
        None \<Rightarrow> None
      | Some pluginSystem \<Rightarrow>
          map_option (\<lambda>(fs, again). (systemExtend system pluginSystem,
              (if rebuild then [Build] else []) @ map AfterLoad fs @ (if again then [Build] else [])))
            (callAfterLoad call n plugins False))"

section \<open>Wrapped actions, components and reducers\<close>

text \<open>
  \<open>wrapWithTryCatch\<close>: an error becomes \<open>null\<close>.  A function of the application takes its arguments and returns or throws.
\<close>

definition wrapWithTryCatch :: "'r \<Rightarrow> ('a \<Rightarrow> 'e + 'r) \<Rightarrow> 'a \<Rightarrow> 'e + 'r" where
  "wrapWithTryCatch null fn args = (case fn args of Inl e \<Rightarrow> Inr null | Inr r \<Rightarrow> Inr r)"

text \<open>\<open>wrap f acc\<close> is \<open>fn(acc, getSystem())\<close>, the wrapped function, or an error; values that are no functions throw when they are called.\<close>

definition wrap_action :: "'r \<Rightarrow> ('f \<Rightarrow> ('a \<Rightarrow> 'e + 'r) \<Rightarrow> 'e + ('a \<Rightarrow> 'e + 'r)) \<Rightarrow> 'e \<Rightarrow> ('a \<Rightarrow> 'e + 'r) \<Rightarrow> 'f pv \<Rightarrow> ('a \<Rightarrow> 'e + 'r)" where
  "wrap_action null wrap not_function acc fn =
     wrapWithTryCatch null (\<lambda>args. case fn of Fun f \<Rightarrow> (case wrap f acc of Inl e \<Rightarrow> Inl e | Inr g \<Rightarrow> g args) | _ \<Rightarrow> Inl not_function)"

text \<open>The wrapper of an action of a namespace in a system or a plugin, and the wrapped action.  Own properties only: the names that
  objects inherit, such as \<open>toString\<close>, are not modelled.\<close>

definition wrapper_of :: "'f fields \<Rightarrow> jstr \<Rightarrow> jstr \<Rightarrow> 'f pv" where
  "wrapper_of system namespace actionName =
     get (get (get (field system (js ''statePlugins'')) namespace) (js ''wrapActions'')) actionName"

definition wrapped_action :: "'r \<Rightarrow> ('f \<Rightarrow> ('a \<Rightarrow> 'e + 'r) \<Rightarrow> 'e + ('a \<Rightarrow> 'e + 'r)) \<Rightarrow> 'e \<Rightarrow> 'f fields \<Rightarrow> jstr \<Rightarrow> jstr \<Rightarrow> ('a \<Rightarrow> 'e + 'r) \<Rightarrow> ('a \<Rightarrow> 'e + 'r)" where
  "wrapped_action null wrap not_function system namespace actionName action =
     (let w = wrapper_of system namespace actionName in
      if \<not> truthy w then action else foldl (wrap_action null wrap not_function) action (as_list w))"

text \<open>\<open>getType(name)\<close>: the values under \<open>name\<close> of all namespaces, and \<open>getActions()\<close>, the actions that are functions.\<close>

definition getType :: "jstr \<Rightarrow> jstr \<Rightarrow> 'f fields \<Rightarrow> 'f fields" where
  "getType name upName system =
     objReduce (\<lambda>val namespace. if truthy (get val name) then Obj (set_prop [] (namespace @ upName) (get val name)) else Undef)
       (field system (js ''statePlugins''))"

definition getActions :: "'f fields \<Rightarrow> 'f fields" where
  "getActions system =
     objMap (\<lambda>actions k. Obj (objReduce (\<lambda>action actionName. case action of Fun f \<Rightarrow> Obj (set_prop [] actionName (Fun f)) | _ \<Rightarrow> Undef) actions))
       (Obj (getType (js ''actions'') (js ''Actions'') system))"

text \<open>\<open>getComponents(component)\<close>; \<open>call_wrapper\<close> applies a wrapper to a component.\<close>

definition getComponents :: "('f pv \<Rightarrow> 'f pv \<Rightarrow> 'f pv) \<Rightarrow> 'f fields \<Rightarrow> jstr option \<Rightarrow> 'f pv result" where
  "getComponents call_wrapper system component =
     (let components = field system (js ''components'');
          res = get components (case component of None \<Rightarrow> js ''undefined'' | Some c \<Rightarrow> c) in
      case res of
        Arr [] \<Rightarrow> Inl (TypeError ''Reduce of empty array with no initial value'')
      | Arr (v # vs) \<Rightarrow> Inr (foldl (\<lambda>ori wrapper. call_wrapper wrapper ori) v vs)
      | _ \<Rightarrow> Inr (case component of None \<Rightarrow> components | Some c \<Rightarrow> res))"

text \<open>
  \<open>makeReducer\<close>: \<open>red f\<close> is the reducer, \<open>None\<close> a result that is \<open>null\<close>.  A reducer that is no function is called all
  the same, outside of \<open>wrapWithTryCatch\<close>.
\<close>

definition makeReducer :: "('f \<Rightarrow> 's \<Rightarrow> 'act \<Rightarrow> 'e + 's option) \<Rightarrow> ('act \<Rightarrow> jstr) \<Rightarrow> 'f pv \<Rightarrow> 's \<Rightarrow> 'act \<Rightarrow> 's result" where
  "makeReducer red type_of reducerObj state action =
     (let redFn = get reducerObj (type_of action) in
      if \<not> truthy redFn then Inr state
      else
        case redFn of
          Fun f \<Rightarrow> (case wrapWithTryCatch None (\<lambda>(s, a). red f s a) (state, action) of Inr (Some s) \<Rightarrow> Inr s | _ \<Rightarrow> Inr state)
        | _ \<Rightarrow> Inl (TypeError ''wrapWithTryCatch(...) is not a function''))"

end
