(* ===== verification/Plugin_Laws.thy ===== *)
theory Plugin_Laws
  imports Plugin_System
begin

text \<open>
  Plugins that wrap the same action: the wrappers of a combined system are those of its plugins, in the order of the
  plugins, however the plugins are nested in functions and arrays.
\<close>

section \<open>Well-formed plugins\<close>

text \<open>A wrapper is a function or an array of functions.  No property is named \<open>__proto__\<close>.\<close>

fun is_fun :: "'f pv \<Rightarrow> bool" where
  "is_fun (Fun f) = True"
| "is_fun _ = False"

fun wrapper :: "'f pv \<Rightarrow> bool" where
  "wrapper (Fun f) = True"
| "wrapper (Arr vs) = list_all is_fun vs"
| "wrapper _ = False"

definition keys_ok :: "'f fields \<Rightarrow> bool" where
  "keys_ok ps \<longleftrightarrow> distinct (map fst ps) \<and> js ''__proto__'' \<notin> set (map fst ps)"

fun wraps_ok :: "'f pv \<Rightarrow> bool" where
  "wraps_ok (Obj ws) = (keys_ok ws \<and> list_all (\<lambda>p. wrapper (snd p)) ws)"
| "wraps_ok _ = False"

fun namespace_ok :: "'f pv \<Rightarrow> bool" where
  "namespace_ok (Obj ns) = (keys_ok ns \<and> pred_option wraps_ok (map_of ns (js ''wrapActions'')))"
| "namespace_ok _ = False"

fun namespaces_ok :: "'f pv \<Rightarrow> bool" where
  "namespaces_ok (Obj ps) = (keys_ok ps \<and> list_all (\<lambda>p. namespace_ok (snd p)) ps)"
| "namespaces_ok _ = False"

definition plugin_ok :: "'f fields \<Rightarrow> bool" where
  "plugin_ok p \<longleftrightarrow> keys_ok p \<and> pred_option namespaces_ok (map_of p (js ''statePlugins''))"

text \<open>The wrappers of an action in a plugin.\<close>

definition listed :: "'f pv \<Rightarrow> 'f pv list" where
  "listed w = (if truthy w then as_list w else [])"

definition wrappers :: "'f fields \<Rightarrow> jstr \<Rightarrow> jstr \<Rightarrow> 'f pv list" where
  "wrappers p namespace actionName = listed (wrapper_of p namespace actionName)"

section \<open>Properties of objects\<close>

lemma keys_ok_set_prop [simp, intro]: "keys_ok ps \<Longrightarrow> keys_ok (set_prop ps k v)"
  using set_alist_keys [of ps k v] by (simp add: keys_ok_def set_prop_def set_alist_distinct)

lemma keys_ok_not_proto: "keys_ok ps \<Longrightarrow> (k, v) \<in> set ps \<Longrightarrow> k \<noteq> js ''__proto__''"
  by (force simp: keys_ok_def)

lemma keys_ok_Cons: "keys_ok ((k, v) # ps) \<longleftrightarrow> k \<noteq> js ''__proto__'' \<and> map_of ps k = None \<and> keys_ok ps"
  by (auto simp: keys_ok_def map_of_eq_None_iff)

lemma keys_ok_Nil [simp]: "keys_ok []"
  by (simp add: keys_ok_def)

lemma list_all_map_of: "keys_ok ps \<Longrightarrow> list_all (\<lambda>p. P (snd p)) ps \<longleftrightarrow> (\<forall>k. pred_option P (map_of ps k))"
  by (force simp: keys_ok_def list_all_iff pred_option_def elem_set)

lemma map_of_map_key: "map_of (map (\<lambda>(k, v). (k, f k v)) ps) k = map_option (f k) (map_of ps k)"
  by (induction ps) auto

lemma keys_ok_map: "keys_ok (map (\<lambda>(k, v). (k, f k v)) ps) = keys_ok ps"
  by (simp add: keys_ok_def case_prod_beta comp_def)

lemma delete_prop_facts:
  "keys_ok ps \<Longrightarrow> keys_ok (delete_prop ps k)"
  "k' \<noteq> k \<Longrightarrow> map_of (delete_prop ps k) k' = map_of ps k'"
  by (induction ps) (auto simp: keys_ok_def delete_prop_def)

text \<open>What \<open>deepExtend\<close> leaves under a key.\<close>

definition joined :: "'f pv option \<Rightarrow> 'f pv option \<Rightarrow> 'f pv option" where
  "joined t e = (case e of None \<Rightarrow> t | Some v \<Rightarrow> Some (merge (case t of None \<Rightarrow> Undef | Some w \<Rightarrow> w) v))"

lemma joined_None [simp]: "joined t None = t"
  by (simp add: joined_def)

lemma extend_fields_keys_ok [simp, intro]: "keys_ok a \<Longrightarrow> keys_ok (extend_fields a u)"
proof (induction u arbitrary: a)
  case (Cons p u)
  then show ?case by (cases p) simp
qed simp

lemma map_of_extend_fields: "keys_ok u \<Longrightarrow> map_of (extend_fields a u) k = joined (map_of a k) (map_of u k)"
proof (induction u arbitrary: a)
  case (Cons p u)
  obtain s e where p: "p = (s, e)" by (cases p)
  show ?case using Cons by (cases "map_of u k") (auto simp: p keys_ok_Cons map_of_set_prop joined_def field_def)
qed simp

section \<open>Wrappers of one namespace\<close>

definition value_of :: "'f pv option \<Rightarrow> 'f pv" where
  "value_of x = (case x of None \<Rightarrow> Undef | Some v \<Rightarrow> v)"

lemma value_of_simps [simp]: "value_of None = Undef" "value_of (Some v) = v"
  by (simp_all add: value_of_def)

lemma field_own_fields [simp]: "field (own_fields v) k = get v k"
  by (cases v) (simp_all add: field_def)

lemma listed_simps [simp]: "listed Undef = []" "listed (Fun f) = [Fun f]" "listed (Arr vs) = vs"
  by (simp_all add: listed_def as_list_def)

lemma merge_wrapper: "wrapper w \<Longrightarrow> merge t w = w"
proof (cases w)
  case (Arr vs)
  assume "wrapper w"
  then have "map (merge Undef) vs = vs" by (intro map_idI) (auto simp: Arr list_all_iff elim!: is_fun.elims)
  then show ?thesis by (simp add: Arr)
qed simp_all

lemma as_list_wrapper: "wrapper w \<Longrightarrow> list_all is_fun (as_list w)" "wrapper w \<Longrightarrow> listed w = as_list w"
  by (cases w; simp add: as_list_def)+

text \<open>The two objects that \<open>join_wrappers\<close> leaves, and their merge.\<close>

definition dest_wraps :: "'f fields \<Rightarrow> 'f fields" where
  "dest_wraps ws = map (\<lambda>(name, w). (name, Arr (as_list w))) ws"

definition src_wraps :: "'f fields \<Rightarrow> 'f fields \<Rightarrow> 'f fields" where
  "src_wraps ws us = map (\<lambda>(name, w). (name, case map_of ws name of
       None \<Rightarrow> w
     | Some old \<Rightarrow> if truthy w then Arr (as_list old @ as_list w) else w)) us"

lemma join_wrappers_eq: "join_wrappers ws v = (dest_wraps ws, src_wraps ws (own_fields v))"
  by (simp add: join_wrappers_def dest_wraps_def src_wraps_def)

lemma map_of_wraps:
  "map_of (dest_wraps ws) a = map_option (\<lambda>w. Arr (as_list w)) (map_of ws a)"
  "map_of (src_wraps ws us) a = map_option (\<lambda>w. case map_of ws a of None \<Rightarrow> w
     | Some old \<Rightarrow> if truthy w then Arr (as_list old @ as_list w) else w) (map_of us a)"
  by (simp_all only: dest_wraps_def src_wraps_def map_of_map_key)

lemma keys_ok_wraps [simp]: "keys_ok (dest_wraps ws) = keys_ok ws" "keys_ok (src_wraps ws us) = keys_ok us"
  by (simp_all only: dest_wraps_def src_wraps_def keys_ok_map)

lemma wrapper_truthy: "wrapper w \<Longrightarrow> truthy w"
  by (cases w) simp_all

lemma joined_wrapper:
  assumes "pred_option wrapper w" "pred_option wrapper u"
  defines "r \<equiv> joined (map_option (\<lambda>w. Arr (as_list w)) w)
     (map_option (\<lambda>u. case w of None \<Rightarrow> u | Some old \<Rightarrow> if truthy u then Arr (as_list old @ as_list u) else u) u)"
  shows "pred_option wrapper r" and "listed (value_of r) = listed (value_of w) @ listed (value_of u)"
  using assms(1,2) merge_wrapper [of _ "Arr _"]
  by (cases w; cases u; simp add: r_def joined_def merge_wrapper wrapper_truthy as_list_wrapper del: merge.simps)+

text \<open>The merge of the objects \<open>wrapActions\<close> of two plugins, each of which may be missing.\<close>

definition dest_actions :: "'f pv option \<Rightarrow> 'f pv option" where
  "dest_actions w = map_option (\<lambda>v. Obj (dest_wraps (own_fields v))) w"

definition src_actions :: "'f pv option \<Rightarrow> 'f pv option \<Rightarrow> 'f pv option" where
  "src_actions w u = (case w of None \<Rightarrow> u | Some v \<Rightarrow> map_option (\<lambda>x. Obj (src_wraps (own_fields v) (own_fields x))) u)"

lemma wraps_okE:
  assumes "wraps_ok v"
  obtains ws where "v = Obj ws" "keys_ok ws" "\<And>a. pred_option wrapper (map_of ws a)"
  using assms by (cases v) (auto simp: list_all_map_of)

lemma wraps_okI: "keys_ok ws \<Longrightarrow> (\<And>a. pred_option wrapper (map_of ws a)) \<Longrightarrow> wraps_ok (Obj ws)"
  by (simp add: list_all_map_of)

lemma joined_wraps:
  assumes ws: "keys_ok ws" "\<And>a. pred_option wrapper (map_of ws a)"
    and us: "keys_ok us" "\<And>a. pred_option wrapper (map_of us a)"
  defines "r \<equiv> extend_fields (dest_wraps ws) (src_wraps ws us)"
  shows "wraps_ok (Obj r)" and "listed (field r a) = listed (field ws a) @ listed (field us a)"
proof -
  have m: "map_of r a = joined (map_option (\<lambda>w. Arr (as_list w)) (map_of ws a))
     (map_option (\<lambda>u. case map_of ws a of None \<Rightarrow> u | Some old \<Rightarrow> if truthy u then Arr (as_list old @ as_list u) else u) (map_of us a))" for a
    by (simp add: r_def map_of_extend_fields us map_of_wraps)
  show "wraps_ok (Obj r)"
    using joined_wrapper(1) [OF ws(2) us(2)] by (intro wraps_okI) (simp_all add: m, simp add: r_def ws)
  show "listed (field r a) = listed (field ws a) @ listed (field us a)"
    using joined_wrapper(2) [OF ws(2) us(2), of a a] by (simp add: field_def m value_of_def)
qed

lemma src_wraps_Nil: "src_wraps [] us = us"
  by (simp add: src_wraps_def)

lemma joined_actions:
  assumes "pred_option wraps_ok w" "pred_option wraps_ok u"
  defines "r \<equiv> joined (dest_actions w) (src_actions w u)"
  shows "pred_option wraps_ok r" and "listed (get (value_of r) a) = listed (get (value_of w) a) @ listed (get (value_of u) a)"
proof -
  have own: "keys_ok (own_fields (value_of x))" "pred_option wrapper (map_of (own_fields (value_of x)) a)"
    if "pred_option wraps_ok x" for x :: "'a pv option" and a
    using that by (cases x; auto elim!: wraps_okE)+
  note j = joined_wraps [OF own [OF assms(1)] own [OF assms(2)]]
  have r: "r = (if w = None \<and> u = None then None
      else Some (Obj (extend_fields (dest_wraps (own_fields (value_of w))) (src_wraps (own_fields (value_of w)) (own_fields (value_of u))))))"
    using assms(1,2) unfolding r_def
    by (cases w; cases u; auto simp: dest_actions_def src_actions_def joined_def src_wraps_Nil dest_wraps_def elim!: wraps_okE)
      (simp add: src_wraps_def)?
  show "pred_option wraps_ok r" using j(1) by (simp add: r)
  show "listed (get (value_of r) a) = listed (get (value_of w) a) @ listed (get (value_of u) a)"
    using j(2) [of a] by (auto simp: r)
qed

text \<open>The merge of a namespace.\<close>

abbreviation wA :: jstr where "wA \<equiv> js ''wrapActions''"

lemma wA_not_proto [simp]: "wA \<noteq> js ''__proto__''"
  by (simp add: js_def)

definition dest_ns :: "'f pv \<Rightarrow> 'f pv" where
  "dest_ns v = (case get v wA of Obj ws \<Rightarrow> Obj (set_prop (own_fields v) wA (Obj (dest_wraps ws))) | _ \<Rightarrow> v)"

definition src_ns :: "'f pv option \<Rightarrow> 'f pv \<Rightarrow> 'f pv" where
  "src_ns v n = (case get (value_of v) wA of
       Obj ws \<Rightarrow> (case get n wA of Obj us \<Rightarrow> Obj (set_prop (own_fields n) wA (Obj (src_wraps ws us))) | _ \<Rightarrow> n)
     | _ \<Rightarrow> n)"

lemma namespace_okE:
  assumes "namespace_ok v"
  obtains ns where "v = Obj ns" "keys_ok ns" "pred_option wraps_ok (map_of ns wA)"
  using assms by (cases v) auto

lemma dest_ns_ok:
  assumes "namespace_ok v"
  obtains ns where "dest_ns v = Obj ns" "keys_ok ns" "map_of ns wA = dest_actions (map_of (own_fields v) wA)"
  using assms
proof (rule namespace_okE)
  fix ns assume ns: "v = Obj ns" "keys_ok ns" "pred_option wraps_ok (map_of ns wA)"
  show ?thesis
  proof (cases "map_of ns wA")
    case None
    then show ?thesis using ns that [of ns] by (simp add: dest_ns_def field_def dest_actions_def)
  next
    case (Some w)
    then obtain ws where "w = Obj ws" using ns(3) by (auto elim: wraps_okE)
    then show ?thesis using ns Some that [of "set_prop ns wA (Obj (dest_wraps ws))"]
      by (simp add: dest_ns_def field_def dest_actions_def map_of_set_prop)
  qed
qed

lemma src_ns_ok:
  assumes "pred_option namespace_ok v" "namespace_ok n"
  obtains ns where "src_ns v n = Obj ns" "keys_ok ns"
    "map_of ns wA = src_actions (map_of (own_fields (value_of v)) wA) (map_of (own_fields n) wA)"
  using assms(2)
proof (rule namespace_okE)
  fix ns assume ns: "n = Obj ns" "keys_ok ns" "pred_option wraps_ok (map_of ns wA)"
  have v: "pred_option wraps_ok (map_of (own_fields (value_of v)) wA)"
    using assms(1) by (cases v) (auto elim: namespace_okE)
  show ?thesis
  proof (cases "map_of ns wA = None \<or> map_of (own_fields (value_of v)) wA = None")
    case True
    then have "src_ns v n = Obj ns"
      using ns(1) field_own_fields [of "value_of v" wA] by (auto simp: src_ns_def field_def split: pv.splits)
    then show ?thesis using ns True that [of ns] by (auto simp: src_actions_def split: option.splits)
  next
    case False
    then obtain u w where uw: "map_of ns wA = Some u" "map_of (own_fields (value_of v)) wA = Some w" by auto
    then obtain us ws where us: "u = Obj us" "w = Obj ws" using ns(3) v by (auto elim!: wraps_okE)
    moreover have "get (value_of v) wA = Obj ws" using uw(2) us field_own_fields [of "value_of v" wA] by (simp add: field_def)
    ultimately show ?thesis using ns uw that [of "set_prop ns wA (Obj (src_wraps ws us))"]
      by (simp add: src_ns_def field_def src_actions_def map_of_set_prop)
  qed
qed

lemma joined_namespace:
  assumes "pred_option namespace_ok v" "pred_option namespace_ok n"
  defines "r \<equiv> joined (map_option dest_ns v) (map_option (src_ns v) n)"
  shows "pred_option namespace_ok r"
    and "listed (get (get (value_of r) wA) a) = listed (get (get (value_of v) wA) a) @ listed (get (get (value_of n) wA) a)"
proof -
  let ?w = "\<lambda>x. map_of (own_fields (value_of x)) wA"
  have ok: "pred_option wraps_ok (?w x)" if "pred_option namespace_ok x" for x :: "'a pv option"
    using that by (cases x) (auto elim: namespace_okE)
  have r: "?w r = joined (dest_actions (?w v)) (src_actions (?w v) (?w n)) \<and> pred_option (\<lambda>x. \<exists>ns. x = Obj ns \<and> keys_ok ns) r"
  proof (cases v)
    case None
    show ?thesis
    proof (cases n)
      case (Some n')
      then obtain ns where ns: "src_ns v n' = Obj ns" "keys_ok ns" "map_of ns wA = src_actions (?w v) (map_of (own_fields n') wA)"
        using src_ns_ok assms(1,2) by (metis option.pred_inject(2))
      then show ?thesis using None Some by (simp add: r_def joined_def map_of_extend_fields dest_actions_def)
    qed (simp add: None r_def dest_actions_def src_actions_def)
  next
    case (Some v')
    then obtain ds where ds: "dest_ns v' = Obj ds" "keys_ok ds" "map_of ds wA = dest_actions (?w v)"
      using dest_ns_ok assms(1) by (metis option.pred_inject(2) value_of_simps(2))
    show ?thesis
    proof (cases n)
      case None
      then show ?thesis using Some ds by (simp add: r_def src_actions_def split: option.splits)
    next
      case (Some n')
      then obtain ns where ns: "src_ns v n' = Obj ns" "keys_ok ns" "map_of ns wA = src_actions (?w v) (map_of (own_fields n') wA)"
        using src_ns_ok assms(1,2) by (metis option.pred_inject(2))
      then show ?thesis using \<open>v = Some v'\<close> Some ds by (simp add: r_def joined_def [of "Some _"] map_of_extend_fields)
    qed
  qed
  note j = joined_actions [OF ok [OF assms(1)] ok [OF assms(2)]]
  show "pred_option namespace_ok r"
    using r j(1) by (cases r) auto
  have "get (value_of x) wA = value_of (?w x)" for x :: "'a pv option"
    using field_own_fields [of "value_of x" wA] by (simp add: field_def value_of_def)
  then show "listed (get (get (value_of r) wA) a) = listed (get (get (value_of v) wA) a) @ listed (get (get (value_of n) wA) a)"
    using r j(2) by simp
qed

section \<open>The namespaces of two systems\<close>

lemma namespace_step_eq:
  "namespace_step (d, s) (k, v) =
     (if \<exists>ws. get v wA = Obj ws then set_prop d k (dest_ns v) else d,
      if (\<exists>ws. get v wA = Obj ws) \<and> (\<exists>us. get (field s k) wA = Obj us) then set_prop s k (src_ns (Some v) (field s k)) else s)"
  by (cases v; cases "field s k") (auto simp: namespace_step_def dest_ns_def src_ns_def join_wrappers_eq Let_def split: pv.splits)

lemma namespace_step_maps:
  assumes "k \<noteq> js ''__proto__''" "map_of d k = Some v"
  shows "map_of (fst (namespace_step (d, s) (k, v))) k' = (if k' = k then Some (dest_ns v) else map_of d k')"
    and "map_of (snd (namespace_step (d, s) (k, v))) k' = (if k' = k then map_option (src_ns (Some v)) (map_of s k) else map_of s k')"
proof -
  have d: "dest_ns v = v" if "\<nexists>ws. get v wA = Obj ws" using that by (simp add: dest_ns_def split: pv.splits)
  show "map_of (fst (namespace_step (d, s) (k, v))) k' = (if k' = k then Some (dest_ns v) else map_of d k')"
    using assms d by (auto simp: namespace_step_eq map_of_set_prop)
  have s: "src_ns (Some v) n = n" if "(\<nexists>ws. get v wA = Obj ws) \<or> (\<nexists>us. get n wA = Obj us)" for n
    using that by (auto simp: src_ns_def split: pv.splits)
  show "map_of (snd (namespace_step (d, s) (k, v))) k' = (if k' = k then map_option (src_ns (Some v)) (map_of s k) else map_of s k')"
    using assms s by (cases "map_of s k") (auto simp: namespace_step_eq map_of_set_prop field_def)
qed

lemma namespaces_fold:
  assumes "keys_ok es" "\<And>k v. map_of es k = Some v \<Longrightarrow> map_of d k = Some v"
  shows "map_of (fst (foldl namespace_step (d, s) es)) k = (if map_of es k = None then map_of d k else map_option dest_ns (map_of d k))
    \<and> map_of (snd (foldl namespace_step (d, s) es)) k = (if map_of es k = None then map_of s k else map_option (src_ns (map_of d k)) (map_of s k))"
  using assms
proof (induction es arbitrary: d s)
  case (Cons e es)
  obtain k' v where e: "e = (k', v)" by (cases e)
  have k': "k' \<noteq> js ''__proto__''" "map_of es k' = None" "keys_ok es" "map_of d k' = Some v"
    using Cons.prems by (simp_all add: e keys_ok_Cons)
  obtain d' s' where st: "namespace_step (d, s) (k', v) = (d', s')" by (cases "namespace_step (d, s) (k', v)")
  note maps = namespace_step_maps [OF k'(1,4), of s, unfolded st fst_conv snd_conv]
  have "map_of d' k'' = Some w" if "map_of es k'' = Some w" for k'' w
    using that k'(2) Cons.prems(2) [of k'' w] by (auto simp: e maps)
  from Cons.IH [OF k'(3) this, of s'] show ?case using k'(2,4) by (auto simp: e st maps)
qed simp

lemma namespace_step_keys:
  "keys_ok d \<and> keys_ok s \<Longrightarrow> keys_ok (fst (foldl namespace_step (d, s) es)) \<and> keys_ok (snd (foldl namespace_step (d, s) es))"
proof (induction es arbitrary: d s)
  case (Cons e es)
  then show ?case by (cases e) (auto simp: namespace_step_eq)
qed simp

definition merged_namespaces :: "'f fields \<Rightarrow> 'f fields \<Rightarrow> 'f fields" where
  "merged_namespaces dp sp = (let (d, s) = foldl namespace_step (dp, sp) dp in extend_fields d s)"

definition ns_wrappers :: "'f pv \<Rightarrow> jstr \<Rightarrow> jstr \<Rightarrow> 'f pv list" where
  "ns_wrappers v ns a = listed (get (get (get v ns) wA) a)"

lemma merged_namespaces_correct:
  assumes "namespaces_ok (Obj dp)" "namespaces_ok (Obj sp)"
  shows "namespaces_ok (Obj (merged_namespaces dp sp))"
    and "ns_wrappers (Obj (merged_namespaces dp sp)) ns a = ns_wrappers (Obj dp) ns a @ ns_wrappers (Obj sp) ns a"
proof -
  obtain d s where f: "foldl namespace_step (dp, sp) dp = (d, s)" by (cases "foldl namespace_step (dp, sp) dp")
  have ok: "keys_ok dp" "keys_ok sp" "\<And>k. pred_option namespace_ok (map_of dp k)" "\<And>k. pred_option namespace_ok (map_of sp k)"
    using assms list_all_map_of [of dp namespace_ok] list_all_map_of [of sp namespace_ok] by simp_all
  have keys: "keys_ok d" "keys_ok s" using namespace_step_keys [of dp sp dp] ok by (simp_all add: f)
  have none: "src_ns None = (\<lambda>n. n)" by (simp add: src_ns_def fun_eq_iff)
  have "map_of d k = map_option dest_ns (map_of dp k) \<and> map_of s k = map_option (src_ns (map_of dp k)) (map_of sp k)" for k
    using namespaces_fold [OF ok(1), of dp sp k] by (simp add: f none option.map_ident split: if_splits)
  then have m: "map_of (merged_namespaces dp sp) k = joined (map_option dest_ns (map_of dp k)) (map_option (src_ns (map_of dp k)) (map_of sp k))" for k
    by (simp add: merged_namespaces_def f map_of_extend_fields keys)
  have "keys_ok (merged_namespaces dp sp)" by (simp add: merged_namespaces_def f keys extend_fields_keys_ok)
  then show "namespaces_ok (Obj (merged_namespaces dp sp))"
    using joined_namespace(1) [OF ok(3) ok(4)] by (simp add: list_all_map_of m)
  show "ns_wrappers (Obj (merged_namespaces dp sp)) ns a = ns_wrappers (Obj dp) ns a @ ns_wrappers (Obj sp) ns a"
    using joined_namespace(2) [OF ok(3) ok(4), of ns ns a] by (simp add: ns_wrappers_def field_def m flip: value_of_def)
qed

section \<open>Systems\<close>

abbreviation sP :: jstr where "sP \<equiv> js ''statePlugins''"

lemma sP_facts [simp]: "sP \<noteq> js ''__proto__''" "sP \<noteq> js ''components''" "sP \<noteq> js ''wrapComponents''"
  "js ''components'' \<noteq> js ''__proto__''" "js ''wrapComponents'' \<noteq> js ''__proto__''"
  by (simp_all add: js_def)

lemma wrap_components_keeps:
  assumes "wrap_components d s = (d', s')"
  shows "map_of d' sP = map_of d sP" "map_of s' sP = map_of s sP" "keys_ok d \<Longrightarrow> keys_ok d'" "keys_ok s \<Longrightarrow> keys_ok s'"
  using assms
  by (auto simp: wrap_components_def Let_def map_of_set_prop delete_prop_facts split: if_splits prod.splits pv.splits)

lemma namespaces_fold_Nil: "keys_ok dp \<Longrightarrow> snd (foldl namespace_step (dp, []) dp) = []"
proof -
  assume "keys_ok dp"
  then have "map_of (snd (foldl namespace_step (dp, []) dp)) k = None" for k
    using namespaces_fold [of dp dp "[]" k] by simp
  then show ?thesis
    by (cases "snd (foldl namespace_step (dp, []) dp)") (auto, metis fun_upd_same option.distinct(1))
qed

lemma systemExtend_correct:
  assumes "plugin_ok d" "plugin_ok s"
  shows "plugin_ok (systemExtend d (Obj s))"
    and "wrappers (systemExtend d (Obj s)) ns a = wrappers d ns a @ wrappers s ns a"
proof -
  obtain d1 s1 where w: "wrap_components d s = (d1, s1)" by (cases "wrap_components d s")
  note k = wrap_components_keeps [OF w]
  have ok: "keys_ok d1" "keys_ok s1" "pred_option namespaces_ok (map_of d1 sP)" "pred_option namespaces_ok (map_of s1 sP)"
    using assms k by (simp_all add: plugin_ok_def)
  let ?p = "\<lambda>x. own_fields (value_of (map_of x sP))"
  have own: "namespaces_ok (Obj (?p x))" if "pred_option namespaces_ok (map_of x sP)" for x :: "'a fields"
    using that by (cases "map_of x sP") (auto elim!: namespaces_ok.elims)
  note j = merged_namespaces_correct [OF own [OF ok(3)] own [OF ok(4)]]
  have e: "keys_ok (systemExtend d (Obj s)) \<and> map_of (systemExtend d (Obj s)) sP =
      (if map_of d1 sP = None \<and> map_of s1 sP = None then None else Some (Obj (merged_namespaces (?p d1) (?p s1))))"
    using ok
    by (cases "map_of d1 sP"; cases "map_of s1 sP")
      (auto simp: systemExtend_def prepared_def w state_plugins_def field_def map_of_extend_fields map_of_set_prop joined_def
        namespaces_fold_Nil merged_namespaces_def Let_def case_prod_beta elim!: namespaces_ok.elims)
  then show "plugin_ok (systemExtend d (Obj s))"
    using j(1) by (simp add: plugin_ok_def)
  have wr: "wrappers x ns a = ns_wrappers (value_of (map_of x sP)) ns a" for x :: "'a fields"
    by (simp add: wrappers_def wrapper_of_def ns_wrappers_def field_def value_of_def)
  have own_ns: "ns_wrappers (value_of (map_of x sP)) ns a = ns_wrappers (Obj (?p x)) ns a" if "pred_option namespaces_ok (map_of x sP)" for x :: "'a fields"
    by (simp add: ns_wrappers_def)
  show "wrappers (systemExtend d (Obj s)) ns a = wrappers d ns a @ wrappers s ns a"
    using e j(2) [of ns a] own_ns [OF ok(3)] own_ns [OF ok(4)] by (auto simp: wr k ns_wrappers_def)
qed

section \<open>Nested plugins\<close>

text \<open>The objects that a plugin stands for, in order: functions are called, arrays are traversed, other values have none.\<close>

inductive expands :: "('f \<Rightarrow> 'f pv) \<Rightarrow> 'f pv \<Rightarrow> 'f fields list \<Rightarrow> bool" for call where
  expands_object: "expands call (Obj p) [p]"
| expands_function: "expands call (call f) ps \<Longrightarrow> expands call (Fun f) ps"
| expands_array: "list_all2 (expands call) vs pss \<Longrightarrow> expands call (Arr vs) (concat pss)"
| expands_other: "\<not> isObject v \<Longrightarrow> \<not> is_fun v \<Longrightarrow> expands call v []"

text \<open>From some depth on, a recursion over plugins returns a result with property \<open>Q\<close>.\<close>

definition settles :: "(nat \<Rightarrow> 'a option) \<Rightarrow> ('a \<Rightarrow> bool) \<Rightarrow> bool" where
  "settles f Q \<longleftrightarrow> (\<exists>n0. \<forall>n\<ge>n0. \<exists>x. f n = Some x \<and> Q x)"

lemma settles_mono: "settles f Q \<Longrightarrow> (\<And>x. Q x \<Longrightarrow> R x) \<Longrightarrow> settles f R"
  unfolding settles_def by blast

lemma settles_Suc: "settles (\<lambda>n. f (Suc n)) Q \<Longrightarrow> settles f Q"
  unfolding settles_def by (metis Suc_le_D Suc_le_mono)

lemma settles_map_option: "settles f (\<lambda>x. Q (g x)) \<Longrightarrow> settles (\<lambda>n. map_option g (f n)) Q"
  unfolding settles_def by fastforce

lemma settles_const: "Q x \<Longrightarrow> settles (\<lambda>n. Some x) Q"
  by (simp add: settles_def)

lemma settles_conj: "settles f Q \<Longrightarrow> settles g R \<Longrightarrow> \<exists>n0. \<forall>n\<ge>n0. \<exists>x y. f n = Some x \<and> Q x \<and> g n = Some y \<and> R y"
  unfolding settles_def by (metis nat_le_linear order_trans)

lemma settles_list:
  assumes "list_all2 (\<lambda>v q. settles (\<lambda>n. f n v) (\<lambda>x. R x q)) vs qs"
  shows "settles (\<lambda>n. option_list (map (f n) vs)) (\<lambda>xs. list_all2 R xs qs)"
  using assms
proof (induction rule: list_all2_induct)
  case (Cons v vs q qs)
  obtain n0 where "\<forall>n\<ge>n0. \<exists>x y. f n v = Some x \<and> R x q \<and> option_list (map (f n) vs) = Some y \<and> list_all2 R y qs"
    using settles_conj [OF Cons(1,3)] by blast
  then show ?case unfolding settles_def by (intro exI [of _ n0]) fastforce
qed (simp add: settles_const)

text \<open>What the combined plugin is to have of the plugins that it comes from.\<close>

definition combines :: "'f pv \<Rightarrow> 'f fields list \<Rightarrow> bool" where
  "combines r ps \<longleftrightarrow> (\<exists>d. r = Obj d \<and> plugin_ok d \<and> (\<forall>ns a. wrappers d ns a = concat (map (\<lambda>p. wrappers p ns a) ps)))"

lemma plugin_ok_Nil [simp]: "plugin_ok []" "wrappers [] ns a = []"
  by (simp_all add: plugin_ok_def wrappers_def wrapper_of_def field_def)

lemma foldl_systemExtend:
  assumes "list_all2 combines rs pss" "plugin_ok d"
  shows "plugin_ok (foldl systemExtend d rs) \<and> wrappers (foldl systemExtend d rs) ns a = wrappers d ns a @ concat (map (\<lambda>p. wrappers p ns a) (concat pss))"
  using assms
proof (induction arbitrary: d rule: list_all2_induct)
  case (Cons r rs ps pss)
  then obtain s where s: "r = Obj s" "plugin_ok s" "\<And>ns a. wrappers s ns a = concat (map (\<lambda>p. wrappers p ns a) ps)"
    by (auto simp: combines_def)
  show ?case using Cons.IH [OF systemExtend_correct(1) [OF Cons.prems s(2)]] systemExtend_correct(2) [OF Cons.prems s(2)]
    by (simp add: s)
qed simp

lemma combines_fold: "list_all2 combines rs pss \<Longrightarrow> combines (Obj (foldl systemExtend [] rs)) (concat pss)"
  using foldl_systemExtend [of rs pss "[]"] by (simp add: combines_def [of "Obj _"])

lemma combinePlugins_settles:
  assumes "expands call v ps" "\<forall>p\<in>set ps. plugin_ok p"
  shows "settles (\<lambda>n. combinePlugins call n v) (\<lambda>r. combines r ps)"
  using assms
proof (induction rule: expands.induct)
  case (expands_object p)
  then show ?case by - (rule settles_Suc, simp add: settles_const combines_def)
next
  case (expands_function f ps)
  then show ?case using settles_Suc [of "\<lambda>n. combinePlugins call n (Fun f)"] by simp
next
  case (expands_array vs pss)
  then have "list_all2 (\<lambda>v ps. settles (\<lambda>n. combinePlugins call n v) (\<lambda>r. combines r ps)) vs pss"
    by (simp add: list_all2_conv_all_nth) (metis nth_mem)
  then have "settles (\<lambda>n. option_list (map (combinePlugins call n) vs)) (\<lambda>rs. combines (Obj (foldl systemExtend [] rs)) (concat pss))"
    by (rule settles_list [THEN settles_mono]) (rule combines_fold)
  then show ?case by - (rule settles_Suc, simp add: settles_map_option)
next
  case (expands_other v)
  then show ?case by - (rule settles_Suc, cases v, simp_all add: settles_const combines_def)
qed

text \<open>The functions \<open>afterLoad\<close> are called once for each plugin, in order.\<close>

definition after_load :: "'f fields \<Rightarrow> 'f list" where
  "after_load p = (case field p (js ''afterLoad'') of Fun f \<Rightarrow> [f] | _ \<Rightarrow> [])"

definition loads :: "'f list \<times> bool \<Rightarrow> 'f fields list \<Rightarrow> bool" where
  "loads r ps \<longleftrightarrow> fst r = concat (map after_load ps) \<and> (fst r \<noteq> [] \<longrightarrow> snd r)"

lemma callAfterLoad_settles: "expands call v ps \<Longrightarrow> settles (\<lambda>n. callAfterLoad call n v h) (\<lambda>r. loads r ps)"
proof (induction rule: expands.induct)
  case (expands_object p)
  then show ?case by - (rule settles_Suc, simp add: settles_const loads_def after_load_def split: pv.splits)
next
  case (expands_function f ps)
  then show ?case using settles_Suc [of "\<lambda>n. callAfterLoad call n (Fun f) h"] by simp
next
  case (expands_array vs pss)
  then have "list_all2 (\<lambda>v ps. settles (\<lambda>n. callAfterLoad call n v h) (\<lambda>r. loads r ps)) vs pss"
    by (auto simp: list_all2_conv_all_nth)
  moreover have "list_all2 loads rs pss \<Longrightarrow> concat (map fst rs) = concat (map after_load (concat pss))" for rs :: "('a list \<times> bool) list"
    by (induction rs pss rule: list_all2_induct) (auto simp: loads_def)
  ultimately have "settles (\<lambda>n. option_list (map (\<lambda>v. callAfterLoad call n v h) vs)) (\<lambda>rs. loads (concat (map fst rs), True) (concat pss))"
    by (intro settles_list [where R = loads, THEN settles_mono]) (simp_all add: loads_def)
  then show ?case by - (rule settles_Suc, simp add: settles_map_option)
next
  case (expands_other v)
  then show ?case by - (rule settles_Suc, cases v, simp_all add: settles_const loads_def)
qed

text \<open>
  C15: For every tree of plugins (objects, functions that return plugins, arrays of plugins) that stands for the objects \<open>ps\<close>,
  in order, \<open>register\<close> ends.  If the objects are well formed, an action of the resulting system is the action that is wrapped
  first by the wrappers that the system had, then by those of the plugins, in the order of the plugins; the functions
  \<open>afterLoad\<close> are called in that order too, after the system was built, and the system is built again when one was called.
\<close>

theorem wrappers_in_plugin_order:
  assumes "expands call plugins ps" "\<forall>p\<in>set ps. plugin_ok p" "plugin_ok system"
  shows "settles (\<lambda>n. register call n system plugins rebuild) (\<lambda>(system', events).
    (\<exists>again. events = (if rebuild then [Build] else []) @ map AfterLoad (concat (map after_load ps)) @ (if again then [Build] else []) \<and>
       (concat (map after_load ps) \<noteq> [] \<longrightarrow> again)) \<and>
    plugin_ok system' \<and>
    (\<forall>ns a action. wrapped_action null wrap not_function system' ns a action =
       foldl (wrap_action null wrap not_function) action (wrappers system ns a @ concat (map (\<lambda>p. wrappers p ns a) ps))))"
    (is "settles _ ?Q")
proof -
  obtain n0 where n0: "\<forall>n\<ge>n0. \<exists>x y. combinePlugins call n plugins = Some x \<and> combines x ps \<and>
      callAfterLoad call n plugins False = Some y \<and> loads y ps"
    using settles_conj [OF combinePlugins_settles [OF assms(1,2)] callAfterLoad_settles [OF assms(1)]] by blast
  have w: "wrapped_action null wrap not_function s ns a action = foldl (wrap_action null wrap not_function) action (wrappers s ns a)" for s ns a action
    by (simp add: wrapped_action_def wrappers_def listed_def Let_def)
  have "\<exists>r. register call n system plugins rebuild = Some r \<and> ?Q r" if n: "n0 \<le> n" for n
  proof -
    obtain x y where xy: "combinePlugins call n plugins = Some x" "combines x ps" "callAfterLoad call n plugins False = Some y" "loads y ps"
      using n0 n by blast
    have "list_all2 combines [x] [ps]" using xy(2) by simp
    from foldl_systemExtend [OF this assms(3)] show ?thesis
      using xy by (cases y) (auto simp: register_def w loads_def)
  qed
  then show ?thesis unfolding settles_def by blast
qed

text \<open>Two plugins, the first of them behind a function, that wrap the action \<open>go\<close> of the namespace \<open>ns\<close>.\<close>

definition sample_plugin :: "nat pv \<Rightarrow> nat fields" where
  "sample_plugin w = [(js ''statePlugins'', Obj [(js ''ns'', Obj [(js ''wrapActions'', Obj [(js ''go'', w)])])]), (js ''afterLoad'', Fun 7)]"

lemma wrappers_in_plugin_order_witness:
  "settles (\<lambda>n. register (\<lambda>f. if f = 0 then Obj (sample_plugin (Fun 1)) else Undef) n (sample_plugin (Fun 4))
        (Arr [Fun 0, Obj (sample_plugin (Arr [Fun 2, Fun 3])), Fun 5]) True) (\<lambda>(system', events).
    events = [Build, AfterLoad 7, AfterLoad 7, Build] \<and> plugin_ok system' \<and>
    wrapped_action (0 :: nat) (\<lambda>f g. Inr (\<lambda>x. map_sum id (\<lambda>r. f + 10 * r) (g x))) ''error'' system' (js ''ns'') (js ''go'') (\<lambda>x. Inr x) 0 = Inr 4123)"
proof -
  let ?call = "\<lambda>f. if f = (0 :: nat) then Obj (sample_plugin (Fun 1)) else Undef"
  let ?wrap = "\<lambda>f g. Inr (\<lambda>x. map_sum id (\<lambda>r. f + 10 * r) (g x))"
  let ?ps = "[sample_plugin (Fun 1), sample_plugin (Arr [Fun 2, Fun 3])]"
  have "expands ?call (Fun 0) [sample_plugin (Fun 1)]" "expands ?call (Fun 5) []"
    using expands_object [of ?call "sample_plugin (Fun 1)"] by (auto intro!: expands_function expands_other)
  then have "list_all2 (expands ?call) [Fun 0, Obj (sample_plugin (Arr [Fun 2, Fun 3])), Fun 5]
      [[sample_plugin (Fun 1)], [sample_plugin (Arr [Fun 2, Fun 3])], []]"
    by (simp add: expands_object)
  from expands_array [OF this] have e: "expands ?call (Arr [Fun 0, Obj (sample_plugin (Arr [Fun 2, Fun 3])), Fun 5]) ?ps" by simp
  have ok: "plugin_ok (sample_plugin w)" if "wrapper w" for w
    using that by (simp add: plugin_ok_def sample_plugin_def keys_ok_def js_def)
  have w: "wrappers (sample_plugin w) (js ''ns'') (js ''go'') = listed w" for w
    by (simp add: wrappers_def wrapper_of_def sample_plugin_def field_def)
  have a: "after_load (sample_plugin w) = [7]" for w
    by (simp add: after_load_def sample_plugin_def field_def js_def)
  have "settles (\<lambda>n. register ?call n (sample_plugin (Fun 4)) (Arr [Fun 0, Obj (sample_plugin (Arr [Fun 2, Fun 3])), Fun 5]) True) (\<lambda>(system', events).
    (\<exists>again. events = (if True then [Build] else []) @ map AfterLoad (concat (map after_load ?ps)) @ (if again then [Build] else []) \<and>
       (concat (map after_load ?ps) \<noteq> [] \<longrightarrow> again)) \<and>
    plugin_ok system' \<and>
    (\<forall>ns a (action :: nat \<Rightarrow> string + nat). wrapped_action (0 :: nat) ?wrap ''error'' system' ns a action =
       foldl (wrap_action 0 ?wrap ''error'') action (wrappers (sample_plugin (Fun 4)) ns a @ concat (map (\<lambda>p. wrappers p ns a) ?ps))))"
    by (rule wrappers_in_plugin_order [OF e]) (simp_all add: ok)
  then show ?thesis by (rule settles_mono) (auto simp: a w wrap_action_def wrapWithTryCatch_def)
qed

end
