(* ===== verification/Schema_Xml.thy ===== *)
theory Schema_Xml
  imports Schema_Sample
begin

text \<open>
  The examples in XML: \<open>sampleXmlFromSchema\<close>, \<open>inferSchema\<close> and \<open>getSampleSchema\<close>.  The code writes names and examples into
  the schema that it was given and reads them again, so the model passes the schema on.  An object that is a schema
  and one that is \<open>xml\<close> are modelled as objects: to write into a value of another kind is an error.  The conversion of the
  sample into text by the library \<open>xml\<close> and \<open>JSON.stringify\<close> are parameters, and the caches in front of the functions are not
  modelled.
\<close>

section \<open>Results\<close>

text \<open>The nesting of schemas has no bound in the code; \<open>None\<close> says that the depth was not enough.\<close>

type_synonym 'a xresult = "'a result option"

definition xbind :: "'a xresult \<Rightarrow> ('a \<Rightarrow> 'b xresult) \<Rightarrow> 'b xresult" where
  "xbind r f = (case r of None \<Rightarrow> None | Some (Inl e) \<Rightarrow> Some (Inl e) | Some (Inr x) \<Rightarrow> f x)"

abbreviation xreturn :: "'a \<Rightarrow> 'a xresult" where
  "xreturn x \<equiv> Some (Inr x)"

definition or_else :: "jv \<Rightarrow> jv \<Rightarrow> jv" where
  "or_else a b = (if truthy_jv a then a else b)"

text \<open>\<open>object.key = value\<close> in strict mode.\<close>

fun set_field :: "jv \<Rightarrow> string \<Rightarrow> jv \<Rightarrow> jv result" where
  "set_field (JObj ps) k v = Inr (JObj (set_prop ps (js k) v))"
| "set_field _ k v = Inl (TypeError ''Cannot create property'')"

text \<open>
  \<open>object[key]\<close>: own properties, with the characters and the length of texts and arrays.  A name that every value inherits gives a
  method; this is outside of the model and an error in it, as in \<open>primitive\<close>.  Methods of arrays, texts and numbers alone are not modelled.
\<close>

fun own_value :: "jv \<Rightarrow> jstr \<Rightarrow> jv option" where
  "own_value (JStr s) k =
     (if k = js ''length'' then Some (JNum (Fin (of_nat (length s))))
      else map_of (zip (map decimal_text [0..<length s]) (map (\<lambda>c. JStr [c]) s)) k)"
| "own_value (JArr vs) k = (if k = js ''length'' then Some (JNum (Fin (of_nat (length vs)))) else map_of (entries (JArr vs)) k)"
| "own_value v k = map_of (entries v) k"

definition at_key :: "jv \<Rightarrow> jstr \<Rightarrow> jv result" where
  "at_key v k =
     (case own_value v k of
        Some w \<Rightarrow> Inr w
      | None \<Rightarrow> if k \<in> set object_methods then Inl (PlainError ''inherited method'') else Inr JUndef)"

section \<open>\<open>sampleXmlFromSchema\<close>\<close>

definition xml_type :: "jv \<Rightarrow> jv option" where
  "xml_type s =
     (if truthy_jv (prop_of s ''type'') then Some (prop_of s ''type'')
      else if truthy_jv (prop_of s ''properties'') \<or> truthy_jv (prop_of s ''additionalProperties'') then Some (JStr (js ''object''))
      else if truthy_jv (prop_of s ''items'') then Some (JStr (js ''array''))
      else None)"

definition displayName :: "sample_env \<Rightarrow> jv \<Rightarrow> jstr" where
  "displayName env xml =
     (if truthy_jv (prop_of xml ''prefix'') then to_text env (prop_of xml ''prefix'') @ js '':'' else []) @
     to_text env (or_else (prop_of xml ''name'') (JStr (js ''notagname'')))"

definition namespace_attr :: "sample_env \<Rightarrow> jv \<Rightarrow> (jstr \<times> jv) list" where
  "namespace_attr env xml =
     (if truthy_jv (prop_of xml ''namespace'')
      then set_prop [] (if truthy_jv (prop_of xml ''prefix'') then js ''xmlns:'' @ to_text env (prop_of xml ''prefix'') else js ''xmlns'') (prop_of xml ''namespace'')
      else [])"

definition attr_node :: "(jstr \<times> jv) list \<Rightarrow> jv" where
  "attr_node attrs = JObj [(js ''_attr'', JObj attrs)]"

definition element :: "jstr \<Rightarrow> jv list \<Rightarrow> jv" where
  "element name children = JObj (set_prop [] name (JArr children))"

text \<open>\<open>items.xml\<close> and its name.\<close>

definition items_xml :: "jv \<Rightarrow> jv \<Rightarrow> jv result" where
  "items_xml xml items =
     (case set_field (or_else (or_else (prop_of items ''xml'') xml) (JObj [])) ''name''
         (or_else (prop_of (or_else (or_else (prop_of items ''xml'') xml) (JObj [])) ''name'') (prop_of xml ''name'')) of
        Inl e \<Rightarrow> Inl e
      | Inr x \<Rightarrow> set_field items ''xml'' x)"

text \<open>The loops over \<open>example\<close> and \<open>defaultValue\<close>, which write each value into \<open>items\<close>; \<open>sample\<close> is the recursive call.\<close>

fun each_item :: "(jv \<Rightarrow> (jv \<times> jv) xresult) \<Rightarrow> string \<Rightarrow> jv list \<Rightarrow> jv \<Rightarrow> (jv list \<times> jv) xresult" where
  "each_item sample key [] items = xreturn ([], items)"
| "each_item sample key (v # vs) items =
     xbind (Some (set_field items key v)) (\<lambda>items1. xbind (sample items1) (\<lambda>(t, items2).
       xbind (each_item sample key vs items2) (\<lambda>(ts, items3). xreturn (t # ts, items3))))"

definition sample_array :: "(jv \<Rightarrow> (jv \<times> jv) xresult) \<Rightarrow> jv \<Rightarrow> jstr \<Rightarrow> (jstr \<times> jv) list \<Rightarrow> jv \<Rightarrow> jv \<Rightarrow> jv \<Rightarrow> (jv \<times> jv) xresult" where
  "sample_array sample xml name attrs example defaultValue items =
     xbind (Some (items_xml xml items)) (\<lambda>items1.
       let wrapped = truthy_jv (prop_of xml ''wrapped'');
           finish = (\<lambda>(ts, items2). xreturn (if wrapped then element name (ts @ [attr_node attrs]) else JArr ts, items2)) in
       case (array_of example, array_of defaultValue) of
         (Some vs, d) \<Rightarrow> xbind (each_item sample ''example'' vs items1) finish
       | (None, Some vs) \<Rightarrow> xbind (each_item sample ''default'' vs items1) finish
       | (None, None) \<Rightarrow> xbind (sample items1) (\<lambda>(t, items2). xreturn (if wrapped then element name [t, attr_node attrs] else t, items2)))"

text \<open>The value of a property that is an attribute: the first value that is truthy.\<close>

definition attribute_value :: "sample_env \<Rightarrow> jv \<Rightarrow> jstr \<Rightarrow> jv \<Rightarrow> jv result" where
  "attribute_value env example propName p =
     (if truthy_jv (prop_of p ''example'') then Inr (prop_of p ''example'')
      else case at_key example propName of
        Inl e \<Rightarrow> Inl e
      | Inr given \<Rightarrow>
          (case find truthy_jv [given, prop_of p ''default'', case array_of (prop_of p ''enum'') of Some (v # vs) \<Rightarrow> v | _ \<Rightarrow> JUndef] of
             Some v \<Rightarrow> Inr v
           | None \<Rightarrow> primitive env p))"

definition hidden :: "sample_config \<Rightarrow> jv \<Rightarrow> bool" where
  "hidden c p \<longleftrightarrow> truthy_jv (prop_of p ''readOnly'') \<and> \<not> includeReadOnly c \<or> truthy_jv (prop_of p ''writeOnly'') \<and> \<not> includeWriteOnly c"

definition as_children :: "jv \<Rightarrow> jv list" where
  "as_children t = (case t of JArr ts \<Rightarrow> ts | _ \<Rightarrow> [t])"

text \<open>One property: what becomes of it, the children and the attributes.\<close>

type_synonym xml_state = "jv list \<times> (jstr \<times> jv) list"

definition named_property :: "jv \<Rightarrow> jstr \<Rightarrow> jv \<Rightarrow> jv result" where
  "named_property example propName p =
     (case set_field (prop_of p ''xml'') ''name'' (or_else (prop_of (prop_of p ''xml'') ''name'') (JStr propName)) of
        Inl e \<Rightarrow> Inl e
      | Inr x \<Rightarrow>
          (case set_field p ''xml'' x of
             Inl e \<Rightarrow> Inl e
           | Inr p' \<Rightarrow>
               if prop_of p' ''example'' \<noteq> JUndef then Inr p'
               else
                 (case at_key example propName of
                    Inl e \<Rightarrow> Inl e
                  | Inr given \<Rightarrow> if given \<noteq> JUndef then set_field p' ''example'' given else Inr p')))"

definition sample_property ::
  "(jv \<Rightarrow> (jv \<times> jv) xresult) \<Rightarrow> sample_env \<Rightarrow> sample_config \<Rightarrow> jv \<Rightarrow> jstr \<Rightarrow> jv \<Rightarrow> xml_state \<Rightarrow> (jv \<times> xml_state) xresult" where
  "sample_property sample env c example propName p st =
     (let (children, attrs) = st in
      if p = JUndef \<or> p = JNull then Some (Inl (TypeError ''Cannot read property readOnly''))
      else if hidden c p then xreturn (p, st)
      else
        xbind (Some (set_field p ''xml'' (or_else (prop_of p ''xml'') (JObj [])))) (\<lambda>p1.
          if truthy_jv (prop_of (prop_of p1 ''xml'') ''attribute'') then
            xbind (Some (attribute_value env example propName p1)) (\<lambda>v.
              xreturn (p1, children, set_prop attrs (to_text env (or_else (prop_of (prop_of p1 ''xml'') ''name'') (JStr propName))) v))
          else
            xbind (Some (named_property example propName p1)) (\<lambda>p2. xbind (sample p2) (\<lambda>(t, p3).
              xreturn (p3, children @ as_children t, attrs)))))"

fun sample_properties ::
  "(jv \<Rightarrow> (jv \<times> jv) xresult) \<Rightarrow> sample_env \<Rightarrow> sample_config \<Rightarrow> jv \<Rightarrow> (jstr \<times> jv) list \<Rightarrow> xml_state \<Rightarrow> ((jstr \<times> jv) list \<times> xml_state) xresult" where
  "sample_properties sample env c example [] st = xreturn ([], st)"
| "sample_properties sample env c example ((k, p) # ps) st =
     xbind (sample_property sample env c example k p st) (\<lambda>(p', st').
       xbind (sample_properties sample env c example ps st') (\<lambda>(ps', st''). xreturn ((k, p') # ps', st'')))"

definition additional_children :: "sample_env \<Rightarrow> jv \<Rightarrow> jv list result" where
  "additional_children env additionalProperties =
     (if additionalProperties = JBool True then Inr [JObj [(js ''additionalProp'', JStr (js ''Anything can be here''))]]
      else if truthy_jv additionalProperties
      then map_sum id (\<lambda>v. [JObj [(js ''additionalProp'', v)]]) (primitive env additionalProperties)
      else Inr [])"

text \<open>The properties after the loop, in the object they are in.\<close>

definition put_properties :: "jv \<Rightarrow> (jstr \<times> jv) list \<Rightarrow> jv" where
  "put_properties properties ps = (case properties of JObj qs \<Rightarrow> JObj (put_all qs ps) | _ \<Rightarrow> properties)"

text \<open>The loop calls \<open>props.hasOwnProperty\<close>, which a property of that name hides.\<close>

definition sample_object ::
  "(jv \<Rightarrow> (jv \<times> jv) xresult) \<Rightarrow> sample_env \<Rightarrow> sample_config \<Rightarrow> jstr \<Rightarrow> (jstr \<times> jv) list \<Rightarrow> jv \<Rightarrow> jv \<Rightarrow> jv \<Rightarrow> (jv \<times> jv) xresult" where
  "sample_object sample env c name attrs example properties additionalProperties =
     (if js ''hasOwnProperty'' \<in> fst ` set (entries (objectify properties)) then Some (Inl (TypeError ''props.hasOwnProperty is not a function''))
      else
        xbind (sample_properties sample env c (or_else example (JObj [])) (entries (objectify properties)) ([], attrs)) (\<lambda>(ps, children, attrs').
          xbind (Some (additional_children env additionalProperties)) (\<lambda>extra.
            xreturn (element name (children @ extra @ [attr_node attrs']), put_properties properties ps))))"

definition plain_value :: "sample_env \<Rightarrow> jv \<Rightarrow> jv result" where
  "plain_value env s =
     (if prop_of s ''example'' \<noteq> JUndef then Inr (prop_of s ''example'')
      else if prop_of s ''default'' \<noteq> JUndef then Inr (prop_of s ''default'')
      else case array_of (prop_of s ''enum'') of
             Some vs \<Rightarrow> Inr (case vs of [] \<Rightarrow> JUndef | v # vs \<Rightarrow> v)
           | None \<Rightarrow> primitive env s)"

definition put_field :: "jv \<Rightarrow> string \<Rightarrow> jv \<Rightarrow> jv" where
  "put_field s k v = (case set_field s k v of Inl e \<Rightarrow> s | Inr s' \<Rightarrow> s')"

text \<open>The recursive call for a property has no configuration, and then nothing is included.\<close>

definition no_config :: sample_config where
  "no_config = \<lparr>includeReadOnly = False, includeWriteOnly = False\<rparr>"

primrec sampleXmlFromSchema :: "sample_env \<Rightarrow> nat \<Rightarrow> sample_config \<Rightarrow> jv \<Rightarrow> (jv \<times> jv) xresult" where
  "sampleXmlFromSchema env 0 c schema = None"
| "sampleXmlFromSchema env (Suc n) c schema =
     (let xml = prop_of schema ''xml''; name = displayName env xml; attrs = namespace_attr env xml;
          items = prop_of schema ''items''; properties = prop_of schema ''properties'' in
      if xml = JUndef \<or> xml = JNull then Some (Inl (TypeError ''Cannot read property name''))
      else case xml_type schema of
        None \<Rightarrow> xreturn (JUndef, schema)
      | Some type \<Rightarrow>
          if type = JStr (js ''array'') \<and> truthy_jv items then
            xbind (sample_array (sampleXmlFromSchema env n c) xml name attrs (prop_of schema ''example'') (prop_of schema ''default'') items)
              (\<lambda>(t, items'). xreturn (t, put_field schema ''items'' items'))
          else if type = JStr (js ''object'') then
            xbind (sample_object (sampleXmlFromSchema env n no_config) env c name attrs (prop_of schema ''example'') properties (prop_of schema ''additionalProperties''))
              (\<lambda>(t, properties'). xreturn (t, if properties = JUndef then schema else put_field schema ''properties'' properties'))
          else xbind (Some (plain_value env schema)) (\<lambda>v. xreturn (element name [attr_node attrs, v], schema)))"

section \<open>\<open>inferSchema\<close> and \<open>getSampleSchema\<close>\<close>

definition inferSchema :: "jv \<Rightarrow> jv result" where
  "inferSchema thing =
     (if thing = JUndef \<or> thing = JNull then Inl (TypeError ''Cannot read property schema'')
      else
        let thing' = or_else (prop_of thing ''schema'') thing in
        if truthy_jv (prop_of thing' ''properties'') then set_field thing' ''type'' (JStr (js ''object'')) else Inr thing')"

text \<open>
  \<open>$$ref.match(/\S*\/(\S+)$/)\<close>: the longest beginning without spaces that ends in a slash, before at least one more character.
\<close>

definition ref_name :: "jstr \<Rightarrow> jstr option" where
  "ref_name s =
     (let t = rev (takeWhile (\<lambda>c. \<not> js_space c) (rev s)) in
      case filter (\<lambda>i. t ! i = 47) (rev [0..<length t - 1]) of [] \<Rightarrow> None | i # is \<Rightarrow> Some (drop (Suc i) t))"

definition no_example :: jstr where
  "no_example = js ''<?xml version=\"1.0\" encoding=\"UTF-8\"?>'' @ [10] @ js ''<!-- XML example cannot be generated -->''"

definition createXMLExample :: "sample_env \<Rightarrow> (jv \<Rightarrow> jstr) \<Rightarrow> nat \<Rightarrow> sample_config \<Rightarrow> jv \<Rightarrow> jv xresult" where
  "createXMLExample env xml_text n c schema =
     xbind (sampleXmlFromSchema env n c schema) (\<lambda>(json, s). xreturn (if truthy_jv json then JStr (xml_text json) else JUndef))"

definition with_name :: "jv \<Rightarrow> jv option result" where
  "with_name schema =
     (let xml = prop_of schema ''xml'' in
      if truthy_jv xml \<and> truthy_jv (prop_of xml ''name'') then Inr (Some schema)
      else
        case set_field schema ''xml'' (or_else xml (JObj [])) of
          Inl e \<Rightarrow> Inl e
        | Inr s \<Rightarrow>
            (case prop_of s ''$$ref'' of
               JStr (r # ref) \<Rightarrow>
                 (case ref_name (r # ref) of
                    None \<Rightarrow> Inl (TypeError ''Cannot read property 1 of null'')
                  | Some name \<Rightarrow>
                      (case set_field (prop_of s ''xml'') ''name'' (JStr name) of
                         Inl e \<Rightarrow> Inl e
                       | Inr x \<Rightarrow> map_sum id Some (set_field s ''xml'' x)))
             | ref \<Rightarrow> if truthy_jv ref then Inl (TypeError ''match is not a function'') else Inr None))"

definition occurs :: "jstr \<Rightarrow> jstr \<Rightarrow> bool" where
  "occurs p s \<longleftrightarrow> list_ex (\<lambda>i. take (length p) (drop i s) = p) [0..<Suc (length s)]"

definition getSampleSchema :: "sample_env \<Rightarrow> (jv \<Rightarrow> jstr) \<Rightarrow> (jv \<Rightarrow> jstr) \<Rightarrow> nat \<Rightarrow> jstr \<Rightarrow> sample_config \<Rightarrow> jv \<Rightarrow> jv xresult" where
  "getSampleSchema env xml_text stringify n contentType c schema =
     (if occurs (js ''xml'') contentType then
        if schema = JUndef \<or> schema = JNull then Some (Inl (TypeError ''Cannot read property xml''))
        else
          xbind (Some (with_name schema)) (\<lambda>named. case named of
              Some s \<Rightarrow> createXMLExample env xml_text n c s
            | None \<Rightarrow>
                if list_ex (\<lambda>k. truthy_jv (prop_of schema k)) [''type'', ''items'', ''properties'', ''additionalProperties'']
                then xreturn (JStr no_example) else xreturn JNull)
      else
        xbind (Some (sampleFromSchema env c schema)) (\<lambda>res.
          xreturn (if isObject res \<or> res = JNull then JStr (stringify res) else res)))"

end
