(* ===== verification/Schema_Xml_Laws.thy ===== *)
theory Schema_Xml_Laws
  imports Schema_Xml Schema_Sample_Laws
begin

text \<open>
  The samples in XML.  \<open>sampleXmlFromSchema\<close> finds the name and the example of a part in the schema, where it has written them
  before; the reference \<open>xml_of\<close> passes them down and changes nothing.  On well-formed schemas the two give the same sample.
\<close>

section \<open>The reference\<close>

text \<open>What \<open>xml\<close> says of an element: its name, or the name \<open>m\<close> that it gets otherwise, a prefix, a namespace, and whether a list is wrapped.\<close>

record xml_info =
  xi_name :: jstr
  xi_prefix :: jstr
  xi_namespace :: jv
  xi_wrapped :: bool

fun text_or_empty :: "jv \<Rightarrow> jstr" where
  "text_or_empty (JStr s) = s"
| "text_or_empty _ = []"

definition first_text :: "jstr \<Rightarrow> jstr \<Rightarrow> jstr" where
  "first_text a b = (if a = [] then b else a)"

definition info :: "jstr \<Rightarrow> jv \<Rightarrow> xml_info" where
  "info m x = \<lparr>xi_name = first_text (text_or_empty (prop_of x ''name'')) (first_text m (js ''notagname'')),
     xi_prefix = text_or_empty (prop_of x ''prefix''), xi_namespace = prop_of x ''namespace'', xi_wrapped = truthy_jv (prop_of x ''wrapped'')\<rparr>"

definition tag_name :: "xml_info \<Rightarrow> jstr" where
  "tag_name i = (if xi_prefix i = [] then xi_name i else xi_prefix i @ js '':'' @ xi_name i)"

definition xmlns :: "xml_info \<Rightarrow> (jstr \<times> jv) list" where
  "xmlns i = (if truthy_jv (xi_namespace i) then [(if xi_prefix i = [] then js ''xmlns'' else js ''xmlns:'' @ xi_prefix i, xi_namespace i)] else [])"

text \<open>An element with its children, the attributes being one of them.\<close>

definition node :: "xml_info \<Rightarrow> jv list \<Rightarrow> jv" where
  "node i children = JObj [(tag_name i, JArr children)]"

definition attributes :: "(jstr \<times> jv) list \<Rightarrow> jv" where
  "attributes as = JObj [(js ''_attr'', JObj as)]"

datatype xml_kind = Nothing | Plain | Object | List

definition kind_of :: "jv \<Rightarrow> xml_kind" where
  "kind_of s =
     (case prop_of s ''type'' of
        JStr t \<Rightarrow> if t = js ''object'' then Object else if t = js ''array'' \<and> truthy_jv (prop_of s ''items'') then List else Plain
      | _ \<Rightarrow> if truthy_jv (prop_of s ''properties'') \<or> truthy_jv (prop_of s ''additionalProperties'') then Object
             else if truthy_jv (prop_of s ''items'') then List else Nothing)"

text \<open>The value of a part: its example \<open>ex\<close>, the default, the first value of an enumeration, or one for the type.\<close>

definition typical :: "sample_env \<Rightarrow> jv \<Rightarrow> jv" where
  "typical env s = (case primitive env s of Inr v \<Rightarrow> v | Inl e \<Rightarrow> JUndef)"

definition first_enum :: "jv \<Rightarrow> jv option" where
  "first_enum s = (case prop_of s ''enum'' of JArr [] \<Rightarrow> Some JUndef | JArr (v # vs) \<Rightarrow> Some v | _ \<Rightarrow> None)"

definition value_of_part :: "sample_env \<Rightarrow> jv \<Rightarrow> jv \<Rightarrow> jv" where
  "value_of_part env ex s =
     (if ex \<noteq> JUndef then ex else if prop_of s ''default'' \<noteq> JUndef then prop_of s ''default''
      else case first_enum s of Some v \<Rightarrow> v | None \<Rightarrow> typical env s)"

definition value_of_attribute :: "sample_env \<Rightarrow> jv \<Rightarrow> jv \<Rightarrow> jv" where
  "value_of_attribute env given p =
     hd (filter truthy_jv [prop_of p ''example'', given, prop_of p ''default'', case first_enum p of Some v \<Rightarrow> v | None \<Rightarrow> JUndef] @ [typical env p])"

definition member :: "jv \<Rightarrow> jstr \<Rightarrow> jv" where
  "member v k = (case own_value v k of None \<Rightarrow> JUndef | Some w \<Rightarrow> w)"

definition visible :: "sample_config \<Rightarrow> jv \<Rightarrow> bool" where
  "visible c p \<longleftrightarrow> (truthy_jv (prop_of p ''readOnly'') \<longrightarrow> includeReadOnly c) \<and> (truthy_jv (prop_of p ''writeOnly'') \<longrightarrow> includeWriteOnly c)"

definition is_attribute :: "jv \<Rightarrow> bool" where
  "is_attribute p \<longleftrightarrow> truthy_jv (prop_of (prop_of p ''xml'') ''attribute'')"

definition given_example :: "jv \<Rightarrow> jstr \<Rightarrow> jv \<Rightarrow> jv" where
  "given_example ex k p = (if prop_of p ''example'' \<noteq> JUndef then prop_of p ''example'' else member ex k)"

definition remarks :: "sample_env \<Rightarrow> jv \<Rightarrow> jv list" where
  "remarks env a =
     (if a = JBool True then [JObj [(js ''additionalProp'', JStr (js ''Anything can be here''))]]
      else if truthy_jv a then [JObj [(js ''additionalProp'', typical env a)]] else [])"

definition spread :: "jv \<Rightarrow> jv list" where
  "spread t = (case t of JArr ts \<Rightarrow> ts | _ \<Rightarrow> [t])"

text \<open>
  The sample of a schema \<open>s\<close> with the description \<open>i\<close> of its element and the example \<open>ex\<close>, for schemas of depth at most the
  first number.  The elements of a list have the description of the list, unless they have one of their own.
\<close>

primrec xml_of :: "sample_env \<Rightarrow> nat \<Rightarrow> sample_config \<Rightarrow> xml_info \<Rightarrow> jv \<Rightarrow> jv \<Rightarrow> jv" where
  "xml_of env 0 c i ex s = JUndef"
| "xml_of env (Suc n) c i ex s =
     (case kind_of s of
        Nothing \<Rightarrow> JUndef
      | Plain \<Rightarrow> node i [attributes (xmlns i), value_of_part env ex s]
      | List \<Rightarrow>
          (let items = prop_of s ''items'';
               j = (if prop_of items ''xml'' = JUndef then i else info (xi_name i) (prop_of items ''xml''));
               t = xml_of env n c j (prop_of items ''example'') items
           in if xi_wrapped i then node i [t, attributes (xmlns i)] else t)
      | Object \<Rightarrow>
          (let ps = filter (\<lambda>(k, p). visible c p) (entries (prop_of s ''properties''));
               e = (if truthy_jv ex then ex else JObj []);
               children = concat (map (\<lambda>(k, p). if is_attribute p then []
                   else spread (xml_of env n no_config (info k (prop_of p ''xml'')) (given_example e k p) p)) ps);
               as = foldl (\<lambda>as (k, p). if is_attribute p
                   then set_alist as (first_text (text_or_empty (prop_of (prop_of p ''xml'') ''name'')) k) (value_of_attribute env (member e k) p) else as)
                 (xmlns i) ps
           in node i (children @ remarks env (prop_of s ''additionalProperties'') @ [attributes as])))"

section \<open>Well-formed schemas\<close>

text \<open>
  \<open>xml\<close>, the type, the properties; \<open>schema_ok n\<close> are the schemas of nesting depth at most \<open>n\<close>.  An example does not contain arrays, and a
  default is not one: how the code treats the elements of such an array is the subject of the lemma \<open>xml_examples_repeat\<close>.
\<close>

fun text_or_missing :: "jv \<Rightarrow> bool" where
  "text_or_missing JUndef = True"
| "text_or_missing (JStr s) = (s \<noteq> js ''__proto__'')"
| "text_or_missing _ = False"

fun xml_ok :: "jv \<Rightarrow> bool" where
  "xml_ok (JObj xs) = (text_or_missing (prop_of (JObj xs) ''name'') \<and> text_or_missing (prop_of (JObj xs) ''prefix''))"
| "xml_ok _ = False"

definition type_names :: "string list" where
  "type_names = [''object'', ''array'', ''string'', ''number'', ''integer'', ''boolean'', ''file'']"

definition type_ok :: "jv \<Rightarrow> bool" where
  "type_ok s \<longleftrightarrow> prop_of s ''type'' = JUndef \<or> prop_of s ''type'' \<in> (\<lambda>t. JStr (js t)) ` set type_names"

fun no_arrays :: "jv \<Rightarrow> bool" where
  "no_arrays (JArr vs) = False"
| "no_arrays (JObj ps) = list_all (\<lambda>p. no_arrays (snd p)) ps"
| "no_arrays _ = True"

fun properties_ok :: "(jv \<Rightarrow> bool) \<Rightarrow> jv \<Rightarrow> bool" where
  "properties_ok P JUndef = True"
| "properties_ok P (JObj ps) =
     (js ''__proto__'' \<notin> fst ` set ps \<and> set object_methods \<inter> fst ` set ps = {} \<and> list_all (\<lambda>p. P (snd p)) ps)"
| "properties_ok P _ = False"

primrec schema_ok :: "nat \<Rightarrow> jv \<Rightarrow> bool" where
  "schema_ok 0 s = False"
| "schema_ok (Suc n) s =
     ((case s of JObj ps \<Rightarrow> True | _ \<Rightarrow> False) \<and> (prop_of s ''xml'' = JUndef \<or> xml_ok (prop_of s ''xml'')) \<and> type_ok s \<and>
      type_ok (prop_of s ''additionalProperties'') \<and> no_arrays (prop_of s ''example'') \<and> array_of (prop_of s ''default'') = None \<and>
      (prop_of s ''items'' = JUndef \<or> schema_ok n (prop_of s ''items'')) \<and>
      properties_ok (schema_ok n) (prop_of s ''properties''))"

definition named :: "jv \<Rightarrow> bool" where
  "named s \<longleftrightarrow> prop_of s ''xml'' \<noteq> JUndef"

section \<open>Results\<close>

definition returns :: "'a xresult \<Rightarrow> ('a \<Rightarrow> bool) \<Rightarrow> bool" where
  "returns r Q \<longleftrightarrow> (\<exists>x. r = xreturn x \<and> Q x)"

lemma returns_return [simp]: "returns (xreturn x) Q = Q x"
  by (simp add: returns_def)

lemma returns_bind: "returns r Q \<Longrightarrow> (\<And>x. Q x \<Longrightarrow> returns (f x) R) \<Longrightarrow> returns (xbind r f) R"
  by (auto simp: returns_def xbind_def)

lemma returns_mono: "returns r Q \<Longrightarrow> (\<And>x. Q x \<Longrightarrow> R x) \<Longrightarrow> returns r R"
  by (auto simp: returns_def)

lemma xbind_return [simp]: "xbind (xreturn x) f = f x"
  by (simp add: xbind_def)

section \<open>Fields\<close>

lemma prop_of_set: "k \<noteq> ''__proto__'' \<Longrightarrow> prop_of (JObj (set_prop ps (js k) v)) k' = (if k' = k then v else prop_of (JObj ps) k')"
  by (simp add: map_of_set_prop js_eq_iff)

declare prop_of.simps [simp del]

lemma schema_ok_object:
  assumes "schema_ok n s"
  obtains ps where "s = JObj ps"
  using assms by (cases n; cases s) auto

lemma schema_ok_set_other:
  assumes "schema_ok n (JObj ps)" "k \<notin> {''type'', ''xml'', ''items'', ''properties'', ''additionalProperties'', ''example'', ''default'', ''__proto__''}"
  shows "schema_ok n (JObj (set_prop ps (js k) v))"
  using assms by (cases n) (auto simp: prop_of_set type_ok_def)

lemma schema_ok_set_xml:
  assumes "schema_ok n (JObj ps)" "xml_ok x"
  shows "schema_ok n (JObj (set_prop ps (js ''xml'') x))"
  using assms by (cases n) (auto simp: prop_of_set type_ok_def)

lemma schema_ok_set_example:
  assumes "schema_ok n (JObj ps)" "no_arrays v"
  shows "schema_ok n (JObj (set_prop ps (js ''example'') v))"
  using assms by (cases n) (auto simp: prop_of_set type_ok_def)

lemma named_set: "k \<notin> {''xml'', ''__proto__''} \<Longrightarrow> named (JObj (set_prop ps (js k) v)) = named (JObj ps)"
  by (auto simp: named_def prop_of_set)

lemma named_set_xml: "xml_ok x \<Longrightarrow> named (JObj (set_prop ps (js ''xml'') x))"
  by (cases x) (simp_all add: named_def prop_of_set)

lemma properties_ok_mono: "(\<And>s. P s \<Longrightarrow> Q s) \<Longrightarrow> properties_ok P v \<Longrightarrow> properties_ok Q v"
  by (cases v) (auto simp: list_all_iff)

lemma schema_ok_Suc: "schema_ok n s \<Longrightarrow> schema_ok (Suc n) s"
proof (induction n arbitrary: s)
  case (Suc n)
  then show ?case using properties_ok_mono [of "schema_ok n" "schema_ok (Suc n)"] by auto
qed simp

lemma schema_ok_le: "n \<le> m \<Longrightarrow> schema_ok n s \<Longrightarrow> schema_ok m s"
  by (induction rule: dec_induct) (simp_all add: schema_ok_Suc del: schema_ok.simps)

text \<open>\<open>xml\<close> after its name was written.\<close>

lemma text_or_missing_or_else: "text_or_missing a \<Longrightarrow> text_or_missing b \<Longrightarrow> text_or_missing (or_else a b)"
  by (simp add: or_else_def)

lemma xml_ok_set_name: "xml_ok (JObj xs) \<Longrightarrow> text_or_missing m \<Longrightarrow> xml_ok (JObj (set_prop xs (js ''name'') m))"
  by (simp add: prop_of_set)

lemma xml_ok_name: "xml_ok x \<Longrightarrow> text_or_missing (prop_of x ''name'')" "xml_ok x \<Longrightarrow> text_or_missing (prop_of x ''prefix'')"
  by (cases x; simp)+

lemma xml_ok_facts: "xml_ok x \<Longrightarrow> truthy_jv x \<and> x \<noteq> JUndef \<and> x \<noteq> JNull \<and> (\<exists>xs. x = JObj xs)"
  by (cases x) simp_all

lemma schema_ok_xml: "schema_ok n s \<Longrightarrow> named s \<Longrightarrow> xml_ok (prop_of s ''xml'')"
  by (cases n) (auto simp: named_def)

lemma schema_ok_xml_or: "schema_ok n s \<Longrightarrow> xml_ok x \<Longrightarrow> xml_ok (or_else (prop_of s ''xml'') x)"
  by (cases n) (auto simp: or_else_def xml_ok_facts)

lemma element_eq: "name \<noteq> js ''__proto__'' \<Longrightarrow> element name cs = JObj [(name, JArr cs)]"
  by (simp add: element_def set_prop_def)

lemma primitive_returns: "type_ok s \<Longrightarrow> \<exists>v. primitive env s = Inr v"
proof -
  assume "type_ok s"
  then have "to_text env (prop_of s ''type'') \<in> js ` ({''undefined''} \<union> set type_names)" by (auto simp: type_ok_def)
  then have "to_text env (prop_of s ''type'') @ js ''_'' @ f \<notin> set object_methods \<and> to_text env (prop_of s ''type'') \<notin> set object_methods" for f
    by (auto simp: type_names_def object_methods_def js_def)
  then show ?thesis by (simp add: primitive_def Let_def split: option.split)
qed


lemma schema_ok_example: "schema_ok n s \<Longrightarrow> no_arrays (prop_of s ''example'')" "schema_ok n s \<Longrightarrow> array_of (prop_of s ''default'') = None"
  by (cases n; simp)+

lemma no_arrays_array_of: "no_arrays v \<Longrightarrow> array_of v = None"
  by (cases v) simp_all

lemma map_of_zip_texts: "map_of (zip ks (map (\<lambda>c. JStr [c]) cs)) k = Some w \<Longrightarrow> \<exists>t. w = JStr t"
  by (auto dest!: map_of_SomeD set_zip_rightD)

lemma no_arrays_member: "no_arrays v \<Longrightarrow> no_arrays (member v k)"
proof (cases "own_value v k")
  case (Some w)
  assume "no_arrays v"
  then have "no_arrays w" using Some
  proof (cases v)
    case (JStr t)
    then show ?thesis using Some by (auto split: if_splits dest: map_of_zip_texts)
  next
    case (JObj ps)
    then have "(k, w) \<in> set ps" using Some map_of_SomeD by fastforce
    then show ?thesis using \<open>no_arrays v\<close> JObj by (auto simp: list_all_iff)
  qed auto
  then show ?thesis by (simp add: Some member_def)
qed (simp add: member_def)

lemma at_key_member: "k \<notin> set object_methods \<Longrightarrow> at_key v k = Inr (member v k)"
  by (simp add: at_key_def member_def split: option.split)

section \<open>Names\<close>

abbreviation no_name :: jstr where "no_name \<equiv> js ''notagname''"

lemma text_cases: "text_or_missing v \<Longrightarrow> v = JUndef \<or> (\<exists>s. v = JStr s \<and> s \<noteq> js ''__proto__'')"
  by (cases v) simp_all

lemma displayName_info: "xml_ok x \<Longrightarrow> displayName env x = tag_name (info no_name x)"
  using text_cases [OF xml_ok_name(1), of x] text_cases [OF xml_ok_name(2), of x]
  by (auto simp: displayName_def tag_name_def info_def or_else_def first_text_def js_def)

lemma namespace_info: "xml_ok x \<Longrightarrow> namespace_attr env x = xmlns (info m x)"
  using text_cases [OF xml_ok_name(2), of x]
  by (auto simp: namespace_attr_def xmlns_def info_def set_prop_def js_def)

lemma tag_name_ok: "xml_ok x \<Longrightarrow> tag_name (info no_name x) \<noteq> js ''__proto__''"
proof -
  assume x: "xml_ok x"
  have n: "xi_name (info no_name x) \<noteq> js ''__proto__''"
    using text_cases [OF xml_ok_name(1) [OF x]] by (auto simp: info_def first_text_def js_eq_iff)
  have "58 \<notin> set (js ''__proto__'')" "58 \<in> set (js '':'')" by (simp_all add: js_def)
  then have "a @ js '':'' @ b \<noteq> js ''__proto__''" for a b by (metis Un_iff set_append)
  then show ?thesis using n by (simp add: tag_name_def)
qed

lemma element_node: "xml_ok x \<Longrightarrow> element (displayName env x) cs = node (info no_name x) cs"
  by (simp add: displayName_info element_eq tag_name_ok node_def)

lemma attr_node_attributes: "attr_node as = attributes as"
  by (simp add: attr_node_def attributes_def)

text \<open>A name that was written into \<open>xml\<close> and one that is passed down.\<close>

lemma info_set_name:
  assumes "text_or_missing (prop_of (JObj xs) ''name'')" "text_or_missing m"
  shows "info no_name (JObj (set_prop xs (js ''name'') (or_else (prop_of (JObj xs) ''name'') m))) = info (text_or_empty m) (JObj xs)"
  using text_cases [OF assms(1)] text_cases [OF assms(2)]
  by (auto simp: info_def prop_of_set or_else_def first_text_def)

lemma info_missing: "info m (JObj []) = info m JUndef"
  by (simp add: info_def prop_of.simps)

lemma info_fallback: "text_or_missing v \<Longrightarrow> prop_of x ''name'' = v \<Longrightarrow> info (xi_name (info no_name x)) y = info (text_or_empty v) y"
  using text_cases [of v] by (auto simp: info_def first_text_def js_def)

lemma info_own: "info (text_or_empty (prop_of x ''name'')) x = info no_name x"
  by (simp add: info_def first_text_def)

section \<open>The parts of the function\<close>

text \<open>Equal fields, apart from those that the reference is given.\<close>

definition alike :: "jv \<Rightarrow> jv \<Rightarrow> bool" where
  "alike s t \<longleftrightarrow> (\<forall>k. k \<notin> {''xml'', ''example''} \<longrightarrow> prop_of s k = prop_of t k)"

lemma alike_primitive:
  assumes "alike s t"
  shows "primitive env s = primitive env t"
proof -
  have f: "prop_of s ''type'' = prop_of t ''type''" "prop_of s ''format'' = prop_of t ''format''" "prop_of s ''default'' = prop_of t ''default''"
    using assms by (simp_all add: alike_def)
  then have "primitives env s k = primitives env t k" for k by (simp only: primitives_def)
  then show ?thesis by (simp only: primitive_def f)
qed

lemma xml_of_alike:
  assumes "alike s t"
  shows "xml_of env n c i ex s = xml_of env n c i ex t"
proof -
  have f: "prop_of s ''type'' = prop_of t ''type''" "prop_of s ''default'' = prop_of t ''default''" "prop_of s ''enum'' = prop_of t ''enum''"
    "prop_of s ''items'' = prop_of t ''items''" "prop_of s ''properties'' = prop_of t ''properties''"
    "prop_of s ''additionalProperties'' = prop_of t ''additionalProperties''" using assms by (simp_all add: alike_def)
  then have "kind_of s = kind_of t" "value_of_part env ex s = value_of_part env ex t"
    by (simp_all only: kind_of_def value_of_part_def first_enum_def typical_def alike_primitive [OF assms])
  then show ?thesis using f by (cases n) (simp_all only: xml_of.simps)
qed

text \<open>What the recursive call does.\<close>

definition samples :: "sample_env \<Rightarrow> nat \<Rightarrow> sample_config \<Rightarrow> (jv \<Rightarrow> (jv \<times> jv) xresult) \<Rightarrow> bool" where
  "samples env n c f \<longleftrightarrow> (\<forall>s. schema_ok n s \<and> named s \<longrightarrow>
     returns (f s) (\<lambda>(t, s'). t = xml_of env n c (info no_name (prop_of s ''xml'')) (prop_of s ''example'') s))"

lemma samplesD:
  assumes "samples env n c f" "schema_ok n s" "named s" "info no_name (prop_of s ''xml'') = i" "prop_of s ''example'' = ex" "alike s p"
  shows "returns (f s) (\<lambda>(t, s'). t = xml_of env n c i ex p)"
  using assms xml_of_alike [OF assms(6)] by (auto simp: samples_def)

text \<open>The schema of the elements with the name that it gets.\<close>

definition items_info :: "jv \<Rightarrow> jv \<Rightarrow> xml_info" where
  "items_info x items =
     (if prop_of items ''xml'' = JUndef then info no_name x else info (xi_name (info no_name x)) (prop_of items ''xml''))"

lemma alike_set: "k = ''xml'' \<or> k = ''example'' \<Longrightarrow> alike (JObj (set_prop ps (js k) v)) (JObj ps)"
  by (auto simp: alike_def prop_of_set)

lemma alike_trans: "alike s t \<Longrightarrow> alike t u \<Longrightarrow> alike s u"
  by (simp add: alike_def)

lemma items_xml_returns:
  assumes xml: "xml_ok xml" and items: "schema_ok n items"
  shows "returns (Some (items_xml xml items)) (\<lambda>i. schema_ok n i \<and> named i \<and> alike i items \<and>
    info no_name (prop_of i ''xml'') = items_info xml items \<and> prop_of i ''example'' = prop_of items ''example'')"
proof -
  obtain ps where ps: "items = JObj ps" using items by (rule schema_ok_object)
  have own: "prop_of items ''xml'' = JUndef \<or> xml_ok (prop_of items ''xml'')" using items by (cases n) auto
  have x: "xml_ok (or_else (prop_of items ''xml'') xml)" using assms by (simp add: schema_ok_xml_or)
  then obtain xs where xs: "or_else (or_else (prop_of items ''xml'') xml) (JObj []) = JObj xs" "xml_ok (JObj xs)"
    using xml_ok_facts [OF x] by (auto simp: or_else_def [of _ "JObj []"])
  have xs': "JObj xs = (if prop_of items ''xml'' = JUndef then xml else prop_of items ''xml'')"
    using xs(1) own xml xml_ok_facts by (auto simp: or_else_def)
  let ?x = "JObj (set_prop xs (js ''name'') (or_else (prop_of (JObj xs) ''name'') (prop_of xml ''name'')))"
  have "xml_ok ?x" using xs(2) xml by (intro xml_ok_set_name text_or_missing_or_else xml_ok_name)
  moreover have "info no_name ?x = info (text_or_empty (prop_of xml ''name'')) (JObj xs)"
    by (rule info_set_name) (use xs(2) xml xml_ok_name in blast)+
  then have "info no_name ?x = items_info xml items"
    using xs' info_own [of xml] info_fallback [OF xml_ok_name(1) [OF xml] refl] by (simp add: items_info_def)
  ultimately show ?thesis using items schema_ok_set_xml named_set_xml alike_set [of "''xml''" ps ?x]
    by (simp add: items_xml_def xs(1) [unfolded ps] ps prop_of_set [of "''xml''"] del: xml_ok.simps)
qed

lemma sample_array_returns:
  assumes f: "samples env n c f" and xml: "xml_ok xml" and items: "schema_ok n items"
    and "array_of example = None" "array_of defaultValue = None"
  defines "t \<equiv> xml_of env n c (items_info xml items) (prop_of items ''example'') items"
  shows "returns (sample_array f xml (displayName env xml) (namespace_attr env xml) example defaultValue items)
    (\<lambda>(r, i). r = (if truthy_jv (prop_of xml ''wrapped'') then node (info no_name xml) [t, attributes (xmlns (info no_name xml))] else t))"
  unfolding sample_array_def Let_def
  by (rule returns_bind [OF items_xml_returns [OF xml items]])
    (auto simp: assms(4,5) t_def element_node [OF xml] attr_node_attributes namespace_info [OF xml, of env no_name] intro!: returns_bind [OF samplesD [OF f]])

text \<open>A property that becomes an attribute, and one that becomes a child.\<close>

lemma find_hd: "hd (filter P xs @ [d]) = (case find P xs of Some x \<Rightarrow> x | None \<Rightarrow> d)"
  by (induction xs) auto

lemma attribute_value_returns:
  assumes p: "type_ok p" "alike p q" "prop_of p ''example'' = prop_of q ''example''" and k: "k \<notin> set object_methods"
  shows "attribute_value env e k p = Inr (value_of_attribute env (member e k) q)"
proof -
  obtain v where v: "primitive env p = Inr v" using primitive_returns [OF p(1)] by blast
  have t: "typical env q = v" by (simp add: typical_def v flip: alike_primitive [OF p(2)])
  have f: "prop_of p ''default'' = prop_of q ''default''" "prop_of p ''enum'' = prop_of q ''enum''" using p(2) by (simp_all add: alike_def)
  have e: "(case array_of (prop_of q ''enum'') of Some (v # vs) \<Rightarrow> v | _ \<Rightarrow> JUndef) = (case first_enum q of Some v \<Rightarrow> v | None \<Rightarrow> JUndef)"
    by (auto simp: first_enum_def split: jv.splits list.splits)
  show ?thesis
    using at_key_member [OF k, of e] v
    by (auto simp: attribute_value_def value_of_attribute_def find_hd t f e p(3) split: option.split)
qed

lemma schema_ok_type: "schema_ok n s \<Longrightarrow> type_ok s"
  by (cases n) simp_all

lemma named_property_returns:
  assumes p: "schema_ok n p" "named p" and k: "k \<noteq> js ''__proto__''" "k \<notin> set object_methods" and e: "no_arrays e"
  shows "returns (Some (named_property e k p)) (\<lambda>p'. schema_ok n p' \<and> named p' \<and> alike p' p \<and>
    info no_name (prop_of p' ''xml'') = info k (prop_of p ''xml'') \<and> prop_of p' ''example'' = given_example e k p)"
proof -
  obtain ps where ps: "p = JObj ps" using p(1) by (rule schema_ok_object)
  obtain xs where xs: "prop_of p ''xml'' = JObj xs" "xml_ok (JObj xs)"
    using schema_ok_xml [OF p] xml_ok_facts by metis
  let ?x = "JObj (set_prop xs (js ''name'') (or_else (prop_of (JObj xs) ''name'') (JStr k)))"
  have x: "xml_ok ?x" using xs(2) k(1) by (intro xml_ok_set_name text_or_missing_or_else xml_ok_name) simp_all
  have i: "info no_name ?x = info k (JObj xs)"
    using info_set_name [of xs "JStr k"] xml_ok_name(1) [OF xs(2)] k(1) by simp
  let ?p = "set_prop ps (js ''xml'') ?x"
  have q: "schema_ok n (JObj ?p)" "named (JObj ?p)" "alike (JObj ?p) p" "prop_of (JObj ?p) ''xml'' = ?x" "prop_of (JObj ?p) ''example'' = prop_of p ''example''"
    using schema_ok_set_xml [OF p(1) [unfolded ps] x] named_set_xml [OF x] alike_set [of "''xml''" ps ?x] by (simp_all add: prop_of_set ps)
  show ?thesis
  proof (cases "prop_of p ''example'' = JUndef \<and> member e k \<noteq> JUndef")
    case True
    let ?q = "JObj (set_prop ?p (js ''example'') (member e k))"
    have "named_property e k p = Inr ?q"
      using True q(5) at_key_member [OF k(2)] by (simp add: named_property_def xs(1) [unfolded ps] ps)
    moreover have "schema_ok n ?q" "named ?q" "prop_of ?q ''xml'' = ?x" "prop_of ?q ''example'' = given_example e k p"
      using schema_ok_set_example [OF q(1) no_arrays_member [OF e]] named_set [of "''example''" ?p] q(2,4) True
      by (simp_all add: prop_of_set given_example_def)
    moreover have "alike ?q p" using alike_trans [OF alike_set [of "''example''" ?p] q(3)] by simp
    ultimately show ?thesis using i xs(1) by simp
  next
    case False
    then have "named_property e k p = Inr (JObj ?p)" "prop_of (JObj ?p) ''example'' = given_example e k p"
      using q(5) at_key_member [OF k(2)] by (auto simp: named_property_def xs(1) [unfolded ps] ps given_example_def)
    then show ?thesis using q i xs(1) by simp
  qed
qed

text \<open>What one property adds to the children and to the attributes.\<close>

definition child_part :: "sample_env \<Rightarrow> nat \<Rightarrow> jv \<Rightarrow> jstr \<times> jv \<Rightarrow> jv list" where
  "child_part env n e = (\<lambda>(k, p). if is_attribute p then [] else spread (xml_of env n no_config (info k (prop_of p ''xml'')) (given_example e k p) p))"

definition attribute_part :: "sample_env \<Rightarrow> jv \<Rightarrow> (jstr \<times> jv) list \<Rightarrow> jstr \<times> jv \<Rightarrow> (jstr \<times> jv) list" where
  "attribute_part env e as = (\<lambda>(k, p). if is_attribute p
     then set_alist as (first_text (text_or_empty (prop_of (prop_of p ''xml'') ''name'')) k) (value_of_attribute env (member e k) p) else as)"

lemma as_children_spread: "as_children t = spread t"
  by (simp add: as_children_def spread_def)

lemma attribute_name:
  assumes "x = JUndef \<or> xml_ok x" "k \<noteq> js ''__proto__''"
  shows "set_prop as (to_text env (or_else (prop_of x ''name'') (JStr k))) v = set_alist as (first_text (text_or_empty (prop_of x ''name'')) k) v"
proof -
  have "prop_of x ''name'' = JUndef \<or> (\<exists>s. prop_of x ''name'' = JStr s \<and> s \<noteq> js ''__proto__'')"
    using assms(1) text_cases [OF xml_ok_name(1)] by (auto simp: prop_of.simps)
  then show ?thesis using assms(2) by (auto simp: or_else_def first_text_def set_prop_def)
qed

lemma prop_of_missing: "prop_of JUndef k = JUndef" "prop_of (JObj []) k = JUndef"
  by (simp_all add: prop_of.simps)

lemma sample_property_returns:
  assumes f: "samples env n no_config f" and p: "schema_ok n p" and k: "k \<noteq> js ''__proto__''" "k \<notin> set object_methods" and e: "no_arrays e"
  shows "returns (sample_property f env c e k p (cs, as)) (\<lambda>(p', st).
    st = (if visible c p then (cs @ child_part env n e (k, p), attribute_part env e as (k, p)) else (cs, as)))"
proof -
  obtain ps where ps: "p = JObj ps" using p by (rule schema_ok_object)
  let ?x = "or_else (prop_of p ''xml'') (JObj [])" let ?p = "JObj (set_prop ps (js ''xml'') ?x)"
  have own: "prop_of p ''xml'' = JUndef \<or> xml_ok (prop_of p ''xml'')" using p by (cases n) auto
  then have x: "xml_ok ?x" and same: "prop_of ?x a = prop_of (prop_of p ''xml'') a" for a
    using xml_ok_facts by (auto simp: or_else_def prop_of_missing)
  have p1: "schema_ok n ?p" "named ?p" "alike ?p p" "prop_of ?p ''xml'' = ?x" "prop_of ?p ''example'' = prop_of p ''example''"
    using schema_ok_set_xml [OF p [unfolded ps] x] named_set_xml [OF x] alike_set [of "''xml''" ps ?x] by (simp_all add: prop_of_set ps)
  have i: "info m ?x = info m (prop_of p ''xml'')" for m by (simp only: info_def same)
  have g: "given_example e k ?p = given_example e k p" using p1(5) by (simp add: given_example_def)
  have vis: "hidden c p = (\<not> visible c p)" by (auto simp: hidden_def visible_def)
  have attr: "attribute_value env e k ?p = Inr (value_of_attribute env (member e k) p)"
    by (rule attribute_value_returns [OF schema_ok_type [OF p1(1)] p1(3,5) k(2)])
  have child: "returns (xbind (Some (named_property e k ?p)) (\<lambda>p2. xbind (f p2) (\<lambda>(t, p3). xreturn (p3, cs @ as_children t, as))))
      (\<lambda>(p', st). st = (cs @ spread (xml_of env n no_config (info k (prop_of p ''xml'')) (given_example e k p) p), as))"
    by (rule returns_bind [OF named_property_returns [OF p1(1,2) k e]], rule returns_bind [OF samplesD [OF f]])
      (use p1(3,4) i g in \<open>auto simp: as_children_spread xml_of_alike [OF p1(3)] dest: alike_trans\<close>)
  have at: "set_prop as (to_text env (or_else (prop_of (prop_of p ''xml'') ''name'') (JStr k))) v =
      set_alist as (first_text (text_or_empty (prop_of (prop_of p ''xml'') ''name'')) k) v" for v
    by (rule attribute_name [OF own k(1)])
  show ?thesis
    using child attr at same p1(4) vis
    by (simp add: sample_property_def ps is_attribute_def child_part_def attribute_part_def)
qed

lemma sample_properties_returns:
  assumes f: "samples env n no_config f" and ps: "\<forall>(k, p)\<in>set ps. schema_ok n p \<and> k \<noteq> js ''__proto__'' \<and> k \<notin> set object_methods" and e: "no_arrays e"
  shows "returns (sample_properties f env c e ps (cs, as)) (\<lambda>(ps', st).
    st = (cs @ concat (map (child_part env n e) (filter (\<lambda>(k, p). visible c p) ps)), foldl (attribute_part env e) as (filter (\<lambda>(k, p). visible c p) ps)))"
  using ps
proof (induction ps arbitrary: cs as)
  case (Cons q ps)
  obtain k p where q: "q = (k, p)" by (cases q)
  have p: "schema_ok n p" "k \<noteq> js ''__proto__''" "k \<notin> set object_methods" using Cons.prems by (simp_all add: q)
  show ?case unfolding q sample_properties.simps
    by (rule returns_bind [OF sample_property_returns [OF f p e]]) (use Cons in \<open>auto split: if_splits intro!: returns_bind [OF Cons.IH]\<close>)
qed simp

section \<open>The whole function\<close>

lemma additional_children_returns: "type_ok a \<Longrightarrow> additional_children env a = Inr (remarks env a)"
  using primitive_returns [of a env] by (auto simp: additional_children_def remarks_def typical_def)

lemma properties_entries:
  assumes "properties_ok P q"
  shows "\<forall>(k, p)\<in>set (entries (objectify q)). P p \<and> k \<noteq> js ''__proto__'' \<and> k \<notin> set object_methods"
    "js ''hasOwnProperty'' \<notin> fst ` set (entries (objectify q))"
proof -
  have q: "q = JUndef \<or> (\<exists>qs. q = JObj qs)" using assms by (cases q) simp_all
  then show "\<forall>(k, p)\<in>set (entries (objectify q)). P p \<and> k \<noteq> js ''__proto__'' \<and> k \<notin> set object_methods"
  proof (elim disjE exE)
    fix qs assume qs: "q = JObj qs"
    have "P p \<and> k \<noteq> js ''__proto__'' \<and> k \<notin> set object_methods" if "(k, p) \<in> set qs" for k p
    proof -
      have "k \<in> fst ` set qs" using that by force
      moreover have "P p" using assms that unfolding qs properties_ok.simps by (auto simp: list_all_iff)
      ultimately show ?thesis using assms unfolding qs properties_ok.simps by blast
    qed
    then show ?thesis by (auto simp: qs entries_objectify)
  qed (simp add: entries_objectify)
  moreover have "js ''hasOwnProperty'' \<in> set object_methods" by (simp add: object_methods_def)
  ultimately show "js ''hasOwnProperty'' \<notin> fst ` set (entries (objectify q))" by force
qed

lemma sample_object_returns:
  fixes c :: sample_config
  assumes f: "samples env n no_config f" and xml: "xml_ok xml" and q: "properties_ok (schema_ok n) q" and a: "type_ok a" and ex: "no_arrays ex"
  defines "e \<equiv> if truthy_jv ex then ex else JObj []" and "ps \<equiv> filter (\<lambda>(k, p). visible c p) (entries q)"
  shows "returns (sample_object f env c (displayName env xml) (namespace_attr env xml) ex q a) (\<lambda>(t, q').
    t = node (info no_name xml) (concat (map (child_part env n e) ps) @ remarks env a @
      [attributes (foldl (attribute_part env e) (xmlns (info no_name xml)) ps)]))"
proof -
  have e: "no_arrays e" "or_else ex (JObj []) = e" using ex by (simp_all add: e_def or_else_def)
  note pe = properties_entries [OF q, unfolded entries_objectify]
  show ?thesis unfolding sample_object_def e(2)
    using pe(2)
    by (auto simp: additional_children_returns [OF a] element_node [OF xml] attr_node_attributes namespace_info [OF xml, of env no_name] ps_def entries_objectify
        intro!: returns_bind [OF sample_properties_returns [OF f pe(1) e(1)]])
qed

lemma xml_of_object:
  assumes "kind_of s = Object"
  shows "xml_of env (Suc n) c i ex s =
     (let ps = filter (\<lambda>(k, p). visible c p) (entries (prop_of s ''properties'')); e = (if truthy_jv ex then ex else JObj [])
      in node i (concat (map (child_part env n e) ps) @ remarks env (prop_of s ''additionalProperties'') @
           [attributes (foldl (attribute_part env e) (xmlns i) ps)]))"
proof -
  have "(\<lambda>as (k, p). if is_attribute p
      then set_alist as (first_text (text_or_empty (prop_of (prop_of p ''xml'') ''name'')) k) (value_of_attribute env (member e k) p) else as) = attribute_part env e" for e
    by (auto simp: attribute_part_def fun_eq_iff)
  then show ?thesis using assms by (simp add: child_part_def Let_def)
qed

lemma kind_of_type:
  assumes "type_ok s"
  shows "xml_type s = None \<longleftrightarrow> kind_of s = Nothing"
    "xml_type s = Some (JStr (js ''object'')) \<longleftrightarrow> kind_of s = Object"
    "xml_type s = Some (JStr (js ''array'')) \<and> truthy_jv (prop_of s ''items'') \<longleftrightarrow> kind_of s = List"
proof -
  have t: "js t = [] \<longleftrightarrow> t = []" for t by (simp add: js_def)
  have "prop_of s ''type'' = JUndef \<or> (\<exists>t. prop_of s ''type'' = JStr (js t) \<and> t \<noteq> [])"
    using assms by (auto simp: type_ok_def type_names_def)
  then show "xml_type s = None \<longleftrightarrow> kind_of s = Nothing" "xml_type s = Some (JStr (js ''object'')) \<longleftrightarrow> kind_of s = Object"
    "xml_type s = Some (JStr (js ''array'')) \<and> truthy_jv (prop_of s ''items'') \<longleftrightarrow> kind_of s = List"
    by (auto simp: xml_type_def kind_of_def js_eq_iff t split: if_splits)
qed

lemma plain_value_returns: "type_ok s \<Longrightarrow> plain_value env s = Inr (value_of_part env (prop_of s ''example'') s)"
  using primitive_returns [of s env]
  by (auto simp: plain_value_def value_of_part_def first_enum_def typical_def split: option.split jv.split list.split)

lemma sampleXmlFromSchema_samples: "samples env n c (sampleXmlFromSchema env n c)"
proof (induction n arbitrary: c)
  case 0
  show ?case by (simp add: samples_def)
next
  case (Suc n)
  show ?case unfolding samples_def
  proof (intro allI impI, elim conjE)
    fix s assume s: "schema_ok (Suc n) s" "named s"
    let ?xml = "prop_of s ''xml''"
    have x: "xml_ok ?xml" by (rule schema_ok_xml [OF s])
    have i: "prop_of s ''items'' = JUndef \<or> schema_ok n (prop_of s ''items'')" "properties_ok (schema_ok n) (prop_of s ''properties'')"
      "type_ok (prop_of s ''additionalProperties'')" "type_ok s" "no_arrays (prop_of s ''example'')" "array_of (prop_of s ''default'') = None"
      using s(1) by auto
    have w: "xi_wrapped (info m ?xml) = truthy_jv (prop_of ?xml ''wrapped'')" for m by (simp add: info_def)
    note k = kind_of_type [OF i(4)]
    have xml: "?xml \<noteq> JUndef" "?xml \<noteq> JNull" using xml_ok_facts [OF x] by auto
    show "returns (sampleXmlFromSchema env (Suc n) c s) (\<lambda>(t, s'). t = xml_of env (Suc n) c (info no_name ?xml) (prop_of s ''example'') s)"
    proof (cases "kind_of s")
      case Nothing
      then show ?thesis using k xml by (simp add: Let_def)
    next
      case Plain
      then have "\<exists>ty. xml_type s = Some ty \<and> ty \<noteq> JStr (js ''object'') \<and> \<not> (ty = JStr (js ''array'') \<and> truthy_jv (prop_of s ''items''))"
        using k by (cases "xml_type s") auto
      then show ?thesis using Plain xml plain_value_returns [OF i(4), of env] namespace_info [OF x, of env no_name]
        by (auto simp: Let_def element_node [OF x] attr_node_attributes)
    next
      case Object
      then have "xml_type s = Some (JStr (js ''object''))" using k by simp
      then show ?thesis using Object xml
        by (auto simp: Let_def js_eq_iff xml_of_object simp del: xml_of.simps intro!: returns_bind [OF sample_object_returns [OF Suc x i(2,3,5)]])
    next
      case List
      then have t: "xml_type s = Some (JStr (js ''array''))" "truthy_jv (prop_of s ''items'')" using k by auto
      then have it: "schema_ok n (prop_of s ''items'')" using i(1) by auto
      show ?thesis using List xml t
        by (auto simp: Let_def w items_info_def intro!: returns_bind [OF sample_array_returns [OF Suc x it no_arrays_array_of [OF i(5)] i(6)]])
    qed
  qed
qed

text \<open>
  C16: For a well-formed schema with an object \<open>xml\<close> (objects nested through \<open>items\<close> and \<open>properties\<close> to depth \<open>n\<close>, with known types,
  without arrays among the examples) \<open>sampleXmlFromSchema\<close> ends without an error, for every configuration and every depth from
  \<open>n\<close> on, and its sample is that of the reference: every visible property is a child, in order, with its own name or the
  name of the property, or an attribute; the elements of a list have their own name or that of the list; values are the
  example, own or inherited, the default, the first of an enumeration or one for the type.  So the names and examples that
  the function writes into the schema while it runs have the effect of passing them down.
\<close>

theorem xml_sample_reference:
  assumes "schema_ok n schema" "prop_of schema ''xml'' \<noteq> JUndef" "n \<le> m"
  shows "\<exists>schema'. sampleXmlFromSchema env m c schema =
    Some (Inr (xml_of env m c (info (js ''notagname'') (prop_of schema ''xml'')) (prop_of schema ''example'') schema, schema'))"
  using samplesD [OF sampleXmlFromSchema_samples [of env m c] schema_ok_le [OF assms(3,1)], of _ _ schema] assms(2)
  by (auto simp: returns_def named_def alike_def)

text \<open>An order with an attribute, a list of texts that is wrapped, and a price from the example.\<close>

definition typed_schema :: "string \<Rightarrow> (string \<times> jv) list \<Rightarrow> jv" where
  "typed_schema t ps = JObj ((js ''type'', JStr (js t)) # map (\<lambda>(k, v). (js k, v)) ps)"

definition order_schema :: jv where
  "order_schema = typed_schema ''object''
     [(''xml'', JObj [(js ''name'', JStr (js ''order'')), (js ''prefix'', JStr (js ''o''))]),
      (''example'', JObj [(js ''price'', JNum (Fin 7))]),
      (''properties'', JObj [(js ''id'', typed_schema ''integer'' [(''xml'', JObj [(js ''attribute'', JBool True)])]),
         (js ''price'', typed_schema ''number'' []),
         (js ''tags'', typed_schema ''array'' [(''xml'', JObj [(js ''wrapped'', JBool True)]), (''items'', typed_schema ''string'' [])])])]"

definition sample_env_1 :: sample_env where
  "sample_env_1 = \<lparr>iso_now = [], text_of_value = (\<lambda>v. [])\<rparr>"

definition order_sample :: jv where
  "order_sample =
     (let el = (\<lambda>name children. JObj [(js name, JArr children)]); none = attributes [] in
      el ''o:order'' [el ''price'' [none, JNum (Fin 7)], el ''tags'' [el ''tags'' [none, JStr (js ''string'')], none], attributes [(js ''id'', JNum (Fin 0))]])"

lemma order_schema_ok: "schema_ok 3 order_schema"
  by code_simp

lemma order_reference:
  "xml_of sample_env_1 3 no_config (info (js ''notagname'') (prop_of order_schema ''xml'')) (prop_of order_schema ''example'') order_schema = order_sample"
  by code_simp

lemma xml_sample_reference_witness: "\<exists>schema'. sampleXmlFromSchema sample_env_1 3 no_config order_schema = Some (Inr (order_sample, schema'))"
proof -
  have "prop_of order_schema ''xml'' \<noteq> JUndef" by code_simp
  from xml_sample_reference [OF order_schema_ok this order.refl, of sample_env_1 no_config] show ?thesis
    by (simp only: order_reference)
qed

text \<open>A list of two pets, given by an example.\<close>

definition pet_list :: jv where
  "pet_list = typed_schema ''array'' [(''xml'', JObj [(js ''name'', JStr (js ''pets'')), (js ''wrapped'', JBool True)]),
     (''items'', typed_schema ''object'' [(''properties'', JObj [(js ''id'', typed_schema ''integer'' [])])]),
     (''example'', JArr [JObj [(js ''id'', JNum (Fin 1))], JObj [(js ''id'', JNum (Fin 2))]])]"

text \<open>
  The examples of the elements are written into the schema of the elements and found there again for the next element: the
  second pet is a copy of the first.
\<close>

lemma xml_examples_repeat:
  "let pet = (\<lambda>n. element (js ''pets'') [element (js ''id'') [attr_node [], JNum (Fin n)], attr_node []])
   in map_option (map_sum id fst) (sampleXmlFromSchema sample_env_1 3 no_config pet_list) =
     Some (Inr (element (js ''pets'') [pet 1, pet 1, attr_node []]))"
  by code_simp

text \<open>
  The configuration is not passed on to the properties: a read-only property of a property is left out although read-only
  properties are to be included.
\<close>

lemma xml_config_lost:
  "let ro = JObj [(js ''type'', JStr (js ''integer'')), (js ''readOnly'', JBool True)];
       inner = JObj [(js ''type'', JStr (js ''object'')), (js ''properties'', JObj [(js ''b'', ro)])];
       schema = JObj [(js ''type'', JStr (js ''object'')), (js ''xml'', JObj []), (js ''properties'', JObj [(js ''a'', inner), (js ''b'', ro)])]
   in map_option (map_sum id fst) (sampleXmlFromSchema sample_env_1 3 \<lparr>includeReadOnly = True, includeWriteOnly = True\<rparr> schema) =
     Some (Inr (element (js ''notagname'') [element (js ''a'') [attr_node []], element (js ''b'') [attr_node [], JNum (Fin 0)], attr_node []]))"
  by code_simp

end
