(* ===== verification/Spec2Isabelle.thy ===== *)
theory Spec2Isabelle
  imports Buffer_Write_Int Buffer_Float Buffer_Ops_Laws Search_Laws Yaml_Int_Laws Yaml_String_Round Yaml_Load_Laws Debounce_Laws Promise_Chain
    Web_Auth Schema_Sample_Laws Memo_Laws Yaml_Create Param_Validate_Laws Plugin_Laws Schema_Xml_Laws
begin

text \<open>
  \<^bold>\<open>The program.\<close>  The repository is a blockchain node with a page for its interface: \<open>client/docs/swagger-ui\<close> is
  the Swagger UI client that a node serves for its REST specification, and it is the JavaScript of the repository.  The
  page loads the specification as YAML text, keeps it in memory, shows a sample for every schema, lets the user
  authorize and sends requests.  This development is about the libraries and functions in \<open>swagger-ui.js\<close> that this
  rests on; two functions that \<open>swagger-ui.js\<close> requires from outside, base64 and \<open>deepExtend\<close>, are taken from
  \<open>swagger-ui-bundle.js\<close>.

  \<^bold>\<open>Parts, theories and state.\<close>

  \<^item> \<open>Js_Prelude\<close> and \<open>Js_Value\<close>: the language.  A string is a list of 16-bit code units, a byte an 8-bit word, a
    number an exact integer, \<open>NaN\<close> or \<open>undefined\<close> where only integers occur and a double elsewhere, a rational or a special value
    with the results rounded; the bitwise operators go through 32-bit words.  A thrown error is the left side of a sum.  Arrays and
    objects of the YAML library have an identity and live in a heap.
  \<^item> \<open>Typed_Array\<close>, \<open>Buffer_Read_Int\<close>, \<open>Buffer_Write_Int\<close>, \<open>Buffer_Float\<close>, \<open>Buffer_Text\<close>, \<open>Buffer_Codec\<close>,
    \<open>Buffer_Ops\<close>, \<open>Buffer_Search\<close>, \<open>Base64\<close>: the module \<open>buffer\<close> (lines 11842 to 13232).  A buffer is a view of a byte
    array in a memory, so that slices share bytes.  Every reader, writer, encoding, search, copy, fill and swap is a
    function of the same name.
  \<^item> \<open>Yaml_Common\<close>, \<open>Yaml_Types\<close>, \<open>Yaml_Schema\<close>, \<open>Yaml_Scanner\<close>, \<open>Yaml_Scalars\<close>, \<open>Yaml_Loader\<close>, \<open>Yaml_Document\<close>,
    \<open>Yaml_Dumper\<close>: js-yaml.  The state of the loader and of the dumper are records with the fields of the source,
    and the readers are functions from a state to an error or a result with the next state.  \<open>Yaml_Create\<close>: the
    constructors \<open>Type\<close> and \<open>Schema\<close> and \<open>Schema.create\<close>.
  \<^item> \<open>Debounce\<close>: the function of lodash that delays calls.  The variables of its closure are a record; calls,
    timers, \<open>flush\<close> and \<open>cancel\<close> are events.
  \<^item> \<open>Promise\<close>: the promises of core-js.  Promises, the wrappers of thenables, the queue of jobs and the tasks for
    unhandled rejections are one state; a step of the queue and a step of the application are the transitions.
  \<^item> \<open>Web_Url\<close>, \<open>Web_Auth\<close>: \<open>parseSearch\<close>, \<open>serializeSearch\<close>, \<open>buildFormData\<close>, \<open>btoa\<close>, \<open>sanitizeUrl\<close> and the
    actions that ask a server for a token.
  \<^item> \<open>Schema_Sample\<close>, \<open>Schema_Xml\<close>: \<open>sampleFromSchema\<close>, \<open>sampleXmlFromSchema\<close>, \<open>inferSchema\<close>, \<open>getSampleSchema\<close> and the
    utilities that they call.  The function for XML writes into the schema, which is passed on.
  \<^item> \<open>Cache\<close>: the caches of lodash (\<open>Hash\<close>, \<open>ListCache\<close>, \<open>MapCache\<close>, \<open>SetCache\<close>, \<open>Stack\<close>) with \<open>memoize\<close> and
    \<open>memoizeCapped\<close>, each cache a record of its fields.
  \<^item> \<open>Param_Validate\<close>: \<open>validateParam\<close> and the validators that it calls.
  \<^item> \<open>Plugin_System\<close>: how plugins become one system (\<open>combinePlugins\<close>, \<open>systemExtend\<close>, \<open>deepExtend\<close>,
    \<open>callAfterLoad\<close>, \<open>register\<close>) and what the system does with wrappers and reducers.  Objects are trees of values.

  The parts call each other as in the program: \<open>btoa\<close> goes through \<open>Buffer\<close> and its base64 codec, the binary
  type of YAML through the same codec, the requests through \<open>buildFormData\<close> and \<open>btoa\<close>.

  \<^bold>\<open>Interfaces.\<close>  \<open>byte_array\<close> states what a view of a memory promises to the code that reads and writes it;
  \<open>int_codec\<close> what a pair of an integer writer and reader does, with an interpretation for each of the fourteen pairs;
  \<open>text_codec\<close> what a text encoding does, interpreted for the six encodings and for the function that chooses among
  them; \<open>group_swap\<close> is the loop of the three byte swaps; \<open>value_law\<close>, an extension of \<open>value_base\<close>, says which properties
  of values loading keeps, and is interpreted once for the absence of code and once for the heap being closed;
  \<open>key_map\<close> says what a cache promises to a client, and is interpreted for the four kinds of cache.

  \<^bold>\<open>What is proved.\<close>

  \<^item> Buffers: integers written are read back at every width, sign and byte order, the optimised readers agree with the
    loops, the stores for old browsers put the same bytes into a plain object; every encoding is read back; the UTF-8 decoder always gives
    well-formed text, and a write in UTF-8 without a length stores whole characters; \<open>copy\<close>, \<open>slice\<close>, \<open>concat\<close>, \<open>fill\<close>, \<open>compare\<close> and the searches meet their specifications
    (\<open>Codec_Laws\<close>, \<open>Buffer_Ops_Laws\<close>, \<open>Search_Laws\<close>).
  \<^item> YAML: a string dumped in any of the five styles is loaded again (\<open>Yaml_String_Round\<close>, on top of \<open>Yaml_Quote_Laws\<close>,
    \<open>Yaml_Block_Laws\<close>, \<open>Yaml_Fold_Laws\<close>, \<open>Yaml_Top_Scalar\<close>, \<open>Yaml_String_Laws\<close>); integers up to \<open>2 ^ 53\<close> are read back in every base
    (\<open>Yaml_Int_Laws\<close>, on top of \<open>Number_Laws\<close>, which shows that such numbers are not rounded and printed with all their digits); the compilation of schemas keeps the type declared last (\<open>Yaml_Schema_Laws\<close>), and a
    schema made by \<open>Schema.create\<close> finds its own types first and otherwise those it includes, while every wrong call has its
    own message (\<open>Yaml_Create\<close>); on every input loading ends, and the safe functions return no function and no regular expression (\<open>Yaml_Reader_Laws\<close>, \<open>Yaml_Heap_Laws\<close>,
    \<open>Yaml_Compose_Laws\<close>, \<open>Yaml_Node_Laws\<close>, \<open>Yaml_Load_Total\<close>, \<open>Yaml_Load_Laws\<close>).
  \<^item> Delayed calls: the last call is answered when calls pause, every call within \<open>maxWait\<close>, none twice, and none
    before a pause (\<open>Debounce_Laws\<close>).
  \<^item> Promises: a promise is settled once, reactions run once and in order (\<open>Promise_Laws\<close>), and for a chain of \<open>then\<close> the jobs
    alone compute the composition of its functions in the error monad (\<open>Promise_Chain\<close>).
  \<^item> Requests: search strings and forms are read back, a server gets the credentials where it expects them, and no link has
    the scheme \<open>javascript\<close> or \<open>data\<close> (\<open>Web_Url_Laws\<close>, \<open>Web_Auth\<close>).
  \<^item> Samples: a sample has the type, the enumeration, the properties and the elements of its schema, limits apart
    (\<open>Schema_Sample_Laws\<close>), and a sample in XML, made by writing into the schema, is that of a reference that passes names and
    examples as arguments (\<open>Schema_Xml_Laws\<close>).
  \<^item> Caches: every sequence of operations on a \<open>MapCache\<close> answers as a finite map does (\<open>Cache_Laws\<close>); a memoized function
    returns what its function returns and calls it once for each key, and a capped cache stays within 500 keys
    (\<open>Memo_Laws\<close>).
  \<^item> Parameters of operations: which values of an integer parameter are accepted, missing ones included (\<open>Param_Validate_Laws\<close>).
  \<^item> Plugins: \<open>register\<close> ends, and the wrappers of an action are applied in the order of the plugins, however these are
    nested (\<open>Plugin_Laws\<close>).

  \<^bold>\<open>Bounds.\<close>  Loops that end for a reason that the text of the code shows are functions with a measure.  The readers of
  nodes, sequences, mappings and flow collections call each other through \<open>composeNode\<close>; they take a bound on the
  depth and on the rounds of each loop, twice the length of the input and ten more, and the theorem that loading ends
  says that on no input the bound is reached.  The dumper visits a heap without
  cycles to the depth of the number of its cells plus two.  A plugin may be a function that returns a plugin, without end;
  the functions on plugins take a depth, and the theorem on \<open>register\<close> gives one from which on they return.  The samples in XML
  take the depth of the schema.  Promises have no bound: a run is a sequence of steps in which jobs, tasks and other events come in any order, and
  the theorem on chains gives the number of jobs after which the queue is empty.  The scans of the YAML loader over characters
  of one kind are \<open>takeWhile\<close> on the text; \<open>scan_steps\<close> in \<open>Yaml_Reader_Laws\<close>, which the proof that loading ends applies to each of them,
  shows that they stop inside the text, since their condition fails at the 0 that ends it.

  \<^bold>\<open>Parameters.\<close>  The number format of \<open>ieee754\<close>, the JavaScript parser \<open>esprima\<close> and the text of a function, the
  text of values in messages, the time, the function that is delayed or memoized, the functions of the application that
  promises and plugins call, for the validators \<open>Date.parse\<close>, \<open>JSON.parse\<close> and the patterns of a specification, and for the samples the text of XML and JSON.

  \<^bold>\<open>Not modelled.\<close>  The rest of the Swagger UI application: the reducers and selectors work on the persistent maps
  of the library Immutable and the store is one of the library redux, which \<open>swagger-ui.js\<close> requires from outside, and the
  React components draw the page.  In the plugin system, objects that two plugins share and names that objects inherit are not modelled;
  in the samples in XML an example read under the name of an inherited method is an error.  Of the parts
  above: the listener of the YAML loader, the text of a key that is an object with a function as \<open>toString\<close> and a
  scalar tag on a value that is already constructed (both give \<open>NotModelled\<close>), the branch of \<open>buffer\<close> for browsers without typed
  arrays except its integer stores, subclasses of promises, sending of the token request.  The other libraries in
  the bundles, \<open>swagger-ui-standalone-preset.js\<close>, and the chain itself, which is written in Go, are outside of this
  development.
\<close>

end
